(* ===== verification/Prelude.thy ===== *)
theory Prelude
  imports Main "HOL-Library.AList" "HOL-Library.Multiset" "HOL-Library.List_Lexorder"
    "HOL-Library.Char_ord"
begin

text \<open>
  Shared vocabulary of the development.

  \<^item> Errors are values: a command is a function from a state to a pair of a result
    (\<^typ>\<open>'e + 'a\<close>, the left summand being the thrown error) and the state the code leaves
    behind, also when it throws.
  \<^item> A JavaScript \<open>Map\<close>, and a record used as a dictionary, is an association list in
    insertion order: \<open>set\<close> on a present key keeps its position, on an absent key appends;
    these are exactly \<^const>\<open>AList.update\<close> and \<^const>\<open>AList.delete\<close>.
  \<^item> Numbers the code keeps in strings are decimal literals; \<open>number_of_string\<close> is the
    part of \<open>Number(text)\<close> the code relies on (signed decimal digits and the empty string;
    the exotic literals \<open>1e3\<close>, \<open>0x10\<close> and surrounding blanks are read as not a number).
  \<^item> Strings are compared lexicographically by code unit, which is the order of
    \<^theory_text>\<open>List_Lexorder\<close> on character lists.
\<close>

named_theorems cmd_simps \<open>result and resulting state of each command\<close>
named_theorems frame_simps \<open>what a command leaves unchanged\<close>
named_theorems inv_intros \<open>preservation of the invariants\<close>

section \<open>Commands that may throw\<close>

type_synonym ('s, 'e, 'a) cmd = "'s \<Rightarrow> ('e + 'a) \<times> 's"

definition ret :: "'a \<Rightarrow> ('s, 'e, 'a) cmd" where
  "ret x = (\<lambda>s. (Inr x, s))"

definition throw :: "'e \<Rightarrow> ('s, 'e, 'a) cmd" where
  "throw e = (\<lambda>s. (Inl e, s))"

definition andThen :: "('s, 'e, 'a) cmd \<Rightarrow> ('a \<Rightarrow> ('s, 'e, 'b) cmd) \<Rightarrow> ('s, 'e, 'b) cmd" where
  "andThen m f = (\<lambda>s. case m s of (Inl e, s') \<Rightarrow> (Inl e, s') | (Inr x, s') \<Rightarrow> f x s')"

text \<open>\<open>try ... catch\<close>: the handler gets the state the failed action left.\<close>

definition try_catch :: "('s, 'e, 'a) cmd \<Rightarrow> ('e \<Rightarrow> ('s, 'e, 'a) cmd) \<Rightarrow> ('s, 'e, 'a) cmd" where
  "try_catch f h = (\<lambda>s. case f s of (Inl e, s') \<Rightarrow> h e s' | (Inr x, s') \<Rightarrow> (Inr x, s'))"

text \<open>Run commands for their effect, stopping at the first that throws.\<close>

fun run_all :: "('s, 'e, 'a) cmd list \<Rightarrow> ('s, 'e, unit) cmd" where
  "run_all [] = ret ()"
| "run_all (m # ms) = andThen m (\<lambda>_. run_all ms)"

lemma ret_app [simp]: "ret x s = (Inr x, s)"
  by (simp add: ret_def)

lemma throw_app [simp]: "throw e s = (Inl e, s)"
  by (simp add: throw_def)

lemma andThen_app:
  "andThen m f s = (case fst (m s) of Inl e \<Rightarrow> (Inl e, snd (m s)) | Inr x \<Rightarrow> f x (snd (m s)))"
  by (simp add: andThen_def split: prod.split sum.split)

lemma andThen_ok [simp]: "fst (m s) = Inr x \<Longrightarrow> andThen m f s = f x (snd (m s))"
  by (simp add: andThen_app)

lemma andThen_err [simp]: "fst (m s) = Inl e \<Longrightarrow> andThen m f s = (Inl e, snd (m s))"
  by (simp add: andThen_app)

lemma andThen_pair_ok [simp]: "m s = (Inr x, s') \<Longrightarrow> andThen m f s = f x s'"
  by (simp add: andThen_def)

lemma andThen_pair_err [simp]: "m s = (Inl e, s') \<Longrightarrow> andThen m f s = (Inl e, s')"
  by (simp add: andThen_def)

lemma andThen_invariant:
  assumes "I (snd (m s))" and "\<And>x s'. m s = (Inr x, s') \<Longrightarrow> I s' \<Longrightarrow> I (snd (f x s'))"
  shows "I (snd (andThen m f s))"
  using assms by (cases "m s") (auto simp: andThen_def split: sum.split)

section \<open>Insertion-ordered maps\<close>

abbreviation keys_of :: "('k \<times> 'v) list \<Rightarrow> 'k set" where
  "keys_of m \<equiv> fst ` set m"

abbreviation wf_map :: "('k \<times> 'v) list \<Rightarrow> bool" where
  "wf_map m \<equiv> distinct (map fst m)"

definition has_key :: "('k \<times> 'v) list \<Rightarrow> 'k \<Rightarrow> bool" where
  "has_key m k = (map_of m k \<noteq> None)"

lemma has_key_iff: "has_key m k \<longleftrightarrow> k \<in> keys_of m"
  by (simp add: has_key_def map_of_eq_None_iff)

lemma map_of_update [simp]: "map_of (AList.update k v m) = (map_of m)(k \<mapsto> v)"
  by (simp add: update_conv')

lemma map_of_delete [simp]: "map_of (AList.delete k m) = (map_of m)(k := None)"
  by (simp add: delete_conv')

lemma wf_map_update [simp]: "wf_map m \<Longrightarrow> wf_map (AList.update k v m)"
  by (rule distinct_update)

lemma wf_map_delete [simp]: "wf_map m \<Longrightarrow> wf_map (AList.delete k m)"
  by (rule distinct_delete)

lemma keys_of_update [simp]: "keys_of (AList.update k v m) = insert k (keys_of m)"
  using dom_update[of k v m] by (simp add: dom_map_of_conv_image_fst)

lemma keys_of_delete [simp]: "keys_of (AList.delete k m) = keys_of m - {k}"
  by (auto simp: AList.delete_eq image_iff)

lemma size_wf_map: "wf_map m \<Longrightarrow> length m = card (keys_of m)"
  by (metis distinct_card length_map list.set_map)

lemma length_update:
  "wf_map m \<Longrightarrow> length (AList.update k v m) = (if k \<in> keys_of m then length m else Suc (length m))"
  by (simp add: size_wf_map insert_absorb)

lemma length_delete:
  "wf_map m \<Longrightarrow> length (AList.delete k m) = (if k \<in> keys_of m then length m - 1 else length m)"
  by (simp add: size_wf_map)

lemma length_delete_le: "length (AList.delete k m) \<le> length m"
  by (simp add: AList.delete_eq)

lemma update_not_nil [simp]: "AList.update k v m \<noteq> []"
  by (cases m) auto

lemma wf_map_filter [simp]: "wf_map m \<Longrightarrow> wf_map (filter P m)"
  by (simp add: distinct_map_filter)

lemma map_of_filter_wf:
  "wf_map m \<Longrightarrow> map_of (filter P m) k = (case map_of m k of None \<Rightarrow> None
     | Some v \<Rightarrow> if P (k, v) then Some v else None)"
  by (induction m) (auto simp: map_of_eq_None_iff split: option.splits)

text \<open>\<open>new Map(entries)\<close>: each pair is set in turn.\<close>

definition map_from_pairs :: "('k \<times> 'v) list \<Rightarrow> ('k \<times> 'v) list" where
  "map_from_pairs ps = fold (\<lambda>(k, v) m. AList.update k v m) ps []"

lemma update_fresh: "k \<notin> keys_of m \<Longrightarrow> AList.update k v m = m @ [(k, v)]"
  by (induction m) auto

lemma fold_update_append:
  "wf_map (m @ ps) \<Longrightarrow> fold (\<lambda>(k, v) m. AList.update k v m) ps m = m @ ps"
proof (induction ps arbitrary: m)
  case (Cons p ps)
  obtain k v where p: "p = (k, v)" by (cases p)
  have "k \<notin> fst ` set m" using Cons.prems p by auto
  then have "AList.update k v m = m @ [(k, v)]"
    by (rule update_fresh)
  then show ?case using Cons p by simp
qed simp

lemma map_from_pairs_id [simp]: "wf_map ps \<Longrightarrow> map_from_pairs ps = ps"
  using fold_update_append[of "[]" ps] by (simp add: map_from_pairs_def)

lemma wf_map_fold_update:
  "wf_map m \<Longrightarrow> wf_map (fold (\<lambda>(k, v) m. AList.update k v m) ps m)"
  by (induction ps arbitrary: m) (auto simp: case_prod_beta)

lemma wf_map_from_pairs [simp]: "wf_map (map_from_pairs ps)"
  unfolding map_from_pairs_def by (rule wf_map_fold_update) simp

section \<open>Numbers kept as strings\<close>

text \<open>\<open>String(n)\<close> and \<open>Number(text)\<close> on integers. The code writes counters, scores and
  time stamps into string fields and reads them back.\<close>

definition decimal_digits :: string where
  "decimal_digits = ''0123456789''"

definition digit_value :: "char \<Rightarrow> nat option" where
  "digit_value c = map_of (zip decimal_digits [0..<10]) c"

fun digits_of_nat :: "nat \<Rightarrow> string" where
  "digits_of_nat n = (if n < 10 then [decimal_digits ! n]
     else digits_of_nat (n div 10) @ [decimal_digits ! (n mod 10)])"

declare digits_of_nat.simps [simp del]

definition string_of_int :: "int \<Rightarrow> string" where
  "string_of_int i = (if i < 0 then CHR ''-'' # digits_of_nat (nat (- i)) else digits_of_nat (nat i))"

fun nat_of_digits :: "nat \<Rightarrow> string \<Rightarrow> nat option" where
  "nat_of_digits acc [] = Some acc"
| "nat_of_digits acc (c # cs) = (case digit_value c of None \<Rightarrow> None
     | Some d \<Rightarrow> nat_of_digits (10 * acc + d) cs)"

text \<open>The test \<open>/^-?\d+$/\<close> together with the value of the digits.\<close>

definition int_of_string :: "string \<Rightarrow> int option" where
  "int_of_string s = (case s of [] \<Rightarrow> None
     | c # cs \<Rightarrow> if c = CHR ''-''
         then (if cs = [] then None else map_option (\<lambda>n. - int n) (nat_of_digits 0 cs))
         else map_option int (nat_of_digits 0 (c # cs)))"

text \<open>\<open>Number(text)\<close>: the empty text is 0, other non-numerals are not a number.\<close>

definition number_of_string :: "string \<Rightarrow> int option" where
  "number_of_string s = (if s = [] then Some 0 else int_of_string s)"

lemma less_10_cases: "(d::nat) < 10 \<Longrightarrow> d \<in> {0, 1, 2, 3, 4, 5, 6, 7, 8, 9}"
  by auto

lemma digit_value_digit [simp]: "d < 10 \<Longrightarrow> digit_value (decimal_digits ! d) = Some d"
  by (drule less_10_cases) (auto simp: digit_value_def decimal_digits_def upt_rec)

lemma digit_not_minus [simp]: "d < 10 \<Longrightarrow> decimal_digits ! d \<noteq> CHR ''-''"
  by (drule less_10_cases) (auto simp: decimal_digits_def)

lemma nat_of_digits_append:
  "nat_of_digits acc (xs @ ys) = (case nat_of_digits acc xs of None \<Rightarrow> None
     | Some acc' \<Rightarrow> nat_of_digits acc' ys)"
  by (induction acc xs rule: nat_of_digits.induct) (auto split: option.splits)

lemma nat_of_digits_of_nat [simp]: "nat_of_digits 0 (digits_of_nat n) = Some n"
proof (induction n rule: digits_of_nat.induct)
  case (1 n)
  show ?case
  proof (cases "n < 10")
    case True then show ?thesis by (simp add: digits_of_nat.simps[of n])
  next
    case False
    then show ?thesis using 1 by (simp add: digits_of_nat.simps[of n] nat_of_digits_append)
  qed
qed

lemma digits_of_nat_not_Nil [simp]: "digits_of_nat n \<noteq> []"
  by (simp add: digits_of_nat.simps[of n])

lemma hd_digits_of_nat: "hd (digits_of_nat n) \<noteq> CHR ''-''"
proof (induction n rule: digits_of_nat.induct)
  case (1 n) then show ?case
    by (cases "n < 10") (simp_all add: digits_of_nat.simps[of n])
qed

lemma int_of_string_of_int [simp]: "int_of_string (string_of_int i) = Some i"
proof (cases "i < 0")
  case True then show ?thesis by (simp add: string_of_int_def int_of_string_def)
next
  case False
  obtain c cs where *: "digits_of_nat (nat i) = c # cs" by (cases "digits_of_nat (nat i)") auto
  have "c \<noteq> CHR ''-''" using hd_digits_of_nat[of "nat i"] * by simp
  moreover have "nat_of_digits 0 (c # cs) = Some (nat i)" using nat_of_digits_of_nat[of "nat i"] * by simp
  ultimately show ?thesis using False * by (simp add: string_of_int_def int_of_string_def)
qed

lemma string_of_int_not_Nil [simp]: "string_of_int i \<noteq> []"
  by (simp add: string_of_int_def)

lemma number_of_string_of_int [simp]: "number_of_string (string_of_int i) = Some i"
  by (simp add: number_of_string_def)

lemma string_of_int_inject [simp]: "string_of_int i = string_of_int j \<longleftrightarrow> i = j"
  by (metis int_of_string_of_int option.inject)

text \<open>\<open>text.trim().length === 0\<close>, for the blanks below code 256.\<close>

definition is_blank_char :: "char \<Rightarrow> bool" where
  "is_blank_char c = (let n = of_char c :: nat in (9 \<le> n \<and> n \<le> 13) \<or> n = 32 \<or> n = 160)"

definition blank :: "string \<Rightarrow> bool" where
  "blank text = list_all is_blank_char text"

text \<open>\<open>text.trim()\<close> with the same blanks, and \<open>text.toUpperCase()\<close> on the letters of ASCII.\<close>

definition trim_text :: "string \<Rightarrow> string" where
  "trim_text text = rev (dropWhile is_blank_char (rev (dropWhile is_blank_char text)))"

definition upper_char :: "char \<Rightarrow> char" where
  "upper_char c = (case map_of (zip ''abcdefghijklmnopqrstuvwxyz'' ''ABCDEFGHIJKLMNOPQRSTUVWXYZ'') c of
     None \<Rightarrow> c | Some u \<Rightarrow> u)"

definition to_upper :: "string \<Rightarrow> string" where
  "to_upper text = map upper_char text"

section \<open>Untrusted JSON values\<close>

text \<open>A value of type \<open>unknown\<close>: what \<open>JSON.parse\<close> yields. A property read from a value that is
  not there is \<open>undefined\<close> (\<open>None\<close>). \<open>JFraction\<close> stands for a number that is not an integer.\<close>

datatype json =
    JNull
  | JBool bool
  | JNum int
  | JFraction
  | JStr string
  | JArr "json list"
  | JObj "(string \<times> json) list"

fun json_field :: "json \<Rightarrow> string \<Rightarrow> json option" where
  "json_field (JObj fields) k = map_of fields k"
| "json_field _ k = None"

fun as_string :: "json \<Rightarrow> string option" where
  "as_string (JStr s) = Some s"
| "as_string _ = None"

fun as_int :: "json \<Rightarrow> int option" where
  "as_int (JNum i) = Some i"
| "as_int _ = None"

fun map_option_all :: "('a \<Rightarrow> 'b option) \<Rightarrow> 'a list \<Rightarrow> 'b list option" where
  "map_option_all f [] = Some []"
| "map_option_all f (x # xs) = (case f x of None \<Rightarrow> None
     | Some y \<Rightarrow> (case map_option_all f xs of None \<Rightarrow> None | Some ys \<Rightarrow> Some (y # ys)))"

lemma map_option_all_map:
  "(\<And>x. x \<in> set xs \<Longrightarrow> f (g x) = Some (h x)) \<Longrightarrow> map_option_all f (map g xs) = Some (map h xs)"
  by (induction xs) auto

lemma map_option_all_Some_length: "map_option_all f xs = Some ys \<Longrightarrow> length ys = length xs"
  by (induction xs arbitrary: ys) (auto split: option.splits)

lemma map_option_all_Some_set:
  "map_option_all f xs = Some ys \<Longrightarrow> y \<in> set ys \<Longrightarrow> \<exists>x\<in>set xs. f x = Some y"
  by (induction xs arbitrary: ys) (auto split: option.splits)

section \<open>Coded errors\<close>

text \<open>\<open>errors.ts\<close>: an error is its code; conflicts are a class of their own.\<close>

datatype coded_error = DomainError string | ConflictError string

fun error_code :: "coded_error \<Rightarrow> string" where
  "error_code (DomainError code) = code"
| "error_code (ConflictError code) = code"

section \<open>Numbers per player\<close>

text \<open>\<open>values[playerId] ?? fallback\<close>.\<close>

definition value_at :: "('k \<times> 'v) list \<Rightarrow> 'k \<Rightarrow> 'v \<Rightarrow> 'v" where
  "value_at m k fallback = (case map_of m k of None \<Rightarrow> fallback | Some v \<Rightarrow> v)"

lemma value_at_update [simp]:
  "value_at (AList.update k v m) j d = (if j = k then v else value_at m j d)"
  by (simp add: value_at_def)

text \<open>\<open>indexOf\<close>: the first position, or -1.\<close>

definition index_of :: "'a \<Rightarrow> 'a list \<Rightarrow> int" where
  "index_of x xs = (if x \<in> set xs then int (length (takeWhile (\<lambda>y. y \<noteq> x) xs)) else - 1)"

lemma takeWhile_neq_less: "x \<in> set xs \<Longrightarrow> length (takeWhile (\<lambda>y. y \<noteq> x) xs) < length xs"
  by (induction xs) auto

lemma nth_takeWhile_neq: "x \<in> set xs \<Longrightarrow> xs ! length (takeWhile (\<lambda>y. y \<noteq> x) xs) = x"
  by (induction xs) auto

lemma index_of_nth: "x \<in> set xs \<Longrightarrow> xs ! nat (index_of x xs) = x \<and> 0 \<le> index_of x xs \<and> nat (index_of x xs) < length xs"
  by (simp add: index_of_def takeWhile_neq_less nth_takeWhile_neq)

text \<open>Overwriting one entry changes a sum over all entries by that entry.\<close>

lemma sum_list_update_entry:
  fixes f :: "'v \<Rightarrow> 'b :: comm_monoid_add"
  shows "wf_map m \<Longrightarrow> map_of m k = Some v \<Longrightarrow>
    sum_list (map (\<lambda>e. f (snd e)) (AList.update k v' m)) + f v = sum_list (map (\<lambda>e. f (snd e)) m) + f v'"
proof (induction m)
  case (Cons e m)
  show ?case
  proof (cases "fst e = k")
    case True
    then show ?thesis using Cons.prems by (cases e) (simp add: ac_simps)
  next
    case False
    then have "sum_list (map (\<lambda>e. f (snd e)) (AList.update k v' m)) + f v = sum_list (map (\<lambda>e. f (snd e)) m) + f v'"
      using Cons by (cases e) simp
    then show ?thesis using False by (cases e) (simp add: add.assoc)
  qed
qed simp

lemma update_same: "map_of m k = Some v \<Longrightarrow> AList.update k v m = m"
  by (induction m) (auto split: if_splits)

section \<open>Stable sorting by a comparator\<close>

text \<open>\<open>Array.prototype.sort(cmp)\<close> is stable: equal elements keep their order.\<close>

fun insert_by :: "('a \<Rightarrow> 'a \<Rightarrow> int) \<Rightarrow> 'a \<Rightarrow> 'a list \<Rightarrow> 'a list" where
  "insert_by cmp x [] = [x]"
| "insert_by cmp x (y # ys) = (if cmp x y \<le> 0 then x # y # ys else y # insert_by cmp x ys)"

definition sort_by :: "('a \<Rightarrow> 'a \<Rightarrow> int) \<Rightarrow> 'a list \<Rightarrow> 'a list" where
  "sort_by cmp xs = foldr (insert_by cmp) xs []"

lemma mset_insert_by [simp]: "mset (insert_by cmp x xs) = add_mset x (mset xs)"
  by (induction xs) auto

lemma mset_sort_by [simp]: "mset (sort_by cmp xs) = mset xs"
  by (induction xs) (auto simp: sort_by_def)

lemma set_sort_by [simp]: "set (sort_by cmp xs) = set xs"
  by (metis mset_sort_by set_mset_mset)

lemma length_sort_by [simp]: "length (sort_by cmp xs) = length xs"
  by (metis mset_sort_by size_mset)

lemma distinct_sort_by [simp]: "distinct (sort_by cmp xs) = distinct xs"
  by (metis mset_sort_by mset_eq_imp_distinct_iff)

lemma set_insert_by [simp]: "set (insert_by cmp x xs) = insert x (set xs)"
  by (metis mset_insert_by set_mset_add_mset_insert set_mset_mset)

text \<open>An interface: a comparator that orders the elements (total and transitive).\<close>

locale comparator =
  fixes cmp :: "'a \<Rightarrow> 'a \<Rightarrow> int"
  assumes cmp_total: "cmp x y \<le> 0 \<or> cmp y x \<le> 0"
    and cmp_trans: "cmp x y \<le> 0 \<Longrightarrow> cmp y z \<le> 0 \<Longrightarrow> cmp x z \<le> 0"
begin

lemma sorted_insert_by:
  "sorted_wrt (\<lambda>x y. cmp x y \<le> 0) xs \<Longrightarrow> sorted_wrt (\<lambda>x y. cmp x y \<le> 0) (insert_by cmp x xs)"
proof (induction xs)
  case (Cons y ys)
  then show ?case using cmp_total[of x y] cmp_trans[of x y] by auto
qed simp

lemma sorted_sort_by: "sorted_wrt (\<lambda>x y. cmp x y \<le> 0) (sort_by cmp xs)"
  by (induction xs) (auto simp: sort_by_def intro: sorted_insert_by)

end

end
