(* ===== verification/RedisTypes.thy ===== *)
theory RedisTypes
  imports Prelude "HOL-Library.Product_Lexorder"
begin

text \<open>
  Value model and keyspace of the in-process Redis (\<open>backend/src/infra/redisTypes.ts\<close>,
  \<open>redisKeyspace.ts\<close>, \<open>redisSnapshot.ts\<close>): entries with an optional absolute expiry, lazy
  expiry on access, the key cap with \<open>noeviction\<close>, the declaration check of atomic scripts,
  sweeping and snapshots.

  The store is the record \<open>keyspace\<close>. The clock is its field \<open>now\<close>: every command and every
  script runs at one instant, since the code runs them synchronously. Zset scores and all numbers
  are integers (the code stores time stamps and totals). A thrown \<open>Error\<close> is a
  \<open>redis_error\<close> and the store is returned as the code leaves it when it throws.
\<close>

section \<open>Values\<close>

datatype redis_value =
    StringV string
  | HashV "(string \<times> string) list"
  | ZsetV "(string \<times> int) list"

record redis_entry =
  e_value :: redis_value
  expiresAt :: "int option"

datatype redis_field = FStr string | FNum int

datatype redis_error =
    WRONGTYPE
  | NOT_INTEGER
  | OOM_MESSAGE
  | UNDECLARED_KEY string string
  | WRONG_ARITY string
  | HASH_VALUE_NOT_INTEGER
  | NOT_A_FLOAT
  | UNSUPPORTED_SET_OPTION string
  | STORE_NOT_EMPTY
  | BAD_SNAPSHOT_ENTRY
  | SLOT_MISMATCH string nat nat

definition DEFAULT_MAX_KEYS :: nat where
  "DEFAULT_MAX_KEYS = 100000"

definition is_safe_integer :: "int \<Rightarrow> bool" where
  "is_safe_integer i = (\<bar>i\<bar> \<le> 2 ^ 53 - 1)"

fun integer_of_field :: "redis_field \<Rightarrow> redis_error + int" where
  "integer_of_field (FNum i) = (if is_safe_integer i then Inr i else Inl NOT_INTEGER)"
| "integer_of_field (FStr s) = (case int_of_string s of None \<Rightarrow> Inl NOT_INTEGER
     | Some i \<Rightarrow> if is_safe_integer i then Inr i else Inl NOT_INTEGER)"

text \<open>\<open>String(field)\<close> and \<open>Number(field)\<close>.\<close>

fun field_string :: "redis_field \<Rightarrow> string" where
  "field_string (FStr s) = s"
| "field_string (FNum i) = string_of_int i"

fun field_number :: "redis_field \<Rightarrow> int option" where
  "field_number (FStr s) = number_of_string s"
| "field_number (FNum i) = Some i"

datatype score_bound = NegInf | PosInf | AtScore int | NotANumber

fun parseScoreBound :: "redis_field \<Rightarrow> score_bound" where
  "parseScoreBound v = (if v = FStr ''-inf'' then NegInf
     else if v = FStr ''+inf'' \<or> v = FStr ''inf'' then PosInf
     else (case field_number v of None \<Rightarrow> NotANumber | Some i \<Rightarrow> AtScore i))"

text \<open>\<open>low <= score\<close> and \<open>score <= high\<close>; a comparison with NaN is false.\<close>

fun bound_le_score :: "score_bound \<Rightarrow> int \<Rightarrow> bool" where
  "bound_le_score NegInf i = True"
| "bound_le_score PosInf i = False"
| "bound_le_score (AtScore j) i = (j \<le> i)"
| "bound_le_score NotANumber i = False"

fun score_le_bound :: "int \<Rightarrow> score_bound \<Rightarrow> bool" where
  "score_le_bound i NegInf = False"
| "score_le_bound i PosInf = True"
| "score_le_bound i (AtScore j) = (i \<le> j)"
| "score_le_bound i NotANumber = False"

section \<open>The keyspace\<close>

record keyspace =
  data :: "(string \<times> redis_entry) list"
  now :: int
  maxKeys :: nat
  scriptCreates :: "(string \<times> string list) option"

type_synonym 'a redis = "(keyspace, redis_error, 'a) cmd"

definition new_keyspace :: "int \<Rightarrow> nat \<Rightarrow> keyspace" where
  "new_keyspace t cap = \<lparr>data = [], now = t, maxKeys = cap, scriptCreates = None\<rparr>"

definition expired :: "int \<Rightarrow> redis_entry \<Rightarrow> bool" where
  "expired t e = (case expiresAt e of None \<Rightarrow> False | Some x \<Rightarrow> x \<le> t)"

definition put_entry :: "string \<Rightarrow> redis_entry \<Rightarrow> keyspace \<Rightarrow> keyspace" where
  "put_entry k e s = s\<lparr>data := AList.update k e (data s)\<rparr>"

definition drop_entry :: "string \<Rightarrow> keyspace \<Rightarrow> keyspace" where
  "drop_entry k s = s\<lparr>data := AList.delete k (data s)\<rparr>"

definition sweepExpired :: "nat redis" where
  "sweepExpired = (\<lambda>s. let kept = filter (\<lambda>(k, e). \<not> expired (now s) e) (data s) in
     (Inr (length (data s) - length kept), s\<lparr>data := kept\<rparr>))"

definition live :: "string \<Rightarrow> redis_entry option redis" where
  "live k = (\<lambda>s. case map_of (data s) k of
       None \<Rightarrow> (Inr None, s)
     | Some e \<Rightarrow> if expired (now s) e then (Inr None, drop_entry k s) else (Inr (Some e), s))"

definition hash_at :: "string \<Rightarrow> (string \<times> string) list option redis" where
  "hash_at k = andThen (live k) (\<lambda>entry. case entry of
       None \<Rightarrow> ret None
     | Some e \<Rightarrow> (case e_value e of HashV h \<Rightarrow> ret (Some h) | _ \<Rightarrow> throw WRONGTYPE))"

definition zset_at :: "string \<Rightarrow> (string \<times> int) list option redis" where
  "zset_at k = andThen (live k) (\<lambda>entry. case entry of
       None \<Rightarrow> ret None
     | Some e \<Rightarrow> (case e_value e of ZsetV z \<Rightarrow> ret (Some z) | _ \<Rightarrow> throw WRONGTYPE))"

definition string_at :: "string \<Rightarrow> string option redis" where
  "string_at k = andThen (live k) (\<lambda>entry. case entry of
       None \<Rightarrow> ret None
     | Some e \<Rightarrow> (case e_value e of StringV v \<Rightarrow> ret (Some v) | _ \<Rightarrow> throw WRONGTYPE))"

definition create :: "string \<Rightarrow> redis_entry \<Rightarrow> unit redis" where
  "create k e = (\<lambda>s.
     if scriptCreates s \<noteq> None \<and> \<not> has_key (data s) k then
       (if k \<notin> set (snd (the (scriptCreates s)))
        then (Inl (UNDECLARED_KEY (fst (the (scriptCreates s))) k), s)
        else (Inr (), put_entry k e s))
     else if \<not> has_key (data s) k \<and> maxKeys s \<le> length (data s) then
       (let s' = snd (sweepExpired s) in
        if maxKeys s' \<le> length (data s') then (Inl OOM_MESSAGE, s')
        else (Inr (), put_entry k e s'))
     else (Inr (), put_entry k e s))"

text \<open>The mutable hash behind a key is the entry's value; writing it back keeps the expiry.\<close>

definition store_value :: "string \<Rightarrow> redis_value \<Rightarrow> unit redis" where
  "store_value k v = (\<lambda>s. case map_of (data s) k of
       None \<Rightarrow> (Inr (), s)
     | Some e \<Rightarrow> (Inr (), put_entry k (e\<lparr>e_value := v\<rparr>) s))"

definition hashForWrite :: "string \<Rightarrow> (string \<times> string) list redis" where
  "hashForWrite k = andThen (hash_at k) (\<lambda>existing. case existing of
       Some h \<Rightarrow> ret h
     | None \<Rightarrow> andThen (create k \<lparr>e_value = HashV [], expiresAt = None\<rparr>) (\<lambda>_. ret []))"

definition dropIfEmpty :: "string \<Rightarrow> 'v list \<Rightarrow> unit redis" where
  "dropIfEmpty k container = (\<lambda>s. (Inr (), if container = [] then drop_entry k s else s))"

section \<open>Admission of atomic scripts\<close>

text \<open>\<open>creatable.filter((key) => this.live(key) === undefined)\<close>: the keys the script may have
  to create; looking also drops the expired ones.\<close>

fun missing_keys :: "string list \<Rightarrow> string list redis" where
  "missing_keys [] = ret []"
| "missing_keys (k # ks) = andThen (live k) (\<lambda>entry. andThen (missing_keys ks)
     (\<lambda>ms. ret (if entry = None then k # ms else ms)))"

definition runAdmitted :: "string \<Rightarrow> string list \<Rightarrow> 'r redis \<Rightarrow> 'r redis" where
  "runAdmitted script creatable run = andThen (missing_keys creatable) (\<lambda>ms s.
     let missing = length (remdups ms);
         full = (0 < missing \<and> maxKeys s < length (data s) + missing);
         s1 = (if full then snd (sweepExpired s) else s)
     in if full \<and> maxKeys s1 < length (data s1) + missing then (Inl OOM_MESSAGE, s1)
        else (let (r, s2) = run (s1\<lparr>scriptCreates := Some (script, creatable)\<rparr>)
              in (r, s2\<lparr>scriptCreates := None\<rparr>)))"

section \<open>Snapshots\<close>

datatype snapshot_entry =
    SnapString string string "int option"
  | SnapHash string "(string \<times> string) list" "int option"
  | SnapZset string "(string \<times> int) list" "int option"

fun snap_key :: "snapshot_entry \<Rightarrow> string" where
  "snap_key (SnapString k v e) = k"
| "snap_key (SnapHash k v e) = k"
| "snap_key (SnapZset k v e) = k"

fun snap_expiry :: "snapshot_entry \<Rightarrow> int option" where
  "snap_expiry (SnapString k v e) = e"
| "snap_expiry (SnapHash k v e) = e"
| "snap_expiry (SnapZset k v e) = e"

text \<open>A string, or a container with at least one element.\<close>

fun snap_nonempty :: "snapshot_entry \<Rightarrow> bool" where
  "snap_nonempty (SnapString k v e) = True"
| "snap_nonempty (SnapHash k v e) = (0 < length v)"
| "snap_nonempty (SnapZset k v e) = (0 < length v)"

fun snapshot_entry_of :: "string \<times> redis_entry \<Rightarrow> snapshot_entry" where
  "snapshot_entry_of (k, e) = (case e_value e of
       StringV v \<Rightarrow> SnapString k v (expiresAt e)
     | HashV h \<Rightarrow> SnapHash k h (expiresAt e)
     | ZsetV z \<Rightarrow> SnapZset k z (expiresAt e))"

definition snapshotOf :: "keyspace \<Rightarrow> snapshot_entry list" where
  "snapshotOf s = map snapshot_entry_of (filter (\<lambda>(k, e). \<not> expired (now s) e) (data s))"

fun isPair :: "(json \<Rightarrow> 'v option) \<Rightarrow> json \<Rightarrow> (string \<times> 'v) option" where
  "isPair value_of (JArr [JStr k, v]) = map_option (Pair k) (value_of v)"
| "isPair value_of _ = None"

text \<open>\<open>isFiniteNumber\<close> admits fractions too; scores and expiries are written as integers.\<close>

definition parseEntry :: "json \<Rightarrow> redis_error + snapshot_entry" where
  "parseEntry raw = (case json_field raw ''k'' of
       Some (JStr k) \<Rightarrow>
         (if json_field raw ''e'' \<noteq> None \<and> as_int (the (json_field raw ''e'')) = None
          then Inl BAD_SNAPSHOT_ENTRY
          else let e = Option.bind (json_field raw ''e'') as_int in
            (case (json_field raw ''t'', json_field raw ''v'') of
               (Some (JStr t), Some v) \<Rightarrow>
                 (if t = ''s'' then (case v of JStr text \<Rightarrow> Inr (SnapString k text e)
                     | _ \<Rightarrow> Inl BAD_SNAPSHOT_ENTRY)
                  else if t = ''h'' then (case v of
                      JArr ps \<Rightarrow> (case map_option_all (isPair as_string) ps of
                           Some h \<Rightarrow> Inr (SnapHash k h e) | None \<Rightarrow> Inl BAD_SNAPSHOT_ENTRY)
                     | _ \<Rightarrow> Inl BAD_SNAPSHOT_ENTRY)
                  else if t = ''z'' then (case v of
                      JArr ps \<Rightarrow> (case map_option_all (isPair as_int) ps of
                           Some z \<Rightarrow> Inr (SnapZset k z e) | None \<Rightarrow> Inl BAD_SNAPSHOT_ENTRY)
                     | _ \<Rightarrow> Inl BAD_SNAPSHOT_ENTRY)
                  else Inl BAD_SNAPSHOT_ENTRY)
             | _ \<Rightarrow> Inl BAD_SNAPSHOT_ENTRY))
     | _ \<Rightarrow> Inl BAD_SNAPSHOT_ENTRY)"

text \<open>What \<open>JSON.stringify\<close> and \<open>JSON.parse\<close> make of a snapshot line.\<close>

fun expiry_json :: "int option \<Rightarrow> (string \<times> json) list" where
  "expiry_json None = []"
| "expiry_json (Some e) = [(''e'', JNum e)]"

fun snapshot_json :: "snapshot_entry \<Rightarrow> json" where
  "snapshot_json (SnapString k v e) =
     JObj ([(''k'', JStr k), (''t'', JStr ''s''), (''v'', JStr v)] @ expiry_json e)"
| "snapshot_json (SnapHash k h e) =
     JObj ([(''k'', JStr k), (''t'', JStr ''h''),
            (''v'', JArr (map (\<lambda>(f, v). JArr [JStr f, JStr v]) h))] @ expiry_json e)"
| "snapshot_json (SnapZset k z e) =
     JObj ([(''k'', JStr k), (''t'', JStr ''z''),
            (''v'', JArr (map (\<lambda>(m, sc). JArr [JStr m, JNum sc]) z))] @ expiry_json e)"

fun entry_of_snapshot :: "snapshot_entry \<Rightarrow> redis_entry" where
  "entry_of_snapshot (SnapString k v e) = \<lparr>e_value = StringV v, expiresAt = e\<rparr>"
| "entry_of_snapshot (SnapHash k h e) = \<lparr>e_value = HashV (map_from_pairs h), expiresAt = e\<rparr>"
| "entry_of_snapshot (SnapZset k z e) = \<lparr>e_value = ZsetV (map_from_pairs z), expiresAt = e\<rparr>"

fun parse_all :: "json list \<Rightarrow> redis_error + snapshot_entry list" where
  "parse_all [] = Inr []"
| "parse_all (j # js) = (case parseEntry j of Inl e \<Rightarrow> Inl e
     | Inr x \<Rightarrow> (case parse_all js of Inl e \<Rightarrow> Inl e | Inr xs \<Rightarrow> Inr (x # xs)))"

definition restoreInto :: "json list \<Rightarrow> nat redis" where
  "restoreInto raw = (\<lambda>s.
     if data s \<noteq> [] then (Inl STORE_NOT_EMPTY, s)
     else (case parse_all raw of Inl e \<Rightarrow> (Inl e, s)
       | Inr entries \<Rightarrow>
         (let alive = filter snap_nonempty (filter (\<lambda>x. case snap_expiry x of None \<Rightarrow> True
                        | Some e \<Rightarrow> now s < e) entries)
          in if maxKeys s < length alive then (Inl OOM_MESSAGE, s)
             else andThen (run_all (map (\<lambda>x. create (snap_key x) (entry_of_snapshot x)) alive))
                    (\<lambda>_. ret (length alive)) s)))"

end
