(* ===== verification/RedisCommands.thy ===== *)
theory RedisCommands
  imports RedisTypes
begin

text \<open>
  The commands of the in-process Redis: strings (\<open>redisStrings.ts\<close>), keys
  (\<open>redisKeyCommands.ts\<close>), hashes (\<open>redisHashes.ts\<close>) and sorted sets (\<open>redisZsets.ts\<close>), and the
  atomic-script surface of \<open>memoryRedis.ts\<close>.
\<close>

section \<open>Strings\<close>

definition redis_get :: "string \<Rightarrow> string option redis" where
  "redis_get k = string_at k"

datatype set_condition = NoCondition | IfNotExists | IfExists

text \<open>The options from position \<open>i\<close> on; \<open>EX\<close> and \<open>PX\<close> consume the next one (missing: \<open>''\<close>).\<close>

fun parseSetOptions :: "int \<Rightarrow> redis_field list \<Rightarrow> int option \<Rightarrow> set_condition
    \<Rightarrow> redis_error + (int option \<times> set_condition)" where
  "parseSetOptions t [] expiry cond = Inr (expiry, cond)"
| "parseSetOptions t (x # xs) expiry cond =
     (let option = map upper_char (field_string x) in
      if option = ''EX'' \<or> option = ''PX'' then
        (case xs of
           [] \<Rightarrow> Inl NOT_INTEGER
         | a # rest \<Rightarrow> (case integer_of_field a of Inl e \<Rightarrow> Inl e
             | Inr amount \<Rightarrow> parseSetOptions t rest
                 (Some (t + (if option = ''EX'' then amount * 1000 else amount))) cond))
      else if option = ''NX'' then parseSetOptions t xs expiry IfNotExists
      else if option = ''XX'' then parseSetOptions t xs expiry IfExists
      else Inl (UNSUPPORTED_SET_OPTION option))"

text \<open>\<open>SET key value [EX s | PX ms] [NX | XX]\<close>: \<open>True\<close> is \<open>'OK'\<close>, \<open>False\<close> is \<open>null\<close>.\<close>

definition redis_set :: "string \<Rightarrow> redis_field \<Rightarrow> redis_field list \<Rightarrow> bool redis" where
  "redis_set k value options = (\<lambda>s. case parseSetOptions (now s) options None NoCondition of
       Inl e \<Rightarrow> (Inl e, s)
     | Inr (expiry, cond) \<Rightarrow>
         andThen (live k) (\<lambda>current.
           if (cond = IfNotExists \<and> current \<noteq> None) \<or> (cond = IfExists \<and> current = None) then ret False
           else (let entry = \<lparr>e_value = StringV (field_string value), expiresAt = expiry\<rparr> in
             if current \<noteq> None then (\<lambda>s. (Inr True, put_entry k entry s))
             else andThen (create k entry) (\<lambda>_. ret True))) s)"

definition getdel :: "string \<Rightarrow> string option redis" where
  "getdel k = andThen (string_at k) (\<lambda>value s.
     (Inr value, if value \<noteq> None then drop_entry k s else s))"

section \<open>Keys\<close>

fun exists_keys :: "string list \<Rightarrow> nat redis" where
  "exists_keys [] = ret 0"
| "exists_keys (k # ks) = andThen (live k) (\<lambda>entry. andThen (exists_keys ks)
     (\<lambda>n. ret (if entry \<noteq> None then Suc n else n)))"

fun del_keys :: "string list \<Rightarrow> nat redis" where
  "del_keys [] = ret 0"
| "del_keys (k # ks) = andThen (live k) (\<lambda>entry.
     if entry \<noteq> None then (\<lambda>s. andThen (del_keys ks) (\<lambda>n. ret (Suc n)) (drop_entry k s))
     else del_keys ks)"

definition pexpire :: "string \<Rightarrow> redis_field \<Rightarrow> int redis" where
  "pexpire k milliseconds = andThen (live k) (\<lambda>entry. case entry of
       None \<Rightarrow> ret 0
     | Some e \<Rightarrow> (case integer_of_field milliseconds of
           Inl err \<Rightarrow> throw err
         | Inr ms \<Rightarrow> (\<lambda>s. if ms \<le> 0 then (Inr 1, drop_entry k s)
             else (Inr 1, put_entry k (e\<lparr>expiresAt := Some (now s + ms)\<rparr>) s))))"

definition expire_key :: "string \<Rightarrow> redis_field \<Rightarrow> int redis" where
  "expire_key k seconds = (case integer_of_field seconds of
       Inl err \<Rightarrow> throw err
     | Inr n \<Rightarrow> pexpire k (FNum (n * 1000)))"

definition pttl :: "string \<Rightarrow> int redis" where
  "pttl k = andThen (live k) (\<lambda>entry. case entry of
       None \<Rightarrow> ret (- 2)
     | Some e \<Rightarrow> (case expiresAt e of None \<Rightarrow> ret (- 1) | Some x \<Rightarrow> (\<lambda>s. (Inr (x - now s), s))))"

text \<open>\<open>Math.round(ms / 1000)\<close> rounds halves up.\<close>

definition ttl_key :: "string \<Rightarrow> int redis" where
  "ttl_key k = andThen (pttl k) (\<lambda>ms. ret (if ms < 0 then ms else (ms + 500) div 1000))"

definition flushall :: "unit redis" where
  "flushall = (\<lambda>s. (Inr (), s\<lparr>data := []\<rparr>))"

section \<open>Hashes\<close>

datatype hset_args = HRecord "(string \<times> redis_field) list" | HFlat "redis_field list"

fun pairs_of_flat :: "redis_field list \<Rightarrow> (string \<times> string) list" where
  "pairs_of_flat (f # v # rest) = (field_string f, field_string v) # pairs_of_flat rest"
| "pairs_of_flat _ = []"

fun toPairs :: "hset_args \<Rightarrow> redis_error + (string \<times> string) list" where
  "toPairs (HRecord r) = Inr (map (\<lambda>(f, v). (f, field_string v)) r)"
| "toPairs (HFlat args) = (if args = [] \<or> length args mod 2 \<noteq> 0 then Inl (WRONG_ARITY ''hset'')
     else Inr (pairs_of_flat args))"

definition set_fields :: "(string \<times> 'v) list \<Rightarrow> (string \<times> 'v) list \<Rightarrow> (string \<times> 'v) list" where
  "set_fields pairs m = fold (\<lambda>(f, v) h. AList.update f v h) pairs m"

fun count_added :: "(string \<times> 'v) list \<Rightarrow> (string \<times> 'v) list \<Rightarrow> nat" where
  "count_added [] m = 0"
| "count_added ((f, v) # ps) m =
     (if has_key m f then 0 else 1) + count_added ps (AList.update f v m)"

definition hset :: "string \<Rightarrow> hset_args \<Rightarrow> nat redis" where
  "hset k args = (case toPairs args of
       Inl e \<Rightarrow> throw e
     | Inr pairs \<Rightarrow> andThen (hashForWrite k) (\<lambda>h.
         andThen (store_value k (HashV (set_fields pairs h))) (\<lambda>_. ret (count_added pairs h))))"

definition hget :: "string \<Rightarrow> redis_field \<Rightarrow> string option redis" where
  "hget k field = andThen (hash_at k) (\<lambda>h. ret (case h of None \<Rightarrow> None
     | Some m \<Rightarrow> map_of m (field_string field)))"

definition hgetall :: "string \<Rightarrow> (string \<times> string) list redis" where
  "hgetall k = andThen (hash_at k) (\<lambda>h. ret (case h of None \<Rightarrow> [] | Some m \<Rightarrow> m))"

definition remove_fields :: "string list \<Rightarrow> (string \<times> 'v) list \<Rightarrow> (string \<times> 'v) list" where
  "remove_fields fs m = fold AList.delete fs m"

fun count_removed :: "string list \<Rightarrow> (string \<times> 'v) list \<Rightarrow> nat" where
  "count_removed [] m = 0"
| "count_removed (f # fs) m = (if has_key m f then 1 else 0) + count_removed fs (AList.delete f m)"

definition hdel :: "string \<Rightarrow> redis_field list \<Rightarrow> nat redis" where
  "hdel k names = andThen (hash_at k) (\<lambda>h. case h of
       None \<Rightarrow> ret 0
     | Some m \<Rightarrow> (let fs = map field_string names; m' = remove_fields fs m in
         andThen (store_value k (HashV m')) (\<lambda>_. andThen (dropIfEmpty k m')
           (\<lambda>_. ret (count_removed fs m)))))"

definition hexists :: "string \<Rightarrow> redis_field \<Rightarrow> nat redis" where
  "hexists k field = andThen (hash_at k) (\<lambda>h. ret (case h of None \<Rightarrow> 0
     | Some m \<Rightarrow> if has_key m (field_string field) then 1 else 0))"

definition hlen :: "string \<Rightarrow> nat redis" where
  "hlen k = andThen (hash_at k) (\<lambda>h. ret (case h of None \<Rightarrow> 0 | Some m \<Rightarrow> length m))"

definition hkeys :: "string \<Rightarrow> string list redis" where
  "hkeys k = andThen (hash_at k) (\<lambda>h. ret (case h of None \<Rightarrow> [] | Some m \<Rightarrow> map fst m))"

definition hincrby :: "string \<Rightarrow> redis_field \<Rightarrow> redis_field \<Rightarrow> int redis" where
  "hincrby k field increment = (case integer_of_field increment of
       Inl e \<Rightarrow> throw e
     | Inr step \<Rightarrow> andThen (hashForWrite k) (\<lambda>h.
         (case number_of_string (case map_of h (field_string field) of None \<Rightarrow> ''0'' | Some v \<Rightarrow> v) of
            None \<Rightarrow> throw HASH_VALUE_NOT_INTEGER
          | Some current \<Rightarrow> (let next = current + step in
              andThen (store_value k (HashV (AList.update (field_string field) (string_of_int next) h)))
                (\<lambda>_. ret next)))))"

section \<open>Sorted sets\<close>

fun toScoredMembers :: "redis_field list \<Rightarrow> redis_error + (string \<times> int) list" where
  "toScoredMembers (score # member # rest) = (case field_number score of
       None \<Rightarrow> Inl NOT_A_FLOAT
     | Some sc \<Rightarrow> (case toScoredMembers rest of Inl e \<Rightarrow> Inl e
         | Inr ps \<Rightarrow> Inr ((field_string member, sc) # ps)))"
| "toScoredMembers _ = Inr []"

definition zadd :: "string \<Rightarrow> redis_field list \<Rightarrow> nat redis" where
  "zadd k args = (if args = [] \<or> length args mod 2 \<noteq> 0 then throw (WRONG_ARITY ''zadd'')
     else (case toScoredMembers args of Inl e \<Rightarrow> throw e
       | Inr pairs \<Rightarrow> andThen (zset_at k) (\<lambda>zo. andThen
           (case zo of Some z \<Rightarrow> ret z
             | None \<Rightarrow> andThen (create k \<lparr>e_value = ZsetV [], expiresAt = None\<rparr>) (\<lambda>_. ret []))
           (\<lambda>z. andThen (store_value k (ZsetV (set_fields pairs z)))
             (\<lambda>_. ret (count_added pairs z))))))"

definition sorted_zset :: "(string \<times> int) list \<Rightarrow> string list" where
  "sorted_zset z = map fst (sort_key (\<lambda>(member, score). (score, member)) z)"

definition sortedMembers :: "string \<Rightarrow> string list redis" where
  "sortedMembers k = andThen (zset_at k) (\<lambda>z. ret (case z of None \<Rightarrow> [] | Some m \<Rightarrow> sorted_zset m))"

definition clampRange :: "int \<Rightarrow> int \<Rightarrow> int \<Rightarrow> int \<times> int" where
  "clampRange len start stop =
     (let from = (if start < 0 then start + len else start);
          to = (if stop < 0 then stop + len else stop)
      in (if from < 0 then 0 else from, if to \<ge> len then len - 1 else to))"

definition slice :: "'a list \<Rightarrow> int \<Rightarrow> int \<Rightarrow> 'a list" where
  "slice xs from to = take (nat (to - from)) (drop (nat from) xs)"

definition zrange :: "string \<Rightarrow> redis_field \<Rightarrow> redis_field \<Rightarrow> string list redis" where
  "zrange k start stop = andThen (sortedMembers k) (\<lambda>members.
     (case integer_of_field start of Inl e \<Rightarrow> throw e
      | Inr i \<Rightarrow> (case integer_of_field stop of Inl e \<Rightarrow> throw e
         | Inr j \<Rightarrow> (let (from, to) = clampRange (int (length members)) i j in
             ret (if from > to then [] else slice members from (to + 1))))))"

definition zrem :: "string \<Rightarrow> redis_field list \<Rightarrow> nat redis" where
  "zrem k members = andThen (zset_at k) (\<lambda>z. case z of
       None \<Rightarrow> ret 0
     | Some m \<Rightarrow> (let ms = map field_string members; m' = remove_fields ms m in
         andThen (store_value k (ZsetV m')) (\<lambda>_. andThen (dropIfEmpty k m')
           (\<lambda>_. ret (count_removed ms m)))))"

definition zremrangebyscore :: "string \<Rightarrow> redis_field \<Rightarrow> redis_field \<Rightarrow> nat redis" where
  "zremrangebyscore k lo hi = andThen (zset_at k) (\<lambda>z. case z of
       None \<Rightarrow> ret 0
     | Some m \<Rightarrow> (let low = parseScoreBound lo; high = parseScoreBound hi;
           m' = filter (\<lambda>(member, score). \<not> (bound_le_score low score \<and> score_le_bound score high)) m in
         andThen (store_value k (ZsetV m')) (\<lambda>_. andThen (dropIfEmpty k m')
           (\<lambda>_. ret (length m - length m')))))"

section \<open>Atomic scripts\<close>

record 'r atomic_script =
  script_name :: string
  script_keys :: nat
  script_args :: nat
  script_creates :: "nat list"
  script_run :: "string list \<Rightarrow> string list \<Rightarrow> 'r redis"

definition SLOT_COUNT :: nat where
  "SLOT_COUNT = 8"

definition toSlots :: "string \<Rightarrow> nat \<Rightarrow> redis_field list \<Rightarrow> redis_error + string list" where
  "toSlots script expected values = (if length values \<noteq> expected
     then Inl (SLOT_MISMATCH script expected (length values))
     else Inr (map field_string values @ replicate (SLOT_COUNT - length values) []))"

definition UNLOCK_IF_OWNER :: "nat atomic_script" where
  "UNLOCK_IF_OWNER = \<lparr>script_name = ''unlockIfOwner'', script_keys = 1, script_args = 1,
     script_creates = [],
     script_run = (\<lambda>keys args. let lock = keys ! 0; token = args ! 0 in
       andThen (redis_get lock) (\<lambda>owner. if owner = Some token then del_keys [lock] else ret 0))\<rparr>"

text \<open>\<open>MemoryRedis\<close>: the store and the number of write commands it has received.\<close>

record memory_redis =
  core :: keyspace
  changes :: nat

definition runAtomic :: "'r atomic_script \<Rightarrow> string list \<Rightarrow> redis_field list
    \<Rightarrow> (memory_redis, redis_error, 'r) cmd" where
  "runAtomic script keys args = (\<lambda>m0. let m = m0\<lparr>changes := changes m0 + 1\<rparr> in
     case toSlots (script_name script) (script_keys script) (map FStr keys) of
       Inl e \<Rightarrow> (Inl e, m)
     | Inr keySlots \<Rightarrow> (case toSlots (script_name script) (script_args script) args of
         Inl e \<Rightarrow> (Inl e, m)
       | Inr argSlots \<Rightarrow>
           (let creatable = map (\<lambda>i. keys ! i) (script_creates script);
                (r, s) = runAdmitted (script_name script) creatable
                  (script_run script keySlots argSlots) (core m)
            in (r, m\<lparr>core := s\<rparr>))))"

end
