(* ===== verification/RedisInvariant.thy ===== *)
theory RedisInvariant
  imports RedisCommands
begin

text \<open>
  What every command keeps. The contract \<open>keyspace_invariant\<close> says how little a predicate on the
  store has to satisfy (dropping a key, overwriting a present key, creating a key, sweeping) for all
  commands to preserve it; it is interpreted for well-formedness and for the two forms of the key
  cap, outside and inside an atomic script.
\<close>

section \<open>Well-formed stores\<close>

fun wf_value :: "redis_value \<Rightarrow> bool" where
  "wf_value (StringV v) = True"
| "wf_value (HashV h) = wf_map h"
| "wf_value (ZsetV z) = wf_map z"

definition wf_store :: "keyspace \<Rightarrow> bool" where
  "wf_store s = (wf_map (data s) \<and> (\<forall>(k, e) \<in> set (data s). wf_value (e_value e)))"

definition within_cap :: "keyspace \<Rightarrow> bool" where
  "within_cap s = (length (data s) \<le> maxKeys s)"

lemma wf_storeD: "wf_store s \<Longrightarrow> map_of (data s) k = Some e \<Longrightarrow> wf_value (e_value e)"
  by (auto simp: wf_store_def dest: map_of_SomeD)

lemma wf_map_set_fields [simp]: "wf_map m \<Longrightarrow> wf_map (set_fields ps m)"
  unfolding set_fields_def by (rule wf_map_fold_update)

lemma wf_map_remove_fields [simp]: "wf_map m \<Longrightarrow> wf_map (remove_fields fs m)"
  by (induction fs arbitrary: m) (auto simp: remove_fields_def)

section \<open>Elementary facts on the accessors\<close>

lemma live_Some: "live k s = (Inr (Some e), s') \<longleftrightarrow>
    s' = s \<and> map_of (data s) k = Some e \<and> \<not> expired (now s) e"
  by (auto simp: live_def split: option.splits)

lemma live_Inl [simp]: "live k s \<noteq> (Inl e, s')"
  by (auto simp: live_def split: option.splits)

lemma fst_live_Inl [simp]: "fst (live k s) \<noteq> Inl e"
  by (auto simp: live_def split: option.splits)

lemma snd_hash_at [simp]: "snd (hash_at k s) = snd (live k s)"
  and snd_zset_at [simp]: "snd (zset_at k s) = snd (live k s)"
  and snd_string_at [simp]: "snd (string_at k s) = snd (live k s)"
  by (auto simp: hash_at_def zset_at_def string_at_def andThen_app
      split: sum.splits option.splits redis_value.splits)

lemma hash_at_Some: "hash_at k s = (Inr (Some h), s') \<Longrightarrow>
    s' = s \<and> (\<exists>e. map_of (data s) k = Some e \<and> e_value e = HashV h)"
  by (auto simp: hash_at_def andThen_def live_def
      split: sum.splits option.splits redis_value.splits if_splits prod.splits)

lemma zset_at_Some: "zset_at k s = (Inr (Some h), s') \<Longrightarrow>
    s' = s \<and> (\<exists>e. map_of (data s) k = Some e \<and> e_value e = ZsetV h)"
  by (auto simp: zset_at_def andThen_def live_def
      split: sum.splits option.splits redis_value.splits if_splits prod.splits)

section \<open>Invariants of the keyspace\<close>

locale keyspace_invariant =
  fixes I :: "keyspace \<Rightarrow> bool"
  assumes drop: "I s \<Longrightarrow> I (drop_entry k s)"
    and overwrite: "\<lbrakk>I s; map_of (data s) k = Some e; wf_value v\<rbrakk>
      \<Longrightarrow> I (put_entry k \<lparr>e_value = v, expiresAt = x\<rparr> s)"
    and create: "\<lbrakk>I s; wf_value (e_value e)\<rbrakk> \<Longrightarrow> I (snd (create k e s))"
    and sweep: "I s \<Longrightarrow> I (snd (sweepExpired s))"
    and clear: "I s \<Longrightarrow> I (s\<lparr>data := []\<rparr>)"
    and value_wf: "\<lbrakk>I s; map_of (data s) k = Some e\<rbrakk> \<Longrightarrow> wf_value (e_value e)"
begin

lemma bind:
  "I (snd (m s)) \<Longrightarrow> (\<And>x s'. m s = (Inr x, s') \<Longrightarrow> I s' \<Longrightarrow> I (snd (f x s'))) \<Longrightarrow> I (snd (andThen m f s))"
  by (rule andThen_invariant[of I])

lemma live [intro]: "I s \<Longrightarrow> I (snd (live k s))"
  by (auto simp: live_def drop split: option.splits)

lemma live_pair: "live k s = (r, s') \<Longrightarrow> I s \<Longrightarrow> I s'"
  using live[of s k] by simp

lemma store_value [intro!]: "I s \<Longrightarrow> wf_value v \<Longrightarrow> I (snd (store_value k v s))"
proof (cases "map_of (data s) k")
  case (Some e)
  assume "I s" "wf_value v"
  then have "I (put_entry k \<lparr>e_value = v, expiresAt = expiresAt e\<rparr> s)"
    using overwrite[OF _ Some] by blast
  then show ?thesis by (cases e) (simp add: store_value_def Some)
qed (simp add: store_value_def)

lemma dropIfEmpty [intro]: "I s \<Longrightarrow> I (snd (dropIfEmpty k c s))"
  by (simp add: dropIfEmpty_def drop)

lemma hash_value: "hash_at k s = (Inr (Some h), s') \<Longrightarrow> I s \<Longrightarrow> wf_map h"
  using value_wf by (fastforce dest: hash_at_Some)

lemma zset_value: "zset_at k s = (Inr (Some h), s') \<Longrightarrow> I s \<Longrightarrow> wf_map h"
  using value_wf by (fastforce dest: zset_at_Some)

lemma hashForWrite [intro]: "I s \<Longrightarrow> I (snd (hashForWrite k s))"
  unfolding hashForWrite_def
  by (rule bind) (auto intro!: bind create live split: option.split)

lemma hashForWrite_value: "hashForWrite k s = (Inr h, s') \<Longrightarrow> I s \<Longrightarrow> wf_map h"
  by (auto simp: hashForWrite_def andThen_def dest: hash_value
      split: sum.splits option.splits prod.splits)

lemma redis_get [intro]: "I s \<Longrightarrow> I (snd (redis_get k s))"
  by (auto simp: redis_get_def)

lemma redis_set [intro]:
  assumes "I s" shows "I (snd (redis_set k v opts s))"
proof (cases "parseSetOptions (now s) opts None NoCondition")
  case (Inl e) then show ?thesis using assms by (simp add: redis_set_def)
next
  case (Inr p)
  obtain x c where p: "p = (x, c)" by (cases p)
  show ?thesis unfolding redis_set_def Inr p sum.case prod.case
  proof (rule bind)
    show "I (snd (live k s))" using assms by auto
    fix cur s' assume *: "live k s = (Inr cur, s')" and "I s'"
    then show "I (snd ((if (c = IfNotExists \<and> cur \<noteq> None) \<or> (c = IfExists \<and> cur = None) then ret False
           else (let entry = \<lparr>e_value = StringV (field_string v), expiresAt = x\<rparr> in
             if cur \<noteq> None then (\<lambda>s. (Inr True, put_entry k entry s))
             else andThen (create k entry) (\<lambda>_. ret True))) s'))"
      by (cases cur) (auto simp: Let_def live_Some intro!: overwrite bind create)
  qed
qed

lemma getdel [intro]: "I s \<Longrightarrow> I (snd (getdel k s))"
  unfolding getdel_def by (rule bind) (auto intro: drop)

lemma exists_keys [intro]: "I s \<Longrightarrow> I (snd (exists_keys ks s))"
proof (induction ks arbitrary: s)
  case (Cons k ks) then show ?case by (simp only: exists_keys.simps) (intro bind live Cons.IH; simp)
qed simp

lemma del_keys [intro]: "I s \<Longrightarrow> I (snd (del_keys ks s))"
proof (induction ks arbitrary: s)
  case (Cons k ks)
  have rest: "I s' \<Longrightarrow> I (snd (andThen (del_keys ks) (\<lambda>n. ret (Suc n)) s'))" for s'
    by (rule bind) (auto intro: Cons.IH)
  show ?case unfolding del_keys.simps
    by (rule bind) (use Cons.prems in \<open>auto intro: rest drop Cons.IH\<close>)
qed simp

lemma pexpire [intro]: "I s \<Longrightarrow> I (snd (pexpire k ms s))"
proof -
  assume "I s"
  have upd: "e\<lparr>expiresAt := x\<rparr> = \<lparr>e_value = e_value e, expiresAt = x\<rparr>" for e :: redis_entry and x
    by simp
  show ?thesis unfolding pexpire_def
  proof (rule bind)
    fix cur s' assume *: "live k s = (Inr cur, s')" and "I s'"
    then show "I (snd ((case cur of None \<Rightarrow> ret 0
       | Some e \<Rightarrow> (case integer_of_field ms of
           Inl err \<Rightarrow> throw err
         | Inr ms \<Rightarrow> (\<lambda>s. if ms \<le> 0 then (Inr 1, drop_entry k s)
             else (Inr 1, put_entry k (e\<lparr>expiresAt := Some (now s + ms)\<rparr>) s)))) s'))"
      by (auto simp: live_Some upd intro!: drop overwrite value_wf split: option.split sum.split)
  qed (use \<open>I s\<close> in auto)
qed

lemma expire_key [intro]: "I s \<Longrightarrow> I (snd (expire_key k n s))"
  by (auto simp: expire_key_def split: sum.split)

lemma pttl [intro]: "I s \<Longrightarrow> I (snd (pttl k s))"
  unfolding pttl_def by (rule bind) (auto split: option.split)

lemma ttl_key [intro]: "I s \<Longrightarrow> I (snd (ttl_key k s))"
  unfolding ttl_key_def by (rule bind) auto

lemma flushall [intro]: "I s \<Longrightarrow> I (snd (flushall s))"
  by (simp add: flushall_def clear)

lemma hset [intro]: "I s \<Longrightarrow> I (snd (hset k args s))"
  by (auto simp: hset_def intro!: bind dest: hashForWrite_value split: sum.split)

lemma hash_read: "I s \<Longrightarrow> I (snd (andThen (hash_at k) (\<lambda>h. ret (f h)) s))"
  by (rule bind) auto

lemma hash_reads [intro]:
  "I s \<Longrightarrow> I (snd (hget k f s))" "I s \<Longrightarrow> I (snd (hgetall k s))"
  "I s \<Longrightarrow> I (snd (hexists k f s))" "I s \<Longrightarrow> I (snd (hlen k s))" "I s \<Longrightarrow> I (snd (hkeys k s))"
  by (simp_all add: hget_def hgetall_def hexists_def hlen_def hkeys_def hash_read)

lemma hdel [intro]: "I s \<Longrightarrow> I (snd (hdel k fs s))"
  unfolding hdel_def Let_def
  by (rule bind) (auto intro!: bind dest: hash_value split: option.split)

lemma hincrby [intro]: "I s \<Longrightarrow> I (snd (hincrby k f n s))"
  by (auto simp: hincrby_def Let_def intro!: bind wf_map_update dest!: hashForWrite_value
      split: sum.split option.split)

lemma zadd [intro]: "I s \<Longrightarrow> I (snd (zadd k args s))"
  unfolding zadd_def
  by (auto intro!: bind create wf_map_set_fields dest!: zset_value split: sum.split option.splits)
    (auto simp: andThen_def split: sum.splits prod.splits)

lemma zrange [intro]: "I s \<Longrightarrow> I (snd (zrange k i j s))"
  by (auto simp: zrange_def sortedMembers_def Let_def intro!: bind
      split: sum.split prod.split)

lemma zrem [intro]: "I s \<Longrightarrow> I (snd (zrem k ms s))"
  unfolding zrem_def Let_def
  by (rule bind) (auto intro!: bind dest: zset_value split: option.split)

lemma zremrangebyscore [intro]: "I s \<Longrightarrow> I (snd (zremrangebyscore k lo hi s))"
  unfolding zremrangebyscore_def Let_def
proof (rule bind, goal_cases)
  case (2 z s')
  then show ?case
    by (cases z) (auto intro!: bind wf_map_filter simp del: wf_map_filter dest: zset_value)
qed auto

end

end
