(* ===== verification/RedisStore.thy ===== *)
theory RedisStore
  imports RedisInvariant
begin

text \<open>
  The store seen from outside: the keys that are alive at the current instant (\<open>visible\<close>), how each
  command changes them, the key cap over all histories of commands, scripts and clock ticks,
  the admission of atomic scripts and the snapshot round trip.
\<close>

section \<open>The visible store\<close>

definition visible :: "keyspace \<Rightarrow> string \<Rightarrow> redis_entry option" where
  "visible s k = (case map_of (data s) k of None \<Rightarrow> None
     | Some e \<Rightarrow> if expired (now s) e then None else Some e)"

lemma now_put [simp]: "now (put_entry k e s) = now s" "now (drop_entry k s) = now s"
  and maxKeys_put [simp]: "maxKeys (put_entry k e s) = maxKeys s" "maxKeys (drop_entry k s) = maxKeys s"
  and scriptCreates_put [simp]: "scriptCreates (put_entry k e s) = scriptCreates s"
    "scriptCreates (drop_entry k s) = scriptCreates s"
  and data_put [simp]: "data (put_entry k e s) = AList.update k e (data s)"
    "data (drop_entry k s) = AList.delete k (data s)"
  by (simp_all add: put_entry_def drop_entry_def)

lemma visible_put: "visible (put_entry k e s) = (visible s)(k := if expired (now s) e then None else Some e)"
  by (rule ext) (auto simp: visible_def split: option.split)

lemma visible_drop: "visible (drop_entry k s) = (visible s)(k := None)"
  by (rule ext) (auto simp: visible_def split: option.split)

lemma live_frame [simp]:
  "now (snd (live k s)) = now s" "maxKeys (snd (live k s)) = maxKeys s"
  "scriptCreates (snd (live k s)) = scriptCreates s"
  by (auto simp: live_def split: option.split)

lemma visible_live [simp]: "visible (snd (live k s)) = visible s"
  by (rule ext) (auto simp: live_def visible_def split: option.split)

lemma fst_live [simp]: "fst (live k s) = Inr (visible s k)"
  by (auto simp: live_def visible_def split: option.split)

lemma has_key_live: "has_key (data (snd (live k s))) k \<longleftrightarrow> visible s k \<noteq> None"
  by (auto simp: live_def visible_def has_key_def split: option.split)

lemma wf_store_put: "wf_store s \<Longrightarrow> wf_value (e_value e) \<Longrightarrow> wf_store (put_entry k e s)"
proof -
  assume wf: "wf_store s" and e: "wf_value (e_value e)"
  have "wf_value (e_value x)" if "(k', x) \<in> set (AList.update k e (data s))" for k' x
  proof -
    have "map_of (AList.update k e (data s)) k' = Some x"
      using that wf by (intro map_of_is_SomeI wf_map_update) (auto simp: wf_store_def)
    then have "x = e \<or> map_of (data s) k' = Some x" unfolding map_of_update by (auto split: if_splits)
    then show ?thesis using wf e wf_storeD by auto
  qed
  then show ?thesis using wf by (auto simp: wf_store_def)
qed

lemma wf_store_drop: "wf_store s \<Longrightarrow> wf_store (drop_entry k s)"
  by (auto simp: wf_store_def AList.delete_eq distinct_map_filter)

lemma wf_store_sweep: "wf_store s \<Longrightarrow> wf_store (snd (sweepExpired s))"
  by (auto simp: wf_store_def sweepExpired_def Let_def distinct_map_filter)

lemma wf_store_sub [simp]: "wf_store (s\<lparr>scriptCreates := c\<rparr>) = wf_store s"
  "wf_store (s\<lparr>now := t\<rparr>) = wf_store s"
  by (simp_all add: wf_store_def)

lemma wf_store_create: "wf_store s \<Longrightarrow> wf_value (e_value e) \<Longrightarrow> wf_store (snd (create k e s))"
  by (auto simp: create_def Let_def intro: wf_store_put wf_store_sweep)

lemma wf_store_clear: "wf_store (s\<lparr>data := []\<rparr>)"
  by (simp add: wf_store_def)

interpretation wf: keyspace_invariant wf_store
  by unfold_locales
    (auto intro: wf_store_drop wf_store_put wf_store_create wf_store_sweep wf_storeD wf_store_clear)

lemma sweep_frame [simp]:
  "now (snd (sweepExpired s)) = now s" "maxKeys (snd (sweepExpired s)) = maxKeys s"
  "scriptCreates (snd (sweepExpired s)) = scriptCreates s"
  "data (snd (sweepExpired s)) = filter (\<lambda>(k, e). \<not> expired (now s) e) (data s)"
  by (simp_all add: sweepExpired_def Let_def)

lemma visible_sweep [simp]: "wf_store s \<Longrightarrow> visible (snd (sweepExpired s)) = visible s"
  by (rule ext) (auto simp: visible_def wf_store_def map_of_filter_wf split: option.split)

section \<open>The key cap\<close>

text \<open>Outside a script: at most \<open>maxKeys\<close> keys. Inside a script: at most \<open>maxKeys\<close> keys even after
  all declared keys have been created.\<close>

definition cap_outside :: "keyspace \<Rightarrow> bool" where
  "cap_outside s = (wf_store s \<and> scriptCreates s = None \<and> within_cap s)"

definition cap_inside :: "string list \<Rightarrow> keyspace \<Rightarrow> bool" where
  "cap_inside D s = (wf_store s \<and> (\<exists>n. scriptCreates s = Some (n, D))
     \<and> card (keys_of (data s) \<union> set D) \<le> maxKeys s)"

lemma create_cap_outside:
  "cap_outside s \<Longrightarrow> wf_value (e_value e) \<Longrightarrow> cap_outside (snd (create k e s))"
proof -
  assume s: "cap_outside s" and e: "wf_value (e_value e)"
  let ?s' = "snd (sweepExpired s)"
  have d: "wf_map (data s)" "wf_map (data ?s')"
    using s wf_store_sweep[of s] unfolding cap_outside_def wf_store_def by auto
  have le: "length (data ?s') \<le> maxKeys s"
    using s by (auto simp: cap_outside_def within_cap_def intro: le_trans[OF length_filter_le])
  have "wf_store (snd (create k e s))" using s e wf_store_create cap_outside_def by blast
  moreover have "within_cap (snd (create k e s)) \<and> scriptCreates (snd (create k e s)) = None"
  proof (cases "has_key (data s) k")
    case True then show ?thesis using s d
      by (simp add: create_def within_cap_def cap_outside_def length_update has_key_iff)
  next
    case False
    then have "k \<notin> keys_of (data ?s')" by (auto simp: has_key_iff)
    then have "length (AList.update k e (data ?s')) = Suc (length (data ?s'))"
      using d length_update by metis
    then show ?thesis using s d le False
      by (auto simp: create_def Let_def within_cap_def cap_outside_def length_update has_key_iff)
  qed
  ultimately show ?thesis by (simp add: cap_outside_def)
qed

lemma cap_outside_drop: "cap_outside s \<Longrightarrow> cap_outside (drop_entry k s)"
  using wf_store_drop[of s k] length_delete_le[of k "data s"]
  by (auto simp: cap_outside_def within_cap_def)

lemma cap_outside_overwrite:
  "cap_outside s \<Longrightarrow> map_of (data s) k = Some e \<Longrightarrow> wf_value v
    \<Longrightarrow> cap_outside (put_entry k \<lparr>e_value = v, expiresAt = x\<rparr> s)"
  using wf_store_put[of s "\<lparr>e_value = v, expiresAt = x\<rparr>" k]
  by (auto simp: cap_outside_def within_cap_def wf_store_def length_update
      dest!: map_of_SomeD split: if_splits) force

interpretation outside: keyspace_invariant cap_outside
proof unfold_locales
  show "cap_outside s \<Longrightarrow> cap_outside (snd (sweepExpired s))" for s
    using wf_store_sweep[of s]
    by (auto simp: cap_outside_def within_cap_def intro: le_trans[OF length_filter_le])
  show "cap_outside s \<Longrightarrow> cap_outside (s\<lparr>data := []\<rparr>)" for s
    using wf_store_clear[of s] by (simp add: cap_outside_def within_cap_def)
  show "cap_outside s \<Longrightarrow> map_of (data s) k = Some e \<Longrightarrow> wf_value (e_value e)" for s k e
    using wf_storeD by (auto simp: cap_outside_def)
qed (auto intro: cap_outside_drop cap_outside_overwrite create_cap_outside)

lemma finite_keys [simp]: "finite (keys_of (m :: ('a \<times> 'b) list) \<union> set D)"
  by simp

lemma cap_inside_keys:
  "cap_inside D s \<Longrightarrow> keys_of (data s') \<subseteq> keys_of (data s) \<union> set D \<Longrightarrow> wf_store s' \<Longrightarrow>
    scriptCreates s' = scriptCreates s \<Longrightarrow> maxKeys s' = maxKeys s \<Longrightarrow> cap_inside D s'"
proof -
  assume a: "cap_inside D s" "keys_of (data s') \<subseteq> keys_of (data s) \<union> set D" "wf_store s'"
    "scriptCreates s' = scriptCreates s" "maxKeys s' = maxKeys s"
  have "card (keys_of (data s') \<union> set D) \<le> card (keys_of (data s) \<union> set D)"
    by (rule card_mono) (use a in auto)
  then show ?thesis using a by (auto simp: cap_inside_def)
qed

lemma create_cap_inside:
  "cap_inside D s \<Longrightarrow> wf_value (e_value e) \<Longrightarrow> cap_inside D (snd (create k e s))"
proof (rule cap_inside_keys[of D s], assumption)
  assume s: "cap_inside D s" and e: "wf_value (e_value e)"
  from s obtain n where n: "scriptCreates s = Some (n, D)" by (auto simp: cap_inside_def)
  show "keys_of (data (snd (create k e s))) \<subseteq> keys_of (data s) \<union> set D"
    and "scriptCreates (snd (create k e s)) = scriptCreates s"
    and "maxKeys (snd (create k e s)) = maxKeys s"
    by (auto simp: create_def n has_key_iff Let_def)
  show "wf_store (snd (create k e s))" using s e wf_store_create cap_inside_def by blast
qed

interpretation inside: keyspace_invariant "cap_inside D" for D
proof unfold_locales
  fix s k assume s: "cap_inside D s"
  show "cap_inside D (drop_entry k s)"
    by (rule cap_inside_keys[OF s]) (use s in \<open>auto simp: cap_inside_def intro: wf_store_drop\<close>)
  show "cap_inside D (snd (sweepExpired s))"
    by (rule cap_inside_keys[OF s]) (use s in \<open>auto simp: cap_inside_def intro: wf_store_sweep\<close>)
  show "cap_inside D (s\<lparr>data := []\<rparr>)"
    by (rule cap_inside_keys[OF s]) (use s in \<open>auto simp: cap_inside_def wf_store_def\<close>)
  show "cap_inside D (put_entry k \<lparr>e_value = v, expiresAt = x\<rparr> s)"
    if "map_of (data s) k = Some e" "wf_value v" for e v x
    by (rule cap_inside_keys[OF s])
      (use s that in \<open>auto simp: cap_inside_def intro: wf_store_put dest: map_of_SomeD intro!: rev_image_eqI\<close>)
  show "wf_value (e_value e) \<Longrightarrow> cap_inside D (snd (create k e s))" for e
    using create_cap_inside[OF s] .
  show "map_of (data s) k = Some e \<Longrightarrow> wf_value (e_value e)" for e
    using s wf_storeD by (auto simp: cap_inside_def)
qed

section \<open>Admission of a script\<close>

lemma missing_keys_spec:
  assumes "wf_store s"
  shows "\<exists>s'. missing_keys D s = (Inr (filter (\<lambda>k. visible s k = None) D), s')
    \<and> data s' = filter (\<lambda>(k, e). \<not> (k \<in> set D \<and> expired (now s) e)) (data s)
    \<and> now s' = now s \<and> maxKeys s' = maxKeys s \<and> scriptCreates s' = scriptCreates s"
  using assms
proof (induction D arbitrary: s)
  case Nil
  have "filter (\<lambda>(k, e). True) (data s) = data s" by (rule filter_True) auto
  then show ?case by simp
next
  case (Cons k D)
  let ?s1 = "snd (live k s)"
  have wf1: "wf_store ?s1" using wf.live Cons.prems by blast
  have d1: "data ?s1 = filter (\<lambda>(k', e). \<not> (k' = k \<and> expired (now s) e)) (data s)"
  proof (cases "map_of (data s) k")
    case None
    then have "k \<notin> keys_of (data s)" by (simp add: map_of_eq_None_iff)
    then have "filter (\<lambda>(k', e). \<not> (k' = k \<and> expired (now s) e)) (data s) = data s"
      by (intro filter_True) force
    then show ?thesis using None by (simp add: live_def)
  next
    case (Some e)
    have only: "e' = e" if "(k, e') \<in> set (data s)" for e'
      using that Some Cons.prems by (auto simp: wf_store_def)
    show ?thesis
    proof (cases "expired (now s) e")
      case True
      have "AList.delete k (data s) = filter (\<lambda>(k', e). \<not> (k' = k \<and> expired (now s) e)) (data s)"
        unfolding AList.delete_eq using only True by (intro filter_cong) auto
      then show ?thesis using Some True by (simp add: live_def)
    next
      case False
      have "filter (\<lambda>(k', e). \<not> (k' = k \<and> expired (now s) e)) (data s) = data s"
        using only False by (intro filter_True) auto
      then show ?thesis using Some False by (simp add: live_def)
    qed
  qed
  obtain s' where s': "missing_keys D ?s1 = (Inr (filter (\<lambda>k. visible s k = None) D), s')"
    "data s' = filter (\<lambda>(k, e). \<not> (k \<in> set D \<and> expired (now s) e)) (data ?s1)"
    "now s' = now s" "maxKeys s' = maxKeys s" "scriptCreates s' = scriptCreates s"
    using Cons.IH[OF wf1] by auto
  have "missing_keys (k # D) s = (Inr (filter (\<lambda>k. visible s k = None) (k # D)), s')"
    by (simp add: s'(1))
  moreover have "data s' = filter (\<lambda>(k', e). \<not> (k' \<in> set (k # D) \<and> expired (now s) e)) (data s)"
    unfolding s'(2) d1 filter_filter by (intro filter_cong) auto
  ultimately show ?case using s' by blast
qed

text \<open>The store in which the admitted script starts, or nothing when it is refused.\<close>

definition admission :: "string list \<Rightarrow> keyspace \<Rightarrow> bool \<times> keyspace" where
  "admission D s = (let s0 = snd (missing_keys D s);
      missing = length (remdups (filter (\<lambda>k. visible s k = None) D));
      full = (0 < missing \<and> maxKeys s < length (data s0) + missing);
      s1 = (if full then snd (sweepExpired s0) else s0)
    in (\<not> (full \<and> maxKeys s < length (data s1) + missing), s1))"

lemma runAdmitted_admission:
  assumes "wf_store s"
  shows "runAdmitted n D run s = (if fst (admission D s)
     then (let (r, s2) = run ((snd (admission D s))\<lparr>scriptCreates := Some (n, D)\<rparr>)
           in (r, s2\<lparr>scriptCreates := None\<rparr>))
     else (Inl OOM_MESSAGE, snd (admission D s)))"
proof -
  obtain s' where "missing_keys D s = (Inr (filter (\<lambda>k. visible s k = None) D), s')"
    and "maxKeys s' = maxKeys s"
    using missing_keys_spec[OF assms] by blast
  then show ?thesis by (auto simp: runAdmitted_def admission_def Let_def)
qed

lemma wf_missing_keys: "wf_store s \<Longrightarrow> wf_store (snd (missing_keys D s))"
proof (induction D arbitrary: s)
  case (Cons k D)
  then have "wf_store (snd (missing_keys D (snd (live k s))))" using wf.live by blast
  then show ?case by (auto simp: andThen_app split: sum.split)
qed simp

lemma admission_frame:
  assumes "wf_store s"
  shows "now (snd (admission D s)) = now s" "maxKeys (snd (admission D s)) = maxKeys s"
    "scriptCreates (snd (admission D s)) = scriptCreates s"
    "wf_store (snd (admission D s))" "visible (snd (admission D s)) = visible s"
proof -
  obtain s' where s': "missing_keys D s = (Inr (filter (\<lambda>k. visible s k = None) D), s')"
    "data s' = filter (\<lambda>(k, e). \<not> (k \<in> set D \<and> expired (now s) e)) (data s)"
    "now s' = now s" "maxKeys s' = maxKeys s" "scriptCreates s' = scriptCreates s"
    using missing_keys_spec[OF assms] by blast
  have v: "visible s' = visible s"
    by (rule ext) (use assms in \<open>auto simp: visible_def s' wf_store_def map_of_filter_wf split: option.split\<close>)
  have wf': "wf_store s'" using wf_missing_keys[OF assms, of D] s' by simp
  show "now (snd (admission D s)) = now s" "maxKeys (snd (admission D s)) = maxKeys s"
    "scriptCreates (snd (admission D s)) = scriptCreates s"
    by (simp_all add: admission_def Let_def s')
  show "wf_store (snd (admission D s))" using wf' wf_store_sweep[OF wf'] by (simp add: admission_def Let_def s')
  show "visible (snd (admission D s)) = visible s"
    using v visible_sweep[OF wf'] by (simp add: admission_def Let_def s')
qed

lemma admission_keys:
  assumes "wf_store s" and "k \<in> set D"
  shows "k \<in> keys_of (data (snd (admission D s))) \<longleftrightarrow> visible s k \<noteq> None"
proof -
  obtain s' where s': "missing_keys D s = (Inr (filter (\<lambda>k. visible s k = None) D), s')"
    "data s' = filter (\<lambda>(k, e). \<not> (k \<in> set D \<and> expired (now s) e)) (data s)" "now s' = now s"
    using missing_keys_spec[OF assms(1)] by blast
  have "k \<in> keys_of (data (snd (admission D s))) \<longleftrightarrow> (\<exists>e. (k, e) \<in> set (data s) \<and> \<not> expired (now s) e)"
    using assms(2) by (force simp: admission_def Let_def s')
  also have "\<dots> \<longleftrightarrow> (\<exists>e. map_of (data s) k = Some e \<and> \<not> expired (now s) e)"
    using assms(1) by (simp add: wf_store_def)
  also have "\<dots> \<longleftrightarrow> visible s k \<noteq> None"
    by (auto simp: visible_def split: option.split)
  finally show ?thesis .
qed

lemma admission_cap:
  assumes "cap_outside s" and "fst (admission D s)"
  shows "cap_inside D ((snd (admission D s))\<lparr>scriptCreates := Some (n, D)\<rparr>)"
proof -
  let ?s1 = "snd (admission D s)"
  have wf: "wf_store s" using assms by (simp add: cap_outside_def)
  define M where "M = set (filter (\<lambda>k. visible s k = None) D)"
  have split: "keys_of (data ?s1) \<union> set D = keys_of (data ?s1) \<union> M"
    using admission_keys[OF wf] by (auto simp: M_def)
  have len: "length (data ?s1) = card (keys_of (data ?s1))"
    using admission_frame(4)[OF wf] by (simp add: wf_store_def size_wf_map)
  have M: "card M = length (remdups (filter (\<lambda>k. visible s k = None) D))"
    by (simp add: M_def length_remdups_card_conv)
  have "card (keys_of (data ?s1) \<union> M) \<le> maxKeys s"
  proof (cases "M = {}")
    case True
    have "length (data ?s1) \<le> length (data s)"
    proof -
      obtain s' where s': "missing_keys D s = (Inr (filter (\<lambda>k. visible s k = None) D), s')"
        "data s' = filter (\<lambda>(k, e). \<not> (k \<in> set D \<and> expired (now s) e)) (data s)"
        using missing_keys_spec[OF wf] by blast
      show ?thesis by (auto simp: admission_def Let_def s' intro: le_trans[OF length_filter_le])
    qed
    then show ?thesis using assms True len by (simp add: cap_outside_def within_cap_def)
  next
    case False
    then have pos: "0 < card M" by (simp add: M_def card_gt_0_iff)
    have "length (data ?s1) + card M \<le> maxKeys s"
      using assms(2) pos by (auto simp: admission_def Let_def M[symmetric] split: if_splits)
    then show ?thesis using card_Un_le[of "keys_of (data ?s1)" M] len by linarith
  qed
  then show ?thesis using admission_frame[OF wf] split by (simp add: cap_inside_def)
qed

section \<open>All histories of a store\<close>

inductive command_step :: "keyspace \<Rightarrow> keyspace \<Rightarrow> bool" where
  "command_step s (snd (redis_get k s))"
| "command_step s (snd (redis_set k v opts s))"
| "command_step s (snd (getdel k s))"
| "command_step s (snd (exists_keys ks s))"
| "command_step s (snd (del_keys ks s))"
| "command_step s (snd (pexpire k f s))"
| "command_step s (snd (expire_key k f s))"
| "command_step s (snd (pttl k s))"
| "command_step s (snd (ttl_key k s))"
| "command_step s (snd (flushall s))"
| "command_step s (snd (hset k args s))"
| "command_step s (snd (hget k f s))"
| "command_step s (snd (hgetall k s))"
| "command_step s (snd (hdel k fs s))"
| "command_step s (snd (hexists k f s))"
| "command_step s (snd (hlen k s))"
| "command_step s (snd (hkeys k s))"
| "command_step s (snd (hincrby k f n s))"
| "command_step s (snd (zadd k fs s))"
| "command_step s (snd (zrange k i j s))"
| "command_step s (snd (zrem k fs s))"
| "command_step s (snd (zremrangebyscore k i j s))"

context keyspace_invariant begin

lemma command_step: "command_step s s' \<Longrightarrow> I s \<Longrightarrow> I s'"
  by (induction rule: command_step.induct) auto

lemma command_steps: "command_step\<^sup>*\<^sup>* s s' \<Longrightarrow> I s \<Longrightarrow> I s'"
  by (induction rule: rtranclp_induct) (auto intro: command_step)

end

text \<open>A script body is any function whose effect on the store is a run of commands.\<close>

definition runs_commands :: "'r redis \<Rightarrow> bool" where
  "runs_commands run = (\<forall>s. command_step\<^sup>*\<^sup>* s (snd (run s)))"

inductive store_reachable :: "keyspace \<Rightarrow> bool" where
  start: "store_reachable (new_keyspace t cap)"
| command: "store_reachable s \<Longrightarrow> command_step s s' \<Longrightarrow> store_reachable s'"
| tick: "store_reachable s \<Longrightarrow> store_reachable (s\<lparr>now := t\<rparr>)"
| sweep: "store_reachable s \<Longrightarrow> store_reachable (snd (sweepExpired s))"
| restore: "store_reachable s \<Longrightarrow> store_reachable (snd (restoreInto raw s))"
| script: "store_reachable s \<Longrightarrow> runs_commands (run :: int redis) \<Longrightarrow> store_reachable (snd (runAdmitted n D run s))"

lemma runAdmitted_cap:
  assumes "cap_outside s" and "runs_commands run"
  shows "cap_outside (snd (runAdmitted n D run s))"
proof -
  have wf: "wf_store s" using assms(1) by (simp add: cap_outside_def)
  show ?thesis
  proof (cases "fst (admission D s)")
    case True
    let ?s1 = "(snd (admission D s))\<lparr>scriptCreates := Some (n, D)\<rparr>"
    have "cap_inside D (snd (run ?s1))"
      using inside.command_steps admission_cap[OF assms(1) True] assms(2)
      unfolding runs_commands_def by blast
    then have "wf_store (snd (run ?s1))"
      and "card (keys_of (data (snd (run ?s1))) \<union> set D) \<le> maxKeys (snd (run ?s1))"
      by (auto simp: cap_inside_def)
    moreover have "card (keys_of (data (snd (run ?s1))))
        \<le> card (keys_of (data (snd (run ?s1))) \<union> set D)"
      by (rule card_mono) auto
    ultimately have "cap_outside ((snd (run ?s1))\<lparr>scriptCreates := None\<rparr>)"
      by (auto simp: cap_outside_def within_cap_def wf_store_def size_wf_map)
    then show ?thesis by (simp add: runAdmitted_admission[OF wf] True Let_def case_prod_beta)
  next
    case False
    have "length (data (snd (admission D s))) \<le> length (data s)"
    proof -
      obtain s' where s': "missing_keys D s = (Inr (filter (\<lambda>k. visible s k = None) D), s')"
        "data s' = filter (\<lambda>(k, e). \<not> (k \<in> set D \<and> expired (now s) e)) (data s)"
        using missing_keys_spec[OF wf] by blast
      show ?thesis by (auto simp: admission_def Let_def s' intro: le_trans[OF length_filter_le])
    qed
    then show ?thesis using assms(1) admission_frame[OF wf]
      by (simp add: runAdmitted_admission[OF wf] False cap_outside_def within_cap_def)
  qed
qed

lemma run_all_cap: "cap_outside s \<Longrightarrow> (\<And>x. x \<in> set xs \<Longrightarrow> wf_value (e_value (g x)))
    \<Longrightarrow> cap_outside (snd (run_all (map (\<lambda>x. create (f x) (g x)) xs) s))"
  by (induction xs arbitrary: s) (auto intro!: outside.bind outside.create)

lemma wf_entry_of_snapshot [simp]: "wf_value (e_value (entry_of_snapshot x))"
  by (cases x) auto

lemma restore_cap: "cap_outside s \<Longrightarrow> cap_outside (snd (restoreInto raw s))"
  unfolding restoreInto_def
  by (auto simp: Let_def intro!: outside.bind run_all_cap split: sum.split)

lemma reachable_invariant: "store_reachable s \<Longrightarrow> cap_outside s"
proof (induction rule: store_reachable.induct)
  case (start t cap) then show ?case
    by (simp add: cap_outside_def wf_store_def within_cap_def new_keyspace_def)
next
  case (tick s t) then show ?case by (simp add: cap_outside_def within_cap_def)
next
  case (restore s raw) then show ?case by (auto intro: restore_cap)
next
  case (script s run n D) then show ?case by (auto intro: runAdmitted_cap)
qed (auto intro: outside.command_step outside.sweep)

text \<open>
  C2: In every history of the store (commands, clock ticks, sweeps, snapshot restores and atomic
  scripts whose bodies are arbitrary runs of commands) the number of keys never exceeds the cap, keys
  stay unique, hash and zset members stay unique, and no script declaration is left behind.
\<close>
theorem store_never_exceeds_cap:
  assumes "store_reachable s"
  shows "length (data s) \<le> maxKeys s \<and> wf_store s \<and> scriptCreates s = None"
  using reachable_invariant[OF assms] by (auto simp: cap_outside_def within_cap_def)

theorem store_never_exceeds_cap_witness:
  "\<exists>s. store_reachable s \<and> length (data s) = 1 \<and> length (data s) \<le> maxKeys s"
proof -
  let ?run = "(\<lambda>s. (Inr 1, snd (hset ''room:1'' (HFlat [FStr ''phase'', FStr ''waiting'']) s))) :: int redis"
  let ?s = "snd (runAdmitted ''CREATE'' [''room:1''] ?run (new_keyspace 0 2))"
  have "runs_commands ?run"
    by (auto simp: runs_commands_def intro: command_step.intros)
  then have r: "store_reachable ?s" by (intro store_reachable.script store_reachable.start)
  moreover have "length (data ?s) = 1"
    by code_simp
  ultimately show ?thesis using store_never_exceeds_cap[OF r] by blast
qed

section \<open>Inside a script the cap cannot strike\<close>

text \<open>A program whose results are never \<open>OOM\<close> while a script declaration is in force.\<close>

definition oom_free :: "'a redis \<Rightarrow> bool" where
  "oom_free m = (\<forall>s. scriptCreates s \<noteq> None \<longrightarrow>
     fst (m s) \<noteq> Inl OOM_MESSAGE \<and> scriptCreates (snd (m s)) = scriptCreates s)"

named_theorems oom_intros \<open>programs that cannot run out of keys inside a script\<close>

lemma oom_free_ret [oom_intros]: "oom_free (ret x)"
  by (simp add: oom_free_def)

lemma oom_free_throw [oom_intros]: "e \<noteq> OOM_MESSAGE \<Longrightarrow> oom_free (throw e)"
  by (simp add: oom_free_def)

lemma oom_free_andThen [oom_intros]:
  "oom_free m \<Longrightarrow> (\<And>x. oom_free (f x)) \<Longrightarrow> oom_free (andThen m f)"
  by (fastforce simp: oom_free_def andThen_app split: sum.split)

lemma oom_free_pure:
  "(\<And>s. fst (m s) = Inr (r s)) \<Longrightarrow> (\<And>s. scriptCreates (snd (m s)) = scriptCreates s) \<Longrightarrow> oom_free m"
  by (simp add: oom_free_def)

lemma oom_free_live [oom_intros]: "oom_free (live k)"
  by (simp add: oom_free_def)

lemma oom_free_create [oom_intros]: "oom_free (create k e)"
  by (auto simp: oom_free_def create_def)

lemma oom_free_store_value [oom_intros]: "oom_free (store_value k v)"
  by (auto simp: oom_free_def store_value_def split: option.split)

lemma oom_free_dropIfEmpty [oom_intros]: "oom_free (dropIfEmpty k c)"
  by (auto simp: oom_free_def dropIfEmpty_def)

lemma oom_free_accessors [oom_intros]:
  "oom_free (hash_at k)" "oom_free (zset_at k)" "oom_free (string_at k)"
  unfolding hash_at_def zset_at_def string_at_def
  by (auto intro!: oom_intros split: option.split redis_value.split)

lemma oom_free_hashForWrite [oom_intros]: "oom_free (hashForWrite k)"
  unfolding hashForWrite_def by (auto intro!: oom_intros split: option.split)

lemma integer_of_field_error [simp]: "integer_of_field f \<noteq> Inl OOM_MESSAGE"
  by (cases f) (auto split: if_splits option.splits)

lemma parseSetOptions_error [simp]: "parseSetOptions t opts x c \<noteq> Inl OOM_MESSAGE"
  by (induction t opts x c rule: parseSetOptions.induct)
    (auto simp: Let_def split: if_splits list.splits sum.splits)

lemma toPairs_error [simp]: "toPairs args \<noteq> Inl OOM_MESSAGE"
  by (cases args) (auto split: if_splits)

lemma toScoredMembers_error [simp]: "toScoredMembers args \<noteq> Inl OOM_MESSAGE"
  by (induction args rule: toScoredMembers.induct) (auto split: option.splits sum.splits)

lemma oom_free_drop: "oom_free (\<lambda>s. (Inr x, if b then drop_entry k s else s))"
  by (simp add: oom_free_def)

lemma oom_free_redis_set [oom_intros]: "oom_free (redis_set k v opts)"
proof -
  have "oom_free (andThen (live k) (\<lambda>current.
           if (c = IfNotExists \<and> current \<noteq> None) \<or> (c = IfExists \<and> current = None) then ret False
           else (let entry = \<lparr>e_value = StringV (field_string v), expiresAt = x\<rparr> in
             if current \<noteq> None then (\<lambda>s. (Inr True, put_entry k entry s))
             else andThen (create k entry) (\<lambda>_. ret True))))" for c x
    unfolding Let_def by (auto intro!: oom_intros) (simp add: oom_free_def)
  then show ?thesis using parseSetOptions_error
    by (fastforce simp: oom_free_def redis_set_def split: sum.split)
qed

lemma oom_free_strings [oom_intros]: "oom_free (redis_get k)" "oom_free (getdel k)"
  unfolding redis_get_def getdel_def by (auto intro!: oom_intros oom_free_drop)

lemma oom_free_exists [oom_intros]: "oom_free (exists_keys ks)"
proof (induction ks)
  case Nil show ?case unfolding exists_keys.simps by (rule oom_free_ret)
next
  case (Cons k ks) show ?case unfolding exists_keys.simps by (intro oom_intros Cons.IH)
qed

lemma oom_free_del [oom_intros]: "oom_free (del_keys ks)"
proof (induction ks)
  case (Cons k ks)
  have "oom_free (andThen (del_keys ks) (\<lambda>n. ret (Suc n)))" by (intro oom_intros Cons.IH)
  then have "oom_free (\<lambda>s. andThen (del_keys ks) (\<lambda>n. ret (Suc n)) (drop_entry k s))"
    by (simp add: oom_free_def)
  then show ?case unfolding del_keys.simps using Cons.IH
    by (intro oom_free_andThen oom_free_live) (simp split: if_split)
next
  case Nil show ?case unfolding del_keys.simps by (rule oom_free_ret)
qed

lemma oom_free_pexpire [oom_intros]: "oom_free (pexpire k f)"
  unfolding pexpire_def
  by (auto intro!: oom_intros split: option.split sum.split)
    (auto simp: oom_free_def)

lemma oom_free_hset [oom_intros]: "oom_free (hset k args)"
  unfolding hset_def by (auto intro!: oom_intros split: sum.split)

lemma oom_free_hash_reads [oom_intros]:
  "oom_free (hget k f)" "oom_free (hgetall k)" "oom_free (hexists k f)" "oom_free (hlen k)" "oom_free (hkeys k)"
  unfolding hget_def hgetall_def hexists_def hlen_def hkeys_def by (auto intro!: oom_intros)

lemma oom_free_hdel [oom_intros]: "oom_free (hdel k fs)"
  unfolding hdel_def Let_def by (auto intro!: oom_intros split: option.split)

lemma oom_free_hincrby [oom_intros]: "oom_free (hincrby k f n)"
  unfolding hincrby_def Let_def
  by (auto intro!: oom_intros split: option.split sum.split)

lemma oom_free_zadd [oom_intros]: "oom_free (zadd k args)"
  unfolding zadd_def
  by (auto intro!: oom_intros split: option.split sum.split)

lemma oom_free_zrem [oom_intros]: "oom_free (zrem k ms)"
  unfolding zrem_def Let_def by (auto intro!: oom_intros split: option.split)

text \<open>
  Running out of keys refuses a script before it writes anything. If an atomic script built from
  the commands is answered with the \<open>OOM\<close> error, every key visible before is visible after with the
  same value and expiry, and no key appeared; an admitted script never fails with \<open>OOM\<close> half way.
\<close>
theorem script_oom_is_all_or_nothing:
  assumes "wf_store s" and "oom_free run"
    and "fst (runAdmitted n D run s) = Inl OOM_MESSAGE"
  shows "visible (snd (runAdmitted n D run s)) = visible s
    \<and> now (snd (runAdmitted n D run s)) = now s"
proof -
  have "\<not> fst (admission D s)"
  proof
    assume adm: "fst (admission D s)"
    then have "fst (runAdmitted n D run s)
        = fst (run ((snd (admission D s))\<lparr>scriptCreates := Some (n, D)\<rparr>))"
      by (simp add: runAdmitted_admission[OF assms(1)] Let_def case_prod_beta)
    moreover have "fst (run ((snd (admission D s))\<lparr>scriptCreates := Some (n, D)\<rparr>)) \<noteq> Inl OOM_MESSAGE"
      using assms(2) unfolding oom_free_def by fastforce
    ultimately show False using assms(3) by simp
  qed
  then show ?thesis using admission_frame[OF assms(1)] by (simp add: runAdmitted_admission[OF assms(1)])
qed

theorem script_oom_is_all_or_nothing_witness:
  "let s = put_entry ''a'' \<lparr>e_value = StringV ''1'', expiresAt = None\<rparr> (new_keyspace 0 1);
       out = runAdmitted ''JOIN'' [''b''] (hset ''b'' (HFlat [FStr ''f'', FStr ''v''])) s
   in fst out = Inl OOM_MESSAGE \<and> visible (snd out) = visible s"
proof -
  let ?s = "put_entry ''a'' \<lparr>e_value = StringV ''1'', expiresAt = None\<rparr> (new_keyspace 0 1)"
  let ?run = "hset ''b'' (HFlat [FStr ''f'', FStr ''v''])"
  have oom: "fst (runAdmitted ''JOIN'' [''b''] ?run ?s) = Inl OOM_MESSAGE"
    by code_simp
  have wf: "wf_store ?s" by (simp add: wf_store_def new_keyspace_def put_entry_def)
  show ?thesis
    using script_oom_is_all_or_nothing[OF wf _ oom] oom oom_free_hset by (simp add: Let_def)
qed

end
