(* ===== verification/RedisSnapshot.thy ===== *)
theory RedisSnapshot
  imports RedisStore
begin

text \<open>
  Two contracts of the store that its users rely on across time: what a snapshot brings back after a
  restart (\<open>redisSnapshot.ts\<close>), and that the lock taken with \<open>SET key token PX ttl NX\<close> and released
  with \<open>UNLOCK_IF_OWNER\<close> has one owner at a time (\<open>memoryRedis.ts\<close>, used by the room locks of the games).
\<close>

section \<open>Snapshot and restore\<close>

fun entry_nonempty :: "redis_entry \<Rightarrow> bool" where
  "entry_nonempty e = (case e_value e of StringV v \<Rightarrow> True | HashV h \<Rightarrow> h \<noteq> [] | ZsetV z \<Rightarrow> z \<noteq> [])"

lemma map_option_all_hash:
  "map_option_all (isPair as_string) (map (\<lambda>(f, v). JArr [JStr f, JStr v]) h) = Some h"
  by (induction h) auto

lemma map_option_all_zset:
  "map_option_all (isPair as_int) (map (\<lambda>(m, sc). JArr [JStr m, JNum sc]) z) = Some z"
  by (induction z) auto

lemma parse_snapshot_json [simp]: "parseEntry (snapshot_json x) = Inr x"
proof (cases x)
  case (SnapString k v e)
  then show ?thesis by (cases e) (simp_all add: parseEntry_def)
next
  case (SnapHash k h e)
  then show ?thesis by (cases e) (simp_all add: parseEntry_def map_option_all_hash)
next
  case (SnapZset k z e)
  then show ?thesis by (cases e) (simp_all add: parseEntry_def map_option_all_zset)
qed

lemma parse_all_json [simp]: "parse_all (map snapshot_json xs) = Inr xs"
  by (induction xs) auto

lemma snap_of_entry [simp]:
  "snap_key (snapshot_entry_of (k, e)) = k" "snap_expiry (snapshot_entry_of (k, e)) = expiresAt e"
  "snap_nonempty (snapshot_entry_of (k, e)) = entry_nonempty e"
  by (auto split: redis_value.split)

lemma entry_round_trip: "wf_value (e_value e) \<Longrightarrow> entry_of_snapshot (snapshot_entry_of (k, e)) = e"
  by (cases e) (auto split: redis_value.split)

lemma create_all:
  "wf_map (data s @ ps) \<Longrightarrow> length (data s @ ps) \<le> maxKeys s \<Longrightarrow> scriptCreates s = None \<Longrightarrow>
    run_all (map (\<lambda>(k, e). create k e) ps) s = (Inr (), s\<lparr>data := data s @ ps\<rparr>)"
proof (induction ps arbitrary: s)
  case (Cons p ps)
  obtain k e where p: "p = (k, e)" by (cases p)
  have fresh: "k \<notin> keys_of (data s)" using Cons.prems(1) p by auto
  have "create k e s = (Inr (), s\<lparr>data := data s @ [(k, e)]\<rparr>)"
    using fresh Cons.prems by (auto simp: create_def has_key_iff put_entry_def update_fresh p)
  then show ?case using Cons.IH[of "s\<lparr>data := data s @ [(k, e)]\<rparr>"] Cons.prems p by simp
qed simp

text \<open>
  C5: A snapshot written at one time and restored into an empty store at a later time brings back
  exactly the keys still alive then, in order, with the same values and absolute expiry; keys
  that expired while the process was down (and empty containers) are left out, and the returned count is
  the number of restored keys.
\<close>
theorem snapshot_restore_round_trip:
  fixes s :: keyspace and t :: int
  defines "kept \<equiv> filter (\<lambda>(k, e). \<not> expired t e \<and> entry_nonempty e) (data s)"
  assumes "wf_store s" and "now s \<le> t" and "length kept \<le> cap"
  shows "restoreInto (map snapshot_json (snapshotOf s)) (new_keyspace t cap)
    = (Inr (length kept), (new_keyspace t cap)\<lparr>data := kept\<rparr>)"
proof -
  let ?s0 = "new_keyspace t cap"
  let ?alive = "filter snap_nonempty (filter (\<lambda>x. case snap_expiry x of None \<Rightarrow> True | Some e \<Rightarrow> now ?s0 < e)
      (snapshotOf s))"
  have t: "now ?s0 = t" by (simp add: new_keyspace_def)
  have alive: "?alive = map snapshot_entry_of kept"
  proof -
    have "snap_nonempty (snapshot_entry_of (k, e)) \<and> (case snap_expiry (snapshot_entry_of (k, e)) of
        None \<Rightarrow> True | Some x \<Rightarrow> t < x) \<and> \<not> expired (now s) e
      \<longleftrightarrow> \<not> expired t e \<and> entry_nonempty e" for k e
      unfolding snap_of_entry using assms(3)
      by (auto simp: expired_def simp del: entry_nonempty.simps split: option.splits)
    then have iff: "snap_nonempty (snapshot_entry_of p) \<and> (case snap_expiry (snapshot_entry_of p) of
        None \<Rightarrow> True | Some x \<Rightarrow> t < x) \<and> (case p of (k, e) \<Rightarrow> \<not> expired (now s) e)
      \<longleftrightarrow> (case p of (k, e) \<Rightarrow> \<not> expired t e \<and> entry_nonempty e)" for p
      by (cases p) (simp del: entry_nonempty.simps snapshot_entry_of.simps)
    show ?thesis
      unfolding snapshotOf_def kept_def t filter_map filter_filter o_def iff[symmetric]
      by (rule arg_cong[of _ _ "map snapshot_entry_of"]) (rule filter_cong, auto)
  qed
  have wfk: "wf_map kept" using assms(2) by (simp add: kept_def wf_store_def distinct_map_filter)
  have same: "map (\<lambda>x. create (snap_key x) (entry_of_snapshot x)) (map snapshot_entry_of kept)
      = map (\<lambda>(k, e). create k e) kept"
    using assms(2) by (auto simp: kept_def wf_store_def entry_round_trip simp del: snapshot_entry_of.simps)
  have "run_all (map (\<lambda>x. create (snap_key x) (entry_of_snapshot x)) ?alive) ?s0
      = (Inr (), ?s0\<lparr>data := kept\<rparr>)"
    unfolding alive same using create_all[of ?s0 kept] wfk assms(4) by (simp add: new_keyspace_def)
  moreover have "data ?s0 = []" "maxKeys ?s0 = cap" by (simp_all add: new_keyspace_def)
  ultimately show ?thesis
    using assms(4) by (simp add: restoreInto_def Let_def alive del: filter_filter map_map)
qed

theorem snapshot_restore_round_trip_witness:
  "let s = put_entry ''b'' \<lparr>e_value = HashV [(''f'', ''1'')], expiresAt = Some 5\<rparr>
        (put_entry ''a'' \<lparr>e_value = StringV ''x'', expiresAt = None\<rparr> (new_keyspace 0 9))
   in restoreInto (map snapshot_json (snapshotOf s)) (new_keyspace 7 9)
      = (Inr 1, (new_keyspace 7 9)\<lparr>data := [(''a'', \<lparr>e_value = StringV ''x'', expiresAt = None\<rparr>)]\<rparr>)"
proof -
  let ?s = "put_entry ''b'' \<lparr>e_value = HashV [(''f'', ''1'')], expiresAt = Some 5\<rparr>
        (put_entry ''a'' \<lparr>e_value = StringV ''x'', expiresAt = None\<rparr> (new_keyspace 0 9))"
  have "wf_store ?s" by (simp add: wf_store_def new_keyspace_def)
  then show ?thesis using snapshot_restore_round_trip[of ?s 7 9]
    by (simp add: new_keyspace_def expired_def put_entry_def)
qed

section \<open>Locks\<close>

text \<open>The acquisition used by every state store: \<open>SET lock token PX ttl NX\<close>.\<close>

definition acquire_lock :: "string \<Rightarrow> string \<Rightarrow> int \<Rightarrow> bool redis" where
  "acquire_lock lock token ttl = redis_set lock (FStr token) [FStr ''PX'', FNum ttl, FStr ''NX'']"

lemma acquire_lock_app:
  "is_safe_integer ttl \<Longrightarrow> acquire_lock lock token ttl s =
    (if visible s lock \<noteq> None then (Inr False, snd (live lock s))
     else andThen (create lock \<lparr>e_value = StringV token, expiresAt = Some (now s + ttl)\<rparr>)
       (\<lambda>_. ret True) (snd (live lock s)))"
  by (simp add: acquire_lock_def redis_set_def upper_char_def Let_def)

lemma acquired_visible:
  assumes "wf_store s" and "is_safe_integer ttl" and "0 < ttl"
    and "acquire_lock lock token ttl s = (Inr True, s')"
  shows "visible s lock = None" and "now s' = now s"
    and "visible s' lock = Some \<lparr>e_value = StringV token, expiresAt = Some (now s + ttl)\<rparr>"
proof -
  let ?e = "\<lparr>e_value = StringV token, expiresAt = Some (now s + ttl)\<rparr>"
  show none: "visible s lock = None" using assms(2,4) by (auto simp: acquire_lock_app split: if_splits)
  have ok: "fst (create lock ?e (snd (live lock s))) = Inr ()"
    and s': "s' = snd (create lock ?e (snd (live lock s)))"
    using assms(2,4) none by (auto simp: acquire_lock_app andThen_app split: sum.splits)
  show "now s' = now s" "visible s' lock = Some ?e"
    using ok assms(3) by (auto simp: s' create_def Let_def visible_put expired_def split: if_splits)
qed

text \<open>What can happen to a store while a lock is held: somebody tries to take the lock, somebody releases
  it with a token, time passes, or anything else is done that leaves the key of the lock alone.\<close>

datatype lock_event =
    Attempt string int
  | Release string
  | WaitUntil int
  | Elsewhere keyspace

fun lock_step :: "string \<Rightarrow> lock_event \<Rightarrow> keyspace \<Rightarrow> keyspace" where
  "lock_step lock (Attempt tok ttl) s = snd (acquire_lock lock tok ttl s)"
| "lock_step lock (Release tok) s = snd (script_run UNLOCK_IF_OWNER [lock] [tok] s)"
| "lock_step lock (WaitUntil t) s = s\<lparr>now := t\<rparr>"
| "lock_step lock (Elsewhere s') s = s'"

fun lock_run :: "string \<Rightarrow> lock_event list \<Rightarrow> keyspace \<Rightarrow> keyspace" where
  "lock_run lock [] s = s"
| "lock_run lock (ev # evs) s = lock_run lock evs (lock_step lock ev s)"

text \<open>The events of the others before the deadline: they release with tokens of their own only, and the
  clock runs forward but not to the deadline.\<close>

fun foreign :: "string \<Rightarrow> string \<Rightarrow> int \<Rightarrow> lock_event \<Rightarrow> keyspace \<Rightarrow> bool" where
  "foreign lock token deadline (Attempt tok ttl) s = is_safe_integer ttl"
| "foreign lock token deadline (Release tok) s = (tok \<noteq> token)"
| "foreign lock token deadline (WaitUntil t) s = (now s \<le> t \<and> t < deadline)"
| "foreign lock token deadline (Elsewhere s') s = (visible s' lock = visible s lock \<and> now s' = now s)"

fun all_foreign :: "string \<Rightarrow> string \<Rightarrow> int \<Rightarrow> lock_event list \<Rightarrow> keyspace \<Rightarrow> bool" where
  "all_foreign lock token deadline [] s = True"
| "all_foreign lock token deadline (ev # evs) s \<longleftrightarrow>
     foreign lock token deadline ev s \<and> all_foreign lock token deadline evs (lock_step lock ev s)"

text \<open>The lock is held: its key shows the token and the deadline, which lies ahead.\<close>

definition lock_held :: "string \<Rightarrow> string \<Rightarrow> int \<Rightarrow> keyspace \<Rightarrow> bool" where
  "lock_held lock token deadline s \<longleftrightarrow> now s < deadline
     \<and> visible s lock = Some \<lparr>e_value = StringV token, expiresAt = Some deadline\<rparr>"

lemma unlock_app:
  assumes "visible s lock = Some \<lparr>e_value = StringV held_by, expiresAt = x\<rparr>"
  shows "script_run UNLOCK_IF_OWNER [lock] [tok] s
    = (if held_by = tok then (Inr 1, drop_entry lock s) else (Inr 0, s))"
proof -
  have "live lock s = (Inr (Some \<lparr>e_value = StringV held_by, expiresAt = x\<rparr>), s)"
    using assms by (auto simp: live_def visible_def split: option.splits if_splits)
  then show ?thesis using assms by (simp add: redis_get_def string_at_def UNLOCK_IF_OWNER_def Let_def)
qed

lemma foreign_keeps_lock:
  assumes "lock_held lock token deadline s" and "foreign lock token deadline ev s"
  shows "lock_held lock token deadline (lock_step lock ev s)"
proof (cases ev)
  case (Attempt tok ttl)
  then show ?thesis using assms by (simp add: lock_held_def acquire_lock_app)
next
  case (Release tok)
  then show ?thesis using assms unlock_app[of s lock token] by (auto simp: lock_held_def)
next
  case (WaitUntil t)
  then show ?thesis using assms
    by (auto simp: lock_held_def visible_def expired_def split: option.splits if_splits)
qed (use assms in \<open>simp add: lock_held_def\<close>)

lemma foreign_run_keeps_lock:
  "lock_held lock token deadline s \<Longrightarrow> all_foreign lock token deadline evs s \<Longrightarrow>
    lock_held lock token deadline (lock_run lock evs s)"
  by (induction evs arbitrary: s) (auto simp: foreign_keeps_lock)

text \<open>
  C6: Mutual exclusion of the store's locks. A caller takes a lock with its token for \<open>ttl\<close> milliseconds.
  After any sequence of attempts by others, releases with other tokens, waits and unrelated commands before
  the deadline, the key of the lock still shows the owner's token and deadline; every further attempt is
  refused and every release with another token answers 0, and both leave the key as it is; the release with
  the owner's token answers 1 and frees the key; and from the deadline on the key is free in any case.
\<close>
theorem lock_has_one_owner:
  assumes "wf_store s" and "is_safe_integer ttl" and "0 < ttl"
    and "acquire_lock lock token ttl s = (Inr True, s1)"
    and "all_foreign lock token (now s + ttl) evs s1"
  defines "s2 \<equiv> lock_run lock evs s1"
  defines "owned \<equiv> Some \<lparr>e_value = StringV token, expiresAt = Some (now s + ttl)\<rparr>"
  defines "release \<equiv> \<lambda>tok. script_run UNLOCK_IF_OWNER [lock] [tok] s2"
  shows "now s2 < now s + ttl \<and> visible s2 lock = owned
    \<and> (is_safe_integer ttl' \<longrightarrow> fst (acquire_lock lock other ttl' s2) = Inr False
        \<and> visible (snd (acquire_lock lock other ttl' s2)) lock = owned)
    \<and> (other \<noteq> token \<longrightarrow> fst (release other) = Inr 0 \<and> visible (snd (release other)) lock = owned)
    \<and> fst (release token) = Inr 1 \<and> visible (snd (release token)) lock = None
    \<and> (now s + ttl \<le> t \<longrightarrow> visible (s2\<lparr>now := t\<rparr>) lock = None)"
proof -
  have "lock_held lock token (now s + ttl) s1"
    using acquired_visible[OF assms(1-4)] assms(3) by (simp add: lock_held_def)
  then have h: "now s2 < now s + ttl" "visible s2 lock = owned"
    using foreign_run_keeps_lock[OF _ assms(5)] by (simp_all add: lock_held_def s2_def owned_def)
  moreover have "visible (s2\<lparr>now := t\<rparr>) lock = None" if "now s + ttl \<le> t"
    using h(2) that by (auto simp: visible_def owned_def expired_def split: option.splits if_splits)
  ultimately show ?thesis
    by (simp add: acquire_lock_app release_def unlock_app owned_def visible_drop)
qed

theorem lock_has_one_owner_witness:
  "let s1 = snd (acquire_lock ''lock'' ''mine'' 100 (new_keyspace 0 9));
       s2 = lock_run ''lock'' [WaitUntil 30, Attempt ''theirs'' 50, Release ''theirs'', WaitUntil 90] s1
   in fst (acquire_lock ''lock'' ''theirs'' 100 s2) = Inr False
     \<and> visible s2 ''lock'' = Some \<lparr>e_value = StringV ''mine'', expiresAt = Some 100\<rparr>"
proof -
  let ?s1 = "snd (acquire_lock ''lock'' ''mine'' 100 (new_keyspace 0 9))"
  let ?evs = "[WaitUntil 30, Attempt ''theirs'' 50, Release ''theirs'', WaitUntil 90]"
  have 1: "acquire_lock ''lock'' ''mine'' 100 (new_keyspace 0 9) = (Inr True, ?s1)"
    by (simp add: acquire_lock_app is_safe_integer_def new_keyspace_def visible_def live_def create_def
        has_key_def)
  have 2: "all_foreign ''lock'' ''mine'' (now (new_keyspace 0 9) + 100) ?evs ?s1" by code_simp
  have 3: "wf_store (new_keyspace 0 9)" "now (new_keyspace 0 9) = 0" "is_safe_integer 100"
    by (simp_all add: is_safe_integer_def new_keyspace_def wf_store_def)
  show ?thesis
    using lock_has_one_owner[OF 3(1) 3(3) _ 1 2, of 100 "''theirs''"] 3
    by (simp add: Let_def)
qed

end
