(* ===== verification/RedisView.thy ===== *)
theory RedisView
  imports RedisStore
begin

text \<open>
  The commands as functions on the visible store, which is how the scripts of the room, score and
  completion components read and write their hashes. The interface \<open>hash_store\<close> states the laws the
  scripts rely on; it is interpreted on the commands of \<open>RedisCommands\<close>.
\<close>

section \<open>Hashes of the visible store\<close>

definition hash_fields :: "keyspace \<Rightarrow> string \<Rightarrow> (string \<times> string) list" where
  "hash_fields s k = (case visible s k of None \<Rightarrow> []
     | Some e \<Rightarrow> (case e_value e of HashV h \<Rightarrow> h | _ \<Rightarrow> []))"

text \<open>The key is absent or holds a hash.\<close>

definition hash_typed :: "keyspace \<Rightarrow> string \<Rightarrow> bool" where
  "hash_typed s k = (case visible s k of None \<Rightarrow> True
     | Some e \<Rightarrow> (case e_value e of HashV h \<Rightarrow> True | _ \<Rightarrow> False))"

definition key_expiry :: "keyspace \<Rightarrow> string \<Rightarrow> int option" where
  "key_expiry s k = Option.bind (visible s k) expiresAt"

text \<open>Inside a script: the key is there or declared.\<close>

definition writable :: "keyspace \<Rightarrow> string \<Rightarrow> bool" where
  "writable s k = (visible s k \<noteq> None \<or> (case scriptCreates s of None \<Rightarrow> False | Some (n, D) \<Rightarrow> k \<in> set D))"

lemma hash_fields_cong: "visible s' k = visible s k \<Longrightarrow> hash_fields s' k = hash_fields s k"
  and hash_typed_cong: "visible s' k = visible s k \<Longrightarrow> hash_typed s' k = hash_typed s k"
  and key_expiry_cong: "visible s' k = visible s k \<Longrightarrow> key_expiry s' k = key_expiry s k"
  by (simp_all add: hash_fields_def hash_typed_def key_expiry_def)

lemma hash_live [simp]:
  "hash_fields (snd (live k s)) k' = hash_fields s k'" "hash_typed (snd (live k s)) k' = hash_typed s k'"
  "key_expiry (snd (live k s)) k' = key_expiry s k'" "writable (snd (live k s)) k' = writable s k'"
  by (simp_all add: hash_fields_def hash_typed_def key_expiry_def writable_def)

lemma fst_hash_at: "hash_typed s k \<Longrightarrow> fst (hash_at k s) =
    Inr (if visible s k = None then None else Some (hash_fields s k))"
  by (auto simp: hash_at_def hash_typed_def hash_fields_def split: option.splits redis_value.splits)

lemma hash_at_wrongtype: "\<not> hash_typed s k \<Longrightarrow> fst (hash_at k s) = Inl WRONGTYPE"
  by (auto simp: hash_at_def hash_typed_def split: option.splits redis_value.splits)

lemma hash_at_pair: "hash_typed s k \<Longrightarrow> hash_at k s =
    (Inr (if visible s k = None then None else Some (hash_fields s k)), snd (live k s))"
  using fst_hash_at[of s k] snd_hash_at[of k s] by (metis prod.collapse)

lemma wf_hash_fields: "wf_store s \<Longrightarrow> wf_map (hash_fields s k)"
  by (auto simp: hash_fields_def visible_def split: option.split redis_value.split if_splits
      dest!: wf_storeD)

section \<open>Reading commands\<close>

lemma hget_app: "hash_typed s k \<Longrightarrow>
    hget k f s = (Inr (map_of (hash_fields s k) (field_string f)), snd (live k s))"
  by (auto simp: hget_def hash_at_pair hash_fields_def)

lemma hgetall_app: "hash_typed s k \<Longrightarrow> hgetall k s = (Inr (hash_fields s k), snd (live k s))"
  by (auto simp: hgetall_def hash_at_pair hash_fields_def)

lemma hexists_app: "hash_typed s k \<Longrightarrow> hexists k f s =
    (Inr (if has_key (hash_fields s k) (field_string f) then 1 else 0), snd (live k s))"
  by (auto simp: hexists_def hash_at_pair hash_fields_def has_key_def)

lemma hlen_app: "hash_typed s k \<Longrightarrow> hlen k s = (Inr (length (hash_fields s k)), snd (live k s))"
  by (auto simp: hlen_def hash_at_pair hash_fields_def)

lemma hkeys_app: "hash_typed s k \<Longrightarrow> hkeys k s = (Inr (map fst (hash_fields s k)), snd (live k s))"
  by (auto simp: hkeys_def hash_at_pair hash_fields_def)

lemma exists_one_app: "exists_keys [k] s =
    (Inr (if visible s k \<noteq> None then 1 else 0), snd (live k s))"
  by simp

section \<open>Writing commands\<close>

text \<open>The visible store after writing a hash, keeping the expiry of the key.\<close>

definition view_put_hash :: "string \<Rightarrow> (string \<times> string) list \<Rightarrow> keyspace \<Rightarrow> string \<Rightarrow> redis_entry option" where
  "view_put_hash k h s = (visible s)(k \<mapsto> \<lparr>e_value = HashV h, expiresAt = key_expiry s k\<rparr>)"

lemma key_expiry_alive: "key_expiry s k = Some x \<Longrightarrow> now s < x"
  by (auto simp: key_expiry_def visible_def expired_def bind_eq_Some_conv split: option.splits if_splits)

lemma map_of_live: "map_of (data (snd (live k s))) k = visible s k"
  by (auto simp: live_def visible_def split: option.split)

lemma store_hash_live:
  assumes "visible s k \<noteq> None" and "s1 = snd (live k s)"
  shows "fst (store_value k (HashV h) s1) = Inr ()" "visible (snd (store_value k (HashV h) s1)) = view_put_hash k h s"
    "now (snd (store_value k (HashV h) s1)) = now s" "maxKeys (snd (store_value k (HashV h) s1)) = maxKeys s"
    "scriptCreates (snd (store_value k (HashV h) s1)) = scriptCreates s"
proof -
  obtain e where e: "visible s k = Some e" using assms by blast
  then have m: "map_of (data s1) k = Some e" using map_of_live[of k s] assms by simp
  have ne: "\<not> expired (now s) (e\<lparr>e_value := HashV h\<rparr>)"
    using e by (auto simp: visible_def expired_def split: option.splits if_splits)
  have ee: "e\<lparr>e_value := HashV h\<rparr> = \<lparr>e_value = HashV h, expiresAt = key_expiry s k\<rparr>"
    using e by (cases e) (simp add: key_expiry_def)
  show "visible (snd (store_value k (HashV h) s1)) = view_put_hash k h s"
    using m ne by (simp add: store_value_def visible_put assms view_put_hash_def ee)
  show "fst (store_value k (HashV h) s1) = Inr ()"
    "now (snd (store_value k (HashV h) s1)) = now s" "maxKeys (snd (store_value k (HashV h) s1)) = maxKeys s"
    "scriptCreates (snd (store_value k (HashV h) s1)) = scriptCreates s"
    using m by (simp_all add: store_value_def assms)
qed

lemma create_declared:
  assumes "visible s k = None" and "scriptCreates s = Some (n, D)" and "k \<in> set D"
  shows "create k e (snd (live k s)) = (Inr (), put_entry k e (snd (live k s)))"
  using assms has_key_live[of k s] by (simp add: create_def)

lemma hash_write_effect:
  assumes "hash_typed s k" and "writable s k"
  shows "\<exists>s1. hashForWrite k s = (Inr (hash_fields s k), s1)
    \<and> visible s1 = (if visible s k = None then view_put_hash k [] s else visible s)
    \<and> now s1 = now s \<and> scriptCreates s1 = scriptCreates s
    \<and> fst (store_value k (HashV h) s1) = Inr ()
    \<and> visible (snd (store_value k (HashV h) s1)) = view_put_hash k h s
    \<and> now (snd (store_value k (HashV h) s1)) = now s
    \<and> maxKeys (snd (store_value k (HashV h) s1)) = maxKeys s
    \<and> scriptCreates (snd (store_value k (HashV h) s1)) = scriptCreates s"
proof (cases "visible s k")
  case None
  then obtain n D where D: "scriptCreates s = Some (n, D)" "k \<in> set D"
    using assms(2) by (auto simp: writable_def split: option.splits)
  let ?e = "\<lparr>e_value = HashV [], expiresAt = None\<rparr>"
  let ?s1 = "put_entry k ?e (snd (live k s))"
  have "hashForWrite k s = (Inr [], ?s1)"
    using create_declared[OF None D] None assms(1)
    by (simp add: hashForWrite_def hash_at_pair)
  then show ?thesis using None
    by (intro exI[of _ ?s1]) (simp add: hash_fields_def store_value_def visible_put expired_def
        view_put_hash_def key_expiry_def)
next
  case (Some e)
  let ?s1 = "snd (live k s)"
  have "hashForWrite k s = (Inr (hash_fields s k), ?s1)"
    using Some assms(1) by (simp add: hashForWrite_def hash_at_pair)
  then show ?thesis using store_hash_live[of s k ?s1 h] Some by auto
qed

lemma hset_effect:
  assumes "hash_typed s k" and "writable s k" and "toPairs args = Inr ps"
  shows "fst (hset k args s) = Inr (count_added ps (hash_fields s k))"
    "visible (snd (hset k args s)) = view_put_hash k (set_fields ps (hash_fields s k)) s"
    "now (snd (hset k args s)) = now s" "maxKeys (snd (hset k args s)) = maxKeys s"
    "scriptCreates (snd (hset k args s)) = scriptCreates s"
  using hash_write_effect[OF assms(1,2), of "set_fields ps (hash_fields s k)"] assms(3)
  by (auto simp: hset_def andThen_app)

lemma hdel_effect:
  fixes fs :: "redis_field list"
  assumes "hash_typed s k"
  defines "h' \<equiv> remove_fields (map field_string fs) (hash_fields s k)"
  shows "fst (hdel k fs s) = Inr (count_removed (map field_string fs) (hash_fields s k))"
    "visible (snd (hdel k fs s)) = (if visible s k = None then visible s
       else if h' = [] then (visible s)(k := None) else view_put_hash k h' s)"
    "now (snd (hdel k fs s)) = now s" "maxKeys (snd (hdel k fs s)) = maxKeys s"
    "scriptCreates (snd (hdel k fs s)) = scriptCreates s"
proof -
  have none: "count_removed gs [] = 0" for gs :: "string list"
    by (induction gs) (auto simp: has_key_def)
  note st = store_hash_live[of s k "snd (live k s)" h', OF _ refl]
  show "fst (hdel k fs s) = Inr (count_removed (map field_string fs) (hash_fields s k))"
    using assms st by (auto simp: hdel_def hash_at_pair Let_def andThen_app dropIfEmpty_def none hash_fields_def)
  show "visible (snd (hdel k fs s)) = (if visible s k = None then visible s
       else if h' = [] then (visible s)(k := None) else view_put_hash k h' s)"
    using assms st by (auto simp: hdel_def hash_at_pair Let_def andThen_app dropIfEmpty_def visible_drop view_put_hash_def)
  show "now (snd (hdel k fs s)) = now s" "maxKeys (snd (hdel k fs s)) = maxKeys s"
    "scriptCreates (snd (hdel k fs s)) = scriptCreates s"
    using assms st by (auto simp: hdel_def hash_at_pair Let_def andThen_app dropIfEmpty_def)
qed

lemma hash_write_fails:
  assumes "scriptCreates s \<noteq> None" and "\<not> (hash_typed s k \<and> writable s k)"
  shows "hashForWrite k s = (if \<not> hash_typed s k then Inl WRONGTYPE
      else Inl (UNDECLARED_KEY (fst (the (scriptCreates s))) k), snd (live k s))"
proof (cases "hash_typed s k")
  case False
  then show ?thesis using hash_at_wrongtype by (simp add: hashForWrite_def andThen_app)
next
  case True
  then have none: "visible s k = None" and nd: "k \<notin> set (snd (the (scriptCreates s)))"
    using assms by (auto simp: writable_def split: option.splits)
  then have "\<not> has_key (data (snd (live k s))) k" using has_key_live by blast
  then show ?thesis using True none nd assms(1)
    by (auto simp: hashForWrite_def hash_at_pair create_def andThen_app)
qed

section \<open>Expired entries cannot be observed by a script\<close>

definition same_view :: "keyspace \<Rightarrow> keyspace \<Rightarrow> bool" where
  "same_view s t = (visible s = visible t \<and> now s = now t \<and> scriptCreates s = scriptCreates t
     \<and> scriptCreates s \<noteq> None \<and> scriptCreates t \<noteq> None \<and> wf_store s \<and> wf_store t)"

text \<open>A program answers alike on stores with the same view, and leaves stores with the same view.\<close>

definition respects_view :: "'a redis \<Rightarrow> bool" where
  "respects_view m = (\<forall>s t. same_view s t \<longrightarrow> fst (m s) = fst (m t) \<and> same_view (snd (m s)) (snd (m t)))"

named_theorems view_intros \<open>programs that cannot observe expired entries\<close>

lemma respectsD: "respects_view m \<Longrightarrow> same_view s t \<Longrightarrow>
    fst (m s) = fst (m t) \<and> same_view (snd (m s)) (snd (m t))"
  by (simp add: respects_view_def)

lemma respects_ret [view_intros]: "respects_view (ret x)"
  and respects_throw [view_intros]: "respects_view (throw e)"
  by (simp_all add: respects_view_def)

lemma respects_andThen [view_intros]:
  assumes "respects_view m" and "\<And>x. respects_view (f x)"
  shows "respects_view (andThen m f)"
  unfolding respects_view_def
proof (intro allI impI)
  fix s t assume st: "same_view s t"
  note m = respectsD[OF assms(1) st]
  show "fst (andThen m f s) = fst (andThen m f t) \<and> same_view (snd (andThen m f s)) (snd (andThen m f t))"
    using m respectsD[OF assms(2)] by (simp add: andThen_app split: sum.split)
qed

lemma respects_live [view_intros]: "respects_view (live k)"
  unfolding respects_view_def by (auto simp: same_view_def intro: wf.live)

lemma respects_hash_at [view_intros]: "respects_view (hash_at k)"
  unfolding hash_at_def
  by (intro respects_andThen respects_live) (auto split: option.split redis_value.split intro: view_intros)

lemma respects_string_at [view_intros]: "respects_view (string_at k)"
  unfolding string_at_def
  by (intro respects_andThen respects_live) (auto split: option.split redis_value.split intro: view_intros)

lemma respects_reads [view_intros]:
  "respects_view (hget k f)" "respects_view (hgetall k)" "respects_view (hexists k f)"
  "respects_view (hlen k)" "respects_view (hkeys k)" "respects_view (redis_get k)"
  unfolding hget_def hgetall_def hexists_def hlen_def hkeys_def redis_get_def
  by (auto intro!: view_intros)

lemma respects_pttl [view_intros]: "respects_view (pttl k)"
proof -
  have "respects_view (\<lambda>s. (Inr (x - now s), s))" for x
    by (simp add: respects_view_def same_view_def)
  then show ?thesis unfolding pttl_def
    by (intro respects_andThen respects_live) (auto split: option.split intro: view_intros)
qed

lemma respects_put: "wf_value (e_value e) \<Longrightarrow> respects_view (\<lambda>s. (Inr x, put_entry k e s))"
  by (simp add: respects_view_def same_view_def visible_put wf_store_put)

lemma respects_drop: "respects_view (\<lambda>s. (Inr x, drop_entry k s))"
  by (simp add: respects_view_def same_view_def visible_drop wf_store_drop)

lemma respects_exists [view_intros]: "respects_view (exists_keys ks)"
proof (induction ks)
  case Nil show ?case unfolding exists_keys.simps by (rule respects_ret)
next
  case (Cons k ks) show ?case unfolding exists_keys.simps by (intro view_intros Cons.IH)
qed

lemma respects_del [view_intros]: "respects_view (del_keys ks)"
proof (induction ks)
  case Nil show ?case unfolding del_keys.simps by (rule respects_ret)
next
  case (Cons k ks)
  have "respects_view (andThen (\<lambda>s. (Inr (), drop_entry k s)) (\<lambda>_. andThen (del_keys ks) (\<lambda>n. ret (Suc n))))"
    by (intro respects_andThen respects_drop view_intros Cons.IH)
  then have "respects_view (\<lambda>s. andThen (del_keys ks) (\<lambda>n. ret (Suc n)) (drop_entry k s))"
    by (simp add: respects_view_def)
  then show ?case unfolding del_keys.simps using Cons.IH
    by (intro respects_andThen respects_live) (simp split: if_split)
qed

lemma same_view_fields:
  assumes "same_view s t"
  shows "hash_fields s = hash_fields t" "hash_typed s = hash_typed t"
    "key_expiry s = key_expiry t" "writable s = writable t"
  using assms by (auto simp: same_view_def hash_fields_def hash_typed_def key_expiry_def writable_def fun_eq_iff)

text \<open>Read a hash, compute from it, write it back or throw.\<close>

lemma respects_hash_write:
  assumes "\<And>h h' r. g h = Inr (h', r) \<Longrightarrow> wf_map h \<Longrightarrow> wf_map h'"
  shows "respects_view (andThen (hashForWrite k) (\<lambda>h. case g h of Inl e \<Rightarrow> throw e
    | Inr (h', r) \<Rightarrow> andThen (store_value k (HashV h')) (\<lambda>_. ret r)))" (is "respects_view ?m")
  unfolding respects_view_def
proof (intro allI impI)
  fix s t assume st: "same_view s t"
  note eq = same_view_fields[OF st]
  have wfm: "wf_store (snd (?m u))" if "wf_store u" for u
    by (rule wf.bind) (use that assms in \<open>auto intro!: wf.bind dest: wf.hashForWrite_value split: sum.split\<close>)
  then have wf: "wf_store (snd (?m s))" "wf_store (snd (?m t))" using st by (auto simp: same_view_def)
  have d: "scriptCreates s \<noteq> None" "scriptCreates t = scriptCreates s"
    using st by (auto simp: same_view_def)
  show "fst (?m s) = fst (?m t) \<and> same_view (snd (?m s)) (snd (?m t))"
  proof (cases "hash_typed s k \<and> writable s k")
    case True
    then have s: "hash_typed s k" "writable s k" and t: "hash_typed t k" "writable t k" using eq by auto
    define h' where "h' = (case g (hash_fields s k) of Inr (h', r) \<Rightarrow> h' | Inl _ \<Rightarrow> [])"
    show ?thesis using hash_write_effect[OF s, of h'] hash_write_effect[OF t, of h'] st wf eq
      by (auto simp: same_view_def view_put_hash_def h'_def andThen_app split: sum.splits prod.splits)
  next
    case False
    then have t: "\<not> (hash_typed t k \<and> writable t k)" using eq by simp
    show ?thesis using hash_write_fails[OF d(1) False] hash_write_fails[OF _ t] respectsD[OF respects_live st] d eq
      by (auto simp: andThen_def)
  qed
qed

lemma respects_hset [view_intros]: "respects_view (hset k args)"
proof (cases "toPairs args")
  case (Inl e) then show ?thesis by (simp add: hset_def view_intros)
next
  case (Inr ps)
  have "respects_view (andThen (hashForWrite k) (\<lambda>h. case (Inr (set_fields ps h, count_added ps h) :: redis_error + _) of
      Inl e \<Rightarrow> throw e | Inr (h', r) \<Rightarrow> andThen (store_value k (HashV h')) (\<lambda>_. ret r)))"
    by (rule respects_hash_write) auto
  then show ?thesis by (simp add: hset_def Inr)
qed

lemma respects_hincrby [view_intros]: "respects_view (hincrby k f n)"
proof (cases "integer_of_field n")
  case (Inl e) then show ?thesis by (simp add: hincrby_def view_intros)
next
  case (Inr step)
  let ?g = "\<lambda>h. case number_of_string (case map_of h (field_string f) of None \<Rightarrow> ''0'' | Some v \<Rightarrow> v) of
      None \<Rightarrow> Inl HASH_VALUE_NOT_INTEGER
    | Some c \<Rightarrow> Inr (AList.update (field_string f) (string_of_int (c + step)) h, c + step)"
  have "respects_view (andThen (hashForWrite k) (\<lambda>h. case ?g h of
      Inl e \<Rightarrow> throw e | Inr (h', r) \<Rightarrow> andThen (store_value k (HashV h')) (\<lambda>_. ret r)))"
    by (rule respects_hash_write) (auto intro: wf_map_update split: option.splits)
  moreover have "hincrby k f n = andThen (hashForWrite k) (\<lambda>h. case ?g h of
      Inl e \<Rightarrow> throw e | Inr (h', r) \<Rightarrow> andThen (store_value k (HashV h')) (\<lambda>_. ret r))"
    unfolding hincrby_def Inr sum.case Let_def
    by (intro arg_cong[of _ _ "andThen (hashForWrite k)"] ext) (auto split: option.split)
  ultimately show ?thesis by simp
qed

lemma respects_hdel [view_intros]: "respects_view (hdel k fs)"
  unfolding respects_view_def
proof (intro allI impI)
  fix s t assume st: "same_view s t"
  note eq = same_view_fields[OF st]
  have wf: "wf_store (snd (hdel k fs s))" "wf_store (snd (hdel k fs t))"
    using st wf.hdel by (auto simp: same_view_def)
  show "fst (hdel k fs s) = fst (hdel k fs t) \<and> same_view (snd (hdel k fs s)) (snd (hdel k fs t))"
  proof (cases "hash_typed s k")
    case True
    then have t: "hash_typed t k" using eq by simp
    show ?thesis using hdel_effect[OF True, of fs] hdel_effect[OF t, of fs] st wf eq
      by (simp add: same_view_def view_put_hash_def)
  next
    case False
    then have "fst (hash_at k s) = Inl WRONGTYPE" "fst (hash_at k t) = Inl WRONGTYPE"
      using eq by (simp_all add: hash_at_wrongtype)
    then show ?thesis using respectsD[OF respects_live st] by (simp add: hdel_def Let_def)
  qed
qed

lemma expired_visible: "visible s k = Some e \<Longrightarrow> \<not> expired (now s) e"
  by (auto simp: visible_def split: option.splits if_splits)

lemma respects_pexpire [view_intros]: "respects_view (pexpire k f)"
  unfolding respects_view_def
proof (intro allI impI)
  fix s t assume st: "same_view s t"
  have "wf_store (snd (pexpire k f s))" "wf_store (snd (pexpire k f t))"
    using st wf.pexpire by (auto simp: same_view_def)
  then show "fst (pexpire k f s) = fst (pexpire k f t) \<and> same_view (snd (pexpire k f s)) (snd (pexpire k f t))"
    using st respectsD[OF respects_live st]
    by (auto simp: pexpire_def same_view_def andThen_app visible_put visible_drop
        split: option.split sum.split)
qed

lemma respects_expire [view_intros]: "respects_view (expire_key k f)"
  unfolding expire_key_def by (auto intro: view_intros split: sum.split)

section \<open>Stores without expired entries\<close>

definition clean :: "keyspace \<Rightarrow> bool" where
  "clean s = (\<forall>k e. map_of (data s) k = Some e \<longrightarrow> \<not> expired (now s) e)"

definition present :: "keyspace \<Rightarrow> string \<Rightarrow> bool" where
  "present s k = (visible s k \<noteq> None)"

lemma clean_visible: "clean s \<Longrightarrow> map_of (data s) = visible s"
  by (rule ext) (auto simp: clean_def visible_def split: option.split)

lemma clean_live: "clean s \<Longrightarrow> live k s = (Inr (visible s k), s)"
  by (auto simp: clean_def live_def visible_def split: option.split)

text \<open>Dropping what has expired changes nothing a script can see.\<close>

definition purge :: "keyspace \<Rightarrow> keyspace" where
  "purge s = snd (sweepExpired s)"

lemma purge_frame [simp]: "now (purge s) = now s" "scriptCreates (purge s) = scriptCreates s"
  "maxKeys (purge s) = maxKeys s"
  by (simp_all add: purge_def)

lemma visible_purge [simp]: "wf_store s \<Longrightarrow> visible (purge s) = visible s"
  by (simp add: purge_def)

lemma clean_purge: "wf_store s \<Longrightarrow> clean (purge s)"
  by (auto simp: clean_def purge_def wf_store_def map_of_filter_wf split: option.splits if_splits)

lemma wf_purge: "wf_store s \<Longrightarrow> wf_store (purge s)"
  by (simp add: purge_def wf_store_sweep)

lemma same_view_purge: "wf_store s \<Longrightarrow> scriptCreates s \<noteq> None \<Longrightarrow> same_view s (purge s)"
  by (simp add: same_view_def wf_purge)

text \<open>The effect of the writing commands as operations on the store.\<close>

definition put_hash :: "string \<Rightarrow> (string \<times> string) list \<Rightarrow> keyspace \<Rightarrow> keyspace" where
  "put_hash k h s = put_entry k \<lparr>e_value = HashV h, expiresAt = key_expiry s k\<rparr> s"

definition put_or_drop :: "string \<Rightarrow> (string \<times> string) list \<Rightarrow> keyspace \<Rightarrow> keyspace" where
  "put_or_drop k h s = (if h = [] then drop_entry k s else put_hash k h s)"

definition set_expiry :: "string \<Rightarrow> int \<Rightarrow> keyspace \<Rightarrow> keyspace" where
  "set_expiry k x s = (case visible s k of None \<Rightarrow> s
     | Some e \<Rightarrow> put_entry k (e\<lparr>expiresAt := Some x\<rparr>) s)"

lemma visible_put_hash: "visible (put_hash k h s) =
    (visible s)(k \<mapsto> \<lparr>e_value = HashV h, expiresAt = key_expiry s k\<rparr>)"
  using key_expiry_alive[of s k] by (auto simp: put_hash_def visible_put expired_def split: option.split)

lemma put_hash_obs [simp]:
  "hash_fields (put_hash k h s) k' = (if k' = k then h else hash_fields s k')"
  "hash_typed (put_hash k h s) k' = (k' = k \<or> hash_typed s k')"
  "key_expiry (put_hash k h s) k' = key_expiry s k'"
  "present (put_hash k h s) k' = (k' = k \<or> present s k')"
  "now (put_hash k h s) = now s" "scriptCreates (put_hash k h s) = scriptCreates s"
  by (auto simp: hash_fields_def hash_typed_def key_expiry_def present_def visible_put_hash)
    (auto simp: put_hash_def)

lemma drop_obs [simp]:
  "hash_fields (drop_entry k s) k' = (if k' = k then [] else hash_fields s k')"
  "hash_typed (drop_entry k s) k' = (k' = k \<or> hash_typed s k')"
  "key_expiry (drop_entry k s) k' = (if k' = k then None else key_expiry s k')"
  "present (drop_entry k s) k' = (k' \<noteq> k \<and> present s k')"
  by (auto simp: hash_fields_def hash_typed_def key_expiry_def present_def visible_drop)

lemma put_or_drop_obs [simp]:
  "hash_fields (put_or_drop k h s) k' = (if k' = k then h else hash_fields s k')"
  "hash_typed (put_or_drop k h s) k' = (k' = k \<or> hash_typed s k')"
  "key_expiry (put_or_drop k h s) k' = (if k' = k \<and> h = [] then None else key_expiry s k')"
  "present (put_or_drop k h s) k' = (if k' = k then h \<noteq> [] else present s k')"
  "now (put_or_drop k h s) = now s" "scriptCreates (put_or_drop k h s) = scriptCreates s"
  by (auto simp: put_or_drop_def)

lemma visible_set_expiry: "now s < x \<Longrightarrow> visible (set_expiry k x s) = (case visible s k of None \<Rightarrow> visible s
    | Some e \<Rightarrow> (visible s)(k \<mapsto> e\<lparr>expiresAt := Some x\<rparr>))"
  by (auto simp: set_expiry_def visible_put expired_def split: option.split)

lemma set_expiry_obs [simp]:
  assumes "now s < x"
  shows "hash_fields (set_expiry k x s) k' = hash_fields s k'"
    "hash_typed (set_expiry k x s) k' = hash_typed s k'"
    "key_expiry (set_expiry k x s) k' = (if k' = k \<and> present s k then Some x else key_expiry s k')"
    "present (set_expiry k x s) k' = present s k'"
  using assms by (auto simp: hash_fields_def hash_typed_def key_expiry_def present_def visible_set_expiry
      split: option.splits redis_value.splits)

lemma set_expiry_frame [simp]: "now (set_expiry k x s) = now s" "scriptCreates (set_expiry k x s) = scriptCreates s"
  by (auto simp: set_expiry_def split: option.split)

lemma expired_set: "expired t (e\<lparr>expiresAt := Some x\<rparr>) = (x \<le> t)"
  by (simp add: expired_def)

lemma clean_ops [simp]:
  "clean s \<Longrightarrow> clean (put_hash k h s)" "clean s \<Longrightarrow> clean (drop_entry k s)"
  "clean s \<Longrightarrow> clean (put_or_drop k h s)" "clean s \<Longrightarrow> now s < x \<Longrightarrow> clean (set_expiry k x s)"
proof -
  show p: "clean s \<Longrightarrow> clean (put_hash k h s)" for h
    using key_expiry_alive[of s k] by (fastforce simp: clean_def put_hash_def expired_def split: option.splits if_splits)
  show d: "clean s \<Longrightarrow> clean (drop_entry k s)" by (auto simp: clean_def split: if_splits)
  show "clean s \<Longrightarrow> clean (put_or_drop k h s)" using p d by (simp add: put_or_drop_def)
  show "clean s \<Longrightarrow> now s < x \<Longrightarrow> clean (set_expiry k x s)"
    by (auto simp: clean_def set_expiry_def expired_set split: option.split if_splits)
qed

lemma wf_store_ops:
  "wf_store s \<Longrightarrow> wf_map h \<Longrightarrow> wf_store (put_hash k h s)"
  "wf_store s \<Longrightarrow> wf_map h \<Longrightarrow> wf_store (put_or_drop k h s)"
  by (simp_all add: put_hash_def put_or_drop_def wf_store_put wf_store_drop)

definition declares :: "keyspace \<Rightarrow> string \<Rightarrow> bool" where
  "declares s k = (case scriptCreates s of None \<Rightarrow> False | Some (n, D) \<Rightarrow> k \<in> set D)"

lemma writable_iff: "writable s k \<longleftrightarrow> present s k \<or> declares s k"
  by (simp add: writable_def present_def declares_def)

lemma declares_ops [simp]:
  "declares (put_hash k h s) k' = declares s k'" "declares (put_or_drop k h s) k' = declares s k'"
  "declares (drop_entry k s) k' = declares s k'" "declares (set_expiry k x s) k' = declares s k'"
  by (simp_all add: declares_def)

section \<open>The commands on clean stores\<close>

lemma clean_exists [cmd_simps]: "clean s \<Longrightarrow> exists_keys [k] s = (Inr (if present s k then 1 else 0), s)"
  by (simp add: clean_live present_def)

lemma clean_reads [cmd_simps]:
  "clean s \<Longrightarrow> hash_typed s k \<Longrightarrow> hget k f s = (Inr (map_of (hash_fields s k) (field_string f)), s)"
  "clean s \<Longrightarrow> hash_typed s k \<Longrightarrow> hgetall k s = (Inr (hash_fields s k), s)"
  "clean s \<Longrightarrow> hash_typed s k \<Longrightarrow>
     hexists k f s = (Inr (if has_key (hash_fields s k) (field_string f) then 1 else 0), s)"
  "clean s \<Longrightarrow> hash_typed s k \<Longrightarrow> hlen k s = (Inr (length (hash_fields s k)), s)"
  "clean s \<Longrightarrow> hash_typed s k \<Longrightarrow> hkeys k s = (Inr (map fst (hash_fields s k)), s)"
  by (simp_all add: hget_app hgetall_app hexists_app hlen_app hkeys_app clean_live)

lemma clean_pttl [cmd_simps]: "clean s \<Longrightarrow> pttl k s = (Inr (if \<not> present s k then - 2
    else case key_expiry s k of None \<Rightarrow> - 1 | Some x \<Rightarrow> x - now s), s)"
  by (auto simp: pttl_def clean_live present_def key_expiry_def split: option.split)

lemma store_value_put: "store_value k v (put_entry k e s) = (Inr (), put_entry k (e\<lparr>e_value := v\<rparr>) s)"
  by (simp add: store_value_def put_entry_def update_last)

lemma store_value_clean:
  assumes "clean s" and "present s k"
  shows "store_value k (HashV h) s = (Inr (), put_hash k h s)"
proof -
  obtain e where e: "visible s k = Some e" using assms(2) by (auto simp: present_def)
  then have "map_of (data s) k = Some e" using clean_visible[OF assms(1)] by simp
  moreover have "e\<lparr>e_value := HashV h\<rparr> = \<lparr>e_value = HashV h, expiresAt = key_expiry s k\<rparr>"
    using e by (cases e) (simp add: key_expiry_def)
  ultimately show ?thesis by (simp add: store_value_def put_hash_def)
qed

lemma hashForWrite_clean:
  assumes "clean s" and "hash_typed s k" and "present s k \<or> declares s k"
  shows "\<exists>s1. hashForWrite k s = (Inr (hash_fields s k), s1)
    \<and> store_value k (HashV h) s1 = (Inr (), put_hash k h s)"
proof (cases "present s k")
  case True
  then show ?thesis using assms store_value_clean[OF assms(1) True]
    by (auto simp: hashForWrite_def hash_at_pair clean_live present_def)
next
  case False
  then obtain n D where D: "scriptCreates s = Some (n, D)" "k \<in> set D" and none: "visible s k = None"
    using assms(3) by (auto simp: declares_def present_def split: option.splits)
  show ?thesis
    using create_declared[OF none D, of "\<lparr>e_value = HashV [], expiresAt = None\<rparr>"] assms none
    by (auto simp: hashForWrite_def hash_at_pair clean_live store_value_put put_hash_def key_expiry_def
        hash_fields_def)
qed

lemma clean_hset [cmd_simps]:
  "clean s \<Longrightarrow> hash_typed s k \<Longrightarrow> present s k \<or> declares s k \<Longrightarrow> toPairs args = Inr ps \<Longrightarrow>
    hset k args s = (Inr (count_added ps (hash_fields s k)), put_hash k (set_fields ps (hash_fields s k)) s)"
  using hashForWrite_clean[of s k "set_fields ps (hash_fields s k)"] by (auto simp: hset_def)

lemma clean_hincrby [cmd_simps]:
  assumes "clean s" "hash_typed s k" "present s k \<or> declares s k" "integer_of_field n = Inr i"
    "number_of_string (case map_of (hash_fields s k) (field_string f) of None \<Rightarrow> ''0'' | Some v \<Rightarrow> v) = Some c"
  shows "hincrby k f n s = (Inr (c + i),
    put_hash k (AList.update (field_string f) (string_of_int (c + i)) (hash_fields s k)) s)"
proof -
  obtain s1 where "hashForWrite k s = (Inr (hash_fields s k), s1)"
    "store_value k (HashV (AList.update (field_string f) (string_of_int (c + i)) (hash_fields s k))) s1
      = (Inr (), put_hash k (AList.update (field_string f) (string_of_int (c + i)) (hash_fields s k)) s)"
    using hashForWrite_clean[OF assms(1-3)] by blast
  then show ?thesis using assms(4,5) by (simp add: hincrby_def Let_def)
qed

lemma delete_update_same: "AList.delete k (AList.update k v m) = AList.delete k m"
  by (induction m) auto

lemma drop_absent: "clean s \<Longrightarrow> \<not> present s k \<Longrightarrow> drop_entry k s = s"
  by (simp add: drop_entry_def present_def clean_visible[symmetric] map_of_eq_None_iff delete_id)

lemma remove_fields_Nil [simp]: "remove_fields fs [] = []"
  by (induction fs) (auto simp: remove_fields_def)

lemma count_removed_Nil [simp]: "count_removed fs [] = 0"
  by (induction fs) (auto simp: has_key_def)

lemma clean_hdel [cmd_simps]:
  "clean s \<Longrightarrow> hash_typed s k \<Longrightarrow> hdel k fs s =
    (Inr (count_removed (map field_string fs) (hash_fields s k)),
     put_or_drop k (remove_fields (map field_string fs) (hash_fields s k)) s)"
proof (cases "present s k")
  case True
  then show "clean s \<Longrightarrow> hash_typed s k \<Longrightarrow> ?thesis"
    by (auto simp: hdel_def hash_at_pair clean_live present_def store_value_clean Let_def dropIfEmpty_def
        put_or_drop_def put_hash_def drop_entry_def put_entry_def delete_update_same)
next
  case False
  then have "hash_fields s k = []" by (simp add: present_def hash_fields_def)
  then show "clean s \<Longrightarrow> hash_typed s k \<Longrightarrow> ?thesis" using False drop_absent[of s k]
    by (auto simp: hdel_def hash_at_pair clean_live present_def put_or_drop_def)
qed

lemma clean_del [cmd_simps]: "clean s \<Longrightarrow>
    del_keys ks s = (Inr (card {k \<in> set ks. present s k}), fold drop_entry ks s)"
proof (induction ks arbitrary: s)
  case (Cons k ks)
  show ?case
  proof (cases "present s k")
    case True
    have "{k' \<in> set (k # ks). present s k'} = insert k {k' \<in> set ks. k' \<noteq> k \<and> present s k'}"
      using True by auto
    moreover have "del_keys ks (drop_entry k s) =
        (Inr (card {k' \<in> set ks. k' \<noteq> k \<and> present s k'}), fold drop_entry ks (drop_entry k s))"
      using Cons.IH[of "drop_entry k s"] Cons.prems by simp
    moreover obtain e where "visible s k = Some e" using True by (auto simp: present_def)
    ultimately show ?thesis using Cons.prems by (simp add: clean_live)
  next
    case False
    have "{k' \<in> set (k # ks). present s k'} = {k' \<in> set ks. present s k'}"
      using False by auto
    then show ?thesis using False Cons by (simp add: clean_live present_def drop_absent)
  qed
qed simp

lemma clean_pexpire [cmd_simps]: "clean s \<Longrightarrow> integer_of_field f = Inr ms \<Longrightarrow> 0 < ms \<Longrightarrow>
    pexpire k f s = (Inr (if present s k then 1 else 0), set_expiry k (now s + ms) s)"
  by (auto simp: pexpire_def clean_live present_def set_expiry_def split: option.split)

lemma clean_expire [cmd_simps]: "clean s \<Longrightarrow> integer_of_field f = Inr n \<Longrightarrow> 0 < n \<Longrightarrow>
    is_safe_integer (n * 1000) \<Longrightarrow>
    expire_key k f s = (Inr (if present s k then 1 else 0), set_expiry k (now s + n * 1000) s)"
  by (simp add: expire_key_def clean_pexpire)

end
