(* ===== verification/Room.thy ===== *)
theory Room
  imports RedisView
begin

text \<open>
  Waiting rooms: the key scheme (\<open>room/keys.ts\<close>), the atomic scripts of the life of a room
  (\<open>room/scripts/\<close>: lifecycle, bots, gameFlow, expiry). The services that call them and turn
  their return codes into errors are in \<open>RoomService\<close>.

  A script is an \<open>atomic_script\<close> over the commands of the store, with the order of its guards
  kept; a return code is an integer. Random identifiers and room codes are arguments.
\<close>

section \<open>Keys\<close>

definition ROOM_KEY_PREFIX :: string where
  "ROOM_KEY_PREFIX = ''room:''"

definition roomKey :: "string \<Rightarrow> string" where
  "roomKey roomCode = ROOM_KEY_PREFIX @ roomCode"

definition playersKey :: "string \<Rightarrow> string" where
  "playersKey roomCode = roomKey roomCode @ '':players''"

definition scoresKey :: "string \<Rightarrow> string" where
  "scoresKey roomCode = roomKey roomCode @ '':scores''"

definition botsKey :: "string \<Rightarrow> string" where
  "botsKey roomCode = roomKey roomCode @ '':bots''"

definition gameKey :: "string \<Rightarrow> string" where
  "gameKey gameId = ''game:'' @ gameId"

definition gameScoreboardKey :: "string \<Rightarrow> string \<Rightarrow> string" where
  "gameScoreboardKey gameId playerId = gameKey gameId @ '':scoreboard:'' @ playerId"

definition gameScoreSubmissionsKey :: "string \<Rightarrow> string \<Rightarrow> string" where
  "gameScoreSubmissionsKey gameId playerId = gameKey gameId @ '':score-submissions:'' @ playerId"

definition gameStateKey :: "string \<Rightarrow> string \<Rightarrow> string" where
  "gameStateKey roomCode gameCode = roomKey roomCode @ '':game:'' @ gameCode @ '':state''"

definition roomKeyFamily :: "string \<Rightarrow> string list" where
  "roomKeyFamily roomCode = [roomKey roomCode, playersKey roomCode, scoresKey roomCode, botsKey roomCode]"

section \<open>Steps shared by the scripts\<close>

text \<open>\<open>Number(redis.hget(...))\<close>: a missing field is \<open>null\<close>, which converts to 0; text that is not
  a numeral converts to NaN (\<open>None\<close>), and comparing with NaN is false.\<close>

fun number_of_field :: "string option \<Rightarrow> int option" where
  "number_of_field None = Some 0"
| "number_of_field (Some s) = number_of_string s"

fun at_least :: "int \<Rightarrow> int option \<Rightarrow> bool" where
  "at_least n None = False"
| "at_least n (Some c) = (c \<le> n)"

fun less_than :: "int \<Rightarrow> int option \<Rightarrow> bool" where
  "less_than n None = False"
| "less_than n (Some c) = (n < c)"

abbreviation hset1 :: "string \<Rightarrow> string \<Rightarrow> string \<Rightarrow> nat redis" where
  "hset1 k f v \<equiv> hset k (HFlat [FStr f, FStr v])"

text \<open>Give a key the remaining life of the room; \<open>if (r.exists(k) === 1) r.pexpire(k, ttl)\<close>.\<close>

definition pexpire_if_exists :: "string \<Rightarrow> int \<Rightarrow> unit redis" where
  "pexpire_if_exists k ttl = andThen (exists_keys [k]) (\<lambda>n.
     if n = 1 then andThen (pexpire k (FNum ttl)) (\<lambda>_. ret ()) else ret ())"

section \<open>Life of a room\<close>

definition CREATE :: "int atomic_script" where
  "CREATE = \<lparr>script_name = ''yorrRoomCreate'', script_keys = 1, script_args = 5, script_creates = [0],
     script_run = (\<lambda>keys args.
       let room = keys ! 0; capacity = args ! 0; hostId = args ! 1; gameCode = args ! 2;
           ttlSeconds = args ! 3; mode = args ! 4
       in andThen (exists_keys [room]) (\<lambda>n. if n = 1 then ret 0 else
          andThen (hset room (HFlat (map FStr [''capacity'', capacity, ''members'', ''0'', ''phase'', ''LOBBY'',
             ''hostId'', hostId, ''gameCode'', gameCode, ''mode'', mode]))) (\<lambda>_.
          andThen (expire_key room (FStr ttlSeconds)) (\<lambda>_. ret 1))))\<rparr>"

definition JOIN :: "int atomic_script" where
  "JOIN = \<lparr>script_name = ''yorrRoomJoin'', script_keys = 4, script_args = 2, script_creates = [1, 2],
     script_run = (\<lambda>keys args.
       let room = keys ! 0; players = keys ! 1; scores = keys ! 2; bots = keys ! 3;
           userId = args ! 0; nickname = args ! 1
       in andThen (exists_keys [room]) (\<lambda>n. if n = 0 then ret 0 else
          andThen (hget room (FStr ''phase'')) (\<lambda>phase. if phase \<noteq> Some ''LOBBY'' then ret 2 else
          andThen (hexists players (FStr userId)) (\<lambda>seated. if seated = 1 then ret 4 else
          andThen (hlen players) (\<lambda>count. andThen (hget room (FStr ''capacity'')) (\<lambda>capacity.
          if at_least (int count) (number_of_field capacity) then ret 3 else
          andThen (hset1 players userId nickname) (\<lambda>_.
          andThen (hset1 scores userId ''0'') (\<lambda>_.
          andThen (hincrby room (FStr ''members'') (FNum 1)) (\<lambda>_.
          andThen (hget room (FStr ''hostId'')) (\<lambda>host.
          andThen (if host = None \<or> host = Some '''' then ret True
                   else andThen (hexists players (FStr (the host))) (\<lambda>there. ret (there = 0)))
            (\<lambda>vacant. andThen (if vacant then andThen (hset1 room ''hostId'' userId) (\<lambda>_. ret ()) else ret ()) (\<lambda>_.
          andThen (pttl room) (\<lambda>ttl.
          if ttl > 0 then
            andThen (pexpire players (FNum ttl)) (\<lambda>_. andThen (pexpire scores (FNum ttl)) (\<lambda>_.
            andThen (pexpire_if_exists bots ttl) (\<lambda>_. ret 1)))
          else ret 1)))))))))))))\<rparr>"

text \<open>\<open>r.hkeys(players).sort().find((candidate) => r.hexists(bots, candidate) === 0)\<close>\<close>

fun find_human :: "string \<Rightarrow> string list \<Rightarrow> string option redis" where
  "find_human bots [] = ret None"
| "find_human bots (c # cs) = andThen (hexists bots (FStr c))
     (\<lambda>bot. if bot = 0 then ret (Some c) else find_human bots cs)"

definition LEAVE :: "int atomic_script" where
  "LEAVE = \<lparr>script_name = ''yorrRoomLeave'', script_keys = 4, script_args = 1, script_creates = [],
     script_run = (\<lambda>keys args.
       let room = keys ! 0; players = keys ! 1; scores = keys ! 2; bots = keys ! 3; playerId = args ! 0
       in andThen (exists_keys [room]) (\<lambda>n. if n = 0 then ret (- 1) else
          andThen (hdel players [FStr playerId]) (\<lambda>removed. if removed = 0 then ret (- 1) else
          andThen (hdel scores [FStr playerId]) (\<lambda>_.
          andThen (hdel bots [FStr playerId]) (\<lambda>_.
          andThen (hincrby room (FStr ''members'') (FNum (- 1))) (\<lambda>members.
          andThen (if members \<le> 0
                   then andThen (hget room (FStr ''mode'')) (\<lambda>mode. ret (mode \<noteq> Some ''PARTY''))
                   else ret False) (\<lambda>gone.
          if gone then andThen (del_keys [room, players, scores, bots]) (\<lambda>_. ret 0) else
          andThen (hget room (FStr ''hostId'')) (\<lambda>host.
          if host = Some playerId then
            andThen (hkeys players) (\<lambda>ids. andThen (find_human bots (sort ids)) (\<lambda>heir.
            andThen (hset1 room ''hostId'' (case heir of None \<Rightarrow> '''' | Some h \<Rightarrow> h)) (\<lambda>_. ret 1)))
          else ret 1))))))))\<rparr>"

definition CLOSE :: "int atomic_script" where
  "CLOSE = \<lparr>script_name = ''yorrRoomClose'', script_keys = 4, script_args = 0, script_creates = [],
     script_run = (\<lambda>keys args.
       let room = keys ! 0; players = keys ! 1; scores = keys ! 2; bots = keys ! 3
       in andThen (hget room (FStr ''gameId'')) (\<lambda>gameId.
          andThen (case gameId of None \<Rightarrow> ret ()
             | Some g \<Rightarrow> andThen (hkeys players) (\<lambda>ids.
                 andThen (run_all (map (\<lambda>player. del_keys
                    [''game:'' @ g @ '':scoreboard:'' @ player,
                     ''game:'' @ g @ '':score-submissions:'' @ player]) ids)) (\<lambda>_.
                 andThen (del_keys [''game:'' @ g]) (\<lambda>_. ret ())))) (\<lambda>_.
          andThen (del_keys [room, players, scores, bots]) (\<lambda>_. ret 1))))\<rparr>"

section \<open>Bots\<close>

definition BOT_ADD :: "int atomic_script" where
  "BOT_ADD = \<lparr>script_name = ''yorrRoomBotAdd'', script_keys = 4, script_args = 4, script_creates = [1, 2, 3],
     script_run = (\<lambda>keys args.
       let room = keys ! 0; players = keys ! 1; scores = keys ! 2; bots = keys ! 3;
           requesterId = args ! 0; botId = args ! 1; nickname = args ! 2; marker = args ! 3
       in andThen (exists_keys [room]) (\<lambda>n. if n = 0 then ret 0 else
          andThen (hget room (FStr ''phase'')) (\<lambda>phase. if phase \<noteq> Some ''LOBBY'' then ret 2 else
          andThen (hget room (FStr ''hostId'')) (\<lambda>host. if host \<noteq> Some requesterId then ret 3 else
          andThen (hexists players (FStr requesterId)) (\<lambda>there. if there = 0 then ret 3 else
          andThen (hlen players) (\<lambda>count. andThen (hget room (FStr ''capacity'')) (\<lambda>capacity.
          if at_least (int count) (number_of_field capacity) then ret 4 else
          andThen (hexists players (FStr botId)) (\<lambda>dup. if dup = 1 then ret 5 else
          andThen (hset1 players botId nickname) (\<lambda>_.
          andThen (hset1 scores botId ''0'') (\<lambda>_.
          andThen (hset1 bots botId marker) (\<lambda>_.
          andThen (hincrby room (FStr ''members'') (FNum 1)) (\<lambda>_.
          andThen (pttl room) (\<lambda>ttl.
          if ttl > 0 then
            andThen (pexpire players (FNum ttl)) (\<lambda>_. andThen (pexpire scores (FNum ttl)) (\<lambda>_.
            andThen (pexpire bots (FNum ttl)) (\<lambda>_. ret 1)))
          else ret 1)))))))))))))\<rparr>"

definition BOT_REMOVE :: "int atomic_script" where
  "BOT_REMOVE = \<lparr>script_name = ''yorrRoomBotRemove'', script_keys = 4, script_args = 2, script_creates = [],
     script_run = (\<lambda>keys args.
       let room = keys ! 0; players = keys ! 1; scores = keys ! 2; bots = keys ! 3;
           requesterId = args ! 0; botId = args ! 1
       in andThen (exists_keys [room]) (\<lambda>n. if n = 0 then ret 0 else
          andThen (hget room (FStr ''phase'')) (\<lambda>phase. if phase \<noteq> Some ''LOBBY'' then ret 2 else
          andThen (hget room (FStr ''hostId'')) (\<lambda>host. if host \<noteq> Some requesterId then ret 3 else
          andThen (hexists players (FStr requesterId)) (\<lambda>there. if there = 0 then ret 3 else
          andThen (hdel bots [FStr botId]) (\<lambda>removed. if removed = 0 then ret 4 else
          andThen (hdel players [FStr botId]) (\<lambda>_.
          andThen (hdel scores [FStr botId]) (\<lambda>_.
          andThen (hincrby room (FStr ''members'') (FNum (- 1))) (\<lambda>_. ret 1)))))))))\<rparr>"

section \<open>Course of a game\<close>

definition START :: "int atomic_script" where
  "START = \<lparr>script_name = ''yorrRoomStart'', script_keys = 4, script_args = 3, script_creates = [2],
     script_run = (\<lambda>keys args.
       let room = keys ! 0; players = keys ! 1; game = keys ! 2; bots = keys ! 3;
           gameId = args ! 0; roomCode = args ! 1; minPlayers = args ! 2
       in andThen (exists_keys [room]) (\<lambda>n. if n = 0 then ret 0 else
          andThen (hget room (FStr ''phase'')) (\<lambda>phase. if phase \<noteq> Some ''LOBBY'' then ret 0 else
          andThen (hlen players) (\<lambda>count. if less_than (int count) (number_of_string minPlayers) then ret 0 else
          andThen (hget room (FStr ''gameCode'')) (\<lambda>gameCode. case gameCode of None \<Rightarrow> ret 0
          | Some code \<Rightarrow>
          andThen (hset room (HFlat (map FStr [''phase'', ''PLAYING'', ''gameId'', gameId]))) (\<lambda>_.
          andThen (hset game (HFlat (map FStr [''roomCode'', roomCode, ''gameCode'', code]))) (\<lambda>_.
          andThen (pttl room) (\<lambda>ttl.
          if ttl > 0 then
            andThen (pexpire game (FNum ttl)) (\<lambda>_. andThen (pexpire_if_exists bots ttl) (\<lambda>_. ret 1))
          else ret 1))))))))\<rparr>"

definition ROLLBACK_START :: "int atomic_script" where
  "ROLLBACK_START = \<lparr>script_name = ''yorrRoomRollbackStart'', script_keys = 2, script_args = 1,
     script_creates = [],
     script_run = (\<lambda>keys args. let room = keys ! 0; game = keys ! 1; gameId = args ! 0
       in andThen (hget room (FStr ''phase'')) (\<lambda>phase. if phase \<noteq> Some ''PLAYING'' then ret 0 else
          andThen (hget room (FStr ''gameId'')) (\<lambda>current. if current \<noteq> Some gameId then ret 0 else
          andThen (hset1 room ''phase'' ''LOBBY'') (\<lambda>_.
          andThen (hdel room [FStr ''gameId'']) (\<lambda>_.
          andThen (del_keys [game]) (\<lambda>_. ret 1))))))\<rparr>"

definition CANCEL_ACTIVE_GAME :: "int atomic_script" where
  "CANCEL_ACTIVE_GAME = \<lparr>script_name = ''yorrRoomCancelActiveGame'', script_keys = 1, script_args = 0,
     script_creates = [],
     script_run = (\<lambda>keys args. let room = keys ! 0
       in andThen (exists_keys [room]) (\<lambda>n. if n = 0 then ret 0 else
          andThen (hget room (FStr ''phase'')) (\<lambda>phase. if phase \<noteq> Some ''PLAYING'' then ret 0 else
          andThen (hget room (FStr ''gameId'')) (\<lambda>gameId.
          andThen (hset1 room ''phase'' ''LOBBY'') (\<lambda>_.
          andThen (hdel room [FStr ''gameId'']) (\<lambda>_.
          case gameId of None \<Rightarrow> ret 1
          | Some g \<Rightarrow> andThen (del_keys [''game:'' @ g]) (\<lambda>_. ret 1)))))))\<rparr>"

definition RETURN_TO_LOBBY :: "int atomic_script" where
  "RETURN_TO_LOBBY = \<lparr>script_name = ''yorrRoomReturnToLobby'', script_keys = 4, script_args = 0,
     script_creates = [2],
     script_run = (\<lambda>keys args.
       let room = keys ! 0; players = keys ! 1; scores = keys ! 2; bots = keys ! 3
       in andThen (exists_keys [room]) (\<lambda>n. if n = 0 then ret 0 else
          andThen (hget room (FStr ''phase'')) (\<lambda>phase. if phase \<noteq> Some ''FINISHED'' then ret 0 else
          andThen (hset1 room ''phase'' ''LOBBY'') (\<lambda>_.
          andThen (hdel room [FStr ''gameId'']) (\<lambda>_.
          andThen (hkeys players) (\<lambda>ids.
          andThen (run_all (map (\<lambda>player. hset1 scores player ''0'') ids)) (\<lambda>_.
          andThen (pttl room) (\<lambda>ttl.
          if ttl > 0 then
            andThen (pexpire scores (FNum ttl)) (\<lambda>_. andThen (pexpire_if_exists bots ttl) (\<lambda>_. ret 1))
          else ret 1))))))))\<rparr>"

section \<open>Expiry\<close>

definition TOUCH :: "int atomic_script" where
  "TOUCH = \<lparr>script_name = ''yorrRoomTouch'', script_keys = 4, script_args = 1, script_creates = [],
     script_run = (\<lambda>keys args.
       let room = keys ! 0; players = keys ! 1; scores = keys ! 2; bots = keys ! 3; ttlSeconds = args ! 0
       in andThen (exists_keys [room]) (\<lambda>n. if n = 0 then ret 0 else
          andThen (expire_key room (FStr ttlSeconds)) (\<lambda>_.
          andThen (pttl room) (\<lambda>ttl. if ttl \<le> 0 then ret 1 else
          andThen (pexpire players (FNum ttl)) (\<lambda>_.
          andThen (pexpire scores (FNum ttl)) (\<lambda>_.
          andThen (pexpire_if_exists bots ttl) (\<lambda>_.
          andThen (hget room (FStr ''gameId'')) (\<lambda>gameId. case gameId of None \<Rightarrow> ret 1
          | Some g \<Rightarrow>
            andThen (pexpire (''game:'' @ g) (FNum ttl)) (\<lambda>_.
            andThen (hkeys players) (\<lambda>ids.
            andThen (run_all (map (\<lambda>player. andThen
                (pexpire (''game:'' @ g @ '':scoreboard:'' @ player) (FNum ttl)) (\<lambda>_.
                 pexpire (''game:'' @ g @ '':score-submissions:'' @ player) (FNum ttl))) ids)) (\<lambda>_.
            ret 1)))))))))))\<rparr>"

end
