(* ===== verification/RoomInvariant.thy ===== *)
theory RoomInvariant
  imports Room
begin

text \<open>
  The invariant of a room and its preservation by every atomic script. \<open>room_data_ok\<close> says what the four
  hashes of a room have in common; \<open>room_inv\<close> adds that the keys of the family live and die together.
\<close>

lemma room_keys_distinct [simp]:
  "playersKey c \<noteq> roomKey c" "playersKey c \<noteq> scoresKey c" "playersKey c \<noteq> botsKey c"
  "scoresKey c \<noteq> roomKey c" "scoresKey c \<noteq> playersKey c" "scoresKey c \<noteq> botsKey c"
  "botsKey c \<noteq> roomKey c" "botsKey c \<noteq> playersKey c" "botsKey c \<noteq> scoresKey c"
  "roomKey c \<noteq> playersKey c" "roomKey c \<noteq> scoresKey c" "roomKey c \<noteq> botsKey c"
  "gameKey g \<noteq> roomKey c" "gameKey g \<noteq> playersKey c" "gameKey g \<noteq> scoresKey c" "gameKey g \<noteq> botsKey c"
  "roomKey c \<noteq> gameKey g" "playersKey c \<noteq> gameKey g" "scoresKey c \<noteq> gameKey g" "botsKey c \<noteq> gameKey g"
  "roomKey c \<noteq> CHR ''g'' # x" "playersKey c \<noteq> CHR ''g'' # x" "scoresKey c \<noteq> CHR ''g'' # x" "botsKey c \<noteq> CHR ''g'' # x"
  "CHR ''g'' # x \<noteq> roomKey c" "CHR ''g'' # x \<noteq> playersKey c" "CHR ''g'' # x \<noteq> scoresKey c" "CHR ''g'' # x \<noteq> botsKey c"
  by (simp_all add: roomKey_def playersKey_def scoresKey_def botsKey_def gameKey_def ROOM_KEY_PREFIX_def)

definition ROOM_TTL_MILLIS :: int where
  "ROOM_TTL_MILLIS = 2400000"

text \<open>The hashes \<open>room\<close>, \<open>players\<close>, \<open>scores\<close>, \<open>bots\<close> of an existing room agree.\<close>

definition room_data_ok :: "(string \<times> string) list \<Rightarrow> (string \<times> string) list \<Rightarrow> (string \<times> string) list
    \<Rightarrow> (string \<times> string) list \<Rightarrow> bool" where
  "room_data_ok R P S B = (
     map_of R ''members'' = Some (string_of_int (int (length P)))
   \<and> (\<exists>cap. map_of R ''capacity'' = Some (string_of_int cap) \<and> int (length P) \<le> cap)
   \<and> keys_of S = keys_of P \<and> keys_of B \<subseteq> keys_of P \<and> '''' \<notin> keys_of B
   \<and> (\<exists>ph. map_of R ''phase'' = Some ph \<and> ph \<in> {''LOBBY'', ''PLAYING'', ''FINISHED''}
        \<and> (ph = ''LOBBY'' \<longleftrightarrow> map_of R ''gameId'' = None))
   \<and> (\<exists>host. map_of R ''hostId'' = Some host \<and> host \<notin> keys_of B
        \<and> ((\<exists>p \<in> keys_of P. p \<notin> keys_of B) \<longrightarrow> host \<in> keys_of P)))"

definition family_typed :: "string \<Rightarrow> keyspace \<Rightarrow> bool" where
  "family_typed c s = (hash_typed s (roomKey c) \<and> hash_typed s (playersKey c)
     \<and> hash_typed s (scoresKey c) \<and> hash_typed s (botsKey c)
     \<and> (present s (playersKey c) \<longleftrightarrow> hash_fields s (playersKey c) \<noteq> [])
     \<and> (present s (scoresKey c) \<longleftrightarrow> hash_fields s (scoresKey c) \<noteq> [])
     \<and> (present s (botsKey c) \<longleftrightarrow> hash_fields s (botsKey c) \<noteq> []))"

definition room_inv :: "string \<Rightarrow> keyspace \<Rightarrow> bool" where
  "room_inv c s = (family_typed c s \<and>
     (if present s (roomKey c) then
        (\<exists>x. key_expiry s (roomKey c) = Some x \<and> x \<le> now s + ROOM_TTL_MILLIS
          \<and> (present s (playersKey c) \<longrightarrow> key_expiry s (playersKey c) = Some x)
          \<and> (present s (scoresKey c) \<longrightarrow> key_expiry s (scoresKey c) = Some x)
          \<and> (present s (botsKey c) \<longrightarrow> key_expiry s (botsKey c) = Some x))
        \<and> room_data_ok (hash_fields s (roomKey c)) (hash_fields s (playersKey c))
            (hash_fields s (scoresKey c)) (hash_fields s (botsKey c))
      else \<not> present s (playersKey c) \<and> \<not> present s (scoresKey c) \<and> \<not> present s (botsKey c)))"

lemma room_inv_visible:
  "visible s = visible t \<Longrightarrow> now s = now t \<Longrightarrow> room_inv c s = room_inv c t"
  by (simp add: room_inv_def family_typed_def hash_typed_def present_def hash_fields_def key_expiry_def)

text \<open>Evaluation of the scripts on clean stores.\<close>

lemma single_pair [simp]: "toPairs (HFlat [FStr f, FStr v]) = Inr [(f, v)]"
  by simp

lemma set_fields_one [simp]: "set_fields [(f, v)] h = AList.update f v h"
  and set_fields_Cons: "set_fields ((f, v) # ps) h = set_fields ps (AList.update f v h)"
  and set_fields_Nil [simp]: "set_fields [] h = h"
  by (simp_all add: set_fields_def)

lemma remove_one [simp]: "remove_fields [f] h = AList.delete f h"
  by (simp add: remove_fields_def)

lemma count_removed_one [simp]: "count_removed [f] h = (if has_key h f then 1 else 0)"
  by simp

lemma andThen_run: "andThen m f s = (case m s of (r, s') \<Rightarrow>
    (case r of Inl e \<Rightarrow> (Inl e, s') | Inr x \<Rightarrow> f x s'))"
  by (simp add: andThen_def split: prod.split)

lemma if_app: "(if b then f else g) s = (if b then f s else g s)"
  by simp

lemma option_case_app: "(case x of None \<Rightarrow> f | Some y \<Rightarrow> g y) s = (case x of None \<Rightarrow> f s | Some y \<Rightarrow> g y s)"
  by (simp split: option.split)

lemma safe_one [simp]: "is_safe_integer 1" "is_safe_integer (- 1)"
  by (simp_all add: is_safe_integer_def)

lemmas run_del = andThen_ok andThen_err andThen_pair_ok andThen_pair_err exists_keys.simps del_keys.simps

lemma clean_pexpire_if_exists [cmd_simps]:
  "clean s \<Longrightarrow> is_safe_integer ttl \<Longrightarrow> 0 < ttl \<Longrightarrow>
    pexpire_if_exists k ttl s = (Inr (), if present s k then set_expiry k (now s + ttl) s else s)"
  by (simp add: pexpire_if_exists_def andThen_run if_app cmd_simps del: run_del)

lemmas run_simps = andThen_run if_app option_case_app cmd_simps

lemma room_invD:
  assumes "room_inv c s" and "present s (roomKey c)"
  shows "\<exists>x. key_expiry s (roomKey c) = Some x \<and> now s < x \<and> is_safe_integer (x - now s)
          \<and> x \<le> now s + ROOM_TTL_MILLIS
          \<and> (present s (playersKey c) \<longrightarrow> key_expiry s (playersKey c) = Some x)
          \<and> (present s (scoresKey c) \<longrightarrow> key_expiry s (scoresKey c) = Some x)
          \<and> (present s (botsKey c) \<longrightarrow> key_expiry s (botsKey c) = Some x)"
proof -
  obtain x where x: "key_expiry s (roomKey c) = Some x" "x \<le> now s + ROOM_TTL_MILLIS"
    "present s (playersKey c) \<longrightarrow> key_expiry s (playersKey c) = Some x"
    "present s (scoresKey c) \<longrightarrow> key_expiry s (scoresKey c) = Some x"
    "present s (botsKey c) \<longrightarrow> key_expiry s (botsKey c) = Some x"
    using assms by (auto simp: room_inv_def)
  moreover have "now s < x" using key_expiry_alive[OF x(1)] .
  ultimately show ?thesis by (auto simp: is_safe_integer_def ROOM_TTL_MILLIS_def)
qed

text \<open>The family of an existing room holds these hashes, and what is there expires at instant \<open>x\<close>.\<close>

definition room_state :: "string \<Rightarrow> keyspace \<Rightarrow> int \<Rightarrow> (string \<times> string) list \<Rightarrow> (string \<times> string) list
    \<Rightarrow> (string \<times> string) list \<Rightarrow> (string \<times> string) list \<Rightarrow> bool" where
  "room_state c s x R P S B = (family_typed c s \<and> present s (roomKey c)
     \<and> key_expiry s (roomKey c) = Some x
     \<and> (present s (playersKey c) \<longrightarrow> key_expiry s (playersKey c) = Some x)
     \<and> (present s (scoresKey c) \<longrightarrow> key_expiry s (scoresKey c) = Some x)
     \<and> (present s (botsKey c) \<longrightarrow> key_expiry s (botsKey c) = Some x)
     \<and> hash_fields s (roomKey c) = R \<and> hash_fields s (playersKey c) = P
     \<and> hash_fields s (scoresKey c) = S \<and> hash_fields s (botsKey c) = B)"

lemma room_inv_present:
  "room_inv c s \<and> present s (roomKey c) \<longleftrightarrow>
    (\<exists>x R P S B. room_state c s x R P S B \<and> x \<le> now s + ROOM_TTL_MILLIS \<and> room_data_ok R P S B)"
  by (auto simp: room_inv_def room_state_def)

lemma room_state_inv:
  "room_state c s x R P S B \<Longrightarrow> x \<le> now s + ROOM_TTL_MILLIS \<Longrightarrow> room_data_ok R P S B \<Longrightarrow> room_inv c s"
  using room_inv_present by blast

lemma room_stateD:
  assumes "room_state c s x R P S B"
  shows "hash_typed s (roomKey c)" "hash_typed s (playersKey c)" "hash_typed s (scoresKey c)"
    "hash_typed s (botsKey c)" "present s (roomKey c)" "key_expiry s (roomKey c) = Some x"
    "hash_fields s (roomKey c) = R" "hash_fields s (playersKey c) = P"
    "hash_fields s (scoresKey c) = S" "hash_fields s (botsKey c) = B"
    "present s (playersKey c) \<longleftrightarrow> P \<noteq> []" "present s (scoresKey c) \<longleftrightarrow> S \<noteq> []"
    "present s (botsKey c) \<longleftrightarrow> B \<noteq> []"
    "P \<noteq> [] \<longrightarrow> key_expiry s (playersKey c) = Some x"
    "S \<noteq> [] \<longrightarrow> key_expiry s (scoresKey c) = Some x"
    "B \<noteq> [] \<longrightarrow> key_expiry s (botsKey c) = Some x"
    "now s < x"
  using assms key_expiry_alive[of s "roomKey c" x] by (auto simp: room_state_def family_typed_def)

lemma JOIN_run:
  fixes u nick h :: string
  assumes s: "clean s" and st: "room_state c s x R P S B" and x: "is_safe_integer (x - now s)"
    and decl: "declares s (playersKey c)" "declares s (scoresKey c)"
    and cap: "map_of R ''capacity'' = Some (string_of_int cap)"
    and m: "map_of R ''members'' = Some (string_of_int mem)" and host: "map_of R ''hostId'' = Some h"
  defines "P' \<equiv> AList.update u nick P" and "R1 \<equiv> AList.update ''members'' (string_of_int (mem + 1)) R"
  shows "case script_run JOIN (roomKeyFamily c) [u, nick] s of (r, s') \<Rightarrow>
    if map_of R ''phase'' \<noteq> Some ''LOBBY'' then r = Inr 2 \<and> s' = s
    else if has_key P u then r = Inr 4 \<and> s' = s
    else if cap \<le> int (length P) then r = Inr 3 \<and> s' = s
    else r = Inr 1 \<and> clean s' \<and> now s' = now s
      \<and> room_state c s' x (if h = '''' \<or> \<not> has_key P' h then AList.update ''hostId'' u R1 else R1)
          P' (AList.update u ''0'' S) B"
proof -
  note st' = room_stateD[OF st]
  note run = Let_def JOIN_def roomKeyFamily_def run_simps s st'(1-13,17) decl m cap x host
  consider (phase) "map_of R ''phase'' \<noteq> Some ''LOBBY''"
    | (seated) "map_of R ''phase'' = Some ''LOBBY''" "has_key P u"
    | (full) "map_of R ''phase'' = Some ''LOBBY''" "\<not> has_key P u" "cap \<le> int (length P)"
    | (ok) "map_of R ''phase'' = Some ''LOBBY''" "\<not> has_key P u" "\<not> cap \<le> int (length P)" by blast
  then show ?thesis
  proof cases
    case ok
    then show ?thesis using st'(14-16)
      by (simp add: run P'_def R1_def room_state_def family_typed_def del: run_del)
  qed (simp_all add: run del: run_del)
qed

lemma has_key_update [simp]: "has_key (AList.update k v m) k' \<longleftrightarrow> k' = k \<or> has_key m k'"
  and has_key_delete [simp]: "has_key (AList.delete k m) k' \<longleftrightarrow> k' \<noteq> k \<and> has_key m k'"
  and has_key_Nil [simp]: "\<not> has_key [] k"
  by (auto simp: has_key_def)

lemma LEAVE_human:
  assumes "clean s" "hash_typed s bots"
  shows "find_human bots cs s = (Inr (find (\<lambda>p. \<not> has_key (hash_fields s bots) p) cs), s)"
  by (induction cs) (auto simp: run_simps assms simp del: run_del)

lemma LEAVE_run:
  fixes u h :: string
  assumes s: "clean s" and st: "room_state c s x R P S B"
    and m: "map_of R ''members'' = Some (string_of_int mem)" and host: "map_of R ''hostId'' = Some h"
  defines "P' \<equiv> AList.delete u P" and "B' \<equiv> AList.delete u B"
    and "R1 \<equiv> AList.update ''members'' (string_of_int (mem - 1)) R"
  shows "case script_run LEAVE (roomKeyFamily c) [u] s of (r, s') \<Rightarrow>
    if \<not> has_key P u then r = Inr (- 1) \<and> clean s' \<and> now s' = now s \<and> room_state c s' x R P S B
    else if mem \<le> 1 \<and> map_of R ''mode'' \<noteq> Some ''PARTY''
    then r = Inr 0 \<and> clean s' \<and> now s' = now s \<and> family_typed c s' \<and> \<not> present s' (roomKey c)
      \<and> \<not> present s' (playersKey c) \<and> \<not> present s' (scoresKey c) \<and> \<not> present s' (botsKey c)
    else r = Inr 1 \<and> clean s' \<and> now s' = now s
      \<and> room_state c s' x
         (if h = u then AList.update ''hostId''
            (case find (\<lambda>p. \<not> has_key B' p) (sort (map fst P')) of None \<Rightarrow> '''' | Some p \<Rightarrow> p) R1 else R1)
         P' (AList.delete u S) B'"
proof -
  note st' = room_stateD[OF st]
  note run = Let_def LEAVE_def roomKeyFamily_def run_simps s st'(1-13,17) m host LEAVE_human
  consider (absent) "\<not> has_key P u"
    | (gone) "has_key P u" "mem \<le> 1" "map_of R ''mode'' \<noteq> Some ''PARTY''"
    | (stays) "has_key P u" "\<not> mem \<le> 1 \<or> map_of R ''mode'' = Some ''PARTY''" by blast
  then show ?thesis
  proof cases
    case gone
    then show ?thesis by (simp add: run family_typed_def del: run_del)
  next
    case stays
    then show ?thesis using st'(14-16)
      by (cases "h = u"; simp add: run P'_def B'_def R1_def room_state_def family_typed_def del: run_del; auto)
  next
    case absent
    then have "AList.delete u P = P" by (simp add: delete_id has_key_iff)
    then show ?thesis using absent st'(14-16) by (simp add: run room_state_def family_typed_def del: run_del)
  qed
qed

text \<open>Two states that may differ on keys of games only.\<close>

definition same_but_games :: "keyspace \<Rightarrow> keyspace \<Rightarrow> bool" where
  "same_but_games s s' = (clean s' \<and> now s' = now s \<and> scriptCreates s' = scriptCreates s
     \<and> (\<forall>k. (\<forall>x. k \<noteq> CHR ''g'' # x) \<longrightarrow> visible s' k = visible s k))"

lemma same_but_games_refl: "clean s \<Longrightarrow> same_but_games s s"
  and same_but_games_trans: "same_but_games s t \<Longrightarrow> same_but_games t u \<Longrightarrow> same_but_games s u"
  by (auto simp: same_but_games_def)

lemma same_but_games_key:
  assumes "same_but_games s s'" and "\<And>x. k \<noteq> CHR ''g'' # x"
  shows "hash_fields s' k = hash_fields s k" "hash_typed s' k = hash_typed s k"
    "key_expiry s' k = key_expiry s k" "present s' k = present s k"
proof -
  have "visible s' k = visible s k" using assms unfolding same_but_games_def by blast
  then show "hash_fields s' k = hash_fields s k" "hash_typed s' k = hash_typed s k"
    "key_expiry s' k = key_expiry s k" "present s' k = present s k"
    by (simp_all only: hash_fields_def hash_typed_def key_expiry_def present_def)
qed

lemma same_but_games_obs:
  assumes "same_but_games s s'"
  shows "hash_fields s' (roomKey c) = hash_fields s (roomKey c)" "hash_fields s' (playersKey c) = hash_fields s (playersKey c)"
    "hash_fields s' (scoresKey c) = hash_fields s (scoresKey c)" "hash_fields s' (botsKey c) = hash_fields s (botsKey c)"
    "hash_typed s' (roomKey c) = hash_typed s (roomKey c)" "hash_typed s' (playersKey c) = hash_typed s (playersKey c)"
    "hash_typed s' (scoresKey c) = hash_typed s (scoresKey c)" "hash_typed s' (botsKey c) = hash_typed s (botsKey c)"
    "key_expiry s' (roomKey c) = key_expiry s (roomKey c)" "key_expiry s' (playersKey c) = key_expiry s (playersKey c)"
    "key_expiry s' (scoresKey c) = key_expiry s (scoresKey c)" "key_expiry s' (botsKey c) = key_expiry s (botsKey c)"
    "present s' (roomKey c) = present s (roomKey c)" "present s' (playersKey c) = present s (playersKey c)"
    "present s' (scoresKey c) = present s (scoresKey c)" "present s' (botsKey c) = present s (botsKey c)"
  by (rule same_but_games_key[OF assms]; simp)+

lemma same_but_games_state:
  "same_but_games s s' \<Longrightarrow> room_state c s' x R P S B = room_state c s x R P S B"
  by (simp add: room_state_def family_typed_def same_but_games_obs)

lemma drop_game: "clean s \<Longrightarrow> same_but_games s (drop_entry (CHR ''g'' # x) s)"
  by (auto simp: same_but_games_def visible_drop)

lemma expire_game: "clean s \<Longrightarrow> now s < t \<Longrightarrow> same_but_games s (set_expiry (CHR ''g'' # x) t s)"
  by (auto simp: same_but_games_def visible_set_expiry split: option.split)

lemma same_but_gamesD: "same_but_games s s' \<Longrightarrow> clean s'" "same_but_games s s' \<Longrightarrow> now s' = now s"
  by (auto simp: same_but_games_def)

text \<open>A loop whose steps touch game keys only.\<close>

lemma run_all_games:
  assumes "clean s"
    and step: "\<And>p t. same_but_games s t \<Longrightarrow> \<exists>r t'. f p t = (Inr r, t') \<and> same_but_games t t'"
  shows "\<exists>s'. run_all (map f ids) s = (Inr (), s') \<and> same_but_games s s'"
proof -
  have "same_but_games s t \<Longrightarrow> \<exists>s'. run_all (map f ids) t = (Inr (), s') \<and> same_but_games s s'" for t
  proof (induction ids arbitrary: t)
    case (Cons p ids)
    obtain r t' where t': "f p t = (Inr r, t')" "same_but_games t t'" using step[OF Cons.prems] by blast
    then have "same_but_games s t'" using Cons.prems same_but_games_trans by blast
    then show ?case using Cons.IH t'(1) by simp
  qed simp
  then show ?thesis using assms(1) same_but_games_refl by blast
qed

lemma CLOSE_run:
  assumes s: "clean s" and ft: "family_typed c s"
  shows "case script_run CLOSE (roomKeyFamily c) [] s of (r, s') \<Rightarrow>
    r = Inr 1 \<and> clean s' \<and> now s' = now s \<and> family_typed c s' \<and> \<not> present s' (roomKey c)
      \<and> \<not> present s' (playersKey c) \<and> \<not> present s' (scoresKey c) \<and> \<not> present s' (botsKey c)"
proof -
  note typed = ft[unfolded family_typed_def]
  note run = Let_def CLOSE_def roomKeyFamily_def run_simps s typed
  show ?thesis
  proof (cases "map_of (hash_fields s (roomKey c)) ''gameId''")
    case None
    then show ?thesis by (simp add: run family_typed_def del: run_del)
  next
    case (Some g)
    let ?f = "\<lambda>player. del_keys [''game:'' @ g @ '':scoreboard:'' @ player,
        ''game:'' @ g @ '':score-submissions:'' @ player]"
    have "\<exists>r t'. ?f p t = (Inr r, t') \<and> same_but_games t t'" if "same_but_games s t" for p t
    proof -
      have t: "clean t" using that same_but_gamesD by blast
      let ?t1 = "drop_entry (''game:'' @ g @ '':scoreboard:'' @ p) t"
      have "same_but_games t ?t1" using drop_game[OF t, of "''ame:'' @ g @ '':scoreboard:'' @ p"] by simp
      moreover have "same_but_games ?t1 (drop_entry (''game:'' @ g @ '':score-submissions:'' @ p) ?t1)"
        using drop_game[of ?t1 "''ame:'' @ g @ '':score-submissions:'' @ p"] t by simp
      ultimately have "same_but_games t (drop_entry (''game:'' @ g @ '':score-submissions:'' @ p) ?t1)"
        by (rule same_but_games_trans)
      then show ?thesis using t by (simp add: clean_del del: run_del)
    qed
    from run_all_games[OF s, of ?f, OF this]
    obtain s1 where s1: "run_all (map ?f (map fst (hash_fields s (playersKey c)))) s = (Inr (), s1)"
      "same_but_games s s1" by blast
    show ?thesis using s1 same_but_gamesD[OF s1(2)] Some
      by (simp add: run family_typed_def same_but_games_obs[OF s1(2)] del: run_del map_map)
  qed
qed

lemma put_hash_twice: "put_hash k h' (put_hash k h s) = put_hash k h' s"
proof -
  have "key_expiry (put_hash k h s) k = key_expiry s k" by simp
  then show ?thesis
    unfolding put_hash_def[of k h' "put_hash k h s"] by (simp add: put_hash_def put_entry_def)
qed

lemma run_all_hset:
  "clean s \<Longrightarrow> hash_typed s k \<Longrightarrow> present s k \<or> declares s k \<Longrightarrow>
    run_all (map (\<lambda>p. hset1 k p v) ids) s = (Inr (), if ids = [] then s
      else put_hash k (set_fields (map (\<lambda>p. (p, v)) ids) (hash_fields s k)) s)"
proof (induction ids arbitrary: s)
  case (Cons p ids)
  let ?s = "put_hash k (AList.update p v (hash_fields s k)) s"
  have "run_all (map (\<lambda>p. hset1 k p v) ids) (put_hash k (AList.update p v (hash_fields s k)) s) = (Inr (), if ids = [] then ?s
      else put_hash k (set_fields (map (\<lambda>p. (p, v)) ids) (hash_fields ?s k)) ?s)"
    by (rule Cons.IH) (use Cons.prems in auto)
  then show ?case using Cons.prems by (simp add: run_simps put_hash_twice set_fields_Cons del: run_del)
qed simp

lemma keys_of_set_fields: "keys_of (set_fields ps m) = keys_of ps \<union> keys_of m"
proof (induction ps arbitrary: m)
  case (Cons p ps) then show ?case by (cases p) (simp add: set_fields_Cons insert_commute)
qed simp

lemma BOT_ADD_run:
  fixes q b nick marker :: string
  assumes s: "clean s" and st: "room_state c s x R P S B" and x: "is_safe_integer (x - now s)"
    and decl: "declares s (playersKey c)" "declares s (scoresKey c)" "declares s (botsKey c)"
    and cap: "map_of R ''capacity'' = Some (string_of_int cap)"
    and m: "map_of R ''members'' = Some (string_of_int mem)" and host: "map_of R ''hostId'' = Some h"
  shows "case script_run BOT_ADD (roomKeyFamily c) [q, b, nick, marker] s of (r, s') \<Rightarrow>
    if map_of R ''phase'' \<noteq> Some ''LOBBY'' then r = Inr 2 \<and> s' = s
    else if h \<noteq> q \<or> \<not> has_key P q then r = Inr 3 \<and> s' = s
    else if cap \<le> int (length P) then r = Inr 4 \<and> s' = s
    else if has_key P b then r = Inr 5 \<and> s' = s
    else r = Inr 1 \<and> clean s' \<and> now s' = now s
      \<and> room_state c s' x (AList.update ''members'' (string_of_int (mem + 1)) R)
          (AList.update b nick P) (AList.update b ''0'' S) (AList.update b marker B)"
proof -
  note st' = room_stateD[OF st]
  note run = Let_def BOT_ADD_def roomKeyFamily_def run_simps s st'(1-13,17) decl m cap x host
  consider (phase) "map_of R ''phase'' \<noteq> Some ''LOBBY''"
    | (other) "map_of R ''phase'' = Some ''LOBBY''" "h \<noteq> q"
    | (away) "map_of R ''phase'' = Some ''LOBBY''" "h = q" "\<not> has_key P q"
    | (full) "map_of R ''phase'' = Some ''LOBBY''" "h = q" "has_key P q" "cap \<le> int (length P)"
    | (dup) "map_of R ''phase'' = Some ''LOBBY''" "h = q" "has_key P q" "\<not> cap \<le> int (length P)" "has_key P b"
    | (ok) "map_of R ''phase'' = Some ''LOBBY''" "h = q" "has_key P q" "\<not> cap \<le> int (length P)" "\<not> has_key P b"
    by blast
  then show ?thesis
  proof cases
    case ok
    then show ?thesis using st'(14-16) by (simp add: run room_state_def family_typed_def del: run_del)
  qed (simp_all add: run del: run_del)
qed

lemma BOT_REMOVE_run:
  fixes q b :: string
  assumes s: "clean s" and st: "room_state c s x R P S B"
    and m: "map_of R ''members'' = Some (string_of_int mem)" and host: "map_of R ''hostId'' = Some h"
  shows "case script_run BOT_REMOVE (roomKeyFamily c) [q, b] s of (r, s') \<Rightarrow>
    clean s' \<and> now s' = now s \<and>
    (if map_of R ''phase'' \<noteq> Some ''LOBBY'' then r = Inr 2 \<and> s' = s
    else if h \<noteq> q \<or> \<not> has_key P q then r = Inr 3 \<and> s' = s
    else if \<not> has_key B b then r = Inr 4 \<and> room_state c s' x R P S B
    else r = Inr 1 \<and> room_state c s' x (AList.update ''members'' (string_of_int (mem - 1)) R)
          (AList.delete b P) (AList.delete b S) (AList.delete b B))"
proof -
  note st' = room_stateD[OF st]
  note run = Let_def BOT_REMOVE_def roomKeyFamily_def run_simps s st'(1-13,17) m host
  consider (phase) "map_of R ''phase'' \<noteq> Some ''LOBBY''"
    | (other) "map_of R ''phase'' = Some ''LOBBY''" "h \<noteq> q"
    | (away) "map_of R ''phase'' = Some ''LOBBY''" "h = q" "\<not> has_key P q"
    | (none) "map_of R ''phase'' = Some ''LOBBY''" "h = q" "has_key P q" "\<not> has_key B b"
    | (ok) "map_of R ''phase'' = Some ''LOBBY''" "h = q" "has_key P q" "has_key B b"
    by blast
  then show ?thesis
  proof cases
    case none
    then have "AList.delete b B = B" by (simp add: delete_id has_key_iff)
    then show ?thesis using none st'(14-16) by (simp add: run room_state_def family_typed_def del: run_del)
  next
    case ok
    then show ?thesis using st'(14-16)
      by (simp add: run room_state_def family_typed_def del: run_del; auto)
  qed (simp_all add: run del: run_del)
qed

lemma toPairs_map [simp]: "toPairs (HFlat [FStr f1, FStr v1, FStr f2, FStr v2]) = Inr [(f1, v1), (f2, v2)]"
  by simp

lemma START_run:
  fixes g rc :: string
  assumes s: "clean s" and st: "room_state c s x R P S B" and x: "is_safe_integer (x - now s)"
    and game: "hash_typed s (gameKey g)" "present s (gameKey g) \<or> declares s (gameKey g)"
  shows "case script_run START [roomKey c, playersKey c, gameKey g, botsKey c] [g, rc, string_of_int minP] s of (r, s') \<Rightarrow>
    if map_of R ''phase'' \<noteq> Some ''LOBBY'' \<or> int (length P) < minP \<or> map_of R ''gameCode'' = None then r = Inr 0 \<and> s' = s
    else r = Inr 1 \<and> clean s' \<and> now s' = now s
      \<and> room_state c s' x (AList.update ''gameId'' g (AList.update ''phase'' ''PLAYING'' R)) P S B
      \<and> hash_typed s' (gameKey g) \<and> present s' (gameKey g) \<and> key_expiry s' (gameKey g) = Some x
      \<and> map_of (hash_fields s' (gameKey g)) ''roomCode'' = Some rc"
proof -
  note st' = room_stateD[OF st]
  note run = Let_def START_def run_simps s st'(1-13,17) x game
  consider (phase) "map_of R ''phase'' \<noteq> Some ''LOBBY''"
    | (few) "map_of R ''phase'' = Some ''LOBBY''" "int (length P) < minP"
    | (code) "map_of R ''phase'' = Some ''LOBBY''" "\<not> int (length P) < minP" "map_of R ''gameCode'' = None"
    | (ok) code where "map_of R ''phase'' = Some ''LOBBY''" "\<not> int (length P) < minP" "map_of R ''gameCode'' = Some code"
    by blast
  then show ?thesis
  proof cases
    case ok
    then show ?thesis using st'(14-16)
      by (simp add: run room_state_def family_typed_def set_fields_Cons del: run_del)
  qed (simp_all add: run del: run_del)
qed

text \<open>Removing the game from a room leaves its phase, so the hash does not vanish.\<close>

lemma phase_left [simp]: "AList.delete ''gameId'' (AList.update ''phase'' v R) \<noteq> []"
proof
  assume "AList.delete ''gameId'' (AList.update ''phase'' v R) = []"
  then have "map_of (AList.delete ''gameId'' (AList.update ''phase'' v R)) ''phase'' = None" by (simp only: map_of.simps)
  then show False by simp
qed

lemma ROLLBACK_START_run:
  fixes g :: string
  assumes s: "clean s" and ft: "family_typed c s"
    and st: "present s (roomKey c) \<longrightarrow> room_state c s x R P S B"
  shows "case script_run ROLLBACK_START [roomKey c, gameKey g] [g] s of (r, s') \<Rightarrow>
    if \<not> present s (roomKey c) \<or> map_of R ''phase'' \<noteq> Some ''PLAYING'' \<or> map_of R ''gameId'' \<noteq> Some g then r = Inr 0 \<and> s' = s
    else r = Inr 1 \<and> clean s' \<and> now s' = now s
      \<and> room_state c s' x (AList.delete ''gameId'' (AList.update ''phase'' ''LOBBY'' R)) P S B
      \<and> \<not> present s' (gameKey g)"
proof (cases "present s (roomKey c)")
  case False
  then have "hash_fields s (roomKey c) = []" by (simp add: present_def hash_fields_def)
  then show ?thesis using False ft
    by (simp add: Let_def ROLLBACK_START_def run_simps s family_typed_def del: run_del)
next
  case True
  note st' = room_stateD[OF st[rule_format, OF True]]
  note run = Let_def ROLLBACK_START_def run_simps s st'(1-13,17)
  consider (phase) "map_of R ''phase'' \<noteq> Some ''PLAYING''"
    | (id) "map_of R ''phase'' = Some ''PLAYING''" "map_of R ''gameId'' \<noteq> Some g"
    | (ok) "map_of R ''phase'' = Some ''PLAYING''" "map_of R ''gameId'' = Some g" by blast
  then show ?thesis
  proof cases
    case ok
    then show ?thesis using st'(14-16) True
      by (simp add: run room_state_def family_typed_def del: run_del)
  qed (simp_all add: run del: run_del)
qed

lemma CANCEL_ACTIVE_GAME_run:
  assumes s: "clean s" and st: "room_state c s x R P S B"
  shows "case script_run CANCEL_ACTIVE_GAME [roomKey c] [] s of (r, s') \<Rightarrow>
    if map_of R ''phase'' \<noteq> Some ''PLAYING'' then r = Inr 0 \<and> s' = s
    else r = Inr 1 \<and> clean s' \<and> now s' = now s
      \<and> room_state c s' x (AList.delete ''gameId'' (AList.update ''phase'' ''LOBBY'' R)) P S B"
proof -
  note st' = room_stateD[OF st]
  note run = Let_def CANCEL_ACTIVE_GAME_def run_simps s st'(1-13,17)
  show ?thesis
  proof (cases "map_of R ''phase'' = Some ''PLAYING''")
    case True
    then show ?thesis using st'(14-16)
      by (cases "map_of R ''gameId''"; simp add: run room_state_def family_typed_def del: run_del)
  next
    case False
    then show ?thesis by (simp add: run del: run_del)
  qed
qed

lemma set_fields_not_Nil: "ps \<noteq> [] \<Longrightarrow> set_fields ps m \<noteq> []"
proof (induction ps arbitrary: m)
  case (Cons p ps) then show ?case by (cases p; cases "ps = []") (simp_all add: set_fields_Cons)
qed simp

lemma RETURN_TO_LOBBY_run:
  assumes s: "clean s" and st: "room_state c s x R P S B" and x: "is_safe_integer (x - now s)"
    and decl: "declares s (scoresKey c)"
  shows "case script_run RETURN_TO_LOBBY (roomKeyFamily c) [] s of (r, s') \<Rightarrow>
    if map_of R ''phase'' \<noteq> Some ''FINISHED'' then r = Inr 0 \<and> s' = s
    else r = Inr 1 \<and> clean s' \<and> now s' = now s
      \<and> room_state c s' x (AList.delete ''gameId'' (AList.update ''phase'' ''LOBBY'' R)) P
          (set_fields (map (\<lambda>p. (p, ''0'')) (map fst P)) S) B"
proof -
  note st' = room_stateD[OF st]
  note run = Let_def RETURN_TO_LOBBY_def roomKeyFamily_def run_simps s st'(1-13,17) x decl
  show ?thesis
  proof (cases "map_of R ''phase'' = Some ''FINISHED''")
    case False
    then show ?thesis by (simp add: run del: run_del)
  next
    case True
    have ids: "map (\<lambda>p. (p, ''0'')) (map fst P) = [] \<longleftrightarrow> P = []" by simp
    show ?thesis
    proof (cases "P = []")
      case P: True
      show ?thesis using st'(14-16) True P
        by (simp add: run run_all_hset room_state_def family_typed_def del: run_del)
    next
      case P: False
      show ?thesis using st'(14-16) True P set_fields_not_Nil[of "map (\<lambda>p. (p, ''0'')) (map fst P)" S]
        by (simp add: run run_all_hset room_state_def family_typed_def del: run_del map_map)
    qed
  qed
qed

lemma CREATE_run:
  fixes host code mode :: string
  assumes s: "clean s" and ft: "family_typed c s" and decl: "declares s (roomKey c)"
    and others: "\<not> present s (playersKey c)" "\<not> present s (scoresKey c)" "\<not> present s (botsKey c)"
    and ttl: "0 < ttl" "is_safe_integer ttl" "is_safe_integer (ttl * 1000)"
  shows "case script_run CREATE [roomKey c] [cap, host, code, string_of_int ttl, mode] s of (r, s') \<Rightarrow>
    if present s (roomKey c) then r = Inr 0 \<and> s' = s
    else r = Inr 1 \<and> clean s' \<and> now s' = now s
      \<and> room_state c s' (now s + ttl * 1000) [(''capacity'', cap), (''members'', ''0''), (''phase'', ''LOBBY''),
          (''hostId'', host), (''gameCode'', code), (''mode'', mode)] [] [] []"
proof -
  note typed = ft[unfolded family_typed_def]
  have empty: "\<not> present s k \<Longrightarrow> hash_fields s k = []" for k
    by (simp add: present_def hash_fields_def)
  note run = Let_def CREATE_def run_simps s decl ttl
  show ?thesis
  proof (cases "present s (roomKey c)")
    case True
    then show ?thesis by (simp add: run del: run_del)
  next
    case False
    show ?thesis using others False empty[OF False] typed
      by (simp add: run room_state_def family_typed_def set_fields_Cons del: run_del)
  qed
qed

lemma TOUCH_run:
  assumes s: "clean s" and st: "room_state c s x R P S B"
    and ttl: "0 < ttl" "is_safe_integer ttl" "is_safe_integer (ttl * 1000)"
  shows "case script_run TOUCH (roomKeyFamily c) [string_of_int ttl] s of (r, s') \<Rightarrow>
    r = Inr 1 \<and> clean s' \<and> now s' = now s \<and> room_state c s' (now s + ttl * 1000) R P S B"
proof -
  note st' = room_stateD[OF st]
  note run = Let_def TOUCH_def roomKeyFamily_def run_simps s st'(1-13,17) ttl
  have pos: "\<not> ttl \<le> 0" using ttl by simp
  let ?x = "now s + ttl * 1000"
  let ?s1 = "set_expiry (scoresKey c) ?x (set_expiry (playersKey c) ?x (set_expiry (roomKey c) ?x s))"
  let ?s2 = "if present s (botsKey c) then set_expiry (botsKey c) ?x ?s1 else ?s1"
  have s2: "clean ?s2" "now ?s2 = now s" "room_state c ?s2 ?x R P S B"
    using st'(14-16) s ttl st by (auto simp: room_state_def family_typed_def)
  show ?thesis
  proof (cases "map_of R ''gameId''")
    case None
    then show ?thesis using s2 pos by (cases "B = []"; simp add: run del: run_del)
  next
    case (Some g)
    let ?s3 = "set_expiry (''game:'' @ g) ?x ?s2"
    have s3: "same_but_games ?s2 ?s3" using expire_game[of ?s2 ?x "''ame:'' @ g"] s2 ttl by simp
    let ?f = "\<lambda>player. andThen (pexpire (''game:'' @ g @ '':scoreboard:'' @ player) (FNum (ttl * 1000)))
        (\<lambda>_. pexpire (''game:'' @ g @ '':score-submissions:'' @ player) (FNum (ttl * 1000)))"
    have step: "\<exists>r t'. ?f p t = (Inr r, t') \<and> same_but_games t t'" if "same_but_games ?s3 t" for p t
    proof -
      have t: "clean t" "now t = now s" using that s2 by (auto simp: same_but_games_def)
      let ?t1 = "set_expiry (''game:'' @ g @ '':scoreboard:'' @ p) ?x t"
      have 1: "same_but_games t ?t1"
        using expire_game[of t ?x "''ame:'' @ g @ '':scoreboard:'' @ p"] t ttl by simp
      then have "same_but_games ?t1 (set_expiry (''game:'' @ g @ '':score-submissions:'' @ p) ?x ?t1)"
        using expire_game[of ?t1 ?x "''ame:'' @ g @ '':score-submissions:'' @ p"] t ttl by simp
      then have "same_but_games t (set_expiry (''game:'' @ g @ '':score-submissions:'' @ p) ?x ?t1)"
        by (rule same_but_games_trans[OF 1])
      then show ?thesis using t ttl by (simp add: run_simps del: run_del)
    qed
    have "clean ?s3" using s3 same_but_gamesD by blast
    from run_all_games[OF this, of ?f, OF step]
    obtain s4 where s4: "run_all (map ?f (map fst P)) ?s3 = (Inr (), s4)" "same_but_games ?s3 s4" by blast
    have "same_but_games ?s2 s4" using same_but_games_trans[OF s3 s4(2)] .
    then have fin: "clean s4" "now s4 = now s" "room_state c s4 ?x R P S B"
      using s2 by (simp_all add: same_but_games_state same_but_gamesD)
    show ?thesis
    proof (cases "B = []")
      case True
      then show ?thesis using Some s4(1) fin pos by (simp add: run del: run_del map_map)
    next
      case False
      then show ?thesis using Some s4(1) fin pos by (simp add: run del: run_del map_map)
    qed
  qed
qed

end
