(* ===== verification/GameScripts.thy ===== *)
theory GameScripts
  imports RoomInvariant
begin

text \<open>
  The two scripts that run during a game: confirming a score (\<open>game/score/scripts.ts\<close>) and ending
  the game (\<open>game/completion/scripts.ts\<close>), with the order of their guards.
\<close>

section \<open>Confirming a score\<close>

definition confirmGuard :: "string list \<Rightarrow> string list \<Rightarrow> int option redis" where
  "confirmGuard keys args = (
     let game = keys ! 0; room = keys ! 1; players = keys ! 2; scoreboard = keys ! 3; submissions = keys ! 4;
         roomCode = args ! 0; gameId = args ! 1; playerId = args ! 2; roundNumber = args ! 3;
         category = args ! 4; signature = args ! 7
     in andThen (hget game (FStr ''roomCode'')) (\<lambda>mappedRoom.
        if mappedRoom = None then ret (Some 1) else
        if mappedRoom \<noteq> Some roomCode then ret (Some 2) else
        andThen (exists_keys [room]) (\<lambda>n. if n = 0 then ret (Some 7) else
        andThen (hget room (FStr ''gameId'')) (\<lambda>g. if g \<noteq> Some gameId then ret (Some 8) else
        andThen (hget room (FStr ''phase'')) (\<lambda>ph. if ph \<noteq> Some ''PLAYING'' then ret (Some 9) else
        andThen (hexists players (FStr playerId)) (\<lambda>there. if there = 0 then ret (Some 3) else
        andThen (hget submissions (FStr roundNumber)) (\<lambda>previous.
        if previous \<noteq> None then ret (Some (if previous = Some signature then 5 else 4)) else
        andThen (hexists scoreboard (FStr category)) (\<lambda>used. ret (if used = 1 then Some 6 else None)))))))))"

text \<open>Arithmetic on \<open>Number(r.hget(scoreboard, field) ?? '0')\<close>; \<open>None\<close> is NaN, which is written
  back as the text \<open>NaN\<close>.\<close>

definition stored_number :: "string option \<Rightarrow> int option" where
  "stored_number v = number_of_string (case v of None \<Rightarrow> ''0'' | Some s \<Rightarrow> s)"

fun js_add :: "int option \<Rightarrow> int option \<Rightarrow> int option" where
  "js_add (Some x) (Some y) = Some (x + y)"
| "js_add _ _ = None"

fun number_text :: "int option \<Rightarrow> string" where
  "number_text None = ''NaN''"
| "number_text (Some i) = string_of_int i"

text \<open>The new upper subtotal, bonus and total.\<close>

definition next_totals :: "bool \<Rightarrow> int option \<Rightarrow> int option \<Rightarrow> int option \<Rightarrow> int option
    \<Rightarrow> int option \<times> int \<times> int option" where
  "next_totals isUpper score upperSubtotal upperBonus currentTotal =
     (let subtotal = (if isUpper then js_add upperSubtotal score else upperSubtotal);
          nextBonus = (case subtotal of None \<Rightarrow> 0 | Some n \<Rightarrow> if n \<ge> 63 then 35 else 0)
      in (subtotal, nextBonus,
          js_add (js_add (js_add currentTotal score) (Some nextBonus)) (map_option uminus upperBonus)))"

definition CONFIRM_SCORE :: "int atomic_script" where
  "CONFIRM_SCORE = \<lparr>script_name = ''yorrGameConfirmScore'', script_keys = 6, script_args = 8,
     script_creates = [3, 4],
     script_run = (\<lambda>keys args. andThen (confirmGuard keys args) (\<lambda>refused.
       case refused of Some code \<Rightarrow> ret code
       | None \<Rightarrow>
         (let game = keys ! 0; scoreboard = keys ! 3; submissions = keys ! 4; scores = keys ! 5;
              playerId = args ! 2; roundNumber = args ! 3; category = args ! 4; scoreText = args ! 5;
              isUpper = (args ! 6 = ''1''); signature = args ! 7
          in andThen (hget scoreboard (FStr ''_upperSubtotal'')) (\<lambda>sub.
             andThen (hget scoreboard (FStr ''_upperBonus'')) (\<lambda>bonus.
             andThen (hget scoreboard (FStr ''_total'')) (\<lambda>tot.
             let (subtotal, nextBonus, newTotal) = next_totals isUpper (number_of_string scoreText)
                   (stored_number sub) (stored_number bonus) (stored_number tot) in
             andThen (hset scoreboard (HFlat [FStr category, FStr scoreText,
                FStr ''_upperSubtotal'', FStr (number_text subtotal),
                FStr ''_upperBonus'', FStr (string_of_int nextBonus),
                FStr ''_total'', FStr (number_text newTotal)])) (\<lambda>_.
             andThen (hset1 submissions roundNumber signature) (\<lambda>_.
             andThen (hset1 scores playerId (number_text newTotal)) (\<lambda>_.
             andThen (pttl game) (\<lambda>ttl.
             if ttl > 0 then andThen (pexpire scoreboard (FNum ttl)) (\<lambda>_.
               andThen (pexpire submissions (FNum ttl)) (\<lambda>_. ret 0))
             else ret 0))))))))))\<rparr>"

definition CONFIRM_SCORE_CODE :: "(string \<times> int) list" where
  "CONFIRM_SCORE_CODE = [(''SUCCESS'', 0), (''GAME_MISSING'', 1), (''GAME_ROOM_CHANGED'', 2),
     (''PLAYER_MISSING'', 3), (''ROUND_CONFLICT'', 4), (''IDEMPOTENT_RETRY'', 5), (''CATEGORY_CONFLICT'', 6),
     (''ROOM_MISSING'', 7), (''ROOM_GAME_CHANGED'', 8), (''GAME_NOT_PLAYING'', 9)]"

section \<open>Ending a game\<close>

definition starts_with_underscore :: "string \<Rightarrow> bool" where
  "starts_with_underscore f = (f \<noteq> [] \<and> hd f = CHR ''_'')"

text \<open>The loop over the players: stops at the first scoreboard with too few recorded categories.\<close>

fun all_complete :: "string \<Rightarrow> int option \<Rightarrow> string list \<Rightarrow> bool redis" where
  "all_complete gameId required [] = ret True"
| "all_complete gameId required (p # ps) =
     andThen (hkeys (''game:'' @ gameId @ '':scoreboard:'' @ p)) (\<lambda>names.
       let recorded = length (filter (\<lambda>f. \<not> starts_with_underscore f) names) in
       if less_than (int recorded) required then ret False else all_complete gameId required ps)"

definition FINISH_IF_COMPLETE :: "int atomic_script" where
  "FINISH_IF_COMPLETE = \<lparr>script_name = ''yorrGameFinishIfComplete'', script_keys = 2, script_args = 3,
     script_creates = [],
     script_run = (\<lambda>keys args.
       let room = keys ! 0; players = keys ! 1; gameId = args ! 0; force = args ! 1;
           requiredCategories = args ! 2
       in andThen (exists_keys [room]) (\<lambda>n. if n = 0 then ret 0 else
          andThen (hget room (FStr ''phase'')) (\<lambda>ph. if ph \<noteq> Some ''PLAYING'' then ret 0 else
          andThen (hget room (FStr ''gameId'')) (\<lambda>g. if g \<noteq> Some gameId then ret 0 else
          andThen (if force \<noteq> ''1''
             then andThen (hkeys players) (\<lambda>playerIds. if playerIds = [] then ret False
                  else all_complete gameId (number_of_string requiredCategories) playerIds)
             else ret True) (\<lambda>complete. if \<not> complete then ret 0 else
          andThen (hset1 room ''phase'' ''FINISHED'') (\<lambda>_. ret 1))))))\<rparr>"

definition FINISH_IF_COMPLETE_CODE :: "(string \<times> int) list" where
  "FINISH_IF_COMPLETE_CODE = [(''NOT_FINISHED'', 0), (''FINISHED_BY_THIS_CALL'', 1)]"

section \<open>What they do on a clean store\<close>

lemma all_complete_run:
  "clean s \<Longrightarrow> (\<And>p. p \<in> set ps \<Longrightarrow> hash_typed s (gameScoreboardKey g p)) \<Longrightarrow>
    all_complete g req ps s = (Inr (\<forall>p \<in> set ps. \<not> less_than (int (length (filter
       (\<lambda>f. \<not> starts_with_underscore f) (map fst (hash_fields s (gameScoreboardKey g p)))))) req), s)"
  by (induction ps)
    (auto simp: run_simps gameScoreboardKey_def gameKey_def Let_def simp del: run_del filter_map)

lemma FINISH_IF_COMPLETE_run:
  fixes req :: int
  assumes s: "clean s" and st: "room_state c s x R P S B"
    and boards: "\<And>p. p \<in> keys_of P \<Longrightarrow> hash_typed s (gameScoreboardKey g p)"
  defines "complete \<equiv> P \<noteq> [] \<and> (\<forall>p \<in> keys_of P. req \<le> int (length (filter
       (\<lambda>f. \<not> starts_with_underscore f) (map fst (hash_fields s (gameScoreboardKey g p))))))"
  shows "case script_run FINISH_IF_COMPLETE [roomKey c, playersKey c] [g, force, string_of_int req] s of (r, s') \<Rightarrow>
    if map_of R ''phase'' \<noteq> Some ''PLAYING'' \<or> map_of R ''gameId'' \<noteq> Some g \<or> (force \<noteq> ''1'' \<and> \<not> complete)
    then r = Inr 0 \<and> s' = s
    else r = Inr 1 \<and> clean s' \<and> now s' = now s
      \<and> room_state c s' x (AList.update ''phase'' ''FINISHED'' R) P S B"
proof -
  note st' = room_stateD[OF st]
  have ac: "all_complete g (Some req) (map fst P) s = (Inr (\<forall>p \<in> keys_of P. req \<le> int (length (filter
       (\<lambda>f. \<not> starts_with_underscore f) (map fst (hash_fields s (gameScoreboardKey g p)))))), s)"
    using all_complete_run[OF s, of "map fst P" g "Some req"] boards by (simp add: not_less del: filter_map)
  note run = Let_def FINISH_IF_COMPLETE_def run_simps s st'(1-13,17) ac
  consider (phase) "map_of R ''phase'' \<noteq> Some ''PLAYING''"
    | (game) "map_of R ''phase'' = Some ''PLAYING''" "map_of R ''gameId'' \<noteq> Some g"
    | (incomplete) "map_of R ''phase'' = Some ''PLAYING''" "map_of R ''gameId'' = Some g" "force \<noteq> ''1''" "\<not> complete"
    | (forced) "map_of R ''phase'' = Some ''PLAYING''" "map_of R ''gameId'' = Some g" "force = ''1''"
    | (finished) "map_of R ''phase'' = Some ''PLAYING''" "map_of R ''gameId'' = Some g" "force \<noteq> ''1''" "complete"
    by blast
  then show ?thesis
  proof cases
    case incomplete
    then show ?thesis unfolding complete_def by (cases "P = []"; simp add: run del: run_del filter_map)
  next
    case forced
    then show ?thesis using st'(14-16) by (simp add: run room_state_def family_typed_def del: run_del)
  next
    case finished
    then show ?thesis using st'(14-16) unfolding complete_def
      by (simp add: run room_state_def family_typed_def del: run_del filter_map)
  qed (simp_all add: run del: run_del)
qed

lemma game_keys_distinct [simp]:
  "gameScoreboardKey g p \<noteq> gameKey g" "gameKey g \<noteq> gameScoreboardKey g p"
  "gameScoreSubmissionsKey g p \<noteq> gameKey g" "gameKey g \<noteq> gameScoreSubmissionsKey g p"
  "gameScoreboardKey g p \<noteq> gameScoreSubmissionsKey g p" "gameScoreSubmissionsKey g p \<noteq> gameScoreboardKey g p"
  "gameScoreboardKey g p \<noteq> roomKey c" "gameScoreboardKey g p \<noteq> playersKey c" "gameScoreboardKey g p \<noteq> scoresKey c"
  "gameScoreboardKey g p \<noteq> botsKey c" "gameScoreSubmissionsKey g p \<noteq> roomKey c" "gameScoreSubmissionsKey g p \<noteq> playersKey c"
  "gameScoreSubmissionsKey g p \<noteq> scoresKey c" "gameScoreSubmissionsKey g p \<noteq> botsKey c"
  "roomKey c \<noteq> gameScoreboardKey g p" "playersKey c \<noteq> gameScoreboardKey g p" "scoresKey c \<noteq> gameScoreboardKey g p"
  "botsKey c \<noteq> gameScoreboardKey g p" "roomKey c \<noteq> gameScoreSubmissionsKey g p" "playersKey c \<noteq> gameScoreSubmissionsKey g p"
  "scoresKey c \<noteq> gameScoreSubmissionsKey g p" "botsKey c \<noteq> gameScoreSubmissionsKey g p"
  by (simp_all add: gameScoreboardKey_def gameScoreSubmissionsKey_def gameKey_def)

text \<open>The keys and arguments of \<open>CONFIRM_SCORE\<close> as \<open>scoreBoardStore.ts\<close> passes them.\<close>

definition confirm_keys :: "string \<Rightarrow> string \<Rightarrow> string \<Rightarrow> string list" where
  "confirm_keys c g p = [gameKey g, roomKey c, playersKey c, gameScoreboardKey g p,
     gameScoreSubmissionsKey g p, scoresKey c]"

definition scoreboard_written :: "string \<Rightarrow> string \<Rightarrow> bool \<Rightarrow> (string \<times> string) list \<Rightarrow> (string \<times> string) list" where
  "scoreboard_written cat sc upper K = (case next_totals upper (number_of_string sc)
       (stored_number (map_of K ''_upperSubtotal'')) (stored_number (map_of K ''_upperBonus''))
       (stored_number (map_of K ''_total'')) of (sub, bonus, tot) \<Rightarrow>
     set_fields [(cat, sc), (''_upperSubtotal'', number_text sub), (''_upperBonus'', string_of_int bonus),
       (''_total'', number_text tot)] K)"

definition total_written :: "string \<Rightarrow> bool \<Rightarrow> (string \<times> string) list \<Rightarrow> string" where
  "total_written sc upper K = number_text (snd (snd (next_totals upper (number_of_string sc)
       (stored_number (map_of K ''_upperSubtotal'')) (stored_number (map_of K ''_upperBonus''))
       (stored_number (map_of K ''_total'')))))"

lemma four_pairs [simp]: "toPairs (HFlat [FStr f1, FStr v1, FStr f2, FStr v2, FStr f3, FStr v3, FStr f4, FStr v4])
    = Inr [(f1, v1), (f2, v2), (f3, v3), (f4, v4)]"
  by simp

lemma CONFIRM_SCORE_run:
  fixes c g p rd cat sc up sig :: string
  assumes s: "clean s" and st: "room_state c s x R P S B"
    and typed: "hash_typed s (gameKey g)" "hash_typed s (gameScoreboardKey g p)" "hash_typed s (gameScoreSubmissionsKey g p)"
    and decl: "declares s (gameScoreboardKey g p)" "declares s (gameScoreSubmissionsKey g p)"
    and life: "key_expiry s (gameKey g) = Some xg" "is_safe_integer (xg - now s)"
    and scores: "keys_of S = keys_of P"
  defines "K \<equiv> hash_fields s (gameScoreboardKey g p)" and "U \<equiv> hash_fields s (gameScoreSubmissionsKey g p)"
    and "mapped \<equiv> map_of (hash_fields s (gameKey g)) ''roomCode''"
  shows "case script_run CONFIRM_SCORE (confirm_keys c g p) [c, g, p, rd, cat, sc, up, sig] s of (r, s') \<Rightarrow>
    if mapped = None then r = Inr 1 \<and> s' = s
    else if mapped \<noteq> Some c then r = Inr 2 \<and> s' = s
    else if map_of R ''gameId'' \<noteq> Some g then r = Inr 8 \<and> s' = s
    else if map_of R ''phase'' \<noteq> Some ''PLAYING'' then r = Inr 9 \<and> s' = s
    else if \<not> has_key P p then r = Inr 3 \<and> s' = s
    else if map_of U rd \<noteq> None then r = Inr (if map_of U rd = Some sig then 5 else 4) \<and> s' = s
    else if has_key K cat then r = Inr 6 \<and> s' = s
    else r = Inr 0 \<and> clean s' \<and> now s' = now s
      \<and> room_state c s' x R P (AList.update p (total_written sc (up = ''1'') K) S) B
      \<and> hash_fields s' (gameScoreboardKey g p) = scoreboard_written cat sc (up = ''1'') K
      \<and> hash_fields s' (gameScoreSubmissionsKey g p) = AList.update rd sig U
      \<and> hash_fields s' (gameKey g) = hash_fields s (gameKey g) \<and> hash_typed s' (gameKey g)
      \<and> hash_typed s' (gameScoreboardKey g p) \<and> hash_typed s' (gameScoreSubmissionsKey g p)
      \<and> present s' (gameKey g) \<and> key_expiry s' (gameKey g) = Some xg
      \<and> present s' (gameScoreboardKey g p) \<and> present s' (gameScoreSubmissionsKey g p)"
proof -
  note st' = room_stateD[OF st]
  have alive: "now s < xg" using key_expiry_alive[OF life(1)] .
  have pg: "present s (gameKey g)" using life(1) by (cases "visible s (gameKey g)") (auto simp: present_def key_expiry_def)
  note run = Let_def CONFIRM_SCORE_def confirmGuard_def confirm_keys_def run_simps s st'(1-13,17) typed decl life alive pg
    K_def[symmetric] U_def[symmetric] mapped_def[symmetric]
  consider (unmapped) "mapped = None"
    | (moved) "mapped \<noteq> None" "mapped \<noteq> Some c"
    | (game) "mapped = Some c" "map_of R ''gameId'' \<noteq> Some g"
    | (phase) "mapped = Some c" "map_of R ''gameId'' = Some g" "map_of R ''phase'' \<noteq> Some ''PLAYING''"
    | (away) "mapped = Some c" "map_of R ''gameId'' = Some g" "map_of R ''phase'' = Some ''PLAYING''" "\<not> has_key P p"
    | (again) "mapped = Some c" "map_of R ''gameId'' = Some g" "map_of R ''phase'' = Some ''PLAYING''" "has_key P p"
        "map_of U rd \<noteq> None"
    | (used) "mapped = Some c" "map_of R ''gameId'' = Some g" "map_of R ''phase'' = Some ''PLAYING''" "has_key P p"
        "map_of U rd = None" "has_key K cat"
    | (ok) "mapped = Some c" "map_of R ''gameId'' = Some g" "map_of R ''phase'' = Some ''PLAYING''" "has_key P p"
        "map_of U rd = None" "\<not> has_key K cat"
    by blast
  then show ?thesis
  proof cases
    case again
    then show ?thesis by (cases "map_of U rd = Some sig"; simp add: run del: run_del; auto)
  next
    case ok
    obtain sub bonus tot where nt: "next_totals (up = ''1'') (number_of_string sc)
       (stored_number (map_of K ''_upperSubtotal'')) (stored_number (map_of K ''_upperBonus''))
       (stored_number (map_of K ''_total'')) = (sub, bonus, tot)" by (metis prod_cases3)
    have "S \<noteq> []" using ok(4) scores by (auto simp: has_key_iff)
    then show ?thesis using ok st'(14-16)
      by (simp add: run nt total_written_def scoreboard_written_def room_state_def family_typed_def
          del: run_del)
  qed (simp_all add: run del: run_del)
qed

end
