(* ===== verification/RoomTheorems.thy ===== *)
theory RoomTheorems
  imports GameScripts
begin

text \<open>
  Every script of the room and of the game is blind to expired entries and keeps the invariant of the
  room, in any order of calls and at any time; the laws of the individual scripts follow.
\<close>

section \<open>The scripts cannot observe expired entries\<close>

lemma respects_loop [view_intros]: "(\<And>p. respects_view (f p)) \<Longrightarrow> respects_view (run_all (map f ids))"
proof (induction ids)
  case Nil show ?case unfolding list.map run_all.simps by (rule respects_ret)
next
  case (Cons p ids) then show ?case unfolding list.map run_all.simps by (intro respects_andThen) auto
qed

lemma respects_if [view_intros]: "respects_view f \<Longrightarrow> respects_view g \<Longrightarrow> respects_view (if b then f else g)"
  by simp

lemma respects_option [view_intros]:
  "respects_view f \<Longrightarrow> (\<And>y. respects_view (g y)) \<Longrightarrow> respects_view (case x of None \<Rightarrow> f | Some y \<Rightarrow> g y)"
  by (simp split: option.split)

lemma respects_pexpire_if_exists [view_intros]: "respects_view (pexpire_if_exists k ttl)"
  unfolding pexpire_if_exists_def by (intro respects_andThen respects_exists respects_if respects_pexpire respects_ret)

lemma respects_find_human [view_intros]: "respects_view (find_human bots cs)"
proof (induction cs)
  case Nil show ?case unfolding find_human.simps by (rule respects_ret)
next
  case (Cons c cs) show ?case unfolding find_human.simps by (intro view_intros Cons.IH)
qed

lemma respects_all_complete [view_intros]: "respects_view (all_complete g req ps)"
proof (induction ps)
  case Nil show ?case unfolding all_complete.simps by (rule respects_ret)
next
  case (Cons p ps) show ?case unfolding all_complete.simps Let_def by (intro view_intros Cons.IH)
qed

lemma respects_scripts [view_intros]:
  "respects_view (script_run CREATE ks as)" "respects_view (script_run JOIN ks as)"
  "respects_view (script_run LEAVE ks as)" "respects_view (script_run CLOSE ks as)"
  "respects_view (script_run BOT_ADD ks as)" "respects_view (script_run BOT_REMOVE ks as)"
  "respects_view (script_run START ks as)" "respects_view (script_run ROLLBACK_START ks as)"
  "respects_view (script_run CANCEL_ACTIVE_GAME ks as)" "respects_view (script_run RETURN_TO_LOBBY ks as)"
  "respects_view (script_run TOUCH ks as)" "respects_view (script_run FINISH_IF_COMPLETE ks as)"
  unfolding CREATE_def JOIN_def LEAVE_def CLOSE_def BOT_ADD_def BOT_REMOVE_def START_def ROLLBACK_START_def
    CANCEL_ACTIVE_GAME_def RETURN_TO_LOBBY_def TOUCH_def FINISH_IF_COMPLETE_def Let_def atomic_script.simps
  by (intro view_intros)+

lemma respects_confirm [view_intros]: "respects_view (script_run CONFIRM_SCORE ks as)"
  unfolding CONFIRM_SCORE_def confirmGuard_def Let_def atomic_script.simps case_prod_beta
  by (intro view_intros)

section \<open>The data of a room under each operation\<close>

text \<open>The same facts over the sets of identifiers, with the capacity, phase and host named.\<close>

definition room_facts :: "(string \<times> string) list \<Rightarrow> nat \<Rightarrow> string set \<Rightarrow> string set \<Rightarrow> string set
    \<Rightarrow> int \<Rightarrow> string \<Rightarrow> string \<Rightarrow> bool" where
  "room_facts R n PS SS BS cap ph host = (
     map_of R ''members'' = Some (string_of_int (int n))
   \<and> map_of R ''capacity'' = Some (string_of_int cap) \<and> int n \<le> cap
   \<and> SS = PS \<and> BS \<subseteq> PS \<and> '''' \<notin> BS
   \<and> map_of R ''phase'' = Some ph \<and> (ph = ''LOBBY'' \<or> ph = ''PLAYING'' \<or> ph = ''FINISHED'')
   \<and> (ph = ''LOBBY'' \<longleftrightarrow> map_of R ''gameId'' = None)
   \<and> map_of R ''hostId'' = Some host \<and> host \<notin> BS \<and> (PS \<subseteq> BS \<or> host \<in> PS))"

lemma room_data_ok_facts:
  "room_data_ok R P S B \<longleftrightarrow>
    (\<exists>cap ph host. room_facts R (length P) (keys_of P) (keys_of S) (keys_of B) cap ph host)"
proof -
  have h: "((\<exists>p \<in> PS. p \<notin> BS) \<longrightarrow> Q) \<longleftrightarrow> (PS \<subseteq> BS \<or> Q)" for PS BS :: "string set" and Q by blast
  show ?thesis unfolding room_data_ok_def room_facts_def h insert_iff empty_iff simp_thms
    by (intro iffI; elim conjE exE; intro conjI exI; assumption)
qed

lemma room_factsI: "room_facts R (length P) PS SS BS cap ph host \<Longrightarrow> keys_of P = PS \<Longrightarrow> keys_of S = SS \<Longrightarrow>
    keys_of B = BS \<Longrightarrow> room_data_ok R P S B"
  unfolding room_data_ok_facts by blast

lemma facts_join:
  assumes "room_facts R n PS PS BS cap ph h" and "u \<notin> PS" and "\<not> cap \<le> int n"
  defines "R1 \<equiv> AList.update ''members'' (string_of_int (int n + 1)) R"
  shows "h = '''' \<or> h \<notin> insert u PS \<Longrightarrow>
      room_facts (AList.update ''hostId'' u R1) (Suc n) (insert u PS) (insert u PS) BS cap ph u"
    and "h \<in> insert u PS \<Longrightarrow> h \<noteq> '''' \<Longrightarrow> room_facts R1 (Suc n) (insert u PS) (insert u PS) BS cap ph h"
  using assms(1-3) unfolding room_facts_def R1_def by (auto simp: add.commute)

lemma data_join:
  assumes ok: "room_data_ok R P S B" and "wf_map P" and new: "\<not> has_key P u"
    and cap: "map_of R ''capacity'' = Some (string_of_int cap)" "\<not> cap \<le> int (length P)"
    and host: "map_of R ''hostId'' = Some h"
  defines "R1 \<equiv> AList.update ''members'' (string_of_int (int (length P) + 1)) R"
  shows "room_data_ok (if h = '''' \<or> \<not> has_key (AList.update u nick P) h then AList.update ''hostId'' u R1 else R1)
    (AList.update u nick P) (AList.update u ''0'' S) B"
proof -
  obtain cap' ph h' where f: "room_facts R (length P) (keys_of P) (keys_of S) (keys_of B) cap' ph h'"
    using ok room_data_ok_facts by blast
  then have eq: "cap' = cap" "h' = h" "keys_of S = keys_of P"
    using cap(1) host unfolding room_facts_def by auto
  have u: "u \<notin> keys_of P" using new by (simp add: has_key_iff)
  have len: "length (AList.update u nick P) = Suc (length P)" using assms(2) u by (simp add: length_update)
  have f': "room_facts R (length P) (keys_of P) (keys_of P) (keys_of B) cap ph h" using f eq by simp
  note j = facts_join[OF f' u cap(2), folded R1_def]
  show ?thesis
  proof (cases "h = '''' \<or> h \<notin> insert u (keys_of P)")
    case True
    then have "h = '''' \<or> \<not> has_key (AList.update u nick P) h"
      unfolding has_key_iff keys_of_update by blast
    then show ?thesis using j(1)[OF True]
      by (simp only: if_True) (rule room_factsI, simp_all only: len keys_of_update eq)
  next
    case False
    then have "\<not> (h = '''' \<or> \<not> has_key (AList.update u nick P) h)"
      unfolding has_key_iff keys_of_update by blast
    moreover have "room_facts R1 (Suc (length P)) (insert u (keys_of P)) (insert u (keys_of P)) (keys_of B) cap ph h"
      using j(2) False by blast
    ultimately show ?thesis
      by (simp only: if_False) (rule room_factsI, simp_all only: len keys_of_update eq)
  qed
qed

lemma find_human_heir:
  assumes "find (\<lambda>p. \<not> has_key B p) (sort (map fst P)) = h"
  shows "(h = None \<longleftrightarrow> keys_of P \<subseteq> keys_of B)
    \<and> (\<forall>p. h = Some p \<longrightarrow> p \<in> keys_of P \<and> p \<notin> keys_of B)"
proof (cases h)
  case None
  then show ?thesis using assms by (auto simp: find_None_iff has_key_iff)
next
  case (Some p)
  then obtain i where i: "i < length (sort (map fst P))" "p = sort (map fst P) ! i" "\<not> has_key B p"
    using assms by (auto simp: find_Some_iff)
  then have "p \<in> set (sort (map fst P))" using nth_mem by blast
  then have "p \<in> set (sort (map fst P)) \<and> \<not> has_key B p" using i by simp
  then have "p \<in> keys_of P" "p \<notin> keys_of B" by (auto simp: has_key_iff)
  then show ?thesis using Some by blast
qed

lemma facts_leave:
  assumes "room_facts R n PS PS BS cap ph h" and "u \<in> PS" and "int m = int n - 1"
  defines "R1 \<equiv> AList.update ''members'' (string_of_int (int n - 1)) R"
  shows "h \<noteq> u \<Longrightarrow> room_facts R1 m (PS - {u}) (PS - {u}) (BS - {u}) cap ph h"
    and "h = u \<Longrightarrow> p \<in> PS - {u} \<Longrightarrow> p \<notin> BS - {u} \<Longrightarrow>
      room_facts (AList.update ''hostId'' p R1) m (PS - {u}) (PS - {u}) (BS - {u}) cap ph p"
    and "h = u \<Longrightarrow> PS - {u} \<subseteq> BS - {u} \<Longrightarrow>
      room_facts (AList.update ''hostId'' '''' R1) m (PS - {u}) (PS - {u}) (BS - {u}) cap ph ''''"
  using assms(1-3) unfolding room_facts_def R1_def by auto

lemma data_leave:
  assumes ok: "room_data_ok R P S B" and wf: "wf_map P" and "has_key P u"
    and host: "map_of R ''hostId'' = Some h"
  defines "P' \<equiv> AList.delete u P" and "B' \<equiv> AList.delete u B"
    and "R1 \<equiv> AList.update ''members'' (string_of_int (int (length P) - 1)) R"
  shows "room_data_ok (if h = u then AList.update ''hostId''
            (case find (\<lambda>p. \<not> has_key B' p) (sort (map fst P')) of None \<Rightarrow> '''' | Some p \<Rightarrow> p) R1 else R1)
    P' (AList.delete u S) B'"
proof -
  obtain cap ph h' where f: "room_facts R (length P) (keys_of P) (keys_of S) (keys_of B) cap ph h'"
    using ok room_data_ok_facts by blast
  then have eq: "h' = h" "keys_of S = keys_of P" using host unfolding room_facts_def by auto
  have u: "u \<in> keys_of P" using assms(3) by (simp add: has_key_iff)
  then have "P \<noteq> []" by auto
  then have len: "int (length P') = int (length P) - 1"
    using length_delete[OF wf, of u] u by (cases P) (auto simp: P'_def)
  have f': "room_facts R (length P) (keys_of P) (keys_of P) (keys_of B) cap ph h" using f eq by simp
  note l = facts_leave[OF f' u len, folded R1_def]
  have k: "keys_of P' = keys_of P - {u}" "keys_of (AList.delete u S) = keys_of P - {u}"
    "keys_of B' = keys_of B - {u}" unfolding P'_def B'_def using eq by simp_all
  let ?heir = "find (\<lambda>p. \<not> has_key B' p) (sort (map fst P'))"
  note heir = find_human_heir[of B' P' ?heir, OF refl, unfolded k]
  show ?thesis
  proof (cases "h = u")
    case True
    show ?thesis
    proof (cases ?heir)
      case None
      then have "keys_of P - {u} \<subseteq> keys_of B - {u}" using heir by blast
      from room_factsI[OF l(3)[OF True this] k] show ?thesis using True None by simp
    next
      case (Some p)
      then have "p \<in> keys_of P - {u}" "p \<notin> keys_of B - {u}" using heir by blast+
      from room_factsI[OF l(2)[OF True this] k] show ?thesis using True Some by simp
    qed
  next
    case False
    from room_factsI[OF l(1)[OF False] k] show ?thesis using False by simp
  qed
qed

lemma facts_bots:
  shows "room_facts R n PS PS BS cap ph h \<Longrightarrow> b \<notin> PS \<Longrightarrow> b \<noteq> '''' \<Longrightarrow> h \<in> PS \<Longrightarrow> \<not> cap \<le> int n \<Longrightarrow>
      room_facts (AList.update ''members'' (string_of_int (int n + 1)) R) (Suc n)
        (insert b PS) (insert b PS) (insert b BS) cap ph h"
    and "room_facts R n PS PS BS cap ph h \<Longrightarrow> b \<in> BS \<Longrightarrow> int m = int n - 1 \<Longrightarrow>
      room_facts (AList.update ''members'' (string_of_int (int n - 1)) R) m
        (PS - {b}) (PS - {b}) (BS - {b}) cap ph h"
  unfolding room_facts_def by (auto simp: add.commute)

lemma data_bot_add:
  assumes ok: "room_data_ok R P S B" and wf: "wf_map P" and new: "\<not> has_key P b" and "b \<noteq> ''''"
    and cap: "map_of R ''capacity'' = Some (string_of_int cap)" "\<not> cap \<le> int (length P)"
    and host: "map_of R ''hostId'' = Some h" and "has_key P h"
  shows "room_data_ok (AList.update ''members'' (string_of_int (int (length P) + 1)) R)
    (AList.update b nick P) (AList.update b ''0'' S) (AList.update b marker B)"
proof -
  obtain cap' ph h' where f: "room_facts R (length P) (keys_of P) (keys_of S) (keys_of B) cap' ph h'"
    using ok room_data_ok_facts by blast
  then have eq: "cap' = cap" "h' = h" "keys_of S = keys_of P"
    using cap(1) host unfolding room_facts_def by auto
  have b: "b \<notin> keys_of P" "h \<in> keys_of P" using new assms(8) by (simp_all add: has_key_iff)
  have len: "length (AList.update b nick P) = Suc (length P)" using wf b by (simp add: length_update)
  have f': "room_facts R (length P) (keys_of P) (keys_of P) (keys_of B) cap ph h" using f eq by simp
  show ?thesis
    using facts_bots(1)[OF f' b(1) assms(4) b(2) cap(2)]
    by (intro room_factsI) (simp_all only: len keys_of_update eq)
qed

lemma data_bot_remove:
  assumes ok: "room_data_ok R P S B" and wf: "wf_map P" and b: "has_key B b"
  shows "room_data_ok (AList.update ''members'' (string_of_int (int (length P) - 1)) R)
    (AList.delete b P) (AList.delete b S) (AList.delete b B)"
proof -
  obtain cap ph h where f: "room_facts R (length P) (keys_of P) (keys_of S) (keys_of B) cap ph h"
    using ok room_data_ok_facts by blast
  then have eq: "keys_of S = keys_of P" "keys_of B \<subseteq> keys_of P" unfolding room_facts_def by auto
  have bB: "b \<in> keys_of B" "b \<in> keys_of P" using b eq by (auto simp: has_key_iff)
  then have "P \<noteq> []" by auto
  then have len: "int (length (AList.delete b P)) = int (length P) - 1"
    using length_delete[OF wf, of b] bB by (cases P) auto
  have f': "room_facts R (length P) (keys_of P) (keys_of P) (keys_of B) cap ph h" using f eq by simp
  show ?thesis
    using facts_bots(2)[OF f' bB(1) len] by (intro room_factsI) (simp_all only: keys_of_delete eq)
qed

text \<open>Changes of phase: to \<open>LOBBY\<close> the game is dropped, to the other two it is kept.\<close>

lemma data_to_lobby:
  assumes "room_data_ok R P S B" and "keys_of S' = keys_of S"
  shows "room_data_ok (AList.delete ''gameId'' (AList.update ''phase'' ''LOBBY'' R)) P S' B"
proof -
  obtain cap ph h where "room_facts R (length P) (keys_of P) (keys_of S) (keys_of B) cap ph h"
    using assms(1) room_data_ok_facts by blast
  then have "room_facts (AList.delete ''gameId'' (AList.update ''phase'' ''LOBBY'' R)) (length P) (keys_of P)
      (keys_of S') (keys_of B) cap ''LOBBY'' h"
    unfolding room_facts_def assms(2) by simp
  then show ?thesis by (rule room_factsI) (rule refl)+
qed

lemma data_start:
  assumes "room_data_ok R P S B"
  shows "room_data_ok (AList.update ''gameId'' g (AList.update ''phase'' ''PLAYING'' R)) P S B"
proof -
  obtain cap ph h where "room_facts R (length P) (keys_of P) (keys_of S) (keys_of B) cap ph h"
    using assms room_data_ok_facts by blast
  then have "room_facts (AList.update ''gameId'' g (AList.update ''phase'' ''PLAYING'' R)) (length P) (keys_of P)
      (keys_of S) (keys_of B) cap ''PLAYING'' h"
    unfolding room_facts_def by auto
  then show ?thesis using room_data_ok_facts by blast
qed

lemma data_finish:
  assumes "room_data_ok R P S B" and "map_of R ''gameId'' = Some g"
  shows "room_data_ok (AList.update ''phase'' ''FINISHED'' R) P S B"
proof -
  obtain cap ph h where "room_facts R (length P) (keys_of P) (keys_of S) (keys_of B) cap ph h"
    using assms room_data_ok_facts by blast
  then have "room_facts (AList.update ''phase'' ''FINISHED'' R) (length P) (keys_of P)
      (keys_of S) (keys_of B) cap ''FINISHED'' h"
    using assms(2) unfolding room_facts_def by auto
  then show ?thesis using room_data_ok_facts by blast
qed

lemma data_score:
  assumes "room_data_ok R P S B" and "has_key P p"
  shows "room_data_ok R P (AList.update p v S) B"
proof -
  obtain cap ph h where f: "room_facts R (length P) (keys_of P) (keys_of S) (keys_of B) cap ph h"
    using assms room_data_ok_facts by blast
  then have "keys_of S = keys_of P" unfolding room_facts_def by auto
  then have "keys_of (AList.update p v S) = keys_of S" using assms(2) by (auto simp: has_key_iff)
  then show ?thesis using f room_data_ok_facts by metis
qed

lemma data_create:
  assumes "1 \<le> cap"
  shows "room_data_ok [(''capacity'', string_of_int cap), (''members'', ''0''), (''phase'', ''LOBBY''),
     (''hostId'', host), (''gameCode'', code), (''mode'', mode)] [] [] []"
proof -
  have "string_of_int 0 = ''0''"
    by (simp add: string_of_int_def digits_of_nat.simps decimal_digits_def)
  then show ?thesis using assms by (intro room_factsI[where cap = cap and ph = "''LOBBY''" and host = host])
      (auto simp: room_facts_def)
qed

section \<open>Calls on a room\<close>

text \<open>A script run through \<open>runAdmitted\<close> behaves as on a store without expired entries.\<close>

lemma script_on_clean:
  fixes n :: string and D :: "string list"
  assumes wf: "wf_store s" and resp: "respects_view run"
  defines "out \<equiv> runAdmitted n D run s"
  shows "(fst out = Inl OOM_MESSAGE \<and> visible (snd out) = visible s \<and> now (snd out) = now s \<and> wf_store (snd out)
        \<and> scriptCreates (snd out) = scriptCreates s \<and> \<not> (\<forall>k \<in> set D. present s k))
      \<or> (\<exists>t. clean t \<and> wf_store t \<and> visible t = visible s \<and> now t = now s \<and> scriptCreates t = Some (n, D)
          \<and> fst out = fst (run t) \<and> visible (snd out) = visible (snd (run t)) \<and> now (snd out) = now (snd (run t))
          \<and> wf_store (snd out) \<and> scriptCreates (snd out) = None)"
proof -
  note adm = admission_frame[OF wf, of D]
  let ?s1 = "(snd (admission D s))\<lparr>scriptCreates := Some (n, D)\<rparr>"
  have vis: "visible (u\<lparr>scriptCreates := x\<rparr>) = visible u" for u x
    by (rule ext) (simp add: visible_def split: option.split)
  show ?thesis
  proof (cases "fst (admission D s)")
    case False
    then have "\<not> (\<forall>k \<in> set D. present s k)"
      by (auto simp: admission_def Let_def present_def filter_empty_conv split: if_splits)
    then show ?thesis using adm False by (simp add: out_def runAdmitted_admission[OF wf])
  next
    case True
    have w1: "wf_store ?s1" using adm by simp
    have sv: "same_view ?s1 (purge ?s1)" using same_view_purge[OF w1] by simp
    note r = respectsD[OF resp sv]
    have out: "out = (fst (run ?s1), (snd (run ?s1))\<lparr>scriptCreates := None\<rparr>)"
      using True by (simp add: out_def runAdmitted_admission[OF wf] Let_def case_prod_beta)
    show ?thesis
    proof (intro disjI2 exI[of _ "purge ?s1"] conjI)
      show "clean (purge ?s1)" "wf_store (purge ?s1)" using w1 by (rule clean_purge, rule wf_purge)
      show "visible (purge ?s1) = visible s" using w1 adm vis by simp
      show "now (purge ?s1) = now s" "scriptCreates (purge ?s1) = Some (n, D)" using adm by simp_all
      show "fst out = fst (run (purge ?s1))" using r out by simp
      show "visible (snd out) = visible (snd (run (purge ?s1)))" "now (snd out) = now (snd (run (purge ?s1)))"
        "wf_store (snd out)" "scriptCreates (snd out) = None"
        using r out vis by (simp_all add: same_view_def)
    qed
  qed
qed

text \<open>The script calls of \<open>RoomService\<close>, \<open>BotParticipantService\<close>, \<open>ScoreBoardStore\<close> and
  \<open>CompletionStore\<close> on one room; times to live in seconds.\<close>

definition ROOM_TTL_SECONDS :: int where
  "ROOM_TTL_SECONDS = 40 * 60"

datatype room_call =
    CallCreate int string string string
  | CallJoin string string
  | CallLeave string
  | CallClose
  | CallBotAdd string string string
  | CallBotRemove string string
  | CallStart string int
  | CallRollback string
  | CallCancel
  | CallToLobby
  | CallTouch
  | CallFinish string bool int
  | CallConfirm string string int string int bool string

fun room_call_script :: "string \<Rightarrow> room_call \<Rightarrow> int atomic_script \<times> string list \<times> redis_field list" where
  "room_call_script c (CallCreate cap host code mode) =
     (CREATE, [roomKey c], [FNum cap, FStr host, FStr code, FNum ROOM_TTL_SECONDS, FStr mode])"
| "room_call_script c (CallJoin u nick) = (JOIN, roomKeyFamily c, [FStr u, FStr nick])"
| "room_call_script c (CallLeave u) = (LEAVE, roomKeyFamily c, [FStr u])"
| "room_call_script c CallClose = (CLOSE, roomKeyFamily c, [])"
| "room_call_script c (CallBotAdd q b nick) =
     (BOT_ADD, roomKeyFamily c, [FStr q, FStr b, FStr nick, FStr ''BOT''])"
| "room_call_script c (CallBotRemove q b) = (BOT_REMOVE, roomKeyFamily c, [FStr q, FStr b])"
| "room_call_script c (CallStart g minP) =
     (START, [roomKey c, playersKey c, gameKey g, botsKey c], [FStr g, FStr c, FNum minP])"
| "room_call_script c (CallRollback g) = (ROLLBACK_START, [roomKey c, gameKey g], [FStr g])"
| "room_call_script c CallCancel = (CANCEL_ACTIVE_GAME, [roomKey c], [])"
| "room_call_script c CallToLobby = (RETURN_TO_LOBBY, roomKeyFamily c, [])"
| "room_call_script c CallTouch = (TOUCH, roomKeyFamily c, [FNum ROOM_TTL_SECONDS])"
| "room_call_script c (CallFinish g force req) =
     (FINISH_IF_COMPLETE, [roomKey c, playersKey c], [FStr g, FStr (if force then ''1'' else ''0''), FNum req])"
| "room_call_script c (CallConfirm g p rd cat score upper sig) =
     (CONFIRM_SCORE, confirm_keys c g p, [FStr c, FStr g, FStr p, FNum rd, FStr cat, FNum score,
        FStr (if upper then ''1'' else ''0''), FStr sig])"

definition perform :: "string \<Rightarrow> room_call \<Rightarrow> (memory_redis, redis_error, int) cmd" where
  "perform c call = (case room_call_script c call of (script, keys, args) \<Rightarrow> runAtomic script keys args)"

lemma script_run_padded:
  "script_run CREATE (k1 # ks) (a1 # a2 # a3 # a4 # a5 # as) = script_run CREATE [k1] [a1, a2, a3, a4, a5]"
  "script_run JOIN (k1 # k2 # k3 # k4 # ks) (a1 # a2 # as) = script_run JOIN [k1, k2, k3, k4] [a1, a2]"
  "script_run LEAVE (k1 # k2 # k3 # k4 # ks) (a1 # as) = script_run LEAVE [k1, k2, k3, k4] [a1]"
  "script_run CLOSE (k1 # k2 # k3 # k4 # ks) as = script_run CLOSE [k1, k2, k3, k4] []"
  "script_run BOT_ADD (k1 # k2 # k3 # k4 # ks) (a1 # a2 # a3 # a4 # as) = script_run BOT_ADD [k1, k2, k3, k4] [a1, a2, a3, a4]"
  "script_run BOT_REMOVE (k1 # k2 # k3 # k4 # ks) (a1 # a2 # as) = script_run BOT_REMOVE [k1, k2, k3, k4] [a1, a2]"
  "script_run START (k1 # k2 # k3 # k4 # ks) (a1 # a2 # a3 # as) = script_run START [k1, k2, k3, k4] [a1, a2, a3]"
  "script_run ROLLBACK_START (k1 # k2 # ks) (a1 # as) = script_run ROLLBACK_START [k1, k2] [a1]"
  "script_run CANCEL_ACTIVE_GAME (k1 # ks) as = script_run CANCEL_ACTIVE_GAME [k1] []"
  "script_run RETURN_TO_LOBBY (k1 # k2 # k3 # k4 # ks) as = script_run RETURN_TO_LOBBY [k1, k2, k3, k4] []"
  "script_run TOUCH (k1 # k2 # k3 # k4 # ks) (a1 # as) = script_run TOUCH [k1, k2, k3, k4] [a1]"
  "script_run FINISH_IF_COMPLETE (k1 # k2 # ks) (a1 # a2 # a3 # as) = script_run FINISH_IF_COMPLETE [k1, k2] [a1, a2, a3]"
  "script_run CONFIRM_SCORE (k1 # k2 # k3 # k4 # k5 # k6 # ks) (a1 # a2 # a3 # a4 # a5 # a6 # a7 # a8 # as) = script_run CONFIRM_SCORE [k1, k2, k3, k4, k5, k6] [a1, a2, a3, a4, a5, a6, a7, a8]"
  by (simp_all add: nth_append Let_def CREATE_def JOIN_def LEAVE_def CLOSE_def BOT_ADD_def BOT_REMOVE_def START_def
      ROLLBACK_START_def CANCEL_ACTIVE_GAME_def RETURN_TO_LOBBY_def TOUCH_def FINISH_IF_COMPLETE_def
      CONFIRM_SCORE_def confirmGuard_def cong: if_cong option.case_cong del: exists_keys.simps del_keys.simps)

text \<open>Which keys a call may create, and what its script does on exactly its keys and arguments.\<close>

definition creatable_of :: "string \<Rightarrow> room_call \<Rightarrow> string list" where
  "creatable_of c call = (case room_call_script c call of (script, keys, args) \<Rightarrow>
     map (\<lambda>i. keys ! i) (script_creates script))"

definition body_of :: "string \<Rightarrow> room_call \<Rightarrow> int redis" where
  "body_of c call = (case room_call_script c call of (script, keys, args) \<Rightarrow>
     script_run script keys (map field_string args))"

lemma script_arity:
  assumes "room_call_script c call = (script, keys, args)"
  shows "length keys = script_keys script" "length args = script_args script"
    "script_run script (keys @ ks') (map field_string args @ as') = script_run script keys (map field_string args)"
proof -
  show "length keys = script_keys script" "length args = script_args script"
    using assms by (cases call; auto simp: CREATE_def JOIN_def LEAVE_def CLOSE_def BOT_ADD_def BOT_REMOVE_def START_def
      ROLLBACK_START_def CANCEL_ACTIVE_GAME_def RETURN_TO_LOBBY_def TOUCH_def FINISH_IF_COMPLETE_def
      CONFIRM_SCORE_def roomKeyFamily_def confirm_keys_def)+
  show "script_run script (keys @ ks') (map field_string args @ as') = script_run script keys (map field_string args)"
    by (insert assms, cases call; clarsimp simp: roomKeyFamily_def confirm_keys_def split del: if_split; rule script_run_padded)
qed

lemma perform_core:
  "perform c call m = (let (r, s) = runAdmitted (script_name (fst (room_call_script c call))) (creatable_of c call)
      (body_of c call) (core m) in (r, \<lparr>core = s, changes = changes m + 1\<rparr>))"
proof -
  obtain script keys args where e: "room_call_script c call = (script, keys, args)" by (metis prod_cases3)
  show ?thesis
    using script_arity[OF e]
    by (simp add: perform_def e runAtomic_def toSlots_def creatable_of_def body_of_def o_def Let_def
        case_prod_beta)
qed

text \<open>What the callers guarantee: positive capacity, identifiers of bots that are not empty, and keys of
  games that hold hashes and, once the game exists, expire like rooms do.\<close>

definition hash_key_alive :: "keyspace \<Rightarrow> string \<Rightarrow> bool" where
  "hash_key_alive s k = (hash_typed s k \<and> (present s k \<longrightarrow>
     (case key_expiry s k of None \<Rightarrow> False | Some x \<Rightarrow> x \<le> now s + ROOM_TTL_MILLIS)))"

fun call_ok :: "string \<Rightarrow> keyspace \<Rightarrow> room_call \<Rightarrow> bool" where
  "call_ok c s (CallCreate cap host code mode) = (1 \<le> cap)"
| "call_ok c s (CallBotAdd q b nick) = (b \<noteq> '''')"
| "call_ok c s (CallStart g minP) = hash_key_alive s (gameKey g)"
| "call_ok c s (CallFinish g force req) =
     (\<forall>p \<in> keys_of (hash_fields s (playersKey c)). hash_typed s (gameScoreboardKey g p))"
| "call_ok c s (CallConfirm g p rd cat score upper sig) = (hash_key_alive s (gameKey g)
     \<and> hash_typed s (gameScoreboardKey g p) \<and> hash_typed s (gameScoreSubmissionsKey g p))"
| "call_ok c s _ = True"

lemma family_empty_inv:
  "family_typed c s \<Longrightarrow> \<not> present s (roomKey c) \<Longrightarrow> \<not> present s (playersKey c) \<Longrightarrow> \<not> present s (scoresKey c) \<Longrightarrow>
    \<not> present s (botsKey c) \<Longrightarrow> room_inv c s"
  by (simp add: room_inv_def)

lemma room_inv_family: "room_inv c s \<Longrightarrow> family_typed c s"
  by (simp add: room_inv_def)

lemma safe_ttl [simp]: "is_safe_integer ROOM_TTL_SECONDS" "is_safe_integer (ROOM_TTL_SECONDS * 1000)"
  "0 < ROOM_TTL_SECONDS" "ROOM_TTL_SECONDS * 1000 = ROOM_TTL_MILLIS"
  by (simp_all add: is_safe_integer_def ROOM_TTL_SECONDS_def ROOM_TTL_MILLIS_def)

lemma safe_life: "now s < x \<Longrightarrow> x \<le> now s + ROOM_TTL_MILLIS \<Longrightarrow> is_safe_integer (x - now s)"
  by (simp add: is_safe_integer_def ROOM_TTL_MILLIS_def)

text \<open>On a room that does not exist.\<close>

lemma body_absent:
  assumes s: "clean s" and inv: "room_inv c s" and absent: "\<not> present s (roomKey c)"
    and ok: "call_ok c s call" and decl: "\<And>k. k \<in> set (creatable_of c call) \<Longrightarrow> declares s k"
  shows "room_inv c (snd (body_of c call s))"
proof -
  note ft = room_inv_family[OF inv]
  note typed = ft[unfolded family_typed_def]
  have none: "\<not> present s (playersKey c)" "\<not> present s (scoresKey c)" "\<not> present s (botsKey c)"
    using inv absent by (auto simp: room_inv_def)
  note run = Let_def roomKeyFamily_def run_simps s typed absent body_of_def
  show ?thesis
  proof (cases call)
    case (CallCreate cap host code mode)
    have "declares s (roomKey c)" using decl CallCreate by (simp add: creatable_of_def CREATE_def)
    from CREATE_run[OF s ft this none safe_ttl(3,1,2), of "string_of_int cap" host code mode]
    have "room_state c (snd (body_of c call s)) (now s + ROOM_TTL_MILLIS)
        [(''capacity'', string_of_int cap), (''members'', ''0''), (''phase'', ''LOBBY''),
         (''hostId'', host), (''gameCode'', code), (''mode'', mode)] [] [] []"
      and "now (snd (body_of c call s)) = now s"
      using absent by (auto simp: CallCreate body_of_def split: prod.splits)
    then show ?thesis using data_create[of cap host code mode] ok CallCreate
      by (intro room_state_inv) auto
  next
    case CallClose
    show ?thesis using CLOSE_run[OF s ft]
      by (auto simp: CallClose body_of_def split: prod.splits intro: family_empty_inv)
  next
    case (CallRollback g)
    show ?thesis using ROLLBACK_START_run[OF s ft, where g = g] absent inv
      by (auto simp: CallRollback body_of_def split: prod.splits)
  next
    case (CallConfirm g p rd cat score upper sig)
    have "hash_typed s (gameKey g)" using ok CallConfirm by (simp add: hash_key_alive_def)
    then show ?thesis using inv
      by (simp add: CallConfirm run CONFIRM_SCORE_def confirmGuard_def confirm_keys_def del: run_del)
  qed (use inv in \<open>simp_all add: run JOIN_def LEAVE_def BOT_ADD_def BOT_REMOVE_def START_def CANCEL_ACTIVE_GAME_def
      RETURN_TO_LOBBY_def TOUCH_def FINISH_IF_COMPLETE_def del: run_del\<close>)
qed

text \<open>On a room that exists.\<close>

lemma body_present:
  assumes s: "clean s" and wf: "wf_store s" and inv: "room_inv c s" and there: "present s (roomKey c)"
    and ok: "call_ok c s call" and decl: "\<And>k. k \<in> set (creatable_of c call) \<Longrightarrow> declares s k"
  shows "room_inv c (snd (body_of c call s))"
proof -
  obtain x R P S B where st: "room_state c s x R P S B" and x: "x \<le> now s + ROOM_TTL_MILLIS"
    and data: "room_data_ok R P S B"
    using inv there room_inv_present by blast
  note ft = room_inv_family[OF inv]
  note st' = room_stateD[OF st]
  have sx: "is_safe_integer (x - now s)" using safe_life[OF st'(17) x] .
  have wfP: "wf_map P" using wf_hash_fields[OF wf, of "playersKey c"] st'(8) by simp
  obtain cap ph h where f: "room_facts R (length P) (keys_of P) (keys_of S) (keys_of B) cap ph h"
    using data room_data_ok_facts by blast
  then have R: "map_of R ''members'' = Some (string_of_int (int (length P)))"
    "map_of R ''capacity'' = Some (string_of_int cap)" "map_of R ''hostId'' = Some h" "keys_of S = keys_of P"
    unfolding room_facts_def by simp_all
  have inv': "room_inv c s'" if "room_state c s' x' R' P' S' B'" "room_data_ok R' P' S' B'"
    "x' \<le> now s' + ROOM_TTL_MILLIS" for s' x' R' P' S' B'
    using room_state_inv[OF that(1,3,2)] .
  show ?thesis
  proof (cases call)
    case (CallCreate cp host code mode)
    show ?thesis using inv there
      by (simp add: CallCreate body_of_def CREATE_def Let_def run_simps s del: run_del)
  next
    case (CallJoin u nick)
    have d: "declares s (playersKey c)" "declares s (scoresKey c)"
      using decl CallJoin by (simp_all add: creatable_of_def JOIN_def roomKeyFamily_def)
    show ?thesis using JOIN_run[OF s st sx d R(2,1,3), of u nick] inv inv' x data_join[OF data wfP _ R(2) _ R(3), of u nick]
      by (auto simp: CallJoin body_of_def split: prod.splits if_split_asm)
  next
    case (CallLeave u)
    show ?thesis using LEAVE_run[OF s st R(1,3), of u] inv inv' x st data data_leave[OF data wfP _ R(3), of u]
      by (auto simp: CallLeave body_of_def split: prod.splits if_split_asm intro: family_empty_inv)
  next
    case CallClose
    show ?thesis using CLOSE_run[OF s ft]
      by (auto simp: CallClose body_of_def split: prod.splits intro: family_empty_inv)
  next
    case (CallBotAdd q b nick)
    have d: "declares s (playersKey c)" "declares s (scoresKey c)" "declares s (botsKey c)"
      using decl CallBotAdd by (simp_all add: creatable_of_def BOT_ADD_def roomKeyFamily_def)
    show ?thesis using BOT_ADD_run[OF s st sx d R(2,1,3), of q b nick "''BOT''"] inv inv' x ok
        data_bot_add[OF data wfP _ _ R(2) _ R(3), of b nick "''BOT''"]
      by (auto simp: CallBotAdd body_of_def split: prod.splits if_split_asm)
  next
    case (CallBotRemove q b)
    show ?thesis using BOT_REMOVE_run[OF s st R(1,3), of q b] inv inv' x data data_bot_remove[OF data wfP, of b]
      by (auto simp: CallBotRemove body_of_def split: prod.splits if_split_asm)
  next
    case (CallStart g minP)
    have g: "hash_typed s (gameKey g)" "present s (gameKey g) \<or> declares s (gameKey g)"
      using ok decl CallStart by (simp_all add: hash_key_alive_def creatable_of_def START_def)
    show ?thesis using START_run[OF s st sx g, where rc = c and minP = minP] inv inv' x data_start[OF data, of g]
      by (auto simp: CallStart body_of_def split: prod.splits if_split_asm)
  next
    case (CallRollback g)
    show ?thesis using ROLLBACK_START_run[OF s ft, where x = x and R = R and P = P and S = S and B = B and g = g] st there inv inv' x data_to_lobby[OF data refl]
      by (auto simp: CallRollback body_of_def split: prod.splits if_split_asm)
  next
    case CallCancel
    show ?thesis using CANCEL_ACTIVE_GAME_run[OF s st] inv inv' x data_to_lobby[OF data refl]
      by (auto simp: CallCancel body_of_def split: prod.splits if_split_asm)
  next
    case CallToLobby
    have d: "declares s (scoresKey c)"
      using decl CallToLobby by (simp add: creatable_of_def RETURN_TO_LOBBY_def roomKeyFamily_def)
    have "keys_of (set_fields (map (\<lambda>p. (p, ''0'')) (map fst P)) S) = keys_of S"
      unfolding keys_of_set_fields R(4) by force
    then show ?thesis using RETURN_TO_LOBBY_run[OF s st sx d] inv inv' x data_to_lobby[OF data]
      by (auto simp: CallToLobby body_of_def split: prod.splits if_split_asm simp del: map_map)
  next
    case CallTouch
    show ?thesis using TOUCH_run[OF s st safe_ttl(3,1,2)] inv' data
      by (auto simp: CallTouch body_of_def split: prod.splits)
  next
    case (CallFinish g force req)
    have b: "\<And>p. p \<in> keys_of P \<Longrightarrow> hash_typed s (gameScoreboardKey g p)" using ok CallFinish st'(8) by auto
    have "field_string (FStr (if force then ''1'' else ''0'')) = (if force then ''1'' else ''0'')" by simp
    then show ?thesis
      using FINISH_IF_COMPLETE_run[OF s st b, where force = "if force then ''1'' else ''0''" and req = req] inv inv' x data_finish[OF data, of g]
      by (auto simp: CallFinish body_of_def simp del: filter_map split: prod.splits if_split_asm)
  next
    case (CallConfirm g p rd cat score upper sig)
    have t: "hash_typed s (gameKey g)" "hash_typed s (gameScoreboardKey g p)" "hash_typed s (gameScoreSubmissionsKey g p)"
      using ok CallConfirm by (simp_all add: hash_key_alive_def)
    have d: "declares s (gameScoreboardKey g p)" "declares s (gameScoreSubmissionsKey g p)"
      using decl CallConfirm by (simp_all add: creatable_of_def CONFIRM_SCORE_def confirm_keys_def)
    show ?thesis
    proof (cases "present s (gameKey g)")
      case True
      then obtain xg where xg: "key_expiry s (gameKey g) = Some xg" "xg \<le> now s + ROOM_TTL_MILLIS"
        using ok CallConfirm by (auto simp: hash_key_alive_def split: option.splits)
      have sg: "is_safe_integer (xg - now s)" using safe_life[OF key_expiry_alive[OF xg(1)] xg(2)] .
      show ?thesis
        using CONFIRM_SCORE_run[OF s st t d xg(1) sg R(4), where rd = "string_of_int rd" and cat = cat
            and sc = "string_of_int score" and up = "if upper then ''1'' else ''0''" and sig = sig] inv inv' x data_score[OF data, of p]
        by (auto simp: CallConfirm body_of_def split: prod.splits if_split_asm)
    next
      case False
      then have "hash_fields s (gameKey g) = []" by (simp add: present_def hash_fields_def)
      then show ?thesis using inv
        by (simp add: CallConfirm body_of_def CONFIRM_SCORE_def confirmGuard_def confirm_keys_def Let_def run_simps s t
            del: run_del)
    qed
  qed
qed

lemma respects_body: "respects_view (body_of c call)"
  unfolding body_of_def case_prod_beta by (cases call) (simp_all add: view_intros del: run_del)

lemma perform_on_clean:
  assumes "wf_store (core m)"
  obtains (refused) "fst (perform c call m) = Inl OOM_MESSAGE"
      "visible (core (snd (perform c call m))) = visible (core m)" "now (core (snd (perform c call m))) = now (core m)"
      "wf_store (core (snd (perform c call m)))" "scriptCreates (core (snd (perform c call m))) = scriptCreates (core m)"
      "\<not> (\<forall>k \<in> set (creatable_of c call). present (core m) k)"
    | (admitted) t where "clean t" "wf_store t" "visible t = visible (core m)" "now t = now (core m)"
      "\<And>k. k \<in> set (creatable_of c call) \<Longrightarrow> declares t k"
      "fst (perform c call m) = fst (body_of c call t)"
      "visible (core (snd (perform c call m))) = visible (snd (body_of c call t))"
      "now (core (snd (perform c call m))) = now (snd (body_of c call t))"
      "wf_store (core (snd (perform c call m)))" "scriptCreates (core (snd (perform c call m))) = None"
proof -
  note sc = script_on_clean[OF assms respects_body[of c call],
    of "script_name (fst (room_call_script c call))" "creatable_of c call"]
  have p: "fst (perform c call m) = fst (runAdmitted (script_name (fst (room_call_script c call)))
        (creatable_of c call) (body_of c call) (core m))"
    "core (snd (perform c call m)) = snd (runAdmitted (script_name (fst (room_call_script c call)))
        (creatable_of c call) (body_of c call) (core m))"
    by (simp_all add: perform_core Let_def case_prod_beta)
  show thesis
    using sc unfolding p[symmetric]
  proof (elim disjE exE conjE)
    fix t :: keyspace assume "scriptCreates t = Some (script_name (fst (room_call_script c call)), creatable_of c call)"
    then have d: "k \<in> set (creatable_of c call) \<Longrightarrow> declares t k" for k by (simp add: declares_def)
    show thesis if "clean t" "wf_store t" "visible t = visible (core m)" "now t = now (core m)"
      "fst (perform c call m) = fst (body_of c call t)"
      "visible (core (snd (perform c call m))) = visible (snd (body_of c call t))"
      "now (core (snd (perform c call m))) = now (snd (body_of c call t))"
      "wf_store (core (snd (perform c call m)))" "scriptCreates (core (snd (perform c call m))) = None"
      using admitted[OF that(1-4) d that(5-9)] .
  qed (use refused in blast)
qed

lemma perform_wf: "wf_store (core m) \<Longrightarrow> wf_store (core (snd (perform c call m)))"
  by (erule perform_on_clean[where c = c and call = call])

lemma same_visible:
  assumes "visible t = visible s" and "now t = now s"
  shows "room_inv c t = room_inv c s" "present t = present s" "hash_fields t = hash_fields s"
    "hash_typed t = hash_typed s" "key_expiry t = key_expiry s" "call_ok c t call = call_ok c s call"
proof -
  show o: "present t = present s" "hash_fields t = hash_fields s" "hash_typed t = hash_typed s" "key_expiry t = key_expiry s"
    using assms by (auto simp: fun_eq_iff present_def hash_fields_def hash_typed_def key_expiry_def)
  show "room_inv c t = room_inv c s" by (rule room_inv_visible[OF assms])
  show "call_ok c t call = call_ok c s call"
    using o assms by (cases call) (simp_all add: hash_key_alive_def split: option.split)
qed

lemma perform_keeps_room:
  assumes "wf_store (core m)" and "room_inv c (core m)" and "call_ok c (core m) call"
  shows "room_inv c (core (snd (perform c call m)))"
  using assms(1)
proof (cases rule: perform_on_clean[where c = c and call = call])
  case refused
  then show ?thesis using assms(2) by (simp add: same_visible(1)[OF refused(2,3)])
next
  case (admitted t)
  note eq = same_visible[OF admitted(3,4)]
  have "room_inv c (snd (body_of c call t))"
  proof (cases "present t (roomKey c)")
    case True
    show ?thesis by (rule body_present[OF admitted(1,2) _ True _ admitted(5)]) (use assms eq in auto)
  next
    case False
    show ?thesis by (rule body_absent[OF admitted(1) _ False _ admitted(5)]) (use assms eq in auto)
  qed
  then show ?thesis by (simp add: same_visible(1)[OF admitted(7,8)])
qed

text \<open>
  C1: Every script call on a room, accepted or refused, keeps the invariant of the room: the
  \<open>members\<close> counter equals the number of players, the players never exceed the capacity, every player and
  nobody else has a score row, bots are players, the phase is one of the three and a game is attached
  exactly outside the lobby, the host is never a bot and is a player whenever a human is present,
  and all keys of the room expire at the same instant.
\<close>
theorem room_calls_keep_invariant:
  assumes "wf_store (core m)" and "room_inv c (core m)" and "call_ok c (core m) call"
  shows "room_inv c (core (snd (perform c call m)))"
  using assms by (rule perform_keeps_room)

lemma new_store_inv: "wf_store (new_keyspace t cap)" "room_inv c (new_keyspace t cap)"
proof -
  have "visible (new_keyspace t cap) = (\<lambda>k. None)"
    by (rule ext) (simp add: visible_def new_keyspace_def)
  then show "room_inv c (new_keyspace t cap)"
    by (simp add: room_inv_def family_typed_def hash_typed_def present_def hash_fields_def)
  show "wf_store (new_keyspace t cap)" by (simp add: wf_store_def new_keyspace_def)
qed

theorem room_calls_keep_invariant_witness:
  "let m = \<lparr>core = new_keyspace 0 10, changes = 0\<rparr>;
       m1 = snd (perform ''ABC'' (CallCreate 4 ''u1'' ''yacht'' ''NORMAL'') m)
   in room_inv ''ABC'' (core m1) \<and> room_inv ''ABC'' (core (snd (perform ''ABC'' (CallJoin ''u1'' ''Ann'') m1)))"
proof -
  let ?m = "\<lparr>core = new_keyspace 0 10, changes = 0\<rparr>"
  let ?m1 = "snd (perform ''ABC'' (CallCreate 4 ''u1'' ''yacht'' ''NORMAL'') ?m)"
  have empty: "wf_store (core ?m)" "room_inv ''ABC'' (core ?m)"
    using new_store_inv by simp_all
  have ok0: "call_ok ''ABC'' (core ?m) (CallCreate 4 ''u1'' ''yacht'' ''NORMAL'')" by simp
  have 1: "room_inv ''ABC'' (core ?m1)" by (rule room_calls_keep_invariant[OF empty ok0])
  have w: "wf_store (core ?m1)" using empty(1) by (rule perform_wf)
  have ok: "call_ok ''ABC'' (core ?m1) (CallJoin ''u1'' ''Ann'')" by (simp only: call_ok.simps)
  show ?thesis unfolding Let_def by (rule conjI[OF 1 room_calls_keep_invariant[OF w 1 ok]])
qed

text \<open>
  No half rooms. As time passes the keys of a room disappear together: if the invariant holds now it
  holds at every later instant without any command, so there is never a room without its player
  list's score rows, or players without a room.
\<close>
theorem room_family_expires_together:
  assumes "room_inv c s" and "now s \<le> t"
  shows "room_inv c (s\<lparr>now := t\<rparr>)"
proof -
  let ?s = "s\<lparr>now := t\<rparr>"
  have vis: "visible ?s k = (case visible s k of None \<Rightarrow> None | Some e \<Rightarrow> if expired t e then None else Some e)" for k
    using assms(2) by (auto simp: visible_def expired_def split: option.splits)
  have gone: "\<not> present ?s k" "hash_fields ?s k = []" "hash_typed ?s k"
    if "present s k \<Longrightarrow> key_expiry s k = Some x" "x \<le> t" for k x
    using that vis[of k] by (auto simp: present_def hash_fields_def hash_typed_def key_expiry_def expired_def
        split: option.splits)
  have kept: "visible ?s k = visible s k" if "present s k \<Longrightarrow> key_expiry s k = Some x" "t < x" for k x
    using that vis[of k] by (auto simp: present_def key_expiry_def expired_def split: option.splits)
  show ?thesis
  proof (cases "present s (roomKey c)")
    case False
    then have "visible ?s k = visible s k" if "k \<in> {roomKey c, playersKey c, scoresKey c, botsKey c}" for k
      using assms(1) that vis[of k] by (auto simp: room_inv_def present_def split: option.splits)
    then show ?thesis using assms(1) False
      by (simp add: room_inv_def family_typed_def hash_typed_def present_def hash_fields_def key_expiry_def)
  next
    case True
    then obtain x R P S B where st: "room_state c s x R P S B" and x: "x \<le> now s + ROOM_TTL_MILLIS"
      and data: "room_data_ok R P S B"
      using assms(1) room_inv_present by blast
    have ex: "present s k \<Longrightarrow> key_expiry s k = Some x" if "k \<in> {roomKey c, playersKey c, scoresKey c, botsKey c}" for k
      using that st by (auto simp: room_state_def)
    show ?thesis
    proof (cases "x \<le> t")
      case True
      then show ?thesis using gone[OF ex True] by (simp add: room_inv_def family_typed_def)
    next
      case False
      then have "visible ?s k = visible s k" if "k \<in> {roomKey c, playersKey c, scoresKey c, botsKey c}" for k
        using kept[OF ex[OF that]] by simp
      then have "room_state c ?s x R P S B" using st
        by (simp add: room_state_def family_typed_def hash_typed_def present_def hash_fields_def key_expiry_def)
      then show ?thesis using x data assms(2) by (intro room_state_inv) auto
    qed
  qed
qed

text \<open>A store that holds one fresh room.\<close>

definition fresh_room :: keyspace where
  "fresh_room = put_entry (roomKey ''ABC'') \<lparr>e_value = HashV [(''capacity'', string_of_int 4), (''members'', ''0''),
     (''phase'', ''LOBBY''), (''hostId'', ''u1''), (''gameCode'', ''yacht''), (''mode'', ''NORMAL'')],
     expiresAt = Some 2400000\<rparr> (new_keyspace 0 10)"

lemma fresh_room_inv: "room_inv ''ABC'' fresh_room" "wf_store fresh_room" "present fresh_room (roomKey ''ABC'')"
  "now fresh_room = 0"
proof -
  have v: "visible (new_keyspace t cap) = (\<lambda>k. None)" for t cap
    by (rule ext) (simp add: visible_def new_keyspace_def)
  have n: "now (new_keyspace t cap) = t" for t cap by (simp add: new_keyspace_def)
  have "room_state ''ABC'' fresh_room 2400000 [(''capacity'', string_of_int 4), (''members'', ''0''),
     (''phase'', ''LOBBY''), (''hostId'', ''u1''), (''gameCode'', ''yacht''), (''mode'', ''NORMAL'')] [] [] []"
    by (simp add: room_state_def family_typed_def fresh_room_def hash_typed_def present_def hash_fields_def
        key_expiry_def visible_put v n expired_def)
  then show "room_inv ''ABC'' fresh_room"
    by (rule room_state_inv) (simp_all add: fresh_room_def n ROOM_TTL_MILLIS_def data_create)
  show "wf_store fresh_room" unfolding fresh_room_def by (rule wf_store_put) (simp_all add: new_store_inv)
  show "present fresh_room (roomKey ''ABC'')" "now fresh_room = 0"
    by (simp_all add: fresh_room_def present_def visible_put v n expired_def)
qed

theorem room_family_expires_together_witness:
  "room_inv ''ABC'' (fresh_room\<lparr>now := 5000000\<rparr>)"
  using room_family_expires_together[OF fresh_room_inv(1)] fresh_room_inv(4) by simp

section \<open>Laws of single scripts\<close>

lemma find_sorted_least:
  "sorted xs \<Longrightarrow> find Q xs = Some p \<Longrightarrow> q \<in> set xs \<Longrightarrow> Q q \<Longrightarrow> p \<le> (q :: 'a :: linorder)"
  by (induction xs) (auto split: if_splits)

lemma run_on_room:
  assumes "room_inv c (core m)" and "present (core m) (roomKey c)"
    and "visible t = visible (core m)" "now t = now (core m)"
  obtains x R P S B where "room_state c t x R P S B" "is_safe_integer (x - now t)" "room_data_ok R P S B"
    "hash_fields (core m) (roomKey c) = R" "hash_fields (core m) (playersKey c) = P"
    "hash_fields (core m) (scoresKey c) = S" "hash_fields (core m) (botsKey c) = B"
proof -
  note eq = same_visible[OF assms(3,4)]
  obtain x R P S B where st: "room_state c t x R P S B" "x \<le> now t + ROOM_TTL_MILLIS" "room_data_ok R P S B"
    using assms(1,2) room_inv_present[of c t] eq by auto
  have "is_safe_integer (x - now t)" using safe_life[OF room_stateD(17)[OF st(1)] st(2)] .
  then show thesis using that[OF st(1) _ st(3)] room_stateD(7-10)[OF st(1)] eq by simp
qed

text \<open>
  C9: Succession of the host. When the host leaves and the room stays, the new host is the human player with
  the least identifier, whoever executes the script; when only bots are left, the room has no host.
\<close>
theorem leaving_host_is_succeeded:
  assumes "wf_store (core m)" and "room_inv c (core m)" and "present (core m) (roomKey c)"
    and "map_of (hash_fields (core m) (roomKey c)) ''hostId'' = Some u"
    and "fst (perform c (CallLeave u) m) = Inr 1"
  defines "s' \<equiv> core (snd (perform c (CallLeave u) m))"
  defines "humans \<equiv> keys_of (hash_fields s' (playersKey c)) - keys_of (hash_fields s' (botsKey c))"
  shows "map_of (hash_fields s' (roomKey c)) ''hostId'' = Some (if humans = {} then '''' else Min humans)
    \<and> u \<notin> keys_of (hash_fields s' (playersKey c))"
  using assms(1)
proof (cases rule: perform_on_clean[where c = c and call = "CallLeave u"])
  case refused
  then show ?thesis using assms(5) by simp
next
  case (admitted t)
  obtain x R P S B where st: "room_state c t x R P S B" "room_data_ok R P S B"
    "hash_fields (core m) (roomKey c) = R"
    using run_on_room[OF assms(2,3) admitted(3,4)] by metis
  have host: "map_of R ''hostId'' = Some u" using assms(4) st(3) by simp
  obtain cap ph h where "room_facts R (length P) (keys_of P) (keys_of S) (keys_of B) cap ph h"
    using st(2) room_data_ok_facts by blast
  then have mem: "map_of R ''members'' = Some (string_of_int (int (length P)))" unfolding room_facts_def by simp
  define P' where "P' = AList.delete u P"
  define B' where "B' = AList.delete u B"
  let ?heir = "find (\<lambda>p. \<not> has_key B' p) (sort (map fst P'))"
  have "fst (script_run LEAVE (roomKeyFamily c) [u] t) = Inr 1"
    using assms(5) admitted(6) by (simp add: body_of_def)
  then have "\<exists>R1. room_state c (snd (script_run LEAVE (roomKeyFamily c) [u] t)) x
      (AList.update ''hostId'' (case ?heir of None \<Rightarrow> '''' | Some p \<Rightarrow> p) R1) P' (AList.delete u S) B'"
    using LEAVE_run[OF admitted(1) st(1) mem host, of u]
    by (auto simp: P'_def B'_def split: prod.splits if_split_asm)
  then obtain R1 where fin: "room_state c (snd (body_of c (CallLeave u) t)) x
      (AList.update ''hostId'' (case ?heir of None \<Rightarrow> '''' | Some p \<Rightarrow> p) R1) P' (AList.delete u S) B'"
    by (auto simp: body_of_def)
  have obs: "hash_fields s' k = hash_fields (snd (body_of c (CallLeave u) t)) k" for k
    using admitted(7) by (simp add: s'_def hash_fields_def)
  note f = room_stateD(7-10)[OF fin]
  have humans: "humans = keys_of P' - keys_of B'" by (simp add: humans_def obs f)
  note heir = find_human_heir[of B' P' ?heir, OF refl]
  have "(case ?heir of None \<Rightarrow> '''' | Some p \<Rightarrow> p) = (if humans = {} then '''' else Min humans)"
  proof (cases ?heir)
    case None then show ?thesis using heir humans by auto
  next
    case (Some p)
    have "p \<le> q" if "q \<in> humans" for q
      using find_sorted_least[OF sorted_sort Some, of q] that humans by (auto simp: has_key_iff)
    moreover have "p \<in> humans" using heir Some humans by blast
    moreover have "finite humans" unfolding humans by simp
    ultimately have "Min humans = p" by (intro Min_eqI) auto
    then show ?thesis using Some \<open>p \<in> humans\<close> by auto
  qed
  moreover have "u \<notin> keys_of P'" by (simp add: P'_def)
  ultimately show ?thesis by (simp add: obs f)
qed

text \<open>A store that holds one room with the game \<open>g1\<close> running: two humans and a bot.\<close>

definition hash_entry :: "(string \<times> string) list \<Rightarrow> redis_entry" where
  "hash_entry h = \<lparr>e_value = HashV h, expiresAt = Some 2400000\<rparr>"

definition busy_room :: keyspace where
  "busy_room = \<lparr>data = [
     (roomKey ''ABC'', hash_entry [(''capacity'', ''4''), (''members'', ''3''), (''phase'', ''PLAYING''),
        (''hostId'', ''u1''), (''gameCode'', ''yacht''), (''mode'', ''NORMAL''), (''gameId'', ''g1'')]),
     (playersKey ''ABC'', hash_entry [(''u1'', ''Ann''), (''bot'', ''Bot''), (''u2'', ''Bob'')]),
     (scoresKey ''ABC'', hash_entry [(''u1'', ''0''), (''bot'', ''0''), (''u2'', ''0'')]),
     (botsKey ''ABC'', hash_entry [(''bot'', ''BOT'')]),
     (gameKey ''g1'', hash_entry [(''roomCode'', ''ABC''), (''gameCode'', ''yacht'')])],
     now = 0, maxKeys = 10, scriptCreates = None\<rparr>"

lemma busy_room_numbers: "string_of_int 3 = ''3''" "string_of_int 4 = ''4''"
  by (simp_all add: string_of_int_def digits_of_nat.simps decimal_digits_def)

lemma busy_room_inv: "room_inv ''ABC'' busy_room" "wf_store busy_room" "present busy_room (roomKey ''ABC'')"
proof -
  have v: "map_of (data busy_room) (roomKey ''ABC'') = Some (hash_entry [(''capacity'', ''4''), (''members'', ''3''),
        (''phase'', ''PLAYING''), (''hostId'', ''u1''), (''gameCode'', ''yacht''), (''mode'', ''NORMAL''), (''gameId'', ''g1'')])"
    "map_of (data busy_room) (playersKey ''ABC'') = Some (hash_entry [(''u1'', ''Ann''), (''bot'', ''Bot''), (''u2'', ''Bob'')])"
    "map_of (data busy_room) (scoresKey ''ABC'') = Some (hash_entry [(''u1'', ''0''), (''bot'', ''0''), (''u2'', ''0'')])"
    "map_of (data busy_room) (botsKey ''ABC'') = Some (hash_entry [(''bot'', ''BOT'')])"
    by (simp_all add: busy_room_def)
  have n: "now busy_room = 0" "\<not> expired 0 (hash_entry h)" for h
    by (simp_all add: busy_room_def expired_def hash_entry_def)
  have "room_state ''ABC'' busy_room 2400000 [(''capacity'', ''4''), (''members'', ''3''), (''phase'', ''PLAYING''),
        (''hostId'', ''u1''), (''gameCode'', ''yacht''), (''mode'', ''NORMAL''), (''gameId'', ''g1'')]
     [(''u1'', ''Ann''), (''bot'', ''Bot''), (''u2'', ''Bob'')] [(''u1'', ''0''), (''bot'', ''0''), (''u2'', ''0'')]
     [(''bot'', ''BOT'')]"
    by (simp add: room_state_def family_typed_def hash_typed_def present_def hash_fields_def key_expiry_def visible_def v n)
      (simp add: hash_entry_def)
  moreover have "room_data_ok [(''capacity'', ''4''), (''members'', ''3''), (''phase'', ''PLAYING''),
        (''hostId'', ''u1''), (''gameCode'', ''yacht''), (''mode'', ''NORMAL''), (''gameId'', ''g1'')]
     [(''u1'', ''Ann''), (''bot'', ''Bot''), (''u2'', ''Bob'')] [(''u1'', ''0''), (''bot'', ''0''), (''u2'', ''0'')]
     [(''bot'', ''BOT'')]"
    by (rule room_factsI[where cap = 4 and ph = "''PLAYING''" and host = "''u1''", OF _ refl refl refl])
      (auto simp: room_facts_def busy_room_numbers)
  ultimately show "room_inv ''ABC'' busy_room"
    by (intro room_state_inv) (auto simp: n ROOM_TTL_MILLIS_def)
  show "wf_store busy_room" by (simp add: wf_store_def busy_room_def hash_entry_def)
  show "present busy_room (roomKey ''ABC'')" by (simp add: present_def visible_def v n)
qed

theorem leaving_host_is_succeeded_witness:
  "map_of (hash_fields (core (snd (perform ''ABC'' (CallLeave ''u1'') \<lparr>core = busy_room, changes = 0\<rparr>)))
     (roomKey ''ABC'')) ''hostId'' = Some ''u2''"
proof -
  let ?m = "\<lparr>core = busy_room, changes = 0\<rparr>"
  have 1: "fst (perform ''ABC'' (CallLeave ''u1'') ?m) = Inr 1" by code_simp
  have 2: "map_of (hash_fields (core ?m) (roomKey ''ABC'')) ''hostId'' = Some ''u1''" by code_simp
  have 3: "keys_of (hash_fields (core (snd (perform ''ABC'' (CallLeave ''u1'') ?m))) (playersKey ''ABC''))
      - keys_of (hash_fields (core (snd (perform ''ABC'' (CallLeave ''u1'') ?m))) (botsKey ''ABC'')) = {''u2''}"
    by code_simp
  show ?thesis
    using leaving_host_is_succeeded[OF _ _ _ 2 1] busy_room_inv unfolding 3 by simp
qed

text \<open>What can happen around a room: a call on it, the passing of time, or anything done to the rest of
  the store (other rooms, sessions, games) that leaves the four keys of the room as they are.\<close>

datatype room_event =
    RoomCall room_call
  | ClockAt int
  | OtherKeys memory_redis

fun room_event_step :: "string \<Rightarrow> room_event \<Rightarrow> memory_redis \<Rightarrow> memory_redis" where
  "room_event_step c (RoomCall call) m = snd (perform c call m)"
| "room_event_step c (ClockAt t) m = m\<lparr>core := (core m)\<lparr>now := t\<rparr>\<rparr>"
| "room_event_step c (OtherKeys m') m = m'"

fun room_run :: "string \<Rightarrow> room_event list \<Rightarrow> memory_redis \<Rightarrow> memory_redis" where
  "room_run c [] m = m"
| "room_run c (e # es) m = room_run c es (room_event_step c e m)"

fun starts_game :: "string \<Rightarrow> room_event \<Rightarrow> memory_redis \<Rightarrow> bool" where
  "starts_game c (RoomCall (CallStart g minP)) m = (fst (perform c (CallStart g minP) m) = Inr 1)"
| "starts_game c _ m = False"

fun event_ok :: "string \<Rightarrow> room_event \<Rightarrow> memory_redis \<Rightarrow> bool" where
  "event_ok c (RoomCall call) m = call_ok c (core m) call"
| "event_ok c (ClockAt t) m = (now (core m) \<le> t)"
| "event_ok c (OtherKeys m') m = (wf_store (core m') \<and> now (core m') = now (core m)
     \<and> list_all (\<lambda>k. visible (core m') k = visible (core m) k) (roomKeyFamily c))"

fun no_start :: "string \<Rightarrow> room_event list \<Rightarrow> memory_redis \<Rightarrow> bool" where
  "no_start c [] m = True"
| "no_start c (e # es) m \<longleftrightarrow> event_ok c e m \<and> \<not> starts_game c e m \<and> no_start c es (room_event_step c e m)"

text \<open>The room is not in play, and only a start that answers 1 puts it in play.\<close>

definition room_in_play :: "string \<Rightarrow> keyspace \<Rightarrow> bool" where
  "room_in_play c s \<longleftrightarrow> map_of (hash_fields s (roomKey c)) ''phase'' = Some ''PLAYING''"

lemma room_in_play_present: "room_in_play c s \<Longrightarrow> present s (roomKey c)"
  by (auto simp: room_in_play_def hash_fields_def present_def split: option.splits)

lemma room_in_play_room: "room_state c s x R P S B \<Longrightarrow> room_in_play c s \<longleftrightarrow> map_of R ''phase'' = Some ''PLAYING''"
  by (simp add: room_in_play_def room_stateD(7))

lemma body_keeps_out_of_play:
  assumes s: "clean s" and wf: "wf_store s" and inv: "room_inv c s"
    and ok: "call_ok c s call" and decl: "\<And>k. k \<in> set (creatable_of c call) \<Longrightarrow> declares s k"
    and out: "\<not> room_in_play c s"
    and start: "\<And>g minP. call = CallStart g minP \<Longrightarrow> fst (body_of c call s) \<noteq> Inr 1"
  shows "\<not> room_in_play c (snd (body_of c call s))"
proof (cases "present s (roomKey c)")
  case False
  note ft = room_inv_family[OF inv]
  note typed = ft[unfolded family_typed_def]
  have none: "\<not> present s (playersKey c)" "\<not> present s (scoresKey c)" "\<not> present s (botsKey c)"
    using inv False by (auto simp: room_inv_def)
  note run = Let_def roomKeyFamily_def run_simps s typed False body_of_def
  show ?thesis
  proof (cases call)
    case (CallCreate cap host code mode)
    have "declares s (roomKey c)" using decl CallCreate by (simp add: creatable_of_def CREATE_def)
    from CREATE_run[OF s ft this none safe_ttl(3,1,2), of "string_of_int cap" host code mode]
    show ?thesis using False by (auto simp: CallCreate body_of_def room_in_play_room split: prod.splits)
  next
    case CallClose
    show ?thesis using CLOSE_run[OF s ft]
      by (auto simp: CallClose body_of_def split: prod.splits dest: room_in_play_present)
  next
    case (CallRollback g)
    show ?thesis using ROLLBACK_START_run[OF s ft, where g = g] False out
      by (auto simp: CallRollback body_of_def split: prod.splits)
  next
    case (CallConfirm g p rd cat score upper sig)
    have "hash_typed s (gameKey g)" using ok CallConfirm by (simp add: hash_key_alive_def)
    then show ?thesis using out
      by (simp add: CallConfirm run CONFIRM_SCORE_def confirmGuard_def confirm_keys_def del: run_del)
  qed (use out in \<open>simp_all add: run JOIN_def LEAVE_def BOT_ADD_def BOT_REMOVE_def START_def CANCEL_ACTIVE_GAME_def
      RETURN_TO_LOBBY_def TOUCH_def FINISH_IF_COMPLETE_def del: run_del\<close>)
next
  case there: True
  obtain x R P S B where st: "room_state c s x R P S B" and x: "x \<le> now s + ROOM_TTL_MILLIS"
    and data: "room_data_ok R P S B"
    using inv there room_inv_present by blast
  note ft = room_inv_family[OF inv]
  note st' = room_stateD[OF st]
  have sx: "is_safe_integer (x - now s)" using safe_life[OF st'(17) x] .
  obtain cap ph h where f: "room_facts R (length P) (keys_of P) (keys_of S) (keys_of B) cap ph h"
    using data room_data_ok_facts by blast
  then have R: "map_of R ''members'' = Some (string_of_int (int (length P)))"
    "map_of R ''capacity'' = Some (string_of_int cap)" "map_of R ''hostId'' = Some h" "keys_of S = keys_of P"
    unfolding room_facts_def by simp_all
  have ph: "map_of R ''phase'' \<noteq> Some ''PLAYING''" using out room_in_play_room[OF st] by simp
  show ?thesis
  proof (cases call)
    case (CallCreate cp host code mode)
    show ?thesis using out there
      by (simp add: CallCreate body_of_def CREATE_def Let_def run_simps s del: run_del)
  next
    case (CallJoin u nick)
    have d: "declares s (playersKey c)" "declares s (scoresKey c)"
      using decl CallJoin by (simp_all add: creatable_of_def JOIN_def roomKeyFamily_def)
    show ?thesis using JOIN_run[OF s st sx d R(2,1,3), of u nick] out ph
      by (auto simp: CallJoin body_of_def room_in_play_room map_of_update split: prod.splits if_split_asm)
  next
    case (CallLeave u)
    show ?thesis using LEAVE_run[OF s st R(1,3), of u] out ph
      by (auto simp: CallLeave body_of_def room_in_play_room split: prod.splits if_split_asm dest: room_in_play_present)
  next
    case CallClose
    show ?thesis using CLOSE_run[OF s ft]
      by (auto simp: CallClose body_of_def split: prod.splits dest: room_in_play_present)
  next
    case (CallBotAdd q b nick)
    have d: "declares s (playersKey c)" "declares s (scoresKey c)" "declares s (botsKey c)"
      using decl CallBotAdd by (simp_all add: creatable_of_def BOT_ADD_def roomKeyFamily_def)
    show ?thesis using BOT_ADD_run[OF s st sx d R(2,1,3), of q b nick "''BOT''"] out ph
      by (auto simp: CallBotAdd body_of_def room_in_play_room split: prod.splits if_split_asm)
  next
    case (CallBotRemove q b)
    show ?thesis using BOT_REMOVE_run[OF s st R(1,3), of q b] out ph
      by (auto simp: CallBotRemove body_of_def room_in_play_room split: prod.splits if_split_asm)
  next
    case (CallStart g minP)
    have g: "hash_typed s (gameKey g)" "present s (gameKey g) \<or> declares s (gameKey g)"
      using ok decl CallStart by (simp_all add: hash_key_alive_def creatable_of_def START_def)
    show ?thesis using START_run[OF s st sx g, where rc = c and minP = minP] out start[OF CallStart]
      by (auto simp: CallStart body_of_def split: prod.splits if_split_asm)
  next
    case (CallRollback g)
    show ?thesis using ROLLBACK_START_run[OF s ft, where x = x and R = R and P = P and S = S and B = B and g = g] st there ph out
      by (auto simp: CallRollback body_of_def split: prod.splits if_split_asm)
  next
    case CallCancel
    show ?thesis using CANCEL_ACTIVE_GAME_run[OF s st] ph out
      by (auto simp: CallCancel body_of_def split: prod.splits if_split_asm)
  next
    case CallToLobby
    have d: "declares s (scoresKey c)"
      using decl CallToLobby by (simp add: creatable_of_def RETURN_TO_LOBBY_def roomKeyFamily_def)
    show ?thesis using RETURN_TO_LOBBY_run[OF s st sx d] out room_stateD(7)
      by (auto simp: CallToLobby body_of_def room_in_play_def delete_conv split: prod.splits if_split_asm simp del: map_map)
  next
    case CallTouch
    show ?thesis using TOUCH_run[OF s st safe_ttl(3,1,2)] ph
      by (auto simp: CallTouch body_of_def room_in_play_room split: prod.splits)
  next
    case (CallFinish g force req)
    have b: "\<And>p. p \<in> keys_of P \<Longrightarrow> hash_typed s (gameScoreboardKey g p)" using ok CallFinish st'(8) by auto
    show ?thesis
      using FINISH_IF_COMPLETE_run[OF s st b, where force = "if force then ''1'' else ''0''" and req = req] out ph
      by (auto simp: CallFinish body_of_def simp del: filter_map split: prod.splits if_split_asm)
  next
    case (CallConfirm g p rd cat score upper sig)
    have t: "hash_typed s (gameKey g)" "hash_typed s (gameScoreboardKey g p)" "hash_typed s (gameScoreSubmissionsKey g p)"
      using ok CallConfirm by (simp_all add: hash_key_alive_def)
    have d: "declares s (gameScoreboardKey g p)" "declares s (gameScoreSubmissionsKey g p)"
      using decl CallConfirm by (simp_all add: creatable_of_def CONFIRM_SCORE_def confirm_keys_def)
    show ?thesis
    proof (cases "present s (gameKey g)")
      case True
      then obtain xg where xg: "key_expiry s (gameKey g) = Some xg" "xg \<le> now s + ROOM_TTL_MILLIS"
        using ok CallConfirm by (auto simp: hash_key_alive_def split: option.splits)
      have sg: "is_safe_integer (xg - now s)" using safe_life[OF key_expiry_alive[OF xg(1)] xg(2)] .
      show ?thesis
        using CONFIRM_SCORE_run[OF s st t d xg(1) sg R(4), where rd = "string_of_int rd" and cat = cat
            and sc = "string_of_int score" and up = "if upper then ''1'' else ''0''" and sig = sig] out ph
        by (auto simp: CallConfirm body_of_def split: prod.splits if_split_asm)
    next
      case False
      then have "hash_fields s (gameKey g) = []" by (simp add: present_def hash_fields_def)
      then show ?thesis using out
        by (simp add: CallConfirm body_of_def CONFIRM_SCORE_def confirmGuard_def confirm_keys_def Let_def run_simps s t
            del: run_del)
    qed
  qed
qed

lemma same_room_in_play: "visible t = visible s \<Longrightarrow> room_in_play c t = room_in_play c s"
  by (simp add: room_in_play_def hash_fields_def)

lemma room_event_wf:
  assumes "wf_store (core m)" and "event_ok c e m"
  shows "wf_store (core (room_event_step c e m))"
proof (cases e)
  case (ClockAt t)
  then show ?thesis using assms(1) by (simp add: wf_store_def)
qed (use assms perform_wf in simp_all)

lemma time_keeps_out: "now s \<le> t \<Longrightarrow> \<not> room_in_play c s \<Longrightarrow> \<not> room_in_play c (s\<lparr>now := t\<rparr>)"
  by (auto simp: room_in_play_def hash_fields_def visible_def expired_def split: option.splits if_split_asm)

lemma others_keep_room:
  assumes "list_all (\<lambda>k. visible s' k = visible s k) (roomKeyFamily c)" and "now s' = now s"
  shows "room_inv c s' = room_inv c s" and "room_in_play c s' = room_in_play c s"
  using assms by (simp_all add: roomKeyFamily_def room_inv_def family_typed_def hash_typed_def present_def hash_fields_def
      key_expiry_def room_in_play_def)

lemma room_event_keeps_out:
  assumes "wf_store (core m)" and "room_inv c (core m)" and "event_ok c e m"
    and "\<not> room_in_play c (core m)" and "\<not> starts_game c e m"
  shows "room_inv c (core (room_event_step c e m)) \<and> \<not> room_in_play c (core (room_event_step c e m))"
proof (cases e)
  case (RoomCall call)
  have ok: "call_ok c (core m) call" using assms(3) RoomCall by simp
  have "\<not> room_in_play c (core (snd (perform c call m)))"
    using assms(1)
  proof (cases rule: perform_on_clean[where c = c and call = call])
    case refused
    then show ?thesis using assms(4) same_room_in_play[OF refused(2)] by simp
  next
    case (admitted t)
    note eq = same_visible[OF admitted(3,4)]
    have "\<not> room_in_play c (snd (body_of c call t))"
      by (rule body_keeps_out_of_play[OF admitted(1,2) _ _ admitted(5)])
        (use assms RoomCall ok eq same_room_in_play[OF admitted(3)] admitted(6) in auto)
    then show ?thesis using same_room_in_play[OF admitted(7)] by simp
  qed
  then show ?thesis using perform_keeps_room[OF assms(1,2) ok] RoomCall by simp
next
  case (ClockAt t)
  then show ?thesis using assms(3,4) room_family_expires_together[OF assms(2)] time_keeps_out by simp
next
  case (OtherKeys m')
  then show ?thesis using assms(2-4) others_keep_room[of "core m'" "core m" c] by simp
qed

lemma room_run_keeps_out:
  "wf_store (core m) \<Longrightarrow> room_inv c (core m) \<Longrightarrow> \<not> room_in_play c (core m) \<Longrightarrow> no_start c es m \<Longrightarrow>
    wf_store (core (room_run c es m)) \<and> room_inv c (core (room_run c es m)) \<and> \<not> room_in_play c (core (room_run c es m))"
proof (induction es arbitrary: m)
  case (Cons e es)
  have ok: "event_ok c e m" "\<not> starts_game c e m" "no_start c es (room_event_step c e m)"
    using Cons.prems(4) by simp_all
  note step = room_event_keeps_out[OF Cons.prems(1,2) ok(1) Cons.prems(3) ok(2)]
  show ?case using Cons.IH[OF room_event_wf[OF Cons.prems(1) ok(1)] _ _ ok(3)] step by simp
qed simp

text \<open>A call of \<open>FINISH_IF_COMPLETE\<close> performs the transition only on a room in play, and leaves it out of play.\<close>

lemma finish_needs_play:
  assumes "wf_store (core m)" and "room_inv c (core m)" and "fst (perform c (CallFinish g f req) m) = Inr 1"
  shows "room_in_play c (core m)"
  using assms(1)
proof (cases rule: perform_on_clean[where c = c and call = "CallFinish g f req"])
  case refused then show ?thesis using assms(3) by simp
next
  case (admitted t)
  show ?thesis
  proof (rule ccontr)
    assume "\<not> room_in_play c (core m)"
    then have out: "map_of (hash_fields t (roomKey c)) ''phase'' \<noteq> Some ''PLAYING''"
      using same_room_in_play[OF admitted(3)] by (simp add: room_in_play_def)
    have "fst (body_of c (CallFinish g f req) t) \<noteq> Inr 1"
      using out admitted(1) room_inv_family[OF assms(2)] same_visible[OF admitted(3,4)]
      by (cases "present t (roomKey c)")
        (simp_all add: family_typed_def body_of_def FINISH_IF_COMPLETE_def Let_def run_simps del: run_del)
    then show False using assms(3) admitted(6) by simp
  qed
qed

lemma finish_ends_play:
  assumes "wf_store (core m)" and "room_inv c (core m)" and "call_ok c (core m) (CallFinish g f req)"
    and "fst (perform c (CallFinish g f req) m) = Inr 1"
  shows "map_of (hash_fields (core (snd (perform c (CallFinish g f req) m))) (roomKey c)) ''phase'' = Some ''FINISHED''"
  using assms(1)
proof (cases rule: perform_on_clean[where c = c and call = "CallFinish g f req"])
  case refused then show ?thesis using assms(4) by simp
next
  case (admitted t)
  note eq = same_visible[OF admitted(3,4)]
  have there: "present (core m) (roomKey c)" by (rule room_in_play_present[OF finish_needs_play[OF assms(1,2,4)]])
  obtain x R P S B where st: "room_state c t x R P S B" "hash_fields (core m) (playersKey c) = P"
    using run_on_room[OF assms(2) there admitted(3,4)] by metis
  have b: "\<And>p. p \<in> keys_of P \<Longrightarrow> hash_typed t (gameScoreboardKey g p)"
    using assms(3) st(2) eq by auto
  have "\<exists>R'. room_state c (snd (body_of c (CallFinish g f req) t)) x (AList.update ''phase'' ''FINISHED'' R') P S B"
    using FINISH_IF_COMPLETE_run[OF admitted(1) st(1) b, where force = "if f then ''1'' else ''0''" and req = req]
      assms(4) admitted(6)
    by (auto simp: body_of_def simp del: filter_map split: prod.splits if_split_asm)
  then obtain R' where r: "room_state c (snd (body_of c (CallFinish g f req) t)) x (AList.update ''phase'' ''FINISHED'' R') P S B" ..
  note same = same_visible[OF admitted(7,8)]
  show ?thesis using room_stateD(7)[OF r] same by simp
qed

text \<open>
  C3: The end of a game is announced once. After a call of \<open>FINISH_IF_COMPLETE\<close> that performed the
  transition, the room shows \<open>FINISHED\<close>; and after any further calls on the room (accepted or refused: joins,
  departures, touches, returns to the lobby, rollbacks, closings, new creations, other finishing calls), any
  passage of time and any change to the rest of the store, as long as no start of a game answered 1, no call
  of it performs the transition, whatever its game, force flag or threshold: two racing submissions
  cannot both broadcast \<open>game.over\<close>.
\<close>
theorem finish_fires_once:
  assumes "wf_store (core m)" and "room_inv c (core m)" and "call_ok c (core m) (CallFinish g f req)"
    and "fst (perform c (CallFinish g f req) m) = Inr 1"
    and "no_start c es (snd (perform c (CallFinish g f req) m))"
  shows "map_of (hash_fields (core (snd (perform c (CallFinish g f req) m))) (roomKey c)) ''phase'' = Some ''FINISHED''
    \<and> fst (perform c (CallFinish g' f' req') (room_run c es (snd (perform c (CallFinish g f req) m)))) \<noteq> Inr 1"
proof -
  let ?m = "snd (perform c (CallFinish g f req) m)"
  note over = finish_ends_play[OF assms(1-4)]
  have "\<not> room_in_play c (core ?m)" using over by (simp add: room_in_play_def)
  from room_run_keeps_out[OF perform_wf[OF assms(1)] perform_keeps_room[OF assms(1-3)] this assms(5)]
  show ?thesis using over finish_needs_play by blast
qed

theorem finish_fires_once_witness:
  "fst (perform ''ABC'' (CallFinish ''g1'' True 12) (room_run ''ABC''
     [ClockAt 500, RoomCall (CallFinish ''g1'' True 12), RoomCall (CallLeave ''u2''), RoomCall CallToLobby, RoomCall CallTouch]
     (snd (perform ''ABC'' (CallFinish ''g1'' True 12) \<lparr>core = busy_room, changes = 0\<rparr>)))) \<noteq> Inr 1"
proof -
  let ?m = "\<lparr>core = busy_room, changes = 0\<rparr>"
  let ?es = "[ClockAt 500, RoomCall (CallFinish ''g1'' True 12), RoomCall (CallLeave ''u2''), RoomCall CallToLobby, RoomCall CallTouch]"
  have 1: "fst (perform ''ABC'' (CallFinish ''g1'' True 12) ?m) = Inr 1" by code_simp
  have 2: "call_ok ''ABC'' (core ?m) (CallFinish ''g1'' True 12)" by code_simp
  have 3: "no_start ''ABC'' ?es (snd (perform ''ABC'' (CallFinish ''g1'' True 12) ?m))" by code_simp
  show ?thesis using finish_fires_once[OF _ _ 2 1 3] busy_room_inv by simp
qed

text \<open>The state a successful confirmation leaves behind, and what a later confirmation of the same
  round finds there.\<close>

definition confirmed_state :: "string \<Rightarrow> string \<Rightarrow> string \<Rightarrow> string \<Rightarrow> string \<Rightarrow> keyspace \<Rightarrow> bool" where
  "confirmed_state c g p rd sig s = (\<exists>x R P S B xg. room_state c s x R P S B \<and> keys_of S = keys_of P
     \<and> map_of (hash_fields s (gameKey g)) ''roomCode'' = Some c \<and> map_of R ''gameId'' = Some g
     \<and> map_of R ''phase'' = Some ''PLAYING'' \<and> has_key P p
     \<and> map_of (hash_fields s (gameScoreSubmissionsKey g p)) rd = Some sig
     \<and> hash_typed s (gameKey g) \<and> hash_typed s (gameScoreboardKey g p)
     \<and> hash_typed s (gameScoreSubmissionsKey g p)
     \<and> key_expiry s (gameKey g) = Some xg \<and> xg \<le> now s + ROOM_TTL_MILLIS
     \<and> present s (gameScoreboardKey g p) \<and> present s (gameScoreSubmissionsKey g p))"

lemma confirm_effect:
  assumes "wf_store (core m)" and "room_inv c (core m)" and "call_ok c (core m) (CallConfirm g p rd cat score upper sig)"
    and "fst (perform c (CallConfirm g p rd cat score upper sig) m) = Inr r" and "r = 0 \<or> r = 5"
  defines "m' \<equiv> snd (perform c (CallConfirm g p rd cat score upper sig) m)"
    and "K \<equiv> hash_fields (core m) (gameScoreboardKey g p)"
  shows "if r = 0 then confirmed_state c g p (string_of_int rd) sig (core m')
      \<and> \<not> has_key K cat \<and> hash_fields (core m') (gameScoreboardKey g p) = scoreboard_written cat (string_of_int score) upper K
      \<and> map_of (hash_fields (core m') (scoresKey c)) p = Some (total_written (string_of_int score) upper K)
    else map_of (hash_fields (core m) (gameScoreSubmissionsKey g p)) (string_of_int rd) = Some sig"
proof -
  let ?call = "CallConfirm g p rd cat score upper sig" and ?rd = "string_of_int rd"
  show ?thesis
    using assms(1)
  proof (cases rule: perform_on_clean[where c = c and call = ?call])
    case refused then show ?thesis using assms(4) by simp
  next
    case (admitted t)
    note eq = same_visible[OF admitted(3,4)]
    have ok: "hash_typed t (gameKey g)" "hash_typed t (gameScoreboardKey g p)" "hash_typed t (gameScoreSubmissionsKey g p)"
      using assms(3) eq by (simp_all add: hash_key_alive_def)
    have run0: "fst (body_of c ?call t) = Inr r" using assms(4) admitted(6) by simp
    note ev = body_of_def CONFIRM_SCORE_def confirmGuard_def confirm_keys_def Let_def run_simps admitted(1) ok
    have there: "present (core m) (roomKey c)"
    proof (rule ccontr)
      assume "\<not> present (core m) (roomKey c)"
      then have no: "\<not> present t (roomKey c)" using eq by simp
      consider "map_of (hash_fields t (gameKey g)) ''roomCode'' = None"
        | d where "map_of (hash_fields t (gameKey g)) ''roomCode'' = Some d" "d \<noteq> c"
        | "map_of (hash_fields t (gameKey g)) ''roomCode'' = Some c" by blast
      then show False by cases (use run0 no assms(5) in \<open>simp_all add: ev del: run_del\<close>)
    qed
    have pg: "present t (gameKey g)"
    proof (rule ccontr)
      assume "\<not> present t (gameKey g)"
      then have "hash_fields t (gameKey g) = []" by (simp add: present_def hash_fields_def)
      then show False using run0 assms(5) by (auto simp add: ev simp del: run_del)
    qed
    obtain x R P S B where st: "room_state c t x R P S B" "room_data_ok R P S B"
      using run_on_room[OF assms(2) there admitted(3,4)] by metis
    have keys: "keys_of S = keys_of P" using st(2) unfolding room_data_ok_def by blast
    obtain xg where xg: "key_expiry t (gameKey g) = Some xg" "xg \<le> now t + ROOM_TTL_MILLIS"
      using assms(3) pg eq admitted(4) by (auto simp: hash_key_alive_def split: option.splits)
    have sg: "is_safe_integer (xg - now t)" using safe_life[OF key_expiry_alive[OF xg(1)] xg(2)] .
    have d: "declares t (gameScoreboardKey g p)" "declares t (gameScoreSubmissionsKey g p)"
      using admitted(5) by (simp_all add: creatable_of_def CONFIRM_SCORE_def confirm_keys_def)
    have upd: "has_key P p \<Longrightarrow> keys_of (AList.update p v S) = keys_of P" for v
      unfolding has_key_iff keys_of_update keys by (rule insert_absorb)
    note run = CONFIRM_SCORE_run[OF admitted(1) st(1) ok d xg(1) sg keys, where rd = ?rd and cat = cat
            and sc = "string_of_int score" and up = "if upper then ''1'' else ''0''" and sig = sig]
    show ?thesis
    proof (cases "r = 0")
      case False
      then show ?thesis using run run0 assms(5) eq by (auto simp: body_of_def split: prod.splits if_split_asm)
    next
      case True
      let ?t' = "snd (body_of c ?call t)"
      have "\<exists>S'. room_state c ?t' x R P S' B \<and> keys_of S' = keys_of P
       \<and> map_of (hash_fields ?t' (gameKey g)) ''roomCode'' = Some c \<and> map_of R ''gameId'' = Some g
       \<and> map_of R ''phase'' = Some ''PLAYING'' \<and> has_key P p
       \<and> map_of (hash_fields ?t' (gameScoreSubmissionsKey g p)) ?rd = Some sig
       \<and> hash_typed ?t' (gameKey g) \<and> hash_typed ?t' (gameScoreboardKey g p) \<and> hash_typed ?t' (gameScoreSubmissionsKey g p)
       \<and> key_expiry ?t' (gameKey g) = Some xg \<and> now ?t' = now t
       \<and> present ?t' (gameScoreboardKey g p) \<and> present ?t' (gameScoreSubmissionsKey g p)
       \<and> map_of S' p = Some (total_written (string_of_int score) upper (hash_fields t (gameScoreboardKey g p)))
       \<and> \<not> has_key (hash_fields t (gameScoreboardKey g p)) cat \<and> hash_fields ?t' (gameScoreboardKey g p)
          = scoreboard_written cat (string_of_int score) upper (hash_fields t (gameScoreboardKey g p))"
        using run run0 upd True
        by (cases upper; intro exI[where x = "AList.update p (total_written (string_of_int score) upper
              (hash_fields t (gameScoreboardKey g p))) S"];
            simp add: body_of_def split: prod.splits if_split_asm)
      then obtain S' where f: "room_state c ?t' x R P S' B" "keys_of S' = keys_of P"
       "map_of (hash_fields ?t' (gameKey g)) ''roomCode'' = Some c" "map_of R ''gameId'' = Some g"
       "map_of R ''phase'' = Some ''PLAYING''" "has_key P p"
       "map_of (hash_fields ?t' (gameScoreSubmissionsKey g p)) ?rd = Some sig"
       "hash_typed ?t' (gameKey g)" "hash_typed ?t' (gameScoreboardKey g p)" "hash_typed ?t' (gameScoreSubmissionsKey g p)"
       "key_expiry ?t' (gameKey g) = Some xg" "now ?t' = now t"
       "present ?t' (gameScoreboardKey g p)" "present ?t' (gameScoreSubmissionsKey g p)"
       "map_of S' p = Some (total_written (string_of_int score) upper K)" "\<not> has_key K cat"
       "hash_fields ?t' (gameScoreboardKey g p) = scoreboard_written cat (string_of_int score) upper K"
        unfolding K_def eq(3)[symmetric] by blast
      note same = same_visible[OF admitted(7,8), folded m'_def]
      have "room_state c (core m') x R P S' B" using f(1) same by (simp add: room_state_def family_typed_def)
      then have "confirmed_state c g p ?rd sig (core m')"
        unfolding confirmed_state_def using f(2-14) same(2-5) admitted(8)[folded m'_def] xg(2)
        by (intro exI[of _ x] exI[of _ R] exI[of _ P] exI[of _ S'] exI[of _ B] exI[of _ xg]) simp
      then show ?thesis using True f(15-17) same(3) room_stateD(9)[OF f(1)] by simp
    qed
  qed
qed

lemma confirm_leaves:
  assumes "wf_store (core m)" and "room_inv c (core m)" and "call_ok c (core m) (CallConfirm g p rd cat score upper sig)"
    and "fst (perform c (CallConfirm g p rd cat score upper sig) m) = Inr r" and "r = 0 \<or> r = 5"
  defines "m' \<equiv> snd (perform c (CallConfirm g p rd cat score upper sig) m)"
  shows "if r = 0 then confirmed_state c g p (string_of_int rd) sig (core m')
    else map_of (hash_fields (core m) (gameScoreSubmissionsKey g p)) (string_of_int rd) = Some sig"
  using confirm_effect[OF assms(1-5)] by (auto simp: m'_def split: if_splits)

lemma confirm_again:
  fixes cat' sig' :: string and score' :: int and upper' :: bool
  assumes wf': "wf_store (core m')" and "confirmed_state c g p (string_of_int rd) sig (core m')"
  defines "again \<equiv> perform c (CallConfirm g p rd cat' score' upper' sig') m'"
  shows "fst again = Inr (if sig' = sig then 5 else 4)" and "visible (core (snd again)) = visible (core m')"
proof -
  let ?rd = "string_of_int rd"
  obtain x R P S B xg where a: "room_state c (core m') x R P S B" "keys_of S = keys_of P"
     "map_of (hash_fields (core m') (gameKey g)) ''roomCode'' = Some c" "map_of R ''gameId'' = Some g"
     "map_of R ''phase'' = Some ''PLAYING''" "has_key P p"
     "map_of (hash_fields (core m') (gameScoreSubmissionsKey g p)) ?rd = Some sig"
     "hash_typed (core m') (gameKey g)" "hash_typed (core m') (gameScoreboardKey g p)"
     "hash_typed (core m') (gameScoreSubmissionsKey g p)"
     "key_expiry (core m') (gameKey g) = Some xg" "xg \<le> now (core m') + ROOM_TTL_MILLIS"
     "present (core m') (gameScoreboardKey g p)" "present (core m') (gameScoreSubmissionsKey g p)"
    using assms(2) unfolding confirmed_state_def by (elim exE conjE) (rule that; assumption)
  let ?again = "CallConfirm g p rd cat' score' upper' sig'"
  have "fst (perform c ?again m') = Inr (if sig' = sig then 5 else 4)
      \<and> visible (core (snd (perform c ?again m'))) = visible (core m')"
    using wf'
  proof (cases rule: perform_on_clean[where c = c and call = ?again])
    case refused
    then show ?thesis using a(13,14) by (simp add: creatable_of_def CONFIRM_SCORE_def confirm_keys_def)
  next
    case (admitted t)
    note eq = same_visible[OF admitted(3,4)]
    have st: "room_state c t x R P S B" using a(1) eq by (simp add: room_state_def family_typed_def)
    have ty: "hash_typed t (gameKey g)" "hash_typed t (gameScoreboardKey g p)" "hash_typed t (gameScoreSubmissionsKey g p)"
      and xg: "key_expiry t (gameKey g) = Some xg" using a(8-11) eq by simp_all
    have "xg \<le> now t + ROOM_TTL_MILLIS" using a(12) admitted(4) by simp
    then have sg: "is_safe_integer (xg - now t)" using safe_life[OF key_expiry_alive[OF xg]] by blast
    have d: "declares t (gameScoreboardKey g p)" "declares t (gameScoreSubmissionsKey g p)"
      using admitted(5) by (simp_all add: creatable_of_def CONFIRM_SCORE_def confirm_keys_def)
    have "fst (body_of c ?again t) = Inr (if sig' = sig then 5 else 4) \<and> snd (body_of c ?again t) = t"
      using CONFIRM_SCORE_run[OF admitted(1) st ty d xg sg a(2), where rd = ?rd and cat = cat'
            and sc = "string_of_int score'" and up = "if upper' then ''1'' else ''0''" and sig = sig'] a(3-7) eq
      by (auto simp: body_of_def split: prod.splits if_split_asm)
    then show ?thesis using admitted(3,6,7) by simp
  qed
  then show "fst again = Inr (if sig' = sig then 5 else 4)" and "visible (core (snd again)) = visible (core m')"
    by (simp_all add: again_def)
qed

text \<open>
  C4: Confirming a score is idempotent per round. After a successful confirmation, a retry for the same
  round changes nothing that is visible: with the same request signature it is answered with code 5
  (treated as success), with any other signature, category or score with code 4.
\<close>
theorem confirmed_score_is_not_applied_twice:
  fixes cat' sig' :: string and score' :: int and upper' :: bool
  assumes "wf_store (core m)" and "room_inv c (core m)" and "call_ok c (core m) (CallConfirm g p rd cat score upper sig)"
    and "fst (perform c (CallConfirm g p rd cat score upper sig) m) = Inr 0"
  defines "m' \<equiv> snd (perform c (CallConfirm g p rd cat score upper sig) m)"
  defines "again \<equiv> perform c (CallConfirm g p rd cat' score' upper' sig') m'"
  shows "fst again = Inr (if sig' = sig then 5 else 4) \<and> visible (core (snd again)) = visible (core m')"
  using confirm_leaves[OF assms(1-4), simplified] perform_wf[OF assms(1)] unfolding again_def m'_def
  by (intro conjI confirm_again) auto

theorem confirmed_score_is_not_applied_twice_witness:
  "let m' = snd (perform ''ABC'' (CallConfirm ''g1'' ''u1'' 1 ''THREES'' 9 True ''s1'') \<lparr>core = busy_room, changes = 0\<rparr>)
   in fst (perform ''ABC'' (CallConfirm ''g1'' ''u1'' 1 ''THREES'' 9 True ''s1'') m') = Inr 5
    \<and> fst (perform ''ABC'' (CallConfirm ''g1'' ''u1'' 1 ''SIXES'' 24 True ''s2'') m') = Inr 4"
proof -
  let ?m = "\<lparr>core = busy_room, changes = 0\<rparr>" and ?call = "CallConfirm ''g1'' ''u1'' 1 ''THREES'' 9 True ''s1''"
  have 1: "fst (perform ''ABC'' ?call ?m) = Inr 0" by code_simp
  have 2: "call_ok ''ABC'' (core ?m) ?call" by code_simp
  have w: "wf_store (core ?m)" "room_inv ''ABC'' (core ?m)" using busy_room_inv by simp_all
  show ?thesis unfolding Let_def
    using confirmed_score_is_not_applied_twice[OF w 2 1] by simp
qed

end
