(* ===== verification/Score.thy ===== *)
theory Score
  imports Prelude
begin

text \<open>
  Scoring of the yacht game (\<open>game/score\<close>): the twelve categories and their tests
  (\<open>scoreCategory.ts\<close>), the score of a roll and the upper bonus
  (\<open>yachtScoreCalculator.ts\<close>), the score board (\<open>scoreBoard.ts\<close>) and its reading from a stored
  hash (\<open>scoreBoardMapper.ts\<close>).

  Dice are integers; the test \<open>Number.isInteger\<close> of \<open>validateDice\<close> holds by the type.
\<close>

section \<open>Categories\<close>

datatype score_category =
    Ones | Twos | Threes | Fours | Fives | Sixes
  | Choice | FourOfAKind | FullHouse | SmallStraight | LargeStraight | Yacht

datatype score_domain_error =
    UnknownCategory string
  | DiceNotFive
  | FaceOutOfRange
  | NegativeSummary
  | NegativeCategoryScore
  | BadUpperScore
  | NotAnInteger string

definition SCORE_CATEGORIES :: "score_category list" where
  "SCORE_CATEGORIES = [Ones, Twos, Threes, Fours, Fives, Sixes,
     Choice, FourOfAKind, FullHouse, SmallStraight, LargeStraight, Yacht]"

definition UPPER_CATEGORIES :: "score_category list" where
  "UPPER_CATEGORIES = [Ones, Twos, Threes, Fours, Fives, Sixes]"

text \<open>The key of a category on the wire, in the store and in responses.\<close>

fun apiKey :: "score_category \<Rightarrow> string" where
  "apiKey Ones = ''ones''"
| "apiKey Twos = ''twos''"
| "apiKey Threes = ''threes''"
| "apiKey Fours = ''fours''"
| "apiKey Fives = ''fives''"
| "apiKey Sixes = ''sixes''"
| "apiKey Choice = ''choice''"
| "apiKey FourOfAKind = ''fourOfAKind''"
| "apiKey FullHouse = ''fullHouse''"
| "apiKey SmallStraight = ''smallStraight''"
| "apiKey LargeStraight = ''largeStraight''"
| "apiKey Yacht = ''yacht''"

fun UPPER_FACE :: "score_category \<Rightarrow> int" where
  "UPPER_FACE Ones = 1"
| "UPPER_FACE Twos = 2"
| "UPPER_FACE Threes = 3"
| "UPPER_FACE Fours = 4"
| "UPPER_FACE Fives = 5"
| "UPPER_FACE Sixes = 6"
| "UPPER_FACE _ = 0"

definition isScoreCategory :: "string \<Rightarrow> bool" where
  "isScoreCategory v = (v \<in> set (map apiKey SCORE_CATEGORIES))"

definition isUpperCategory :: "score_category \<Rightarrow> bool" where
  "isUpperCategory cat = (cat \<in> set UPPER_CATEGORIES)"

definition scoreCategoryOf :: "string \<Rightarrow> score_domain_error + score_category" where
  "scoreCategoryOf key = (case List.find (\<lambda>cat. apiKey cat = key) SCORE_CATEGORIES of
     None \<Rightarrow> Inl (UnknownCategory key) | Some cat \<Rightarrow> Inr cat)"

section \<open>Dice\<close>

definition validateDice :: "int list \<Rightarrow> score_domain_error + unit" where
  "validateDice dice = (if length dice \<noteq> 5 then Inl DiceNotFive
     else if list_ex (\<lambda>die. die < 1 \<or> die > 6) dice then Inl FaceOutOfRange
     else Inr ())"

text \<open>The counters as a \<open>Map\<close> in order of first appearance.\<close>

definition counts :: "int list \<Rightarrow> (int \<times> nat) list" where
  "counts dice = foldl (\<lambda>result die. AList.update die
     ((case map_of result die of None \<Rightarrow> 0 | Some n \<Rightarrow> n) + 1) result) [] dice"

definition containsFace :: "int list \<Rightarrow> int \<Rightarrow> bool" where
  "containsFace dice face = (face \<in> set dice)"

definition isFourOfAKind :: "int list \<Rightarrow> bool" where
  "isFourOfAKind dice = list_ex (\<lambda>n. n \<ge> 4) (map snd (counts dice))"

definition isFullHouse :: "int list \<Rightarrow> bool" where
  "isFullHouse dice = (let ns = map snd (counts dice) in
     length ns = 2 \<and> 2 \<in> set ns \<and> 3 \<in> set ns)"

text \<open>The loop over the faces: \<open>run\<close> is the length of the run that ends before the next face.\<close>

fun run_loop :: "int list \<Rightarrow> nat \<Rightarrow> nat \<Rightarrow> int list \<Rightarrow> bool" where
  "run_loop dice len run [] = False"
| "run_loop dice len run (face # rest) =
     (let run' = (if face \<in> set dice then run + 1 else 0)
      in if run' \<ge> len then True else run_loop dice len run' rest)"

definition hasRun :: "int list \<Rightarrow> nat \<Rightarrow> bool" where
  "hasRun dice len = run_loop dice len 0 [1, 2, 3, 4, 5, 6]"

fun satisfied :: "score_category \<Rightarrow> int list \<Rightarrow> bool" where
  "satisfied Choice dice = True"
| "satisfied FourOfAKind dice = isFourOfAKind dice"
| "satisfied FullHouse dice = isFullHouse dice"
| "satisfied SmallStraight dice = hasRun dice 4"
| "satisfied LargeStraight dice = hasRun dice 5"
| "satisfied Yacht dice = (length (counts dice) = 1)"
| "satisfied cat dice = containsFace dice (UPPER_FACE cat)"

definition isSatisfiedBy :: "score_category \<Rightarrow> int list \<Rightarrow> score_domain_error + bool" where
  "isSatisfiedBy cat dice = (case validateDice dice of Inl e \<Rightarrow> Inl e
     | Inr _ \<Rightarrow> Inr (satisfied cat dice))"

definition upperFaceSum :: "score_category \<Rightarrow> int list \<Rightarrow> int" where
  "upperFaceSum cat dice = sum_list (filter (\<lambda>die. die = UPPER_FACE cat) dice)"

section \<open>The score of a roll\<close>

definition SMALL_STRAIGHT_SCORE :: int where "SMALL_STRAIGHT_SCORE = 15"
definition LARGE_STRAIGHT_SCORE :: int where "LARGE_STRAIGHT_SCORE = 30"
definition YACHT_SCORE :: int where "YACHT_SCORE = 50"
definition UPPER_BONUS_THRESHOLD :: int where "UPPER_BONUS_THRESHOLD = 63"
definition UPPER_BONUS_SCORE :: int where "UPPER_BONUS_SCORE = 35"

fun score_of :: "score_category \<Rightarrow> int list \<Rightarrow> int" where
  "score_of Choice dice = sum_list dice"
| "score_of FourOfAKind dice = sum_list dice"
| "score_of FullHouse dice = sum_list dice"
| "score_of SmallStraight dice = SMALL_STRAIGHT_SCORE"
| "score_of LargeStraight dice = LARGE_STRAIGHT_SCORE"
| "score_of Yacht dice = YACHT_SCORE"
| "score_of cat dice = upperFaceSum cat dice"

definition calculateScore :: "score_category \<Rightarrow> int list \<Rightarrow> score_domain_error + int" where
  "calculateScore cat dice = (case isSatisfiedBy cat dice of Inl e \<Rightarrow> Inl e
     | Inr ok \<Rightarrow> if \<not> ok then Inr 0 else Inr (score_of cat dice))"

text \<open>The scores by category, as a \<open>Map\<close>: a category may be missing or hold \<open>null\<close> (\<open>None\<close>).\<close>

type_synonym score_map = "(score_category \<times> int option) list"

fun upper_loop :: "score_map \<Rightarrow> int \<Rightarrow> score_category list \<Rightarrow> score_domain_error + int" where
  "upper_loop scores subtotal [] = Inr subtotal"
| "upper_loop scores subtotal (cat # cats) = (case map_of scores cat of
     None \<Rightarrow> upper_loop scores subtotal cats
   | Some None \<Rightarrow> Inl BadUpperScore
   | Some (Some score) \<Rightarrow> if score < 0 then Inl BadUpperScore
       else upper_loop scores (subtotal + score) cats)"

definition calculateUpperSubtotal :: "score_map \<Rightarrow> score_domain_error + int" where
  "calculateUpperSubtotal scores = upper_loop scores 0 UPPER_CATEGORIES"

definition calculateUpperBonus :: "score_map \<Rightarrow> score_domain_error + int" where
  "calculateUpperBonus scores = (case calculateUpperSubtotal scores of Inl e \<Rightarrow> Inl e
     | Inr n \<Rightarrow> Inr (if n \<ge> UPPER_BONUS_THRESHOLD then UPPER_BONUS_SCORE else 0))"

section \<open>The score board\<close>

record score_board =
  categories :: "score_category \<Rightarrow> int option"
  upperSubtotal :: int
  upperBonus :: int
  total_score :: int

text \<open>\<open>categories\<close> of the input maps arbitrary keys to a number, \<open>null\<close> or \<open>undefined\<close>; the last two
  are treated alike and are \<open>None\<close> here. The loop stops at the first negative score.\<close>

definition createScoreBoard :: "(score_category \<Rightarrow> int option) \<Rightarrow> int \<Rightarrow> int \<Rightarrow> int
    \<Rightarrow> score_domain_error + score_board" where
  "createScoreBoard cats subtotal bonus tot =
     (if subtotal < 0 \<or> bonus < 0 \<or> tot < 0 then Inl NegativeSummary
      else if list_ex (\<lambda>cat. case cats cat of None \<Rightarrow> False | Some n \<Rightarrow> n < 0) SCORE_CATEGORIES
        then Inl NegativeCategoryScore
      else Inr \<lparr>categories = cats, upperSubtotal = subtotal, upperBonus = bonus, total_score = tot\<rparr>)"

definition emptyScoreBoard :: score_board where
  "emptyScoreBoard = \<lparr>categories = (\<lambda>_. None), upperSubtotal = 0, upperBonus = 0, total_score = 0\<rparr>"

definition openCategoriesOf :: "score_board \<Rightarrow> score_category list" where
  "openCategoriesOf board = filter (\<lambda>cat. categories board cat = None) SCORE_CATEGORIES"

definition categoryScoreMap :: "score_board \<Rightarrow> score_map" where
  "categoryScoreMap board = map (\<lambda>cat. (cat, categories board cat)) SCORE_CATEGORIES"

section \<open>Reading a stored board\<close>

definition UPPER_SUBTOTAL_FIELD :: string where "UPPER_SUBTOTAL_FIELD = ''_upperSubtotal''"
definition UPPER_BONUS_FIELD :: string where "UPPER_BONUS_FIELD = ''_upperBonus''"
definition TOTAL_FIELD :: string where "TOTAL_FIELD = ''_total''"

definition integerValue :: "string option \<Rightarrow> int option \<Rightarrow> score_domain_error + int option" where
  "integerValue v dflt = (case v of None \<Rightarrow> Inr dflt
     | Some text \<Rightarrow> (case number_of_string text of None \<Rightarrow> Inl (NotAnInteger text)
         | Some n \<Rightarrow> Inr (Some n)))"

definition or_zero :: "int option \<Rightarrow> int" where
  "or_zero n = (case n of None \<Rightarrow> 0 | Some i \<Rightarrow> i)"

fun read_categories :: "(string \<times> string) list \<Rightarrow> score_category list
    \<Rightarrow> score_domain_error + (score_category \<Rightarrow> int option)" where
  "read_categories stored [] = Inr (\<lambda>_. None)"
| "read_categories stored (cat # cats) = (case integerValue (map_of stored (apiKey cat)) None of
     Inl e \<Rightarrow> Inl e
   | Inr v \<Rightarrow> (case read_categories stored cats of Inl e \<Rightarrow> Inl e
       | Inr rest \<Rightarrow> Inr (rest(cat := v))))"

definition scoreBoardFromHash :: "(string \<times> string) list \<Rightarrow> score_domain_error + score_board" where
  "scoreBoardFromHash stored = (case read_categories stored SCORE_CATEGORIES of Inl e \<Rightarrow> Inl e
     | Inr cats \<Rightarrow> (case integerValue (map_of stored UPPER_SUBTOTAL_FIELD) (Some 0) of Inl e \<Rightarrow> Inl e
     | Inr sub \<Rightarrow> (case integerValue (map_of stored UPPER_BONUS_FIELD) (Some 0) of Inl e \<Rightarrow> Inl e
     | Inr bonus \<Rightarrow> (case integerValue (map_of stored TOTAL_FIELD) (Some 0) of Inl e \<Rightarrow> Inl e
     | Inr tot \<Rightarrow> createScoreBoard cats (or_zero sub) (or_zero bonus) (or_zero tot)))))"

section \<open>The signature of a request\<close>

fun join_comma :: "string list \<Rightarrow> string" where
  "join_comma [] = ''''"
| "join_comma [x] = x"
| "join_comma (x # y # xs) = x @ '','' @ join_comma (y # xs)"

definition requestSignatureOf :: "score_category \<Rightarrow> int list \<Rightarrow> string" where
  "requestSignatureOf cat dice = apiKey cat @ '':'' @ join_comma (map string_of_int dice)"

section \<open>What the tests mean\<close>

lemma counts_snoc: "counts (xs @ [d]) = AList.update d ((case map_of (counts xs) d of None \<Rightarrow> 0 | Some n \<Rightarrow> n) + 1) (counts xs)"
  by (simp add: counts_def)

lemma map_of_counts: "map_of (counts dice) d = (if d \<in> set dice then Some (count (mset dice) d) else None)"
proof (induction dice rule: rev_induct)
  case (snoc x xs)
  have z: "x \<notin> set xs \<Longrightarrow> count (mset xs) x = 0" by (simp add: not_in_iff)
  show ?case using snoc z by (auto simp: counts_snoc)
qed (simp add: counts_def)

lemma wf_counts: "wf_map (counts dice)"
  by (induction dice rule: rev_induct) (simp_all add: counts_snoc, simp add: counts_def)

lemma keys_counts: "keys_of (counts dice) = set dice"
  by (induction dice rule: rev_induct) (auto simp: counts_snoc, auto simp: counts_def)

lemma length_counts: "length (counts dice) = card (set dice)"
  using size_wf_map[OF wf_counts] by (simp add: keys_counts)

lemma values_counts: "snd ` set (counts dice) = count (mset dice) ` set dice"
proof -
  have "(d, n) \<in> set (counts dice) \<longleftrightarrow> d \<in> set dice \<and> n = count (mset dice) d" for d n
    using map_of_eq_Some_iff[OF wf_counts, of dice d n] by (auto simp: map_of_counts split: if_splits)
  then show ?thesis by force
qed

lemma mset_support: "(\<And>x. x \<in> set dice \<Longrightarrow> count (mset dice) x = count M x) \<Longrightarrow> set dice = set_mset M \<Longrightarrow> mset dice = M"
  by (rule multiset_eqI) (metis count_inI set_mset_mset)

lemma size_on_support: "finite A \<Longrightarrow> set dice \<subseteq> A \<Longrightarrow> length dice = (\<Sum>x\<in>A. count (mset dice) x)"
  by (metis size_mset size_multiset_overloaded_eq sum.mono_neutral_left count_eq_zero_iff DiffD2 set_mset_mset)

lemma yacht_iff:
  assumes "length dice = 5"
  shows "length (counts dice) = 1 \<longleftrightarrow> (\<exists>a. mset dice = {#a, a, a, a, a#})"
proof
  assume "length (counts dice) = 1"
  then obtain a where a: "set dice = {a}" by (auto simp: length_counts card_1_singleton_iff)
  have "count (mset dice) a = 5" using size_on_support[of "{a}" dice] a assms by simp
  then show "\<exists>a. mset dice = {#a, a, a, a, a#}" using a by (intro exI[of _ a] mset_support) auto
next
  assume "\<exists>a. mset dice = {#a, a, a, a, a#}"
  then obtain a where "mset dice = {#a, a, a, a, a#}" ..
  then have "set dice = {a}" by (metis set_mset_mset set_mset_add_mset_insert set_mset_empty insert_absorb2)
  then show "length (counts dice) = 1" by (simp add: length_counts)
qed

lemma isFullHouse_iff:
  assumes "length dice = 5"
  shows "isFullHouse dice \<longleftrightarrow> (\<exists>a b. a \<noteq> b \<and> mset dice = {#a, a, a, b, b#})"
proof
  assume "isFullHouse dice"
  then have "card (set dice) = 2" and "2 \<in> count (mset dice) ` set dice" and "3 \<in> count (mset dice) ` set dice"
    by (auto simp: isFullHouse_def Let_def length_counts[symmetric] values_counts[symmetric])
  then obtain a b where ab: "a \<in> set dice" "count (mset dice) a = 3" "b \<in> set dice" "count (mset dice) b = 2"
    by auto
  then have "a \<noteq> b" by auto
  moreover have "set dice = {a, b}" using \<open>card (set dice) = 2\<close> ab \<open>a \<noteq> b\<close>
    by (metis card_2_iff empty_iff insert_iff doubleton_eq_iff)
  then have "mset dice = {#a, a, a, b, b#}" using ab \<open>a \<noteq> b\<close> by (intro mset_support) auto
  ultimately show "\<exists>a b. a \<noteq> b \<and> mset dice = {#a, a, a, b, b#}" by blast
next
  assume "\<exists>a b. a \<noteq> b \<and> mset dice = {#a, a, a, b, b#}"
  then obtain a b where ab: "a \<noteq> b" "mset dice = {#a, a, a, b, b#}" by blast
  have s: "set dice = {a, b}" using arg_cong[OF ab(2), of set_mset] by auto
  have "snd ` set (counts dice) = {3, 2}" using ab by (auto simp: values_counts s)
  moreover have "length (counts dice) = 2" using ab(1) by (simp add: length_counts s)
  ultimately show "isFullHouse dice" by (simp add: isFullHouse_def Let_def)
qed

lemma isFourOfAKind_iff:
  assumes "length dice = 5"
  shows "isFourOfAKind dice \<longleftrightarrow> (\<exists>a b. mset dice = {#a, a, a, a, b#})"
proof
  assume "isFourOfAKind dice"
  then obtain a where a: "a \<in> set dice" "count (mset dice) a \<ge> 4"
    using values_counts[of dice] by (auto simp: isFourOfAKind_def list_ex_iff)
  then have "{#a, a, a, a#} \<subseteq># mset dice" by (intro mset_subset_eqI) auto
  then obtain M where M: "mset dice = {#a, a, a, a#} + M" by (metis mset_subset_eq_exists_conv)
  have "length dice = size ({#a, a, a, a#} + M)" by (metis M size_mset)
  then have "size M = 1" using assms by simp
  then obtain b where "M = {#b#}" using size_1_singleton_mset by blast
  then show "\<exists>a b. mset dice = {#a, a, a, a, b#}" using M by (intro exI[of _ a] exI[of _ b]) (simp add: multiset_eq_iff)
next
  assume "\<exists>a b. mset dice = {#a, a, a, a, b#}"
  then obtain a b where ab: "mset dice = {#a, a, a, a, b#}" by blast
  have s: "set dice = {a, b}" using arg_cong[OF ab, of set_mset] by auto
  have "count (mset dice) a \<ge> 4" by (simp add: ab)
  moreover have "count (mset dice) a \<in> snd ` set (counts dice)" by (simp add: values_counts s)
  ultimately show "isFourOfAKind dice" unfolding isFourOfAKind_def list_ex_iff by (metis list.set_map)
qed

lemma straight_iff:
  "hasRun dice 4 \<longleftrightarrow> {1, 2, 3, 4} \<subseteq> set dice \<or> {2, 3, 4, 5} \<subseteq> set dice \<or> {3, 4, 5, 6} \<subseteq> set dice"
  "hasRun dice 5 \<longleftrightarrow> {1, 2, 3, 4, 5} \<subseteq> set dice \<or> {2, 3, 4, 5, 6} \<subseteq> set dice"
  by (auto simp: hasRun_def Let_def)

lemma upperFaceSum_count: "upperFaceSum cat dice = UPPER_FACE cat * int (count (mset dice) (UPPER_FACE cat))"
  by (induction dice) (auto simp: upperFaceSum_def algebra_simps)

lemma validateDice_ok: "validateDice dice = Inr () \<longleftrightarrow> length dice = 5 \<and> (\<forall>d \<in> set dice. 1 \<le> d \<and> d \<le> 6)"
  by (auto simp: validateDice_def list_ex_iff not_less) (metis not_less)+

text \<open>The rules of the game, on the multiset of the faces.\<close>

fun rule_score :: "score_category \<Rightarrow> int multiset \<Rightarrow> int" where
  "rule_score Choice M = sum_mset M"
| "rule_score FourOfAKind M = (if \<exists>a b. M = {#a, a, a, a, b#} then sum_mset M else 0)"
| "rule_score FullHouse M = (if \<exists>a b. a \<noteq> b \<and> M = {#a, a, a, b, b#} then sum_mset M else 0)"
| "rule_score SmallStraight M = (if \<exists>i. {i..i + 3} \<subseteq> set_mset M then 15 else 0)"
| "rule_score LargeStraight M = (if \<exists>i. {i..i + 4} \<subseteq> set_mset M then 30 else 0)"
| "rule_score Yacht M = (if \<exists>a. M = {#a, a, a, a, a#} then 50 else 0)"
| "rule_score cat M = UPPER_FACE cat * int (count M (UPPER_FACE cat))"

lemma run_in_range:
  assumes "\<forall>d \<in> set dice. 1 \<le> d \<and> d \<le> (6::int)"
  shows "(\<exists>i. {i..i + 3} \<subseteq> set dice) \<longleftrightarrow> hasRun dice 4"
    and "(\<exists>i. {i..i + 4} \<subseteq> set dice) \<longleftrightarrow> hasRun dice 5"
proof -
  have iv: "{i..i + 3} = {i, i + 1, i + 2, i + 3}" "{i..i + 4} = {i, i + 1, i + 2, i + 3, i + 4}" for i :: int by auto
  have "i = 1 \<or> i = 2 \<or> i = 3" if "{i..i + 3} \<subseteq> set dice" for i
  proof -
    have "1 \<le> i" "i + 3 \<le> 6" using that assms unfolding iv by (blast, blast)
    then show ?thesis by presburger
  qed
  then have "(\<exists>i. {i..i + 3} \<subseteq> set dice)
      \<longleftrightarrow> {1..1 + 3} \<subseteq> set dice \<or> {2..2 + 3} \<subseteq> set dice \<or> {3..3 + 3} \<subseteq> set dice" by blast
  then show "(\<exists>i. {i..i + 3} \<subseteq> set dice) \<longleftrightarrow> hasRun dice 4"
    unfolding straight_iff(1) iv by simp
  have "i = 1 \<or> i = 2" if "{i..i + 4} \<subseteq> set dice" for i
  proof -
    have "1 \<le> i" "i + 4 \<le> 6" using that assms unfolding iv by (blast, blast)
    then show ?thesis by presburger
  qed
  then have "(\<exists>i. {i..i + 4} \<subseteq> set dice) \<longleftrightarrow> {1..1 + 4} \<subseteq> set dice \<or> {2..2 + 4} \<subseteq> set dice" by blast
  then show "(\<exists>i. {i..i + 4} \<subseteq> set dice) \<longleftrightarrow> hasRun dice 5"
    unfolding straight_iff(2) iv by simp
qed

text \<open>
  C10: The server's score of a roll is the score the rules of the game give. A list that is not five dice or
  has a face outside one to six is an error, never zero points; otherwise every category scores by the
  multiset of faces alone (the order of the dice is irrelevant): the counted faces, the whole sum for
  choice, four of a kind and a full house of three and two different faces, and 15, 30, 50 for
  a run of four, a run of five and five equal faces.
\<close>
theorem calculateScore_meets_rules:
  "calculateScore cat dice =
    (if length dice \<noteq> 5 then Inl DiceNotFive
     else if \<exists>d \<in> set dice. d < 1 \<or> 6 < d then Inl FaceOutOfRange
     else Inr (rule_score cat (mset dice)))"
proof (cases "length dice = 5 \<and> (\<forall>d \<in> set dice. 1 \<le> d \<and> d \<le> 6)")
  case True
  then have v: "validateDice dice = Inr ()" by (simp add: validateDice_ok)
  have len: "length dice = 5" and range: "\<forall>d \<in> set dice. 1 \<le> d \<and> d \<le> 6" using True by auto
  have z: "UPPER_FACE cat \<notin> set dice \<Longrightarrow> count (mset dice) (UPPER_FACE cat) = 0" by (simp add: not_in_iff)
  have "(if satisfied cat dice then score_of cat dice else 0) = rule_score cat (mset dice)"
    using z by (cases cat) (simp_all cong: if_cong add: isFourOfAKind_iff[OF len] isFullHouse_iff[OF len] yacht_iff[OF len, simplified]
      run_in_range[OF range] SMALL_STRAIGHT_SCORE_def LARGE_STRAIGHT_SCORE_def YACHT_SCORE_def
      containsFace_def upperFaceSum_count sum_mset_sum_list)
  then show ?thesis using True v by (auto simp: calculateScore_def isSatisfiedBy_def not_less)
next
  case False
  then show ?thesis
    by (auto simp: calculateScore_def isSatisfiedBy_def validateDice_def list_ex_iff not_less not_le)
qed

lemma score_bounds:
  assumes "calculateScore cat dice = Inr n"
  shows "0 \<le> n" "n \<le> 50" "isUpperCategory cat \<Longrightarrow> n \<le> 5 * UPPER_FACE cat"
proof -
  obtain "length dice = 5" and range: "\<forall>d \<in> set dice. 1 \<le> d \<and> d \<le> 6"
    using assms by (auto simp: calculateScore_def isSatisfiedBy_def validateDice_def list_ex_iff not_less split: if_splits)
  have "0 \<le> sum_list dice" using range by (intro sum_list_nonneg) auto
  then have sum: "0 \<le> sum_list dice" "sum_list dice \<le> 30"
    using sum_list_mono[of dice id "\<lambda>_. 6"] range \<open>length dice = 5\<close> by (auto simp: sum_list_triv)
  have cnt: "count (mset dice) x \<le> 5" for x using \<open>length dice = 5\<close> count_le_length[of dice x] by (simp add: count_mset)
  have up: "0 \<le> upperFaceSum cat dice" "upperFaceSum cat dice \<le> 5 * UPPER_FACE cat"
    using cnt[of "UPPER_FACE cat"] by (cases cat; simp add: upperFaceSum_count)+
  have "n = 0 \<or> n = score_of cat dice"
    using assms by (auto simp: calculateScore_def isSatisfiedBy_def split: sum.splits if_splits)
  then show "0 \<le> n" "n \<le> 50" "isUpperCategory cat \<Longrightarrow> n \<le> 5 * UPPER_FACE cat"
    using sum up by (cases cat; auto simp: SMALL_STRAIGHT_SCORE_def LARGE_STRAIGHT_SCORE_def YACHT_SCORE_def
      isUpperCategory_def UPPER_CATEGORIES_def)+
qed

section \<open>Signatures\<close>

lemma digits_of_nat_chars: "c \<in> set (digits_of_nat n) \<Longrightarrow> c \<in> set decimal_digits"
proof (induction n rule: digits_of_nat.induct)
  case (1 n)
  have d: "decimal_digits ! (n mod 10) \<in> set decimal_digits"
    by (rule nth_mem) (simp add: decimal_digits_def)
  show ?case
  proof (cases "n < 10")
    case True
    then have "decimal_digits ! n \<in> set decimal_digits" by (intro nth_mem) (simp add: decimal_digits_def)
    then show ?thesis using 1 True by (simp add: digits_of_nat.simps[of n])
  next
    case False
    then show ?thesis using 1 d by (auto simp: digits_of_nat.simps[of n])
  qed
qed

lemma string_of_int_no_comma: "CHR '','' \<notin> set (string_of_int i)"
proof -
  have "CHR '','' \<notin> set (digits_of_nat n)" for n
    using digits_of_nat_chars[of "CHR '',''" n] by (auto simp: decimal_digits_def)
  then show ?thesis by (simp add: string_of_int_def)
qed

lemma append_separator:
  "c \<notin> set a \<Longrightarrow> c \<notin> set b \<Longrightarrow> a @ c # x = b @ c # y \<longleftrightarrow> a = b \<and> x = y"
proof (induction a arbitrary: b)
  case Nil
  then show ?case by (cases b) auto
next
  case (Cons d a)
  then show ?case by (cases b) auto
qed

lemma join_comma_inject:
  "\<lbrakk>\<forall>x \<in> set xs. x \<noteq> [] \<and> CHR '','' \<notin> set x; \<forall>y \<in> set ys. y \<noteq> [] \<and> CHR '','' \<notin> set y;
    join_comma xs = join_comma ys\<rbrakk> \<Longrightarrow> xs = ys"
proof (induction xs arbitrary: ys rule: join_comma.induct)
  case 1
  then show ?case by (cases ys rule: join_comma.cases) auto
next
  case (2 x)
  then show ?case by (cases ys rule: join_comma.cases) auto
next
  case (3 x y zs)
  show ?case
  proof (cases ys rule: join_comma.cases)
    case (3 u v ws)
    have "x = u \<and> join_comma (y # zs) = join_comma (v # ws)"
      using "3.prems" 3 append_separator[of "CHR '',''" x u] by simp
    then show ?thesis using "3.IH"[of "v # ws"] "3.prems" 3 by auto
  qed (use "3.prems" in auto)
qed

lemma apiKey_inject [simp]: "apiKey a = apiKey b \<longleftrightarrow> a = b"
  by (cases a; cases b; simp)

lemma apiKey_no_colon: "CHR '':'' \<notin> set (apiKey cat)"
  by (cases cat) auto

text \<open>The signature identifies the request: the category and the dice in their order.\<close>

lemma signature_inject:
  "requestSignatureOf cat dice = requestSignatureOf cat' dice' \<longleftrightarrow> cat = cat' \<and> dice = dice'"
proof
  assume "requestSignatureOf cat dice = requestSignatureOf cat' dice'"
  then have "apiKey cat = apiKey cat' \<and> join_comma (map string_of_int dice) = join_comma (map string_of_int dice')"
    using append_separator[OF apiKey_no_colon[of cat] apiKey_no_colon[of cat']] by (simp add: requestSignatureOf_def)
  then have "cat = cat'" and "map string_of_int dice = map string_of_int dice'"
    using join_comma_inject[of "map string_of_int dice" "map string_of_int dice'"] string_of_int_no_comma by auto
  then show "cat = cat' \<and> dice = dice'" using inj_map_eq_map[of string_of_int] by (simp add: inj_def)
qed simp

end
