(* ===== verification/ScoreBoards.thy ===== *)
theory ScoreBoards
  imports GameScripts Score
begin

text \<open>
  The stored score boards: the running totals that \<open>CONFIRM_SCORE\<close> (\<open>score/scripts.ts\<close>) keeps
  in the hash of a player against the batch computation of \<open>yachtScoreCalculator.ts\<close> on
  the board read back by \<open>scoreBoardMapper.ts\<close>.
\<close>

text \<open>Recording one score in the stored board, as \<open>CONFIRM_SCORE\<close> does when it is admitted.\<close>

definition record_score :: "score_category \<times> int \<Rightarrow> (string \<times> string) list \<Rightarrow> (string \<times> string) list" where
  "record_score entry K = scoreboard_written (apiKey (fst entry)) (string_of_int (snd entry))
     (isUpperCategory (fst entry)) K"

definition board_after :: "(score_category \<times> int) list \<Rightarrow> (string \<times> string) list" where
  "board_after rs = foldl (\<lambda>K entry. record_score entry K) [] rs"

definition upper_sum :: "(score_category \<times> int) list \<Rightarrow> int" where
  "upper_sum rs = sum_list (map snd (filter (isUpperCategory \<circ> fst) rs))"

definition bonus_for :: "int \<Rightarrow> int" where
  "bonus_for subtotal = (if subtotal \<ge> 63 then 35 else 0)"

lemma apiKey_not_meta [simp]:
  "apiKey cat \<noteq> ''_upperSubtotal''" "apiKey cat \<noteq> ''_upperBonus''" "apiKey cat \<noteq> ''_total''"
  "''_upperSubtotal'' \<noteq> apiKey cat" "''_upperBonus'' \<noteq> apiKey cat" "''_total'' \<noteq> apiKey cat"
  by (cases cat; simp)+

lemma stored_number_of_int [simp]: "stored_number (Some (string_of_int i)) = Some i"
  by (simp add: stored_number_def)

lemma record_score_fields:
  fixes cat :: score_category and n :: int
  assumes "stored_number (map_of K ''_upperSubtotal'') = Some sub"
    and "stored_number (map_of K ''_upperBonus'') = Some bonus"
    and "stored_number (map_of K ''_total'') = Some tot"
  defines "K' \<equiv> record_score (cat, n) K" and "sub' \<equiv> if isUpperCategory cat then sub + n else sub"
  shows "map_of K' (apiKey c) = (if c = cat then Some (string_of_int n) else map_of K (apiKey c))"
    and "stored_number (map_of K' ''_upperSubtotal'') = Some sub'"
    and "stored_number (map_of K' ''_upperBonus'') = Some (bonus_for sub')"
    and "stored_number (map_of K' ''_total'') = Some (tot + n + bonus_for sub' - bonus)"
  using assms by (auto simp: record_score_def scoreboard_written_def next_totals_def bonus_for_def Let_def
      set_fields_def split: if_splits)

lemma board_after_fields:
  "distinct (map fst rs) \<Longrightarrow> let K = board_after rs in
     (\<forall>cat. map_of K (apiKey cat) = map_option string_of_int (map_of rs cat))
   \<and> stored_number (map_of K ''_upperSubtotal'') = Some (upper_sum rs)
   \<and> stored_number (map_of K ''_upperBonus'') = Some (bonus_for (upper_sum rs))
   \<and> stored_number (map_of K ''_total'') = Some (sum_list (map snd rs) + bonus_for (upper_sum rs))"
proof (induction rs rule: rev_induct)
  case Nil
  have "number_of_string ''0'' = Some 0"
    by code_simp
  then show ?case by (simp add: board_after_def upper_sum_def bonus_for_def stored_number_def)
next
  case (snoc e rs)
  obtain cat n where e: "e = (cat, n)" by (cases e)
  have K: "board_after (rs @ [e]) = record_score (cat, n) (board_after rs)" by (simp add: board_after_def e)
  have us: "upper_sum (rs @ [e]) = (if isUpperCategory cat then upper_sum rs + n else upper_sum rs)"
    by (simp add: upper_sum_def e)
  have ih: "\<forall>cat. map_of (board_after rs) (apiKey cat) = map_option string_of_int (map_of rs cat)"
     "stored_number (map_of (board_after rs) ''_upperSubtotal'') = Some (upper_sum rs)"
     "stored_number (map_of (board_after rs) ''_upperBonus'') = Some (bonus_for (upper_sum rs))"
     "stored_number (map_of (board_after rs) ''_total'') = Some (sum_list (map snd rs) + bonus_for (upper_sum rs))"
    using snoc by (simp_all add: Let_def)
  note step = record_score_fields[OF ih(2-4), of cat n]
  have "map_of rs cat = None" using snoc.prems by (simp add: e map_of_eq_None_iff)
  then show ?case
    unfolding Let_def K us using step ih(1) by (auto simp: e map_add_def split: option.split)
qed

lemma integerValue_stored:
  "stored_number v = Some n \<Longrightarrow> \<exists>w. integerValue v (Some 0) = Inr w \<and> or_zero w = n"
proof -
  have "number_of_string ''0'' = Some 0"
    by code_simp
  then show "stored_number v = Some n \<Longrightarrow> \<exists>w. integerValue v (Some 0) = Inr w \<and> or_zero w = n"
    by (cases v) (auto simp: integerValue_def stored_number_def or_zero_def)
qed

lemma read_categories_ok:
  assumes "\<And>cat. cat \<in> set cats \<Longrightarrow> map_of K (apiKey cat) = map_option string_of_int (f cat)"
  shows "\<exists>g. read_categories K cats = Inr g \<and> (\<forall>cat. g cat = (if cat \<in> set cats then f cat else None))"
  using assms
proof (induction cats)
  case (Cons c cats)
  then obtain g where g: "read_categories K cats = Inr g" "\<forall>cat. g cat = (if cat \<in> set cats then f cat else None)"
    by auto
  have "integerValue (map_of K (apiKey c)) None = Inr (f c)"
    using Cons.prems[of c] by (auto simp: integerValue_def split: option.split)
  then show ?case using g by auto
qed simp

lemma all_categories: "cat \<in> set SCORE_CATEGORIES"
  by (cases cat) (simp_all add: SCORE_CATEGORIES_def)

lemma read_all_categories:
  assumes "\<And>cat. map_of K (apiKey cat) = map_option string_of_int (f cat)"
  shows "read_categories K SCORE_CATEGORIES = Inr f"
  using read_categories_ok[of SCORE_CATEGORIES K f] assms all_categories by (auto simp: fun_eq_iff)

lemma upper_loop_sum:
  assumes "distinct cats" and "\<forall>cat n. map_of rs cat = Some n \<longrightarrow> 0 \<le> n"
  shows "upper_loop (map (\<lambda>(cat, n). (cat, Some n)) rs) acc cats
    = Inr (acc + sum_list (map (\<lambda>cat. case map_of rs cat of None \<Rightarrow> 0 | Some n \<Rightarrow> n) cats))"
  using assms
proof (induction cats arbitrary: acc)
  case (Cons c cats)
  have "map_of (map (\<lambda>(cat, n). (cat, Some n)) rs) c = map_option Some (map_of rs c)"
    by (simp add: map_of_map)
  moreover have "map_of rs c = Some n \<Longrightarrow> \<not> n < 0" for n using Cons.prems(2) by (simp add: not_less)
  ultimately show ?case using Cons by (auto split: option.split)
qed simp

lemma upper_sum_by_category:
  "distinct (map fst rs) \<Longrightarrow> upper_sum rs
    = sum_list (map (\<lambda>cat. case map_of rs cat of None \<Rightarrow> 0 | Some n \<Rightarrow> n) UPPER_CATEGORIES)"
proof (induction rs)
  case (Cons e rs)
  obtain c n where e: "e = (c, n)" by (cases e)
  let ?f = "\<lambda>rs cat. case map_of rs cat of None \<Rightarrow> 0 | Some n \<Rightarrow> (n::int)"
  have none: "map_of rs c = None" using Cons.prems by (simp add: e map_of_eq_None_iff)
  have "sum_list (map (?f (e # rs)) UPPER_CATEGORIES)
      = sum_list (map (?f rs) UPPER_CATEGORIES) + (if isUpperCategory c then n else 0)"
    using none by (cases c) (simp_all add: e UPPER_CATEGORIES_def isUpperCategory_def)
  then show ?case using Cons by (auto simp: e upper_sum_def)
qed (simp add: upper_sum_def UPPER_CATEGORIES_def)

lemma upper_sum_nonneg: "\<forall>(cat, n) \<in> set rs. 0 \<le> n \<Longrightarrow> 0 \<le> upper_sum rs"
  by (induction rs) (auto simp: upper_sum_def)

text \<open>
  C11: The running totals of a stored board agree with a recount. When scores are recorded one by one in
  distinct categories by the arithmetic of \<open>CONFIRM_SCORE\<close>, reading the hash back gives
  a score board whose cells are exactly the recorded scores, whose upper subtotal and bonus are what
  \<open>calculateUpperSubtotal\<close> and \<open>calculateUpperBonus\<close> compute from the recorded cells (the bonus
  is counted once, in whatever order the cells are filled), whose total is the sum of all cells and the bonus,
  and whose open categories are those not recorded.
\<close>
theorem running_totals_match_recount:
  assumes "distinct (map fst rs)" and "\<forall>(cat, n) \<in> set rs. 0 \<le> n"
  shows "\<exists>board. scoreBoardFromHash (board_after rs) = Inr board
    \<and> categories board = map_of rs
    \<and> calculateUpperSubtotal (map (\<lambda>(cat, n). (cat, Some n)) rs) = Inr (upperSubtotal board)
    \<and> calculateUpperBonus (map (\<lambda>(cat, n). (cat, Some n)) rs) = Inr (upperBonus board)
    \<and> total_score board = sum_list (map snd rs) + upperBonus board
    \<and> openCategoriesOf board = filter (\<lambda>cat. cat \<notin> set (map fst rs)) SCORE_CATEGORIES"
proof -
  let ?K = "board_after rs"
  have K: "\<And>cat. map_of ?K (apiKey cat) = map_option string_of_int (map_of rs cat)"
    "stored_number (map_of ?K ''_upperSubtotal'') = Some (upper_sum rs)"
    "stored_number (map_of ?K ''_upperBonus'') = Some (bonus_for (upper_sum rs))"
    "stored_number (map_of ?K ''_total'') = Some (sum_list (map snd rs) + bonus_for (upper_sum rs))"
    using board_after_fields[OF assms(1)] by (simp_all add: Let_def)
  obtain a b c where abc: "integerValue (map_of ?K UPPER_SUBTOTAL_FIELD) (Some 0) = Inr a" "or_zero a = upper_sum rs"
    "integerValue (map_of ?K UPPER_BONUS_FIELD) (Some 0) = Inr b" "or_zero b = bonus_for (upper_sum rs)"
    "integerValue (map_of ?K TOTAL_FIELD) (Some 0) = Inr c" "or_zero c = sum_list (map snd rs) + bonus_for (upper_sum rs)"
    using K(2-4)[THEN integerValue_stored] unfolding UPPER_SUBTOTAL_FIELD_def UPPER_BONUS_FIELD_def TOTAL_FIELD_def by blast
  have nn: "\<forall>cat n. map_of rs cat = Some n \<longrightarrow> 0 \<le> n" using assms(2) by (auto dest: map_of_SomeD)
  have "0 \<le> sum_list (map snd rs)" using assms(2) by (intro sum_list_nonneg) auto
  then have cr: "createScoreBoard (map_of rs) (or_zero a) (or_zero b) (or_zero c)
      = Inr \<lparr>categories = map_of rs, upperSubtotal = or_zero a, upperBonus = or_zero b, total_score = or_zero c\<rparr>"
    using abc nn upper_sum_nonneg[OF assms(2)]
    by (auto simp: createScoreBoard_def list_ex_iff bonus_for_def not_less split: option.splits)
  have sub: "calculateUpperSubtotal (map (\<lambda>(cat, n). (cat, Some n)) rs) = Inr (upper_sum rs)"
    using upper_loop_sum[OF _ nn, of UPPER_CATEGORIES 0] upper_sum_by_category[OF assms(1)]
    by (simp add: calculateUpperSubtotal_def UPPER_CATEGORIES_def)
  show ?thesis
    using cr abc read_all_categories[OF K(1)]
    by (simp add: scoreBoardFromHash_def sub calculateUpperBonus_def bonus_for_def UPPER_BONUS_THRESHOLD_def
        UPPER_BONUS_SCORE_def openCategoriesOf_def map_of_eq_None_iff)
qed

theorem running_totals_match_recount_witness:
  "\<exists>board. scoreBoardFromHash (board_after [(Sixes, 24), (Yacht, 50), (Fives, 20), (Fours, 16), (Threes, 9)]) = Inr board
    \<and> total_score board = 154"
  using running_totals_match_recount[of "[(Sixes, 24), (Yacht, 50), (Fives, 20), (Fours, 16), (Threes, 9)]"]
  by (auto simp: calculateUpperBonus_def calculateUpperSubtotal_def UPPER_CATEGORIES_def UPPER_BONUS_THRESHOLD_def
      UPPER_BONUS_SCORE_def)

end
