(* ===== verification/ScoreService.thy ===== *)
theory ScoreService
  imports RoomTheorems ScoreBoards
begin

text \<open>
  The score pipeline on the store: \<open>RedisScoreBoardStore\<close> (\<open>scoreBoardStore.ts\<close>), the service that
  recomputes a score (\<open>scoreConfirmationService.ts\<close>) and the submission that runs it inside the
  round (\<open>scoreRoundSubmissionService.ts\<close>). Awaited calls run to their end: the atomic script is
  one step of the store and no other command of this request interleaves with it.
\<close>

section \<open>Errors\<close>

datatype score_reason =
    INVALID_CATEGORY | INVALID_DICE | GAME_NOT_FOUND | GAME_NOT_ACTIVE
  | PLAYER_NOT_IN_GAME | ROUND_ALREADY_SCORED | CATEGORY_ALREADY_USED | STORE_FAILURE

datatype command_fault = BlankGame | BlankPlayer | RoundBelowOne | BlankCategory

datatype service_error =
    ScoreConfirmationError score_reason
  | ScoreArgument command_fault
  | RedisFailed redis_error

type_synonym 'a service = "(memory_redis, service_error, 'a) cmd"

definition isScoreConfirmationError :: "service_error \<Rightarrow> score_reason option \<Rightarrow> bool" where
  "isScoreConfirmationError err reason = (case err of
     ScoreConfirmationError r \<Rightarrow> (case reason of None \<Rightarrow> True | Some r' \<Rightarrow> r = r')
   | _ \<Rightarrow> False)"

text \<open>A read command of \<open>MemoryRedis\<close>, and an atomic script, whose error is passed on.\<close>

definition redis_read :: "'a redis \<Rightarrow> 'a service" where
  "redis_read f m = (case f (core m) of (r, s) \<Rightarrow> (map_sum RedisFailed id r, m\<lparr>core := s\<rparr>))"

definition runAtomicNumber :: "int atomic_script \<Rightarrow> string list \<Rightarrow> redis_field list \<Rightarrow> int service" where
  "runAtomicNumber script keys args m = (case runAtomic script keys args m of (r, m') \<Rightarrow>
     (map_sum RedisFailed id r, m'))"

section \<open>The store of score boards\<close>

record score_confirmation =
  cf_gameId :: string
  cf_playerId :: string
  cf_roundNumber :: int
  cf_category :: score_category
  cf_score :: int
  cf_signature :: string

text \<open>Return code to reason; \<open>SUCCESS\<close> and \<open>IDEMPOTENT_RETRY\<close> pass.\<close>

definition raiseIfFailed :: "int \<Rightarrow> service_error + unit" where
  "raiseIfFailed result = (
     if result \<in> {0, 5} then Inr ()
     else if result \<in> {1, 2, 7, 8} then Inl (ScoreConfirmationError GAME_NOT_FOUND)
     else if result = 9 then Inl (ScoreConfirmationError GAME_NOT_ACTIVE)
     else if result = 3 then Inl (ScoreConfirmationError PLAYER_NOT_IN_GAME)
     else if result = 4 then Inl (ScoreConfirmationError ROUND_ALREADY_SCORED)
     else if result = 6 then Inl (ScoreConfirmationError CATEGORY_ALREADY_USED)
     else Inl (ScoreConfirmationError STORE_FAILURE))"

definition readScoreBoard :: "string \<Rightarrow> string \<Rightarrow> score_board service" where
  "readScoreBoard gameId playerId = andThen (redis_read (hgetall (gameScoreboardKey gameId playerId)))
     (\<lambda>stored. case scoreBoardFromHash stored of
        Inl e \<Rightarrow> throw (ScoreConfirmationError STORE_FAILURE)
      | Inr board \<Rightarrow> ret board)"

definition confirmScore :: "score_confirmation \<Rightarrow> score_board service" where
  "confirmScore conf = andThen (redis_read (hget (gameKey (cf_gameId conf)) (FStr ''roomCode'')))
     (\<lambda>found. case found of
        None \<Rightarrow> throw (ScoreConfirmationError GAME_NOT_FOUND)
      | Some roomCode \<Rightarrow> if blank roomCode then throw (ScoreConfirmationError GAME_NOT_FOUND)
          else andThen (runAtomicNumber CONFIRM_SCORE
                (confirm_keys roomCode (cf_gameId conf) (cf_playerId conf))
                [FStr roomCode, FStr (cf_gameId conf), FStr (cf_playerId conf),
                 FStr (string_of_int (cf_roundNumber conf)), FStr (apiKey (cf_category conf)),
                 FStr (string_of_int (cf_score conf)),
                 FStr (if isUpperCategory (cf_category conf) then ''1'' else ''0''),
                 FStr (cf_signature conf)])
             (\<lambda>result. case raiseIfFailed result of
                Inl e \<Rightarrow> throw e
              | Inr _ \<Rightarrow> readScoreBoard (cf_gameId conf) (cf_playerId conf)))"

definition findScoreBoard :: "string \<Rightarrow> string \<Rightarrow> score_board service" where
  "findScoreBoard gameId playerId = readScoreBoard gameId playerId"

section \<open>The confirmation service\<close>

record confirmation_command =
  cm_gameId :: string
  cm_playerId :: string
  cm_roundNumber :: int
  cm_category :: string
  cm_dice :: "int list"

record confirmation_result =
  cr_gameId :: string
  cr_playerId :: string
  cr_roundNumber :: int
  cr_category :: score_category
  cr_score :: int
  cr_scoreboard :: score_board

definition validateCommand :: "confirmation_command \<Rightarrow> service_error + unit" where
  "validateCommand command = (
     if blank (cm_gameId command) then Inl (ScoreArgument BlankGame)
     else if blank (cm_playerId command) then Inl (ScoreArgument BlankPlayer)
     else if cm_roundNumber command < 1 then Inl (ScoreArgument RoundBelowOne)
     else if blank (cm_category command) then Inl (ScoreArgument BlankCategory)
     else Inr ())"

definition confirm :: "confirmation_command \<Rightarrow> confirmation_result service" where
  "confirm command = (case validateCommand command of Inl e \<Rightarrow> throw e
   | Inr _ \<Rightarrow> (case scoreCategoryOf (cm_category command) of
       Inl e \<Rightarrow> throw (ScoreConfirmationError INVALID_CATEGORY)
     | Inr cat \<Rightarrow> (case calculateScore cat (cm_dice command) of
         Inl e \<Rightarrow> throw (ScoreConfirmationError INVALID_DICE)
       | Inr score \<Rightarrow>
           andThen (confirmScore \<lparr>cf_gameId = cm_gameId command, cf_playerId = cm_playerId command,
               cf_roundNumber = cm_roundNumber command, cf_category = cat, cf_score = score,
               cf_signature = requestSignatureOf cat (cm_dice command)\<rparr>)
             (\<lambda>board. ret \<lparr>cr_gameId = cm_gameId command, cr_playerId = cm_playerId command,
               cr_roundNumber = cm_roundNumber command, cr_category = cat, cr_score = score,
               cr_scoreboard = board\<rparr>))))"

definition openCategories :: "string \<Rightarrow> string \<Rightarrow> score_category list service" where
  "openCategories gameId playerId = andThen (findScoreBoard gameId playerId)
     (\<lambda>board. ret (openCategoriesOf board))"

section \<open>Lemmas\<close>

lemma scoreCategoryOf_apiKey [simp]: "scoreCategoryOf (apiKey cat) = Inr cat"
  by (cases cat) (simp_all add: scoreCategoryOf_def SCORE_CATEGORIES_def)

lemma scoreCategoryOf_Inr: "scoreCategoryOf key = Inr cat \<Longrightarrow> key = apiKey cat"
  by (auto simp: scoreCategoryOf_def find_Some_iff split: option.splits)

lemma redis_read_hget:
  assumes "hash_typed (core m) k"
  shows "redis_read (hget k (FStr f)) m
    = (Inr (map_of (hash_fields (core m) k) f), m\<lparr>core := snd (live k (core m))\<rparr>)"
  using hget_app[OF assms, of "FStr f"] by (simp add: redis_read_def)

lemma redis_read_hgetall:
  assumes "hash_typed (core m) k"
  shows "redis_read (hgetall k) m = (Inr (hash_fields (core m) k), m\<lparr>core := snd (live k (core m))\<rparr>)"
  using hgetall_app[OF assms] by (simp add: redis_read_def)

lemma runAtomicNumber_confirm:
  "runAtomicNumber CONFIRM_SCORE (confirm_keys c g p) [FStr c, FStr g, FStr p, FStr (string_of_int rd),
      FStr cat, FStr (string_of_int score), FStr (if upper then ''1'' else ''0''), FStr sig] m
   = (case perform c (CallConfirm g p rd cat score upper sig) m of (r, m') \<Rightarrow> (map_sum RedisFailed id r, m'))"
  by (simp add: runAtomicNumber_def perform_def runAtomic_def toSlots_def)

lemma wf_live: "wf_store s \<Longrightarrow> wf_store (snd (live k s))"
  by (rule wf.live)

lemma readScoreBoard_typed:
  assumes "hash_typed (core m) (gameScoreboardKey g p)"
  shows "fst (readScoreBoard g p m) = (case scoreBoardFromHash (hash_fields (core m) (gameScoreboardKey g p)) of
      Inl _ \<Rightarrow> Inl (ScoreConfirmationError STORE_FAILURE) | Inr board \<Rightarrow> Inr board)"
    and "core (snd (readScoreBoard g p m)) = snd (live (gameScoreboardKey g p) (core m))"
  using redis_read_hgetall[OF assms] by (auto simp: readScoreBoard_def split: sum.split)

lemma confirmed_state_visible:
  assumes "visible t = visible s" and "now t = now s"
  shows "confirmed_state c g p rd sig t = confirmed_state c g p rd sig s"
  using same_visible[OF assms] assms by (simp add: confirmed_state_def room_state_def family_typed_def)

lemma confirmed_stateD:
  assumes "confirmed_state c g p rd sig s"
  shows "hash_typed s (gameKey g)" "hash_typed s (gameScoreboardKey g p)"
    "map_of (hash_fields s (gameKey g)) ''roomCode'' = Some c"
  using assms unfolding confirmed_state_def by blast+

text \<open>The game-to-room lookup and the script, seen as one call on the room.\<close>

abbreviation call_of :: "score_confirmation \<Rightarrow> room_call" where
  "call_of conf \<equiv> CallConfirm (cf_gameId conf) (cf_playerId conf) (cf_roundNumber conf) (apiKey (cf_category conf))
     (cf_score conf) (isUpperCategory (cf_category conf)) (cf_signature conf)"

lemma confirmScore_as_call:
  assumes "hash_typed (core m) (gameKey (cf_gameId conf))" and "\<not> blank c"
    and "map_of (hash_fields (core m) (gameKey (cf_gameId conf))) ''roomCode'' = Some c"
  defines "m0 \<equiv> m\<lparr>core := snd (live (gameKey (cf_gameId conf)) (core m))\<rparr>"
  shows "confirmScore conf m = (case perform c (call_of conf) m0 of
      (Inl e, m') \<Rightarrow> (Inl (RedisFailed e), m')
    | (Inr result, m') \<Rightarrow> (case raiseIfFailed result of Inl e \<Rightarrow> (Inl e, m')
        | Inr _ \<Rightarrow> readScoreBoard (cf_gameId conf) (cf_playerId conf) m'))"
  unfolding confirmScore_def andThen_def redis_read_hget[OF assms(1)] assms(3)
  using assms(2) by (auto simp: runAtomicNumber_confirm m0_def andThen_def split: prod.splits sum.splits)

lemma confirmScore_again:
  assumes "wf_store (core m)" and "\<not> blank c"
    and st: "confirmed_state c (cf_gameId conf) (cf_playerId conf) (string_of_int (cf_roundNumber conf)) sig (core m)"
  shows "fst (confirmScore conf m) = (if cf_signature conf = sig
      then fst (readScoreBoard (cf_gameId conf) (cf_playerId conf) m)
      else Inl (ScoreConfirmationError ROUND_ALREADY_SCORED))"
    and "visible (core (snd (confirmScore conf m))) = visible (core m)"
proof -
  note D = confirmed_stateD[OF st]
  define m0 where "m0 = m\<lparr>core := snd (live (gameKey (cf_gameId conf)) (core m))\<rparr>"
  have m0: "visible (core m0) = visible (core m)" "now (core m0) = now (core m)" "wf_store (core m0)"
    using wf_live[OF assms(1)] by (simp_all add: m0_def)
  have st0: "confirmed_state c (cf_gameId conf) (cf_playerId conf) (string_of_int (cf_roundNumber conf)) sig (core m0)"
    using st confirmed_state_visible[OF m0(1,2)] by simp
  obtain r m' where p: "perform c (call_of conf) m0 = (r, m')" by (cases "perform c (call_of conf) m0")
  have r: "r = Inr (if cf_signature conf = sig then 5 else 4)" and v: "visible (core m') = visible (core m)"
    using confirm_again[OF m0(3) st0, of "apiKey (cf_category conf)" "cf_score conf"
        "isUpperCategory (cf_category conf)" "cf_signature conf"] p m0(1) by simp_all
  have f: "hash_fields (core m') k = hash_fields (core m) k" "hash_typed (core m') k = hash_typed (core m) k" for k
    using v by (simp_all add: hash_fields_def hash_typed_def)
  have e: "confirmScore conf m = (case raiseIfFailed (if cf_signature conf = sig then 5 else 4) of
      Inl e \<Rightarrow> (Inl e, m') | Inr _ \<Rightarrow> readScoreBoard (cf_gameId conf) (cf_playerId conf) m')"
    using confirmScore_as_call[OF D(1) assms(2) D(3)] p r by (simp add: m0_def)
  show "fst (confirmScore conf m) = (if cf_signature conf = sig
      then fst (readScoreBoard (cf_gameId conf) (cf_playerId conf) m)
      else Inl (ScoreConfirmationError ROUND_ALREADY_SCORED))"
    using e D(2) f by (simp add: raiseIfFailed_def readScoreBoard_typed)
  show "visible (core (snd (confirmScore conf m))) = visible (core m)"
    using e D(2) f v by (simp add: raiseIfFailed_def readScoreBoard_typed)
qed

lemma confirm_valid:
  assumes "validateCommand command = Inr ()" and "cm_category command = apiKey cat"
    and "calculateScore cat (cm_dice command) = Inr score"
  shows "confirm command = andThen (confirmScore \<lparr>cf_gameId = cm_gameId command, cf_playerId = cm_playerId command,
               cf_roundNumber = cm_roundNumber command, cf_category = cat, cf_score = score,
               cf_signature = requestSignatureOf cat (cm_dice command)\<rparr>)
             (\<lambda>board. ret \<lparr>cr_gameId = cm_gameId command, cr_playerId = cm_playerId command,
               cr_roundNumber = cm_roundNumber command, cr_category = cat, cr_score = score,
               cr_scoreboard = board\<rparr>)"
  using assms by (simp add: confirm_def)

lemma confirm_success:
  assumes "confirm command m = (Inr result, m1)"
  obtains cat score where "validateCommand command = Inr ()" "cm_category command = apiKey cat"
    "calculateScore cat (cm_dice command) = Inr score" "cr_category result = cat" "cr_score result = score"
    "confirmScore \<lparr>cf_gameId = cm_gameId command, cf_playerId = cm_playerId command,
        cf_roundNumber = cm_roundNumber command, cf_category = cat, cf_score = score,
        cf_signature = requestSignatureOf cat (cm_dice command)\<rparr> m = (Inr (cr_scoreboard result), m1)"
    "result = \<lparr>cr_gameId = cm_gameId command, cr_playerId = cm_playerId command,
        cr_roundNumber = cm_roundNumber command, cr_category = cat, cr_score = score,
        cr_scoreboard = cr_scoreboard result\<rparr>"
  using assms scoreCategoryOf_Inr
  by (fastforce simp: confirm_def andThen_def split: sum.splits prod.splits)

text \<open>After the first successful confirmation of a round.\<close>

lemma confirmScore_first:
  assumes "wf_store (core m)" and "room_inv c (core m)" and "\<not> blank c"
    and ok: "call_ok c (core m) (call_of conf)"
    and rc: "map_of (hash_fields (core m) (gameKey (cf_gameId conf))) ''roomCode'' = Some c"
    and fresh: "map_of (hash_fields (core m) (gameScoreSubmissionsKey (cf_gameId conf) (cf_playerId conf)))
        (string_of_int (cf_roundNumber conf)) = None"
    and res: "confirmScore conf m = (Inr board, m1)"
  shows "wf_store (core m1)"
    and "confirmed_state c (cf_gameId conf) (cf_playerId conf) (string_of_int (cf_roundNumber conf)) (cf_signature conf) (core m1)"
    and "fst (readScoreBoard (cf_gameId conf) (cf_playerId conf) m1) = Inr board"
    and "\<not> has_key (hash_fields (core m) (gameScoreboardKey (cf_gameId conf) (cf_playerId conf))) (apiKey (cf_category conf))"
    and "hash_fields (core m1) (gameScoreboardKey (cf_gameId conf) (cf_playerId conf))
      = scoreboard_written (apiKey (cf_category conf)) (string_of_int (cf_score conf)) (isUpperCategory (cf_category conf))
          (hash_fields (core m) (gameScoreboardKey (cf_gameId conf) (cf_playerId conf)))"
    and "map_of (hash_fields (core m1) (scoresKey c)) (cf_playerId conf)
      = Some (total_written (string_of_int (cf_score conf)) (isUpperCategory (cf_category conf))
          (hash_fields (core m) (gameScoreboardKey (cf_gameId conf) (cf_playerId conf))))"
proof -
  define m0 where "m0 = m\<lparr>core := snd (live (gameKey (cf_gameId conf)) (core m))\<rparr>"
  have m0: "visible (core m0) = visible (core m)" "now (core m0) = now (core m)" "wf_store (core m0)"
    using wf_live[OF assms(1)] by (simp_all add: m0_def)
  note eq0 = same_visible[OF m0(1,2)]
  obtain r m' where p: "perform c (call_of conf) m0 = (r, m')" by (cases "perform c (call_of conf) m0")
  have t: "hash_typed (core m) (gameKey (cf_gameId conf))" using ok by (simp add: hash_key_alive_def)
  obtain n where n: "r = Inr n" "n = 0 \<or> n = 5" "readScoreBoard (cf_gameId conf) (cf_playerId conf) m' = (Inr board, m1)"
    using res unfolding confirmScore_as_call[OF t assms(3) rc] m0_def[symmetric] p
    by (auto simp: raiseIfFailed_def split: sum.splits if_splits)
  let ?K = "hash_fields (core m) (gameScoreboardKey (cf_gameId conf) (cf_playerId conf))"
  have "if n = 0 then confirmed_state c (cf_gameId conf) (cf_playerId conf) (string_of_int (cf_roundNumber conf))
        (cf_signature conf) (core m') \<and> \<not> has_key ?K (apiKey (cf_category conf))
        \<and> hash_fields (core m') (gameScoreboardKey (cf_gameId conf) (cf_playerId conf))
          = scoreboard_written (apiKey (cf_category conf)) (string_of_int (cf_score conf)) (isUpperCategory (cf_category conf)) ?K
        \<and> map_of (hash_fields (core m') (scoresKey c)) (cf_playerId conf)
          = Some (total_written (string_of_int (cf_score conf)) (isUpperCategory (cf_category conf)) ?K)
      else map_of (hash_fields (core m0) (gameScoreSubmissionsKey (cf_gameId conf) (cf_playerId conf)))
        (string_of_int (cf_roundNumber conf)) = Some (cf_signature conf)"
    using confirm_effect[OF m0(3), of c] assms(2) ok eq0 p n(1,2) by (metis fst_conv snd_conv)
  then have st: "confirmed_state c (cf_gameId conf) (cf_playerId conf) (string_of_int (cf_roundNumber conf))
      (cf_signature conf) (core m')"
    and written: "\<not> has_key ?K (apiKey (cf_category conf))"
      "hash_fields (core m') (gameScoreboardKey (cf_gameId conf) (cf_playerId conf))
        = scoreboard_written (apiKey (cf_category conf)) (string_of_int (cf_score conf)) (isUpperCategory (cf_category conf)) ?K"
      "map_of (hash_fields (core m') (scoresKey c)) (cf_playerId conf)
        = Some (total_written (string_of_int (cf_score conf)) (isUpperCategory (cf_category conf)) ?K)"
    using fresh eq0 by (auto split: if_splits)
  note typed = confirmed_stateD(2)[OF st]
  have m1: "core m1 = snd (live (gameScoreboardKey (cf_gameId conf) (cf_playerId conf)) (core m'))"
    using readScoreBoard_typed(2)[OF typed] n(3) by simp
  have v: "visible (core m1) = visible (core m')" "now (core m1) = now (core m')" by (simp_all add: m1)
  show st1: "confirmed_state c (cf_gameId conf) (cf_playerId conf) (string_of_int (cf_roundNumber conf)) (cf_signature conf) (core m1)"
    using st confirmed_state_visible[OF v] by simp
  have "wf_store (core m')" using perform_wf[OF m0(3), of c "call_of conf"] p by simp
  then show "wf_store (core m1)" using wf_live m1 by simp
  show "fst (readScoreBoard (cf_gameId conf) (cf_playerId conf) m1) = Inr board"
    using readScoreBoard_typed(1)[OF confirmed_stateD(2)[OF st1]] readScoreBoard_typed(1)[OF typed] n(3)
      same_visible(3)[OF v] by simp
  show "\<not> has_key ?K (apiKey (cf_category conf))" by (rule written(1))
  show "hash_fields (core m1) (gameScoreboardKey (cf_gameId conf) (cf_playerId conf))
      = scoreboard_written (apiKey (cf_category conf)) (string_of_int (cf_score conf)) (isUpperCategory (cf_category conf)) ?K"
    "map_of (hash_fields (core m1) (scoresKey c)) (cf_playerId conf)
      = Some (total_written (string_of_int (cf_score conf)) (isUpperCategory (cf_category conf)) ?K)"
    using written(2,3) same_visible(3)[OF v] by simp_all
qed

text \<open>The cells and the total of the written board, and a board that was read back.\<close>

lemma scoreboard_written_cell:
  "map_of (scoreboard_written (apiKey cat) sc upper K) (apiKey c)
    = (if c = cat then Some sc else map_of K (apiKey c))"
  by (auto simp: scoreboard_written_def set_fields_def split: prod.split)

lemma scoreboard_written_total:
  "map_of (scoreboard_written (apiKey cat) sc upper K) ''_total'' = Some (total_written sc upper K)"
  by (auto simp: scoreboard_written_def total_written_def set_fields_def split: prod.split)

lemma read_categories_cell:
  "read_categories K cats = Inr f \<Longrightarrow> cat \<in> set cats \<Longrightarrow> map_of K (apiKey cat) = Some (string_of_int n) \<Longrightarrow>
    f cat = Some n"
  by (induction cats arbitrary: f) (auto simp: integerValue_def split: sum.splits)

lemma board_cell:
  assumes "scoreBoardFromHash K = Inr board" and "map_of K (apiKey cat) = Some (string_of_int n)"
  shows "categories board cat = Some n"
  using assms read_categories_cell[OF _ all_categories assms(2)]
  by (auto simp: scoreBoardFromHash_def createScoreBoard_def split: sum.splits if_splits)

text \<open>
  C12: The score of a round is confirmed once, end to end. When a submission is the first of its round and succeeds,
  the score it answers is the one the server computes from the dice for the named category, and this score is
  what is recorded: the cell of the category, which was empty, holds it in the stored board, every other cell is
  as before, the room shows the new total of the board, and the score board of the answer is the stored one, with
  this score in this category. Sending the same
  submission again is answered with the same result and changes nothing that is visible in the store, and
  any other category or dice for this round is refused with \<open>ROUND_ALREADY_SCORED\<close>, again changing
  nothing.
\<close>
theorem round_is_scored_once:
  fixes command :: confirmation_command and m m1 :: memory_redis
  defines "g \<equiv> cm_gameId command" and "p \<equiv> cm_playerId command"
  defines "cell \<equiv> \<lambda>m cat. map_of (hash_fields (core m) (gameScoreboardKey g p)) (apiKey cat)"
  defines "other \<equiv> \<lambda>cat dice. confirm (command\<lparr>cm_category := apiKey cat, cm_dice := dice\<rparr>) m1"
  assumes "wf_store (core m)" and "room_inv c (core m)" and "\<not> blank c"
    and "hash_key_alive (core m) (gameKey g)" and "hash_typed (core m) (gameScoreboardKey g p)"
    and "hash_typed (core m) (gameScoreSubmissionsKey g p)"
    and "map_of (hash_fields (core m) (gameKey g)) ''roomCode'' = Some c"
    and "map_of (hash_fields (core m) (gameScoreSubmissionsKey g p)) (string_of_int (cm_roundNumber command)) = None"
    and "confirm command m = (Inr result, m1)"
  shows "apiKey (cr_category result) = cm_category command
      \<and> calculateScore (cr_category result) (cm_dice command) = Inr (cr_score result)
      \<and> cell m (cr_category result) = None
      \<and> (\<forall>cat. cell m1 cat = (if cat = cr_category result then Some (string_of_int (cr_score result)) else cell m cat))
      \<and> map_of (hash_fields (core m1) (scoresKey c)) p = map_of (hash_fields (core m1) (gameScoreboardKey g p)) ''_total''
      \<and> scoreBoardFromHash (hash_fields (core m1) (gameScoreboardKey g p)) = Inr (cr_scoreboard result)
      \<and> categories (cr_scoreboard result) (cr_category result) = Some (cr_score result)
      \<and> fst (confirm command m1) = Inr result \<and> visible (core (snd (confirm command m1))) = visible (core m1)
      \<and> (\<forall>cat dice n. calculateScore cat dice = Inr n \<and> (cat \<noteq> cr_category result \<or> dice \<noteq> cm_dice command)
          \<longrightarrow> fst (other cat dice) = Inl (ScoreConfirmationError ROUND_ALREADY_SCORED)
            \<and> visible (core (snd (other cat dice))) = visible (core m1))"
proof -
  obtain cat score where s: "validateCommand command = Inr ()" "cm_category command = apiKey cat"
    "calculateScore cat (cm_dice command) = Inr score" "cr_category result = cat" "cr_score result = score"
    "confirmScore \<lparr>cf_gameId = g, cf_playerId = p, cf_roundNumber = cm_roundNumber command, cf_category = cat,
        cf_score = score, cf_signature = requestSignatureOf cat (cm_dice command)\<rparr> m = (Inr (cr_scoreboard result), m1)"
    "result = \<lparr>cr_gameId = cm_gameId command, cr_playerId = cm_playerId command,
        cr_roundNumber = cm_roundNumber command, cr_category = cat, cr_score = score,
        cr_scoreboard = cr_scoreboard result\<rparr>"
    using confirm_success[OF assms(13)] unfolding g_def p_def by metis
  note first = confirmScore_first[OF assms(5-7) _ _ _ s(6), simplified, OF _ assms(11,12)]
  have ok: "hash_key_alive (core m) (gameKey g) \<and> hash_typed (core m) (gameScoreboardKey g p)
      \<and> hash_typed (core m) (gameScoreSubmissionsKey g p)" using assms(8-10) by simp
  have again: "fst (confirmScore conf m1) = (if cf_signature conf = requestSignatureOf cat (cm_dice command)
        then Inr (cr_scoreboard result) else Inl (ScoreConfirmationError ROUND_ALREADY_SCORED))"
      "visible (core (snd (confirmScore conf m1))) = visible (core m1)"
    if "cf_gameId conf = g" "cf_playerId conf = p" "cf_roundNumber conf = cm_roundNumber command" for conf
    using confirmScore_again[OF first(1)[OF ok] assms(7), of conf] first(2,3)[OF ok] that by simp_all
  have same: "fst (confirm command m1) = Inr result \<and> visible (core (snd (confirm command m1))) = visible (core m1)"
    using again s(7) unfolding confirm_valid[OF s(1-3)] andThen_app g_def p_def by (simp split: sum.split)
  moreover have "fst (other cat' dice) = Inl (ScoreConfirmationError ROUND_ALREADY_SCORED)
      \<and> visible (core (snd (other cat' dice))) = visible (core m1)"
    if "calculateScore cat' dice = Inr n" "cat' \<noteq> cat \<or> dice \<noteq> cm_dice command" for cat' dice n
  proof -
    let ?cmd = "command\<lparr>cm_category := apiKey cat', cm_dice := dice\<rparr>"
    have "\<not> blank (apiKey cat')" by (cases cat') (simp_all add: blank_def is_blank_char_def Let_def)
    then have v: "validateCommand ?cmd = Inr ()" using s(1) by (auto simp: validateCommand_def split: if_splits)
    show ?thesis
      using again that signature_inject confirm_valid[OF v, of cat' n]
      unfolding other_def by (simp add: andThen_app g_def p_def)
  qed
  moreover have "cell m cat = None" using first(4)[OF ok] by (simp add: cell_def has_key_def)
  moreover have cells: "cell m1 cat' = (if cat' = cat then Some (string_of_int score) else cell m cat')" for cat'
    unfolding cell_def first(5)[OF ok] by (rule scoreboard_written_cell)
  moreover have "map_of (hash_fields (core m1) (scoresKey c)) p = map_of (hash_fields (core m1) (gameScoreboardKey g p)) ''_total''"
    unfolding first(5,6)[OF ok] scoreboard_written_total ..
  moreover have board: "scoreBoardFromHash (hash_fields (core m1) (gameScoreboardKey g p)) = Inr (cr_scoreboard result)"
    using first(3)[OF ok] readScoreBoard_typed(1)[OF confirmed_stateD(2)[OF first(2)[OF ok]]] by (auto split: sum.splits)
  moreover have "categories (cr_scoreboard result) cat = Some score"
    using board_cell[OF board] cells[of cat] by (simp add: cell_def)
  ultimately show ?thesis
    unfolding s(4,5) by (intro conjI allI impI) (use s(2,3) in \<open>simp_all add: s(2)\<close>)
qed

definition busy_command :: confirmation_command where
  "busy_command = \<lparr>cm_gameId = ''g1'', cm_playerId = ''u1'', cm_roundNumber = 1, cm_category = ''threes'',
     cm_dice = [3, 3, 1, 3, 6]\<rparr>"

theorem round_is_scored_once_witness:
  "fst (confirm (busy_command\<lparr>cm_category := apiKey Sixes, cm_dice := [6, 6, 1, 2, 3]\<rparr>)
      (snd (confirm busy_command \<lparr>core = busy_room, changes = 0\<rparr>)))
    = Inl (ScoreConfirmationError ROUND_ALREADY_SCORED)
   \<and> map_of (hash_fields (core (snd (confirm busy_command \<lparr>core = busy_room, changes = 0\<rparr>)))
       (gameScoreboardKey ''g1'' ''u1'')) (apiKey Threes) = Some (string_of_int 9)"
proof -
  let ?m = "\<lparr>core = busy_room, changes = 0\<rparr>"
  obtain result m1 where run: "confirm busy_command ?m = (Inr result, m1)" and m1: "m1 = snd (confirm busy_command ?m)"
  proof -
    have "case fst (confirm busy_command ?m) of Inl _ \<Rightarrow> False | Inr _ \<Rightarrow> True" by code_simp
    then show thesis using that by (cases "confirm busy_command ?m") (auto split: sum.splits)
  qed
  have h: "\<not> blank ''ABC''" "hash_key_alive (core ?m) (gameKey (cm_gameId busy_command))"
    "hash_typed (core ?m) (gameScoreboardKey (cm_gameId busy_command) (cm_playerId busy_command))"
    "hash_typed (core ?m) (gameScoreSubmissionsKey (cm_gameId busy_command) (cm_playerId busy_command))"
    "map_of (hash_fields (core ?m) (gameKey (cm_gameId busy_command))) ''roomCode'' = Some ''ABC''"
    "map_of (hash_fields (core ?m) (gameScoreSubmissionsKey (cm_gameId busy_command) (cm_playerId busy_command)))
        (string_of_int (cm_roundNumber busy_command)) = None"
    by code_simp+
  have w: "wf_store (core ?m)" "room_inv ''ABC'' (core ?m)" using busy_room_inv by simp_all
  have "calculateScore Sixes [6, 6, 1, 2, 3] = Inr 12" by code_simp
  have "[6, 6, 1, 2, 3] \<noteq> cm_dice busy_command" by (simp add: busy_command_def)
  note all = round_is_scored_once[OF w h run]
  have cat: "cr_category result = Threes"
    using all by (cases "cr_category result") (simp_all add: busy_command_def)
  have "calculateScore Threes [3, 3, 1, 3, 6] = Inr 9" by code_simp
  then have "cr_score result = 9" using all by (simp add: cat busy_command_def)
  moreover have "map_of (hash_fields (core m1) (gameScoreboardKey (cm_gameId busy_command) (cm_playerId busy_command)))
      (apiKey (cr_category result)) = Some (string_of_int (cr_score result))"
    using all by (metis (full_types))
  ultimately have "map_of (hash_fields (core m1) (gameScoreboardKey ''g1'' ''u1'')) (apiKey Threes) = Some (string_of_int 9)"
    by (simp add: cat busy_command_def)
  then show ?thesis using all \<open>calculateScore Sixes [6, 6, 1, 2, 3] = Inr 12\<close> \<open>[6, 6, 1, 2, 3] \<noteq> cm_dice busy_command\<close>
    unfolding m1 by blast
qed

end
