(* ===== verification/Davinci.thy ===== *)
theory Davinci
  imports Prelude
begin

text \<open>
  The Da Vinci Code game (\<open>game/davinci\<close>): tiles and their order (\<open>davinciTiles.ts\<close>), the state and
  what each viewer may see of it (\<open>davinciState.ts\<close>), the deal (\<open>davinciSetup.ts\<close>), the checks of the
  inputs (\<open>davinciInput.ts\<close>), the flow of turns (\<open>davinciTurnFlow.ts\<close>) and the transitions
  (\<open>davinciRules.ts\<close>). The rules are pure functions of the state, the input and the current time; an
  ignored input returns the state unchanged.
\<close>

section \<open>Data\<close>

datatype tile_color = BLACK | WHITE

datatype davinci_phase = Guessing | Deciding | Placing | Finished

record davinci_tile =
  tile_id :: string
  color :: tile_color
  tile_number :: int
  revealed :: bool

datatype davinci_event_kind = GUESS | TIMEOUT | FORFEIT

record davinci_event =
  ev_kind :: davinci_event_kind
  actorId :: string
  targetId :: "string option"
  ev_tileId :: "string option"
  ev_number :: "int option"
  correct :: bool
  ev_at :: int

type_synonym player_numbers = "(string \<times> int) list"
type_synonym hand = "davinci_tile list"

record davinci_state =
  dv_version :: int
  dv_phase :: davinci_phase
  playerOrder :: "string list"
  turnPlayerId :: string
  hands :: "(string \<times> hand) list"
  deck :: "davinci_tile list"
  drawn :: "davinci_tile option"
  turn :: int
  eliminated :: "string list"
  winnerId :: "string option"
  hits :: player_numbers
  dv_lastInputSeq :: player_numbers
  dv_nextActionAt :: int
  lastEvent :: "davinci_event option"

definition DAVINCI_JOKER :: int where "DAVINCI_JOKER = - 1"
definition DAVINCI_MAX_NUMBER :: int where "DAVINCI_MAX_NUMBER = 11"
definition DAVINCI_DECK_SIZE :: nat where "DAVINCI_DECK_SIZE = 26"
definition DAVINCI_MIN_PLAYERS :: nat where "DAVINCI_MIN_PLAYERS = 2"
definition DAVINCI_MAX_PLAYERS :: nat where "DAVINCI_MAX_PLAYERS = 4"
definition HAND_SIZE_FEW :: nat where "HAND_SIZE_FEW = 4"
definition HAND_SIZE_MANY :: nat where "HAND_SIZE_MANY = 3"
definition MANY_PLAYERS :: nat where "MANY_PLAYERS = 4"
definition GUESS_MILLIS :: int where "GUESS_MILLIS = 30000"
definition DECIDE_MILLIS :: int where "DECIDE_MILLIS = 15000"
definition PLACE_MILLIS :: int where "PLACE_MILLIS = 15000"

definition DAVINCI_TILES :: "(tile_color \<times> int) list" where
  "DAVINCI_TILES = concat (map (\<lambda>c. map (\<lambda>n. (c, int n)) [0..<nat (DAVINCI_MAX_NUMBER + 1)] @ [(c, DAVINCI_JOKER)])
     [BLACK, WHITE])"

section \<open>Order of the tiles\<close>

definition compareTiles :: "davinci_tile \<Rightarrow> davinci_tile \<Rightarrow> int" where
  "compareTiles l r = (if tile_number l \<noteq> tile_number r then tile_number l - tile_number r
     else if color l = color r then 0
     else if color l = BLACK then - 1 else 1)"

fun insert_index_loop :: "hand \<Rightarrow> davinci_tile \<Rightarrow> nat \<Rightarrow> nat \<Rightarrow> nat" where
  "insert_index_loop [] tile position index = index"
| "insert_index_loop (other # rest) tile position index =
     (if tile_number other = DAVINCI_JOKER then insert_index_loop rest tile (position + 1) index
      else if compareTiles other tile \<le> 0 then insert_index_loop rest tile (position + 1) (position + 1)
      else insert_index_loop rest tile (position + 1) index)"

definition insertIndexOf :: "hand \<Rightarrow> davinci_tile \<Rightarrow> nat" where
  "insertIndexOf hand tile = insert_index_loop hand tile 0 0"

definition insertAt :: "hand \<Rightarrow> davinci_tile \<Rightarrow> nat \<Rightarrow> hand" where
  "insertAt hand tile index = take index hand @ tile # drop index hand"

definition isGuessableNumber :: "int \<Rightarrow> bool" where
  "isGuessableNumber n = (n = DAVINCI_JOKER \<or> (0 \<le> n \<and> n \<le> DAVINCI_MAX_NUMBER))"

definition hiddenTiles :: "hand \<Rightarrow> hand" where
  "hiddenTiles hand = filter (\<lambda>tile. \<not> revealed tile) hand"

section \<open>Reading the state\<close>

definition handOf :: "davinci_state \<Rightarrow> string \<Rightarrow> hand" where
  "handOf s p = value_at (hands s) p []"

definition survivors :: "string list \<Rightarrow> string list \<Rightarrow> string list" where
  "survivors order gone = filter (\<lambda>p. p \<notin> set gone) order"

definition isDavinciFinished :: "davinci_state \<Rightarrow> bool" where
  "isDavinciFinished s = (dv_phase s = Finished)"

definition scoreOf :: "davinci_state \<Rightarrow> string \<Rightarrow> int" where
  "scoreOf s p = value_at (hits s) p 0 + int (length (hiddenTiles (handOf s p)))"

section \<open>Views\<close>

record davinci_tile_view =
  v_id :: string
  v_color :: tile_color
  v_number :: "int option"
  v_revealed :: bool

record davinci_view =
  v_version :: int
  v_phase :: davinci_phase
  v_playerOrder :: "string list"
  v_turnPlayerId :: string
  v_hands :: "(string \<times> davinci_tile_view list) list"
  v_deckCount :: nat
  v_drawn :: "davinci_tile_view option"
  v_turn :: int
  v_eliminated :: "string list"
  v_winnerId :: "string option"
  v_hits :: player_numbers
  v_lastInputSeq :: player_numbers
  v_nextActionAt :: int
  v_lastEvent :: "davinci_event option"

definition tile_visible :: "davinci_tile \<Rightarrow> bool \<Rightarrow> bool \<Rightarrow> bool" where
  "tile_visible tile mine over = (revealed tile \<or> mine \<or> over)"

definition tileView :: "bool \<Rightarrow> bool \<Rightarrow> davinci_tile \<Rightarrow> davinci_tile_view" where
  "tileView mine over tile = \<lparr>v_id = tile_id tile, v_color = color tile,
     v_number = (if tile_visible tile mine over then Some (tile_number tile) else None),
     v_revealed = revealed tile\<rparr>"

text \<open>The viewer is a player, or nobody (\<open>null\<close>) for a spectator.\<close>

definition toView :: "davinci_state \<Rightarrow> string option \<Rightarrow> davinci_view" where
  "toView s viewer = (let over = (dv_phase s = Finished) in
     \<lparr>v_version = dv_version s, v_phase = dv_phase s, v_playerOrder = playerOrder s,
      v_turnPlayerId = turnPlayerId s,
      v_hands = map (\<lambda>(p, tiles). (p, map (tileView (Some p = viewer) over) tiles)) (hands s),
      v_deckCount = length (deck s),
      v_drawn = map_option (tileView (Some (turnPlayerId s) = viewer) over) (drawn s),
      v_turn = turn s, v_eliminated = eliminated s, v_winnerId = winnerId s, v_hits = hits s,
      v_lastInputSeq = dv_lastInputSeq s, v_nextActionAt = dv_nextActionAt s, v_lastEvent = lastEvent s\<rparr>)"

section \<open>The deal\<close>

definition tile_name :: "nat \<Rightarrow> string" where
  "tile_name position = CHR ''T'' # string_of_int (int position)"

definition tile_at :: "int \<Rightarrow> (tile_color \<times> int) option" where
  "tile_at i = (if 0 \<le> i \<and> nat i < length DAVINCI_TILES then Some (DAVINCI_TILES ! nat i) else None)"

fun shuffled_tiles :: "nat \<Rightarrow> int list \<Rightarrow> davinci_tile list option" where
  "shuffled_tiles position [] = Some []"
| "shuffled_tiles position (i # order) = (case tile_at i of None \<Rightarrow> None
     | Some (c, n) \<Rightarrow> map_option ((#) \<lparr>tile_id = tile_name position, color = c, tile_number = n, revealed = False\<rparr>)
         (shuffled_tiles (position + 1) order))"

text \<open>\<open>dealt.slice(seat * handSize, (seat + 1) * handSize).sort(compareTiles)\<close> for each seat.\<close>

definition deal_hand :: "davinci_tile list \<Rightarrow> nat \<Rightarrow> nat \<Rightarrow> hand" where
  "deal_hand dealt handSize seat = sort_by compareTiles (take handSize (drop (seat * handSize) dealt))"

definition hand_size :: "nat \<Rightarrow> nat" where
  "hand_size n = (if n \<ge> MANY_PLAYERS then HAND_SIZE_MANY else HAND_SIZE_FEW)"

definition deal_state :: "string list \<Rightarrow> davinci_tile list \<Rightarrow> int \<Rightarrow> davinci_state" where
  "deal_state players shuffled now =
     (let handSize = hand_size (length players);
          dealable = filter (\<lambda>tile. tile_number tile \<noteq> DAVINCI_JOKER) shuffled;
          dealt = take (length players * handSize) dealable;
          dealtIds = map tile_id dealt;
          pile = filter (\<lambda>tile. tile_id tile \<notin> set dealtIds) shuffled
      in \<lparr>dv_version = 1, dv_phase = Guessing, playerOrder = players, turnPlayerId = hd players,
           hands = map (\<lambda>seat. (players ! seat, deal_hand dealt handSize seat)) [0..<length players],
           deck = drop 1 pile, drawn = (case pile of [] \<Rightarrow> None | tile # _ \<Rightarrow> Some tile), turn = 1,
           eliminated = [], winnerId = None, hits = map (\<lambda>p. (p, 0)) players,
           dv_lastInputSeq = map (\<lambda>p. (p, - 1)) players, dv_nextActionAt = now + GUESS_MILLIS,
           lastEvent = None\<rparr>)"

definition initialDavinciState :: "string list \<Rightarrow> int list \<Rightarrow> int \<Rightarrow> coded_error + davinci_state" where
  "initialDavinciState players order now =
    (if length players < DAVINCI_MIN_PLAYERS \<or> length players > DAVINCI_MAX_PLAYERS
       then Inl (DomainError ''davinci_requires_two_to_four_players'')
     else if \<not> distinct players then Inl (DomainError ''davinci_duplicate_player'')
     else if length order \<noteq> DAVINCI_DECK_SIZE \<or> \<not> distinct order
       then Inl (DomainError ''davinci_invalid_deck_order'')
     else (case shuffled_tiles 0 order of None \<Rightarrow> Inl (DomainError ''davinci_invalid_deck_order'')
       | Some shuffled \<Rightarrow> Inr (deal_state players shuffled now)))"

section \<open>The flow of turns\<close>

text \<open>The first survivor after the seat of the current player, going round the table.\<close>

definition next_player :: "davinci_state \<Rightarrow> string list \<Rightarrow> string" where
  "next_player s alive = (let order = playerOrder s; n = length order;
        seat = index_of (turnPlayerId s) order;
        candidates = map (\<lambda>step. order ! nat ((seat + int step) mod int n)) [1..<n + 1]
     in case List.find (\<lambda>p. p \<in> set alive) candidates of Some p \<Rightarrow> p | None \<Rightarrow> turnPlayerId s)"

definition advance :: "davinci_state \<Rightarrow> int \<Rightarrow> davinci_state" where
  "advance s now = (let current = turnPlayerId s;
        wiped = (hiddenTiles (handOf s current) = []);
        gone = (if wiped \<and> current \<notin> set (eliminated s) then eliminated s @ [current] else eliminated s);
        alive = survivors (playerOrder s) gone
     in if length alive \<le> 1
        then s\<lparr>dv_phase := Finished, eliminated := gone,
          winnerId := (case alive of [] \<Rightarrow> None | p # _ \<Rightarrow> Some p), dv_nextActionAt := 0\<rparr>
        else s\<lparr>dv_phase := Guessing, turnPlayerId := next_player s alive, eliminated := gone,
          deck := drop 1 (deck s), drawn := (case deck s of [] \<Rightarrow> None | tile # _ \<Rightarrow> Some tile),
          turn := turn s + 1, dv_nextActionAt := now + GUESS_MILLIS\<rparr>)"

definition reveal_tile :: "string \<Rightarrow> davinci_tile \<Rightarrow> davinci_tile" where
  "reveal_tile i tile = (if tile_id tile = i then tile\<lparr>revealed := True\<rparr> else tile)"

definition concludeTurn :: "davinci_state \<Rightarrow> bool \<Rightarrow> int \<Rightarrow> davinci_state" where
  "concludeTurn s reveal now = (let p = turnPlayerId s; hand = handOf s p in
     case drawn s of
       None \<Rightarrow> if \<not> reveal then advance s now
         else (case List.find (\<lambda>tile. \<not> revealed tile) hand of None \<Rightarrow> advance s now
           | Some target \<Rightarrow> advance (s\<lparr>hands := AList.update p (map (reveal_tile (tile_id target)) hand) (hands s)\<rparr>) now)
     | Some d \<Rightarrow>
         (let tile = (if reveal then d\<lparr>revealed := True\<rparr> else d) in
          if tile_number tile = DAVINCI_JOKER
          then s\<lparr>dv_phase := Placing, drawn := Some tile, dv_nextActionAt := now + PLACE_MILLIS\<rparr>
          else advance (s\<lparr>hands := AList.update p (insertAt hand tile (insertIndexOf hand tile)) (hands s),
                 drawn := None\<rparr>) now))"

definition placeDrawn :: "davinci_state \<Rightarrow> int \<Rightarrow> int \<Rightarrow> davinci_state" where
  "placeDrawn s index now = (case drawn s of None \<Rightarrow> s
     | Some d \<Rightarrow> (let hand = handOf s (turnPlayerId s) in
         if index < 0 \<or> index > int (length hand) then s
         else advance (s\<lparr>hands := AList.update (turnPlayerId s) (insertAt hand d (nat index)) (hands s),
                drawn := None\<rparr>) now))"

definition timedOut :: "davinci_state \<Rightarrow> int \<Rightarrow> davinci_state" where
  "timedOut s now = (if dv_phase s \<noteq> Placing then concludeTurn s (dv_phase s = Guessing) now
     else (let placed = placeDrawn s (int (length (handOf s (turnPlayerId s)))) now in
       if dv_phase placed = Placing then advance (s\<lparr>drawn := None\<rparr>) now else placed))"

section \<open>The transitions\<close>

definition guessEvent :: "davinci_state \<Rightarrow> string \<Rightarrow> string \<Rightarrow> int \<Rightarrow> bool \<Rightarrow> int \<Rightarrow> davinci_event" where
  "guessEvent s target tile n ok now = \<lparr>ev_kind = GUESS, actorId = turnPlayerId s, targetId = Some target,
     ev_tileId = Some tile, ev_number = Some n, correct = ok, ev_at = now\<rparr>"

definition plain_event :: "davinci_event_kind \<Rightarrow> string \<Rightarrow> int \<Rightarrow> davinci_event" where
  "plain_event kind actor now = \<lparr>ev_kind = kind, actorId = actor, targetId = None, ev_tileId = None,
     ev_number = None, correct = False, ev_at = now\<rparr>"

record guess_input =
  g_playerId :: string
  g_inputSeq :: int
  g_targetId :: string
  g_tileId :: string
  g_number :: int

definition guess :: "davinci_state \<Rightarrow> guess_input \<Rightarrow> int \<Rightarrow> davinci_state" where
  "guess s inp now = (let p = g_playerId inp; target = g_targetId inp in
     if dv_phase s \<noteq> Guessing \<or> turnPlayerId s \<noteq> p then s
     else if g_inputSeq inp \<le> value_at (dv_lastInputSeq s) p (- 1) then s
     else if target = p \<or> target \<notin> set (playerOrder s) then s
     else if target \<in> set (eliminated s) then s
     else if \<not> isGuessableNumber (g_number inp) then s
     else (case List.find (\<lambda>tile. tile_id tile = g_tileId inp) (handOf s target) of
         None \<Rightarrow> s
       | Some tile \<Rightarrow> if revealed tile then s else
           (let seq = AList.update p (g_inputSeq inp) (dv_lastInputSeq s);
                ok = (tile_number tile = g_number inp);
                event = guessEvent s target (g_tileId inp) (g_number inp) ok now
            in if \<not> ok
               then (concludeTurn (s\<lparr>dv_lastInputSeq := seq\<rparr>) True now)\<lparr>dv_version := dv_version s + 1,
                  lastEvent := Some event\<rparr>
               else
                 (let hand' = map (reveal_tile (g_tileId inp)) (handOf s target);
                      gone = (if hiddenTiles hand' = [] then eliminated s @ [target] else eliminated s);
                      alive = survivors (playerOrder s) gone;
                      base = s\<lparr>dv_version := dv_version s + 1, hands := AList.update target hand' (hands s),
                        eliminated := gone, hits := AList.update p (value_at (hits s) p 0 + 1) (hits s),
                        dv_lastInputSeq := seq, lastEvent := Some event\<rparr>
                  in if length alive \<le> 1
                     then base\<lparr>dv_phase := Finished,
                       winnerId := Some (case alive of [] \<Rightarrow> p | q # _ \<Rightarrow> q), dv_nextActionAt := 0\<rparr>
                     else base\<lparr>dv_phase := Deciding, dv_nextActionAt := now + DECIDE_MILLIS\<rparr>))))"

datatype davinci_decision = CONTINUE | STOP

definition decide :: "davinci_state \<Rightarrow> string \<Rightarrow> int \<Rightarrow> davinci_decision \<Rightarrow> int \<Rightarrow> davinci_state" where
  "decide s p inputSeq decision now =
    (if dv_phase s \<noteq> Deciding \<or> turnPlayerId s \<noteq> p then s
     else if inputSeq \<le> value_at (dv_lastInputSeq s) p (- 1) then s
     else (let seq = AList.update p inputSeq (dv_lastInputSeq s) in
       if decision = CONTINUE
       then s\<lparr>dv_version := dv_version s + 1, dv_phase := Guessing, dv_lastInputSeq := seq,
         dv_nextActionAt := now + GUESS_MILLIS\<rparr>
       else (concludeTurn (s\<lparr>dv_lastInputSeq := seq\<rparr>) False now)\<lparr>dv_version := dv_version s + 1\<rparr>))"

definition place :: "davinci_state \<Rightarrow> string \<Rightarrow> int \<Rightarrow> int \<Rightarrow> int \<Rightarrow> davinci_state" where
  "place s p inputSeq index now =
    (if dv_phase s \<noteq> Placing \<or> turnPlayerId s \<noteq> p then s
     else if inputSeq \<le> value_at (dv_lastInputSeq s) p (- 1) then s
     else (let next_state = placeDrawn (s\<lparr>dv_lastInputSeq := AList.update p inputSeq (dv_lastInputSeq s)\<rparr>) index now in
       if dv_phase next_state = Placing then s else next_state\<lparr>dv_version := dv_version s + 1\<rparr>))"

definition expire :: "davinci_state \<Rightarrow> int \<Rightarrow> davinci_state" where
  "expire s now = (if dv_phase s = Finished then s
     else (timedOut s now)\<lparr>dv_version := dv_version s + 1,
       lastEvent := Some (plain_event TIMEOUT (turnPlayerId s) now)\<rparr>)"

definition forfeit :: "davinci_state \<Rightarrow> string \<Rightarrow> int \<Rightarrow> davinci_state" where
  "forfeit s p now =
    (if dv_phase s = Finished then s
     else if p \<notin> set (playerOrder s) \<or> p \<in> set (eliminated s) then s
     else (let gone = eliminated s @ [p];
               base = s\<lparr>dv_version := dv_version s + 1,
                 hands := AList.update p (map (\<lambda>tile. tile\<lparr>revealed := True\<rparr>) (handOf s p)) (hands s),
                 eliminated := gone, lastEvent := Some (plain_event FORFEIT p now)\<rparr>;
               alive = survivors (playerOrder s) gone
           in if length alive \<le> 1
              then base\<lparr>dv_phase := Finished, winnerId := (case alive of [] \<Rightarrow> None | q # _ \<Rightarrow> Some q),
                dv_nextActionAt := 0\<rparr>
              else if turnPlayerId s \<noteq> p then base
              else (advance (base\<lparr>drawn := None\<rparr>) now)\<lparr>dv_version := dv_version s + 1\<rparr>))"

section \<open>Inputs and the roster\<close>

definition requireInputSeq :: "int \<Rightarrow> coded_error + unit" where
  "requireInputSeq inputSeq = (if inputSeq < 0 then Inl (DomainError ''invalid_davinci_input'') else Inr ())"

definition requireGuessPayload :: "int \<Rightarrow> string \<Rightarrow> string \<Rightarrow> coded_error + unit" where
  "requireGuessPayload inputSeq target tile = (case requireInputSeq inputSeq of Inl e \<Rightarrow> Inl e
     | Inr _ \<Rightarrow> if blank target \<or> blank tile then Inl (DomainError ''invalid_davinci_guess'') else Inr ())"

definition requirePlacePayload :: "int \<Rightarrow> int \<Rightarrow> coded_error + unit" where
  "requirePlacePayload inputSeq index = (case requireInputSeq inputSeq of Inl e \<Rightarrow> Inl e
     | Inr _ \<Rightarrow> if index < 0 then Inl (DomainError ''invalid_davinci_place'') else Inr ())"

record davinci_start_roster =
  ro_hostId :: "string option"
  ro_players :: "(string \<times> string) list"

definition orderedPlayerIds :: "davinci_start_roster \<Rightarrow> coded_error + string list" where
  "orderedPlayerIds roster = (let humans = filter (\<lambda>(p, kind). kind = ''HUMAN'') (ro_players roster);
        players = map fst (filter (\<lambda>(p, kind). Some p = ro_hostId roster) humans
          @ filter (\<lambda>(p, kind). Some p \<noteq> ro_hostId roster) humans)
     in if length players < DAVINCI_MIN_PLAYERS \<or> length players > DAVINCI_MAX_PLAYERS
        then Inl (ConflictError ''davinci_requires_two_to_four_players'') else Inr players)"

text \<open>The shuffle, with the random choices as an argument: \<open>swaps\<close> are the results of
  \<open>randomInt(index + 1)\<close> for \<open>index\<close> from the last position down to 1.\<close>

definition swap_at :: "nat \<Rightarrow> nat \<Rightarrow> 'a list \<Rightarrow> 'a list" where
  "swap_at i j xs = xs[i := xs ! j, j := xs ! i]"

fun shuffle_loop :: "nat \<Rightarrow> (nat \<Rightarrow> nat) \<Rightarrow> int list \<Rightarrow> int list" where
  "shuffle_loop 0 randomInt order = order"
| "shuffle_loop (Suc i) randomInt order = shuffle_loop i randomInt (swap_at (Suc i) (randomInt (Suc i + 1)) order)"

definition shuffledDeckOrder :: "(nat \<Rightarrow> nat) \<Rightarrow> int list" where
  "shuffledDeckOrder randomInt = shuffle_loop (DAVINCI_DECK_SIZE - 1) randomInt (map int [0..<DAVINCI_DECK_SIZE])"

end
