(* ===== verification/DavinciInvariant.thy ===== *)
theory DavinciInvariant
  imports Davinci
begin

text \<open>
  Facts about one game of Da Vinci Code: the order of the hands, the conservation of the tiles, the invariant of
  the states a game reaches, a potential that every effective move decreases, and what a viewer can learn.
\<close>

section \<open>Order of the hands\<close>

lemma not_black: "c \<noteq> BLACK \<longleftrightarrow> c = WHITE"
  by (cases c) auto

interpretation tiles: comparator compareTiles
  by unfold_locales (auto simp: compareTiles_def not_black split: if_splits)

abbreviation tile_le :: "davinci_tile \<Rightarrow> davinci_tile \<Rightarrow> bool" where
  "tile_le l r \<equiv> compareTiles l r \<le> 0"

text \<open>Left to right the numbered tiles never decrease, black before white; jokers stand anywhere.\<close>

definition hand_sorted :: "hand \<Rightarrow> bool" where
  "hand_sorted hand = sorted_wrt tile_le (filter (\<lambda>tile. tile_number tile \<noteq> DAVINCI_JOKER) hand)"

lemma compareTiles_reveal [simp]:
  "compareTiles (l\<lparr>revealed := b\<rparr>) r = compareTiles l r" "compareTiles l (r\<lparr>revealed := b\<rparr>) = compareTiles l r"
  by (simp_all add: compareTiles_def)

lemma hand_sorted_relabel:
  assumes "\<And>tile. tile_number (f tile) = tile_number tile \<and> color (f tile) = color tile"
  shows "hand_sorted (map f hand) = hand_sorted hand"
proof -
  have "tile_le (f l) (f r) = tile_le l r" for l r using assms by (simp add: compareTiles_def)
  then show ?thesis using assms by (simp add: hand_sorted_def filter_map comp_def sorted_wrt_map)
qed

lemma hand_sorted_reveal [simp]: "hand_sorted (map (reveal_tile i) hand) = hand_sorted hand"
  "hand_sorted (map (\<lambda>tile. tile\<lparr>revealed := b\<rparr>) hand) = hand_sorted hand"
  by (rule hand_sorted_relabel, simp add: reveal_tile_def)+

lemma hand_sorted_sort [simp]: "hand_sorted (sort_by compareTiles xs)"
  unfolding hand_sorted_def by (rule sorted_wrt_filter[OF tiles.sorted_sort_by])

text \<open>The loop finds the end of the last numbered tile that is not larger.\<close>

lemma insert_index_loop_spec:
  defines "q \<equiv> \<lambda>other tile. tile_number other \<noteq> DAVINCI_JOKER \<and> tile_le other tile"
  shows "(\<forall>other \<in> set hand. \<not> q other tile) \<and> insert_index_loop hand tile position index = index
    \<or> (\<exists>k < length hand. insert_index_loop hand tile position index = position + k + 1 \<and> q (hand ! k) tile
        \<and> (\<forall>other \<in> set (drop (k + 1) hand). \<not> q other tile))"
proof (induction hand arbitrary: position index)
  case (Cons x hand)
  let ?i = "if q x tile then position + 1 else index"
  have loop: "insert_index_loop (x # hand) tile position index = insert_index_loop hand tile (position + 1) ?i"
    by (simp add: q_def)
  from Cons[of "position + 1" ?i] show ?case
  proof (elim disjE exE conjE)
    assume "\<forall>other \<in> set hand. \<not> q other tile" "insert_index_loop hand tile (position + 1) ?i = ?i"
    then show ?thesis unfolding loop by (cases "q x tile") (auto intro!: exI[of _ 0])
  next
    fix k assume "k < length hand" "insert_index_loop hand tile (position + 1) ?i = position + 1 + k + 1"
      "q (hand ! k) tile" "\<forall>other \<in> set (drop (k + 1) hand). \<not> q other tile"
    then show ?thesis unfolding loop by (intro disjI2 exI[of _ "Suc k"]) auto
  qed
qed simp

lemma sorted_wrt_split:
  assumes "sorted_wrt P (filter Q xs)" and "k < length xs" and "Q (xs ! k)"
  shows "\<forall>x \<in> set (take k xs). Q x \<longrightarrow> P x (xs ! k)"
proof -
  have "xs = take k xs @ xs ! k # drop (Suc k) xs" using assms(2) by (rule id_take_nth_drop)
  then have "filter Q xs = filter Q (take k xs) @ xs ! k # filter Q (drop (Suc k) xs)"
    using assms(3) by (metis filter.simps(2) filter_append)
  then show ?thesis using assms(1) by (auto simp: sorted_wrt_append)
qed

lemma insertIndexOf_split:
  fixes tile :: davinci_tile
  assumes "hand_sorted hand"
  defines "i \<equiv> insertIndexOf hand tile"
  shows "i \<le> length hand"
    and "\<forall>other \<in> set (take i hand). tile_number other \<noteq> DAVINCI_JOKER \<longrightarrow> tile_le other tile"
    and "\<forall>other \<in> set (drop i hand). tile_number other \<noteq> DAVINCI_JOKER \<longrightarrow> \<not> tile_le other tile"
proof -
  consider (none) "\<forall>other \<in> set hand. \<not> (tile_number other \<noteq> DAVINCI_JOKER \<and> tile_le other tile)" "i = 0"
    | (last) k where "k < length hand" "i = k + 1" "tile_number (hand ! k) \<noteq> DAVINCI_JOKER" "tile_le (hand ! k) tile"
        "\<forall>other \<in> set (drop (k + 1) hand). \<not> (tile_number other \<noteq> DAVINCI_JOKER \<and> tile_le other tile)"
    using insert_index_loop_spec[of hand tile 0 0] by (auto simp: i_def insertIndexOf_def)
  then have "i \<le> length hand \<and> (\<forall>other \<in> set (take i hand). tile_number other \<noteq> DAVINCI_JOKER \<longrightarrow> tile_le other tile)
      \<and> (\<forall>other \<in> set (drop i hand). tile_number other \<noteq> DAVINCI_JOKER \<longrightarrow> \<not> tile_le other tile)"
  proof cases
    case (last k)
    have "\<forall>x \<in> set (take k hand). tile_number x \<noteq> DAVINCI_JOKER \<longrightarrow> tile_le x (hand ! k)"
      using sorted_wrt_split[OF _ last(1)] assms(1) last(3) unfolding hand_sorted_def by blast
    then show ?thesis using last tiles.cmp_trans[OF _ last(4)] by (auto simp: take_Suc_conv_app_nth)
  qed auto
  then show "i \<le> length hand"
    and "\<forall>other \<in> set (take i hand). tile_number other \<noteq> DAVINCI_JOKER \<longrightarrow> tile_le other tile"
    and "\<forall>other \<in> set (drop i hand). tile_number other \<noteq> DAVINCI_JOKER \<longrightarrow> \<not> tile_le other tile"
    by blast+
qed

lemma hand_sorted_insert:
  assumes "hand_sorted hand"
  shows "hand_sorted (insertAt hand tile (insertIndexOf hand tile))"
proof -
  let ?i = "insertIndexOf hand tile" and ?n = "\<lambda>tile. tile_number tile \<noteq> DAVINCI_JOKER"
  note s = insertIndexOf_split[OF assms, of tile]
  have "sorted_wrt tile_le (filter ?n (take ?i hand) @ filter ?n (drop ?i hand))"
    using assms unfolding hand_sorted_def by (metis append_take_drop_id filter_append)
  moreover have "\<forall>other \<in> set (drop ?i hand). ?n other \<longrightarrow> tile_le tile other"
    using s(3) tiles.cmp_total by blast
  ultimately show ?thesis
    using s(2) by (auto simp: hand_sorted_def insertAt_def sorted_wrt_append)
qed

lemma hand_sorted_insert_joker:
  "tile_number joker = DAVINCI_JOKER \<Longrightarrow> hand_sorted (insertAt hand joker i) = hand_sorted hand"
  using filter_append[of "\<lambda>tile. tile_number tile \<noteq> DAVINCI_JOKER" "take i hand" "drop i hand"]
  by (simp add: hand_sorted_def insertAt_def)

section \<open>Counting tiles\<close>

lemma mset_insertAt [simp]: "mset (insertAt hand tile i) = add_mset tile (mset hand)"
  using mset_append[of "take i hand" "drop i hand"] by (simp add: insertAt_def)

lemma hiddenTiles_insertAt [simp]:
  "length (hiddenTiles (insertAt hand tile i)) = length (hiddenTiles hand) + (if revealed tile then 0 else 1)"
proof -
  have "length (filter P (take i hand)) + length (filter P (drop i hand)) = length (filter P hand)" for P :: "davinci_tile \<Rightarrow> bool"
    by (metis append_take_drop_id filter_append length_append)
  then show ?thesis by (simp add: hiddenTiles_def insertAt_def)
qed

lemma revealed_reveal [simp]: "revealed (reveal_tile (tile_id tile) tile)" "revealed (reveal_tile i tile) \<longleftrightarrow> tile_id tile = i \<or> revealed tile"
  by (simp_all add: reveal_tile_def)

lemma hiddenTiles_reveal_less:
  assumes "tile \<in> set hand" and "\<not> revealed tile"
  shows "length (hiddenTiles (map (reveal_tile (tile_id tile)) hand)) < length (hiddenTiles hand)"
  using assms
proof (induction hand)
  case (Cons x hand)
  have le: "length (hiddenTiles (map (reveal_tile i) hand)) \<le> length (hiddenTiles hand)" for i
    by (induction hand) (auto simp: hiddenTiles_def)
  show ?case
  proof (cases "x = tile")
    case True
    then show ?thesis using le[of "tile_id tile"] Cons.prems(2)
      by (simp add: hiddenTiles_def)
  next
    case False
    then have "length (hiddenTiles (map (reveal_tile (tile_id tile)) hand)) < length (hiddenTiles hand)"
      using Cons by simp
    then show ?thesis by (auto simp: hiddenTiles_def)
  qed
qed simp

text \<open>What a tile is, whatever its side: the identifier, the colour and the number.\<close>

definition face :: "davinci_tile \<Rightarrow> string \<times> tile_color \<times> int" where
  "face tile = (tile_id tile, color tile, tile_number tile)"

lemma face_revealed [simp]: "face (tile\<lparr>revealed := b\<rparr>) = face tile" "face (reveal_tile i tile) = face tile"
  by (simp_all add: face_def reveal_tile_def)

definition hand_faces :: "(string \<times> hand) list \<Rightarrow> (string \<times> tile_color \<times> int) multiset" where
  "hand_faces hs = sum_list (map (\<lambda>e. image_mset face (mset (snd e))) hs)"

definition hidden_count :: "(string \<times> hand) list \<Rightarrow> nat" where
  "hidden_count hs = sum_list (map (\<lambda>e. length (hiddenTiles (snd e))) hs)"

definition drawn_tiles :: "davinci_tile option \<Rightarrow> davinci_tile list" where
  "drawn_tiles d = (case d of None \<Rightarrow> [] | Some tile \<Rightarrow> [tile])"

definition faces :: "davinci_state \<Rightarrow> (string \<times> tile_color \<times> int) multiset" where
  "faces s = hand_faces (hands s) + image_mset face (mset (deck s)) + image_mset face (mset (drawn_tiles (drawn s)))"

lemma hand_faces_update:
  "wf_map hs \<Longrightarrow> map_of hs p = Some h \<Longrightarrow>
    hand_faces (AList.update p h' hs) + image_mset face (mset h) = hand_faces hs + image_mset face (mset h')"
  unfolding hand_faces_def by (rule sum_list_update_entry)

lemma hidden_count_update:
  "wf_map hs \<Longrightarrow> map_of hs p = Some h \<Longrightarrow>
    hidden_count (AList.update p h' hs) + length (hiddenTiles h) = hidden_count hs + length (hiddenTiles h')"
  unfolding hidden_count_def by (rule sum_list_update_entry)

section \<open>The invariant\<close>

text \<open>The shape of the table: every player has a sorted hand, and the player to move sits at the table.\<close>

definition davinci_table :: "davinci_state \<Rightarrow> bool" where
  "davinci_table s = (distinct (playerOrder s) \<and> wf_map (hands s) \<and> keys_of (hands s) = set (playerOrder s)
     \<and> set (eliminated s) \<subseteq> set (playerOrder s) \<and> turnPlayerId s \<in> set (playerOrder s)
     \<and> (\<forall>p \<in> set (playerOrder s). hand_sorted (handOf s p)))"

text \<open>A player is out exactly when no hidden tile is left; a running game has a player to move who is not out and at
  least one opponent; a finished game has one survivor, the winner; the tile to be placed is a joker.\<close>

definition davinci_inv :: "davinci_state \<Rightarrow> bool" where
  "davinci_inv s = (davinci_table s
     \<and> (\<forall>p \<in> set (playerOrder s). p \<in> set (eliminated s) \<longleftrightarrow> hiddenTiles (handOf s p) = [])
     \<and> (if dv_phase s = Finished
        then \<exists>w. survivors (playerOrder s) (eliminated s) = [w] \<and> winnerId s = Some w
        else winnerId s = None \<and> turnPlayerId s \<notin> set (eliminated s)
          \<and> 2 \<le> length (survivors (playerOrder s) (eliminated s)))
     \<and> (dv_phase s = Placing \<longrightarrow> (\<exists>d. drawn s = Some d \<and> tile_number d = DAVINCI_JOKER)))"

text \<open>A state at the end of a turn, before \<open>advance\<close>: only the player to move may have lost the last hidden tile.\<close>

definition closing :: "davinci_state \<Rightarrow> bool" where
  "closing s = (davinci_table s \<and> winnerId s = None
     \<and> (\<forall>p \<in> set (playerOrder s). p \<noteq> turnPlayerId s \<longrightarrow> (p \<in> set (eliminated s) \<longleftrightarrow> hiddenTiles (handOf s p) = []))
     \<and> (turnPlayerId s \<in> set (eliminated s) \<longrightarrow> hiddenTiles (handOf s (turnPlayerId s)) = [])
     \<and> (\<exists>p \<in> set (playerOrder s). p \<noteq> turnPlayerId s \<and> p \<notin> set (eliminated s)))"

lemma set_survivors [simp]: "set (survivors order gone) = set order - set gone"
  by (auto simp: survivors_def)

lemma distinct_survivors [simp]: "distinct order \<Longrightarrow> distinct (survivors order gone)"
  by (simp add: survivors_def)

lemma length_survivors: "distinct order \<Longrightarrow> length (survivors order gone) = card (set order - set gone)"
  by (metis distinct_card distinct_survivors set_survivors)

lemma bookkeeping [simp]:
  "davinci_inv (s\<lparr>dv_version := v\<rparr>) = davinci_inv s" "davinci_inv (s\<lparr>dv_lastInputSeq := seq\<rparr>) = davinci_inv s"
  "davinci_inv (s\<lparr>lastEvent := e\<rparr>) = davinci_inv s" "davinci_inv (s\<lparr>hits := h\<rparr>) = davinci_inv s"
  by (simp_all add: davinci_inv_def davinci_table_def handOf_def)

lemma davinci_table_drawn [simp]: "davinci_table (s\<lparr>drawn := d\<rparr>) = davinci_table s"
  by (simp add: davinci_table_def handOf_def)

lemma hand_of_key:
  assumes "davinci_table s" and "p \<in> set (playerOrder s)"
  shows "map_of (hands s) p = Some (handOf s p)"
proof -
  have "p \<in> keys_of (hands s)" using assms by (simp add: davinci_table_def)
  then have "map_of (hands s) p \<noteq> None" by (simp add: map_of_eq_None_iff)
  then show ?thesis by (auto simp: handOf_def value_at_def)
qed

lemma handOf_update [simp]: "handOf (s\<lparr>hands := AList.update p h hs\<rparr>) q = (if q = p then h else handOf (s\<lparr>hands := hs\<rparr>) q)"
  by (simp add: handOf_def)

lemma next_player_alive:
  assumes "turnPlayerId s \<in> set (playerOrder s)" and "set alive \<subseteq> set (playerOrder s)" and "alive \<noteq> []"
  shows "next_player s alive \<in> set alive"
proof -
  let ?order = "playerOrder s" and ?n = "length (playerOrder s)"
  let ?seat = "index_of (turnPlayerId s) ?order"
  let ?c = "map (\<lambda>step. ?order ! nat ((?seat + int step) mod int ?n)) [1..<?n + 1]"
  have seat: "0 \<le> ?seat" "nat ?seat < ?n" using index_of_nth[OF assms(1)] by auto
  obtain p where p: "p \<in> set alive" using assms(3) by (cases alive) auto
  then obtain i where i: "i < ?n" "?order ! i = p" using assms(2) by (metis in_set_conv_nth subsetD)
  define step where "step = (if int i > ?seat then nat (int i - ?seat) else nat (int i - ?seat + int ?n))"
  have "step \<in> set [1..<?n + 1]" using i seat by (auto simp: step_def)
  moreover have "nat ((?seat + int step) mod int ?n) = i"
    using i seat by (auto simp: step_def mod_pos_pos_trivial)
  ultimately have "p \<in> set ?c" using i(2) by (metis (no_types, lifting) image_eqI list.set_map)
  then have "\<exists>x \<in> set ?c. x \<in> set alive" using p by blast
  then obtain q where q: "List.find (\<lambda>p. p \<in> set alive) ?c = Some q"
    by (metis (no_types, lifting) find_None_iff option.exhaust)
  then have "q \<in> set alive" by (metis (no_types, lifting) find_Some_iff)
  then show ?thesis using q by (simp only: next_player_def Let_def option.case)
qed

lemma advance_inv:
  assumes "closing s"
  shows "davinci_inv (advance s now)"
proof -
  let ?p = "turnPlayerId s"
  define gone where "gone = (if hiddenTiles (handOf s ?p) = [] \<and> ?p \<notin> set (eliminated s) then eliminated s @ [?p] else eliminated s)"
  define alive where "alive = survivors (playerOrder s) gone"
  have T: "davinci_table s" and W: "winnerId s = None" using assms by (auto simp: closing_def)
  have D: "distinct (playerOrder s)" and P: "?p \<in> set (playerOrder s)" using T by (auto simp: davinci_table_def)
  have sub: "set gone \<subseteq> set (playerOrder s)" using T by (auto simp: gone_def davinci_table_def)
  have out: "\<forall>p \<in> set (playerOrder s). p \<in> set gone \<longleftrightarrow> hiddenTiles (handOf s p) = []"
    using assms by (auto simp: closing_def gone_def)
  have ne: "alive \<noteq> []"
  proof -
    obtain p where "p \<in> set (playerOrder s)" "p \<noteq> ?p" "p \<notin> set (eliminated s)" using assms by (auto simp: closing_def)
    then have "p \<in> set alive" by (auto simp: alive_def gone_def)
    then show ?thesis by auto
  qed
  have adv: "advance s now = (if length alive \<le> 1
      then s\<lparr>dv_phase := Finished, eliminated := gone, winnerId := (case alive of [] \<Rightarrow> None | p # _ \<Rightarrow> Some p), dv_nextActionAt := 0\<rparr>
      else s\<lparr>dv_phase := Guessing, turnPlayerId := next_player s alive, eliminated := gone, deck := drop 1 (deck s),
        drawn := (case deck s of [] \<Rightarrow> None | tile # _ \<Rightarrow> Some tile), turn := turn s + 1, dv_nextActionAt := now + GUESS_MILLIS\<rparr>)"
    by (simp add: advance_def Let_def gone_def alive_def)
  show ?thesis
  proof (cases "length alive \<le> 1")
    case True
    then obtain w where "alive = [w]" using ne by (cases alive) auto
    then show ?thesis using T sub out by (simp add: adv davinci_inv_def davinci_table_def handOf_def alive_def)
  next
    case False
    have "next_player s alive \<in> set alive" using next_player_alive[OF P _ ne] by (auto simp: alive_def)
    then show ?thesis using False T sub out W by (auto simp: adv davinci_inv_def davinci_table_def handOf_def alive_def)
  qed
qed

lemma advance_frame [simp]:
  "hands (advance s now) = hands s" "playerOrder (advance s now) = playerOrder s"
  "dv_version (advance s now) = dv_version s" "dv_phase (advance s now) \<in> {Guessing, Finished}"
  "dv_phase (advance s now) \<noteq> Placing"
  by (simp_all add: advance_def Let_def)

section \<open>The potential\<close>

fun phase_weight :: "davinci_phase \<Rightarrow> nat" where
  "phase_weight Guessing = 1"
| "phase_weight Deciding = 2"
| "phase_weight _ = 0"

definition potential :: "davinci_state \<Rightarrow> nat" where
  "potential s = 3 * (2 * (length (deck s) + length (drawn_tiles (drawn s))) + hidden_count (hands s)) + phase_weight (dv_phase s)"

lemma advance_tiles:
  assumes "drawn s = None"
  shows "faces (advance s now) = faces s"
    and "potential (advance s now) \<le> 3 * (2 * length (deck s) + hidden_count (hands s)) + 1"
  using assms by (cases "deck s"; simp add: advance_def Let_def faces_def drawn_tiles_def potential_def)+

lemma bookkeeping_tiles [simp]:
  "faces (s\<lparr>dv_version := v\<rparr>) = faces s" "faces (s\<lparr>dv_lastInputSeq := seq\<rparr>) = faces s" "faces (s\<lparr>lastEvent := e\<rparr>) = faces s"
  "potential (s\<lparr>dv_version := v\<rparr>) = potential s" "potential (s\<lparr>dv_lastInputSeq := seq\<rparr>) = potential s"
  "potential (s\<lparr>lastEvent := e\<rparr>) = potential s"
  by (simp_all add: faces_def potential_def)

section \<open>Ending a turn\<close>

lemma davinci_inv_survivor:
  assumes "davinci_inv s" and "dv_phase s \<noteq> Finished"
  obtains p where "p \<in> set (playerOrder s)" "p \<noteq> turnPlayerId s" "p \<notin> set (eliminated s)"
proof -
  have d: "distinct (playerOrder s)" and "2 \<le> length (survivors (playerOrder s) (eliminated s))"
    using assms by (auto simp: davinci_inv_def davinci_table_def)
  then have "2 \<le> card (set (playerOrder s) - set (eliminated s))" by (simp add: length_survivors)
  then have "\<not> set (playerOrder s) - set (eliminated s) \<subseteq> {turnPlayerId s}"
    by (metis card_mono card.empty card_insert_disjoint empty_iff finite.emptyI finite.insertI not_numeral_le_zero
        numeral_2_eq_2 numeral_le_one_iff semiring_norm(69) One_nat_def le_trans)
  then show thesis using that by blast
qed

lemma closing_set_hand:
  assumes "davinci_inv s" and "dv_phase s \<noteq> Finished" and "hand_sorted h"
  shows "closing (s\<lparr>hands := AList.update (turnPlayerId s) h (hands s), drawn := d\<rparr>)"
proof -
  obtain p where p: "p \<in> set (playerOrder s)" "p \<noteq> turnPlayerId s" "p \<notin> set (eliminated s)"
    using davinci_inv_survivor[OF assms(1,2)] .
  have "insert (turnPlayerId s) (keys_of (hands s)) = set (playerOrder s)"
    using assms(1) by (auto simp: davinci_inv_def davinci_table_def)
  then show ?thesis using assms p unfolding closing_def davinci_inv_def davinci_table_def
    by (auto simp: handOf_def)
qed

text \<open>Putting a new hand in place of the player's, with the drawn tile used up.\<close>

lemma close_with_hand:
  fixes now :: int
  assumes inv: "davinci_inv s" and running: "dv_phase s \<noteq> Finished" and h: "hand_sorted h"
    and fc: "image_mset face (mset h) = image_mset face (mset (handOf s (turnPlayerId s)))
        + image_mset face (mset (drawn_tiles (drawn s)))"
  defines "r \<equiv> advance (s\<lparr>hands := AList.update (turnPlayerId s) h (hands s), drawn := None\<rparr>) now"
  shows "davinci_inv r" and "faces r = faces s" and "dv_phase r \<noteq> Placing"
    and "potential r + 3 * length (hiddenTiles (handOf s (turnPlayerId s)))
      \<le> 3 * (2 * length (deck s) + hidden_count (hands s) + length (hiddenTiles h)) + 1"
proof -
  let ?p = "turnPlayerId s" and ?s1 = "s\<lparr>hands := AList.update (turnPlayerId s) h (hands s), drawn := None\<rparr>"
  have T: "davinci_table s" using inv by (simp add: davinci_inv_def)
  then have m: "wf_map (hands s)" "map_of (hands s) ?p = Some (handOf s ?p)"
    using hand_of_key[OF T] by (auto simp: davinci_table_def)
  show "davinci_inv r" unfolding r_def by (rule advance_inv[OF closing_set_hand[OF inv running h]])
  have "faces r = faces ?s1" unfolding r_def by (rule advance_tiles(1)) simp
  also have "\<dots> = faces s"
    using hand_faces_update[OF m, of h] fc by (simp add: faces_def drawn_tiles_def ac_simps)
  finally show "faces r = faces s" .
  show "dv_phase r \<noteq> Placing" by (simp add: r_def)
  have "potential r \<le> 3 * (2 * length (deck s) + hidden_count (AList.update ?p h (hands s))) + 1"
    unfolding r_def using advance_tiles(2)[of ?s1] by simp
  then show "potential r + 3 * length (hiddenTiles (handOf s ?p))
      \<le> 3 * (2 * length (deck s) + hidden_count (hands s) + length (hiddenTiles h)) + 1"
    using hidden_count_update[OF m, of h] by simp
qed

lemma concludeTurn_effect:
  fixes now :: int
  assumes inv: "davinci_inv s" and phase: "dv_phase s = (if reveal then Guessing else Deciding)"
  defines "r \<equiv> concludeTurn s reveal now"
  shows "davinci_inv r \<and> faces r = faces s \<and> potential r < potential s"
proof -
  let ?p = "turnPlayerId s" and ?hand = "handOf s (turnPlayerId s)"
  have running: "dv_phase s \<noteq> Finished" using phase by (auto split: if_splits)
  have T: "davinci_table s" and sorted: "hand_sorted ?hand" and there: "hiddenTiles ?hand \<noteq> []"
    using inv running by (auto simp: davinci_inv_def davinci_table_def)
  have key: "map_of (hands s) ?p = Some ?hand" using T hand_of_key[OF T] by (simp add: davinci_table_def)
  note close = close_with_hand[OF inv running, where now = now]
  show ?thesis
  proof (cases "drawn s")
    case None
    show ?thesis
    proof (cases reveal)
      case False
      have "s\<lparr>hands := AList.update ?p ?hand (hands s), drawn := None\<rparr> = s"
        unfolding update_same[OF key] using None by (cases s) simp
      moreover have "r = advance s now" using None False by (simp add: r_def concludeTurn_def)
      ultimately have "r = advance (s\<lparr>hands := AList.update ?p ?hand (hands s), drawn := None\<rparr>) now"
        by (simp only:)
      then show ?thesis
        using close[of ?hand] sorted None False phase by (auto simp: drawn_tiles_def potential_def)
    next
      case True
      obtain target where target: "List.find (\<lambda>tile. \<not> revealed tile) ?hand = Some target" "target \<in> set ?hand" "\<not> revealed target"
      proof (cases "List.find (\<lambda>tile. \<not> revealed tile) ?hand")
        case None
        then have "hiddenTiles ?hand = []" by (auto simp: find_None_iff hiddenTiles_def filter_empty_conv)
        then show ?thesis using there by simp
      next
        case (Some t)
        then show ?thesis using that by (metis find_Some_iff nth_mem)
      qed
      let ?h = "map (reveal_tile (tile_id target)) ?hand"
      have "s\<lparr>hands := h, drawn := None\<rparr> = s\<lparr>hands := h\<rparr>" for h using None by (cases s) simp
      moreover have "r = advance (s\<lparr>hands := AList.update ?p ?h (hands s)\<rparr>) now"
        using None True target(1) by (simp add: r_def concludeTurn_def Let_def)
      ultimately have "r = advance (s\<lparr>hands := AList.update ?p ?h (hands s), drawn := None\<rparr>) now"
        by (simp only:)
      moreover have "image_mset face (mset ?h) = image_mset face (mset ?hand)" by (simp add: multiset.map_comp comp_def)
      ultimately show ?thesis
        using close[of ?h] hiddenTiles_reveal_less[OF target(2,3)] sorted None phase True
        by (auto simp: drawn_tiles_def potential_def)
    qed
  next
    case (Some d)
    define tile where "tile = (if reveal then d\<lparr>revealed := True\<rparr> else d)"
    have td: "face tile = face d" "tile_number tile = tile_number d" by (simp_all add: tile_def)
    show ?thesis
    proof (cases "tile_number tile = DAVINCI_JOKER")
      case True
      then have "r = s\<lparr>dv_phase := Placing, drawn := Some tile, dv_nextActionAt := now + PLACE_MILLIS\<rparr>"
        using Some by (simp add: r_def concludeTurn_def tile_def[symmetric] Let_def)
      then show ?thesis using inv running True td phase Some
        by (auto simp: davinci_inv_def davinci_table_def handOf_def faces_def drawn_tiles_def potential_def)
    next
      case False
      let ?h = "insertAt ?hand tile (insertIndexOf ?hand tile)"
      have "r = advance (s\<lparr>hands := AList.update ?p ?h (hands s), drawn := None\<rparr>) now"
        using Some False by (simp add: r_def concludeTurn_def tile_def[symmetric] Let_def)
      then show ?thesis
        using close[of ?h] hand_sorted_insert[OF sorted, of tile] Some td phase
        by (auto simp: drawn_tiles_def potential_def split: if_splits)
    qed
  qed
qed

section \<open>The moves\<close>

datatype davinci_move =
    Guess guess_input
  | Decide string int davinci_decision
  | Place string int int
  | Expire
  | Leave string

fun davinci_step :: "davinci_state \<Rightarrow> davinci_move \<Rightarrow> int \<Rightarrow> davinci_state" where
  "davinci_step s (Guess inp) now = guess s inp now"
| "davinci_step s (Decide p seq decision) now = decide s p seq decision now"
| "davinci_step s (Place p seq index) now = place s p seq index now"
| "davinci_step s Expire now = expire s now"
| "davinci_step s (Leave p) now = forfeit s p now"

text \<open>What an effective move does.\<close>

definition progresses :: "davinci_state \<Rightarrow> davinci_state \<Rightarrow> bool" where
  "progresses s r = (davinci_inv r \<and> potential r < potential s \<and> dv_version r = dv_version s + 1)"

lemma progresses_conclude:
  assumes "davinci_inv s" and "dv_phase s = (if reveal then Guessing else Deciding)"
  shows "progresses s ((concludeTurn (s\<lparr>dv_lastInputSeq := seq\<rparr>) reveal now)\<lparr>dv_version := dv_version s + 1, lastEvent := e\<rparr>)"
    and "progresses s ((concludeTurn (s\<lparr>dv_lastInputSeq := seq\<rparr>) reveal now)\<lparr>dv_version := dv_version s + 1\<rparr>)"
    and "faces (concludeTurn (s\<lparr>dv_lastInputSeq := seq\<rparr>) reveal now) = faces s"
  using concludeTurn_effect[of "s\<lparr>dv_lastInputSeq := seq\<rparr>" reveal now] assms by (simp_all add: progresses_def)

lemma placeDrawn_effect:
  fixes now :: int and seq :: player_numbers
  assumes inv: "davinci_inv s" and phase: "dv_phase s = Placing"
    and index: "0 \<le> index" "index \<le> int (length (handOf s (turnPlayerId s)))"
  defines "r \<equiv> placeDrawn (s\<lparr>dv_lastInputSeq := seq\<rparr>) index now"
  shows "davinci_inv r" and "faces r = faces s" and "dv_phase r \<noteq> Placing" and "potential r < potential s"
proof -
  let ?s = "s\<lparr>dv_lastInputSeq := seq\<rparr>" and ?p = "turnPlayerId s" and ?hand = "handOf s (turnPlayerId s)"
  obtain d where d: "drawn s = Some d" "tile_number d = DAVINCI_JOKER" using inv phase by (auto simp: davinci_inv_def)
  have sorted: "hand_sorted ?hand" using inv by (auto simp: davinci_inv_def davinci_table_def)
  have [simp]: "handOf ?s q = handOf s q" for q by (simp add: handOf_def)
  let ?h = "insertAt ?hand d (nat index)"
  have r: "r = advance (?s\<lparr>hands := AList.update (turnPlayerId ?s) ?h (hands ?s), drawn := None\<rparr>) now"
    using d index by (simp add: r_def placeDrawn_def)
  note close = close_with_hand[of ?s ?h now, folded r]
  have f: "image_mset face (mset ?h) = image_mset face (mset ?hand) + image_mset face (mset (drawn_tiles (drawn s)))"
    using d by (simp add: drawn_tiles_def)
  have hs: "hand_sorted ?h" using sorted d(2) by (simp add: hand_sorted_insert_joker)
  show "davinci_inv r" "faces r = faces s" "dv_phase r \<noteq> Placing"
    using close(1-3) inv phase f hs by simp_all
  show "potential r < potential s"
    using close(4) inv phase f hs d by (auto simp: potential_def drawn_tiles_def split: if_splits)
qed

lemma guess_hit:
  fixes now :: int and seq hs :: player_numbers and e :: "davinci_event option"
  assumes inv: "davinci_inv s" and phase: "dv_phase s = Guessing" and t: "t \<noteq> turnPlayerId s" "t \<in> set (playerOrder s)" "t \<notin> set (eliminated s)"
    and tile: "tile \<in> set (handOf s t)" "\<not> revealed tile"
  defines "h \<equiv> map (reveal_tile (tile_id tile)) (handOf s t)"
  defines "gone \<equiv> if hiddenTiles h = [] then eliminated s @ [t] else eliminated s"
  defines "alive \<equiv> survivors (playerOrder s) gone"
  defines "base \<equiv> s\<lparr>dv_version := dv_version s + 1, hands := AList.update t h (hands s), eliminated := gone, hits := hs,
      dv_lastInputSeq := seq, lastEvent := e\<rparr>"
  defines "r \<equiv> if length alive \<le> 1
      then base\<lparr>dv_phase := Finished, winnerId := Some (case alive of [] \<Rightarrow> turnPlayerId s | q # _ \<Rightarrow> q), dv_nextActionAt := 0\<rparr>
      else base\<lparr>dv_phase := Deciding, dv_nextActionAt := now + DECIDE_MILLIS\<rparr>"
  shows "progresses s r" and "faces r = faces s"
proof -
  let ?p = "turnPlayerId s"
  have T: "davinci_table s" and p: "?p \<in> set (playerOrder s)" "?p \<notin> set (eliminated s)"
    using inv phase by (auto simp: davinci_inv_def davinci_table_def)
  have sorted: "hand_sorted h" using T t(2) by (simp add: h_def davinci_table_def)
  have m: "wf_map (hands s)" "map_of (hands s) t = Some (handOf s t)"
    using T hand_of_key[OF T t(2)] by (auto simp: davinci_table_def)
  have keys: "insert t (keys_of (hands s)) = set (playerOrder s)" using T t(2) by (auto simp: davinci_table_def)
  have alive: "?p \<in> set alive" using p t(1) by (auto simp: alive_def gone_def)
  have hand: "handOf r q = (if q = t then h else handOf s q)" for q
    by (simp add: r_def base_def handOf_def)
  have T': "davinci_table r" using T sorted t(2) keys unfolding davinci_table_def
    by (auto simp: r_def base_def handOf_def gone_def)
  have out: "\<forall>q \<in> set (playerOrder s). q \<in> set gone \<longleftrightarrow> hiddenTiles (handOf r q) = []"
    using inv t(3) unfolding davinci_inv_def hand by (auto simp: gone_def)
  have "length alive \<le> 1 \<Longrightarrow> \<exists>w. alive = [w]" using alive by (cases alive) auto
  then have inv': "davinci_inv r"
    using T' out inv phase p t(1) by (auto simp: davinci_inv_def r_def base_def alive_def gone_def)
  have "image_mset face (mset h) = image_mset face (mset (handOf s t))" by (simp add: h_def multiset.map_comp comp_def)
  then show "faces r = faces s"
    using hand_faces_update[OF m, of h] by (simp add: r_def base_def faces_def)
  have "hidden_count (AList.update t h (hands s)) < hidden_count (hands s)"
    using hidden_count_update[OF m, of h] hiddenTiles_reveal_less[OF tile] by (simp add: h_def)
  then show "progresses s r" using inv' phase by (simp add: progresses_def r_def base_def potential_def)
qed

lemma forfeit_effect:
  assumes inv: "davinci_inv s" and running: "dv_phase s \<noteq> Finished"
    and p: "p \<in> set (playerOrder s)" "p \<notin> set (eliminated s)"
  shows "progresses s (forfeit s p now)" and "faces (forfeit s p now) \<subseteq># faces s"
proof -
  define h where "h = map (\<lambda>tile. tile\<lparr>revealed := True\<rparr>) (handOf s p)"
  define gone where "gone = eliminated s @ [p]"
  define alive where "alive = survivors (playerOrder s) gone"
  define base where "base = s\<lparr>dv_version := dv_version s + 1, hands := AList.update p h (hands s), eliminated := gone,
    lastEvent := Some (plain_event FORFEIT p now)\<rparr>"
  define r where "r = forfeit s p now"
  have r: "r = (if length alive \<le> 1 then base\<lparr>dv_phase := Finished, winnerId := (case alive of [] \<Rightarrow> None | q # _ \<Rightarrow> Some q), dv_nextActionAt := 0\<rparr>
      else if turnPlayerId s \<noteq> p then base else (advance (base\<lparr>drawn := None\<rparr>) now)\<lparr>dv_version := dv_version s + 1\<rparr>)"
    using running p by (simp add: r_def forfeit_def Let_def h_def gone_def alive_def base_def)
  have T: "davinci_table s" using inv by (simp add: davinci_inv_def)
  then have D: "distinct (playerOrder s)" by (simp add: davinci_table_def)
  have m: "wf_map (hands s)" "map_of (hands s) p = Some (handOf s p)"
    using T hand_of_key[OF T p(1)] by (auto simp: davinci_table_def)
  have keys: "insert p (keys_of (hands s)) = set (playerOrder s)" using T p(1) by (auto simp: davinci_table_def)
  have h: "hand_sorted h" "hiddenTiles h = []" "image_mset face (mset h) = image_mset face (mset (handOf s p))"
    using T p by (auto simp: h_def davinci_table_def hiddenTiles_def filter_empty_conv multiset.map_comp comp_def)
  have Tb: "davinci_table (base\<lparr>drawn := d\<rparr>)" for d
    using T h(1) p(1) keys unfolding davinci_table_def by (auto simp: base_def handOf_def gone_def)
  have hand: "handOf (base\<lparr>drawn := d\<rparr>) q = (if q = p then h else handOf s q)" for q d by (simp add: base_def handOf_def)
  have out: "\<forall>q \<in> set (playerOrder s). q \<in> set gone \<longleftrightarrow> hiddenTiles (handOf base q) = []"
    using inv h(2) hand[of "drawn base"] unfolding davinci_inv_def by (auto simp: gone_def)
  have ne: "alive \<noteq> []"
  proof -
    have "2 \<le> length (survivors (playerOrder s) (eliminated s))" using inv running by (simp add: davinci_inv_def)
    then have "2 \<le> card (set (playerOrder s) - set (eliminated s))" using D by (simp add: length_survivors)
    moreover have "set alive = (set (playerOrder s) - set (eliminated s)) - {p}" by (auto simp: alive_def gone_def)
    ultimately have "0 < card (set alive)" using card_Diff_singleton[of p "set (playerOrder s) - set (eliminated s)"] p by simp
    then show ?thesis by auto
  qed
  have hidden: "hidden_count (hands base) < hidden_count (hands s)"
  proof -
    have "hiddenTiles (handOf s p) \<noteq> []" using inv p by (auto simp: davinci_inv_def)
    then show ?thesis using hidden_count_update[OF m, of h] h(2)
      by (cases "hiddenTiles (handOf s p)") (simp_all add: base_def)
  qed
  have fb: "hand_faces (hands base) = hand_faces (hands s)"
    using hand_faces_update[OF m, of h] h(3) by (simp add: base_def)
  have frame: "playerOrder base = playerOrder s" "eliminated base = gone" "turnPlayerId base = turnPlayerId s"
    "dv_phase base = dv_phase s" "drawn base = drawn s" "deck base = deck s" "winnerId base = winnerId s"
    "dv_version base = dv_version s + 1" by (simp_all add: base_def)
  have "progresses s r \<and> faces r \<subseteq># faces s"
  proof (cases "length alive \<le> 1")
    case True
    then obtain w where "alive = [w]" using ne by (cases alive) auto
    then show ?thesis using r Tb[of "drawn base"] out frame hidden fb h
      by (auto simp: progresses_def davinci_inv_def davinci_table_def handOf_def alive_def potential_def faces_def)
  next
    case False
    show ?thesis
    proof (cases "turnPlayerId s = p")
      case False
      then show ?thesis using r Tb[of "drawn base"] out frame hidden fb inv running \<open>\<not> length alive \<le> 1\<close>
        by (auto simp: progresses_def davinci_inv_def alive_def potential_def faces_def gone_def)
    next
      case True
      let ?b = "base\<lparr>drawn := None\<rparr>"
      obtain q where "q \<in> set alive" using ne by (cases alive) auto
      then have "closing ?b" using Tb[of None] out frame inv running True hand h(2)
        by (auto simp: closing_def davinci_inv_def alive_def gone_def handOf_def)
      then have "davinci_inv (advance ?b now)" by (rule advance_inv)
      moreover have "potential (advance ?b now) < potential s"
        using advance_tiles(2)[of ?b now] hidden frame by (simp add: potential_def)
      moreover have "faces (advance ?b now) \<subseteq># faces s"
        using advance_tiles(1)[of ?b now] fb frame by (simp add: faces_def drawn_tiles_def)
      ultimately show ?thesis using r False True by (simp add: progresses_def)
    qed
  qed
  then show "progresses s (forfeit s p now)" and "faces (forfeit s p now) \<subseteq># faces s" by (simp_all add: r_def)
qed


lemma davinci_step_effect:
  assumes inv: "davinci_inv s"
  shows "davinci_step s m now = s
    \<or> (progresses s (davinci_step s m now) \<and> faces (davinci_step s m now) \<subseteq># faces s
       \<and> ((\<forall>p. m \<noteq> Leave p) \<longrightarrow> faces (davinci_step s m now) = faces s))"
proof (cases m)
  case (Guess inp)
  show ?thesis
  proof (cases "guess s inp now = s")
    case False
    define t where "t = g_targetId inp"
    have pre: "dv_phase s = Guessing" "turnPlayerId s = g_playerId inp" "t \<noteq> turnPlayerId s" "t \<in> set (playerOrder s)"
      "t \<notin> set (eliminated s)" "\<not> g_inputSeq inp \<le> value_at (dv_lastInputSeq s) (g_playerId inp) (- 1)"
      "isGuessableNumber (g_number inp)"
      using False unfolding guess_def Let_def t_def[symmetric] by argo+
    have "List.find (\<lambda>tile. tile_id tile = g_tileId inp) (handOf s t) \<noteq> None"
      using False pre unfolding guess_def Let_def t_def[symmetric] by (intro notI) simp
    then obtain tile where tile: "List.find (\<lambda>tile. tile_id tile = g_tileId inp) (handOf s t) = Some tile" by blast
    have tile2: "\<not> revealed tile"
      using False pre tile unfolding guess_def Let_def t_def[symmetric] by (intro notI) simp
    have mem: "tile \<in> set (handOf s t)" "tile_id tile = g_tileId inp" using tile by (auto simp: find_Some_iff)
    note hit = guess_hit[OF inv pre(1) pre(3-5) mem(1) tile2, unfolded mem(2)]
    note miss = progresses_conclude[OF inv, of True, unfolded if_True, OF pre(1)]
    have go: "guess s inp now = (let seq = AList.update (g_playerId inp) (g_inputSeq inp) (dv_lastInputSeq s);
                ok = (tile_number tile = g_number inp);
                event = guessEvent s t (g_tileId inp) (g_number inp) ok now
            in if \<not> ok
               then (concludeTurn (s\<lparr>dv_lastInputSeq := seq\<rparr>) True now)\<lparr>dv_version := dv_version s + 1,
                  lastEvent := Some event\<rparr>
               else
                 (let hand' = map (reveal_tile (g_tileId inp)) (handOf s t);
                      gone = (if hiddenTiles hand' = [] then eliminated s @ [t] else eliminated s);
                      alive = survivors (playerOrder s) gone;
                      base = s\<lparr>dv_version := dv_version s + 1, hands := AList.update t hand' (hands s),
                        eliminated := gone, hits := AList.update (g_playerId inp) (value_at (hits s) (g_playerId inp) 0 + 1) (hits s),
                        dv_lastInputSeq := seq, lastEvent := Some event\<rparr>
                  in if length alive \<le> 1
                     then base\<lparr>dv_phase := Finished,
                       winnerId := Some (case alive of [] \<Rightarrow> g_playerId inp | q # _ \<Rightarrow> q), dv_nextActionAt := 0\<rparr>
                     else base\<lparr>dv_phase := Deciding, dv_nextActionAt := now + DECIDE_MILLIS\<rparr>))"
      using pre tile tile2 unfolding guess_def Let_def t_def[symmetric] by (simp split del: if_split)
    have "progresses s (guess s inp now) \<and> faces (guess s inp now) = faces s"
      unfolding go Let_def
      by (cases "tile_number tile = g_number inp")
        (simp_all only: if_True if_False not_True_eq_False not_False_eq_True hit[unfolded pre(2)] miss simp_thms bookkeeping_tiles)
    then show ?thesis by (simp add: Guess)
  qed (simp add: Guess)
next
  case (Decide p seq decision)
  show ?thesis
  proof (cases "dv_phase s = Deciding \<and> turnPlayerId s = p \<and> \<not> seq \<le> value_at (dv_lastInputSeq s) p (- 1)")
    case True
    let ?seq = "AList.update p seq (dv_lastInputSeq s)"
    show ?thesis
    proof (cases decision)
      case CONTINUE
      have "progresses s (s\<lparr>dv_version := dv_version s + 1, dv_phase := Guessing, dv_lastInputSeq := ?seq, dv_nextActionAt := now + GUESS_MILLIS\<rparr>)"
        using inv True by (auto simp: progresses_def davinci_inv_def davinci_table_def handOf_def potential_def)
      then show ?thesis using True by (simp add: Decide CONTINUE decide_def faces_def)
    next
      case STOP
      then show ?thesis using progresses_conclude(2,3)[OF inv, where reveal = False and seq = ?seq and now = now] True by (simp add: Decide decide_def)
    qed
  qed (auto simp: Decide decide_def)
next
  case (Place p seq index)
  let ?s = "s\<lparr>dv_lastInputSeq := AList.update p seq (dv_lastInputSeq s)\<rparr>"
  show ?thesis
  proof (cases "dv_phase s = Placing \<and> turnPlayerId s = p \<and> \<not> seq \<le> value_at (dv_lastInputSeq s) p (- 1)
      \<and> 0 \<le> index \<and> index \<le> int (length (handOf s (turnPlayerId s)))")
    case True
    then have "dv_phase s = Placing" "0 \<le> index" "index \<le> int (length (handOf s (turnPlayerId s)))" by auto
    note pe = placeDrawn_effect[OF inv this, of "AList.update p seq (dv_lastInputSeq s)" now]
    then show ?thesis using True by (simp add: Place place_def progresses_def Let_def)
  next
    case False
    have "placeDrawn ?s index now = ?s" if "index < 0 \<or> index > int (length (handOf s (turnPlayerId s)))"
      using that by (auto simp: placeDrawn_def handOf_def Let_def split: option.split)
    then show ?thesis using False by (auto simp: Place place_def)
  qed
next
  case Expire
  show ?thesis
  proof (cases "dv_phase s = Placing")
    case True
    have s: "s\<lparr>dv_lastInputSeq := dv_lastInputSeq s\<rparr> = s" by simp
    show ?thesis using placeDrawn_effect[OF inv True, of "int (length (handOf s (turnPlayerId s)))" "dv_lastInputSeq s" now]
      True unfolding s by (simp add: Expire expire_def timedOut_def progresses_def Let_def)
  next
    case False
    have "progresses s (expire s now) \<and> faces (expire s now) = faces s" if "dv_phase s \<noteq> Finished"
    proof (cases "dv_phase s")
      case Guessing
      then show ?thesis using progresses_conclude(1,3)[OF inv, where reveal = True and seq = "dv_lastInputSeq s" and now = now] by (simp add: expire_def timedOut_def)
    next
      case Deciding
      then show ?thesis using progresses_conclude(1,3)[OF inv, where reveal = False and seq = "dv_lastInputSeq s" and now = now] by (simp add: expire_def timedOut_def)
    qed (use False that in auto)
    then show ?thesis by (cases "dv_phase s = Finished") (auto simp: Expire expire_def)
  qed
next
  case (Leave p)
  show ?thesis
  proof (cases "dv_phase s = Finished \<or> p \<notin> set (playerOrder s) \<or> p \<in> set (eliminated s)")
    case True
    then show ?thesis by (auto simp: Leave forfeit_def)
  next
    case False
    then show ?thesis using forfeit_effect[OF inv, of p now] by (simp add: Leave)
  qed
qed

end
