(* ===== verification/DavinciTheorems.thy ===== *)
theory DavinciTheorems
  imports DavinciInvariant
begin

text \<open>
  Properties of whole games of Da Vinci Code: what is dealt, that every game ends, who wins, what happens to the tiles, and
  what the view of a player reveals.
\<close>

section \<open>The deal\<close>

lemma shuffled_tiles_spec:
  "shuffled_tiles pos order = Some ts \<Longrightarrow>
    (\<forall>i \<in> set order. 0 \<le> i \<and> nat i < length DAVINCI_TILES)
    \<and> map (\<lambda>t. (color t, tile_number t)) ts = map (\<lambda>i. DAVINCI_TILES ! nat i) order
    \<and> map tile_id ts = map tile_name [pos..<pos + length order]
    \<and> (\<forall>t \<in> set ts. \<not> revealed t)"
proof (induction pos order arbitrary: ts rule: shuffled_tiles.induct)
  case (2 pos i order)
  then obtain c n where c: "tile_at i = Some (c, n)" by (auto split: option.splits)
  then obtain rest where rest: "shuffled_tiles (pos + 1) order = Some rest"
      "ts = \<lparr>tile_id = tile_name pos, color = c, tile_number = n, revealed = False\<rparr> # rest"
    using "2.prems" by auto
  have "pos < pos + length (i # order)" by simp
  moreover have "[pos..<pos + length (i # order)] = pos # [pos + 1..<pos + 1 + length order]" by (simp add: upt_rec)
  ultimately show ?case using "2.IH"[OF c refl rest(1)] c rest(2)
    by (auto simp: tile_at_def split: if_splits)
qed simp

lemma tile_name_inject [simp]: "tile_name i = tile_name j \<longleftrightarrow> i = j"
  by (simp add: tile_name_def)

lemma standard_deck: "length DAVINCI_TILES = 26" "distinct DAVINCI_TILES"
  "length (filter (\<lambda>t. snd t \<noteq> DAVINCI_JOKER) DAVINCI_TILES) = 24"
  by code_simp+

lemma permuted_deck:
  assumes "length order = 26" and "distinct order" and "\<forall>i \<in> set order. 0 \<le> i \<and> nat i < 26"
  shows "mset (map (\<lambda>i. DAVINCI_TILES ! nat i) order) = mset DAVINCI_TILES"
proof -
  have inj: "inj_on nat (set order)" using assms(3) by (intro inj_onI) (metis eq_nat_nat_iff)
  have "set (map nat order) \<subseteq> {0..<26}" using assms(3) by auto
  moreover have "card (set (map nat order)) = 26"
    using assms(1,2) inj by (simp add: card_image distinct_card)
  ultimately have "set (map nat order) = {0..<26}" by (intro card_subset_eq) auto
  moreover have "distinct (map nat order)" using assms(2) inj by (simp add: distinct_map)
  ultimately have "mset (map nat order) = mset [0..<26]"
    by (metis atLeastLessThan_upt distinct_upt set_eq_iff_mset_eq_distinct)
  then have "image_mset ((!) DAVINCI_TILES) (mset (map nat order)) = image_mset ((!) DAVINCI_TILES) (mset [0..<26])" by simp
  then have "mset (map ((!) DAVINCI_TILES) (map nat order)) = mset (map ((!) DAVINCI_TILES) [0..<26])"
    by (simp only: mset_map)
  then show ?thesis by (simp add: comp_def map_nth standard_deck(1)[symmetric])
qed

lemma deal_slices:
  "sum_list (map (\<lambda>seat. mset (take h (drop (seat * h) xs))) [0..<n]) = mset (take (n * h) xs)"
proof (induction n)
  case (Suc n)
  have "take (Suc n * h) xs = take (n * h) xs @ take h (drop (n * h) xs)"
    by (metis add.commute mult_Suc take_add)
  then show ?case using Suc by simp
qed simp

lemma split_by_ids:
  assumes "distinct (map tile_id ts)" and "set dealt \<subseteq> set ts" and "distinct dealt"
  shows "mset dealt + mset (filter (\<lambda>t. tile_id t \<notin> set (map tile_id dealt)) ts) = mset ts"
proof -
  have inj: "inj_on tile_id (set ts)" and d: "distinct ts" using assms(1) by (auto simp: distinct_map)
  have "tile_id t \<in> set (map tile_id dealt) \<longleftrightarrow> t \<in> set dealt" if "t \<in> set ts" for t
    using that inj assms(2) by (auto dest: inj_onD)
  then have "filter (\<lambda>t. tile_id t \<notin> set (map tile_id dealt)) ts = filter (\<lambda>t. t \<notin> set dealt) ts"
    by (intro filter_cong) auto
  moreover have "mset (filter (\<lambda>t. t \<in> set dealt) ts) = mset dealt"
    using d assms(2,3) by (intro set_eq_iff_mset_eq_distinct[THEN iffD1]) auto
  ultimately show ?thesis by (metis multiset_partition mset_filter)
qed

text \<open>What a successful deal gives: the hands, the pile and the seats.\<close>

lemma initial_facts:
  assumes "initialDavinciState players order now = Inr s"
  obtains shuffled h pile where
    "2 \<le> length players" "length players \<le> 4" "distinct players" "h \<in> {3, 4}" "8 \<le> length players * h" "length players * h \<le> 24"
    "map tile_id shuffled = map tile_name [0..<26]" "\<forall>t \<in> set shuffled. \<not> revealed t"
    "mset (map (\<lambda>t. (color t, tile_number t)) shuffled) = mset DAVINCI_TILES"
    "mset (take (length players * h) (filter (\<lambda>t. tile_number t \<noteq> DAVINCI_JOKER) shuffled)) + mset pile = mset shuffled"
    "length (filter (\<lambda>t. tile_number t \<noteq> DAVINCI_JOKER) shuffled) = 24"
    "s = \<lparr>dv_version = 1, dv_phase = Guessing, playerOrder = players, turnPlayerId = hd players,
        hands = map (\<lambda>seat. (players ! seat, deal_hand (take (length players * h)
            (filter (\<lambda>t. tile_number t \<noteq> DAVINCI_JOKER) shuffled)) h seat)) [0..<length players],
        deck = drop 1 pile, drawn = (case pile of [] \<Rightarrow> None | tile # _ \<Rightarrow> Some tile), turn = 1,
        eliminated = [], winnerId = None, hits = map (\<lambda>p. (p, 0)) players,
        dv_lastInputSeq = map (\<lambda>p. (p, - 1)) players, dv_nextActionAt = now + GUESS_MILLIS, lastEvent = None\<rparr>"
proof -
  note sizes = DAVINCI_MIN_PLAYERS_def DAVINCI_MAX_PLAYERS_def DAVINCI_DECK_SIZE_def MANY_PLAYERS_def HAND_SIZE_MANY_def HAND_SIZE_FEW_def
  have ok: "2 \<le> length players" "length players \<le> 4" "distinct players" "length order = 26" "distinct order"
    by (rule ccontr, use assms in \<open>simp add: initialDavinciState_def sizes split: if_split_asm\<close>)+
  have "shuffled_tiles 0 order \<noteq> None"
    using assms ok by (intro notI) (simp add: initialDavinciState_def sizes)
  then obtain ts where ts: "shuffled_tiles 0 order = Some ts" by blast
  define h where "h = hand_size (length players)"
  define free where "free = filter (\<lambda>t. tile_number t \<noteq> DAVINCI_JOKER) ts"
  define dealt where "dealt = take (length players * h) free"
  define pile where "pile = filter (\<lambda>t. tile_id t \<notin> set (map tile_id dealt)) ts"
  note spec = shuffled_tiles_spec[OF ts]
  have ids: "map tile_id ts = map tile_name [0..<26]" using spec ok(4) by simp
  have perm: "mset (map (\<lambda>t. (color t, tile_number t)) ts) = mset DAVINCI_TILES"
    using spec permuted_deck[OF ok(4,5)] standard_deck(1) by simp
  have "distinct (map tile_id ts)" unfolding ids by (simp add: distinct_map inj_on_def)
  moreover have "set dealt \<subseteq> set ts" unfolding dealt_def free_def by (auto dest: in_set_takeD)
  moreover have "distinct ts" using \<open>distinct (map tile_id ts)\<close> by (simp add: distinct_map)
  ultimately have cut: "mset dealt + mset pile = mset ts"
    unfolding pile_def by (intro split_by_ids) (auto simp: dealt_def free_def)
  have "mset (filter (\<lambda>t. snd t \<noteq> DAVINCI_JOKER) (map (\<lambda>t. (color t, tile_number t)) ts))
      = mset (filter (\<lambda>t. snd t \<noteq> DAVINCI_JOKER) DAVINCI_TILES)" using perm by (metis mset_filter)
  then have "length (filter (\<lambda>t. snd t \<noteq> DAVINCI_JOKER) (map (\<lambda>t. (color t, tile_number t)) ts)) = 24"
    using standard_deck(3) by (metis size_mset)
 then have len: "length free = 24" by (simp add: free_def filter_map comp_def)
  have hs: "8 \<le> length players * h" "length players * h \<le> 24" "h \<in> {3, 4}"
    using ok(1,2) by (auto simp: h_def hand_size_def sizes)
  have st: "s = \<lparr>dv_version = 1, dv_phase = Guessing, playerOrder = players, turnPlayerId = hd players,
        hands = map (\<lambda>seat. (players ! seat, deal_hand dealt h seat)) [0..<length players],
        deck = drop 1 pile, drawn = (case pile of [] \<Rightarrow> None | tile # _ \<Rightarrow> Some tile), turn = 1,
        eliminated = [], winnerId = None, hits = map (\<lambda>p. (p, 0)) players,
        dv_lastInputSeq = map (\<lambda>p. (p, - 1)) players, dv_nextActionAt = now + GUESS_MILLIS, lastEvent = None\<rparr>"
    using assms ok ts by (simp add: initialDavinciState_def sizes(1-3) deal_state_def Let_def h_def[symmetric]
      free_def[symmetric] dealt_def[symmetric] pile_def[symmetric] del: set_map)
  have hidden: "\<forall>t \<in> set ts. \<not> revealed t" using spec by blast
  show thesis
    by (rule that[OF ok(1-3) hs(3) hs(1,2) ids hidden perm cut[unfolded dealt_def free_def] len[unfolded free_def]
          st[unfolded dealt_def free_def]])
qed

lemma image_mset_sum: "sum_list (map (\<lambda>x. image_mset f (g x)) xs) = image_mset f (sum_list (map g xs))"
  by (induction xs) simp_all

lemma deal_hand_take:
  assumes "n * h \<le> length free" and "seat < n"
  shows "mset (deal_hand (take (n * h) free) h seat) = mset (take h (drop (seat * h) (take (n * h) free)))"
    and "length (deal_hand (take (n * h) free) h seat) = h"
proof -
  show "mset (deal_hand (take (n * h) free) h seat) = mset (take h (drop (seat * h) (take (n * h) free)))"
    by (simp add: deal_hand_def)
  have "h + seat * h \<le> n * h" using assms(2) by (metis mult_Suc mult_le_mono1 Suc_leI)
  then show "length (deal_hand (take (n * h) free) h seat) = h"
    using assms(1) by (simp add: deal_hand_def)
qed

lemma initial_effect:
  assumes "initialDavinciState players order now = Inr s"
  shows "davinci_inv s" and "potential s \<le> 133" and "dv_version s = 1"
    and "image_mset (\<lambda>(i, c, n). (c, n)) (faces s) = mset DAVINCI_TILES"
    and "image_mset fst (faces s) = mset (map tile_name [0..<26])"
proof -
  obtain shuffled h pile where P: "2 \<le> length players" "length players \<le> 4" "distinct players"
    and H: "h \<in> {3, 4}" "8 \<le> length players * h" "length players * h \<le> 24"
    and ids: "map tile_id shuffled = map tile_name [0..<26]" and hid: "\<forall>t \<in> set shuffled. \<not> revealed t"
    and perm: "mset (map (\<lambda>t. (color t, tile_number t)) shuffled) = mset DAVINCI_TILES"
    and cut: "mset (take (length players * h) (filter (\<lambda>t. tile_number t \<noteq> DAVINCI_JOKER) shuffled)) + mset pile = mset shuffled"
    and free: "length (filter (\<lambda>t. tile_number t \<noteq> DAVINCI_JOKER) shuffled) = 24"
    and s: "s = \<lparr>dv_version = 1, dv_phase = Guessing, playerOrder = players, turnPlayerId = hd players,
        hands = map (\<lambda>seat. (players ! seat, deal_hand (take (length players * h)
            (filter (\<lambda>t. tile_number t \<noteq> DAVINCI_JOKER) shuffled)) h seat)) [0..<length players],
        deck = drop 1 pile, drawn = (case pile of [] \<Rightarrow> None | tile # _ \<Rightarrow> Some tile), turn = 1,
        eliminated = [], winnerId = None, hits = map (\<lambda>p. (p, 0)) players,
        dv_lastInputSeq = map (\<lambda>p. (p, - 1)) players, dv_nextActionAt = now + GUESS_MILLIS, lastEvent = None\<rparr>"
    by (rule initial_facts[OF assms])
  let ?free = "filter (\<lambda>t. tile_number t \<noteq> DAVINCI_JOKER) shuffled" and ?n = "length players"
  let ?dealt = "take (length players * h) (filter (\<lambda>t. tile_number t \<noteq> DAVINCI_JOKER) shuffled)"
  have fits: "?n * h \<le> length ?free" using H(3) free by simp
  have fst_hands: "map fst (hands s) = players" by (simp add: s comp_def map_nth)
  have seat: "handOf s (players ! i) = deal_hand ?dealt h i" if "i < ?n" for i
  proof -
    have "(players ! i, deal_hand ?dealt h i) \<in> set (hands s)" using that by (auto simp: s)
    moreover have "wf_map (hands s)" using fst_hands P(3) by simp
    ultimately have "map_of (hands s) (players ! i) = Some (deal_hand ?dealt h i)" by simp
    then show ?thesis by (simp add: handOf_def value_at_def)
  qed
  have full: "length (hiddenTiles (deal_hand ?dealt h i)) = h" if "i < ?n" for i
  proof -
    have "set (deal_hand ?dealt h i) \<subseteq> set shuffled" by (auto simp: deal_hand_def dest!: in_set_takeD in_set_dropD)
    then have "hiddenTiles (deal_hand ?dealt h i) = deal_hand ?dealt h i" using hid by (auto simp: hiddenTiles_def filter_id_conv)
    then show ?thesis using deal_hand_take(2)[OF fits that] by simp
  qed
  have hand: "hand_sorted (handOf s p) \<and> hiddenTiles (handOf s p) \<noteq> []" if "p \<in> set players" for p
  proof -
    obtain i where "i < ?n" "p = players ! i" using \<open>p \<in> set players\<close> by (auto simp: in_set_conv_nth)
    moreover have "h \<noteq> 0" using H(1) by auto
    ultimately show ?thesis using seat[of i] full[of i] by (auto simp: deal_hand_def)
  qed
  have "keys_of (hands s) = set players" using fst_hands by (metis list.set_map)
  moreover have "hd players \<in> set players" using P(1) by (cases players) auto
  ultimately show "davinci_inv s"
    using hand P fst_hands by (simp add: davinci_inv_def davinci_table_def s survivors_def)
  have len: "length shuffled = 26" using ids by (metis length_map length_upt diff_zero)
  have pile: "length pile + ?n * h = 26"
    using cut len fits by (metis add.commute length_take min.absorb2 size_mset size_union)
  have deck: "length (deck s) + length (drawn_tiles (drawn s)) = length pile"
    by (cases pile) (simp_all add: s drawn_tiles_def)
  have "hidden_count (hands s) = sum_list (map (\<lambda>i. length (hiddenTiles (deal_hand ?dealt h i))) [0..<?n])"
    by (simp add: hidden_count_def s comp_def)
  also have "\<dots> = sum_list (map (\<lambda>i. h) [0..<?n])" using full by (intro arg_cong[where f = sum_list] map_cong) auto
  also have "\<dots> = ?n * h" by (simp add: sum_list_triv)
  finally have "hidden_count (hands s) = ?n * h" .
  moreover have "dv_phase s = Guessing" by (simp add: s)
  ultimately show "potential s \<le> 133" using pile deck H by (simp add: potential_def)
  show "dv_version s = 1" by (simp add: s)
  have "hand_faces (hands s) = sum_list (map (\<lambda>i. image_mset face (mset (take h (drop (i * h) ?dealt)))) [0..<?n])"
    unfolding hand_faces_def s using deal_hand_take(1)[OF fits]
    by (auto simp: comp_def intro!: arg_cong[where f = sum_list] map_cong)
  also have "\<dots> = image_mset face (sum_list (map (\<lambda>i. mset (take h (drop (i * h) ?dealt))) [0..<?n]))"
    by (rule image_mset_sum)
  also have "\<dots> = image_mset face (mset ?dealt)" unfolding deal_slices by simp
  finally have "hand_faces (hands s) = image_mset face (mset ?dealt)" .
  moreover have "mset (deck s) + mset (drawn_tiles (drawn s)) = mset pile" by (cases pile) (simp_all add: s drawn_tiles_def)
  ultimately have F: "faces s = image_mset face (mset shuffled)"
    unfolding faces_def by (metis (no_types, lifting) cut image_mset_union union_assoc)
  show "image_mset (\<lambda>(i, c, n). (c, n)) (faces s) = mset DAVINCI_TILES"
    using perm by (simp add: F face_def multiset.map_comp comp_def)
  show "image_mset fst (faces s) = mset (map tile_name [0..<26])"
    unfolding ids[symmetric] by (simp add: F face_def multiset.map_comp comp_def)
qed

section \<open>Whole games\<close>

text \<open>The states a game reaches from its first state; \<open>davinci_play\<close> without anybody leaving.\<close>

inductive davinci_run :: "davinci_state \<Rightarrow> davinci_state \<Rightarrow> bool" for s0 where
  start: "davinci_run s0 s0"
| move: "davinci_run s0 s \<Longrightarrow> davinci_run s0 (davinci_step s m now)"

inductive davinci_play :: "davinci_state \<Rightarrow> davinci_state \<Rightarrow> bool" for s0 where
  start: "davinci_play s0 s0"
| move: "davinci_play s0 s \<Longrightarrow> \<forall>p. m \<noteq> Leave p \<Longrightarrow> davinci_play s0 (davinci_step s m now)"

lemma run_invariant:
  assumes "davinci_run s0 s" and "davinci_inv s0"
  shows "davinci_inv s \<and> dv_version s + int (potential s) \<le> dv_version s0 + int (potential s0) \<and> faces s \<subseteq># faces s0"
  using assms
proof (induction rule: davinci_run.induct)
  case (move s m now)
  then show ?case using davinci_step_effect[of s m now] by (auto simp: progresses_def intro: subset_mset.order_trans)
qed simp

lemma play_faces:
  assumes "davinci_play s0 s" and "davinci_inv s0"
  shows "davinci_inv s \<and> faces s = faces s0"
  using assms
proof (induction rule: davinci_play.induct)
  case (move s m now)
  then show ?case using davinci_step_effect[of s m now] by (auto simp: progresses_def)
qed simp

text \<open>A position for the examples: two players, the standard order of the deck.\<close>

definition standard_order :: "int list" where
  "standard_order = map int [0..<26]"

text \<open>
  C14: Every game of Da Vinci Code is finite. Counting the dealt state as version 1, a game goes through at most 133
  further versions, whatever the players guess, decide, place, let expire or whoever leaves: each effective move
  advances the version by one and uses up some of a bounded potential, and ignored inputs change nothing.
\<close>
theorem davinci_game_is_bounded:
  assumes "initialDavinciState players order now = Inr s0" and "davinci_run s0 s"
  shows "1 \<le> dv_version s \<and> dv_version s \<le> 134
    \<and> (\<forall>m t. davinci_step s m t = s \<or> dv_version (davinci_step s m t) = dv_version s + 1)"
proof -
  note init = initial_effect[OF assms(1)]
  note run = run_invariant[OF assms(2) init(1)]
  have "1 \<le> dv_version s" using assms(2)
  proof (induction rule: davinci_run.induct)
    case (move s m now)
    then show ?case using davinci_step_effect[of s m now] run_invariant[OF move.hyps init(1)] by (auto simp: progresses_def)
  qed (simp add: init)
  then show ?thesis using run init(2,3) davinci_step_effect[of s] by (auto simp: progresses_def)
qed

theorem davinci_game_is_bounded_witness:
  "\<exists>s0. initialDavinciState [''a'', ''b''] standard_order 0 = Inr s0 \<and> dv_version (expire s0 30000) \<le> 134
    \<and> dv_version (expire s0 30000) = 2"
proof -
  obtain s0 where s0: "initialDavinciState [''a'', ''b''] standard_order 0 = Inr s0"
    and v: "dv_version (expire s0 30000) = 2"
  proof -
    have "case initialDavinciState [''a'', ''b''] standard_order 0 of Inl _ \<Rightarrow> False
      | Inr s \<Rightarrow> dv_version (expire s 30000) = 2" by code_simp
    then show thesis using that by (cases "initialDavinciState [''a'', ''b''] standard_order 0") auto
  qed
  have "davinci_run s0 (davinci_step s0 Expire 30000)" by (rule davinci_run.move[OF davinci_run.start])
  then show ?thesis using davinci_game_is_bounded[OF s0] s0 v by auto
qed

text \<open>
  The clock alone ends the game. From any reachable state, when nobody acts any more, the timeouts bring the game
  to \<open>FINISHED\<close> after at most 133 of them, so a room with only silent players never hangs.
\<close>
theorem timeouts_finish_the_game:
  assumes "initialDavinciState players order now = Inr s0" and "davinci_run s0 s" and "133 \<le> length ticks"
  shows "dv_phase (foldl expire s ticks) = Finished"
proof -
  note init = initial_effect[OF assms(1)]
  have "dv_phase (foldl expire r ticks) = Finished" if "davinci_inv r" "potential r \<le> length ticks" for r
    using that
  proof (induction ticks arbitrary: r)
    case Nil
    then have "dv_phase r = Finished \<or> dv_phase r = Placing" and "drawn_tiles (drawn r) = []"
      by (cases "dv_phase r"; simp add: potential_def)+
    then show ?case using Nil(1) by (auto simp: davinci_inv_def drawn_tiles_def split: option.splits)
  next
    case (Cons t ticks)
    show ?case
    proof (cases "dv_phase r = Finished")
      case True
      then have "expire r t = r" for t by (simp add: expire_def)
      then have still: "foldl expire r ts = r" for ts by (induction ts) auto
      show ?thesis unfolding still by (rule True)
    next
      case False
      then have "dv_version (expire r t) = dv_version r + 1" by (simp add: expire_def)
      then have "expire r t \<noteq> r" by auto
      then have "progresses r (expire r t)" using davinci_step_effect[OF Cons.prems(1), of Expire t] by auto
      then show ?thesis using Cons by (simp add: progresses_def)
    qed
  qed
  moreover have "davinci_inv s" "potential s \<le> potential s0"
    using assms(2) init(1)
  proof (induction rule: davinci_run.induct)
    case (move s m now)
    { case 1 then show ?case using move(2) davinci_step_effect[of s m now] by (auto simp: progresses_def) }
    { case 2 then show ?case using move(2,3) davinci_step_effect[of s m now] by (auto simp: progresses_def) }
  qed simp_all
  ultimately show ?thesis using init(2) assms(3) by simp
qed

theorem timeouts_finish_the_game_witness:
  "\<exists>s0. initialDavinciState [''a'', ''b''] standard_order 0 = Inr s0
    \<and> dv_phase (foldl expire s0 (map (\<lambda>i. 30000 * int i) [0..<133])) = Finished"
proof -
  obtain s0 where "initialDavinciState [''a'', ''b''] standard_order 0 = Inr s0"
  proof -
    have "case initialDavinciState [''a'', ''b''] standard_order 0 of Inl _ \<Rightarrow> False | Inr s \<Rightarrow> True" by code_simp
    then show thesis using that by (cases "initialDavinciState [''a'', ''b''] standard_order 0") auto
  qed
  then show ?thesis using timeouts_finish_the_game[OF _ davinci_run.start] by auto
qed

text \<open>
  C13: Who is out and who wins. In every state of a game a player is eliminated exactly when all tiles of the hand are
  revealed; while the game runs there is no winner, at least two players are in, and the player to move is one of them; when it
  is finished exactly one player is left, and that player is the winner.
\<close>
theorem davinci_has_one_winner:
  assumes "initialDavinciState players order now = Inr s0" and "davinci_run s0 s"
  shows "(\<forall>p \<in> set (playerOrder s). p \<in> set (eliminated s) \<longleftrightarrow> hiddenTiles (handOf s p) = [])
    \<and> (if isDavinciFinished s
       then \<exists>w. survivors (playerOrder s) (eliminated s) = [w] \<and> winnerId s = Some w
       else winnerId s = None \<and> turnPlayerId s \<in> set (survivors (playerOrder s) (eliminated s))
         \<and> 2 \<le> length (survivors (playerOrder s) (eliminated s)))"
  using run_invariant[OF assms(2) initial_effect(1)[OF assms(1)]]
  by (auto simp: davinci_inv_def davinci_table_def isDavinciFinished_def)

theorem davinci_has_one_winner_witness:
  "\<exists>s0. initialDavinciState [''a'', ''b'', ''c''] standard_order 0 = Inr s0
    \<and> survivors (playerOrder (forfeit (forfeit s0 ''a'' 5) ''c'' 6)) (eliminated (forfeit (forfeit s0 ''a'' 5) ''c'' 6)) = [''b'']
    \<and> winnerId (forfeit (forfeit s0 ''a'' 5) ''c'' 6) = Some ''b''"
proof -
  obtain s0 where s0: "initialDavinciState [''a'', ''b'', ''c''] standard_order 0 = Inr s0"
    and v: "isDavinciFinished (forfeit (forfeit s0 ''a'' 5) ''c'' 6)" "winnerId (forfeit (forfeit s0 ''a'' 5) ''c'' 6) = Some ''b''"
  proof -
    have "case initialDavinciState [''a'', ''b'', ''c''] standard_order 0 of Inl _ \<Rightarrow> False
      | Inr s \<Rightarrow> isDavinciFinished (forfeit (forfeit s ''a'' 5) ''c'' 6) \<and> winnerId (forfeit (forfeit s ''a'' 5) ''c'' 6) = Some ''b''"
      by code_simp
    then show thesis using that by (cases "initialDavinciState [''a'', ''b'', ''c''] standard_order 0") auto
  qed
  have "davinci_run s0 (davinci_step (davinci_step s0 (Leave ''a'') 5) (Leave ''c'') 6)"
    by (intro davinci_run.intros)
  from davinci_has_one_winner[OF s0 this] show ?thesis using s0 v by auto
qed

text \<open>
  C15: No tile is lost, duplicated or altered. The deal distributes the standard twenty-six tiles over hands, drawn tile and
  pile under distinct names that do not depend on their numbers; as long as nobody leaves, the same tiles are on the
  table in every state of the game, and in general no tile ever appears twice. The numbered tiles of every
  hand stay in ascending order, black before white.
\<close>
theorem tiles_are_conserved:
  assumes "initialDavinciState players order now = Inr s0"
  shows "image_mset snd (faces s0) = mset DAVINCI_TILES \<and> image_mset fst (faces s0) = mset (map tile_name [0..<26])
    \<and> (\<forall>s. davinci_play s0 s \<longrightarrow> faces s = faces s0)
    \<and> (\<forall>s. davinci_run s0 s \<longrightarrow> faces s \<subseteq># faces s0 \<and> (\<forall>p \<in> set (playerOrder s). hand_sorted (handOf s p)))"
proof -
  note init = initial_effect[OF assms]
  have "snd = (\<lambda>(i :: string, c :: tile_color, n :: int). (c, n))" by (simp add: fun_eq_iff)
  moreover have "davinci_run s0 s \<Longrightarrow> faces s \<subseteq># faces s0 \<and> (\<forall>p \<in> set (playerOrder s). hand_sorted (handOf s p))" for s
    using run_invariant[OF _ init(1)] by (auto simp: davinci_inv_def davinci_table_def)
  ultimately show ?thesis using init(4,5) play_faces[OF _ init(1)] by simp
qed

theorem tiles_are_conserved_witness:
  "\<exists>s0. initialDavinciState [''a'', ''b''] standard_order 0 = Inr s0 \<and> faces (expire (expire s0 30000) 60000) = faces s0
    \<and> faces (expire s0 30000) \<subseteq># faces s0"
proof -
  obtain s0 where s0: "initialDavinciState [''a'', ''b''] standard_order 0 = Inr s0"
  proof -
    have "case initialDavinciState [''a'', ''b''] standard_order 0 of Inl _ \<Rightarrow> False | Inr s \<Rightarrow> True" by code_simp
    then show thesis using that by (cases "initialDavinciState [''a'', ''b''] standard_order 0") auto
  qed
  have "davinci_play s0 (davinci_step (davinci_step s0 Expire 30000) Expire 60000)"
    by (intro davinci_play.intros) auto
  moreover have "davinci_run s0 (davinci_step s0 Expire 30000)" by (intro davinci_run.intros)
  ultimately show ?thesis using tiles_are_conserved[OF s0] s0 by auto
qed

section \<open>What a view reveals\<close>

text \<open>Two tiles a viewer cannot tell apart: the same name, colour and side, and the same number when it is shown.\<close>

definition same_tile :: "bool \<Rightarrow> davinci_tile \<Rightarrow> davinci_tile \<Rightarrow> bool" where
  "same_tile shown t u = (tile_id t = tile_id u \<and> color t = color u \<and> revealed t = revealed u
     \<and> (shown \<or> revealed t \<longrightarrow> tile_number t = tile_number u))"

text \<open>Two states a viewer cannot tell apart: all public fields agree, the piles have the same size, and the tiles differ at most in
  the numbers of face-down tiles of others.\<close>

definition same_for :: "string option \<Rightarrow> davinci_state \<Rightarrow> davinci_state \<Rightarrow> bool" where
  "same_for viewer s t = (dv_version s = dv_version t \<and> dv_phase s = dv_phase t \<and> playerOrder s = playerOrder t
     \<and> turnPlayerId s = turnPlayerId t \<and> turn s = turn t \<and> eliminated s = eliminated t \<and> winnerId s = winnerId t
     \<and> hits s = hits t \<and> dv_lastInputSeq s = dv_lastInputSeq t \<and> dv_nextActionAt s = dv_nextActionAt t
     \<and> lastEvent s = lastEvent t \<and> length (deck s) = length (deck t)
     \<and> list_all2 (\<lambda>(p, h) (q, k). p = q \<and> list_all2 (same_tile (Some p = viewer \<or> dv_phase s = Finished)) h k) (hands s) (hands t)
     \<and> rel_option (same_tile (Some (turnPlayerId s) = viewer \<or> dv_phase s = Finished)) (drawn s) (drawn t))"

lemma tileView_eq: "tileView mine over t = tileView mine over u \<longleftrightarrow> same_tile (mine \<or> over) t u"
  by (auto simp: tileView_def same_tile_def tile_visible_def)

lemma map_eq_all2: "map f xs = map f ys \<longleftrightarrow> list_all2 (\<lambda>a b. f a = f b) xs ys"
  by (simp add: list_eq_iff_nth_eq list_all2_conv_all_nth cong: conj_cong)

lemma map_tileView_eq: "map (tileView mine over) h = map (tileView mine over) k \<longleftrightarrow> list_all2 (same_tile (mine \<or> over)) h k"
  by (simp add: map_eq_all2 tileView_eq)

text \<open>
  C16: A view carries no hidden number. What is sent to a viewer is the same for two states exactly when they differ only in the
  numbers of face-down tiles held by others, of the tile another player has drawn, and in the pile:
  the view is a function of the public fields, the viewer's own tiles and the revealed ones. A spectator sees only revealed
  numbers; when the game is over all hands are open.
\<close>
theorem view_hides_exactly_the_hidden_numbers:
  "toView s viewer = toView t viewer \<longleftrightarrow> same_for viewer s t"
proof -
  have hands: "map (\<lambda>(p, tiles). (p, map (tileView (Some p = viewer) over) tiles)) hs
      = map (\<lambda>(p, tiles). (p, map (tileView (Some p = viewer) over) tiles)) ks
    \<longleftrightarrow> list_all2 (\<lambda>(p, h) (q, k). p = q \<and> list_all2 (same_tile (Some p = viewer \<or> over)) h k) hs ks" for hs ks over
    unfolding map_eq_all2 by (rule arg_cong[where f = "\<lambda>P. list_all2 P hs ks"]) (auto simp: fun_eq_iff map_tileView_eq)
  have drawn: "map_option (tileView mine over) d = map_option (tileView mine over) e
      \<longleftrightarrow> rel_option (same_tile (mine \<or> over)) d e" for mine over d e
    by (cases d; cases e) (auto simp: tileView_eq)
  show ?thesis
    by (cases "dv_phase s = dv_phase t"; cases "turnPlayerId s = turnPlayerId t")
      (auto simp: toView_def same_for_def Let_def hands drawn)
qed

end
