(* ===== verification/Duel.thy ===== *)
theory Duel
  imports Complex_Main Prelude
begin

text \<open>
  The duel (\<open>game/duel\<close>): the state (\<open>duelState.ts\<close>), the judgement of a round (\<open>duelRound.ts\<close>) and
  the transitions (\<open>duelRules.ts\<close>). A round waits for the signal, collects the reaction times of the
  two players and is judged when both are in, when somebody drew before the signal or when the time
  is up. Reported times and input numbers are arbitrary finite numbers (rationals here); recorded
  reactions are integers because the code truncates them.

  A transition that reads both sides throws when the order does not hold two players, hence the sum
  types; the transitions that ignore their input return the state unchanged.
\<close>

section \<open>Data\<close>

datatype duel_phase = DuelWaiting | DuelSignal | DuelResult | DuelFinished

datatype duel_round_kind = SHOT | TIE | WARNING | SELF_SHOT | DUEL_FORFEIT

record duel_round =
  dr_number :: int
  dr_kind :: duel_round_kind
  shooterId :: "string option"
  hitId :: "string option"
  koId :: "string option"
  foulId :: "string option"
  over :: bool
  dr_at :: int

record duel_state =
  du_version :: int
  du_phase :: duel_phase
  du_order :: "string list"
  hp :: "(string \<times> int) list"
  fouls :: "(string \<times> int) list"
  reactions :: "(string \<times> int) list"
  du_lastInputSeq :: "(string \<times> rat) list"
  du_round :: int
  signalAt :: int
  du_nextActionAt :: int
  lastRound :: "duel_round option"

definition isDuelFinished :: "duel_state \<Rightarrow> bool" where
  "isDuelFinished s = (du_phase s = DuelFinished)"

definition MAX_HP :: int where "MAX_HP = 3"
definition MAX_FOULS :: int where "MAX_FOULS = 2"
definition FOUL :: int where "FOUL = - 1"
definition MISS :: int where "MISS = - 2"
definition TIE_HOLD_MILLIS :: int where "TIE_HOLD_MILLIS = 1650"
definition RESULT_HOLD_MILLIS :: int where "RESULT_HOLD_MILLIS = 2150"
definition KO_HOLD_MILLIS :: int where "KO_HOLD_MILLIS = 2900"
definition MIN_WAIT_MILLIS :: int where "MIN_WAIT_MILLIS = 1400"
definition MAX_WAIT_MILLIS :: int where "MAX_WAIT_MILLIS = 4600"
definition GRACE_MILLIS :: int where "GRACE_MILLIS = 700"
definition FREEZE_MILLIS :: int where "FREEZE_MILLIS = 2600"

section \<open>The judgement of a round\<close>

definition sides :: "duel_state \<Rightarrow> coded_error + string \<times> string" where
  "sides s = (case du_order s of a # b # _ \<Rightarrow> Inr (a, b)
     | _ \<Rightarrow> Inl (DomainError ''duel_requires_two_players''))"

text \<open>0 is a tie, 1 the first side, 2 the second.\<close>

definition compareDraw :: "int \<Rightarrow> int \<Rightarrow> nat" where
  "compareDraw a b =
    (let cleanA = a \<ge> 0; cleanB = b \<ge> 0 in
     if cleanA \<and> cleanB then (if a = b then 0 else if a < b then 1 else 2)
     else if cleanA then 1
     else if cleanB then 2
     else 0)"

definition hold :: "duel_round \<Rightarrow> int" where
  "hold r = (if over r then KO_HOLD_MILLIS
     else if hitId r = None then TIE_HOLD_MILLIS else RESULT_HOLD_MILLIS)"

definition foulSide :: "(string \<times> int) list \<Rightarrow> string \<Rightarrow> string \<Rightarrow> string option" where
  "foulSide rs first second =
    (if value_at rs first MISS = FOUL then Some first
     else if value_at rs second MISS = FOUL then Some second
     else None)"

text \<open>The code lets \<open>penalty\<close> and \<open>shootout\<close> write into its copies of the two tables; here they are
  returned next to the round.\<close>

definition penalty :: "duel_state \<Rightarrow> string \<Rightarrow> int \<Rightarrow>
    duel_round \<times> (string \<times> int) list \<times> (string \<times> int) list" where
  "penalty s foul now =
    (let count = value_at (fouls s) foul 0 + 1;
         fouls' = AList.update foul count (fouls s)
     in if count < MAX_FOULS
        then (\<lparr>dr_number = du_round s, dr_kind = WARNING, shooterId = None, hitId = None, koId = None,
               foulId = Some foul, over = False, dr_at = now\<rparr>, hp s, fouls')
        else (\<lparr>dr_number = du_round s, dr_kind = SELF_SHOT, shooterId = None, hitId = Some foul,
               koId = Some foul, foulId = Some foul, over = True, dr_at = now\<rparr>,
              AList.update foul (max 0 (value_at (hp s) foul 0 - 1)) (hp s), fouls'))"

definition shootout :: "duel_state \<Rightarrow> (string \<times> int) list \<Rightarrow> string \<Rightarrow> string \<Rightarrow> int \<Rightarrow>
    duel_round \<times> (string \<times> int) list" where
  "shootout s rs first second now =
    (let winner = compareDraw (value_at rs first MISS) (value_at rs second MISS) in
     if winner = 0
     then (\<lparr>dr_number = du_round s, dr_kind = TIE, shooterId = None, hitId = None, koId = None,
            foulId = None, over = False, dr_at = now\<rparr>, hp s)
     else (let shooter = (if winner = 1 then first else second);
               hit = (if winner = 1 then second else first);
               left = max 0 (value_at (hp s) hit 0 - 1)
           in (\<lparr>dr_number = du_round s, dr_kind = SHOT, shooterId = Some shooter, hitId = Some hit,
                koId = (if left \<le> 0 then Some hit else None), foulId = None, over = (left \<le> 0), dr_at = now\<rparr>,
               AList.update hit left (hp s))))"

definition judge :: "duel_state \<Rightarrow> (string \<times> int) list \<Rightarrow> string \<Rightarrow> string \<Rightarrow> int \<Rightarrow>
    duel_round \<times> (string \<times> int) list \<times> (string \<times> int) list" where
  "judge s rs first second now = (case foulSide rs first second of
      None \<Rightarrow> (case shootout s rs first second now of (r, hp') \<Rightarrow> (r, hp', fouls s))
    | Some foul \<Rightarrow> penalty s foul now)"

definition resolveRound :: "duel_state \<Rightarrow> (string \<times> rat) list \<Rightarrow> (string \<times> int) list \<Rightarrow> int \<Rightarrow>
    coded_error + duel_state" where
  "resolveRound s seq rs now = (case sides s of Inl e \<Rightarrow> Inl e
     | Inr (first, second) \<Rightarrow> (case judge s rs first second now of (r, hp', fouls') \<Rightarrow>
         Inr (s\<lparr>du_version := du_version s + 1, du_phase := DuelResult, hp := hp', fouls := fouls',
           reactions := rs, du_lastInputSeq := seq, du_nextActionAt := now + hold r, lastRound := Some r\<rparr>)))"

section \<open>The transitions\<close>

definition initialDuelState :: "string list \<Rightarrow> int \<Rightarrow> int \<Rightarrow> coded_error + duel_state" where
  "initialDuelState players now wait =
    (if length players \<noteq> 2 then Inl (DomainError ''duel_requires_two_players'')
     else Inr \<lparr>du_version = 1, du_phase = DuelWaiting, du_order = players,
       hp = map_from_pairs (map (\<lambda>p. (p, MAX_HP)) players),
       fouls = map_from_pairs (map (\<lambda>p. (p, 0)) players), reactions = [],
       du_lastInputSeq = map_from_pairs (map (\<lambda>p. (p, - 1)) players), du_round = 1, signalAt = 0,
       du_nextActionAt = now + wait, lastRound = None\<rparr>)"

definition signal :: "duel_state \<Rightarrow> int \<Rightarrow> duel_state" where
  "signal s now = (if du_phase s \<noteq> DuelWaiting then s
     else s\<lparr>du_version := du_version s + 1, du_phase := DuelSignal, signalAt := now,
       du_nextActionAt := now + FREEZE_MILLIS, lastRound := None\<rparr>)"

record draw_input =
  di_playerId :: string
  di_inputSeq :: rat
  reportedMs :: rat
  di_now :: int

text \<open>\<open>Math.trunc\<close>.\<close>

definition trunc :: "rat \<Rightarrow> int" where
  "trunc x = (if x < 0 then \<lceil>x\<rceil> else \<lfloor>x\<rfloor>)"

definition recorded_reaction :: "duel_state \<Rightarrow> draw_input \<Rightarrow> int" where
  "recorded_reaction s inp =
    (if du_phase s = DuelWaiting \<or> reportedMs inp < 0 then FOUL
     else max 0 (min (trunc (reportedMs inp)) (max 0 (di_now inp - signalAt s))))"

definition draw :: "duel_state \<Rightarrow> draw_input \<Rightarrow> coded_error + duel_state" where
  "draw s inp =
    (let p = di_playerId inp in
     if p \<notin> set (du_order s) then Inr s
     else if di_inputSeq inp \<le> value_at (du_lastInputSeq s) p (- 1) then Inr s
     else (let seq = AList.update p (di_inputSeq inp) (du_lastInputSeq s);
               live = du_phase s \<in> {DuelWaiting, DuelSignal}
           in if \<not> live \<or> has_key (reactions s) p
              then Inr (s\<lparr>du_version := du_version s + 1, du_lastInputSeq := seq\<rparr>)
              else (let r = recorded_reaction s inp; rs = AList.update p r (reactions s) in
                if r = FOUL \<or> length rs = length (du_order s)
                then resolveRound s seq rs (di_now inp)
                else Inr (s\<lparr>du_version := du_version s + 1, reactions := rs, du_lastInputSeq := seq,
                  du_nextActionAt := min (du_nextActionAt s) (di_now inp + GRACE_MILLIS), lastRound := None\<rparr>))))"

definition fill_missing :: "string list \<Rightarrow> (string \<times> int) list \<Rightarrow> (string \<times> int) list" where
  "fill_missing order rs = fold (\<lambda>p rs. if has_key rs p then rs else AList.update p MISS rs) order rs"

definition expire :: "duel_state \<Rightarrow> int \<Rightarrow> coded_error + duel_state" where
  "expire s now = (if du_phase s \<noteq> DuelSignal then Inr s
     else resolveRound s (du_lastInputSeq s) (fill_missing (du_order s) (reactions s)) now)"

definition nextRound :: "duel_state \<Rightarrow> int \<Rightarrow> int \<Rightarrow> duel_state" where
  "nextRound s now wait = (case lastRound s of
     Some r \<Rightarrow> if du_phase s \<noteq> DuelResult then s
       else if over r then s
       else s\<lparr>du_version := du_version s + 1, du_phase := DuelWaiting, reactions := [],
         du_round := du_round s + 1, signalAt := 0, du_nextActionAt := now + wait, lastRound := None\<rparr>
   | None \<Rightarrow> s)"

definition finish :: "duel_state \<Rightarrow> duel_state" where
  "finish s = (case lastRound s of
     Some r \<Rightarrow> if du_phase s \<noteq> DuelResult then s
       else if \<not> over r then s
       else s\<lparr>du_version := du_version s + 1, du_phase := DuelFinished, du_nextActionAt := 0\<rparr>
   | None \<Rightarrow> s)"

definition forfeit :: "duel_state \<Rightarrow> string \<Rightarrow> int \<Rightarrow> coded_error + duel_state" where
  "forfeit s p now =
    (if du_phase s = DuelFinished \<or> p \<notin> set (du_order s) then Inr s
     else (case sides s of Inl e \<Rightarrow> Inl e
       | Inr (first, second) \<Rightarrow>
          (let survivor = (if index_of p (du_order s) = 0 then second else first) in
           Inr (s\<lparr>du_version := du_version s + 1, du_phase := DuelFinished, hp := AList.update p 0 (hp s),
             reactions := [], signalAt := 0, du_nextActionAt := 0,
             lastRound := Some \<lparr>dr_number = du_round s, dr_kind = DUEL_FORFEIT, shooterId = Some survivor,
               hitId = Some p, koId = Some p, foulId = None, over = True, dr_at = now\<rparr>\<rparr>))))"

text \<open>The clock of the duel (\<open>timeout\<close> of \<open>duelGameService.ts\<close>): the transition of the phase.\<close>

definition clock :: "duel_state \<Rightarrow> int \<Rightarrow> int \<Rightarrow> coded_error + duel_state" where
  "clock s now wait = (case du_phase s of
      DuelWaiting \<Rightarrow> Inr (signal s now)
    | DuelSignal \<Rightarrow> expire s now
    | DuelResult \<Rightarrow> Inr (if (case lastRound s of Some r \<Rightarrow> over r | None \<Rightarrow> False) then finish s else nextRound s now wait)
    | DuelFinished \<Rightarrow> Inr s)"

text \<open>The final scores (\<open>changed\<close> of \<open>duelProgress.ts\<close>): the bullets left, nothing for the fallen.\<close>

definition final_scores :: "duel_state \<Rightarrow> (string \<times> int) list" where
  "final_scores s = (let fallen = (case lastRound s of Some r \<Rightarrow> koId r | None \<Rightarrow> None) in
     map_from_pairs (map (\<lambda>(p, left). (p, if Some p = fallen then 0 else left)) (hp s)))"

end
