(* ===== verification/DuelTheorems.thy ===== *)
theory DuelTheorems
  imports Duel
begin

text \<open>
  What the duel guarantees: bullets and warnings stay in their bounds in every phase, a round is
  judged by the recorded reactions, a duel has at most seven rounds that are not ties, an input that
  arrives twice counts once, and the scores rank the survivor above the fallen.
\<close>

section \<open>Runs\<close>

datatype duel_input = Draw draw_input | Clock int int | Leave string int

fun duel_step :: "duel_state \<Rightarrow> duel_input \<Rightarrow> coded_error + duel_state" where
  "duel_step s (Draw inp) = draw s inp"
| "duel_step s (Clock now wait) = clock s now wait"
| "duel_step s (Leave p now) = forfeit s p now"

fun duel_run :: "duel_state \<Rightarrow> duel_input list \<Rightarrow> coded_error + duel_state" where
  "duel_run s [] = Inr s"
| "duel_run s (i # is) = (case duel_step s i of Inl e \<Rightarrow> Inl e | Inr s' \<Rightarrow> duel_run s' is)"

section \<open>The invariant\<close>

text \<open>A player stands with a bullet left and room for a warning.\<close>

definition standing :: "(string \<times> int) list \<Rightarrow> (string \<times> int) list \<Rightarrow> string \<Rightarrow> bool" where
  "standing h f p = (1 \<le> value_at h p 0 \<and> value_at f p 0 < MAX_FOULS)"

text \<open>The fallen player is down and every other player stands.\<close>

definition one_down :: "string list \<Rightarrow> (string \<times> int) list \<Rightarrow> (string \<times> int) list \<Rightarrow> string \<Rightarrow> bool" where
  "one_down order h f k = (k \<in> set order \<and> (value_at h k 0 = 0 \<or> value_at f k 0 = MAX_FOULS) \<and>
     list_all (\<lambda>p. p = k \<or> standing h f p) order)"

definition duel_tables :: "duel_state \<Rightarrow> bool" where
  "duel_tables s = (distinct (du_order s) \<and> length (du_order s) = 2 \<and>
     map fst (hp s) = du_order s \<and> map fst (fouls s) = du_order s \<and>
     wf_map (reactions s) \<and> list_all (\<lambda>e. fst e \<in> set (du_order s)) (reactions s) \<and>
     list_all (\<lambda>p. value_at (hp s) p 0 \<in> {0..MAX_HP} \<and> value_at (fouls s) p 0 \<in> {0..MAX_FOULS}) (du_order s))"

definition all_standing :: "duel_state \<Rightarrow> bool" where
  "all_standing s = list_all (standing (hp s) (fouls s)) (du_order s)"

definition duel_phase_ok :: "duel_state \<Rightarrow> bool" where
  "duel_phase_ok s = (case du_phase s of
      DuelWaiting \<Rightarrow> reactions s = [] \<and> lastRound s = None \<and> all_standing s
    | DuelSignal \<Rightarrow> length (reactions s) < 2 \<and> list_all (\<lambda>e. 0 \<le> snd e) (reactions s) \<and>
        lastRound s = None \<and> all_standing s
    | DuelResult \<Rightarrow> (case lastRound s of None \<Rightarrow> False
        | Some r \<Rightarrow> (case koId r of None \<Rightarrow> \<not> over r \<and> all_standing s
            | Some k \<Rightarrow> over r \<and> dr_kind r \<noteq> DUEL_FORFEIT \<and> one_down (du_order s) (hp s) (fouls s) k))
    | DuelFinished \<Rightarrow> (case lastRound s of None \<Rightarrow> False
        | Some r \<Rightarrow> (case koId r of None \<Rightarrow> False
            | Some k \<Rightarrow> over r \<and> k \<in> set (du_order s) \<and>
                (if dr_kind r = DUEL_FORFEIT then value_at (hp s) k 0 = 0
                 else one_down (du_order s) (hp s) (fouls s) k))))"

definition duel_ok :: "duel_state \<Rightarrow> bool" where
  "duel_ok s = (duel_tables s \<and> duel_phase_ok s)"

text \<open>The tables of a duel, spelled out.\<close>

lemma duel_tablesE:
  assumes "duel_tables s"
  obtains a b ha hb fa fb where "du_order s = [a, b]" "a \<noteq> b" "hp s = [(a, ha), (b, hb)]"
    "fouls s = [(a, fa), (b, fb)]" "0 \<le> ha" "ha \<le> 3" "0 \<le> hb" "hb \<le> 3" "0 \<le> fa" "fa \<le> 2" "0 \<le> fb" "fb \<le> 2"
    "wf_map (reactions s)" "list_all (\<lambda>e. fst e = a \<or> fst e = b) (reactions s)"
proof -
  obtain a b where ab: "du_order s = [a, b]"
    using assms unfolding duel_tables_def
    by (auto simp: numeral_2_eq_2 length_Suc_conv)
  moreover obtain ha hb where "hp s = [(a, ha), (b, hb)]"
    using assms ab unfolding duel_tables_def by (auto simp: map_eq_Cons_conv)
  moreover obtain fa fb where "fouls s = [(a, fa), (b, fb)]"
    using assms ab unfolding duel_tables_def by (auto simp: map_eq_Cons_conv)
  ultimately show thesis using assms that[of a b ha hb fa fb]
    by (auto simp: duel_tables_def value_at_def MAX_HP_def MAX_FOULS_def)
qed

lemma initial_duel_ok:
  "initialDuelState players now wait = Inr s \<Longrightarrow> distinct players \<Longrightarrow> duel_ok s"
  by (auto simp: initialDuelState_def duel_ok_def duel_tables_def duel_phase_ok_def all_standing_def standing_def
      value_at_def MAX_HP_def MAX_FOULS_def numeral_2_eq_2 length_Suc_conv map_from_pairs_def split: if_splits)

lemma signal_ok: "duel_ok s \<Longrightarrow> duel_ok (signal s now)"
  by (cases "du_phase s") (simp_all add: duel_ok_def signal_def duel_tables_def duel_phase_ok_def all_standing_def)

lemma nextRound_ok: "duel_ok s \<Longrightarrow> duel_ok (nextRound s now wait)"
  by (cases "lastRound s") (auto simp: duel_ok_def nextRound_def duel_tables_def duel_phase_ok_def all_standing_def
      split: option.splits)

lemma finish_ok: "duel_ok s \<Longrightarrow> duel_ok (finish s)"
  by (cases "lastRound s") (auto simp: duel_ok_def finish_def duel_tables_def duel_phase_ok_def one_down_def
      split: option.splits)

text \<open>The judgement, spelled out on the tables of two players that stand.\<close>

definition two_sides :: "duel_state \<Rightarrow> string \<Rightarrow> string \<Rightarrow> int \<Rightarrow> int \<Rightarrow> int \<Rightarrow> int \<Rightarrow> bool" where
  "two_sides s a b ha hb fa fb = (du_order s = [a, b] \<and> a \<noteq> b \<and> hp s = [(a, ha), (b, hb)] \<and>
     fouls s = [(a, fa), (b, fb)] \<and> ha \<in> {1..3} \<and> hb \<in> {1..3} \<and> fa \<in> {0..1} \<and> fb \<in> {0..1})"

lemma standing_sides:
  assumes "duel_tables s" "all_standing s"
  obtains a b ha hb fa fb where "two_sides s a b ha hb fa fb"
proof (rule duel_tablesE[OF assms(1)])
  fix a b ha hb fa fb
  assume *: "du_order s = [a, b]" "a \<noteq> b" "hp s = [(a, ha), (b, hb)]" "fouls s = [(a, fa), (b, fb)]"
    "0 \<le> ha" "ha \<le> 3" "0 \<le> hb" "hb \<le> 3" "0 \<le> fa" "fa \<le> 2" "0 \<le> fb" "fb \<le> 2"
  have "1 \<le> ha" "1 \<le> hb" "fa \<le> 1" "fb \<le> 1"
    using assms(2) *(1-4) by (simp_all add: all_standing_def standing_def value_at_def MAX_FOULS_def)
  then have "two_sides s a b ha hb fa fb" using * by (simp add: two_sides_def)
  then show thesis by (rule that)
qed

lemma foulSide_cases:
  obtains "foulSide rs a b = None" "value_at rs a MISS \<noteq> FOUL" "value_at rs b MISS \<noteq> FOUL"
  | "foulSide rs a b = Some a" "value_at rs a MISS = FOUL"
  | "foulSide rs a b = Some b" "value_at rs a MISS \<noteq> FOUL" "value_at rs b MISS = FOUL"
  by (auto simp: foulSide_def split: if_splits)

lemma compareDraw_cases:
  obtains "compareDraw x y = 0" "x = y \<or> x < 0 \<and> y < 0"
  | "compareDraw x y = 1" "0 \<le> x" "y < 0 \<or> x < y"
  | "compareDraw x y = 2" "0 \<le> y" "x < 0 \<or> y < x"
proof -
  consider "x < 0" "y < 0" | "0 \<le> x" "y < 0" | "x < 0" "0 \<le> y" | "0 \<le> x" "0 \<le> y" "x = y"
    | "0 \<le> x" "0 \<le> y" "x < y" | "0 \<le> x" "0 \<le> y" "y < x" by linarith
  then show thesis by cases (rule that(1) that(2) that(3); simp add: compareDraw_def)+
qed

text \<open>What a judgement may be: nobody is hurt, a warning, the foot of a repeated offender, or a shot by
  the faster side.\<close>

definition tie_between :: "duel_state \<Rightarrow> (string \<times> int) list \<Rightarrow> string \<Rightarrow> string \<Rightarrow> duel_round \<Rightarrow>
    (string \<times> int) list \<Rightarrow> (string \<times> int) list \<Rightarrow> bool" where
  "tie_between s rs a b r h f = (dr_kind r = TIE \<and> shooterId r = None \<and> hitId r = None \<and> foulId r = None \<and>
     koId r = None \<and> \<not> over r \<and> h = hp s \<and> f = fouls s \<and>
     (value_at rs a MISS = value_at rs b MISS \<or> value_at rs a MISS < 0 \<and> value_at rs b MISS < 0))"

definition warned :: "duel_state \<Rightarrow> (string \<times> int) list \<Rightarrow> string \<Rightarrow> duel_round \<Rightarrow>
    (string \<times> int) list \<Rightarrow> (string \<times> int) list \<Rightarrow> bool" where
  "warned s rs p r h f = (value_at rs p MISS = FOUL \<and> foulId r = Some p \<and> h = (if over r then
       AList.update p (value_at (hp s) p 0 - 1) (hp s) else hp s) \<and> f = AList.update p (value_at (fouls s) p 0 + 1) (fouls s) \<and>
     over r = (value_at (fouls s) p 0 = 1) \<and> koId r = (if over r then Some p else None) \<and>
     dr_kind r = (if over r then SELF_SHOT else WARNING) \<and> shooterId r = None \<and> hitId r = koId r)"

definition shot_by :: "duel_state \<Rightarrow> (string \<times> int) list \<Rightarrow> string \<Rightarrow> string \<Rightarrow> duel_round \<Rightarrow>
    (string \<times> int) list \<Rightarrow> (string \<times> int) list \<Rightarrow> bool" where
  "shot_by s rs p q r h f = (dr_kind r = SHOT \<and> shooterId r = Some p \<and> hitId r = Some q \<and> foulId r = None \<and>
     0 \<le> value_at rs p MISS \<and> (value_at rs q MISS < 0 \<or> value_at rs p MISS < value_at rs q MISS) \<and>
     h = AList.update q (value_at (hp s) q 0 - 1) (hp s) \<and> f = fouls s \<and>
     over r = (value_at (hp s) q 0 = 1) \<and> koId r = (if over r then Some q else None))"

lemma judge_cases:
  assumes "two_sides s a b ha hb fa fb" "judge s rs a b now = (r, h, f)"
  shows "tie_between s rs a b r h f \<or> warned s rs a r h f \<or> warned s rs b r h f \<or>
    shot_by s rs a b r h f \<or> shot_by s rs b a r h f"
proof -
  let ?x = "value_at rs a MISS" and ?y = "value_at rs b MISS"
  note two = assms(1)[unfolded two_sides_def]
  note judge = assms(2)[unfolded judge_def]
  show ?thesis
  proof (rule foulSide_cases[of rs a b])
    assume foul: "foulSide rs a b = None" "?x \<noteq> FOUL" "?y \<noteq> FOUL"
    have shoot: "shootout s rs a b now = (r, h)" "f = fouls s"
      using judge foul by (auto split: prod.splits)
    show ?thesis
    proof (rule compareDraw_cases[of ?x ?y])
      assume "compareDraw ?x ?y = 0" "?x = ?y \<or> ?x < 0 \<and> ?y < 0"
      then have "tie_between s rs a b r h f"
        using shoot by (auto simp: shootout_def tie_between_def)
      then show ?thesis by simp
    next
      assume "compareDraw ?x ?y = 1" "0 \<le> ?x" "?y < 0 \<or> ?x < ?y"
      then have "shot_by s rs a b r h f"
        using shoot two by (auto simp: shootout_def shot_by_def Let_def value_at_def)
      then show ?thesis by simp
    next
      assume "compareDraw ?x ?y = 2" "0 \<le> ?y" "?x < 0 \<or> ?y < ?x"
      then have "shot_by s rs b a r h f"
        using shoot two by (auto simp: shootout_def shot_by_def Let_def value_at_def)
      then show ?thesis by simp
    qed
  next
    assume "foulSide rs a b = Some a" "?x = FOUL"
    then have "warned s rs a r h f"
      using judge two by (auto simp: penalty_def warned_def Let_def value_at_def MAX_FOULS_def split: if_splits)
    then show ?thesis by simp
  next
    assume "foulSide rs a b = Some b" "?x \<noteq> FOUL" "?y = FOUL"
    then have "warned s rs b r h f"
      using judge two by (auto simp: penalty_def warned_def Let_def value_at_def MAX_FOULS_def split: if_splits)
    then show ?thesis by simp
  qed
qed

lemma resolveRound_sides:
  assumes "two_sides s a b ha hb fa fb" "judge s rs a b now = (r, h, f)"
  shows "resolveRound s seq rs now = Inr (s\<lparr>du_version := du_version s + 1, du_phase := DuelResult, hp := h,
    fouls := f, reactions := rs, du_lastInputSeq := seq, du_nextActionAt := now + hold r, lastRound := Some r\<rparr>)"
  using assms by (simp add: resolveRound_def sides_def two_sides_def)

lemma judged_ok:
  assumes "two_sides s a b ha hb fa fb" "judge s rs a b now = (r, h, f)"
    "wf_map rs" "list_all (\<lambda>e. fst e \<in> set (du_order s)) rs"
  shows "duel_ok (s\<lparr>du_version := v, du_phase := DuelResult, hp := h,
    fouls := f, reactions := rs, du_lastInputSeq := seq, du_nextActionAt := t, lastRound := Some r\<rparr>)"
  using judge_cases[OF assms(1,2)] assms(1,3,4)
  by (elim disjE) (auto simp: tie_between_def warned_def shot_by_def two_sides_def duel_ok_def duel_tables_def
      duel_phase_ok_def all_standing_def standing_def one_down_def value_at_def MAX_HP_def MAX_FOULS_def)

text \<open>A round that is judged: the sides, the judgement and the state that follows.\<close>

lemma resolveRoundE:
  assumes "duel_tables s" "all_standing s" "wf_map rs" "list_all (\<lambda>e. fst e \<in> set (du_order s)) rs"
  obtains a b ha hb fa fb r h f s' where "two_sides s a b ha hb fa fb" "judge s rs a b now = (r, h, f)"
    "resolveRound s seq rs now = Inr s'" "duel_ok s'"
    "s' = s\<lparr>du_version := du_version s + 1, du_phase := DuelResult, hp := h,
       fouls := f, reactions := rs, du_lastInputSeq := seq, du_nextActionAt := now + hold r, lastRound := Some r\<rparr>"
proof (rule standing_sides[OF assms(1,2)])
  fix a b ha hb fa fb assume two: "two_sides s a b ha hb fa fb"
  obtain r h f where j: "judge s rs a b now = (r, h, f)" by (metis prod_cases3)
  show thesis
    by (rule that[OF two j resolveRound_sides[OF two j] judged_ok[OF two j assms(3,4)] refl])
qed

lemma live_standing: "duel_ok s \<Longrightarrow> du_phase s \<in> {DuelWaiting, DuelSignal} \<Longrightarrow> duel_tables s \<and> all_standing s"
  by (auto simp: duel_ok_def duel_phase_ok_def)

lemma resolve_live_ok:
  assumes "duel_ok s" "du_phase s \<in> {DuelWaiting, DuelSignal}" "wf_map rs" "list_all (\<lambda>e. fst e \<in> set (du_order s)) rs"
  shows "\<exists>s'. resolveRound s seq rs now = Inr s' \<and> duel_ok s'"
proof -
  have s: "duel_tables s" "all_standing s" using live_standing[OF assms(1,2)] by simp_all
  show ?thesis by (rule resolveRoundE[OF s assms(3,4), where seq = seq and now = now]) blast
qed

lemma list_all_update:
  "list_all P m \<Longrightarrow> P (k, v) \<Longrightarrow> list_all P (AList.update k v m)"
  by (induction m) auto

lemma tables_reactions:
  "duel_ok s \<Longrightarrow> wf_map (reactions s) \<and> list_all (\<lambda>e. fst e \<in> set (du_order s)) (reactions s)"
  by (simp add: duel_ok_def duel_tables_def)

lemma recorded_bounds:
  "recorded_reaction s inp = FOUL \<or> 0 \<le> recorded_reaction s inp \<and> recorded_reaction s inp \<le> max 0 (di_now inp - signalAt s)"
  by (simp add: recorded_reaction_def)

lemma bookkeeping_ok:
  "duel_ok s \<Longrightarrow> duel_ok (s\<lparr>du_version := v, du_lastInputSeq := seq\<rparr>)"
  by (cases "du_phase s"; cases "lastRound s"; cases "koId (the (lastRound s))")
    (simp_all add: duel_ok_def duel_tables_def duel_phase_ok_def all_standing_def)

lemma draw_ok:
  assumes ok: "duel_ok s" shows "\<exists>s'. draw s inp = Inr s' \<and> duel_ok s'"
proof -
  let ?p = "di_playerId inp" let ?r = "recorded_reaction s inp"
  let ?rs = "AList.update ?p ?r (reactions s)" let ?seq = "AList.update ?p (di_inputSeq inp) (du_lastInputSeq s)"
  consider (ignored) "?p \<notin> set (du_order s) \<or> di_inputSeq inp \<le> value_at (du_lastInputSeq s) ?p (- 1)"
    | (noted) "?p \<in> set (du_order s)" "\<not> di_inputSeq inp \<le> value_at (du_lastInputSeq s) ?p (- 1)"
        "du_phase s \<notin> {DuelWaiting, DuelSignal} \<or> has_key (reactions s) ?p"
    | (judged) "?p \<in> set (du_order s)" "\<not> di_inputSeq inp \<le> value_at (du_lastInputSeq s) ?p (- 1)"
        "du_phase s \<in> {DuelWaiting, DuelSignal}" "\<not> has_key (reactions s) ?p"
        "?r = FOUL \<or> length ?rs = length (du_order s)"
    | (waits) "?p \<in> set (du_order s)" "\<not> di_inputSeq inp \<le> value_at (du_lastInputSeq s) ?p (- 1)"
        "du_phase s \<in> {DuelWaiting, DuelSignal}" "\<not> has_key (reactions s) ?p"
        "?r \<noteq> FOUL" "length ?rs \<noteq> length (du_order s)"
    by blast
  then show ?thesis
  proof cases
    case ignored then show ?thesis using ok by (auto simp: draw_def Let_def)
  next
    case noted
    then have "draw s inp = Inr (s\<lparr>du_version := du_version s + 1, du_lastInputSeq := ?seq\<rparr>)"
      by (auto simp: draw_def Let_def)
    then show ?thesis using bookkeeping_ok[OF ok] by simp
  next
    case judged
    then have "draw s inp = resolveRound s ?seq ?rs (di_now inp)" by (simp add: draw_def Let_def)
    moreover have "wf_map ?rs" "list_all (\<lambda>e. fst e \<in> set (du_order s)) ?rs"
      using tables_reactions[OF ok] judged(1) by (simp_all add: list_all_update)
    ultimately show ?thesis using resolve_live_ok[OF ok judged(3)] by simp
  next
    case waits
    have sig: "du_phase s = DuelSignal" using waits by (auto simp: recorded_reaction_def)
    have len: "length (du_order s) = 2" "length ?rs \<le> 2"
      using ok sig tables_reactions[OF ok] by (auto simp: duel_ok_def duel_tables_def duel_phase_ok_def length_update)
    have "draw s inp = Inr (s\<lparr>du_version := du_version s + 1, reactions := ?rs, du_lastInputSeq := ?seq,
        du_nextActionAt := min (du_nextActionAt s) (di_now inp + GRACE_MILLIS), lastRound := None\<rparr>)" (is "_ = Inr ?s'")
      using waits by (simp add: draw_def Let_def)
    moreover have "duel_ok ?s'"
      using ok sig waits len recorded_bounds[of s inp]
      by (simp add: duel_ok_def duel_tables_def duel_phase_ok_def all_standing_def list_all_update)
    ultimately show ?thesis by blast
  qed
qed

lemma fill_missing_tables:
  "wf_map rs \<Longrightarrow> list_all (\<lambda>e. fst e \<in> set order) rs \<Longrightarrow> set ps \<subseteq> set order \<Longrightarrow>
    wf_map (fill_missing ps rs) \<and> list_all (\<lambda>e. fst e \<in> set order) (fill_missing ps rs)"
  by (induction ps arbitrary: rs) (simp_all add: fill_missing_def list_all_update)

lemma expire_ok:
  assumes ok: "duel_ok s" shows "\<exists>s'. expire s now = Inr s' \<and> duel_ok s'"
proof (cases "du_phase s = DuelSignal")
  case True
  have "wf_map (fill_missing (du_order s) (reactions s)) \<and>
      list_all (\<lambda>e. fst e \<in> set (du_order s)) (fill_missing (du_order s) (reactions s))"
    using tables_reactions[OF ok] by (intro fill_missing_tables) auto
  then show ?thesis using resolve_live_ok[OF ok] True by (simp add: expire_def)
qed (use ok in \<open>simp add: expire_def\<close>)

lemma forfeit_ok:
  assumes ok: "duel_ok s" shows "\<exists>s'. forfeit s p now = Inr s' \<and> duel_ok s'"
proof -
  have tab: "duel_tables s" using ok by (simp add: duel_ok_def)
  show ?thesis
    by (rule duel_tablesE[OF tab]) (use ok in \<open>auto simp: forfeit_def sides_def duel_ok_def duel_tables_def duel_phase_ok_def
        value_at_def MAX_HP_def MAX_FOULS_def Let_def\<close>)
qed

lemma clock_ok:
  assumes ok: "duel_ok s" shows "\<exists>s'. clock s now wait = Inr s' \<and> duel_ok s'"
  using ok signal_ok[OF ok] expire_ok[OF ok] finish_ok[OF ok] nextRound_ok[OF ok]
  by (cases "du_phase s") (simp_all add: clock_def)

lemma duel_step_ok: "duel_ok s \<Longrightarrow> \<exists>s'. duel_step s i = Inr s' \<and> duel_ok s'"
  by (cases i) (simp_all add: draw_ok clock_ok forfeit_ok)

lemma duel_run_ok: "duel_ok s \<Longrightarrow> \<exists>s'. duel_run s is = Inr s' \<and> duel_ok s'"
proof (induction "is" arbitrary: s)
  case (Cons i ins)
  then obtain s1 where "duel_step s i = Inr s1" "duel_ok s1" using duel_step_ok by blast
  then show ?case using Cons.IH by simp
qed simp

section \<open>Versions and repeated inputs\<close>

lemma resolveRound_version:
  "resolveRound s seq rs now = Inr s' \<Longrightarrow> du_version s' = du_version s + 1 \<and> du_lastInputSeq s' = seq \<and>
     du_order s' = du_order s \<and> du_phase s' = DuelResult"
  by (auto simp: resolveRound_def split: sum.splits prod.splits)

lemma draw_version: "draw s inp = Inr s' \<Longrightarrow> s' = s \<or> du_version s' = du_version s + 1"
  by (auto simp: draw_def Let_def dest: resolveRound_version split: if_splits)

lemma clock_version: "clock s now wait = Inr s' \<Longrightarrow> s' = s \<or> du_version s' = du_version s + 1"
  by (auto simp: clock_def signal_def expire_def finish_def nextRound_def dest: resolveRound_version
      split: if_splits duel_phase.splits option.splits)

lemma forfeit_version: "forfeit s p now = Inr s' \<Longrightarrow> s' = s \<or> du_version s' = du_version s + 1"
  by (auto simp: forfeit_def Let_def split: if_splits sum.splits)

lemma duel_step_version: "duel_step s i = Inr s' \<Longrightarrow> s' = s \<or> du_version s' = du_version s + 1"
  by (cases i) (auto dest: draw_version clock_version forfeit_version)

lemma draw_ignored:
  "di_playerId inp \<notin> set (du_order s) \<or> di_inputSeq inp \<le> value_at (du_lastInputSeq s) (di_playerId inp) (- 1) \<Longrightarrow>
     draw s inp = Inr s"
  by (auto simp: draw_def Let_def)

lemma draw_records_seq:
  assumes "draw s inp = Inr s'" "di_playerId inp \<in> set (du_order s)"
    "\<not> di_inputSeq inp \<le> value_at (du_lastInputSeq s) (di_playerId inp) (- 1)"
  shows "value_at (du_lastInputSeq s') (di_playerId inp) (- 1) = di_inputSeq inp \<and> du_order s' = du_order s"
  using assms by (auto simp: draw_def Let_def dest: resolveRound_version split: if_splits)

section \<open>Rounds that count\<close>

definition round_kind :: "duel_state \<Rightarrow> duel_round_kind option" where
  "round_kind s = map_option dr_kind (lastRound s)"

fun decisive_rounds :: "duel_state \<Rightarrow> duel_input list \<Rightarrow> nat" where
  "decisive_rounds s [] = 0"
| "decisive_rounds s (i # is) = (case duel_step s i of Inl e \<Rightarrow> 0
     | Inr s' \<Rightarrow> (if du_phase s \<noteq> DuelResult \<and> du_phase s' = DuelResult \<and> round_kind s' \<noteq> Some TIE then 1 else 0)
         + decisive_rounds s' is)"

definition decided :: "duel_state \<Rightarrow> bool" where
  "decided s = (case lastRound s of None \<Rightarrow> False | Some r \<Rightarrow> over r)"

definition budget :: "duel_state \<Rightarrow> nat" where
  "budget s = (if decided s then 0 else nat (sum_list (map snd (hp s)) - sum_list (map snd (fouls s)) + 1))"

text \<open>What a step may do to the phase.\<close>

lemma judged_budget:
  assumes "two_sides s a b ha hb fa fb" "judge s rs a b now = (r, h, f)" "lastRound s = None"
    "s' = s\<lparr>du_version := v, du_phase := DuelResult, hp := h, fouls := f, reactions := rs, du_lastInputSeq := seq,
       du_nextActionAt := t, lastRound := Some r\<rparr>"
  shows "(if dr_kind r = TIE then 0 else 1) + budget s' \<le> budget s"
  using judge_cases[OF assms(1,2)] assms(1,3,4)
  by (elim disjE) (auto simp: tie_between_def warned_def shot_by_def two_sides_def budget_def decided_def value_at_def)

lemma resolve_budget:
  assumes "duel_ok s" "du_phase s \<in> {DuelWaiting, DuelSignal}" "wf_map rs" "list_all (\<lambda>e. fst e \<in> set (du_order s)) rs"
    "resolveRound s seq rs now = Inr s'"
  shows "(if round_kind s' = Some TIE then 0 else 1) + budget s' \<le> budget s"
proof -
  have s: "duel_tables s" "all_standing s" "lastRound s = None"
    using live_standing[OF assms(1,2)] assms(1,2) by (auto simp: duel_ok_def duel_phase_ok_def)
  show ?thesis
  proof (rule resolveRoundE[OF s(1,2) assms(3,4), where seq = seq and now = now])
    fix a b ha hb fa fb r h f s''
    assume two: "two_sides s a b ha hb fa fb" "judge s rs a b now = (r, h, f)"
      and res: "resolveRound s seq rs now = Inr s''"
      and s'': "s'' = s\<lparr>du_version := du_version s + 1, du_phase := DuelResult, hp := h,
       fouls := f, reactions := rs, du_lastInputSeq := seq, du_nextActionAt := now + hold r, lastRound := Some r\<rparr>"
    have eq: "s'' = s'" using res assms(5) by simp
    have "round_kind s' = Some (dr_kind r)" unfolding eq[symmetric] s'' by (simp add: round_kind_def)
    then show ?thesis using judged_budget[OF two s(3) s''] eq by simp
  qed
qed

text \<open>A step either judges a round or leaves the budget no larger and does not enter the result phase.\<close>

lemma step_judges:
  assumes ok: "duel_ok s" and step: "duel_step s i = Inr s'" and result: "du_phase s \<noteq> DuelResult" "du_phase s' = DuelResult"
  obtains seq rs now where "du_phase s \<in> {DuelWaiting, DuelSignal}" "wf_map rs"
    "list_all (\<lambda>e. fst e \<in> set (du_order s)) rs" "resolveRound s seq rs now = Inr s'"
proof (cases i)
  case (Draw inp)
  let ?p = "di_playerId inp"
  let ?rs = "AList.update ?p (recorded_reaction s inp) (reactions s)"
  let ?seq = "AList.update ?p (di_inputSeq inp) (du_lastInputSeq s)"
  have "du_phase s \<in> {DuelWaiting, DuelSignal}" "?p \<in> set (du_order s)"
    "resolveRound s ?seq ?rs (di_now inp) = Inr s'"
    using step result Draw by (auto simp: draw_def Let_def split: if_splits)
  moreover have "wf_map ?rs" "list_all (\<lambda>e. fst e \<in> set (du_order s)) ?rs"
    using tables_reactions[OF ok] calculation(2) by (simp_all add: list_all_update)
  ultimately show thesis using that by blast
next
  case (Clock now wait)
  let ?rs = "fill_missing (du_order s) (reactions s)"
  have "du_phase s = DuelSignal" "resolveRound s (du_lastInputSeq s) ?rs now = Inr s'"
    using step result Clock by (auto simp: clock_def signal_def expire_def nextRound_def finish_def
        split: duel_phase.splits option.splits if_splits)
  moreover have "wf_map ?rs" "list_all (\<lambda>e. fst e \<in> set (du_order s)) ?rs"
    using tables_reactions[OF ok] fill_missing_tables[of "reactions s" "du_order s" "du_order s"] by simp_all
  ultimately show thesis using that by blast
next
  case (Leave p now)
  then show thesis using step result by (auto simp: forfeit_def Let_def split: if_splits sum.splits)
qed

lemma budget_frame:
  "hp s' = hp s \<Longrightarrow> fouls s' = fouls s \<Longrightarrow> decided s \<Longrightarrow> decided s' \<Longrightarrow> budget s' \<le> budget s"
  by (simp add: budget_def)

lemma quiet_draw:
  "draw s inp = Inr s' \<Longrightarrow> du_phase s' \<noteq> DuelResult \<or> du_phase s = DuelResult \<Longrightarrow> duel_ok s \<Longrightarrow> budget s' = budget s"
  by (auto simp: draw_def Let_def budget_def decided_def duel_ok_def duel_phase_ok_def dest: resolveRound_version
      split: if_splits duel_phase.splits option.splits)

lemma quiet_clock:
  "clock s now wait = Inr s' \<Longrightarrow> du_phase s' \<noteq> DuelResult \<or> du_phase s = DuelResult \<Longrightarrow> duel_ok s \<Longrightarrow> budget s' = budget s"
  by (auto simp: clock_def signal_def expire_def nextRound_def finish_def budget_def decided_def duel_ok_def duel_phase_ok_def
      dest: resolveRound_version split: if_splits duel_phase.splits option.splits)

lemma quiet_forfeit: "forfeit s p now = Inr s' \<Longrightarrow> budget s' \<le> budget s"
  by (auto simp: forfeit_def Let_def budget_def decided_def split: if_splits sum.splits)

lemma step_budget:
  assumes "duel_ok s" "duel_step s i = Inr s'"
  shows "(if du_phase s \<noteq> DuelResult \<and> du_phase s' = DuelResult \<and> round_kind s' \<noteq> Some TIE then 1 else 0)
    + budget s' \<le> budget s"
proof (cases "du_phase s \<noteq> DuelResult \<and> du_phase s' = DuelResult")
  case True
  then obtain seq rs now where "du_phase s \<in> {DuelWaiting, DuelSignal}" "wf_map rs"
    "list_all (\<lambda>e. fst e \<in> set (du_order s)) rs" "resolveRound s seq rs now = Inr s'"
    using step_judges[OF assms] by blast
  then have "(if round_kind s' = Some TIE then 0 else 1) + budget s' \<le> budget s"
    by (rule resolve_budget[OF assms(1)])
  then show ?thesis using True by (simp split: if_splits)
next
  case False
  then show ?thesis using assms
    by (cases i) (auto dest: quiet_draw quiet_clock quiet_forfeit)
qed

lemma decisive_within_budget: "duel_ok s \<Longrightarrow> decisive_rounds s ins \<le> budget s"
proof (induction ins arbitrary: s)
  case (Cons i ins)
  obtain s1 where s1: "duel_step s i = Inr s1" "duel_ok s1" using duel_step_ok[OF Cons.prems] by blast
  show ?case using step_budget[OF Cons.prems s1(1)] Cons.IH[OF s1(2)] s1(1) by simp
qed simp

lemma initial_budget:
  "initialDuelState players now wait = Inr s \<Longrightarrow> distinct players \<Longrightarrow> budget s = 7"
  by (auto simp: initialDuelState_def budget_def decided_def MAX_HP_def numeral_2_eq_2 length_Suc_conv
      map_from_pairs_def split: if_splits)

section \<open>Properties\<close>

text \<open>C17: from a start with two players, every sequence of draws, clock ticks and departures runs through
  (no transition throws) and ends in a state where each player has 0 to 3 bullets and 0 to 2 warnings, the
  tables are those of the two players, and the phase agrees with the tables: both stand while the round is
  open, and a decided round names the one player who is down.\<close>

theorem duel_keeps_its_bounds:
  assumes "initialDuelState players now wait = Inr s0" "distinct players"
  shows "\<exists>s. duel_run s0 ins = Inr s \<and> duel_ok s"
  using duel_run_ok[OF initial_duel_ok[OF assms]] .

definition two_players :: "string list" where "two_players = [''ann'', ''bob'']"

definition duel_start :: duel_state where
  "duel_start = projr (initialDuelState two_players 1000 2000)"

definition fast_draw :: "string \<Rightarrow> rat \<Rightarrow> rat \<Rightarrow> int \<Rightarrow> draw_input" where
  "fast_draw p n ms now = \<lparr>di_playerId = p, di_inputSeq = n, reportedMs = ms, di_now = now\<rparr>"

lemma duel_start_eq: "initialDuelState two_players 1000 2000 = Inr duel_start"
  by (simp add: duel_start_def initialDuelState_def two_players_def)

lemma two_players_distinct: "distinct two_players"
  by (simp add: two_players_def)

theorem duel_keeps_its_bounds_witness:
  "\<exists>s. duel_run duel_start [Clock 3000 2000, Draw (fast_draw ''bob'' 0 210 3300), Leave ''ann'' 3400] = Inr s \<and> duel_ok s"
  by (rule duel_keeps_its_bounds[OF duel_start_eq two_players_distinct])

text \<open>What a step hands to the judgement: the recorded reactions, the numbers of the last inputs and the time.
  A draw adds its own reaction and number; the clock lets everybody who has not drawn miss.\<close>

fun handed_in :: "duel_state \<Rightarrow> duel_input \<Rightarrow> (string \<times> int) list \<times> (string \<times> rat) list \<times> int" where
  "handed_in s (Draw inp) = (AList.update (di_playerId inp) (recorded_reaction s inp) (reactions s),
     AList.update (di_playerId inp) (di_inputSeq inp) (du_lastInputSeq s), di_now inp)"
| "handed_in s (Clock now wait) = (fill_missing (du_order s) (reactions s), du_lastInputSeq s, now)"
| "handed_in s (Leave p now) = (reactions s, du_lastInputSeq s, now)"

lemma step_hands_in:
  assumes "duel_ok s" and "duel_step s i = Inr s'" and "du_phase s \<noteq> DuelResult" "du_phase s' = DuelResult"
  obtains seq rs tm where "handed_in s i = (rs, seq, tm)" "resolveRound s seq rs tm = Inr s'"
    "du_phase s \<in> {DuelWaiting, DuelSignal}"
proof (cases i)
  case (Draw inp)
  then show thesis using that assms(2-4) by (auto simp: draw_def Let_def split: if_splits)
next
  case (Clock now wait)
  then show thesis using that assms(2-4) by (auto simp: clock_def signal_def expire_def nextRound_def finish_def
        split: duel_phase.splits option.splits if_splits)
next
  case (Leave p now)
  then show thesis using assms(2-4) by (auto simp: forfeit_def Let_def split: if_splits sum.splits)
qed

lemma judge_stamps: "judge s rs a b now = (r, h, f) \<Longrightarrow> dr_number r = du_round s \<and> dr_at r = now"
  by (auto simp: judge_def penalty_def shootout_def Let_def split: option.splits prod.splits if_splits)

text \<open>C18: a round that is judged follows the recorded reactions, which are those of before with the draw that
  arrived, or with a miss for everybody who has not drawn when the time is up: either nobody is hurt (the
  reactions are equal or both failed), or the player who drew before the signal gets a warning and on the
  second one loses on the spot while the opponent's bullets and warnings stay as they were, or the faster player
  takes exactly one bullet from the other; it is over exactly when that was the last bullet. The state that
  follows is the old one with the bullets, warnings and reactions of the judgement, the number of the input that
  caused it, the round shown with its number and time, the result phase until the hold of this round
  ends, and the next version; nothing else changes.\<close>

theorem duel_judges_by_the_reactions:
  assumes "duel_ok s" "duel_step s i = Inr s'" "du_phase s \<noteq> DuelResult" "du_phase s' = DuelResult"
  shows "\<exists>a b r rs seq tm. du_order s = [a, b] \<and> handed_in s i = (rs, seq, tm) \<and>
    (tie_between s rs a b r (hp s') (fouls s') \<or>
     warned s rs a r (hp s') (fouls s') \<or> warned s rs b r (hp s') (fouls s') \<or>
     shot_by s rs a b r (hp s') (fouls s') \<or> shot_by s rs b a r (hp s') (fouls s')) \<and>
    dr_number r = du_round s \<and> dr_at r = tm \<and>
    s' = s\<lparr>du_version := du_version s + 1, du_phase := DuelResult, hp := hp s', fouls := fouls s', reactions := rs,
      du_lastInputSeq := seq, du_nextActionAt := tm + hold r, lastRound := Some r\<rparr>"
proof -
  obtain seq rs tm where hand: "handed_in s i = (rs, seq, tm)" and res: "resolveRound s seq rs tm = Inr s'"
    and live: "du_phase s \<in> {DuelWaiting, DuelSignal}"
    using step_hands_in[OF assms] by blast
  have s: "duel_tables s" "all_standing s" using live_standing[OF assms(1) live] by simp_all
  obtain a b ha hb fa fb where two: "two_sides s a b ha hb fa fb" using standing_sides[OF s] by blast
  obtain r h f where j: "judge s rs a b tm = (r, h, f)" by (metis prod_cases3)
  have s': "s' = s\<lparr>du_version := du_version s + 1, du_phase := DuelResult, hp := h, fouls := f, reactions := rs,
      du_lastInputSeq := seq, du_nextActionAt := tm + hold r, lastRound := Some r\<rparr>"
    using resolveRound_sides[OF two j, of seq] res by simp
  show ?thesis
    by (rule exI[of _ a], rule exI[of _ b], rule exI[of _ r], rule exI[of _ rs], rule exI[of _ seq], rule exI[of _ tm])
      (use judge_cases[OF two j] judge_stamps[OF j] two hand in \<open>simp add: s' two_sides_def\<close>)
qed

definition after_signal :: duel_state where
  "after_signal = projr (duel_run duel_start [Clock 3000 2000, Draw (fast_draw ''bob'' 0 210 3300)])"

lemmas duel_eval = duel_start_def initialDuelState_def two_players_def map_from_pairs_def clock_def signal_def
  draw_def fast_draw_def value_at_def has_key_def recorded_reaction_def trunc_def FOUL_def resolveRound_def
  sides_def judge_def foulSide_def shootout_def penalty_def compareDraw_def MISS_def MAX_HP_def MAX_FOULS_def
  FREEZE_MILLIS_def GRACE_MILLIS_def hold_def Let_def

lemma after_signal_eq: "duel_run duel_start [Clock 3000 2000, Draw (fast_draw ''bob'' 0 210 3300)] = Inr after_signal"
  by (simp add: after_signal_def duel_eval)

lemma after_signal_ok: "duel_ok after_signal"
  using duel_run_ok[OF initial_duel_ok[OF duel_start_eq two_players_distinct],
      of "[Clock 3000 2000, Draw (fast_draw ''bob'' 0 210 3300)]"] after_signal_eq by simp

theorem duel_judges_by_the_reactions_witness:
  "\<exists>s'. duel_step after_signal (Draw (fast_draw ''ann'' 0 190 3300)) = Inr s' \<and>
    (\<exists>a b r. du_order after_signal = [a, b] \<and> lastRound s' = Some r \<and> dr_number r = du_round after_signal)"
proof -
  have phase: "du_phase after_signal \<noteq> DuelResult" by (simp add: after_signal_def duel_eval)
  obtain s' where step: "duel_step after_signal (Draw (fast_draw ''ann'' 0 190 3300)) = Inr s'"
    using duel_step_ok[OF after_signal_ok] by blast
  have "du_phase s' = DuelResult"
    using step by (auto simp: after_signal_def duel_eval)
  from duel_judges_by_the_reactions[OF after_signal_ok step phase this]
  obtain a b r where "du_order after_signal = [a, b]" "lastRound s' = Some r" "dr_number r = du_round after_signal"
    by (metis duel_state.select_convs(11) duel_state.surjective duel_state.update_convs(11))
  then show ?thesis using step by blast
qed

text \<open>whatever the players do, at most seven rounds of a duel are anything but a tie.\<close>

theorem duel_is_short:
  assumes "initialDuelState players now wait = Inr s0" "distinct players"
  shows "decisive_rounds s0 ins \<le> 7"
  using decisive_within_budget[OF initial_duel_ok[OF assms]] initial_budget[OF assms] by metis

theorem duel_is_short_witness:
  "decisive_rounds duel_start [Draw (fast_draw ''bob'' 0 0 1500), Clock 4000 2000, Draw (fast_draw ''bob'' 1 0 4500)] \<le> 7"
  by (rule duel_is_short[OF duel_start_eq two_players_distinct])

text \<open>a draw that arrives again, or any later draw with a number not above it, changes nothing.\<close>

theorem duel_draw_counts_once:
  assumes "draw s inp = Inr s'" "di_playerId again = di_playerId inp" "di_inputSeq again \<le> di_inputSeq inp"
  shows "draw s' again = Inr s'"
proof (cases "di_playerId inp \<notin> set (du_order s) \<or> di_inputSeq inp \<le> value_at (du_lastInputSeq s) (di_playerId inp) (- 1)")
  case True
  then have "s' = s" using draw_ignored[of inp s] assms(1) by simp
  then show ?thesis using True assms(2,3) by (intro draw_ignored) auto
next
  case False
  then have "value_at (du_lastInputSeq s') (di_playerId inp) (- 1) = di_inputSeq inp"
    using draw_records_seq[OF assms(1)] by simp
  then show ?thesis using assms(2,3) by (intro draw_ignored) simp
qed

theorem duel_draw_counts_once_witness:
  "\<exists>s'. draw after_signal (fast_draw ''ann'' 7 190 3300) = Inr s' \<and> draw s' (fast_draw ''ann'' 7 5 3300) = Inr s'"
proof -
  obtain s' where s': "draw after_signal (fast_draw ''ann'' 7 190 3300) = Inr s'"
    using draw_ok[OF after_signal_ok] by blast
  show ?thesis using duel_draw_counts_once[OF s'] s' by (simp add: fast_draw_def)
qed

text \<open>when a duel ends by a shot or by fouls, the fallen player scores nothing and the other between one
  and three points, so the ranking by score puts the survivor first even when the fallen had bullets left.\<close>

theorem duel_survivor_outscores_the_fallen:
  assumes "initialDuelState players now wait = Inr s0" "distinct players" "duel_run s0 ins = Inr s"
    "du_phase s = DuelFinished" "round_kind s \<noteq> Some DUEL_FORFEIT"
  shows "\<exists>p q. set (du_order s) = {p, q} \<and> p \<noteq> q \<and> value_at (final_scores s) p 0 = 0 \<and>
    value_at (final_scores s) q 0 \<in> {1..3}"
proof -
  have ok: "duel_ok s" using duel_run_ok[OF initial_duel_ok[OF assms(1,2)], of ins] assms(3) by simp
  then have tab: "duel_tables s" by (simp add: duel_ok_def)
  obtain r k where k: "lastRound s = Some r" "koId r = Some k" "one_down (du_order s) (hp s) (fouls s) k"
    using ok assms(4,5) by (auto simp: duel_ok_def duel_phase_ok_def round_kind_def split: option.splits)
  show ?thesis
  proof (rule duel_tablesE[OF tab])
    fix a b ha hb fa fb
    assume *: "du_order s = [a, b]" "a \<noteq> b" "hp s = [(a, ha), (b, hb)]" "fouls s = [(a, fa), (b, fb)]"
      "ha \<le> 3" "hb \<le> 3"
    have scores: "final_scores s = [(a, if a = k then 0 else ha), (b, if b = k then 0 else hb)]"
      using * k(1,2) by (simp add: final_scores_def map_from_pairs_def)
    have "k = a \<or> k = b" using k(3) *(1) by (auto simp: one_down_def)
    then show ?thesis
    proof
      assume "k = a"
      then show ?thesis using * k(3) scores
        by (intro exI[of _ a] exI[of _ b]) (simp add: value_at_def one_down_def standing_def)
    next
      assume "k = b"
      then show ?thesis using * k(3) scores
        by (intro exI[of _ b] exI[of _ a]) (auto simp add: value_at_def one_down_def standing_def)
    qed
  qed
qed

definition two_fouls :: "duel_input list" where
  "two_fouls = [Draw (fast_draw ''bob'' 0 0 1500), Clock 4000 2000, Draw (fast_draw ''bob'' 1 0 4500), Clock 8000 2000]"

theorem duel_survivor_outscores_the_fallen_witness:
  "\<exists>s. duel_run duel_start two_fouls = Inr s \<and> (\<exists>p q. set (du_order s) = {p, q} \<and> p \<noteq> q \<and>
    value_at (final_scores s) p 0 = 0 \<and> value_at (final_scores s) q 0 \<in> {1..3})"
proof -
  obtain s where s: "duel_run duel_start two_fouls = Inr s"
    using duel_run_ok[OF initial_duel_ok[OF duel_start_eq two_players_distinct]] by blast
  have "du_phase s = DuelFinished" "round_kind s \<noteq> Some DUEL_FORFEIT"
    using s by (auto simp: two_fouls_def duel_eval nextRound_def finish_def round_kind_def)
  then show ?thesis
    using duel_survivor_outscores_the_fallen[OF duel_start_eq two_players_distinct s] s by blast
qed

text \<open>One tick of a duel in which nobody draws.\<close>

lemma idle_tick:
  assumes "duel_ok s" "reactions s = [] \<or> du_phase s = DuelResult" "\<not> decided s" "du_phase s \<noteq> DuelFinished"
    "clock s now wait = Inr s'"
  shows "duel_ok s' \<and> (reactions s' = [] \<or> du_phase s' = DuelResult) \<and> \<not> decided s' \<and> du_phase s' \<noteq> DuelFinished \<and>
    hp s' = hp s \<and> fouls s' = fouls s \<and> du_version s' = du_version s + 1"
proof (cases "du_phase s")
  case DuelSignal
  have s: "duel_tables s" "all_standing s" using live_standing[OF assms(1)] DuelSignal by simp_all
  obtain a b ha hb fa fb where two: "two_sides s a b ha hb fa fb" using standing_sides[OF s] by blast
  let ?rs = "[(a, MISS), (b, MISS)]"
  obtain r h f where j: "judge s ?rs a b now = (r, h, f)" by (metis prod_cases3)
  have "fill_missing (du_order s) (reactions s) = ?rs"
    using two DuelSignal assms(2) by (auto simp: two_sides_def fill_missing_def has_key_def)
  then have res: "resolveRound s (du_lastInputSeq s) ?rs now = Inr s'"
    using assms(5) DuelSignal by (simp add: clock_def expire_def)
  have "tie_between s ?rs a b r h f"
    using judge_cases[OF two j] two
    by (auto simp: warned_def shot_by_def two_sides_def value_at_def MISS_def FOUL_def)
  then show ?thesis
    using resolveRound_sides[OF two j] res judged_ok[OF two j] two clock_ok[OF assms(1), of now wait] assms(5)
    by (auto simp: tie_between_def decided_def two_sides_def)
next
  case DuelResult
  then show ?thesis using assms clock_ok[OF assms(1), of now wait]
    by (auto simp: clock_def nextRound_def decided_def duel_ok_def duel_phase_ok_def split: option.splits if_splits)
qed (use assms clock_ok[OF assms(1), of now wait] in \<open>auto simp: clock_def signal_def decided_def\<close>)

lemma idle_run:
  assumes "duel_ok s" "reactions s = [] \<or> du_phase s = DuelResult" "\<not> decided s" "du_phase s \<noteq> DuelFinished"
    "duel_run s (map (\<lambda>(now, wait). Clock now wait) ticks) = Inr s'"
  shows "du_phase s' \<noteq> DuelFinished \<and> hp s' = hp s \<and> fouls s' = fouls s \<and>
    du_version s' = du_version s + int (length ticks)"
  using assms
proof (induction ticks arbitrary: s)
  case (Cons t ticks)
  obtain now wait where t: "t = (now, wait)" by (cases t)
  obtain s1 where s1: "clock s now wait = Inr s1" using clock_ok[OF Cons.prems(1)] by blast
  have tick: "duel_ok s1 \<and> (reactions s1 = [] \<or> du_phase s1 = DuelResult) \<and> \<not> decided s1 \<and> du_phase s1 \<noteq> DuelFinished \<and>
    hp s1 = hp s \<and> fouls s1 = fouls s \<and> du_version s1 = du_version s + 1"
    by (rule idle_tick[OF Cons.prems(1-4) s1])
  have "duel_run s1 (map (\<lambda>(now, wait). Clock now wait) ticks) = Inr s'"
    using Cons.prems(5) s1 t by simp
  then show ?case using Cons.IH[of s1] tick by simp
qed simp

text \<open>a duel nobody plays goes round in ties for ever: no number of clock ticks finishes it or costs
  anybody a bullet.\<close>

theorem idle_duel_never_ends:
  assumes "initialDuelState players now wait = Inr s0" "distinct players"
    "duel_run s0 (map (\<lambda>(now, wait). Clock now wait) ticks) = Inr s"
  shows "du_phase s \<noteq> DuelFinished \<and> hp s = hp s0 \<and> fouls s = fouls s0 \<and> du_version s = 1 + int (length ticks)"
proof -
  have "reactions s0 = []" "\<not> decided s0" "du_phase s0 \<noteq> DuelFinished" "du_version s0 = 1"
    using assms(1) by (auto simp: initialDuelState_def decided_def split: if_splits)
  then show ?thesis using idle_run[OF initial_duel_ok[OF assms(1,2)] _ _ _ assms(3)] by simp
qed

definition three_ticks :: "(int \<times> int) list" where "three_ticks = [(3000, 2000), (5600, 2000), (7250, 2000)]"

theorem idle_duel_never_ends_witness:
  "\<exists>s. duel_run duel_start (map (\<lambda>(now, wait). Clock now wait) three_ticks) = Inr s \<and> du_phase s \<noteq> DuelFinished \<and>
    hp s = hp duel_start \<and> fouls s = fouls duel_start \<and> du_version s = 1 + int (length three_ticks)"
proof -
  obtain s where s: "duel_run duel_start (map (\<lambda>(now, wait). Clock now wait) three_ticks) = Inr s"
    using duel_run_ok[OF initial_duel_ok[OF duel_start_eq two_players_distinct]] by blast
  show ?thesis using idle_duel_never_ends[OF duel_start_eq two_players_distinct s] s by blast
qed

end
