(* ===== verification/PingPong.thy ===== *)
theory PingPong
  imports Complex_Main Prelude
begin

text \<open>
  The table tennis game (\<open>game/pingpong\<close>): the state (\<open>pingPongState.ts\<close>), the trajectory of the ball
  and the grades of a swing (\<open>pingPongCourtMath.ts\<close>), points, serves and the end
  (\<open>pingPongScoring.ts\<close>), ready and swing (\<open>pingPongRules.ts\<close>).

  Positions and speeds are exact rationals where the code computes in doubles: the model says what
  the formulas mean, not how a double rounds at the edge of a window. Times are the integer
  milliseconds of the server clock; the judged time of a swing may carry a client time stamp, which is
  any finite number, so it is a rational too.
\<close>

section \<open>Data\<close>

datatype pp_phase = PREPARING | COUNTDOWN | PLAYING | PP_FINISHED

datatype pp_fault = FaultOut | FaultNet

datatype pp_event_type = READY | PRACTICE | PLAYER_READY | SERVE | TOO_EARLY | TOO_LATE | OK | NICE | SMASH
  | OUT | NET | POINT | GAME_OVER | OPPONENT_LEFT

type_synonym pp_direction = int

record pp_ball =
  pos :: rat
  direction :: pp_direction
  speed :: rat
  smash :: bool
  fault :: "pp_fault option"
  faultFrom :: rat
  x0 :: rat
  x1 :: rat
  launchedAt :: rat

record pp_event =
  pe_id :: int
  pe_type :: pp_event_type
  pe_player :: string
  pe_at :: rat

record pp_state =
  pp_version :: int
  pp_phase :: pp_phase
  pp_order :: "string list"
  pp_scores :: "(string \<times> int) list"
  pp_lastInputSeq :: "(string \<times> rat) list"
  readyPlayerIds :: "string list"
  ball :: pp_ball
  rally :: int
  serveReceiverId :: "string option"
  pp_nextActionAt :: rat
  pp_lastEvent :: "pp_event option"

definition isPingPongFinished :: "pp_state \<Rightarrow> bool" where
  "isPingPongFinished s = (pp_phase s = PP_FINISHED)"

section \<open>The court\<close>

definition NORMAL_SPEED :: rat where "NORMAL_SPEED = 1"
definition SMASH_SPEED :: rat where "SMASH_SPEED = 195 / 100"
definition WEAK_SPEED :: rat where "WEAK_SPEED = 82 / 100"
definition WIN_SCORE :: int where "WIN_SCORE = 11"
definition POINT_COUNTDOWN_MILLIS :: rat where "POINT_COUNTDOWN_MILLIS = 2600"
definition MAX_ROLLBACK_MILLIS :: rat where "MAX_ROLLBACK_MILLIS = 120"
definition IDEAL_1 :: rat where "IDEAL_1 = 9 / 10"
definition WINDOW_1_LOW :: rat where "WINDOW_1_LOW = 72 / 100"
definition WINDOW_1_HIGH :: rat where "WINDOW_1_HIGH = 106 / 100"
definition MISS_1 :: rat where "MISS_1 = 11 / 10"
definition IDEAL_2 :: rat where "IDEAL_2 = 1 - IDEAL_1"
definition WINDOW_2_LOW :: rat where "WINDOW_2_LOW = 1 - WINDOW_1_HIGH"
definition WINDOW_2_HIGH :: rat where "WINDOW_2_HIGH = 1 - WINDOW_1_LOW"
definition MISS_2 :: rat where "MISS_2 = 1 - MISS_1"
definition PERFECT_DISTANCE :: rat where "PERFECT_DISTANCE = 6 / 100"
definition GOOD_DISTANCE :: rat where "GOOD_DISTANCE = 1 / 10"
definition FAULT_BAND :: rat where "FAULT_BAND = 4 / 100"
definition EARLY_MARGIN :: rat where "EARLY_MARGIN = IDEAL_1 - WINDOW_1_LOW"
definition LATE_MARGIN :: rat where "LATE_MARGIN = WINDOW_1_HIGH - IDEAL_1"

lemmas court = NORMAL_SPEED_def SMASH_SPEED_def WEAK_SPEED_def IDEAL_1_def WINDOW_1_LOW_def WINDOW_1_HIGH_def
  MISS_1_def IDEAL_2_def WINDOW_2_LOW_def WINDOW_2_HIGH_def MISS_2_def PERFECT_DISTANCE_def GOOD_DISTANCE_def
  FAULT_BAND_def EARLY_MARGIN_def LATE_MARGIN_def

definition progress :: "rat \<Rightarrow> pp_direction \<Rightarrow> rat" where
  "progress p dir = (if dir > 0 then p else 1 - p)"

text \<open>\<open>Math.round\<close> rounds halves up.\<close>

definition math_round :: "rat \<Rightarrow> int" where
  "math_round x = \<lfloor>x + 1 / 2\<rfloor>"

definition duration :: "rat \<Rightarrow> rat \<Rightarrow> rat \<Rightarrow> rat" where
  "duration from_pos to_pos v = of_int (max 1 (math_round (\<bar>to_pos - from_pos\<bar> / v * 1000)))"

definition missDeadline :: "pp_ball \<Rightarrow> rat \<Rightarrow> rat" where
  "missDeadline b now = now + duration (pos b) (if direction b > 0 then MISS_1 else MISS_2) (speed b)"

definition flightDeadline :: "pp_ball \<Rightarrow> rat \<Rightarrow> rat" where
  "flightDeadline b now = now + duration (pos b)
     (if fault b = Some FaultNet then 1 / 2
      else if fault b = Some FaultOut then (if direction b > 0 then 3 / 2 else - 1 / 2)
      else if direction b > 0 then MISS_1 else MISS_2) (speed b)"

definition ballAt :: "pp_ball \<Rightarrow> rat \<Rightarrow> pp_ball" where
  "ballAt b now = (let elapsed = max 0 (now - launchedAt b) / 1000 in
     b\<lparr>pos := pos b + of_int (direction b) * speed b * elapsed, launchedAt := now\<rparr>)"

definition ballX :: "pp_ball \<Rightarrow> rat" where
  "ballX b = x0 b + (x1 b - x0 b) * max 0 (min 1 (progress (pos b) (direction b)))"

definition faultOf :: "rat \<Rightarrow> bool \<Rightarrow> pp_fault option" where
  "faultOf distance early =
    (if distance \<le> (if early then EARLY_MARGIN else LATE_MARGIN) - FAULT_BAND then None
     else Some (if early then FaultOut else FaultNet))"

definition returnKind :: "rat \<Rightarrow> pp_fault option \<Rightarrow> rat \<times> bool \<times> pp_event_type" where
  "returnKind distance flt =
    (if flt = Some FaultOut then (NORMAL_SPEED, False, OUT)
     else if flt = Some FaultNet then (WEAK_SPEED, False, NET)
     else if distance \<le> PERFECT_DISTANCE then (SMASH_SPEED, True, SMASH)
     else if distance \<le> GOOD_DISTANCE then (NORMAL_SPEED, False, NICE)
     else (WEAK_SPEED, False, OK))"

section \<open>Points, serves and the end\<close>

definition seatOf :: "pp_state \<Rightarrow> string \<Rightarrow> int" where
  "seatOf s p = index_of p (pp_order s)"

definition pp_event_of :: "int \<Rightarrow> pp_event_type \<Rightarrow> string \<Rightarrow> rat \<Rightarrow> pp_event" where
  "pp_event_of v kind p now = \<lparr>pe_id = v, pe_type = kind, pe_player = p, pe_at = now\<rparr>"

text \<open>\<open>playerOrder[i] as string\<close>: a missing seat would be \<open>undefined\<close>, read here as the empty name.\<close>

definition seat_at :: "string list \<Rightarrow> nat \<Rightarrow> string" where
  "seat_at order i = (if i < length order then order ! i else [])"

definition serveReceiver :: "string list \<Rightarrow> (string \<times> int) list \<Rightarrow> string" where
  "serveReceiver order scores =
    (let first = value_at scores (seat_at order 0) 0;
         second = value_at scores (seat_at order 1) 0;
         total = first + second;
         serviceTurn = (if total < 20 then total div 2 else 10 + (total - 20))
     in seat_at order (nat (serviceTurn mod 2)))"

definition serve :: "pp_state \<Rightarrow> rat \<Rightarrow> rat \<Rightarrow> pp_state" where
  "serve s now targetX = (if pp_phase s \<noteq> COUNTDOWN then s
     else (let receiver = index_of (case serveReceiverId s of Some p \<Rightarrow> p | None \<Rightarrow> []) (pp_order s);
               dir = (if receiver = 0 then 1 else - 1);
               b = \<lparr>pos = (if dir > 0 then 0 else 1), direction = dir, speed = NORMAL_SPEED, smash = False,
                 fault = None, faultFrom = 0, x0 = 1 / 2, x1 = targetX, launchedAt = now\<rparr>;
               v = pp_version s + 1
           in s\<lparr>pp_version := v, pp_phase := PLAYING, ball := b, rally := 0,
                pp_nextActionAt := missDeadline b now,
                pp_lastEvent := Some (pp_event_of v SERVE (case serveReceiverId s of Some p \<Rightarrow> p | None \<Rightarrow> []) now)\<rparr>))"

definition point :: "pp_state \<Rightarrow> nat \<Rightarrow> pp_ball \<Rightarrow> rat \<Rightarrow> pp_state" where
  "point s scorer b now =
    (let scorerId = seat_at (pp_order s) scorer;
         score = value_at (pp_scores s) scorerId 0 + 1;
         scores = AList.update scorerId score (pp_scores s);
         opponentScore = value_at scores (seat_at (pp_order s) (if scorer = 0 then 1 else 0)) 0;
         v = pp_version s + 1;
         finished = score \<ge> WIN_SCORE \<and> score - opponentScore \<ge> 2
     in s\<lparr>pp_version := v, pp_phase := (if finished then PP_FINISHED else COUNTDOWN), pp_scores := scores, ball := b,
          serveReceiverId := (if finished then None else Some (serveReceiver (pp_order s) scores)),
          pp_nextActionAt := (if finished then 0 else now + POINT_COUNTDOWN_MILLIS),
          pp_lastEvent := Some (pp_event_of v (if finished then GAME_OVER else POINT) scorerId now)\<rparr>)"

definition pp_expire :: "pp_state \<Rightarrow> rat \<Rightarrow> pp_state" where
  "pp_expire s now = (if pp_phase s \<noteq> PLAYING then s
     else (let b = ballAt (ball s) now;
               scorer = (if fault b \<noteq> None then (if direction b < 0 then 1 else 0)
                 else if direction b > 0 then 1 else 0)
           in point s scorer b now))"

definition pp_forfeit :: "pp_state \<Rightarrow> string \<Rightarrow> rat \<Rightarrow> pp_state" where
  "pp_forfeit s p now = (let loser = seatOf s p in
     if loser < 0 \<or> pp_phase s = PP_FINISHED then s
     else (let winnerId = seat_at (pp_order s) (if loser = 0 then 1 else 0); v = pp_version s + 1
           in s\<lparr>pp_version := v, pp_phase := PP_FINISHED, pp_scores := AList.update winnerId WIN_SCORE (pp_scores s),
                serveReceiverId := None, pp_nextActionAt := 0,
                pp_lastEvent := Some (pp_event_of v OPPONENT_LEFT winnerId now)\<rparr>))"

section \<open>Ready and swing\<close>

definition judgedAt :: "rat \<Rightarrow> rat \<Rightarrow> rat" where
  "judgedAt now clientTs = max (now - MAX_ROLLBACK_MILLIS) (min now clientTs)"

definition pp_initial :: "string list \<Rightarrow> rat \<Rightarrow> coded_error + pp_state" where
  "pp_initial players now =
    (if length players \<noteq> 2 then Inl (DomainError ''ping_pong_requires_two_players'')
     else Inr \<lparr>pp_version = 1, pp_phase = PREPARING, pp_order = players,
       pp_scores = map_from_pairs (map (\<lambda>p. (p, 0)) players),
       pp_lastInputSeq = map_from_pairs (map (\<lambda>p. (p, - 1)) players), readyPlayerIds = [],
       ball = \<lparr>pos = 0, direction = 1, speed = NORMAL_SPEED, smash = False, fault = None, faultFrom = 0,
         x0 = 1 / 2, x1 = 1 / 2, launchedAt = now\<rparr>,
       rally = 0, serveReceiverId = Some (hd players), pp_nextActionAt = 0,
       pp_lastEvent = Some (pp_event_of 1 READY (hd players) now)\<rparr>)"

definition pp_ready :: "pp_state \<Rightarrow> string \<Rightarrow> rat \<Rightarrow> pp_state" where
  "pp_ready s p now =
    (if pp_phase s \<noteq> PREPARING \<or> p \<notin> set (pp_order s) \<or> value_at (pp_lastInputSeq s) p (- 1) < 0 \<or>
        p \<in> set (readyPlayerIds s) then s
     else (let ready = readyPlayerIds s @ [p]; v = pp_version s + 1;
               everyoneReady = list_all (\<lambda>q. q \<in> set ready) (pp_order s)
           in s\<lparr>pp_version := v, pp_phase := (if everyoneReady then COUNTDOWN else PREPARING),
                readyPlayerIds := ready,
                pp_nextActionAt := (if everyoneReady then now + POINT_COUNTDOWN_MILLIS else 0),
                pp_lastEvent := Some (pp_event_of v PLAYER_READY p now)\<rparr>))"

definition recordOnly :: "pp_state \<Rightarrow> string \<Rightarrow> (string \<times> rat) list \<Rightarrow> rat \<Rightarrow> pp_state option" where
  "recordOnly s p seq now =
    (if pp_phase s = PREPARING
     then (let v = pp_version s + 1 in
       Some (s\<lparr>pp_version := v, pp_lastInputSeq := seq, pp_nextActionAt := 0,
         pp_lastEvent := Some (pp_event_of v PRACTICE p now)\<rparr>))
     else if pp_phase s \<noteq> PLAYING \<or> fault (ball s) \<noteq> None
     then Some (s\<lparr>pp_version := pp_version s + 1, pp_lastInputSeq := seq\<rparr>)
     else None)"

definition missedWindow :: "int \<Rightarrow> rat \<Rightarrow> pp_event_type option" where
  "missedWindow seat p =
    (if (if seat = 0 then p < WINDOW_1_LOW else p > WINDOW_2_HIGH) then Some TOO_EARLY
     else if (if seat = 0 then p > WINDOW_1_HIGH else p < WINDOW_2_LOW) then Some TOO_LATE
     else None)"

record swing_input =
  si_playerId :: string
  si_inputSeq :: rat
  si_now :: rat
  si_targetX :: rat

definition swing_return :: "pp_state \<Rightarrow> (string \<times> rat) list \<Rightarrow> string \<Rightarrow> int \<Rightarrow> pp_ball \<Rightarrow> rat \<Rightarrow> rat \<Rightarrow> pp_state" where
  "swing_return s seq p seat current now targetX =
    (let ideal = (if seat = 0 then IDEAL_1 else IDEAL_2);
         distance = \<bar>pos current - ideal\<bar>;
         early = (if seat = 0 then pos current < ideal else pos current > ideal);
         flt = faultOf distance early;
         dir = (if seat = 0 then - 1 else 1)
     in case returnKind distance flt of (v, sm, kind) \<Rightarrow>
        (let returned = \<lparr>pos = pos current, direction = dir, speed = v, smash = sm, fault = flt,
               faultFrom = progress (pos current) dir, x0 = ballX current, x1 = targetX, launchedAt = now\<rparr>;
             version = pp_version s + 1
         in s\<lparr>pp_version := version, pp_lastInputSeq := seq, ball := returned,
              rally := (if flt = None then rally s + 1 else rally s),
              pp_nextActionAt := flightDeadline returned now,
              pp_lastEvent := Some (pp_event_of version kind p now)\<rparr>))"

definition swing :: "pp_state \<Rightarrow> swing_input \<Rightarrow> pp_state" where
  "swing s inp =
    (let p = si_playerId inp; now = si_now inp; seat = seatOf s p in
     if seat < 0 \<or> si_inputSeq inp \<le> value_at (pp_lastInputSeq s) p (- 1) then s
     else (let seq = AList.update p (si_inputSeq inp) (pp_lastInputSeq s) in
       case recordOnly s p seq now of
         Some recorded \<Rightarrow> recorded
       | None \<Rightarrow>
          (let current = ballAt (ball s) now;
               incoming = (if seat = 0 then direction current > 0 else direction current < 0)
           in if \<not> incoming
              then s\<lparr>pp_version := pp_version s + 1, pp_lastInputSeq := seq, ball := current\<rparr>
              else (case missedWindow seat (pos current) of
                  Some missed \<Rightarrow> s\<lparr>pp_version := pp_version s + 1, pp_lastInputSeq := seq, ball := current,
                    pp_lastEvent := Some (pp_event_of (pp_version s + 1) missed p now)\<rparr>
                | None \<Rightarrow> swing_return s seq p seat current now (si_targetX inp)))))"

definition hostReport :: "pp_state \<Rightarrow> pp_state \<Rightarrow> string \<Rightarrow> pp_state option" where
  "hostReport current reported sender =
    (if sender \<in> set (pp_order current) then None
     else if isPingPongFinished current then None
     else if pp_version reported \<le> pp_version current then None
     else if pp_order reported \<noteq> pp_order current then None
     else Some (reported\<lparr>pp_order := pp_order current\<rparr>))"

text \<open>The clock of the game (\<open>timeout\<close> of \<open>pingPongGameService.ts\<close>).\<close>

definition pp_clock :: "pp_state \<Rightarrow> rat \<Rightarrow> rat \<Rightarrow> pp_state" where
  "pp_clock s now targetX = (if pp_phase s = COUNTDOWN then serve s now targetX else pp_expire s now)"

section \<open>Results of a local game against the computer\<close>

text \<open>\<open>aiResultService.ts\<close>: a finished single-player game is reported by the client; the server checks the
  identifier and that the score line can end a game. A result the archive already has is not saved twice;
  the archive is a parameter.\<close>

definition LOCAL_AI_ROOM_CODE :: string where "LOCAL_AI_ROOM_CODE = ''LOCAL_AI''"
definition AI_PLAYER_ID :: string where "AI_PLAYER_ID = ''ping-pong-ai''"
definition AI_NICKNAME :: string where "AI_NICKNAME = ''AI''"

record ai_result_request =
  ar_resultId :: "string option"
  humanScore :: int
  aiScore :: int

definition hex_char :: "char \<Rightarrow> bool" where
  "hex_char c = (c \<in> set ''0123456789abcdefABCDEF'')"

definition uuid_groups :: "nat list" where "uuid_groups = [8, 4, 4, 4, 12]"

text \<open>The pattern: groups of hexadecimal digits of these lengths, separated by dashes.\<close>

fun matches_groups :: "nat list \<Rightarrow> string \<Rightarrow> bool" where
  "matches_groups [] text = (text = [])"
| "matches_groups [n] text = (length text = n \<and> list_all hex_char text)"
| "matches_groups (n # ns) text = (length (take n text) = n \<and> list_all hex_char (take n text) \<and>
     (case drop n text of c # rest \<Rightarrow> c = CHR ''-'' \<and> matches_groups ns rest | [] \<Rightarrow> False))"

definition lower_char :: "char \<Rightarrow> char" where
  "lower_char c = (let n = of_char c :: nat in if 65 \<le> n \<and> n \<le> 90 then char_of (n + 32) else c)"

definition normalizeResultId :: "string option \<Rightarrow> coded_error + string" where
  "normalizeResultId resultId = (let value = (case resultId of Some v \<Rightarrow> v | None \<Rightarrow> []) in
     if matches_groups uuid_groups value then Inr (map lower_char value) else Inl (DomainError ''invalid_result_id''))"

definition validateFinalScore :: "int \<Rightarrow> int \<Rightarrow> coded_error + unit" where
  "validateFinalScore human ai = (if human < 0 \<or> ai < 0 \<or> max human ai < WIN_SCORE \<or> \<bar>human - ai\<bar> < 2
     then Inl (DomainError ''invalid_final_score'') else Inr ())"

record ai_participant =
  ap_playerId :: string
  ap_nickname :: string
  ap_score :: int
  ap_ranking :: int

record ai_match =
  am_gameId :: string
  am_roomCode :: string
  am_participants :: "ai_participant list"

definition ai_save :: "(ai_match \<Rightarrow> bool) \<Rightarrow> string \<Rightarrow> string \<Rightarrow> ai_result_request \<Rightarrow> coded_error + bool" where
  "ai_save archiveParticipants player nickname req =
    (case normalizeResultId (ar_resultId req) of Inl e \<Rightarrow> Inl e
     | Inr resultId \<Rightarrow> (case validateFinalScore (humanScore req) (aiScore req) of Inl e \<Rightarrow> Inl e
       | Inr _ \<Rightarrow> (let humanRank = (if humanScore req > aiScore req then 1 else 2) in
           Inr (archiveParticipants \<lparr>am_gameId = resultId, am_roomCode = LOCAL_AI_ROOM_CODE,
             am_participants = [
               \<lparr>ap_playerId = player, ap_nickname = nickname, ap_score = humanScore req, ap_ranking = humanRank\<rparr>,
               \<lparr>ap_playerId = AI_PLAYER_ID, ap_nickname = AI_NICKNAME, ap_score = aiScore req,
                ap_ranking = (if humanRank = 1 then 2 else 1)\<rparr>]\<rparr>))))"

end
