(* ===== verification/PingPongTheorems.thy ===== *)
theory PingPongTheorems
  imports PingPong
begin

text \<open>
  What the table tennis game guarantees: a match is open exactly until somebody has eleven points and two
  more than the other, it starts only after both players moved and declared themselves ready, the grade of a
  swing depends only on how far the ball has come towards the player, and the receiver rotates fairly.
\<close>

section \<open>Runs\<close>

datatype pp_input = Ready string rat | Swing swing_input | Tick rat rat | Gone string rat

fun pp_step :: "pp_state \<Rightarrow> pp_input \<Rightarrow> pp_state" where
  "pp_step s (Ready p now) = pp_ready s p now"
| "pp_step s (Swing inp) = swing s inp"
| "pp_step s (Tick now targetX) = pp_clock s now targetX"
| "pp_step s (Gone p now) = pp_forfeit s p now"

definition pp_run :: "pp_state \<Rightarrow> pp_input list \<Rightarrow> pp_state" where
  "pp_run s ins = foldl pp_step s ins"

section \<open>The invariant\<close>

text \<open>Nobody has won yet; and a score line a match can end with.\<close>

definition score_open :: "int \<Rightarrow> int \<Rightarrow> bool" where
  "score_open x y = (\<not> (x \<ge> WIN_SCORE \<and> x - y \<ge> 2) \<and> \<not> (y \<ge> WIN_SCORE \<and> y - x \<ge> 2))"

definition score_final :: "int \<Rightarrow> int \<Rightarrow> bool" where
  "score_final x y = (let w = max x y; l = min x y in w \<ge> WIN_SCORE \<and> w - l \<ge> 2 \<and> (w > WIN_SCORE \<longrightarrow> w - l = 2))"

definition pp_tables :: "pp_state \<Rightarrow> bool" where
  "pp_tables s = (distinct (pp_order s) \<and> length (pp_order s) = 2 \<and> map fst (pp_scores s) = pp_order s \<and>
     map fst (pp_lastInputSeq s) = pp_order s \<and> list_all (\<lambda>e. 0 \<le> snd e) (pp_scores s) \<and>
     list_all (\<lambda>p. 0 \<le> value_at (pp_lastInputSeq s) p (- 1)) (readyPlayerIds s))"

definition seat_score :: "string list \<Rightarrow> (string \<times> int) list \<Rightarrow> nat \<Rightarrow> int" where
  "seat_score order scores i = value_at scores (seat_at order i) 0"

definition scores_of :: "pp_state \<Rightarrow> int \<times> int" where
  "scores_of s = (seat_score (pp_order s) (pp_scores s) 0, seat_score (pp_order s) (pp_scores s) 1)"

definition event_kind :: "pp_state \<Rightarrow> pp_event_type option" where
  "event_kind s = map_option pe_type (pp_lastEvent s)"

definition pp_phase_ok :: "pp_state \<Rightarrow> bool" where
  "pp_phase_ok s =
    (if pp_phase s = PP_FINISHED
     then serveReceiverId s = None \<and> pp_nextActionAt s = 0 \<and> event_kind s \<in> {Some GAME_OVER, Some OPPONENT_LEFT} \<and>
       (event_kind s = Some GAME_OVER \<longrightarrow> case_prod score_final (scores_of s))
     else case_prod score_open (scores_of s) \<and>
       serveReceiverId s = Some (serveReceiver (pp_order s) (pp_scores s)) \<and>
       (if pp_phase s = PREPARING then scores_of s = (0, 0) \<and> pp_nextActionAt s = 0
        else set (pp_order s) \<subseteq> set (readyPlayerIds s)))"

definition pp_ok :: "pp_state \<Rightarrow> bool" where
  "pp_ok s = (pp_tables s \<and> pp_phase_ok s)"

lemma pp_tablesE:
  assumes "pp_tables s"
  obtains a b x y m n where "pp_order s = [a, b]" "a \<noteq> b" "pp_scores s = [(a, x), (b, y)]"
    "pp_lastInputSeq s = [(a, m), (b, n)]" "0 \<le> x" "0 \<le> y"
proof -
  obtain a b where ab: "pp_order s = [a, b]" "a \<noteq> b"
    using assms unfolding pp_tables_def by (auto simp: numeral_2_eq_2 length_Suc_conv)
  obtain x y where xy: "pp_scores s = [(a, x), (b, y)]"
    using assms ab unfolding pp_tables_def by (auto simp: map_eq_Cons_conv)
  obtain m n where mn: "pp_lastInputSeq s = [(a, m), (b, n)]"
    using assms ab unfolding pp_tables_def by (auto simp: map_eq_Cons_conv)
  have "0 \<le> x" "0 \<le> y" using assms xy by (simp_all add: pp_tables_def)
  then show thesis by (rule that[OF ab xy mn])
qed

lemma pp_initial_ok:
  assumes "pp_initial players now = Inr s" "distinct players" shows "pp_ok s"
proof -
  have "length players = 2" using assms(1) by (simp add: pp_initial_def split: if_splits)
  then obtain a b where ab: "players = [a, b]" by (auto simp: numeral_2_eq_2 length_Suc_conv)
  have tables: "pp_order s = [a, b]" "pp_scores s = [(a, 0), (b, 0)]" "pp_lastInputSeq s = [(a, - 1), (b, - 1)]"
    "readyPlayerIds s = []" "pp_phase s = PREPARING" "serveReceiverId s = Some a" "pp_nextActionAt s = 0"
    using assms ab by (auto simp: pp_initial_def map_from_pairs_def)
  then show ?thesis using assms(2) ab
    by (simp add: pp_ok_def pp_tables_def pp_phase_ok_def scores_of_def seat_score_def score_open_def
        WIN_SCORE_def serveReceiver_def seat_at_def value_at_def)
qed

text \<open>Transitions that leave the order, the scores, the receiver and the phase alone keep the invariant.\<close>

lemma pp_frame:
  assumes "pp_ok s" "pp_order s' = pp_order s" "pp_scores s' = pp_scores s" "pp_phase s' = pp_phase s"
    "serveReceiverId s' = serveReceiverId s" "readyPlayerIds s' = readyPlayerIds s" "map fst (pp_lastInputSeq s') = map fst (pp_lastInputSeq s)"
    "list_all (\<lambda>p. 0 \<le> value_at (pp_lastInputSeq s') p (- 1)) (readyPlayerIds s)"
    "pp_phase s \<in> {PREPARING, PP_FINISHED} \<Longrightarrow> pp_nextActionAt s' = pp_nextActionAt s"
    "pp_phase s = PP_FINISHED \<Longrightarrow> pp_lastEvent s' = pp_lastEvent s"
  shows "pp_ok s'"
  using assms by (simp add: pp_ok_def pp_tables_def pp_phase_ok_def scores_of_def seat_score_def event_kind_def split: if_splits)

lemma pp_ready_ok: assumes "pp_ok s" shows "pp_ok (pp_ready s p now)"
proof (cases "pp_ready s p now = s")
  case False
  then have g: "pp_phase s = PREPARING" "p \<in> set (pp_order s)" "\<not> value_at (pp_lastInputSeq s) p (- 1) < 0" "p \<notin> set (readyPlayerIds s)"
    by (auto simp: pp_ready_def split: if_splits)
  then show ?thesis using assms
    by (auto simp add: pp_ready_def pp_ok_def pp_tables_def pp_phase_ok_def scores_of_def Let_def list_all_iff
        subset_iff not_less split: if_splits)
qed (use assms in simp)

lemma serve_ok: "pp_ok s \<Longrightarrow> pp_ok (serve s now x)"
  by (cases "pp_phase s = COUNTDOWN")
    (simp add: serve_def pp_ok_def pp_tables_def pp_phase_ok_def scores_of_def Let_def, simp add: serve_def)

lemma point_ok:
  assumes "pp_ok s" "pp_phase s = PLAYING" "scorer \<in> {0, 1}"
  shows "pp_ok (point s scorer b now)"
proof -
  have tab: "pp_tables s" using assms(1) by (simp add: pp_ok_def)
  show ?thesis
  proof (rule pp_tablesE[OF tab])
    fix a b x y m n
    assume *: "pp_order s = [a, b]" "a \<noteq> b" "pp_scores s = [(a, x), (b, y)]"
      "pp_lastInputSeq s = [(a, m), (b, n)]" "0 \<le> x" "0 \<le> y"
    have open_score: "score_open x y" "set (readyPlayerIds s) \<supseteq> {a, b}"
      using assms(1,2) * by (auto simp: pp_ok_def pp_phase_ok_def scores_of_def seat_score_def seat_at_def value_at_def)
    have tables: "pp_tables s" by (rule tab)
    from assms(3) consider "scorer = 0" | "scorer = 1" by blast
    then show ?thesis
    proof cases
      case 1
      then show ?thesis using * open_score tables
        by (auto simp: point_def pp_ok_def pp_tables_def pp_phase_ok_def scores_of_def seat_score_def seat_at_def value_at_def
            Let_def score_open_def score_final_def WIN_SCORE_def event_kind_def pp_event_of_def)
    next
      case 2
      then show ?thesis using * open_score tables
        by (auto simp: point_def pp_ok_def pp_tables_def pp_phase_ok_def scores_of_def seat_score_def seat_at_def value_at_def
            Let_def score_open_def score_final_def WIN_SCORE_def event_kind_def pp_event_of_def)
    qed
  qed
qed

lemma pp_expire_ok: "pp_ok s \<Longrightarrow> pp_ok (pp_expire s now)"
  by (cases "pp_phase s = PLAYING") (simp_all add: pp_expire_def Let_def point_ok)

lemma pp_forfeit_ok: assumes "pp_ok s" shows "pp_ok (pp_forfeit s p now)"
proof -
  have tab: "pp_tables s" using assms by (simp add: pp_ok_def)
  show ?thesis
    by (rule pp_tablesE[OF tab]) (use assms tab in \<open>auto simp: pp_forfeit_def pp_ok_def pp_tables_def pp_phase_ok_def
      seat_at_def Let_def event_kind_def pp_event_of_def WIN_SCORE_def\<close>)
qed

lemma keys_update_present: "k \<in> set (map fst m) \<Longrightarrow> map fst (AList.update k v m) = map fst m"
  by (induction m) auto

lemma seat_cases: "pp_tables s \<Longrightarrow> \<not> seatOf s p < 0 \<Longrightarrow> p \<in> set (pp_order s)"
  by (auto simp: seatOf_def index_of_def split: if_splits)

lemma swing_return_frame [simp]:
  "pp_order (swing_return s seq p seat b now x) = pp_order s"
  "pp_scores (swing_return s seq p seat b now x) = pp_scores s"
  "pp_phase (swing_return s seq p seat b now x) = pp_phase s"
  "serveReceiverId (swing_return s seq p seat b now x) = serveReceiverId s"
  "readyPlayerIds (swing_return s seq p seat b now x) = readyPlayerIds s"
  "pp_lastInputSeq (swing_return s seq p seat b now x) = seq"
  "pp_version (swing_return s seq p seat b now x) = pp_version s + 1"
  by (simp_all add: swing_return_def Let_def split: prod.split)

definition fresh_swing :: "pp_state \<Rightarrow> swing_input \<Rightarrow> bool" where
  "fresh_swing s inp = (\<not> seatOf s (si_playerId inp) < 0 \<and>
     \<not> si_inputSeq inp \<le> value_at (pp_lastInputSeq s) (si_playerId inp) (- 1))"

lemma stale_swing [simp]: "\<not> fresh_swing s inp \<Longrightarrow> swing s inp = s"
  by (auto simp: swing_def fresh_swing_def Let_def)

lemma swing_frame:
  assumes "fresh_swing s inp"
  shows "pp_order (swing s inp) = pp_order s" "pp_scores (swing s inp) = pp_scores s" "pp_phase (swing s inp) = pp_phase s"
    "serveReceiverId (swing s inp) = serveReceiverId s" "readyPlayerIds (swing s inp) = readyPlayerIds s"
    "pp_lastInputSeq (swing s inp) = AList.update (si_playerId inp) (si_inputSeq inp) (pp_lastInputSeq s)"
    "pp_version (swing s inp) = pp_version s + 1"
  using assms by (simp_all add: swing_def recordOnly_def fresh_swing_def Let_def split: option.split)

lemma swing_not_playing:
  assumes "fresh_swing s inp" "pp_phase s \<noteq> PLAYING"
  shows "pp_nextActionAt (swing s inp) = (if pp_phase s = PREPARING then 0 else pp_nextActionAt s)"
    "pp_phase s \<noteq> PREPARING \<Longrightarrow> pp_lastEvent (swing s inp) = pp_lastEvent s"
  using assms by (simp_all add: swing_def recordOnly_def fresh_swing_def Let_def)

lemma swing_ok: assumes "pp_ok s" shows "pp_ok (swing s inp)"
proof (cases "fresh_swing s inp")
  case True
  let ?p = "si_playerId inp"
  have tab: "pp_tables s" using assms by (simp add: pp_ok_def)
  have new: "\<not> seatOf s ?p < 0" "\<not> si_inputSeq inp \<le> value_at (pp_lastInputSeq s) ?p (- 1)"
    using True by (simp_all add: fresh_swing_def)
  have "?p \<in> set (pp_order s)" by (rule seat_cases[OF tab new(1)])
  then have seq: "map fst (pp_lastInputSeq (swing s inp)) = map fst (pp_lastInputSeq s)"
    using tab swing_frame[OF True] by (simp add: keys_update_present pp_tables_def)
  have up: "list_all (\<lambda>q. 0 \<le> value_at (pp_lastInputSeq (swing s inp)) q (- 1)) (readyPlayerIds s)"
    using tab new(2) swing_frame[OF True] by (auto simp: pp_tables_def list_all_iff)
  have zero: "pp_phase s = PREPARING \<Longrightarrow> pp_nextActionAt s = 0"
    using assms by (auto simp: pp_ok_def pp_phase_ok_def)
  have timer: "pp_phase s \<in> {PREPARING, PP_FINISHED} \<Longrightarrow> pp_nextActionAt (swing s inp) = pp_nextActionAt s"
    using swing_not_playing(1)[OF True] zero by auto
  have event: "pp_phase s = PP_FINISHED \<Longrightarrow> pp_lastEvent (swing s inp) = pp_lastEvent s"
    using swing_not_playing(2)[OF True] by simp
  show ?thesis by (rule pp_frame[OF assms swing_frame(1-5)[OF True] seq up timer event])
qed (use assms in simp)

lemma pp_step_ok: "pp_ok s \<Longrightarrow> pp_ok (pp_step s i)"
  by (cases i) (simp_all add: pp_ready_ok swing_ok pp_clock_def serve_ok pp_expire_ok pp_forfeit_ok)

lemma pp_run_ok: "pp_ok s \<Longrightarrow> pp_ok (pp_run s ins)"
  unfolding pp_run_def by (induction ins arbitrary: s) (simp_all add: pp_step_ok)

section \<open>Versions\<close>

lemma swing_version: "swing s inp = s \<or> pp_version (swing s inp) = pp_version s + 1"
  using swing_frame(7) stale_swing by blast

lemma pp_ready_version: "pp_ready s p now = s \<or> pp_version (pp_ready s p now) = pp_version s + 1"
  by (simp add: pp_ready_def Let_def)

lemma pp_clock_version: "pp_clock s now x = s \<or> pp_version (pp_clock s now x) = pp_version s + 1"
  by (simp add: pp_clock_def serve_def pp_expire_def point_def Let_def)

lemma pp_forfeit_version: "pp_forfeit s p now = s \<or> pp_version (pp_forfeit s p now) = pp_version s + 1"
  by (simp add: pp_forfeit_def Let_def)

lemma hostReport_version: "hostReport s r p = Some s' \<Longrightarrow> pp_version s < pp_version s' \<and> pp_order s' = pp_order s"
  by (auto simp: hostReport_def split: if_splits)

section \<open>The match\<close>

definition two_rackets :: "string list" where "two_rackets = [''ann'', ''bob'']"

definition pp_start :: pp_state where "pp_start = projr (pp_initial two_rackets 1000)"

lemma pp_start_eq: "pp_initial two_rackets 1000 = Inr pp_start"
  by (simp add: pp_start_def pp_initial_def two_rackets_def)

lemma two_rackets_distinct: "distinct two_rackets"
  by (simp add: two_rackets_def)

definition swing_of :: "string \<Rightarrow> rat \<Rightarrow> rat \<Rightarrow> swing_input" where
  "swing_of p n t = \<lparr>si_playerId = p, si_inputSeq = n, si_now = t, si_targetX = 1 / 4\<rparr>"

definition first_inputs :: "pp_input list" where
  "first_inputs = [Swing (swing_of ''ann'' 0 1100), Swing (swing_of ''bob'' 0 1200), Ready ''ann'' 1300, Ready ''bob'' 1400,
     Tick 4000 (1 / 2)]"

section \<open>Matches of a room\<close>

text \<open>What the service does with a match (\<open>pingPongGameService.ts\<close>, \<open>leave\<close> of \<open>pingPongProgress.ts\<close>); \<open>None\<close>
  once the match is cancelled. In a party room the dashboard judges: swings are only passed on and the dashboard
  reports states; elsewhere a report is dropped. A deadline acts only on the version it was set for. Who
  leaves during the preparation cancels the match. Refused payloads leave the state alone.\<close>

datatype pp_request =
    SwingSent swing_input
  | ReadySent string rat
  | DeadlineFired int rat rat
  | HostState string pp_state
  | Departed string rat

fun pp_request_step :: "bool \<Rightarrow> pp_state \<Rightarrow> pp_request \<Rightarrow> pp_state option" where
  "pp_request_step party s (SwingSent inp) =
     Some (if si_inputSeq inp < 0 then s else if party then s else swing s inp)"
| "pp_request_step party s (ReadySent p now) = Some (pp_ready s p now)"
| "pp_request_step party s (DeadlineFired expectedVersion now targetX) =
     Some (if pp_version s \<noteq> expectedVersion \<or> isPingPongFinished s then s else pp_clock s now targetX)"
| "pp_request_step party s (HostState sender reported) = Some (if \<not> party then s
     else (case hostReport s reported sender of None \<Rightarrow> s | Some s' \<Rightarrow> s'))"
| "pp_request_step party s (Departed p now) =
     (if pp_phase s = PREPARING then None else Some (pp_forfeit s p now))"

definition pp_match :: "bool \<Rightarrow> pp_state option \<Rightarrow> pp_request list \<Rightarrow> pp_state option" where
  "pp_match party s reqs = foldl (\<lambda>s req. Option.bind s (\<lambda>s. pp_request_step party s req)) s reqs"

lemma pp_match_simps [simp]:
  "pp_match party m [] = m" "pp_match party None reqs = None"
  "pp_match party (Some s) (req # reqs) = pp_match party (pp_request_step party s req) reqs"
  unfolding pp_match_def by (simp, induction reqs, simp_all)

lemma pp_request_ok: "pp_ok s \<Longrightarrow> pp_request_step False s req = Some s' \<Longrightarrow> pp_ok s'"
  by (cases req) (auto simp: pp_ready_ok swing_ok pp_clock_def serve_ok pp_expire_ok pp_forfeit_ok split: if_splits)

lemma pp_match_ok: "pp_ok s \<Longrightarrow> pp_match False (Some s) reqs = Some s' \<Longrightarrow> pp_ok s'"
proof (induction reqs arbitrary: s)
  case (Cons req reqs)
  then show ?case by (cases "pp_request_step False s req") (auto dest: pp_request_ok)
qed simp

lemma swing_order: "pp_order (swing s inp) = pp_order s"
  using swing_frame(1) stale_swing by (cases "fresh_swing s inp") auto

lemma pp_orders:
  "pp_order (pp_ready s p now) = pp_order s"
  "pp_order (pp_clock s now x) = pp_order s" "pp_order (pp_forfeit s p now) = pp_order s"
  by (simp_all add: pp_ready_def pp_clock_def serve_def pp_expire_def point_def pp_forfeit_def Let_def)

text \<open>A later state of the same two players.\<close>

definition pp_follows :: "pp_state \<Rightarrow> pp_state \<Rightarrow> bool" where
  "pp_follows s s' \<longleftrightarrow> pp_order s' = pp_order s \<and> (s' = s \<or> pp_version s < pp_version s')"

lemma pp_follows_refl [simp]: "pp_follows s s"
  by (simp add: pp_follows_def)

lemma pp_follows_trans: "pp_follows s s' \<Longrightarrow> pp_follows s' s'' \<Longrightarrow> pp_follows s s''"
  by (auto simp: pp_follows_def)

lemma pp_moves_follow [simp]:
  "pp_follows s (swing s inp)" "pp_follows s (pp_ready s p now)" "pp_follows s (pp_clock s now x)"
  "pp_follows s (pp_forfeit s p now)"
  using swing_version[of s inp] pp_ready_version[of s p now] pp_clock_version[of s now x] pp_forfeit_version[of s p now]
  by (auto simp: pp_follows_def swing_order pp_orders)

lemma hostReport_follows: "hostReport s r p = Some s' \<Longrightarrow> pp_follows s s'"
  using hostReport_version by (auto simp: pp_follows_def)

lemma pp_request_party: "pp_request_step party s req = Some s' \<Longrightarrow> pp_follows s s'"
  by (cases req) (auto split: if_splits option.splits dest: hostReport_follows)

lemma pp_match_party: "pp_match party (Some s) reqs = Some s' \<Longrightarrow> pp_follows s s'"
proof (induction reqs arbitrary: s)
  case (Cons req reqs)
  show ?case
  proof (cases "pp_request_step party s req")
    case (Some t)
    then show ?thesis using Cons pp_follows_trans[OF pp_request_party[OF Some]] by simp
  qed (use Cons.prems in simp)
qed simp

lemma finished_request: "isPingPongFinished s \<Longrightarrow> pp_request_step True s req = Some s"
  by (cases req) (simp_all add: isPingPongFinished_def pp_ready_def hostReport_def pp_forfeit_def)

lemma finished_match: "isPingPongFinished s \<Longrightarrow> pp_match True (Some s) reqs = Some s"
  by (induction reqs) (simp_all add: finished_request)

text \<open>C19: in a room the server judges, whatever swings, ready calls, deadlines, departures and reports arrive,
  as long as the match is not cancelled the scores never go negative, a
  match that is not finished has no winner yet (eleven points with a lead of two), a match that ended by the
  last point has a final score line, the stored receiver is the one of the serve rotation, points are played
  only after both players swung once and declared themselves ready, and no timer runs before that or after
  the end. In a party room, where the dashboard reports the states and may report any score, the server guarantees
  less: the two players stay the same, every change has a higher version, and after the end nothing changes
  any more.\<close>

theorem ping_pong_match_follows_the_rules:
  assumes "pp_initial players now = Inr s0" "distinct players"
  shows "(case pp_match False (Some s0) reqs of None \<Rightarrow> True | Some s \<Rightarrow> pp_ok s) \<and>
    (case pp_match True (Some s0) reqs of None \<Rightarrow> True | Some s \<Rightarrow> pp_order s = players \<and>
       (s = s0 \<or> pp_version s0 < pp_version s) \<and>
       (isPingPongFinished s \<longrightarrow> pp_match True (Some s) later = Some s))"
proof -
  have "pp_order s0 = players" using assms(1) by (auto simp: pp_initial_def split: if_splits)
  then show ?thesis
    using pp_match_ok[OF pp_initial_ok[OF assms]] pp_match_party[of True s0 reqs, unfolded pp_follows_def] finished_match
    by (auto split: option.split)
qed

definition first_requests :: "pp_request list" where
  "first_requests = [SwingSent (swing_of ''ann'' 0 1100), SwingSent (swing_of ''bob'' 0 1200), ReadySent ''ann'' 1300,
     ReadySent ''bob'' 1400, HostState ''eve'' pp_start, DeadlineFired 5 4000 (1 / 2), DeadlineFired 6 5100 (1 / 2)]"

lemma first_requests_play:
  "\<exists>s. pp_match False (Some pp_start) first_requests = Some s \<and> pp_phase s \<noteq> PREPARING"
proof -
  have "(case pp_match False (Some pp_start) first_requests of None \<Rightarrow> False | Some s \<Rightarrow> pp_phase s \<noteq> PREPARING)"
    unfolding pp_start_def by code_simp
  then show ?thesis by (auto split: option.splits)
qed

theorem ping_pong_match_follows_the_rules_witness:
  "\<exists>s. pp_match False (Some pp_start) first_requests = Some s \<and> pp_phase s \<noteq> PREPARING \<and> pp_ok s"
  using ping_pong_match_follows_the_rules[OF pp_start_eq two_rackets_distinct, of first_requests "[]"]
    first_requests_play by (auto split: option.splits)

section \<open>The grade of a swing\<close>

definition swing_grade :: "rat \<Rightarrow> pp_event_type" where
  "swing_grade p =
    (if p < 72 / 100 then TOO_EARLY
     else if p > 106 / 100 then TOO_LATE
     else if p < 76 / 100 then OUT
     else if p > 102 / 100 then NET
     else if 84 / 100 \<le> p \<and> p \<le> 96 / 100 then SMASH
     else if 8 / 10 \<le> p \<and> p \<le> 1 then NICE
     else OK)"

definition approach :: "pp_state \<Rightarrow> rat \<Rightarrow> rat" where
  "approach s now = progress (pos (ballAt (ball s) now)) (direction (ball s))"

lemma direction_ballAt [simp]: "direction (ballAt b t) = direction b" "fault (ballAt b t) = fault b"
  by (simp_all add: ballAt_def Let_def)

lemma swing_return_kind:
  "event_kind (swing_return s seq p seat b now x) =
     Some (snd (snd (returnKind \<bar>pos b - (if seat = 0 then IDEAL_1 else IDEAL_2)\<bar>
       (faultOf \<bar>pos b - (if seat = 0 then IDEAL_1 else IDEAL_2)\<bar>
          (if seat = 0 then pos b < IDEAL_1 else pos b > IDEAL_2)))))"
  "direction (ball (swing_return s seq p seat b now x)) = (if seat = 0 then - 1 else 1)"
  by (simp_all add: swing_return_def Let_def event_kind_def pp_event_of_def split: prod.split)

lemma swing_live:
  assumes "fresh_swing s inp" "pp_phase s = PLAYING" "fault (ball s) = None"
    "direction (ball s) = (if seatOf s (si_playerId inp) = 0 then 1 else - 1)"
  shows "swing s inp = (let seq = AList.update (si_playerId inp) (si_inputSeq inp) (pp_lastInputSeq s);
      b = ballAt (ball s) (si_now inp) in
    case missedWindow (seatOf s (si_playerId inp)) (pos b) of
      Some missed \<Rightarrow> s\<lparr>pp_version := pp_version s + 1, pp_lastInputSeq := seq, ball := b,
        pp_lastEvent := Some (pp_event_of (pp_version s + 1) missed (si_playerId inp) (si_now inp))\<rparr>
    | None \<Rightarrow> swing_return s seq (si_playerId inp) (seatOf s (si_playerId inp)) b (si_now inp) (si_targetX inp))"
  using assms by (simp add: swing_def recordOnly_def fresh_swing_def Let_def)

lemma grade_seat_one:
  assumes "missedWindow 0 p = None"
  shows "snd (snd (returnKind \<bar>p - IDEAL_1\<bar> (faultOf \<bar>p - IDEAL_1\<bar> (p < IDEAL_1)))) = swing_grade p"
  using assms by (auto simp: missedWindow_def returnKind_def faultOf_def swing_grade_def court abs_if field_simps
      split: if_splits)

lemma grade_seat_two:
  assumes "missedWindow 1 p = None"
  shows "snd (snd (returnKind \<bar>p - IDEAL_2\<bar> (faultOf \<bar>p - IDEAL_2\<bar> (p > IDEAL_2)))) = swing_grade (1 - p)"
  using assms by (auto simp: missedWindow_def returnKind_def faultOf_def swing_grade_def court abs_if field_simps
      split: if_splits)

lemma missed_grade:
  "missedWindow 0 p = Some e \<Longrightarrow> swing_grade p = e \<and> e \<in> {TOO_EARLY, TOO_LATE}"
  "seat \<noteq> 0 \<Longrightarrow> missedWindow seat p = Some e \<Longrightarrow> swing_grade (1 - p) = e \<and> e \<in> {TOO_EARLY, TOO_LATE}"
  by (auto simp: missedWindow_def swing_grade_def court split: if_splits)

lemma missed_seat: "seat \<noteq> 0 \<Longrightarrow> missedWindow seat p = missedWindow 1 p"
  by (simp add: missedWindow_def)

lemma hit_grade:
  "missedWindow 0 p = None \<Longrightarrow> swing_grade p \<notin> {TOO_EARLY, TOO_LATE}"
  "missedWindow 1 p = None \<Longrightarrow> swing_grade (1 - p) \<notin> {TOO_EARLY, TOO_LATE}"
  by (auto simp: missedWindow_def swing_grade_def court split: if_splits)

text \<open>a fresh swing at a ball that flies towards the player is graded by the progress of the ball alone,
  and by the same table for both sides of the table; the ball turns round exactly when the swing was inside
  the window.\<close>

theorem swing_is_graded_by_progress:
  assumes "fresh_swing s inp" "pp_phase s = PLAYING" "fault (ball s) = None"
    "direction (ball s) = (if seatOf s (si_playerId inp) = 0 then 1 else - 1)"
  shows "event_kind (swing s inp) = Some (swing_grade (approach s (si_now inp))) \<and>
    (direction (ball (swing s inp)) = - direction (ball s) \<longleftrightarrow>
      swing_grade (approach s (si_now inp)) \<notin> {TOO_EARLY, TOO_LATE})"
proof -
  let ?seat = "seatOf s (si_playerId inp)" let ?b = "ballAt (ball s) (si_now inp)"
  note live = swing_live[OF assms]
  have nz: "direction (ball s) \<noteq> - direction (ball s)" using assms(4) by (simp split: if_splits)
  have app: "approach s (si_now inp) = (if ?seat = 0 then pos ?b else 1 - pos ?b)"
    using assms(4) by (simp add: approach_def progress_def)
  show ?thesis
  proof (cases "missedWindow ?seat (pos ?b)")
    case (Some missed)
    have g: "swing_grade (approach s (si_now inp)) = missed" "missed \<in> {TOO_EARLY, TOO_LATE}"
      using missed_grade(1)[of "pos ?b" missed] missed_grade(2)[of ?seat "pos ?b" missed] Some app
      by (cases "?seat = 0"; simp)+
    then show ?thesis using live Some nz by (auto simp: Let_def event_kind_def pp_event_of_def)
  next
    case None
    then have sw: "swing s inp = swing_return s (AList.update (si_playerId inp) (si_inputSeq inp) (pp_lastInputSeq s))
      (si_playerId inp) ?seat ?b (si_now inp) (si_targetX inp)" using live by (simp add: Let_def)
    show ?thesis
    proof (cases "?seat = 0")
      case True
      then show ?thesis using sw None grade_seat_one[of "pos ?b"] hit_grade(1)[of "pos ?b"] app assms(4)
        by (simp add: swing_return_kind)
    next
      case False
      then have "missedWindow 1 (pos ?b) = None" using None missed_seat by metis
      then show ?thesis using sw False grade_seat_two[of "pos ?b"] hit_grade(2)[of "pos ?b"] app assms(4)
        by (simp add: swing_return_kind)
    qed
  qed
qed

definition first_serve :: pp_state where "first_serve = pp_run pp_start first_inputs"

lemmas pp_eval = first_serve_def pp_run_def first_inputs_def pp_start_def pp_initial_def two_rackets_def map_from_pairs_def
  swing_of_def swing_def seatOf_def index_of_def recordOnly_def pp_event_of_def value_at_def pp_ready_def pp_clock_def
  serve_def missDeadline_def duration_def math_round_def court POINT_COUNTDOWN_MILLIS_def Let_def

lemma first_serve_facts:
  "pp_phase first_serve = PLAYING" "fault (ball first_serve) = None" "direction (ball first_serve) = 1"
  "seatOf first_serve ''ann'' = 0" "fresh_swing first_serve (swing_of ''ann'' 1 4900)"
  "approach first_serve 4900 = 9 / 10"
  by (simp_all add: pp_eval fresh_swing_def approach_def progress_def ballAt_def)

theorem swing_is_graded_by_progress_witness:
  "event_kind (swing first_serve (swing_of ''ann'' 1 4900)) = Some SMASH \<and>
   direction (ball (swing first_serve (swing_of ''ann'' 1 4900))) = - 1"
  using swing_is_graded_by_progress[of first_serve "swing_of ''ann'' 1 4900"] first_serve_facts
  by (simp add: swing_of_def swing_grade_def)

section \<open>The trajectory\<close>

text \<open>moving the ball to a later time keeps its trajectory, so storing the moved ball changes nothing; but a
  time before the launch, which the rollback of a swing allows, pushes the ball ahead by the distance of that
  time on every later look at it.\<close>

theorem ball_keeps_its_trajectory_unless_rolled_back:
  assumes "launchedAt b \<le> later" "t \<le> later"
  shows "ballAt (ballAt b t) later =
    (if launchedAt b \<le> t then ballAt b later
     else (ballAt b later)\<lparr>pos := pos (ballAt b later) + of_int (direction b) * speed b * ((launchedAt b - t) / 1000)\<rparr>)"
  using assms by (cases b) (auto simp: ballAt_def Let_def max_def field_simps)

theorem ball_keeps_its_trajectory_unless_rolled_back_witness:
  "pos (ballAt (ballAt (ball first_serve) 3900) 4500) = 6 / 10 \<and> pos (ballAt (ballAt (ball first_serve) 4100) 4500) = 5 / 10"
proof -
  have b: "launchedAt (ball first_serve) = 4000" "pos (ballAt (ball first_serve) 4500) = 1 / 2"
    "direction (ball first_serve) = 1" "speed (ball first_serve) = 1"
    by (simp_all add: pp_eval ballAt_def)
  show ?thesis
    using ball_keeps_its_trajectory_unless_rolled_back[of "ball first_serve" 4500 3900]
      ball_keeps_its_trajectory_unless_rolled_back[of "ball first_serve" 4500 4100] b by simp
qed

section \<open>The serve rotation\<close>

definition serve_turn :: "int \<Rightarrow> int" where
  "serve_turn n = (if n < 20 then n div 2 else 10 + (n - 20)) mod 2"

lemma receiver_by_total:
  "a \<noteq> b \<Longrightarrow> serveReceiver [a, b] [(a, x), (b, y)] = (if serve_turn (x + y) = 0 then a else b)"
  by (auto simp: serveReceiver_def serve_turn_def seat_at_def value_at_def Let_def)

text \<open>How often each side received in the first \<open>n\<close> points.\<close>

fun received :: "nat \<Rightarrow> int \<Rightarrow> int" where
  "received 0 side = 0"
| "received (Suc n) side = received n side + (if serve_turn (int n) = side then 1 else 0)"

lemma serve_turn_range: "serve_turn n = 0 \<or> serve_turn n = 1"
  unfolding serve_turn_def by presburger

lemma received_step:
  "received (Suc n) 0 - received (Suc n) 1 = (received n 0 - received n 1) + (if serve_turn (int n) = 0 then 1 else - 1)"
  using serve_turn_range[of "int n"] by auto

lemma received_early: "n \<le> 20 \<Longrightarrow> received n 0 - received n 1 = (if n mod 4 = 0 then 0 else if n mod 4 = 2 then 2 else 1)"
proof (induction n)
  case (Suc n)
  have turn: "serve_turn (int n) = (int n div 2) mod 2" using Suc.prems by (simp add: serve_turn_def)
  have "n mod 4 = 0 \<or> n mod 4 = 1 \<or> n mod 4 = 2 \<or> n mod 4 = 3" by presburger
  then show ?case
  proof (elim disjE)
    assume "n mod 4 = 0"
    then have "(int n div 2) mod 2 = 0" "Suc n mod 4 = 1" by presburger+
    then show ?thesis unfolding received_step using Suc \<open>n mod 4 = 0\<close> turn by simp
  next
    assume "n mod 4 = 1"
    then have "(int n div 2) mod 2 = 0" "Suc n mod 4 = 2" by presburger+
    then show ?thesis unfolding received_step using Suc \<open>n mod 4 = 1\<close> turn by simp
  next
    assume "n mod 4 = 2"
    then have "(int n div 2) mod 2 = 1" "Suc n mod 4 = 3" by presburger+
    then show ?thesis unfolding received_step using Suc \<open>n mod 4 = 2\<close> turn by simp
  next
    assume "n mod 4 = 3"
    then have "(int n div 2) mod 2 = 1" "Suc n mod 4 = 0" by presburger+
    then show ?thesis unfolding received_step using Suc \<open>n mod 4 = 3\<close> turn by simp
  qed
qed simp

lemma received_late: "20 \<le> n \<Longrightarrow> received n 0 - received n 1 = int (n mod 2)"
proof (induction n rule: dec_induct)
  case base then show ?case using received_early[of 20] by simp
next
  case (step n)
  have "serve_turn (int n) = int n mod 2" using step.hyps(1) unfolding serve_turn_def by simp presburger
  then show ?case unfolding received_step using step.IH by simp presburger
qed

text \<open>the receiver of the next serve depends only on how many points were played; over any number of points
  neither player receives more than two serves more than the other, and from ten all on at most one.\<close>

theorem serves_are_shared_fairly:
  assumes "a \<noteq> b"
  shows "serveReceiver [a, b] [(a, x), (b, y)] = (if serve_turn (x + y) = 0 then a else b) \<and>
    received n 0 + received n 1 = int n \<and> received n 0 - received n 1 \<in> {0..2} \<and>
    (n \<ge> 20 \<longrightarrow> received n 0 - received n 1 \<in> {0..1})"
proof -
  have sum: "received n 0 + received n 1 = int n"
    by (induction n) (use serve_turn_range in \<open>auto simp: algebra_simps\<close>)
  have "received n 0 - received n 1 \<in> {0..2}"
    using received_early[of n] received_late[of n] by (cases "n \<le> 20") auto
  moreover have "n \<ge> 20 \<longrightarrow> received n 0 - received n 1 \<in> {0..1}" using received_late[of n] by auto
  ultimately show ?thesis using receiver_by_total[OF assms] sum by blast
qed

theorem serves_are_shared_fairly_witness:
  "serveReceiver [''ann'', ''bob''] [(''ann'', 2), (''bob'', 1)] = ''bob'' \<and> received 23 0 - received 23 1 \<in> {0..1}"
  using serves_are_shared_fairly[of "''ann''" "''bob''" 2 1 23] by (simp add: serve_turn_def)

section \<open>Departures and results of local games\<close>

text \<open>A departure gives the remaining player exactly eleven points, also when both had more.\<close>

lemma departure_in_deuce:
  assumes "pp_order s = [a, b]" "a \<noteq> b" "pp_scores s = [(a, x), (b, y)]" "pp_phase s \<noteq> PP_FINISHED"
  shows "scores_of (pp_forfeit s b now) = (11, y)"
  using assms by (auto simp: pp_forfeit_def seatOf_def index_of_def scores_of_def seat_score_def seat_at_def
      value_at_def WIN_SCORE_def Let_def)

text \<open>the server accepts every score line a match can end with, and a local result it accepts is archived
  once under the lower-case identifier with the higher score ranked first.\<close>

theorem local_result_is_archived_with_ranks:
  assumes "0 \<le> humanScore req" "0 \<le> aiScore req" "score_final (humanScore req) (aiScore req)"
    "normalizeResultId (ar_resultId req) = Inr rid"
  shows "\<exists>m h a. (\<forall>archive. ai_save archive player nickname req = Inr (archive m)) \<and> am_gameId m = rid \<and>
    am_participants m = [h, a] \<and> ap_playerId h = player \<and> ap_score h = humanScore req \<and> ap_score a = aiScore req \<and>
    {ap_ranking h, ap_ranking a} = {1, 2} \<and> (ap_ranking h = 1 \<longleftrightarrow> ap_score a < ap_score h)"
  using assms by (auto simp: ai_save_def validateFinalScore_def score_final_def Let_def max_def min_def split: if_splits)

definition local_win :: ai_result_request where
  "local_win = \<lparr>ar_resultId = Some ''0A1b2c3d-0000-4000-8000-0123456789ab'', humanScore = 12, aiScore = 10\<rparr>"

theorem local_result_is_archived_with_ranks_witness:
  "\<exists>m h a. (\<forall>archive. ai_save archive ''ann'' ''Ann'' local_win = Inr (archive m)) \<and>
    am_gameId m = ''0a1b2c3d-0000-4000-8000-0123456789ab'' \<and> am_participants m = [h, a] \<and> ap_ranking h = 1"
proof -
  have rid: "normalizeResultId (ar_resultId local_win) = Inr ''0a1b2c3d-0000-4000-8000-0123456789ab''"
    by code_simp
  have score: "0 \<le> humanScore local_win" "0 \<le> aiScore local_win" "score_final (humanScore local_win) (aiScore local_win)"
    "aiScore local_win < humanScore local_win"
    by (simp_all add: local_win_def score_final_def WIN_SCORE_def)
  show ?thesis
    using local_result_is_archived_with_ranks[OF score(1-3) rid, of "''ann''" "''Ann''"] score(4) by metis
qed

end
