(* ===== verification/Rounds.thy ===== *)
theory Rounds
  imports Prelude
begin

text \<open>
  The rounds of the dice game (\<open>game/round\<close>): the immutable round state and its checks
  (\<open>roundState.ts\<close>, \<open>roundStateContracts.ts\<close>, \<open>roundSubmission.ts\<close>, \<open>roundDice.ts\<close>), the turn transitions
  (\<open>roundTransitions.ts\<close>), the per-room store with its stale-turn guards (\<open>roundStateStoreInMemory.ts\<close>)
  and the stored form of a state (\<open>yacht/yachtDiceStateSnapshot.ts\<close>).

  A rejected transition is its reason; the messages are left out. Numbers of a stored state are integers, as everywhere in the rounds. Every transition builds its result
  with \<open>restore\<close>, which checks the round numbers again, as the constructor of the class does.
\<close>

section \<open>Data\<close>

datatype round_reason = INVALID_ROUND | INVALID_PLAYER | INVALID_DICE | INVALID_ROLL | INVALID_CATEGORY
  | ROUND_NOT_INITIALIZED | ROUND_ALREADY_INITIALIZED | ROUND_MISMATCH | PLAYER_NOT_IN_ROUND
  | NOT_ACTIVE_PLAYER | ALREADY_SUBMITTED | GAME_ALREADY_FINISHED

definition DICE_COUNT :: nat where "DICE_COUNT = 5"
definition MAX_ROLL_COUNT :: int where "MAX_ROLL_COUNT = 3"
definition DEFAULT_TOTAL_ROUNDS :: int where "DEFAULT_TOTAL_ROUNDS = 12"
definition NO_HELD :: "bool list" where "NO_HELD = [False, False, False, False, False]"

definition SUBMITTABLE_CATEGORIES :: "string list" where
  "SUBMITTABLE_CATEGORIES = [''ones'', ''twos'', ''threes'', ''fours'', ''fives'', ''sixes'', ''choice'',
     ''fourOfAKind'', ''fullHouse'', ''smallStraight'', ''largeStraight'', ''yacht'']"

record round_submission =
  rs_playerId :: string
  rs_roundNumber :: int
  rs_dice :: "int list"
  rs_category :: string

record round_state =
  roundNumber :: int
  totalRounds :: int
  participantOrder :: "string list"
  submissions :: "(string \<times> round_submission) list"
  activePlayerIndex :: int
  activeRollCount :: int
  activeDice :: "int list option"
  activeHeld :: "bool list option"
  rd_finished :: bool

record round_roll =
  rr_playerId :: string
  rr_roundNumber :: int
  rr_rollCount :: int
  rr_held :: "bool list"
  rr_rolledDice :: "int list"

record round_completion =
  rc_roundNumber :: int
  submittedPlayerIds :: "string list"
  nextRoundNumber :: int
  gameCompleted :: bool

type_synonym round_result = "round_state \<times> round_completion option"

section \<open>Checks\<close>

definition validateRoundNumber :: "int \<Rightarrow> round_reason + unit" where
  "validateRoundNumber n = (if n < 1 then Inl INVALID_ROUND else Inr ())"

definition validateTotalRounds :: "int \<Rightarrow> int \<Rightarrow> round_reason + unit" where
  "validateTotalRounds tot n = (if tot < 1 then Inl INVALID_ROUND else if n > tot then Inl INVALID_ROUND else Inr ())"

definition validateHeld :: "bool list \<Rightarrow> round_reason + unit" where
  "validateHeld held = (if length held \<noteq> DICE_COUNT then Inl INVALID_ROLL else Inr ())"

definition isInvalidDie :: "int \<Rightarrow> bool" where
  "isInvalidDie die = (die < 1 \<or> die > 6)"

definition validateRoundDice :: "int list \<Rightarrow> round_reason + unit" where
  "validateRoundDice dice = (if length dice \<noteq> DICE_COUNT \<or> list_ex isInvalidDie dice then Inl INVALID_DICE else Inr ())"

fun immutable_from :: "string list \<Rightarrow> string list \<Rightarrow> round_reason + string list" where
  "immutable_from copy [] = (if copy = [] then Inl INVALID_PLAYER else Inr copy)"
| "immutable_from copy (p # ps) = (if blank p then Inl INVALID_PLAYER
     else if p \<in> set copy then Inl INVALID_PLAYER else immutable_from (copy @ [p]) ps)"

definition immutableParticipants :: "string list \<Rightarrow> round_reason + string list" where
  "immutableParticipants ps = immutable_from [] ps"

definition sameDice :: "int list \<Rightarrow> int list \<Rightarrow> bool" where
  "sameDice left right = (length left = length right \<and> list_all2 (=) left right)"

definition new_submission :: "string \<Rightarrow> int \<Rightarrow> int list \<Rightarrow> string \<Rightarrow> round_reason + round_submission" where
  "new_submission p n dice category =
    (if blank p then Inl INVALID_PLAYER
     else if n < 1 then Inl INVALID_ROUND
     else if length dice \<noteq> DICE_COUNT \<or> list_ex isInvalidDie dice then Inl INVALID_DICE
     else if category \<notin> set SUBMITTABLE_CATEGORIES then Inl INVALID_CATEGORY
     else Inr \<lparr>rs_playerId = p, rs_roundNumber = n, rs_dice = dice, rs_category = category\<rparr>)"

fun merge_kept :: "int list \<Rightarrow> int list \<Rightarrow> bool list \<Rightarrow> int list" where
  "merge_kept (kept # previous) (die # rolled) (h # held) = (if h then kept else die) # merge_kept previous rolled held"
| "merge_kept previous rolled held = rolled"

definition mergeRolledDice :: "int list option \<Rightarrow> int list \<Rightarrow> bool list \<Rightarrow> int list" where
  "mergeRolledDice previous rolled held = (case previous of None \<Rightarrow> rolled | Some dice \<Rightarrow> merge_kept dice rolled held)"

section \<open>The state\<close>

definition restore :: "round_state \<Rightarrow> round_reason + round_state" where
  "restore props = (case validateRoundNumber (roundNumber props) of Inl e \<Rightarrow> Inl e
     | Inr _ \<Rightarrow> (case validateTotalRounds (totalRounds props) (roundNumber props) of Inl e \<Rightarrow> Inl e | Inr _ \<Rightarrow> Inr props))"

definition start_round :: "int \<Rightarrow> string list \<Rightarrow> int \<Rightarrow> round_reason + round_state" where
  "start_round n participants tot = (case immutableParticipants participants of Inl e \<Rightarrow> Inl e
     | Inr order \<Rightarrow> restore \<lparr>roundNumber = n, totalRounds = tot, participantOrder = order, submissions = [],
         activePlayerIndex = 0, activeRollCount = 0, activeDice = None, activeHeld = None, rd_finished = False\<rparr>)"

definition activePlayerId :: "round_state \<Rightarrow> round_reason + string" where
  "activePlayerId s = (if 0 \<le> activePlayerIndex s \<and> nat (activePlayerIndex s) < length (participantOrder s)
     then Inr (participantOrder s ! nat (activePlayerIndex s)) else Inl INVALID_PLAYER)"

definition hasRollsLeft :: "round_state \<Rightarrow> bool" where
  "hasRollsLeft s = (activeRollCount s < MAX_ROLL_COUNT)"

definition submitted_players :: "round_state \<Rightarrow> string list" where
  "submitted_players s = map fst (submissions s)"

definition validateCurrentPlayer :: "round_state \<Rightarrow> string \<Rightarrow> int \<Rightarrow> round_reason + unit" where
  "validateCurrentPlayer s p n =
    (if rd_finished s then Inl GAME_ALREADY_FINISHED
     else if n \<noteq> roundNumber s then Inl ROUND_MISMATCH
     else if p \<notin> set (participantOrder s) then Inl PLAYER_NOT_IN_ROUND
     else (case activePlayerId s of Inl e \<Rightarrow> Inl e
       | Inr active \<Rightarrow> if active \<noteq> p then Inl NOT_ACTIVE_PLAYER else Inr ()))"

definition recordRoll :: "round_state \<Rightarrow> round_roll \<Rightarrow> round_reason + round_state" where
  "recordRoll s roll = (case validateCurrentPlayer s (rr_playerId roll) (rr_roundNumber roll) of Inl e \<Rightarrow> Inl e
     | Inr _ \<Rightarrow>
       if rr_rollCount roll < 1 \<or> rr_rollCount roll > MAX_ROLL_COUNT \<or> rr_rollCount roll \<noteq> activeRollCount s + 1
       then Inl INVALID_ROLL
       else (case validateHeld (rr_held roll) of Inl e \<Rightarrow> Inl e
       | Inr _ \<Rightarrow> (case validateRoundDice (rr_rolledDice roll) of Inl e \<Rightarrow> Inl e
         | Inr _ \<Rightarrow>
           if activeDice s = None \<and> True \<in> set (rr_held roll) then Inl INVALID_ROLL
           else restore (s\<lparr>activeRollCount := rr_rollCount roll,
             activeDice := Some (mergeRolledDice (activeDice s) (rr_rolledDice roll) (rr_held roll)),
             activeHeld := Some (rr_held roll), rd_finished := False\<rparr>))))"

definition recordHold :: "round_state \<Rightarrow> string \<Rightarrow> int \<Rightarrow> bool list \<Rightarrow> round_reason + round_state" where
  "recordHold s p n held = (case validateCurrentPlayer s p n of Inl e \<Rightarrow> Inl e
     | Inr _ \<Rightarrow> if activeDice s = None then Inl INVALID_ROLL
       else (case validateHeld held of Inl e \<Rightarrow> Inl e
         | Inr _ \<Rightarrow> restore (s\<lparr>activeHeld := Some held, rd_finished := False\<rparr>)))"

definition autoRoll :: "round_state \<Rightarrow> int list \<Rightarrow> round_reason + round_state" where
  "autoRoll s rolled = (if \<not> hasRollsLeft s then Inl INVALID_ROLL
     else (case activePlayerId s of Inl e \<Rightarrow> Inl e
       | Inr p \<Rightarrow> recordRoll s \<lparr>rr_playerId = p, rr_roundNumber = roundNumber s, rr_rollCount = activeRollCount s + 1,
           rr_held = (case activeHeld s of Some held \<Rightarrow> held | None \<Rightarrow> NO_HELD), rr_rolledDice = rolled\<rparr>))"

section \<open>Turns and rounds\<close>

definition completeRound :: "round_state \<Rightarrow> (string \<times> round_submission) list \<Rightarrow> round_reason + round_result" where
  "completeRound s subs =
    (let completed = roundNumber s \<ge> totalRounds s;
         completion = \<lparr>rc_roundNumber = roundNumber s, submittedPlayerIds = map fst subs,
           nextRoundNumber = (if completed then roundNumber s else roundNumber s + 1), gameCompleted = completed\<rparr>;
         terminal = s\<lparr>submissions := subs, activeRollCount := 0, activeDice := None, activeHeld := None, rd_finished := True\<rparr>;
         next_round = terminal\<lparr>roundNumber := roundNumber s + 1, submissions := [], activePlayerIndex := 0, rd_finished := False\<rparr>
     in case restore (if completed then terminal else next_round) of Inl e \<Rightarrow> Inl e | Inr s' \<Rightarrow> Inr (s', Some completion))"

definition advanceTurn :: "round_state \<Rightarrow> (string \<times> round_submission) list \<Rightarrow> round_reason + round_result" where
  "advanceTurn s subs =
    (if activePlayerIndex s < int (length (participantOrder s)) - 1
     then (case restore (s\<lparr>submissions := subs, activePlayerIndex := activePlayerIndex s + 1, activeRollCount := 0,
             activeDice := None, activeHeld := None, rd_finished := False\<rparr>) of Inl e \<Rightarrow> Inl e | Inr s' \<Rightarrow> Inr (s', None))
     else completeRound s subs)"

definition submit_round :: "round_state \<Rightarrow> round_submission \<Rightarrow> round_reason + round_result" where
  "submit_round s sub = (case validateCurrentPlayer s (rs_playerId sub) (rs_roundNumber sub) of Inl e \<Rightarrow> Inl e
     | Inr _ \<Rightarrow> (case activeDice s of None \<Rightarrow> Inl INVALID_DICE
       | Some dice \<Rightarrow> if \<not> sameDice dice (rs_dice sub) then Inl INVALID_DICE
         else if has_key (submissions s) (rs_playerId sub) then Inl ALREADY_SUBMITTED
         else advanceTurn s (AList.update (rs_playerId sub) sub (submissions s))))"

definition expire_round :: "round_state \<Rightarrow> round_reason + round_result" where
  "expire_round s = (if rd_finished s then Inl GAME_ALREADY_FINISHED else advanceTurn s (submissions s))"

definition withoutParticipant :: "round_state \<Rightarrow> string \<Rightarrow> round_reason + round_state" where
  "withoutParticipant s p =
    (if rd_finished s \<or> p \<notin> set (participantOrder s) then Inr s
     else (case activePlayerId s of Inl e \<Rightarrow> Inl e
       | Inr active \<Rightarrow> if active = p then Inl INVALID_PLAYER
         else (let removedIndex = index_of p (participantOrder s) in
           restore (s\<lparr>participantOrder := take (nat removedIndex) (participantOrder s) @ drop (nat removedIndex + 1) (participantOrder s),
             activePlayerIndex := (if removedIndex < activePlayerIndex s then activePlayerIndex s - 1 else activePlayerIndex s),
             rd_finished := False\<rparr>))))"

section \<open>The store of the rooms\<close>

datatype 'e round_error = Sync round_reason | BlankRoomId | Callback 'e

type_synonym round_store = "(string \<times> round_state) list"
type_synonym ('e, 'a) on_rounds = "(round_store, 'e round_error, 'a) cmd"

definition require_room :: "string \<Rightarrow> ('e, 'a) on_rounds \<Rightarrow> ('e, 'a) on_rounds" where
  "require_room room task = (if blank room then throw BlankRoomId else task)"

definition sync :: "round_reason + 'a \<Rightarrow> ('e, 'a) on_rounds" where
  "sync r = (case r of Inl e \<Rightarrow> throw (Sync e) | Inr x \<Rightarrow> ret x)"

definition put_round :: "string \<Rightarrow> round_state \<Rightarrow> ('e, unit) on_rounds" where
  "put_round room s = (\<lambda>st. (Inr (), AList.update room s st))"

definition findByRoomId :: "string \<Rightarrow> ('e, round_state option) on_rounds" where
  "findByRoomId room = require_room room (\<lambda>st. (Inr (map_of st room), st))"

definition initialize_round :: "string \<Rightarrow> round_state \<Rightarrow> ('e, unit) on_rounds" where
  "initialize_round room s = require_room room (\<lambda>st.
     if has_key st room then throw (Sync ROUND_ALREADY_INITIALIZED) st else put_round room s st)"

definition required :: "string \<Rightarrow> (round_state \<Rightarrow> ('e, 'a) on_rounds) \<Rightarrow> ('e, 'a) on_rounds" where
  "required room task = require_room room (\<lambda>st. case map_of st room of
     None \<Rightarrow> throw (Sync ROUND_NOT_INITIALIZED) st | Some s \<Rightarrow> task s st)"

text \<open>\<open>beforeStateChange\<close> runs after the checks and before the commit; it acts on the world outside the
  store and may throw.\<close>

definition submitAtomically :: "string \<Rightarrow> round_submission \<Rightarrow> ('w, 'e, unit) cmd \<Rightarrow>
    (round_store \<times> 'w, 'e round_error, round_result) cmd" where
  "submitAtomically room sub beforeStateChange = (\<lambda>(st, w).
     if blank room then (Inl BlankRoomId, (st, w))
     else (case map_of st room of None \<Rightarrow> (Inl (Sync ROUND_NOT_INITIALIZED), (st, w))
       | Some s \<Rightarrow> (case submit_round s sub of Inl e \<Rightarrow> (Inl (Sync e), (st, w))
         | Inr result \<Rightarrow> (case beforeStateChange w of
             (Inl e, w') \<Rightarrow> (Inl (Callback e), (st, w'))
           | (Inr _, w') \<Rightarrow> (Inr result, (AList.update room (fst result) st, w'))))))"

definition recordRollAtomically :: "string \<Rightarrow> round_roll \<Rightarrow> ('e, round_state) on_rounds" where
  "recordRollAtomically room roll = required room (\<lambda>s.
     andThen (sync (recordRoll s roll)) (\<lambda>s'. andThen (put_round room s') (\<lambda>_. ret s')))"

definition recordHoldAtomically :: "string \<Rightarrow> string \<Rightarrow> int \<Rightarrow> bool list \<Rightarrow> ('e, round_state) on_rounds" where
  "recordHoldAtomically room p n held = required room (\<lambda>s.
     andThen (sync (recordHold s p n held)) (\<lambda>s'. andThen (put_round room s') (\<lambda>_. ret s')))"

definition isStaleTurn :: "round_state \<Rightarrow> int \<Rightarrow> string \<Rightarrow> round_reason + bool" where
  "isStaleTurn s n p = (if rd_finished s then Inr True
     else if roundNumber s \<noteq> n then Inr True
     else (case activePlayerId s of Inl e \<Rightarrow> Inl e | Inr active \<Rightarrow> Inr (active \<noteq> p)))"

definition optional :: "string \<Rightarrow> (round_state \<Rightarrow> ('e, 'a option) on_rounds) \<Rightarrow> ('e, 'a option) on_rounds" where
  "optional room task = require_room room (\<lambda>st. case map_of st room of None \<Rightarrow> ret None st | Some s \<Rightarrow> task s st)"

definition autoRollAtomically :: "string \<Rightarrow> int \<Rightarrow> string \<Rightarrow> int list \<Rightarrow> ('e, round_state option) on_rounds" where
  "autoRollAtomically room n p rolled = optional room (\<lambda>s.
     andThen (sync (isStaleTurn s n p)) (\<lambda>stale.
       if stale \<or> \<not> hasRollsLeft s then ret None
       else andThen (sync (autoRoll s rolled)) (\<lambda>s'. andThen (put_round room s') (\<lambda>_. ret (Some s')))))"

definition expireAtomically :: "string \<Rightarrow> int \<Rightarrow> string \<Rightarrow> ('e, round_result option) on_rounds" where
  "expireAtomically room n p = optional room (\<lambda>s.
     andThen (sync (isStaleTurn s n p)) (\<lambda>stale.
       if stale then ret None
       else andThen (sync (expire_round s)) (\<lambda>result. andThen (put_round room (fst result)) (\<lambda>_. ret (Some result)))))"

definition removeParticipantAtomically :: "string \<Rightarrow> string \<Rightarrow> ('e, round_state option) on_rounds" where
  "removeParticipantAtomically room p = optional room (\<lambda>s.
     andThen (sync (withoutParticipant s p)) (\<lambda>s'. andThen (put_round room s') (\<lambda>_. ret (Some s'))))"

definition remove_round :: "string \<Rightarrow> ('e, bool) on_rounds" where
  "remove_round room = require_room room (\<lambda>st. (Inr (has_key st room), AList.delete room st))"

section \<open>The stored form\<close>

definition submission_json :: "round_submission \<Rightarrow> json" where
  "submission_json sub = JObj [(''playerId'', JStr (rs_playerId sub)), (''roundNumber'', JNum (rs_roundNumber sub)),
     (''dice'', JArr (map JNum (rs_dice sub))), (''category'', JStr (rs_category sub))]"

definition optional_json :: "('a \<Rightarrow> json) \<Rightarrow> 'a option \<Rightarrow> json" where
  "optional_json f v = (case v of None \<Rightarrow> JNull | Some x \<Rightarrow> f x)"

definition toStateSnapshot :: "round_state \<Rightarrow> json" where
  "toStateSnapshot s = JObj [(''roundNumber'', JNum (roundNumber s)), (''totalRounds'', JNum (totalRounds s)),
     (''participantOrder'', JArr (map JStr (participantOrder s))),
     (''submissions'', JObj (map_from_pairs (map (\<lambda>(p, sub). (p, submission_json sub)) (submissions s)))),
     (''activePlayerIndex'', JNum (activePlayerIndex s)), (''activeRollCount'', JNum (activeRollCount s)),
     (''activeDice'', optional_json (\<lambda>dice. JArr (map JNum dice)) (activeDice s)),
     (''activeHeld'', optional_json (\<lambda>held. JArr (map JBool held)) (activeHeld s)),
     (''finished'', JBool (rd_finished s))]"

fun as_bool :: "json \<Rightarrow> bool option" where
  "as_bool (JBool b) = Some b"
| "as_bool _ = None"

fun as_list :: "(json \<Rightarrow> 'a option) \<Rightarrow> json \<Rightarrow> 'a list option" where
  "as_list f (JArr xs) = map_option_all f xs"
| "as_list f _ = None"

text \<open>A field that may be missing or \<open>null\<close> (\<open>nullish\<close>); the outer option is the failure of the schema.\<close>

definition nullish :: "(json \<Rightarrow> 'a option) \<Rightarrow> json option \<Rightarrow> 'a option option" where
  "nullish f field = (case field of None \<Rightarrow> Some None
     | Some v \<Rightarrow> if v = JNull then Some None else map_option Some (f v))"

definition field_of :: "(json \<Rightarrow> 'a option) \<Rightarrow> json \<Rightarrow> string \<Rightarrow> 'a option" where
  "field_of f v k = Option.bind (json_field v k) f"

text \<open>Schema and \<open>RoundSubmission\<close> constructor in one: \<open>None\<close> is a failure of either.\<close>

definition parse_submission :: "json \<Rightarrow> round_submission option" where
  "parse_submission v = (case (field_of as_string v ''playerId'', field_of as_int v ''roundNumber'',
       field_of (as_list as_int) v ''dice'', field_of as_string v ''category'') of
     (Some p, Some n, Some dice, Some category) \<Rightarrow>
       (case new_submission p n dice category of Inr sub \<Rightarrow> Some sub | Inl _ \<Rightarrow> None)
   | _ \<Rightarrow> None)"

fun parse_submissions :: "json \<Rightarrow> (string \<times> round_submission) list option" where
  "parse_submissions (JObj entries) = map_option map_from_pairs
     (map_option_all (\<lambda>(p, v). map_option (Pair p) (parse_submission v)) entries)"
| "parse_submissions _ = None"

definition deserializeState :: "json \<Rightarrow> round_state option" where
  "deserializeState v = (case (field_of as_int v ''roundNumber'', field_of as_int v ''totalRounds'',
       field_of (as_list as_string) v ''participantOrder'', nullish parse_submissions (json_field v ''submissions'')) of
     (Some n, Some tot, Some order, Some subs) \<Rightarrow>
       (case (field_of as_int v ''activePlayerIndex'', field_of as_int v ''activeRollCount'',
           nullish (as_list as_int) (json_field v ''activeDice''), nullish (as_list as_bool) (json_field v ''activeHeld''),
           field_of as_bool v ''finished'') of
         (Some index, Some rolls, Some dice, Some held, Some over) \<Rightarrow>
           (case restore \<lparr>roundNumber = n, totalRounds = tot, participantOrder = order,
               submissions = (case subs of Some m \<Rightarrow> m | None \<Rightarrow> []), activePlayerIndex = index,
               activeRollCount = rolls, activeDice = dice, activeHeld = held, rd_finished = over\<rparr> of
             Inr s \<Rightarrow> Some s | Inl _ \<Rightarrow> None)
       | _ \<Rightarrow> None)
   | _ \<Rightarrow> None)"

end
