(* ===== verification/RoundsTheorems.thy ===== *)
theory RoundsTheorems
  imports Rounds
begin

text \<open>
  What the rounds guarantee: the state stays valid under every accepted or rejected operation, turns go
  round the table until the last round and no further, a turn that is over never comes back, only dice the
  server rolled are submitted, and a stored state is read back as it was.
\<close>

section \<open>Runs\<close>

datatype round_op = Roll round_roll | Hold string int "bool list" | Auto "int list"
  | Submit string int "int list" string | Expire | Leave string

fun round_step :: "round_state \<Rightarrow> round_op \<Rightarrow> round_reason + round_state" where
  "round_step s (Roll roll) = recordRoll s roll"
| "round_step s (Hold p n held) = recordHold s p n held"
| "round_step s (Auto rolled) = autoRoll s rolled"
| "round_step s (Submit p n dice category) = (case new_submission p n dice category of Inl e \<Rightarrow> Inl e
     | Inr sub \<Rightarrow> map_sum id fst (submit_round s sub))"
| "round_step s Expire = map_sum id fst (expire_round s)"
| "round_step s (Leave p) = withoutParticipant s p"

text \<open>A rejected operation leaves the stored state alone.\<close>

definition round_apply :: "round_state \<Rightarrow> round_op \<Rightarrow> round_state" where
  "round_apply s op = (case round_step s op of Inl _ \<Rightarrow> s | Inr s' \<Rightarrow> s')"

definition round_run :: "round_state \<Rightarrow> round_op list \<Rightarrow> round_state" where
  "round_run s ops = foldl round_apply s ops"

section \<open>The invariant\<close>

definition valid_dice :: "int list \<Rightarrow> bool" where
  "valid_dice dice = (length dice = DICE_COUNT \<and> \<not> list_ex isInvalidDie dice)"

definition valid_submission :: "int \<Rightarrow> string \<times> round_submission \<Rightarrow> bool" where
  "valid_submission n e = (rs_playerId (snd e) = fst e \<and> rs_roundNumber (snd e) = n \<and> valid_dice (rs_dice (snd e)) \<and>
     rs_category (snd e) \<in> set SUBMITTABLE_CATEGORIES \<and> \<not> blank (fst e))"

text \<open>The players who still have their turn in this round, the active one first.\<close>

definition to_play :: "round_state \<Rightarrow> string list" where
  "to_play s = (if rd_finished s then [] else drop (nat (activePlayerIndex s)) (participantOrder s))"

definition seats_ok :: "round_state \<Rightarrow> bool" where
  "seats_ok s = (1 \<le> roundNumber s \<and> roundNumber s \<le> totalRounds s \<and> distinct (participantOrder s) \<and>
     0 \<le> activePlayerIndex s \<and> nat (activePlayerIndex s) < length (participantOrder s) \<and>
     (rd_finished s \<longrightarrow> roundNumber s = totalRounds s \<and> activePlayerIndex s = int (length (participantOrder s)) - 1))"

definition turn_ok :: "round_state \<Rightarrow> bool" where
  "turn_ok s = (0 \<le> activeRollCount s \<and> activeRollCount s \<le> MAX_ROLL_COUNT \<and>
     (case (activeDice s, activeHeld s) of
        (None, None) \<Rightarrow> activeRollCount s = 0
      | (Some dice, Some held) \<Rightarrow> 1 \<le> activeRollCount s \<and> valid_dice dice \<and> length held = DICE_COUNT
      | _ \<Rightarrow> False))"

definition played_ok :: "round_state \<Rightarrow> bool" where
  "played_ok s = (wf_map (submissions s) \<and> list_all (valid_submission (roundNumber s)) (submissions s) \<and>
     set (to_play s) \<inter> keys_of (submissions s) = {})"

definition round_ok :: "round_state \<Rightarrow> bool" where
  "round_ok s = (seats_ok s \<and> turn_ok s \<and> played_ok s)"

lemma restore_ok [simp]: "1 \<le> roundNumber s \<Longrightarrow> roundNumber s \<le> totalRounds s \<Longrightarrow> restore s = Inr s"
  by (simp add: restore_def validateRoundNumber_def validateTotalRounds_def)

lemma restore_Inr: "restore s = Inr s' \<Longrightarrow> s' = s \<and> 1 \<le> roundNumber s \<and> roundNumber s \<le> totalRounds s"
  by (auto simp: restore_def validateRoundNumber_def validateTotalRounds_def split: if_splits)

lemma active_ok: "seats_ok s \<Longrightarrow> activePlayerId s = Inr (participantOrder s ! nat (activePlayerIndex s))"
  by (simp add: seats_ok_def activePlayerId_def)

lemma nth_in_drop: "i < length xs \<Longrightarrow> xs ! i \<in> set (drop i xs)"
  by (metis Cons_nth_drop_Suc list.set_intros(1))

lemma current_ok:
  assumes "seats_ok s" "validateCurrentPlayer s p n = Inr u"
  shows "\<not> rd_finished s" "n = roundNumber s" "p = participantOrder s ! nat (activePlayerIndex s)" "p \<in> set (to_play s)"
  using assms active_ok[OF assms(1)]
  by (auto simp: validateCurrentPlayer_def seats_ok_def to_play_def nth_in_drop split: if_splits)

lemma immutable_from_ok:
  "immutable_from copy ps = Inr order \<Longrightarrow> distinct copy \<Longrightarrow> order = copy @ ps \<and> distinct order \<and> order \<noteq> []"
  by (induction copy ps rule: immutable_from.induct) (auto split: if_splits)

lemma start_ok:
  assumes "start_round n ps tot = Inr s" shows "round_ok s" "participantOrder s = ps" "ps \<noteq> []"
proof -
  obtain order where order: "immutableParticipants ps = Inr order"
    and s: "restore \<lparr>roundNumber = n, totalRounds = tot, participantOrder = order, submissions = [],
         activePlayerIndex = 0, activeRollCount = 0, activeDice = None, activeHeld = None, rd_finished = False\<rparr> = Inr s"
    using assms by (auto simp: start_round_def split: sum.splits)
  have "order = ps" "distinct ps" "ps \<noteq> []"
    using immutable_from_ok[of "[]" ps order] order by (auto simp: immutableParticipants_def)
  then show "round_ok s" "participantOrder s = ps" "ps \<noteq> []"
    using restore_Inr[OF s] by (auto simp: round_ok_def seats_ok_def turn_ok_def played_ok_def MAX_ROLL_COUNT_def)
qed

section \<open>Dice\<close>

lemma merge_kept_length: "length (merge_kept previous rolled held) = length rolled"
  by (induction previous rolled held rule: merge_kept.induct) auto

lemma merge_kept_nth:
  "length previous = length rolled \<Longrightarrow> length held = length rolled \<Longrightarrow> i < length rolled \<Longrightarrow>
     merge_kept previous rolled held ! i = (if held ! i then previous ! i else rolled ! i)"
  by (induction previous rolled held arbitrary: i rule: merge_kept.induct) (auto simp: nth_Cons split: nat.splits)

lemma merge_kept_set: "set (merge_kept previous rolled held) \<subseteq> set previous \<union> set rolled"
  by (induction previous rolled held rule: merge_kept.induct) auto

lemma valid_merge:
  "valid_dice rolled \<Longrightarrow> (\<And>dice. previous = Some dice \<Longrightarrow> valid_dice dice) \<Longrightarrow> valid_dice (mergeRolledDice previous rolled held)"
  using merge_kept_set by (fastforce simp: valid_dice_def mergeRolledDice_def merge_kept_length list_ex_iff split: option.split)

lemma turn_dice: "turn_ok s \<Longrightarrow> activeDice s = Some dice \<Longrightarrow> valid_dice dice"
  by (auto simp: turn_ok_def split: option.splits)

lemma recordRoll_Inr:
  assumes "recordRoll s roll = Inr s'" "seats_ok s"
  shows "validateCurrentPlayer s (rr_playerId roll) (rr_roundNumber roll) = Inr ()"
    "rr_rollCount roll = activeRollCount s + 1" "rr_rollCount roll \<le> MAX_ROLL_COUNT" "1 \<le> rr_rollCount roll"
    "length (rr_held roll) = DICE_COUNT" "valid_dice (rr_rolledDice roll)"
    "s' = s\<lparr>activeRollCount := rr_rollCount roll,
       activeDice := Some (mergeRolledDice (activeDice s) (rr_rolledDice roll) (rr_held roll)),
       activeHeld := Some (rr_held roll), rd_finished := False\<rparr>"
  using assms by (auto simp: recordRoll_def validateHeld_def validateRoundDice_def valid_dice_def split: sum.splits if_splits
      dest!: restore_Inr)

lemma recordHold_Inr:
  assumes "recordHold s p n held = Inr s'"
  shows "validateCurrentPlayer s p n = Inr ()" "activeDice s \<noteq> None" "length held = DICE_COUNT"
    "s' = s\<lparr>activeHeld := Some held, rd_finished := False\<rparr>"
  using assms by (auto simp: recordHold_def validateHeld_def split: sum.splits if_splits dest!: restore_Inr)

lemma autoRoll_Inr:
  assumes "autoRoll s rolled = Inr s'"
  obtains p held where "recordRoll s \<lparr>rr_playerId = p, rr_roundNumber = roundNumber s, rr_rollCount = activeRollCount s + 1,
    rr_held = held, rr_rolledDice = rolled\<rparr> = Inr s'"
  using assms by (auto simp: autoRoll_def split: sum.splits if_splits)

text \<open>A roll or a changed keep leaves seats and submissions alone.\<close>

definition same_seats :: "round_state \<Rightarrow> round_state \<Rightarrow> bool" where
  "same_seats s s' = (roundNumber s' = roundNumber s \<and> totalRounds s' = totalRounds s \<and>
     participantOrder s' = participantOrder s \<and> submissions s' = submissions s \<and>
     activePlayerIndex s' = activePlayerIndex s \<and> rd_finished s' = rd_finished s)"

lemma same_seats_to_play: "same_seats s s' \<Longrightarrow> to_play s' = to_play s"
  by (simp add: same_seats_def to_play_def)

lemma same_seats_ok: "same_seats s s' \<Longrightarrow> round_ok s \<Longrightarrow> turn_ok s' \<Longrightarrow> round_ok s'"
  by (simp add: round_ok_def seats_ok_def played_ok_def same_seats_to_play) (simp add: same_seats_def)

lemma recordRoll_ok:
  assumes "round_ok s" "recordRoll s roll = Inr s'" shows "same_seats s s' \<and> turn_ok s'"
proof -
  have s: "seats_ok s" "turn_ok s" using assms(1) by (simp_all add: round_ok_def)
  note r = recordRoll_Inr[OF assms(2) s(1)]
  have "\<not> rd_finished s" by (rule current_ok(1)[OF s(1) r(1)])
  moreover have "valid_dice (mergeRolledDice (activeDice s) (rr_rolledDice roll) (rr_held roll))"
    by (rule valid_merge[OF r(6)]) (rule turn_dice[OF s(2)])
  ultimately show ?thesis using r(3-5,7) by (simp add: same_seats_def turn_ok_def)
qed

lemma recordHold_ok:
  assumes "round_ok s" "recordHold s p n held = Inr s'" shows "same_seats s s' \<and> turn_ok s'"
proof -
  have s: "seats_ok s" "turn_ok s" using assms(1) by (simp_all add: round_ok_def)
  note r = recordHold_Inr[OF assms(2)]
  have "\<not> rd_finished s" by (rule current_ok(1)[OF s(1) r(1)])
  then show ?thesis using r(2-4) s(2) by (auto simp: same_seats_def turn_ok_def split: option.splits)
qed

section \<open>Turns\<close>

definition position :: "round_state \<Rightarrow> int" where
  "position s = (roundNumber s - 1) * int (length (participantOrder s)) + activePlayerIndex s + (if rd_finished s then 1 else 0)"

definition turn_over :: "round_state \<Rightarrow> (string \<times> round_submission) list \<Rightarrow> round_state \<Rightarrow> bool" where
  "turn_over s subs s' = (participantOrder s' = participantOrder s \<and> totalRounds s' = totalRounds s \<and>
     activeRollCount s' = 0 \<and> activeDice s' = None \<and> activeHeld s' = None \<and>
     (if activePlayerIndex s < int (length (participantOrder s)) - 1
      then activePlayerIndex s' = activePlayerIndex s + 1 \<and> roundNumber s' = roundNumber s \<and> submissions s' = subs \<and> \<not> rd_finished s'
      else if roundNumber s \<ge> totalRounds s
      then activePlayerIndex s' = activePlayerIndex s \<and> roundNumber s' = roundNumber s \<and> submissions s' = subs \<and> rd_finished s'
      else activePlayerIndex s' = 0 \<and> roundNumber s' = roundNumber s + 1 \<and> submissions s' = [] \<and> \<not> rd_finished s'))"

lemma advanceTurn_over:
  assumes "seats_ok s" shows "\<exists>s' c. advanceTurn s subs = Inr (s', c) \<and> turn_over s subs s'"
  using assms by (auto simp: advanceTurn_def completeRound_def turn_over_def seats_ok_def Let_def)

lemma turn_over_position:
  assumes "seats_ok s" "\<not> rd_finished s" "turn_over s subs s'"
  shows "position s' = position s + 1" "seats_ok s'"
proof -
  have index: "activePlayerIndex s < int (length (participantOrder s))" "0 \<le> activePlayerIndex s"
    using assms(1) by (auto simp: seats_ok_def)
  show "seats_ok s'" using assms index by (auto simp: turn_over_def seats_ok_def split: if_splits)
  show "position s' = position s + 1"
  proof (cases "activePlayerIndex s < int (length (participantOrder s)) - 1")
    case True then show ?thesis using assms(2,3) by (simp add: turn_over_def position_def)
  next
    case False
    then have "activePlayerIndex s = int (length (participantOrder s)) - 1" using index by simp
    then show ?thesis using assms(2,3) by (auto simp: turn_over_def position_def algebra_simps split: if_splits)
  qed
qed

lemma to_play_over:
  assumes "turn_over s subs s'" "seats_ok s" "\<not> rd_finished s"
  shows "roundNumber s' = roundNumber s \<Longrightarrow> set (to_play s') \<subseteq> set (to_play s) - {participantOrder s ! nat (activePlayerIndex s)}"
proof -
  assume same: "roundNumber s' = roundNumber s"
  let ?i = "nat (activePlayerIndex s)"
  have d: "drop ?i (participantOrder s) = participantOrder s ! ?i # drop (Suc ?i) (participantOrder s)"
    using assms(2) by (simp add: seats_ok_def Cons_nth_drop_Suc)
  have "distinct (drop ?i (participantOrder s))" using assms(2) by (simp add: seats_ok_def)
  then have notin: "participantOrder s ! ?i \<notin> set (drop (Suc ?i) (participantOrder s))" unfolding d by simp
  have "nat (activePlayerIndex s + 1) = Suc ?i" using assms(2) by (simp add: seats_ok_def nat_add_distrib)
  then have "to_play s' = drop (Suc ?i) (participantOrder s) \<or> to_play s' = []"
    using assms same by (auto simp: turn_over_def to_play_def split: if_splits)
  then show ?thesis using assms(3) notin by (auto simp: to_play_def d)
qed

lemma turn_over_ok:
  assumes ok: "round_ok s" and live: "\<not> rd_finished s" and over: "turn_over s subs s'"
    and subs: "wf_map subs" "list_all (valid_submission (roundNumber s)) subs"
      "keys_of subs \<subseteq> insert (participantOrder s ! nat (activePlayerIndex s)) (keys_of (submissions s))"
  shows "round_ok s'"
proof -
  have s: "seats_ok s" "played_ok s" using ok by (simp_all add: round_ok_def)
  have "turn_ok s'" using over by (simp add: turn_over_def turn_ok_def MAX_ROLL_COUNT_def)
  moreover have "seats_ok s'" by (rule turn_over_position(2)[OF s(1) live over])
  moreover have "played_ok s'"
  proof (cases "roundNumber s' = roundNumber s")
    case True
    then have sub: "submissions s' = subs" using over by (auto simp: turn_over_def split: if_splits)
    have "set (to_play s') \<inter> keys_of subs = {}"
      using to_play_over[OF over s(1) live True] s(2) subs(3) unfolding played_ok_def by blast
    then show ?thesis using sub subs(1,2) True by (simp add: played_ok_def)
  next
    case False
    then have "submissions s' = []" using over by (auto simp: turn_over_def split: if_splits)
    then show ?thesis by (simp add: played_ok_def)
  qed
  ultimately show ?thesis by (simp add: round_ok_def)
qed

lemma submit_Inr:
  assumes "submit_round s sub = Inr (s', c)" "seats_ok s"
  shows "validateCurrentPlayer s (rs_playerId sub) (rs_roundNumber sub) = Inr ()" "activeDice s = Some (rs_dice sub)"
    "\<not> has_key (submissions s) (rs_playerId sub)" "turn_over s (AList.update (rs_playerId sub) sub (submissions s)) s'"
proof -
  obtain s1 c1 where adv: "advanceTurn s (AList.update (rs_playerId sub) sub (submissions s)) = Inr (s1, c1)"
    "turn_over s (AList.update (rs_playerId sub) sub (submissions s)) s1" using advanceTurn_over[OF assms(2)] by blast
  show "validateCurrentPlayer s (rs_playerId sub) (rs_roundNumber sub) = Inr ()" "activeDice s = Some (rs_dice sub)"
    "\<not> has_key (submissions s) (rs_playerId sub)" "turn_over s (AList.update (rs_playerId sub) sub (submissions s)) s'"
    using assms(1) adv by (auto simp: submit_round_def sameDice_def list.rel_eq split: sum.splits option.splits if_splits)
qed

lemma expire_Inr:
  assumes "expire_round s = Inr (s', c)" "seats_ok s" shows "\<not> rd_finished s" "turn_over s (submissions s) s'"
  using assms advanceTurn_over[OF assms(2), of "submissions s"] by (auto simp: expire_round_def split: if_splits)

lemma new_submission_Inr:
  "new_submission p n dice category = Inr sub \<Longrightarrow> sub = \<lparr>rs_playerId = p, rs_roundNumber = n, rs_dice = dice, rs_category = category\<rparr> \<and>
     valid_submission n (p, sub)"
  by (auto simp: new_submission_def valid_submission_def valid_dice_def split: if_splits)

lemma list_all_map_update: "list_all P m \<Longrightarrow> P (k, v) \<Longrightarrow> list_all P (AList.update k v m)"
  by (induction m) auto

lemma submit_ok:
  assumes "round_ok s" "submit_round s sub = Inr (s', c)" "valid_submission (rs_roundNumber sub) (rs_playerId sub, sub)"
  shows "round_ok s'"
proof -
  have s: "seats_ok s" "played_ok s" using assms(1) by (simp_all add: round_ok_def)
  note r = submit_Inr[OF assms(2) s(1)]
  note cur = current_ok[OF s(1) r(1)]
  show ?thesis
    by (rule turn_over_ok[OF assms(1) cur(1) r(4)])
      (use s(2) assms(3) cur(2,3) in \<open>auto simp: played_ok_def list_all_map_update\<close>)
qed

lemma round_expire_ok: assumes "round_ok s" "expire_round s = Inr (s', c)" shows "round_ok s'"
proof -
  have s: "seats_ok s" "played_ok s" using assms(1) by (simp_all add: round_ok_def)
  note r = expire_Inr[OF assms(2) s(1)]
  show ?thesis by (rule turn_over_ok[OF assms(1) r]) (use s(2) in \<open>auto simp: played_ok_def\<close>)
qed

section \<open>Departures\<close>

definition remove_at :: "nat \<Rightarrow> 'a list \<Rightarrow> 'a list" where
  "remove_at k xs = take k xs @ drop (k + 1) xs"

lemma length_remove_at: "k < length xs \<Longrightarrow> length (remove_at k xs) = length xs - 1"
  by (simp add: remove_at_def)

lemma distinct_remove_at: "distinct xs \<Longrightarrow> distinct (remove_at k xs)"
  using set_take_disj_set_drop_if_distinct[of xs k "k + 1"] by (simp add: remove_at_def)

lemma drop_remove_at: "drop i (remove_at k xs) = (if i \<le> k then drop i (take k xs) @ drop (k + 1) xs else drop (i + 1) xs)"
  by (cases "k \<le> length xs") (auto simp: remove_at_def)

lemma set_drop_remove_at:
  assumes "distinct xs" "k < length xs" "i < length xs" "i \<noteq> k"
  shows "set (drop (if k < i then i - 1 else i) (remove_at k xs)) = set (drop i xs) - {xs ! k}"
proof (cases "k < i")
  case True
  then have "xs ! k \<notin> set (drop i xs)"
    using assms by (auto simp: in_set_conv_nth nth_eq_iff_index_eq)
  moreover have "i - 1 \<le> k \<Longrightarrow> Suc k = i" using True by simp
  ultimately show ?thesis using True by (cases "i - 1 \<le> k") (simp_all add: drop_remove_at)
next
  case False
  have split: "drop i xs = drop i (take k xs) @ xs ! k # drop (Suc k) xs"
    using False assms(2,4) by (metis Cons_nth_drop_Suc append_take_drop_id drop_append diff_is_0_eq drop0 length_take
        min.absorb4 not_less nat_less_le)
  have "distinct (drop i xs)" using assms(1) by simp
  then have "xs ! k \<notin> set (drop i (take k xs)) \<union> set (drop (Suc k) xs)" unfolding split by auto
  then show ?thesis using False split by (simp add: drop_remove_at)
qed

lemma withoutParticipant_Inr:
  assumes "withoutParticipant s p = Inr s'" "s' \<noteq> s" "seats_ok s"
  obtains k where "k < length (participantOrder s)" "participantOrder s ! k = p" "k \<noteq> nat (activePlayerIndex s)" "\<not> rd_finished s"
    "s' = s\<lparr>participantOrder := remove_at k (participantOrder s),
       activePlayerIndex := (if int k < activePlayerIndex s then activePlayerIndex s - 1 else activePlayerIndex s)\<rparr>"
proof -
  have live: "\<not> rd_finished s" and p: "p \<in> set (participantOrder s)"
    using assms(1,2) by (auto simp: withoutParticipant_def split: if_splits)
  define k where "k = nat (index_of p (participantOrder s))"
  have k: "k < length (participantOrder s)" "participantOrder s ! k = p" "int k = index_of p (participantOrder s)"
    using index_of_nth[OF p] by (simp_all add: k_def)
  have "p \<noteq> participantOrder s ! nat (activePlayerIndex s)"
    and s': "s' = s\<lparr>participantOrder := remove_at k (participantOrder s),
       activePlayerIndex := (if int k < activePlayerIndex s then activePlayerIndex s - 1 else activePlayerIndex s)\<rparr>"
    using assms(1) live p active_ok[OF assms(3)] k(3)
    by (auto simp: withoutParticipant_def Let_def remove_at_def k_def split: if_splits dest!: restore_Inr)
  then show thesis using that k(1,2) live by blast
qed

lemma leave_effect:
  assumes "round_ok s" "withoutParticipant s p = Inr s'"
  shows "round_ok s' \<and> (s' = s \<or> set (to_play s') = set (to_play s) - {p} \<and> roundNumber s' = roundNumber s \<and>
    rd_finished s' = rd_finished s \<and> length (participantOrder s') + 1 = length (participantOrder s) \<and>
    totalRounds s' = totalRounds s)"
proof (cases "s' = s")
  case False
  have s: "seats_ok s" "turn_ok s" "played_ok s" using assms(1) by (simp_all add: round_ok_def)
  obtain k where k: "k < length (participantOrder s)" "participantOrder s ! k = p" "k \<noteq> nat (activePlayerIndex s)" "\<not> rd_finished s"
    and s': "s' = s\<lparr>participantOrder := remove_at k (participantOrder s),
       activePlayerIndex := (if int k < activePlayerIndex s then activePlayerIndex s - 1 else activePlayerIndex s)\<rparr>"
    by (rule withoutParticipant_Inr[OF assms(2) False s(1)])
  let ?i = "nat (activePlayerIndex s)"
  have i: "?i < length (participantOrder s)" "activePlayerIndex s = int ?i" "distinct (participantOrder s)"
    using s(1) by (simp_all add: seats_ok_def)
  have index: "nat (activePlayerIndex s') = (if k < ?i then ?i - 1 else ?i)" using s' i(2) by auto
  have play: "set (to_play s') = set (to_play s) - {p}"
    using set_drop_remove_at[OF i(3) k(1) i(1)] k(2-4) index s' by (simp add: to_play_def)
  have len: "length (participantOrder s') + 1 = length (participantOrder s)"
    using s' k(1) by (simp add: length_remove_at)
  have "nat (activePlayerIndex s') < length (participantOrder s')" using index i(1) k(1,3) len by auto
  then have "seats_ok s'" using s(1) s' k(4) by (auto simp: seats_ok_def distinct_remove_at)
  moreover have "turn_ok s'" using s(2) s' by (cases "activeDice s"; cases "activeHeld s") (simp_all add: turn_ok_def)
  moreover have "played_ok s'" using s(3) s' play by (auto simp: played_ok_def)
  ultimately show ?thesis using play len s' by (simp add: round_ok_def)
qed (use assms in simp)

section \<open>Every operation\<close>

lemma round_step_ok:
  assumes "round_ok s" "round_step s op = Inr s'" shows "round_ok s'"
proof (cases op)
  case (Roll roll)
  then show ?thesis using assms recordRoll_ok[OF assms(1)] same_seats_ok[OF _ assms(1)] by auto
next
  case (Hold p n held)
  then show ?thesis using assms recordHold_ok[OF assms(1)] same_seats_ok[OF _ assms(1)] by auto
next
  case (Auto rolled)
  then obtain p held where "recordRoll s \<lparr>rr_playerId = p, rr_roundNumber = roundNumber s, rr_rollCount = activeRollCount s + 1,
    rr_held = held, rr_rolledDice = rolled\<rparr> = Inr s'" using assms(2) autoRoll_Inr[of s rolled s'] by auto
  then show ?thesis using recordRoll_ok[OF assms(1)] same_seats_ok[OF _ assms(1)] by blast
next
  case (Submit p n dice category)
  then obtain sub c where sub: "new_submission p n dice category = Inr sub" and r: "submit_round s sub = Inr (s', c)"
    using assms(2) by (auto split: sum.splits simp: map_sum_def)
  have "valid_submission (rs_roundNumber sub) (rs_playerId sub, sub)" using new_submission_Inr[OF sub] by auto
  then show ?thesis by (rule submit_ok[OF assms(1) r])
next
  case Expire
  then obtain c where "expire_round s = Inr (s', c)" using assms(2) by (auto simp: map_sum_def split: sum.splits)
  then show ?thesis by (rule round_expire_ok[OF assms(1)])
next
  case (Leave p)
  then show ?thesis using leave_effect[OF assms(1)] assms(2) by auto
qed

lemma round_apply_ok: "round_ok s \<Longrightarrow> round_ok (round_apply s op)"
  using round_step_ok by (auto simp: round_apply_def split: sum.splits)

lemma round_run_ok: "round_ok s \<Longrightarrow> round_ok (round_run s ops)"
  unfolding round_run_def by (induction ops arbitrary: s) (simp_all add: round_apply_ok)

section \<open>Turns that are over\<close>

text \<open>The turn of a player in a round that will not come any more.\<close>

definition passed :: "round_state \<Rightarrow> int \<Rightarrow> string \<Rightarrow> bool" where
  "passed s n p = (n < roundNumber s \<or> (n = roundNumber s \<and> p \<notin> set (to_play s)))"

definition ends_turn :: "round_op \<Rightarrow> bool" where
  "ends_turn op = (case op of Submit p n dice category \<Rightarrow> True | Expire \<Rightarrow> True | _ \<Rightarrow> False)"

lemma step_turn:
  assumes "round_ok s" "round_step s op = Inr s'"
  shows "(if ends_turn op then \<exists>subs. turn_over s subs s' \<and> \<not> rd_finished s
    else same_seats s s' \<or> (\<exists>p. op = Leave p \<and> withoutParticipant s p = Inr s'))"
proof (cases op)
  case (Auto rolled)
  then obtain p held where "recordRoll s \<lparr>rr_playerId = p, rr_roundNumber = roundNumber s, rr_rollCount = activeRollCount s + 1,
    rr_held = held, rr_rolledDice = rolled\<rparr> = Inr s'" using assms(2) autoRoll_Inr[of s rolled s'] by auto
  then show ?thesis using Auto recordRoll_ok[OF assms(1)] by (auto simp: ends_turn_def)
next
  case (Submit p n dice category)
  then obtain sub c where r: "submit_round s sub = Inr (s', c)" using assms(2) by (auto split: sum.splits simp: map_sum_def)
  have s: "seats_ok s" using assms(1) by (simp add: round_ok_def)
  show ?thesis using Submit submit_Inr[OF r s] current_ok(1)[OF s] by (auto simp: ends_turn_def)
next
  case Expire
  then obtain c where r: "expire_round s = Inr (s', c)" using assms(2) by (auto simp: map_sum_def split: sum.splits)
  have s: "seats_ok s" using assms(1) by (simp add: round_ok_def)
  show ?thesis using Expire expire_Inr[OF r s] by (auto simp: ends_turn_def)
qed (use assms recordRoll_ok[OF assms(1)] recordHold_ok[OF assms(1)] in \<open>auto simp: ends_turn_def\<close>)

lemma passed_step:
  assumes "round_ok s" "round_step s op = Inr s'" "passed s n p" shows "passed s' n p"
proof (cases "ends_turn op")
  case True
  have s: "seats_ok s" using assms(1) by (simp add: round_ok_def)
  obtain subs where over: "turn_over s subs s'" "\<not> rd_finished s" using step_turn[OF assms(1,2)] True by auto
  have "roundNumber s' = roundNumber s \<or> roundNumber s' = roundNumber s + 1"
    using over(1) by (auto simp: turn_over_def split: if_splits)
  then show ?thesis
  proof
    assume same: "roundNumber s' = roundNumber s"
    then show ?thesis using to_play_over[OF over(1) s over(2) same] assms(3) unfolding passed_def by (metis DiffD1 subsetD)
  next
    assume "roundNumber s' = roundNumber s + 1"
    then show ?thesis using assms(3) unfolding passed_def by linarith
  qed
next
  case False
  then consider "same_seats s s'" | q where "withoutParticipant s q = Inr s'" using step_turn[OF assms(1,2)] by auto
  then show ?thesis
  proof cases
    case 1
    then show ?thesis using same_seats_to_play[OF 1] assms(3) by (simp add: passed_def same_seats_def)
  next
    case 2
    have "set (to_play s') \<subseteq> set (to_play s) \<and> roundNumber s' = roundNumber s"
      using leave_effect[OF assms(1) 2] by (metis Diff_subset order_refl)
    then show ?thesis using assms(3) unfolding passed_def by (metis subsetD)
  qed
qed

lemma passed_run: "round_ok s \<Longrightarrow> passed s n p \<Longrightarrow> passed (round_run s ops) n p"
proof (induction ops arbitrary: s)
  case (Cons op ops)
  have "passed (round_apply s op) n p" using passed_step[OF Cons.prems(1)] Cons.prems(2) by (auto simp: round_apply_def split: sum.splits)
  then show ?case using Cons.IH[OF round_apply_ok[OF Cons.prems(1)]] by (simp add: round_run_def)
qed (simp add: round_run_def)

lemma passed_stale:
  assumes "round_ok s" "passed s n p" shows "isStaleTurn s n p = Inr True" "validateCurrentPlayer s p n \<noteq> Inr ()"
proof -
  have s: "seats_ok s" using assms(1) by (simp add: round_ok_def)
  have "participantOrder s ! nat (activePlayerIndex s) \<in> set (drop (nat (activePlayerIndex s)) (participantOrder s))"
    using s by (simp add: seats_ok_def nth_in_drop)
  then show "isStaleTurn s n p = Inr True" "validateCurrentPlayer s p n \<noteq> Inr ()"
    using assms(2) active_ok[OF s]
    by (cases "rd_finished s"; auto simp: isStaleTurn_def validateCurrentPlayer_def passed_def to_play_def)+
qed

lemma over_passed:
  assumes "round_ok s" "\<not> rd_finished s" "turn_over s subs s'"
  shows "passed s' (roundNumber s) (participantOrder s ! nat (activePlayerIndex s))"
proof -
  have s: "seats_ok s" using assms(1) by (simp add: round_ok_def)
  have "roundNumber s' = roundNumber s \<or> roundNumber s' = roundNumber s + 1"
    using assms(3) by (auto simp: turn_over_def split: if_splits)
  then show ?thesis using to_play_over[OF assms(3) s assms(2)] by (auto simp: passed_def)
qed

section \<open>Counting turns\<close>

fun ended_turns :: "round_state \<Rightarrow> round_op list \<Rightarrow> nat" where
  "ended_turns s [] = 0"
| "ended_turns s (op # ops) = (case round_step s op of Inl _ \<Rightarrow> ended_turns s ops
     | Inr s' \<Rightarrow> (if ends_turn op then 1 else 0) + ended_turns s' ops)"

lemma round_run_simps [simp]:
  "round_run s [] = s"
  "round_run s (op # ops) = (case round_step s op of Inl _ \<Rightarrow> round_run s ops | Inr s' \<Rightarrow> round_run s' ops)"
  by (simp_all add: round_run_def round_apply_def split: sum.split)

definition turns_left :: "round_state \<Rightarrow> int" where
  "turns_left s = (if rd_finished s then 0
     else (totalRounds s - roundNumber s) * int (length (participantOrder s)) + int (length (participantOrder s)) - activePlayerIndex s)"

lemma turns_left_nonneg: assumes "seats_ok s" shows "0 \<le> turns_left s"
proof -
  have "0 \<le> totalRounds s - roundNumber s" using assms by (simp add: seats_ok_def)
  then have "0 \<le> (totalRounds s - roundNumber s) * int (length (participantOrder s))" by (rule mult_nonneg_nonneg) simp
  moreover have "activePlayerIndex s < int (length (participantOrder s))" using assms by (auto simp: seats_ok_def)
  ultimately show ?thesis by (simp add: turns_left_def)
qed

lemma turns_left_over:
  assumes "seats_ok s" "\<not> rd_finished s" "turn_over s subs s'" shows "turns_left s' = turns_left s - 1"
proof (cases "activePlayerIndex s < int (length (participantOrder s)) - 1")
  case True then show ?thesis using assms by (simp add: turns_left_def turn_over_def)
next
  case False
  then have "activePlayerIndex s = int (length (participantOrder s)) - 1" using assms(1) by (auto simp: seats_ok_def)
  then show ?thesis using assms by (auto simp: turns_left_def turn_over_def seats_ok_def algebra_simps split: if_splits)
qed

lemma turns_left_leave:
  assumes "round_ok s" "withoutParticipant s p = Inr s'" shows "turns_left s' \<le> turns_left s"
proof (cases "s' = s")
  case False
  have s: "seats_ok s" using assms(1) by (simp add: round_ok_def)
  obtain k where k: "k < length (participantOrder s)" "k \<noteq> nat (activePlayerIndex s)"
    and s': "s' = s\<lparr>participantOrder := remove_at k (participantOrder s),
       activePlayerIndex := (if int k < activePlayerIndex s then activePlayerIndex s - 1 else activePlayerIndex s)\<rparr>"
    by (rule withoutParticipant_Inr[OF assms(2) False s])
  have len: "int (length (participantOrder s')) = int (length (participantOrder s)) - 1"
    using k(1) s' by (simp add: length_remove_at of_nat_diff)
  have d: "0 \<le> totalRounds s - roundNumber s" using s by (simp add: seats_ok_def)
  have "(totalRounds s - roundNumber s) * int (length (participantOrder s')) \<le> (totalRounds s - roundNumber s) * int (length (participantOrder s))"
    by (rule mult_left_mono[OF _ d]) (simp add: len)
  moreover have "int (length (participantOrder s')) - activePlayerIndex s' \<le> int (length (participantOrder s)) - activePlayerIndex s"
    using len s' by simp
  ultimately show ?thesis using s' by (simp add: turns_left_def)
qed simp

lemma step_turns_left:
  assumes "round_ok s" "round_step s op = Inr s'"
  shows "turns_left s' + (if ends_turn op then 1 else 0) \<le> turns_left s"
proof (cases "ends_turn op")
  case True
  then obtain subs where "turn_over s subs s'" "\<not> rd_finished s" using step_turn[OF assms] by auto
  then show ?thesis using turns_left_over[of s subs s'] assms(1) True by (simp add: round_ok_def)
next
  case False
  then consider "same_seats s s'" | q where "withoutParticipant s q = Inr s'" using step_turn[OF assms] by auto
  then show ?thesis
  proof cases
    case 1 then show ?thesis using False by (simp add: same_seats_def turns_left_def)
  next
    case 2 then show ?thesis using turns_left_leave[OF assms(1) 2] False by simp
  qed
qed

lemma ended_turns_bound: "round_ok s \<Longrightarrow> int (ended_turns s ops) + turns_left (round_run s ops) \<le> turns_left s"
proof (induction ops arbitrary: s)
  case (Cons op ops)
  show ?case
  proof (cases "round_step s op")
    case (Inl e) then show ?thesis using Cons by simp
  next
    case (Inr s')
    have "round_ok s'" by (rule round_step_ok[OF Cons.prems Inr])
    then show ?thesis using Cons.IH[of s'] step_turns_left[OF Cons.prems Inr] Inr by (simp split: if_splits)
  qed
qed simp

lemma position_step:
  assumes "round_ok s" "round_step s op = Inr s'" "\<forall>p. op \<noteq> Leave p"
  shows "position s' = position s + (if ends_turn op then 1 else 0)" "participantOrder s' = participantOrder s"
    "totalRounds s' = totalRounds s"
proof -
  have s: "seats_ok s" using assms(1) by (simp add: round_ok_def)
  show "position s' = position s + (if ends_turn op then 1 else 0)" "participantOrder s' = participantOrder s"
    "totalRounds s' = totalRounds s"
    using step_turn[OF assms(1,2)] turn_over_position(1)[OF s] assms(3)
    by (auto simp: same_seats_def position_def turn_over_def split: if_splits)
qed

lemma position_run:
  assumes "round_ok s" "list_all (\<lambda>op. \<forall>p. op \<noteq> Leave p) ops"
  shows "position (round_run s ops) = position s + int (ended_turns s ops) \<and>
    participantOrder (round_run s ops) = participantOrder s \<and> totalRounds (round_run s ops) = totalRounds s"
  using assms
proof (induction ops arbitrary: s)
  case (Cons op ops)
  show ?case
  proof (cases "round_step s op")
    case (Inl e) then show ?thesis using Cons by simp
  next
    case (Inr s')
    have ok: "round_ok s'" by (rule round_step_ok[OF Cons.prems(1) Inr])
    have "\<forall>p. op \<noteq> Leave p" using Cons.prems(2) by simp
    then show ?thesis using position_step[OF Cons.prems(1) Inr] Cons.IH[OF ok] Cons.prems(2) Inr by simp
  qed
qed simp

text \<open>A position determines round and seat.\<close>

lemma position_decode:
  assumes "seats_ok s"
  shows "0 \<le> position s" "position s \<le> totalRounds s * int (length (participantOrder s))"
    "rd_finished s \<Longrightarrow> position s = totalRounds s * int (length (participantOrder s))"
    "\<not> rd_finished s \<Longrightarrow> position s < totalRounds s * int (length (participantOrder s)) \<and>
       roundNumber s = 1 + position s div int (length (participantOrder s)) \<and>
       activePlayerIndex s = position s mod int (length (participantOrder s))"
proof -
  let ?n = "int (length (participantOrder s))" and ?i = "activePlayerIndex s" and ?r = "roundNumber s - 1"
  have i: "0 \<le> ?i" "?i < ?n" "0 \<le> ?r" "?r + 1 \<le> totalRounds s" using assms by (auto simp: seats_ok_def)
  have "(?r + 1) * ?n \<le> totalRounds s * ?n" using i by (intro mult_right_mono) auto
  then have up: "?r * ?n + ?n \<le> totalRounds s * ?n" by (simp add: algebra_simps)
  have nn: "0 \<le> ?r * ?n" using i by simp
  show "0 \<le> position s" "position s \<le> totalRounds s * ?n"
    using i up nn by (auto simp: position_def)
  show "rd_finished s \<Longrightarrow> position s = totalRounds s * ?n"
    using assms by (auto simp: position_def seats_ok_def algebra_simps)
  assume "\<not> rd_finished s"
  then have p: "position s = ?i + ?r * ?n" by (simp add: position_def)
  moreover have "(?i + ?r * ?n) div ?n = ?r"
  proof -
    have "(?i + ?r * ?n) div ?n = ?r + ?i div ?n" by (rule div_mult_self1) (use i in linarith)
    then show ?thesis using i by (simp add: div_pos_pos_trivial)
  qed
  moreover have "(?i + ?r * ?n) mod ?n = ?i" using i by simp
  ultimately show "position s < totalRounds s * ?n \<and> roundNumber s = 1 + position s div ?n \<and> ?i = position s mod ?n"
    using i up by (intro conjI) simp_all
qed

section \<open>Reading a stored state back\<close>


lemma as_list_map: "(\<And>x. x \<in> set xs \<Longrightarrow> f (g x) = Some x) \<Longrightarrow> as_list f (JArr (map g xs)) = Some xs"
  using map_option_all_map[of xs f g id] by simp

lemma parse_submission_json:
  "valid_submission n (p, sub) \<Longrightarrow> 1 \<le> n \<Longrightarrow> parse_submission (submission_json sub) = Some sub"
  by (cases sub) (simp add: parse_submission_def submission_json_def field_of_def as_list_map valid_submission_def
      new_submission_def valid_dice_def as_list_map[of _ as_int JNum, simplified])

lemma parse_submissions_json:
  assumes "wf_map subs" "list_all (valid_submission n) subs" "1 \<le> n"
  shows "parse_submissions (JObj (map_from_pairs (map (\<lambda>(p, sub). (p, submission_json sub)) subs))) = Some subs"
proof -
  have "wf_map (map (\<lambda>(p, sub). (p, submission_json sub)) subs)"
    using assms(1) by (simp add: comp_def case_prod_beta)
  moreover have "map_option_all (\<lambda>(p, v). map_option (Pair p) (parse_submission v)) (map (\<lambda>(p, sub). (p, submission_json sub)) subs)
    = Some (map id subs)"
    using assms(2,3) by (intro map_option_all_map) (auto simp: list_all_iff parse_submission_json)
  ultimately show ?thesis using assms(1) by simp
qed

lemma nullish_optional:
  "(\<And>x. v = Some x \<Longrightarrow> g x \<noteq> JNull \<and> f (g x) = Some x) \<Longrightarrow> nullish f (Some (optional_json g v)) = Some v"
  by (cases v) (auto simp: nullish_def optional_json_def)

lemma snapshot_fields:
  "json_field (toStateSnapshot s) ''roundNumber'' = Some (JNum (roundNumber s))"
  "json_field (toStateSnapshot s) ''totalRounds'' = Some (JNum (totalRounds s))"
  "json_field (toStateSnapshot s) ''participantOrder'' = Some (JArr (map JStr (participantOrder s)))"
  "json_field (toStateSnapshot s) ''submissions'' =
     Some (JObj (map_from_pairs (map (\<lambda>(p, sub). (p, submission_json sub)) (submissions s))))"
  "json_field (toStateSnapshot s) ''activePlayerIndex'' = Some (JNum (activePlayerIndex s))"
  "json_field (toStateSnapshot s) ''activeRollCount'' = Some (JNum (activeRollCount s))"
  "json_field (toStateSnapshot s) ''activeDice'' = Some (optional_json (\<lambda>dice. JArr (map JNum dice)) (activeDice s))"
  "json_field (toStateSnapshot s) ''activeHeld'' = Some (optional_json (\<lambda>held. JArr (map JBool held)) (activeHeld s))"
  "json_field (toStateSnapshot s) ''finished'' = Some (JBool (rd_finished s))"
  by (simp_all add: toStateSnapshot_def)

lemma state_reads_back:
  assumes "round_ok s" shows "deserializeState (toStateSnapshot s) = Some s"
proof -
  have s: "1 \<le> roundNumber s" "roundNumber s \<le> totalRounds s" "wf_map (submissions s)"
    "list_all (valid_submission (roundNumber s)) (submissions s)"
    using assms by (simp_all add: round_ok_def seats_ok_def played_ok_def)
  have order: "field_of (as_list as_string) (toStateSnapshot s) ''participantOrder'' = Some (participantOrder s)"
    by (simp add: field_of_def snapshot_fields as_list_map[of _ as_string JStr, simplified])
  have subs: "nullish parse_submissions (json_field (toStateSnapshot s) ''submissions'') = Some (Some (submissions s))"
    using parse_submissions_json[OF s(3,4,1)] by (simp add: snapshot_fields nullish_def)
  have dice: "nullish (as_list as_int) (json_field (toStateSnapshot s) ''activeDice'') = Some (activeDice s)"
    unfolding snapshot_fields by (rule nullish_optional) (simp add: as_list_map[of _ as_int JNum, simplified])
  have held: "nullish (as_list as_bool) (json_field (toStateSnapshot s) ''activeHeld'') = Some (activeHeld s)"
    unfolding snapshot_fields by (rule nullish_optional) (simp add: as_list_map[of _ as_bool JBool, simplified])
  show ?thesis unfolding deserializeState_def order subs dice held
    using s(1,2) by (cases s) (simp add: field_of_def snapshot_fields)
qed

section \<open>Properties\<close>

text \<open>C20: started with distinct names, the round state stays valid whatever is sent, accepted or rejected: the
  round number stays within the rounds of the game, somebody of the table is active, the roll count is at most
  three and belongs to the dice, every recorded submission is a valid one of this round, and nobody who still
  has a turn in this round has submitted (so the check against a second submission never has to fire).\<close>

theorem round_state_stays_valid:
  assumes "start_round n participants tot = Inr s0"
  shows "round_ok (round_run s0 ops)"
  by (rule round_run_ok[OF start_ok(1)[OF assms]])

definition table_start :: round_state where
  "table_start = projr (start_round 1 [''ann'', ''bob''] 2)"

lemma table_start_eq: "start_round 1 [''ann'', ''bob''] 2 = Inr table_start"
proof -
  have "immutableParticipants [''ann'', ''bob''] = Inr [''ann'', ''bob'']" by code_simp
  then show ?thesis by (simp add: table_start_def start_round_def)
qed

definition roll_of :: "string \<Rightarrow> int \<Rightarrow> int \<Rightarrow> bool list \<Rightarrow> int list \<Rightarrow> round_roll" where
  "roll_of p n k held dice = \<lparr>rr_playerId = p, rr_roundNumber = n, rr_rollCount = k, rr_held = held, rr_rolledDice = dice\<rparr>"

definition ann_turn :: "round_op list" where
  "ann_turn = [Roll (roll_of ''ann'' 1 1 NO_HELD [1, 1, 3, 4, 5]),
     Roll (roll_of ''ann'' 1 2 [True, True, False, False, False] [6, 6, 1, 1, 1]),
     Submit ''ann'' 1 [1, 1, 1, 1, 1] ''yacht'']"

theorem round_state_stays_valid_witness: "round_ok (round_run table_start (ann_turn @ [Leave ''ann'', Expire]))"
  by (rule round_state_stays_valid[OF table_start_eq])

text \<open>C21: as long as nobody leaves, turns go round the table: after \<open>k\<close> turns the active player is the one at
  seat \<open>k mod n\<close> in round \<open>k div n + 1\<close>, the game is over exactly after \<open>n\<close> times the number of rounds turns, and no
  further turn is ever taken.\<close>

theorem turns_go_round_the_table:
  assumes "start_round 1 participants tot = Inr s0" "list_all (\<lambda>op. \<forall>p. op \<noteq> Leave p) ops"
  shows "let s = round_run s0 ops; k = int (ended_turns s0 ops); n = int (length participants) in
    k \<le> tot * n \<and> (rd_finished s \<longleftrightarrow> k = tot * n) \<and>
    (\<not> rd_finished s \<longrightarrow> roundNumber s = 1 + k div n \<and> activePlayerId s = Inr (participants ! nat (k mod n)))"
proof -
  let ?s = "round_run s0 ops" let ?k = "int (ended_turns s0 ops)" let ?n = "int (length participants)"
  note st = start_ok[OF assms(1)]
  have s0: "position s0 = 0" "totalRounds s0 = tot"
    using assms(1) by (auto simp: start_round_def position_def split: sum.splits dest!: restore_Inr)
  note run = position_run[OF st(1) assms(2)]
  have ok: "seats_ok ?s" using round_run_ok[OF st(1)] by (simp add: round_ok_def)
  have facts: "position ?s = ?k" "participantOrder ?s = participants" "totalRounds ?s = tot"
    using run s0 st(2) by simp_all
  note decode = position_decode[OF ok, unfolded facts]
  have fin: "rd_finished ?s \<longleftrightarrow> ?k = tot * ?n" using decode(3,4) by fastforce
  have "\<not> rd_finished ?s \<Longrightarrow> roundNumber ?s = 1 + ?k div ?n \<and> activePlayerId ?s = Inr (participants ! nat (?k mod ?n))"
    using decode(4) active_ok[OF ok] facts(2) by simp
  then show ?thesis using decode(2) fin by (simp add: Let_def)
qed

theorem turns_go_round_the_table_witness:
  "roundNumber (round_run table_start (ann_turn @ [Expire, Expire])) = 2 \<and>
   activePlayerId (round_run table_start (ann_turn @ [Expire, Expire])) = Inr ''bob''"
proof -
  have no_leave: "list_all (\<lambda>op. \<forall>p. op \<noteq> Leave p) (ann_turn @ [Expire, Expire])" by (simp add: ann_turn_def)
  have k: "ended_turns table_start (ann_turn @ [Expire, Expire]) = 3" by code_simp
  show ?thesis
    using turns_go_round_the_table[OF table_start_eq no_leave] k by (simp add: Let_def)
qed

text \<open>also when players leave, a game never takes more turns than the players it started with times its
  rounds, and every turn allows at most three rolls.\<close>

theorem round_game_is_bounded:
  assumes "start_round 1 participants tot = Inr s0"
  shows "int (ended_turns s0 ops) \<le> tot * int (length participants) \<and> activeRollCount (round_run s0 ops) \<le> MAX_ROLL_COUNT"
proof -
  note st = start_ok[OF assms]
  have ok: "round_ok (round_run s0 ops)" by (rule round_run_ok[OF st(1)])
  have "0 \<le> turns_left (round_run s0 ops)" using ok turns_left_nonneg by (simp add: round_ok_def)
  moreover have "turns_left s0 = tot * int (length participants)"
    using assms st(2) by (auto simp: start_round_def turns_left_def algebra_simps split: sum.splits dest!: restore_Inr)
  ultimately show ?thesis using ended_turns_bound[OF st(1), of ops] ok by (simp add: round_ok_def turn_ok_def)
qed

theorem round_game_is_bounded_witness:
  "int (ended_turns table_start (ann_turn @ [Leave ''ann'', Expire, Expire])) \<le> 2 * int (length [''ann'', ''bob'']) \<and>
   activeRollCount (round_run table_start (ann_turn @ [Leave ''ann'', Expire, Expire])) \<le> MAX_ROLL_COUNT"
  by (rule round_game_is_bounded[OF table_start_eq])

text \<open>a turn that ended, by a submission or by a timeout, never comes back: after any further operations a
  timeout that still expects this round and player is stale, and every roll, keep or submission for it is
  refused.\<close>

theorem ended_turn_never_returns:
  assumes "round_ok s" "activePlayerId s = Inr p" "ends_turn op" "round_step s op = Inr s'"
  shows "isStaleTurn (round_run s' ops) (roundNumber s) p = Inr True \<and>
    validateCurrentPlayer (round_run s' ops) p (roundNumber s) \<noteq> Inr ()"
proof -
  have s: "seats_ok s" using assms(1) by (simp add: round_ok_def)
  obtain subs where over: "turn_over s subs s'" "\<not> rd_finished s" using step_turn[OF assms(1,4)] assms(3) by auto
  have p: "p = participantOrder s ! nat (activePlayerIndex s)" using active_ok[OF s] assms(2) by simp
  have ok: "round_ok s'" by (rule round_step_ok[OF assms(1,4)])
  have "passed (round_run s' ops) (roundNumber s) p"
    unfolding p by (rule passed_run[OF ok over_passed[OF assms(1) over(2,1)]])
  then show ?thesis using passed_stale[OF round_run_ok[OF ok]] by blast
qed

theorem ended_turn_never_returns_witness:
  "\<exists>s'. round_step table_start Expire = Inr s' \<and>
    isStaleTurn (round_run s' [Expire, Expire]) (roundNumber table_start) ''ann'' = Inr True"
proof -
  have ok: "round_ok table_start" by (rule start_ok(1)[OF table_start_eq])
  have active: "activePlayerId table_start = Inr ''ann''" by code_simp
  obtain s' where s': "round_step table_start Expire = Inr s'"
  proof -
    have "isl (round_step table_start Expire) = False" by code_simp
    then show thesis using that by (cases "round_step table_start Expire") auto
  qed
  have "ends_turn Expire" by (simp add: ends_turn_def)
  then show ?thesis using ended_turn_never_returns[OF ok active _ s'] s' by blast
qed

text \<open>a roll takes the server's dice for the free places and leaves the held ones as they were, and a
  submission is accepted only from the active player, for the current round, with exactly the dice on the table.\<close>

theorem only_server_dice_are_scored:
  assumes "round_ok s"
  shows "(recordRoll s roll = Inr s' \<longrightarrow> activeRollCount s' = activeRollCount s + 1 \<and>
      (\<exists>dice. activeDice s' = Some dice \<and> length dice = 5 \<and> (\<forall>i < 5. dice ! i =
        (if activeDice s \<noteq> None \<and> rr_held roll ! i then the (activeDice s) ! i else rr_rolledDice roll ! i)))) \<and>
    (submit_round s sub = Inr result \<longrightarrow> activePlayerId s = Inr (rs_playerId sub) \<and> roundNumber s = rs_roundNumber sub \<and>
      activeDice s = Some (rs_dice sub))"
proof (intro conjI impI)
  have s: "seats_ok s" "turn_ok s" using assms by (simp_all add: round_ok_def)
  {
    assume roll: "recordRoll s roll = Inr s'"
    note r = recordRoll_Inr[OF roll s(1)]
    show "activeRollCount s' = activeRollCount s + 1" using r(2,7) by simp
    have len: "length (rr_rolledDice roll) = 5" "length (rr_held roll) = 5"
      using r(5,6) by (simp_all add: valid_dice_def DICE_COUNT_def)
    show "\<exists>dice. activeDice s' = Some dice \<and> length dice = 5 \<and> (\<forall>i < 5. dice ! i =
        (if activeDice s \<noteq> None \<and> rr_held roll ! i then the (activeDice s) ! i else rr_rolledDice roll ! i))"
    proof (cases "activeDice s")
      case None then show ?thesis using r(7) len by (simp add: mergeRolledDice_def)
    next
      case (Some previous)
      then have "length previous = 5" using turn_dice[OF s(2)] by (simp add: valid_dice_def DICE_COUNT_def)
      then show ?thesis using Some r(7) len by (simp add: mergeRolledDice_def merge_kept_length merge_kept_nth)
    qed
  next
    assume sub: "submit_round s sub = Inr result"
    obtain s1 c where result: "result = (s1, c)" by (cases result)
    note r = submit_Inr[OF sub[unfolded result] s(1)]
    show "activePlayerId s = Inr (rs_playerId sub)" "roundNumber s = rs_roundNumber sub" "activeDice s = Some (rs_dice sub)"
      using current_ok[OF s(1) r(1)] active_ok[OF s(1)] r(2) by simp_all
  }
qed

definition after_first_roll :: round_state where
  "after_first_roll = round_run table_start [Roll (roll_of ''ann'' 1 1 NO_HELD [1, 1, 3, 4, 5])]"

theorem only_server_dice_are_scored_witness:
  "\<exists>s'. recordRoll after_first_roll (roll_of ''ann'' 1 2 [True, True, False, False, False] [6, 6, 1, 1, 1]) = Inr s' \<and>
    (\<exists>dice. activeDice s' = Some dice \<and> dice ! 0 = 1 \<and> dice ! 4 = 1)"
proof -
  let ?roll = "roll_of ''ann'' 1 2 [True, True, False, False, False] [6, 6, 1, 1, 1]"
  have ok: "round_ok after_first_roll"
    unfolding after_first_roll_def by (rule round_run_ok[OF start_ok(1)[OF table_start_eq]])
  have dice: "activeDice after_first_roll = Some [1, 1, 3, 4, 5]" by code_simp
  have "isl (recordRoll after_first_roll ?roll) = False" by code_simp
  then obtain s' where s': "recordRoll after_first_roll ?roll = Inr s'" by (cases "recordRoll after_first_roll ?roll") auto
  obtain d where d: "activeDice s' = Some d" "\<forall>i < 5. d ! i =
        (if activeDice after_first_roll \<noteq> None \<and> rr_held ?roll ! i then the (activeDice after_first_roll) ! i
         else rr_rolledDice ?roll ! i)"
    using only_server_dice_are_scored[OF ok, of ?roll s'] s' by blast
  have "d ! 0 = 1" "d ! 4 = 1" using d(2)[rule_format, of 0] d(2)[rule_format, of 4] dice by (simp_all add: roll_of_def)
  then show ?thesis using s' d(1) by blast
qed

text \<open>when the action that runs with a submission throws, for instance because the score could not be
  stored, no round state of any room changes, and for a submission that the round rejects the action does not
  run at all.\<close>

theorem failed_score_keeps_the_turn:
  assumes "fst (submitAtomically room sub action (st, w)) = Inl e"
  shows "fst (snd (submitAtomically room sub action (st, w))) = st \<and>
    (snd (snd (submitAtomically room sub action (st, w))) = w \<or>
      (\<exists>s result err. map_of st room = Some s \<and> submit_round s sub = Inr result \<and>
        action w = (Inl err, snd (snd (submitAtomically room sub action (st, w)))) \<and> e = Callback err))"
  using assms by (auto simp: submitAtomically_def split: if_splits option.splits sum.splits prod.splits)

definition bad_submission :: round_submission where
  "bad_submission = \<lparr>rs_playerId = ''ann'', rs_roundNumber = 1, rs_dice = [6, 6, 6, 6, 6], rs_category = ''yacht''\<rparr>"

theorem failed_score_keeps_the_turn_witness:
  "submitAtomically ''room'' bad_submission (\<lambda>w :: nat. (Inr () :: string + unit, w + 1)) ([(''room'', table_start)], 0)
    = (Inl (Sync INVALID_DICE), ([(''room'', table_start)], 0))"
proof -
  have rejected: "fst (submitAtomically ''room'' bad_submission (\<lambda>w :: nat. (Inr () :: string + unit, w + 1)) ([(''room'', table_start)], 0))
    = Inl (Sync INVALID_DICE)" by code_simp
  show ?thesis using failed_score_keeps_the_turn[OF rejected] rejected by (auto simp: prod_eq_iff)
qed

text \<open>a valid round state is read back from its stored form exactly as it was.\<close>

theorem stored_round_reads_back:
  assumes "start_round n participants tot = Inr s0"
  shows "deserializeState (toStateSnapshot (round_run s0 ops)) = Some (round_run s0 ops)"
  by (rule state_reads_back[OF round_run_ok[OF start_ok(1)[OF assms]]])

theorem stored_round_reads_back_witness:
  "deserializeState (toStateSnapshot (round_run table_start ann_turn)) = Some (round_run table_start ann_turn)"
  by (rule stored_round_reads_back[OF table_start_eq])

end
