(* ===== verification/JsonText.thy ===== *)
theory JsonText
  imports Prelude
begin

text \<open>
  \<open>JSON.stringify\<close> and \<open>JSON.parse\<close> on the values of the model, as the language defines them: the state
  stores keep a game as JSON text. Numbers are integers: a text with a fraction or an exponent
  is outside the model and is refused. Characters are those below code 256. An object that repeats a key keeps the last value.
  The reader takes its fuel from the length of the text; each level of nesting uses at most two units per character.
\<close>

section \<open>Writing\<close>

definition QUOTE :: char where "QUOTE = CHR 34"
definition BACKSLASH :: char where "BACKSLASH = CHR 92"

lemma quote_not_blank [simp]: "QUOTE \<noteq> CHR '' ''" "QUOTE \<noteq> CHR 9" "QUOTE \<noteq> CHR 10" "QUOTE \<noteq> CHR 13"
  by (simp_all add: QUOTE_def)

definition hex_digits :: string where "hex_digits = ''0123456789abcdef''"

definition escape_char :: "char \<Rightarrow> string" where
  "escape_char c = (let n = of_char c :: nat in
     if c = QUOTE \<or> c = BACKSLASH then [BACKSLASH, c]
     else if n = 8 then [BACKSLASH, CHR ''b''] else if n = 9 then [BACKSLASH, CHR ''t'']
     else if n = 10 then [BACKSLASH, CHR ''n''] else if n = 12 then [BACKSLASH, CHR ''f'']
     else if n = 13 then [BACKSLASH, CHR ''r'']
     else if n < 32 then [BACKSLASH, CHR ''u'', CHR ''0'', CHR ''0'', hex_digits ! (n div 16), hex_digits ! (n mod 16)]
     else [c])"

definition quoted :: "string \<Rightarrow> string" where
  "quoted s = QUOTE # concat (map escape_char s) @ [QUOTE]"

fun join :: "string \<Rightarrow> string list \<Rightarrow> string" where
  "join sep [] = []"
| "join sep [x] = x"
| "join sep (x # xs) = x @ sep @ join sep xs"

fun stringify :: "json \<Rightarrow> string" where
  "stringify JNull = ''null''"
| "stringify (JBool b) = (if b then ''true'' else ''false'')"
| "stringify (JNum i) = string_of_int i"
| "stringify JFraction = ''0.5''"
| "stringify (JStr s) = quoted s"
| "stringify (JArr xs) = ''['' @ join '','' (map stringify xs) @ '']''"
| "stringify (JObj fields) = ''{'' @ join '','' (map (\<lambda>(k, v). quoted k @ '':'' @ stringify v) fields) @ ''}''"

section \<open>Reading\<close>

fun skip_blanks :: "string \<Rightarrow> string" where
  "skip_blanks (c # cs) = (if c = CHR '' '' \<or> c = CHR 9 \<or> c = CHR 10 \<or> c = CHR 13 then skip_blanks cs else c # cs)"
| "skip_blanks [] = []"

fun hex_value :: "string \<Rightarrow> nat option" where
  "hex_value [] = Some 0"
| "hex_value (c # cs) = (case map_of (zip (hex_digits @ ''ABCDEF'') ([0..<16] @ [10..<16])) c of None \<Rightarrow> None
     | Some d \<Rightarrow> map_option (\<lambda>n. d * 16 ^ length cs + n) (hex_value cs))"

definition simple_escape :: "char \<Rightarrow> char option" where
  "simple_escape c = map_of [(QUOTE, QUOTE), (BACKSLASH, BACKSLASH), (CHR ''/'', CHR ''/''), (CHR ''b'', CHR 8),
     (CHR ''f'', CHR 12), (CHR ''n'', CHR 10), (CHR ''r'', CHR 13), (CHR ''t'', CHR 9)] c"

text \<open>The rest of a string after its opening quote.\<close>

definition prepend :: "'a \<Rightarrow> ('a list \<times> 'b) option \<Rightarrow> ('a list \<times> 'b) option" where
  "prepend x r = map_option (\<lambda>(xs, rest). (x # xs, rest)) r"

definition unicode_char :: "string \<Rightarrow> char option" where
  "unicode_char h = (case hex_value h of None \<Rightarrow> None | Some n \<Rightarrow> if n < 256 then Some (char_of n) else None)"

fun read_string :: "string \<Rightarrow> (string \<times> string) option" where
  "read_string [] = None"
| "read_string (c # cs) =
    (if c = QUOTE then Some ([], cs)
     else if c = BACKSLASH then (case cs of [] \<Rightarrow> None
       | e # cs1 \<Rightarrow> if e = CHR ''u'' then (case unicode_char (take 4 cs1) of None \<Rightarrow> None
             | Some x \<Rightarrow> if length cs1 < 4 then None else prepend x (read_string (drop 4 cs1)))
           else (case simple_escape e of None \<Rightarrow> None | Some x \<Rightarrow> prepend x (read_string cs1)))
     else if (of_char c :: nat) < 32 then None
     else prepend c (read_string cs))"

definition number_char :: "char \<Rightarrow> bool" where
  "number_char c = (c \<in> set ''-+.eE0123456789'')"

text \<open>\<open>-? (0 | [1-9] digits)\<close>: no leading zeros; \<open>-0\<close> is the number zero.\<close>

definition read_number :: "string \<Rightarrow> (json \<times> string) option" where
  "read_number s = (let numeral = takeWhile number_char s; rest = dropWhile number_char s in
     if numeral = ''-0'' then Some (JNum 0, rest)
     else (case int_of_string numeral of None \<Rightarrow> None
       | Some i \<Rightarrow> if string_of_int i = numeral then Some (JNum i, rest) else None))"

definition read_word :: "string \<Rightarrow> json \<Rightarrow> string \<Rightarrow> (json \<times> string) option" where
  "read_word w v s = (if take (length w) s = w then Some (v, drop (length w) s) else None)"

fun read_value :: "nat \<Rightarrow> string \<Rightarrow> (json \<times> string) option"
  and read_items :: "nat \<Rightarrow> string \<Rightarrow> (json list \<times> string) option"
  and read_members :: "nat \<Rightarrow> string \<Rightarrow> ((string \<times> json) list \<times> string) option" where
  "read_value 0 s = None"
| "read_value (Suc n) s = (case skip_blanks s of [] \<Rightarrow> None
     | c # r \<Rightarrow>
       if c = QUOTE then map_option (map_prod JStr id) (read_string r)
       else if c = CHR ''['' then (if take 1 (skip_blanks r) = '']'' then Some (JArr [], drop 1 (skip_blanks r))
         else map_option (map_prod JArr id) (read_items n r))
       else if c = CHR ''{'' then (if take 1 (skip_blanks r) = ''}'' then Some (JObj [], drop 1 (skip_blanks r))
         else map_option (map_prod (\<lambda>fields. JObj (map_from_pairs fields)) id) (read_members n r))
       else if c = CHR ''n'' then read_word ''null'' JNull (c # r)
       else if c = CHR ''t'' then read_word ''true'' (JBool True) (c # r)
       else if c = CHR ''f'' then read_word ''false'' (JBool False) (c # r)
       else read_number (c # r))"
| "read_items 0 s = None"
| "read_items (Suc n) s = (case read_value n s of None \<Rightarrow> None
     | Some (v, r) \<Rightarrow> (case skip_blanks r of [] \<Rightarrow> None
       | c # r' \<Rightarrow> if c = CHR '','' then prepend v (read_items n r')
         else if c = CHR '']'' then Some ([v], r') else None))"
| "read_members 0 s = None"
| "read_members (Suc n) s = (case skip_blanks s of [] \<Rightarrow> None
     | q # s1 \<Rightarrow> if q \<noteq> QUOTE then None else (case read_string s1 of None \<Rightarrow> None
       | Some (k, s2) \<Rightarrow> (case skip_blanks s2 of [] \<Rightarrow> None
         | colon # s3 \<Rightarrow> if colon \<noteq> CHR '':'' then None else (case read_value n s3 of None \<Rightarrow> None
           | Some (v, r) \<Rightarrow> (case skip_blanks r of [] \<Rightarrow> None
             | c # r' \<Rightarrow> if c = CHR '','' then prepend (k, v) (read_members n r')
               else if c = CHR ''}'' then Some ([(k, v)], r') else None)))))"

definition parse_json :: "string \<Rightarrow> json option" where
  "parse_json s = (case read_value (2 * length s + 2) s of None \<Rightarrow> None
     | Some (v, rest) \<Rightarrow> if skip_blanks rest = [] then Some v else None)"

section \<open>What was written reads back\<close>

text \<open>Values without fractions and without repeated keys.\<close>

fun plain_json :: "json \<Rightarrow> bool" where
  "plain_json JFraction = False"
| "plain_json (JArr xs) = (\<forall>x\<in>set xs. plain_json x)"
| "plain_json (JObj fields) = (wf_map fields \<and> (\<forall>(k, v)\<in>set fields. plain_json v))"
| "plain_json _ = True"

lemma hex_value_pair:
  assumes "n < 32" shows "hex_value [CHR ''0'', CHR ''0'', hex_digits ! (n div 16), hex_digits ! (n mod 16)] = Some n"
proof -
  have "list_all (\<lambda>n. hex_value [CHR ''0'', CHR ''0'', hex_digits ! (n div 16), hex_digits ! (n mod 16)] = Some n) [0..<32]"
    by code_simp
  then show ?thesis using assms by (simp add: list_all_iff)
qed

lemma read_escaped: "read_string (escape_char c @ rest) = prepend c (read_string rest)"
proof -
  let ?n = "of_char c :: nat"
  have eq: "?n = of_char d \<Longrightarrow> c = d" for d by simp
  have 8: "?n = 8 \<Longrightarrow> c = CHR 8" "?n = 9 \<Longrightarrow> c = CHR 9" "?n = 10 \<Longrightarrow> c = CHR 10"
    "?n = 12 \<Longrightarrow> c = CHR 12" "?n = 13 \<Longrightarrow> c = CHR 13"
    using eq[of "CHR 8"] eq[of "CHR 9"] eq[of "CHR 10"] eq[of "CHR 12"] eq[of "CHR 13"] by simp_all
  consider "c = QUOTE \<or> c = BACKSLASH \<or> ?n \<in> {8, 9, 10, 12, 13}"
    | "?n < 32" "c \<noteq> QUOTE" "c \<noteq> BACKSLASH" "?n \<notin> {8, 9, 10, 12, 13}"
    | "32 \<le> ?n" "c \<noteq> QUOTE" "c \<noteq> BACKSLASH" by fastforce
  then show ?thesis
  proof cases
    case 1
    then show ?thesis by (auto simp: escape_char_def simple_escape_def QUOTE_def BACKSLASH_def Let_def dest!: 8)
  next
    case 2
    have "unicode_char [CHR ''0'', CHR ''0'', hex_digits ! (?n div 16), hex_digits ! (?n mod 16)] = Some c"
      using 2(1) by (simp only: unicode_char_def hex_value_pair[OF 2(1)] option.case) simp
    then show ?thesis using 2 by (simp add: escape_char_def QUOTE_def BACKSLASH_def Let_def)
  next
    case 3
    then show ?thesis by (simp add: escape_char_def Let_def)
  qed
qed

lemma read_quoted: "read_string (concat (map escape_char s) @ QUOTE # rest) = Some (s, rest)"
  by (induction s) (simp_all add: read_escaped prepend_def)

lemma digits_are_digits: "c \<in> set (digits_of_nat n) \<Longrightarrow> c \<in> set decimal_digits"
proof (induction n rule: digits_of_nat.induct)
  case (1 n)
  have nth: "decimal_digits ! k \<in> set decimal_digits" if "k < 10" for k
    using that by (intro nth_mem) (simp add: decimal_digits_def)
  show ?case
    using 1 nth[of n] nth[of "n mod 10"] by (cases "n < 10") (auto simp: digits_of_nat.simps[of n])
qed

lemma numeral_chars: "c \<in> set (string_of_int i) \<Longrightarrow> number_char c"
proof -
  have "d \<in> set decimal_digits \<Longrightarrow> number_char d" for d by (auto simp: number_char_def decimal_digits_def)
  moreover have "number_char (CHR ''-'')" by (simp add: number_char_def)
  ultimately show "c \<in> set (string_of_int i) \<Longrightarrow> number_char c"
    using digits_are_digits by (fastforce simp: string_of_int_def split: if_splits)
qed

definition ends_number :: "string \<Rightarrow> bool" where
  "ends_number rest = (rest = [] \<or> \<not> number_char (hd rest))"

lemma read_numeral: "ends_number rest \<Longrightarrow> read_number (string_of_int i @ rest) = Some (JNum i, rest)"
proof -
  assume e: "ends_number rest"
  have "takeWhile number_char (string_of_int i @ rest) = string_of_int i \<and> dropWhile number_char (string_of_int i @ rest) = rest"
    using e numeral_chars by (cases rest) (auto simp: ends_number_def takeWhile_append dropWhile_append)
  moreover have "string_of_int i = ''-0'' \<Longrightarrow> i = 0"
  proof -
    assume "string_of_int i = ''-0''"
    then have "int_of_string ''-0'' = Some i" by (metis int_of_string_of_int)
    then show "i = 0" by (simp add: int_of_string_def digit_value_def decimal_digits_def upt_rec)
  qed
  ultimately show ?thesis by (auto simp: read_number_def Let_def)
qed

lemma skip_text: "c \<notin> {CHR '' '', CHR 9, CHR 10, CHR 13} \<Longrightarrow> skip_blanks (c # cs) = c # cs"
  by simp

lemma number_char_kinds: "number_char c \<Longrightarrow> c \<notin> {CHR '' '', CHR 9, CHR 10, CHR 13}
    \<and> c \<notin> {QUOTE, CHR ''['', CHR ''{'', CHR '']'', CHR ''}'', CHR ''n'', CHR ''t'', CHR ''f''}"
  by (auto simp: number_char_def QUOTE_def)

text \<open>A written value starts with a character that is neither blank nor a closing bracket.\<close>

lemma stringify_starts: "\<exists>c cs. stringify v = c # cs \<and> c \<notin> {CHR '' '', CHR 9, CHR 10, CHR 13} \<and> c \<notin> {CHR '']'', CHR ''}''}"
proof (cases v)
  case (JNum i)
  then show ?thesis using number_char_kinds numeral_chars[of _ i]
    by (cases "string_of_int i") auto
qed (auto simp: quoted_def QUOTE_def)

lemma skip_stringify [simp]: "skip_blanks (stringify v @ rest) = stringify v @ rest"
  using stringify_starts[of v] by auto


lemma join_Cons: "join sep (x # xs) = (if xs = [] then x else x @ sep @ join sep xs)"
  by (cases xs) auto

lemma read_items_join:
  assumes "xs \<noteq> []" and "2 * length (join '','' (map stringify xs)) < n"
    and "\<And>x m rest. x \<in> set xs \<Longrightarrow> 2 * length (stringify x) \<le> m \<Longrightarrow> ends_number rest \<Longrightarrow>
      read_value m (stringify x @ rest) = Some (x, rest)"
  shows "read_items n (join '','' (map stringify xs) @ CHR '']'' # rest) = Some (xs, rest)"
  using assms
proof (induction xs arbitrary: n)
  case Nil then show ?case by simp
next
  case (Cons x xs)
  obtain m where n: "n = Suc m" using Cons.prems(2) by (cases n) auto
  note rd = Cons.prems(3)[of x m, OF list.set_intros(1)]
  show ?case
  proof (cases "xs = []")
    case True
    then show ?thesis using rd Cons.prems(2) by (simp add: n ends_number_def number_char_def)
  next
    case False
    have "read_items m (join '','' (map stringify xs) @ CHR '']'' # rest) = Some (xs, rest)"
      using Cons.prems False by (intro Cons.IH) (auto simp: n join_Cons)
    then show ?thesis using rd Cons.prems(2) False
      by (simp add: n join_Cons ends_number_def number_char_def prepend_def)
  qed
qed

definition member_text :: "string \<times> json \<Rightarrow> string" where
  "member_text = (\<lambda>(k, v). quoted k @ '':'' @ stringify v)"

lemma read_members_join:
  assumes "xs \<noteq> []" and "2 * length (join '','' (map member_text xs)) < n"
    and "\<And>k v m rest. (k, v) \<in> set xs \<Longrightarrow> 2 * length (stringify v) \<le> m \<Longrightarrow> ends_number rest \<Longrightarrow>
      read_value m (stringify v @ rest) = Some (v, rest)"
  shows "read_members n (join '','' (map member_text xs) @ CHR ''}'' # rest) = Some (xs, rest)"
  using assms
proof (induction xs arbitrary: n)
  case Nil then show ?case by simp
next
  case (Cons x xs)
  obtain k v where x: "x = (k, v)" by fastforce
  obtain m where n: "n = Suc m" using Cons.prems(2) by (cases n) auto
  have rd: "2 * length (stringify v) \<le> m \<Longrightarrow> ends_number r \<Longrightarrow> read_value m (stringify v @ r) = Some (v, r)" for r
    using Cons.prems(3)[of k v] x by simp
  show ?case
  proof (cases "xs = []")
    case True
    then show ?thesis using rd Cons.prems(2)
      by (simp add: n x member_text_def quoted_def read_quoted ends_number_def number_char_def)
  next
    case False
    have "read_members m (join '','' (map member_text xs) @ CHR ''}'' # rest) = Some (xs, rest)"
      using Cons.prems False by (intro Cons.IH) (auto simp: n join_Cons)
    then show ?thesis using rd Cons.prems(2) False
      by (simp add: n x join_Cons member_text_def quoted_def read_quoted ends_number_def number_char_def prepend_def)
  qed
qed

lemma read_stringify:
  "plain_json v \<Longrightarrow> 2 * length (stringify v) \<le> n \<Longrightarrow> ends_number rest \<Longrightarrow>
    read_value n (stringify v @ rest) = Some (v, rest)"
proof (induction v arbitrary: n rest)
  case (JNum i)
  obtain c cs where c: "string_of_int i = c # cs" by (cases "string_of_int i") auto
  then have k: "number_char c" using numeral_chars[of c i] by simp
  obtain m where n: "n = Suc m" using JNum c by (cases n) auto
  show ?case using number_char_kinds[OF k] read_numeral[OF JNum.prems(3), of i] by (simp add: n c)
next
  case (JArr xs)
  obtain m where n: "n = Suc m" using JArr.prems by (cases n) auto
  show ?case
  proof (cases "xs = []")
    case True then show ?thesis by (simp add: n QUOTE_def)
  next
    case False
    have "read_items m (join '','' (map stringify xs) @ CHR '']'' # rest) = Some (xs, rest)"
      using JArr False by (intro read_items_join) (auto simp: n)
    moreover obtain y ys where "xs = y # ys" using False by (cases xs) auto
    moreover obtain c cs where "stringify y = c # cs" "c \<notin> {CHR '' '', CHR 9, CHR 10, CHR 13}" "c \<notin> {CHR '']'', CHR ''}''}"
      using stringify_starts by blast
    ultimately show ?thesis by (simp add: n join_Cons QUOTE_def)
  qed
next
  case (JObj fields)
  obtain m where n: "n = Suc m" using JObj.prems by (cases n) auto
  have mt: "map (\<lambda>(k, v). quoted k @ '':'' @ stringify v) fields = map member_text fields" by (simp add: member_text_def)
  show ?case
  proof (cases "fields = []")
    case True then show ?thesis by (simp add: n QUOTE_def)
  next
    case False
    have "read_members m (join '','' (map member_text fields) @ CHR ''}'' # rest) = Some (fields, rest)"
    proof (intro read_members_join[OF False])
      show "2 * length (join '','' (map member_text fields)) < m"
        using JObj.prems(2) by (simp only: stringify.simps mt n) simp
    qed (use JObj.prems(1) in \<open>auto intro!: JObj.IH\<close>)
    moreover obtain y ys where "fields = y # ys" using False by (cases fields) auto
    moreover obtain cs where "member_text y = QUOTE # cs" by (cases y) (simp add: member_text_def quoted_def)
    ultimately show ?thesis using JObj.prems(1) unfolding stringify.simps mt n by (simp add: join_Cons QUOTE_def)
  qed
next
  case JNull
  then obtain m where "n = Suc m" by (cases n) auto
  then show ?case by (simp add: read_word_def QUOTE_def)
next
  case (JBool b)
  then obtain m where "n = Suc m" by (cases n) (auto split: if_splits)
  then show ?case by (simp add: read_word_def QUOTE_def)
next
  case (JStr s)
  then obtain m where "n = Suc m" by (cases n) (auto simp: quoted_def)
  then show ?case by (simp add: quoted_def read_quoted)
qed simp

lemma parse_stringify: "plain_json v \<Longrightarrow> parse_json (stringify v) = Some v"
  using read_stringify[of v "2 * length (stringify v) + 2" "[]"] by (simp add: parse_json_def ends_number_def)

end
