(* ===== verification/StateStores.thy ===== *)
theory StateStores
  imports Room RedisSnapshot RoundsTheorems JsonText Duel Davinci PingPong
begin

text \<open>
  The state stores of the games over the in-process Redis: the room lock (\<open>yacht/redisYachtRoomLock.ts\<close> and
  the private \<open>withLock\<close> of the other stores), the versioned stores of the duel, Da Vinci Code and ping-pong
  (\<open>duelStateStore.ts\<close>, \<open>davinciStateStore.ts\<close>, \<open>pingPongStateStore.ts\<close>) and the store of the dice rounds
  (\<open>yacht/redisYachtDiceStateStore.ts\<close>).

  Every \<open>await\<close> lets other tasks of the process run. What they do is the argument \<open>others\<close>: a change of the
  store at each await point. A random token is an argument. A pause of the lock loop lasts at least its
  milliseconds (at least one, as \<open>setTimeout\<close> rounds up), so the loop ends by its deadline.
\<close>

section \<open>Commands as awaited calls\<close>

datatype await_point = Spin nat | Acquired | Got | Mutated | Written | TtlRead | ExpirySet

type_synonym others = "await_point \<Rightarrow> memory_redis \<Rightarrow> memory_redis"

datatype 'e store_error = RedisFault redis_error | Coded coded_error | BlankRoomKey | Mutation 'e

type_synonym ('e, 'a) stored = "(memory_redis, 'e store_error, 'a) cmd"

definition reading :: "'a redis \<Rightarrow> ('e, 'a) stored" where
  "reading f m = (case f (core m) of (r, s) \<Rightarrow> (map_sum RedisFault id r, m\<lparr>core := s\<rparr>))"

definition writing :: "'a redis \<Rightarrow> ('e, 'a) stored" where
  "writing f m = (case f (core m) of (r, s) \<Rightarrow> (map_sum RedisFault id r, m\<lparr>core := s, changes := changes m + 1\<rparr>))"

definition awaited :: "others \<Rightarrow> await_point \<Rightarrow> ('e, 'a) stored \<Rightarrow> ('e, 'a) stored" where
  "awaited others p call m = (case call m of (r, m') \<Rightarrow> (r, others p m'))"

section \<open>The room lock\<close>

record lock_options =
  lockTtlMs :: int
  lockWaitMs :: int
  lockRetryMs :: int

definition LOCK_TTL_MS :: int where "LOCK_TTL_MS = 5000"
definition LOCK_WAIT_MS :: int where "LOCK_WAIT_MS = 2000"
definition LOCK_RETRY_MS :: int where "LOCK_RETRY_MS = 10"

definition lock_defaults :: lock_options where
  "lock_defaults = \<lparr>lockTtlMs = LOCK_TTL_MS, lockWaitMs = LOCK_WAIT_MS, lockRetryMs = LOCK_RETRY_MS\<rparr>"

definition pause :: "others \<Rightarrow> nat \<Rightarrow> int \<Rightarrow> memory_redis \<Rightarrow> memory_redis" where
  "pause others n millis m = (let m' = others (Spin n) m in
     m'\<lparr>core := (core m')\<lparr>now := max (now (core m')) (now (core m) + max 1 millis)\<rparr>\<rparr>)"

lemma now_create [simp]: "now (snd (create k e s)) = now s"
  by (simp add: create_def Let_def)

lemma now_redis_set [simp]: "now (snd (redis_set k v opts s)) = now s"
proof (cases "parseSetOptions (now s) opts None NoCondition")
  case (Inr c)
  then show ?thesis by (cases c) (simp add: redis_set_def andThen_app Let_def split: sum.split)
qed (simp add: redis_set_def)

lemma now_acquire [simp]: "now (snd (acquire_lock lock token ttl s)) = now s"
  by (simp add: acquire_lock_def)

lemma now_writing: "writing f m = (r, m') \<Longrightarrow> (\<And>s. now (snd (f s)) = now s) \<Longrightarrow> now (core m') = now (core m)"
  by (cases "f (core m)") (auto simp: writing_def, metis snd_conv)

function spin :: "others \<Rightarrow> lock_options \<Rightarrow> string \<Rightarrow> string \<Rightarrow> int \<Rightarrow> nat \<Rightarrow> ('e, unit) stored" where
  "spin others opts lock token deadline n m =
    (case writing (acquire_lock lock token (lockTtlMs opts)) m of
       (Inl e, m') \<Rightarrow> (Inl e, m')
     | (Inr got, m') \<Rightarrow>
         if got then (Inr (), others Acquired m')
         else if deadline \<le> now (core m') then (Inl (Coded (ConflictError ''game_state_busy'')), m')
         else spin others opts lock token deadline (Suc n) (pause others n (lockRetryMs opts) m'))"
  by pat_completeness auto
termination
proof (relation "measure (\<lambda>(others, opts, lock, token, deadline, n, m). nat (deadline - now (core m)))", simp)
  fix others opts lock token deadline n m r m' got
  assume step: "(r, m') = writing (acquire_lock lock token (lockTtlMs opts)) m" and on: "\<not> deadline \<le> now (core m')"
  then have "now (core m') = now (core m)" by (intro now_writing[OF step[symmetric]]) simp
  then show "((others, opts, lock, token, deadline, Suc n, pause others n (lockRetryMs opts) m'),
      others, opts, lock, token, deadline, n, m)
    \<in> measure (\<lambda>(others, opts, lock, token, deadline, n, m). nat (deadline - now (core m)))"
    using on by (simp add: pause_def Let_def)
qed

declare spin.simps [simp del]

text \<open>The release in \<open>finally\<close>: whatever it answers or throws is dropped.\<close>

definition unlock :: "string \<Rightarrow> string \<Rightarrow> memory_redis \<Rightarrow> memory_redis" where
  "unlock lock token m = snd (runAtomic UNLOCK_IF_OWNER [lock] [FStr token] m)"

definition lockKey :: "string \<Rightarrow> string" where
  "lockKey key = key @ '':lock''"

text \<open>The lock of the dice rounds: also the attempts to take it are inside the \<open>try\<close>.\<close>

definition room_lock :: "others \<Rightarrow> lock_options \<Rightarrow> string \<Rightarrow> string \<Rightarrow> ('e, 'a) stored \<Rightarrow> ('e, 'a) stored" where
  "room_lock others opts key token action m =
    (case andThen (spin others opts (lockKey key) token (now (core m) + lockWaitMs opts) 0) (\<lambda>_. action) m of
       (r, m') \<Rightarrow> (r, unlock (lockKey key) token m'))"

text \<open>The lock of the versioned stores: the \<open>try\<close> begins when the lock is held.\<close>

definition withLock :: "others \<Rightarrow> string \<Rightarrow> string \<Rightarrow> ('e, 'a) stored \<Rightarrow> ('e, 'a) stored" where
  "withLock others key token action m =
    (case spin others lock_defaults (lockKey key) token (now (core m) + lockWaitMs lock_defaults) 0 m of
       (Inl e, m') \<Rightarrow> (Inl e, m')
     | (Inr _, m') \<Rightarrow> (case action m' of (r, m'') \<Rightarrow> (r, unlock (lockKey key) token m'')))"

section \<open>The versioned stores\<close>

record 'st codec =
  serialize :: "'st \<Rightarrow> string"
  deserialize :: "string \<Rightarrow> coded_error + 'st"

definition copyRoomTtl :: "others \<Rightarrow> string \<Rightarrow> string \<Rightarrow> ('e, unit) stored" where
  "copyRoomTtl others key room = andThen (awaited others TtlRead (reading (pttl (roomKey room)))) (\<lambda>ttl.
     if ttl > 0 then andThen (awaited others ExpirySet (writing (pexpire key (FNum ttl)))) (\<lambda>_. ret ()) else ret ())"

definition initialize :: "others \<Rightarrow> 'st codec \<Rightarrow> string \<Rightarrow> string \<Rightarrow> string \<Rightarrow> 'st \<Rightarrow> ('e, unit) stored" where
  "initialize others c conflict key room s =
    andThen (awaited others Written (writing (redis_set key (FStr (serialize c s)) [FStr ''NX'']))) (\<lambda>created.
      if \<not> created then throw (Coded (ConflictError conflict)) else copyRoomTtl others key room)"

definition find_state :: "'st codec \<Rightarrow> string \<Rightarrow> ('e, 'st option) stored" where
  "find_state c key = andThen (reading (redis_get key)) (\<lambda>value. case value of None \<Rightarrow> ret None
     | Some t \<Rightarrow> (case deserialize c t of Inl e \<Rightarrow> throw (Coded e) | Inr s \<Rightarrow> ret (Some s)))"

text \<open>Read, apply, write: \<open>unchanged next current\<close> is the store's test for an update it drops.\<close>

definition mutation_body :: "others \<Rightarrow> 'st codec \<Rightarrow> ('st \<Rightarrow> 'st \<Rightarrow> bool) \<Rightarrow> string \<Rightarrow> string
    \<Rightarrow> ('st \<Rightarrow> 'e + 'st option) \<Rightarrow> ('e, 'st option) stored" where
  "mutation_body others c unchanged key room mutation =
    andThen (awaited others Got (reading (redis_get key))) (\<lambda>value. case value of None \<Rightarrow> ret None
      | Some t \<Rightarrow> (case deserialize c t of Inl e \<Rightarrow> throw (Coded e)
        | Inr current \<Rightarrow> (case mutation current of Inl e \<Rightarrow> throw (Mutation e)
          | Inr None \<Rightarrow> ret None
          | Inr (Some next) \<Rightarrow> if unchanged next current then ret None
              else andThen (awaited others Written (writing (redis_set key (FStr (serialize c next)) []))) (\<lambda>_.
                andThen (copyRoomTtl others key room) (\<lambda>_. ret (Some next))))))"

definition mutate :: "others \<Rightarrow> 'st codec \<Rightarrow> ('st \<Rightarrow> 'st \<Rightarrow> bool) \<Rightarrow> string \<Rightarrow> string \<Rightarrow> string
    \<Rightarrow> ('st \<Rightarrow> 'e + 'st option) \<Rightarrow> ('e, 'st option) stored" where
  "mutate others c unchanged key room token mutation =
     withLock others key token (mutation_body others c unchanged key room mutation)"

definition remove_state :: "string \<Rightarrow> ('e, bool) stored" where
  "remove_state key = andThen (writing (del_keys [key])) (\<lambda>n. ret (0 < n))"

definition stateKey :: "string \<Rightarrow> string \<Rightarrow> (string \<Rightarrow> ('e, 'a) stored) \<Rightarrow> ('e, 'a) stored" where
  "stateKey code room use = (if blank room then throw BlankRoomKey else use (gameStateKey room code))"

subsection \<open>The duel\<close>

definition DUEL_CODE :: string where "DUEL_CODE = ''DUEL''"

definition duel_unchanged :: "duel_state \<Rightarrow> duel_state \<Rightarrow> bool" where
  "duel_unchanged s current = (du_version s \<le> du_version current)"

definition duel_initialize :: "others \<Rightarrow> duel_state codec \<Rightarrow> string \<Rightarrow> duel_state \<Rightarrow> ('e, unit) stored" where
  "duel_initialize others c room s = stateKey DUEL_CODE room (\<lambda>key. initialize others c ''duel_already_initialized'' key room s)"

definition duel_find :: "duel_state codec \<Rightarrow> string \<Rightarrow> ('e, duel_state option) stored" where
  "duel_find c room = stateKey DUEL_CODE room (find_state c)"

definition duel_mutate :: "others \<Rightarrow> duel_state codec \<Rightarrow> string \<Rightarrow> string \<Rightarrow> (duel_state \<Rightarrow> 'e + duel_state option)
    \<Rightarrow> ('e, duel_state option) stored" where
  "duel_mutate others c room token mutation =
     stateKey DUEL_CODE room (\<lambda>key. mutate others c duel_unchanged key room token mutation)"

definition duel_remove :: "string \<Rightarrow> ('e, bool) stored" where
  "duel_remove room = stateKey DUEL_CODE room remove_state"

subsection \<open>Da Vinci Code\<close>

definition DAVINCI_CODE :: string where "DAVINCI_CODE = ''DAVINCI_CODE''"

definition davinci_unchanged :: "davinci_state \<Rightarrow> davinci_state \<Rightarrow> bool" where
  "davinci_unchanged s current = (dv_version s \<le> dv_version current)"

definition davinci_initialize :: "others \<Rightarrow> davinci_state codec \<Rightarrow> string \<Rightarrow> davinci_state \<Rightarrow> ('e, unit) stored" where
  "davinci_initialize others c room s =
     stateKey DAVINCI_CODE room (\<lambda>key. initialize others c ''davinci_already_initialized'' key room s)"

definition davinci_find :: "davinci_state codec \<Rightarrow> string \<Rightarrow> ('e, davinci_state option) stored" where
  "davinci_find c room = stateKey DAVINCI_CODE room (find_state c)"

definition davinci_mutate :: "others \<Rightarrow> davinci_state codec \<Rightarrow> string \<Rightarrow> string
    \<Rightarrow> (davinci_state \<Rightarrow> 'e + davinci_state option) \<Rightarrow> ('e, davinci_state option) stored" where
  "davinci_mutate others c room token mutation =
     stateKey DAVINCI_CODE room (\<lambda>key. mutate others c davinci_unchanged key room token mutation)"

definition davinci_remove :: "string \<Rightarrow> ('e, bool) stored" where
  "davinci_remove room = stateKey DAVINCI_CODE room remove_state"

subsection \<open>Ping-pong\<close>

definition PING_PONG :: string where "PING_PONG = ''PING_PONG''"

text \<open>This store drops an update only when the version is the same.\<close>

definition ping_pong_unchanged :: "pp_state \<Rightarrow> pp_state \<Rightarrow> bool" where
  "ping_pong_unchanged s current = (pp_version s = pp_version current)"

definition ping_pong_initialize :: "others \<Rightarrow> pp_state codec \<Rightarrow> string \<Rightarrow> pp_state \<Rightarrow> ('e, unit) stored" where
  "ping_pong_initialize others c room s =
     stateKey PING_PONG room (\<lambda>key. initialize others c ''ping_pong_already_initialized'' key room s)"

definition ping_pong_find :: "pp_state codec \<Rightarrow> string \<Rightarrow> ('e, pp_state option) stored" where
  "ping_pong_find c room = stateKey PING_PONG room (find_state c)"

definition ping_pong_mutate :: "others \<Rightarrow> pp_state codec \<Rightarrow> string \<Rightarrow> string \<Rightarrow> (pp_state \<Rightarrow> 'e + pp_state option)
    \<Rightarrow> ('e, pp_state option) stored" where
  "ping_pong_mutate others c room token mutation =
     stateKey PING_PONG room (\<lambda>key. mutate others c ping_pong_unchanged key room token mutation)"

definition ping_pong_remove :: "string \<Rightarrow> ('e, bool) stored" where
  "ping_pong_remove room = stateKey PING_PONG room remove_state"

section \<open>The store of the dice rounds\<close>

definition YACHT_DICE :: string where "YACHT_DICE = ''YACHT_DICE''"

definition yachtKey :: "string \<Rightarrow> string" where
  "yachtKey room = gameStateKey room YACHT_DICE"

definition invalidYachtState :: coded_error where
  "invalidYachtState = ConflictError ''invalid_yacht_state''"

definition serializeState :: "round_state \<Rightarrow> string" where
  "serializeState s = stringify (toStateSnapshot s)"

definition deserializeStateOrFail :: "string \<Rightarrow> coded_error + round_state" where
  "deserializeStateOrFail t = (case Option.bind (parse_json t) deserializeState of
     None \<Rightarrow> Inl invalidYachtState | Some s \<Rightarrow> Inr s)"

definition yacht_codec :: "round_state codec" where
  "yacht_codec = \<lparr>serialize = serializeState, deserialize = deserializeStateOrFail\<rparr>"

type_synonym ('e, 'a) on_yacht = "('e round_error, 'a) stored"

definition validateRoomId :: "string \<Rightarrow> ('e, 'a) on_yacht \<Rightarrow> ('e, 'a) on_yacht" where
  "validateRoomId room task = (if blank room then throw (Mutation BlankRoomId) else task)"

definition checked :: "round_reason + 'a \<Rightarrow> ('e, 'a) on_yacht" where
  "checked r = (case r of Inl e \<Rightarrow> throw (Mutation (Sync e)) | Inr x \<Rightarrow> ret x)"

definition yacht_initialize :: "others \<Rightarrow> string \<Rightarrow> round_state \<Rightarrow> ('e, unit) on_yacht" where
  "yacht_initialize others room s = validateRoomId room
    (andThen (awaited others Written (writing (redis_set (yachtKey room) (FStr (serializeState s)) [FStr ''NX'']))) (\<lambda>created.
      if \<not> created then throw (Mutation (Sync ROUND_ALREADY_INITIALIZED)) else copyRoomTtl others (yachtKey room) room))"

definition mutateOptional :: "others \<Rightarrow> lock_options \<Rightarrow> string \<Rightarrow> string
    \<Rightarrow> (round_state \<Rightarrow> ('e, (round_state \<times> 'a) option) on_yacht) \<Rightarrow> ('e, 'a option) on_yacht" where
  "mutateOptional others opts room token mutation = validateRoomId room (room_lock others opts (yachtKey room) token
    (andThen (awaited others Got (reading (redis_get (yachtKey room)))) (\<lambda>stored. case stored of None \<Rightarrow> ret None
      | Some t \<Rightarrow> (case deserializeStateOrFail t of Inl e \<Rightarrow> throw (Coded e)
        | Inr current \<Rightarrow> andThen (awaited others Mutated (mutation current)) (\<lambda>change. case change of None \<Rightarrow> ret None
          | Some (s, result) \<Rightarrow>
              andThen (awaited others Written (writing (redis_set (yachtKey room) (FStr (serializeState s)) []))) (\<lambda>_.
              andThen (copyRoomTtl others (yachtKey room) room) (\<lambda>_. ret (Some result))))))))"

definition mutateRequired :: "others \<Rightarrow> lock_options \<Rightarrow> string \<Rightarrow> string
    \<Rightarrow> (round_state \<Rightarrow> ('e, (round_state \<times> 'a) option) on_yacht) \<Rightarrow> ('e, 'a) on_yacht" where
  "mutateRequired others opts room token mutation = andThen (mutateOptional others opts room token mutation) (\<lambda>result.
     case result of None \<Rightarrow> throw (Mutation (Sync ROUND_NOT_INITIALIZED)) | Some x \<Rightarrow> ret x)"

definition calling :: "(memory_redis, 'e, unit) cmd \<Rightarrow> ('e, unit) on_yacht" where
  "calling callback m = (case callback m of (r, m') \<Rightarrow> (map_sum (\<lambda>e. Mutation (Callback e)) id r, m'))"

definition yacht_submitAtomically :: "others \<Rightarrow> lock_options \<Rightarrow> string \<Rightarrow> string \<Rightarrow> round_submission
    \<Rightarrow> (memory_redis, 'e, unit) cmd \<Rightarrow> ('e, round_result) on_yacht" where
  "yacht_submitAtomically others opts room token sub beforeStateChange =
    mutateRequired others opts room token (\<lambda>current. andThen (checked (submit_round current sub)) (\<lambda>result.
      andThen (calling beforeStateChange) (\<lambda>_. ret (Some (fst result, result)))))"

definition yacht_recordRollAtomically :: "others \<Rightarrow> lock_options \<Rightarrow> string \<Rightarrow> string \<Rightarrow> round_roll \<Rightarrow> ('e, round_state) on_yacht" where
  "yacht_recordRollAtomically others opts room token roll = mutateRequired others opts room token (\<lambda>current.
     andThen (checked (recordRoll current roll)) (\<lambda>next. ret (Some (next, next))))"

definition yacht_recordHoldAtomically :: "others \<Rightarrow> lock_options \<Rightarrow> string \<Rightarrow> string \<Rightarrow> string \<Rightarrow> int \<Rightarrow> bool list
    \<Rightarrow> ('e, round_state) on_yacht" where
  "yacht_recordHoldAtomically others opts room token p n held = mutateRequired others opts room token (\<lambda>current.
     andThen (checked (recordHold current p n held)) (\<lambda>next. ret (Some (next, next))))"

definition yacht_isStaleTurn :: "round_state \<Rightarrow> int \<Rightarrow> string \<Rightarrow> round_reason + bool" where
  "yacht_isStaleTurn s n p = (if rd_finished s then Inr True
     else if roundNumber s \<noteq> n then Inr True
     else (case activePlayerId s of Inl e \<Rightarrow> Inl e | Inr active \<Rightarrow> Inr (active \<noteq> p)))"

definition yacht_autoRollAtomically :: "others \<Rightarrow> lock_options \<Rightarrow> string \<Rightarrow> string \<Rightarrow> int \<Rightarrow> string \<Rightarrow> int list
    \<Rightarrow> ('e, round_state option) on_yacht" where
  "yacht_autoRollAtomically others opts room token n p rolled = mutateOptional others opts room token (\<lambda>current.
     andThen (checked (yacht_isStaleTurn current n p)) (\<lambda>stale. if stale \<or> \<not> hasRollsLeft current then ret None
       else andThen (checked (autoRoll current rolled)) (\<lambda>next. ret (Some (next, next)))))"

definition yacht_expireAtomically :: "others \<Rightarrow> lock_options \<Rightarrow> string \<Rightarrow> string \<Rightarrow> int \<Rightarrow> string
    \<Rightarrow> ('e, round_result option) on_yacht" where
  "yacht_expireAtomically others opts room token n p = mutateOptional others opts room token (\<lambda>current.
     andThen (checked (yacht_isStaleTurn current n p)) (\<lambda>stale. if stale then ret None
       else andThen (checked (expire_round current)) (\<lambda>result. ret (Some (fst result, result)))))"

definition yacht_removeParticipantAtomically :: "others \<Rightarrow> lock_options \<Rightarrow> string \<Rightarrow> string \<Rightarrow> string
    \<Rightarrow> ('e, round_state option) on_yacht" where
  "yacht_removeParticipantAtomically others opts room token p = mutateOptional others opts room token (\<lambda>current.
     andThen (checked (withoutParticipant current p)) (\<lambda>next. ret (Some (next, next))))"

definition yacht_findByRoomId :: "string \<Rightarrow> ('e, round_state option) on_yacht" where
  "yacht_findByRoomId room = validateRoomId room (andThen (reading (redis_get (yachtKey room))) (\<lambda>stored.
     case stored of None \<Rightarrow> ret None
     | Some t \<Rightarrow> (case deserializeStateOrFail t of Inl e \<Rightarrow> throw (Coded e) | Inr s \<Rightarrow> ret (Some s))))"

definition yacht_remove :: "string \<Rightarrow> ('e, bool) on_yacht" where
  "yacht_remove room = validateRoomId room (andThen (writing (del_keys [yachtKey room])) (\<lambda>n. ret (0 < n)))"

end
