(* ===== verification/StateStoreTheorems.thy ===== *)
theory StateStoreTheorems
  imports StateStores
begin

text \<open>
  What the state stores guarantee: the commands they use as operations on the values of the keys, the exclusion
  of concurrent updates by the room lock, and the refinement of the in-memory store of the rounds
  (\<open>roundStateStoreInMemory.ts\<close>) by the one over the in-process Redis.
\<close>

section \<open>The commands on the values of the keys\<close>

definition values_of :: "keyspace \<Rightarrow> string \<Rightarrow> redis_value option" where
  "values_of s k = map_option e_value (visible s k)"

definition settled :: "int \<Rightarrow> keyspace \<Rightarrow> bool" where
  "settled t s = (wf_store s \<and> now s = t \<and> scriptCreates s = None)"

text \<open>No command moves the clock or leaves a script declaration behind.\<close>

interpretation settled: keyspace_invariant "settled t" for t
proof unfold_locales
  fix s k and e :: redis_entry assume "settled t s" "wf_value (e_value e)"
  then show "settled t (snd (create k e s))"
    using wf.create[of s e k] by (auto simp: settled_def create_def Let_def split: if_splits)
qed (auto simp: settled_def wf_store_drop wf_store_put wf_store_sweep wf_store_clear dest: wf_storeD)

lemma values_live [simp]: "values_of (snd (live k s)) = values_of s" "key_expiry (snd (live k s)) = key_expiry s"
  by (simp_all add: values_of_def fun_eq_iff)

lemma values_frame:
  "values_of (put_entry k \<lparr>e_value = v, expiresAt = None\<rparr> s) = (values_of s)(k \<mapsto> v)"
  "now s < x \<Longrightarrow> values_of (put_entry k \<lparr>e_value = v, expiresAt = Some x\<rparr> s) = (values_of s)(k \<mapsto> v)"
  "values_of (drop_entry k s) = (values_of s)(k := None)"
  by (auto simp: values_of_def visible_put visible_drop expired_def fun_eq_iff)

lemma expiry_frame:
  "now s < x \<Longrightarrow> key_expiry (put_entry k \<lparr>e_value = v, expiresAt = Some x\<rparr> s) = (key_expiry s)(k \<mapsto> x)"
  "key_expiry (put_entry k \<lparr>e_value = v, expiresAt = None\<rparr> s) = (key_expiry s)(k := None)"
  "key_expiry (drop_entry k s) = (key_expiry s)(k := None)"
  by (auto simp: key_expiry_def visible_put visible_drop expired_def fun_eq_iff)

lemma create_effect:
  assumes "settled t s" "wf_value v"
  shows "create k \<lparr>e_value = v, expiresAt = x\<rparr> s = (Inl OOM_MESSAGE, snd (sweepExpired s)) \<or>
    (\<exists>s1. create k \<lparr>e_value = v, expiresAt = x\<rparr> s = (Inr (), put_entry k \<lparr>e_value = v, expiresAt = x\<rparr> s1)
      \<and> visible s1 = visible s \<and> settled t s1)"
  using assms settled.sweep[of t s] by (auto simp: create_def Let_def settled_def)

lemma sweep_values: "wf_store s \<Longrightarrow> values_of (snd (sweepExpired s)) = values_of s"
    "wf_store s \<Longrightarrow> key_expiry (snd (sweepExpired s)) = key_expiry s"
  by (simp_all add: values_of_def key_expiry_def fun_eq_iff)

lemma get_effect:
  assumes "settled t s" "values_of s k = None \<or> values_of s k = Some (StringV v)"
  shows "redis_get k s = (Inr (map_option (\<lambda>_. v) (values_of s k)), snd (live k s))"
  using assms by (auto simp: redis_get_def string_at_def values_of_def andThen_app split: option.splits)

lemma overwrite_effect:
  assumes "settled t s" "values_of s k \<noteq> None"
  shows "\<exists>s'. redis_set k (FStr v) [] s = (Inr True, s') \<and> settled t s' \<and> values_of s' = (values_of s)(k \<mapsto> StringV v)
    \<and> key_expiry s' = (key_expiry s)(k := None)"
proof -
  have "visible s k \<noteq> None" using assms(2) by (simp add: values_of_def)
  moreover have "settled t (snd (redis_set k (FStr v) [] s))" using assms(1) by (rule settled.redis_set)
  ultimately show ?thesis
    by (auto simp: redis_set_def Let_def values_frame expiry_frame)
qed

lemma pttl_effect:
  assumes "settled t s"
  shows "pttl k s = (Inr (if values_of s k = None then - 2 else case key_expiry s k of None \<Rightarrow> - 1 | Some x \<Rightarrow> x - t),
    snd (live k s))"
  using assms by (auto simp: pttl_def values_of_def key_expiry_def andThen_app settled_def split: option.split)

lemma pexpire_effect:
  assumes "settled t s" "0 < ms" "is_safe_integer ms"
  shows "\<exists>r s'. pexpire k (FNum ms) s = (Inr r, s') \<and> settled t s' \<and> values_of s' = values_of s
    \<and> key_expiry s' = (if values_of s k = None then key_expiry s else (key_expiry s)(k \<mapsto> t + ms))"
proof -
  have st: "settled t (snd (pexpire k (FNum ms) s))" using assms(1) by (rule settled.pexpire)
  show ?thesis
  proof (cases "visible s k")
    case None
    then have "pexpire k (FNum ms) s = (Inr 0, snd (live k s))" by (simp add: pexpire_def)
    then show ?thesis using st None by (simp add: values_of_def)
  next
    case (Some e)
    have n: "now (snd (live k s)) = t" using assms(1) by (simp add: settled_def)
    have "pexpire k (FNum ms) s = (Inr 1, put_entry k (e\<lparr>expiresAt := Some (t + ms)\<rparr>) (snd (live k s)))"
      using Some assms n by (simp add: pexpire_def)
    moreover have "e\<lparr>expiresAt := Some (t + ms)\<rparr> = \<lparr>e_value = e_value e, expiresAt = Some (t + ms)\<rparr>" by (cases e) simp
    ultimately show ?thesis using st Some n assms(2)
      by (auto simp: values_frame expiry_frame) (auto simp: values_of_def fun_eq_iff)
  qed
qed

lemma acquire_effect:
  assumes "settled t s" "is_safe_integer ttl" "0 < ttl"
  shows "(values_of s lock \<noteq> None \<and> acquire_lock lock token ttl s = (Inr False, snd (live lock s)))
   \<or> (values_of s lock = None \<and> (\<exists>s'. settled t s' \<and>
      (acquire_lock lock token ttl s = (Inl OOM_MESSAGE, s') \<and> values_of s' = values_of s \<and> key_expiry s' = key_expiry s
      \<or> acquire_lock lock token ttl s = (Inr True, s') \<and> values_of s' = (values_of s)(lock \<mapsto> StringV token)
        \<and> key_expiry s' = (key_expiry s)(lock \<mapsto> t + ttl))))"
proof (cases "visible s lock")
  case None
  let ?s1 = "snd (live lock s)"
  have s1: "settled t ?s1" using assms(1) by (rule settled.live)
  have n: "now s = t" "now ?s1 = t" using assms(1) by (simp_all add: settled_def)
  have st: "settled t (snd (acquire_lock lock token ttl s))" unfolding acquire_lock_def using assms(1) by (rule settled.redis_set)
  have a: "acquire_lock lock token ttl s = andThen (create lock \<lparr>e_value = StringV token, expiresAt = Some (t + ttl)\<rparr>) (\<lambda>_. ret True) ?s1"
    using None n by (simp add: acquire_lock_app[OF assms(2)])
  from create_effect[OF s1, of "StringV token" lock "Some (t + ttl)"]
  consider "create lock \<lparr>e_value = StringV token, expiresAt = Some (t + ttl)\<rparr> ?s1 = (Inl OOM_MESSAGE, snd (sweepExpired ?s1))"
    | s2 where "create lock \<lparr>e_value = StringV token, expiresAt = Some (t + ttl)\<rparr> ?s1
        = (Inr (), put_entry lock \<lparr>e_value = StringV token, expiresAt = Some (t + ttl)\<rparr> s2)"
      "visible s2 = visible ?s1" "settled t s2" by auto
  then show ?thesis
  proof cases
    case 1
    then have "acquire_lock lock token ttl s = (Inl OOM_MESSAGE, snd (sweepExpired ?s1))" by (simp add: a)
    then show ?thesis using None s1 st by (auto simp: values_of_def[of s] settled_def sweep_values)
  next
    case 2
    have v: "values_of s2 = values_of s" "key_expiry s2 = key_expiry s"
      using 2(2) by (simp_all add: values_of_def key_expiry_def fun_eq_iff)
    have "acquire_lock lock token ttl s = (Inr True, put_entry lock \<lparr>e_value = StringV token, expiresAt = Some (t + ttl)\<rparr> s2)"
      using 2(1) by (simp add: a)
    moreover have "now s2 < t + ttl" using 2(3) assms(3) by (simp add: settled_def)
    ultimately show ?thesis using None st v by (auto simp: values_frame expiry_frame values_of_def[of s])
  qed
qed (use acquire_lock_app[OF assms(2)] in \<open>auto simp: values_of_def\<close>)

lemma del_effect:
  assumes "settled t s"
  shows "\<exists>s'. del_keys [k] s = (Inr (if values_of s k = None then 0 else 1), s') \<and> settled t s'
    \<and> values_of s' = (values_of s)(k := None) \<and> key_expiry s' = (key_expiry s)(k := None)"
proof (cases "visible s k")
  case None
  then have n: "values_of s k = None" "key_expiry s k = None" by (simp_all add: values_of_def key_expiry_def)
  then have u: "(values_of s)(k := None) = values_of s" "(key_expiry s)(k := None) = key_expiry s" by auto
  have "del_keys [k] s = (Inr 0, snd (live k s))" using None by simp
  then show ?thesis using n u settled.live[OF assms, of k] by auto
next
  case (Some e)
  then have "del_keys [k] s = (Inr 1, drop_entry k (snd (live k s)))" by simp
  then show ?thesis using Some settled.drop[OF settled.live[OF assms, of k], of k]
    by (auto simp: values_frame expiry_frame values_of_def[of s])
qed

lemma live_again [simp]: "snd (live k (snd (live k s))) = snd (live k s)"
  by (auto simp: live_def split: option.split)

lemma unlock_effect:
  assumes "settled t (core m)" "values_of (core m) lock \<in> {None} \<union> range (\<lambda>v. Some (StringV v))"
  shows "settled t (core (unlock lock token m))"
    "values_of (core (unlock lock token m)) = (if values_of (core m) lock = Some (StringV token) then (values_of (core m))(lock := None)
       else values_of (core m))"
    "key_expiry (core (unlock lock token m)) = (if values_of (core m) lock = Some (StringV token) then (key_expiry (core m))(lock := None)
       else key_expiry (core m))"
proof -
  let ?run = "script_run UNLOCK_IF_OWNER (lock # replicate 7 []) (token # replicate 7 [])"
  let ?s = "(core m)\<lparr>scriptCreates := Some (''unlockIfOwner'', [])\<rparr>"
  have core: "core (unlock lock token m) = (snd (?run ?s))\<lparr>scriptCreates := None\<rparr>"
    by (simp add: unlock_def runAtomic_def toSlots_def UNLOCK_IF_OWNER_def SLOT_COUNT_def runAdmitted_def Let_def
        prod.case_eq_if numeral_nat)
  have sub: "values_of (s\<lparr>scriptCreates := c\<rparr>) = values_of s" "visible (s\<lparr>scriptCreates := c\<rparr>) = visible s"
    "key_expiry (s\<lparr>scriptCreates := c\<rparr>) = key_expiry s" for s :: keyspace and c
    by (simp_all add: values_of_def key_expiry_def visible_def fun_eq_iff cong: option.case_cong)
  note eq = sub[where s = "core m"]
  have wf: "wf_store ?s" "now ?s = t" using assms(1) by (simp_all add: settled_def)
  obtain v where v: "visible (core m) lock = None \<or> (\<exists>x. visible (core m) lock = Some \<lparr>e_value = StringV v, expiresAt = x\<rparr>)"
    using assms(2) by (auto simp: values_of_def image_iff) (metis redis_entry.cases redis_entry.select_convs(1))
  then have run: "snd (?run ?s) = (if values_of (core m) lock = Some (StringV token) then drop_entry lock (snd (live lock ?s)) else snd (live lock ?s))"
    using eq by (auto simp: UNLOCK_IF_OWNER_def Let_def redis_get_def string_at_def andThen_app values_of_def)
  have w: "wf_store (snd (live lock ?s))" "now (snd (live lock ?s)) = t" using wf by (auto intro: wf.live)
  then show "settled t (core (unlock lock token m))"
    unfolding core run settled_def by (simp add: wf_store_drop)
  show "values_of (core (unlock lock token m)) = (if values_of (core m) lock = Some (StringV token) then (values_of (core m))(lock := None)
       else values_of (core m))"
    "key_expiry (core (unlock lock token m)) = (if values_of (core m) lock = Some (StringV token) then (key_expiry (core m))(lock := None)
       else key_expiry (core m))"
    unfolding core run by (simp_all add: sub values_frame expiry_frame eq)
qed

section \<open>One update at a time\<close>

definition plain :: "keyspace \<Rightarrow> bool" where
  "plain s = (wf_store s \<and> scriptCreates s = None)"

lemma plain_settled: "plain s \<longleftrightarrow> settled (now s) s"
  by (simp add: plain_def settled_def)

definition owned :: "string \<Rightarrow> string \<Rightarrow> memory_redis \<Rightarrow> bool" where
  "owned lock token m = (values_of (core m) lock = Some (StringV token))"

text \<open>The other tasks leave the state alone while the lock carries this token, and the lock does not run out
  during the awaits of its owner (who never pauses).\<close>

definition keeps_lock :: "others \<Rightarrow> string \<Rightarrow> string \<Rightarrow> bool" where
  "keeps_lock others key token = (\<forall>p m. plain (core m) \<longrightarrow> plain (core (others p m)) \<and>
     (p \<notin> range Spin \<and> owned (lockKey key) token m \<longrightarrow> owned (lockKey key) token (others p m) \<and>
        values_of (core (others p m)) key = values_of (core m) key))"

lemma keeps_lockD:
  assumes "keeps_lock others key token" "plain (core m)"
  shows "plain (core (others p m))"
    "p \<notin> range Spin \<Longrightarrow> owned (lockKey key) token m \<Longrightarrow> owned (lockKey key) token (others p m)"
    "p \<notin> range Spin \<Longrightarrow> owned (lockKey key) token m \<Longrightarrow> values_of (core (others p m)) key = values_of (core m) key"
  using assms by (auto simp: keeps_lock_def)

lemma plain_now [simp]: "plain (s\<lparr>now := t\<rparr>) = plain s"
  by (simp add: plain_def)

lemma reading_app: "reading f m = (map_sum RedisFault id (fst (f (core m))), m\<lparr>core := snd (f (core m))\<rparr>)"
  and writing_app: "writing f m = (map_sum RedisFault id (fst (f (core m))), m\<lparr>core := snd (f (core m)), changes := changes m + 1\<rparr>)"
  by (simp_all add: reading_def writing_def prod.case_eq_if)

lemma safe_lock_ttl [simp]: "is_safe_integer (lockTtlMs lock_defaults)" "0 < lockTtlMs lock_defaults"
  by (simp_all add: lock_defaults_def LOCK_TTL_MS_def is_safe_integer_def)

lemma plain_acquire: "plain s \<Longrightarrow> plain (snd (acquire_lock lock token ttl s))"
  using settled.redis_set[of "now s" s lock] by (auto simp: plain_settled acquire_lock_def settled_def)

lemma spin_owns:
  assumes "keeps_lock others key token" "plain (core m)" "lock = lockKey key"
    and "is_safe_integer (lockTtlMs opts)" "0 < lockTtlMs opts"
  shows "(case (spin others opts lock token deadline n :: ('e, unit) stored) m of (r, m1) \<Rightarrow>
     plain (core m1) \<and> (r = Inr () \<longrightarrow> owned lock token m1))"
  using assms
proof (induction others opts lock token deadline n m rule: spin.induct[where 'a = 'e])
  case (1 others opts lock token deadline n m)
  let ?a = "acquire_lock lock token (lockTtlMs opts) (core m)"
  have p: "plain (snd ?a)" using 1(3) by (rule plain_acquire)
  have own: "fst ?a = Inr True \<Longrightarrow> values_of (snd ?a) lock = Some (StringV token)"
    using acquire_effect[of "now (core m)" "core m" "lockTtlMs opts" lock token] 1(3,5,6) by (auto simp: plain_settled)
  show ?case
  proof (cases "fst ?a")
    case (Inl e) then show ?thesis using p by (subst spin.simps) (simp add: writing_app)
  next
    case (Inr got)
    let ?m = "m\<lparr>core := snd ?a, changes := changes m + 1\<rparr>"
    have w: "(writing (acquire_lock lock token (lockTtlMs opts)) :: ('e, bool) stored) m = (Inr got, ?m)"
      using Inr by (simp add: writing_app)
    show ?thesis
    proof (cases got)
      case True
      then have "owned lock token ?m" using own Inr by (simp add: owned_def)
      then show ?thesis using True w p keeps_lockD[OF 1(2), of ?m Acquired] 1(4) by (subst spin.simps) auto
    next
      case False
      have "plain (core (pause others n (lockRetryMs opts) ?m))"
        using keeps_lockD(1)[OF 1(2), of ?m] p by (simp add: pause_def Let_def)
      then show ?thesis using 1(1)[OF w[symmetric] refl False _ 1(2)] w p False 1(4-6)
        by (subst spin.simps) simp
    qed
  qed
qed

text \<open>While the lock is held, each awaited command of a mutation keeps it.\<close>

definition under_lock :: "string \<Rightarrow> string \<Rightarrow> memory_redis \<Rightarrow> redis_value option \<Rightarrow> bool" where
  "under_lock key token m v = (plain (core m) \<and> owned (lockKey key) token m \<and> values_of (core m) key = v)"

lemma key_not_lock [simp]: "key \<noteq> lockKey key" "lockKey key \<noteq> key"
  by (auto simp: lockKey_def)

lemma under_lock_others: "keeps_lock others key token \<Longrightarrow> p \<notin> range Spin \<Longrightarrow> under_lock key token m v \<Longrightarrow> under_lock key token (others p m) v"
  using keeps_lockD by (auto simp: under_lock_def)

lemma under_lock_core:
  "plain s \<Longrightarrow> values_of s (lockKey key) = Some (StringV token) \<Longrightarrow> values_of s key = v \<Longrightarrow>
     under_lock key token (m\<lparr>core := s\<rparr>) v \<and> under_lock key token (m\<lparr>core := s, changes := n\<rparr>) v"
  by (simp add: under_lock_def owned_def)

lemma plain_live: "plain s \<Longrightarrow> plain (snd (live k s))"
  using settled.live[of "now s" s k] by (simp add: plain_settled settled_def)

lemma get_step:
  assumes "keeps_lock others key token" "under_lock key token m v"
    and "awaited others Got (reading (redis_get key)) m = (r, m')"
  shows "under_lock key token m' v \<and> (\<forall>x. r = Inr x \<longrightarrow> v = map_option StringV x)"
proof -
  let ?s = "core m"
  have snd: "snd (redis_get key ?s) = snd (live key ?s)" by (simp add: redis_get_def)
  have "under_lock key token (m\<lparr>core := snd (redis_get key ?s)\<rparr>) v"
    using assms(2) under_lock_core[of "snd (live key ?s)"] plain_live[of ?s key] by (auto simp: snd under_lock_def owned_def)
  moreover have "fst (redis_get key ?s) = Inr x \<Longrightarrow> v = map_option StringV x" for x
    using assms(2) by (auto simp: redis_get_def string_at_def andThen_app under_lock_def values_of_def split: option.splits redis_value.splits)
  ultimately show ?thesis using assms(3) under_lock_others[OF assms(1)]
    by (cases "fst (redis_get key ?s)") (auto simp: awaited_def reading_app)
qed

lemma set_step:
  assumes "keeps_lock others key token" "under_lock key token m (Some v)"
    and "awaited others Written (writing (redis_set key (FStr x) [])) m = (r, m')"
  shows "under_lock key token m' (Some (StringV x)) \<and> r = Inr True"
proof -
  obtain s' where s': "redis_set key (FStr x) [] (core m) = (Inr True, s')" "settled (now (core m)) s'"
    "values_of s' = (values_of (core m))(key \<mapsto> StringV x)"
    using overwrite_effect[of "now (core m)" "core m" key x] assms(2) by (auto simp: under_lock_def plain_settled)
  then have "under_lock key token (m\<lparr>core := s', changes := changes m + 1\<rparr>) (Some (StringV x))"
    using assms(2) by (auto simp: under_lock_def owned_def plain_def settled_def)
  then show ?thesis using assms(3) under_lock_others[OF assms(1)] s'(1) by (auto simp: awaited_def writing_app)
qed

lemma pexpire_values:
  assumes "plain s" "0 < ms"
  shows "plain (snd (pexpire k (FNum ms) s)) \<and> values_of (snd (pexpire k (FNum ms) s)) = values_of s"
proof (cases "is_safe_integer ms")
  case True
  then show ?thesis using pexpire_effect[of "now s" s ms k] assms by (auto simp: plain_settled settled_def)
next
  case False
  then have "snd (pexpire k (FNum ms) s) = snd (live k s)"
    by (auto simp: pexpire_def andThen_app split: option.split)
  then show ?thesis using assms plain_live by simp
qed

lemma pttl_step:
  assumes "keeps_lock others key token" "under_lock key token m v" "awaited others TtlRead (reading (pttl k)) m = (r, m')"
  shows "under_lock key token m' v"
proof -
  have "snd (pttl k (core m)) = snd (live k (core m))"
    using pttl_effect[of "now (core m)" "core m" k] assms(2) by (simp add: under_lock_def plain_settled)
  then have "under_lock key token (m\<lparr>core := snd (pttl k (core m))\<rparr>) v"
    using assms(2) plain_live[of "core m" k] by (simp add: under_lock_def owned_def)
  then show ?thesis using under_lock_others[OF assms(1)] assms(3) by (auto simp: awaited_def reading_app)
qed

lemma pexpire_step:
  assumes "keeps_lock others key token" "under_lock key token m v" "0 < ttl"
    and "awaited others ExpirySet (writing (pexpire key (FNum ttl))) m = (r, m')"
  shows "under_lock key token m' v"
proof -
  have "under_lock key token (m\<lparr>core := snd (pexpire key (FNum ttl) (core m)), changes := changes m + 1\<rparr>) v"
    using assms(2) pexpire_values[OF _ assms(3), of "core m" key] by (simp add: under_lock_def owned_def)
  then show ?thesis using under_lock_others[OF assms(1)] assms(4) by (auto simp: awaited_def writing_app)
qed

lemma copy_step:
  assumes "keeps_lock others key token" "under_lock key token m v" "copyRoomTtl others key room m = (r, m')"
  shows "under_lock key token m' v"
  using assms(3) pttl_step[OF assms(1,2)] pexpire_step[OF assms(1)]
  by (fastforce simp: copyRoomTtl_def andThen_def split: sum.splits prod.splits if_splits)

lemma mutation_step:
  fixes mutation :: "'st \<Rightarrow> 'e + 'st option"
  assumes "keeps_lock others key token" "under_lock key token m v"
    and "mutation_body others c unchanged key room mutation m = (r, m')"
  shows "\<exists>v'. under_lock key token m' v' \<and> (r = Inr None \<longrightarrow> v' = v) \<and>
    (\<forall>nxt. r = Inr (Some nxt) \<longrightarrow> v' = Some (StringV (serialize c nxt)) \<and>
      (\<exists>t current. v = Some (StringV t) \<and> deserialize c t = Inr current \<and> mutation current = Inr (Some nxt) \<and> \<not> unchanged nxt current))"
proof -
  obtain x m1 where get: "awaited others Got (reading (redis_get key)) m = (x :: 'e store_error + string option, m1)" by fastforce
  have g: "under_lock key token m1 v" "x = Inr y \<Longrightarrow> v = map_option StringV y" for y
    using get_step[OF assms(1,2) get] by auto
  consider "r \<in> range Inl \<union> {Inr None}" "m' = m1"
    | t current nxt where "x = Inr (Some t)" "deserialize c t = Inr current" "mutation current = Inr (Some nxt)" "\<not> unchanged nxt current"
      "andThen (awaited others Written (writing (redis_set key (FStr (serialize c nxt)) []))) (\<lambda>_.
         andThen (copyRoomTtl others key room) (\<lambda>_. ret (Some nxt))) m1 = (r, m')"
    using assms(3) unfolding mutation_body_def andThen_def[of "awaited others Got _"] get
    by (fastforce split: sum.splits option.splits if_splits)
  then show ?thesis
  proof cases
    case 1 then show ?thesis using g(1) by auto
  next
    case 2
    obtain y m2 where set: "awaited others Written (writing (redis_set key (FStr (serialize c nxt)) [])) m1 = (y :: 'e store_error + bool, m2)"
      by fastforce
    have s: "under_lock key token m2 (Some (StringV (serialize c nxt)))" "y = Inr True"
      using set_step[OF assms(1) _ set, of "StringV t"] g 2(1) by auto
    obtain z m3 where copy: "copyRoomTtl others key room m2 = (z :: 'e store_error + unit, m3)" by fastforce
    have "under_lock key token m3 (Some (StringV (serialize c nxt)))" by (rule copy_step[OF assms(1) s(1) copy])
    moreover have "m' = m3" "r = Inr (Some nxt) \<or> r \<in> range Inl" using 2(5) set copy s(2) by (auto simp: andThen_def split: sum.splits)
    ultimately show ?thesis using 2 g(2) by auto
  qed
qed

lemma unlock_under_lock:
  assumes "under_lock key token m v"
  shows "plain (core (unlock (lockKey key) token m))" "values_of (core (unlock (lockKey key) token m)) key = v"
    "values_of (core (unlock (lockKey key) token m)) (lockKey key) = None"
  using unlock_effect[of "now (core m)" m "lockKey key" token] assms
  by (auto simp: under_lock_def plain_settled settled_def owned_def)

text \<open>
  C8: An update is applied to the latest state. While the other tasks leave the state of a room alone as long as its lock
  carries this token, a mutation that succeeds has taken the lock, and its answer is computed from the value
  the state had at that moment: either nothing was written, or the new state, which the store's version test accepts, is
  what is stored; the lock is free again.
\<close>

theorem update_builds_on_the_latest_state:
  assumes "keeps_lock others key token" "plain (core m)"
    and "mutate others c unchanged key room token mutation m = (Inr x, m')"
  shows "\<exists>m1. spin others lock_defaults (lockKey key) token (now (core m) + LOCK_WAIT_MS) 0 m = (Inr () :: 'e store_error + unit, m1) \<and>
    values_of (core m') (lockKey key) = None \<and>
    (case x of None \<Rightarrow> values_of (core m') key = values_of (core m1) key
     | Some s \<Rightarrow> \<exists>t current. values_of (core m1) key = Some (StringV t) \<and> deserialize c t = Inr current \<and>
         mutation current = (Inr (Some s) :: 'e + 'st option) \<and> \<not> unchanged s current \<and>
         values_of (core m') key = Some (StringV (serialize c s)))"
proof -
  let ?spin = "spin others lock_defaults (lockKey key) token (now (core m) + lockWaitMs lock_defaults) 0 m :: _ \<times> memory_redis"
  obtain q m1 where q: "?spin = (q :: 'e store_error + unit, m1)" by fastforce
  obtain m2 where q1: "q = Inr ()" and body: "mutation_body others c unchanged key room mutation m1 = (Inr x, m2)"
    and m': "m' = unlock (lockKey key) token m2"
    using assms(3) q by (auto simp: mutate_def withLock_def split: sum.splits prod.splits)
  have "case (q, m1) of (r, m1) \<Rightarrow> plain (core m1) \<and> (r = Inr () \<longrightarrow> owned (lockKey key) token m1)"
    unfolding q[symmetric] by (rule spin_owns[OF assms(1,2) refl safe_lock_ttl])
  then have "under_lock key token m1 (values_of (core m1) key)" using q1 by (simp add: under_lock_def)
  from mutation_step[OF assms(1) this body] obtain v' where v': "under_lock key token m2 v'" "x = None \<Longrightarrow> v' = values_of (core m1) key"
    "\<And>s. x = Some s \<Longrightarrow> v' = Some (StringV (serialize c s)) \<and> (\<exists>t current. values_of (core m1) key = Some (StringV t) \<and>
       deserialize c t = Inr current \<and> mutation current = Inr (Some s) \<and> \<not> unchanged s current)" by auto
  show ?thesis
    using unlock_under_lock[OF v'(1)] v'(2,3) q q1 m' by (auto simp: lock_defaults_def split: option.split intro!: exI[of _ m1])
qed

text \<open>What the other tasks do during a pause includes that its time passes, at most \<open>d\<close> milliseconds of it;
  they leave alone what does not run out meanwhile.\<close>

definition outlives :: "int \<Rightarrow> string \<Rightarrow> memory_redis \<Rightarrow> bool" where
  "outlives t k m = (\<forall>x. key_expiry (core m) k = Some x \<longrightarrow> t < x)"

definition keeps_pauses :: "others \<Rightarrow> int \<Rightarrow> string \<Rightarrow> string \<Rightarrow> int \<Rightarrow> bool" where
  "keeps_pauses others retry key token d = (\<forall>n m. let m' = others (Spin n) m in
     now (core m) + max 1 retry \<le> now (core m') \<and> now (core m') \<le> now (core m) + d \<and>
     (\<forall>v. under_lock key token m v \<longrightarrow> outlives (now (core m) + d) key m \<longrightarrow> outlives (now (core m) + d) (lockKey key) m \<longrightarrow>
        under_lock key token m' v \<and> key_expiry (core m') key = key_expiry (core m) key \<and>
        key_expiry (core m') (lockKey key) = key_expiry (core m) (lockKey key)))"

lemma pause_eq: "keeps_pauses others (lockRetryMs opts) key token d \<Longrightarrow> pause others n (lockRetryMs opts) m = others (Spin n) m"
  by (auto simp: keeps_pauses_def pause_def Let_def max_absorb1)

lemma outlives_mono: "outlives t k m \<Longrightarrow> t' \<le> t \<Longrightarrow> outlives t' k m"
  by (force simp: outlives_def)

lemma spin_waits:
  assumes "keeps_pauses others (lockRetryMs opts) key token d" "under_lock key token m v" "lock = lockKey key" "token' \<noteq> token"
    and "is_safe_integer (lockTtlMs opts)" "0 < lockTtlMs opts"
    and "outlives (deadline + d) key m" "outlives (deadline + d) lock m"
  shows "\<exists>m'. (spin others opts lock token' deadline n :: ('e, unit) stored) m = (Inl (Coded (ConflictError ''game_state_busy'')), m')
    \<and> under_lock key token m' v \<and> deadline \<le> now (core m')"
  using assms
proof (induction others opts lock token' deadline n m rule: spin.induct[where 'a = 'e])
  case (1 others opts lock token' deadline n m)
  let ?a = "acquire_lock lock token' (lockTtlMs opts) (core m)"
  let ?m = "m\<lparr>core := snd (live lock (core m)), changes := changes m + 1\<rparr>"
  have a: "?a = (Inr False, snd (live lock (core m)))"
    using acquire_effect[of "now (core m)" "core m" "lockTtlMs opts" lock token'] 1(3,4,6,7)
    by (auto simp: under_lock_def plain_settled owned_def)
  then have w: "(writing (acquire_lock lock token' (lockTtlMs opts)) :: ('e, bool) stored) m = (Inr False, ?m)"
    by (simp add: writing_app)
  have u: "under_lock key token ?m v" "outlives (deadline + d) key ?m" "outlives (deadline + d) lock ?m"
    using 1(3,8,9) plain_live[of "core m" lock] by (simp_all add: under_lock_def owned_def outlives_def)
  show ?case
  proof (cases "deadline \<le> now (core ?m)")
    case True
    then show ?thesis using w u by (subst spin.simps) simp
  next
    case False
    let ?p = "pause others n (lockRetryMs opts) ?m"
    have "outlives (now (core ?m) + d) key ?m" "outlives (now (core ?m) + d) (lockKey key) ?m"
      using u(2,3) False 1(4) by (auto intro: outlives_mono)
    then have p: "under_lock key token ?p v" "outlives (deadline + d) key ?p" "outlives (deadline + d) lock ?p"
      using 1(2,4) u by (auto simp: pause_eq[OF 1(2)] keeps_pauses_def Let_def outlives_def)
    from 1(1)[OF w[symmetric] refl _ False 1(2) p(1) 1(4-7) p(2,3)] show ?thesis using w False by (subst spin.simps) simp
  qed
qed

text \<open>
  A second update of the same room neither touches the state nor the lock while the lock is held by another token: it
  waits for two seconds of retries and is then refused with \<open>game_state_busy\<close>, provided that lock and state
  outlive its waiting. So the stores themselves are tasks that leave a locked state alone.
\<close>

theorem contender_waits_and_gives_up:
  fixes mutation :: "'st \<Rightarrow> 'e + 'st option"
  assumes "keeps_pauses others LOCK_RETRY_MS key token d"
    and "plain (core m)" "owned (lockKey key) token m" "token' \<noteq> token"
    and "outlives (now (core m) + LOCK_WAIT_MS + d) key m" "outlives (now (core m) + LOCK_WAIT_MS + d) (lockKey key) m"
    and "mutate others c unchanged key room token' mutation m = (r, m')"
  shows "r = Inl (Coded (ConflictError ''game_state_busy'')) \<and> now (core m) + LOCK_WAIT_MS \<le> now (core m') \<and>
    owned (lockKey key) token m' \<and> values_of (core m') key = values_of (core m) key"
proof -
  have u: "under_lock key token m (values_of (core m) key)" using assms(2,3) by (simp add: under_lock_def)
  have k: "keeps_pauses others (lockRetryMs lock_defaults) key token d" and w: "lockWaitMs lock_defaults = LOCK_WAIT_MS"
    using assms(1) by (simp_all add: lock_defaults_def)
  obtain m2 where "spin others lock_defaults (lockKey key) token' (now (core m) + lockWaitMs lock_defaults) 0 m
      = (Inl (Coded (ConflictError ''game_state_busy'')) :: 'e store_error + unit, m2)"
    "under_lock key token m2 (values_of (core m) key)" "now (core m) + lockWaitMs lock_defaults \<le> now (core m2)"
    using spin_waits[OF k u refl assms(4) safe_lock_ttl, of "now (core m) + lockWaitMs lock_defaults" 0] assms(5,6) w by auto
  then show ?thesis using assms(7) w by (simp add: mutate_def withLock_def under_lock_def)
qed

text \<open>A counter kept under the key \<open>k\<close>, alone and with a clock that moves on during the pauses.\<close>

definition number_codec :: "int codec" where
  "number_codec = \<lparr>serialize = string_of_int,
     deserialize = (\<lambda>t. case int_of_string t of None \<Rightarrow> Inl (ConflictError ''no_number'') | Some i \<Rightarrow> Inr i)\<rparr>"

definition alone :: others where "alone p m = m"

definition ticking :: others where "ticking p m = m\<lparr>core := (core m)\<lparr>now := now (core m) + 10\<rparr>\<rparr>"

definition counter_store :: memory_redis where
  "counter_store = \<lparr>core = put_entry ''k'' \<lparr>e_value = StringV ''1'', expiresAt = None\<rparr> (new_keyspace 0 9), changes = 0\<rparr>"

definition locked_store :: memory_redis where
  "locked_store = \<lparr>core = put_entry ''k:lock'' \<lparr>e_value = StringV ''mine'', expiresAt = Some 5000\<rparr> (core counter_store), changes = 0\<rparr>"

definition increment :: "int \<Rightarrow> string + int option" where "increment n = Inr (Some (n + 1))"

lemma plain_stores: "plain (core counter_store)" "plain (core locked_store)"
  by (auto simp: plain_def counter_store_def locked_store_def new_keyspace_def wf_store_put wf_store_def put_entry_def)

theorem update_builds_on_the_latest_state_witness:
  "values_of (core (snd (mutate alone number_codec (\<le>) ''k'' ''room'' ''me'' increment counter_store))) ''k'' = Some (StringV ''2'')"
proof -
  have k: "keeps_lock alone ''k'' ''me''" by (simp add: keeps_lock_def alone_def)
  define s1 where "s1 = put_entry ''k:lock'' \<lparr>e_value = StringV ''me'', expiresAt = Some 5000\<rparr> (core counter_store)"
  define s2 where "s2 = put_entry ''k'' \<lparr>e_value = StringV ''2'', expiresAt = None\<rparr> s1"
  note store_defs = s1_def s2_def counter_store_def put_entry_def new_keyspace_def expired_def visible_def live_def
  have lock: "acquire_lock ''k:lock'' ''me'' 5000 (core counter_store) = (Inr True, s1)"
    by (simp add: acquire_lock_app is_safe_integer_def store_defs create_def has_key_def)
  have spin: "spin alone lock_defaults (lockKey ''k'') ''me'' d 0 counter_store = (Inr (), \<lparr>core = s1, changes = 1\<rparr>)" for d
    using lock by (subst spin.simps)
      (simp add: writing_app lockKey_def lock_defaults_def LOCK_TTL_MS_def alone_def counter_store_def)
  have get: "redis_get ''k'' s1 = (Inr (Some ''1''), s1)"
    by (simp add: redis_get_def string_at_def store_defs)
  have set: "redis_set ''k'' (FStr ''2'') [] s1 = (Inr True, s2)"
    by (simp add: redis_set_def store_defs)
  have ttl: "pttl (roomKey ''room'') s2 = (Inr (- 2), s2)"
    by (simp add: pttl_def store_defs roomKey_def ROOM_KEY_PREFIX_def)
  have texts: "int_of_string ''1'' = Some 1" "string_of_int 2 = ''2''"
    by (simp_all add: int_of_string_def digit_value_def decimal_digits_def upt_rec string_of_int_def digits_of_nat.simps)
  have "fst (mutation_body alone number_codec (\<le>) ''k'' ''room'' increment \<lparr>core = s1, changes = 1\<rparr>) = Inr (Some 2)"
    by (simp add: mutation_body_def awaited_def reading_app writing_app andThen_def get copyRoomTtl_def
        number_codec_def texts increment_def alone_def set ttl)
  then have run: "fst (mutate alone number_codec (\<le>) ''k'' ''room'' ''me'' increment counter_store) = Inr (Some 2)"
    unfolding mutate_def withLock_def spin by (simp add: prod.case_eq_if)
  from update_builds_on_the_latest_state[OF k plain_stores(1), of number_codec "(\<le>)" "''room''" increment "Some 2"] run
  show ?thesis by (auto simp: number_codec_def string_of_int_def digits_of_nat.simps decimal_digits_def prod_eq_iff)
qed

lemma ticking_keeps: "keeps_pauses ticking 10 key token 10"
proof -
  have later: "visible (s\<lparr>now := now s + 10\<rparr>) k = visible s k" if "\<forall>x. key_expiry s k = Some x \<longrightarrow> now s + 10 < x" "visible s k \<noteq> None"
    for s :: keyspace and k
    using that by (auto simp: visible_def key_expiry_def expired_def split: option.splits if_splits)
  have none: "visible (s\<lparr>now := now s + 10\<rparr>) k = None" if "visible s k = None" for s :: keyspace and k
    using that by (auto simp: visible_def expired_def split: option.splits if_splits)
  have "visible (s\<lparr>now := now s + 10\<rparr>) k = visible s k" if "\<forall>x. key_expiry s k = Some x \<longrightarrow> now s + 10 < x"
    for s :: keyspace and k using later[OF that] none by metis
  then show ?thesis
    by (auto simp: keeps_pauses_def Let_def ticking_def under_lock_def outlives_def owned_def values_of_def key_expiry_def)
qed

theorem contender_waits_and_gives_up_witness:
  "fst (mutate ticking number_codec (\<le>) ''k'' ''room'' ''other'' increment locked_store) = Inl (Coded (ConflictError ''game_state_busy''))"
proof -
  have k: "keeps_pauses ticking LOCK_RETRY_MS ''k'' ''mine'' 10" using ticking_keeps by (simp add: LOCK_RETRY_MS_def)
  have owned: "owned (lockKey ''k'') ''mine'' locked_store"
    and life: "outlives (now (core locked_store) + LOCK_WAIT_MS + 10) ''k'' locked_store"
      "outlives (now (core locked_store) + LOCK_WAIT_MS + 10) (lockKey ''k'') locked_store"
    by (auto simp: owned_def outlives_def values_of_def key_expiry_def visible_def locked_store_def counter_store_def put_entry_def
        new_keyspace_def lockKey_def expired_def LOCK_WAIT_MS_def)
  show ?thesis
    by (rule contender_waits_and_gives_up[OF k plain_stores(2) owned _ life prod.collapse[symmetric], THEN conjunct1]) simp
qed

end
