(* ===== verification/RoundStoreRefinement.thy ===== *)
theory RoundStoreRefinement
  imports StateStoreTheorems
begin

text \<open>
  The store of the dice rounds over the in-process Redis (\<open>yacht/redisYachtDiceStateStore.ts\<close>) implements the
  in-memory store (\<open>round/roundStateStoreInMemory.ts\<close>), which is its specification: operation by operation the
  same answer, and the stored texts keep standing for the in-memory states. The only other outcome is that
  the store is full.
\<close>

section \<open>The abstraction\<close>

text \<open>\<open>h\<close> is the room whose lock is held, with the token.\<close>

definition holds :: "round_store \<Rightarrow> (string \<times> string) option \<Rightarrow> int \<Rightarrow> memory_redis \<Rightarrow> bool" where
  "holds st h t m = (settled t (core m) \<and>
     (\<forall>k x. key_expiry (core m) k = Some x \<longrightarrow> is_safe_integer (x - t)) \<and>
     (\<forall>room. values_of (core m) (yachtKey room) = map_option (\<lambda>s. StringV (serializeState s)) (map_of st room)) \<and>
     (\<forall>room. values_of (core m) (lockKey (yachtKey room)) =
        (case h of None \<Rightarrow> None | Some (r, token) \<Rightarrow> if r = room then Some (StringV token) else None)) \<and>
     (\<forall>room s. map_of st room = Some s \<longrightarrow> round_ok s))"

lemma yachtKey_inject [simp]: "yachtKey room = yachtKey room' \<longleftrightarrow> room = room'"
  by (simp add: yachtKey_def gameStateKey_def roomKey_def)

lemma lockKey_inject [simp]: "lockKey k = lockKey k' \<longleftrightarrow> k = k'"
  by (simp add: lockKey_def)

lemma yacht_not_lock [simp]: "yachtKey room \<noteq> lockKey k" "lockKey k \<noteq> yachtKey room"
proof -
  have "last (yachtKey room) \<noteq> last (lockKey k)" by (simp add: yachtKey_def gameStateKey_def lockKey_def)
  then show "yachtKey room \<noteq> lockKey k" "lockKey k \<noteq> yachtKey room" by metis+
qed

lemma plain_snapshot: assumes "round_ok s" shows "plain_json (toStateSnapshot s)"
proof -
  have "wf_map (map (\<lambda>(p, sub). (p, submission_json sub)) (submissions s))"
    using assms by (simp add: round_ok_def played_ok_def comp_def case_prod_beta)
  moreover have "plain_json (submission_json sub)" for sub by (simp add: submission_json_def)
  ultimately show ?thesis
    by (cases "activeDice s"; cases "activeHeld s") (auto simp: toStateSnapshot_def optional_json_def)
qed

lemma stored_state_reads_back: "round_ok s \<Longrightarrow> deserializeStateOrFail (serializeState s) = Inr s"
  by (simp add: deserializeStateOrFail_def serializeState_def parse_stringify plain_snapshot state_reads_back)

section \<open>The steps of an operation\<close>

lemma holds_settled: "holds st h t m \<Longrightarrow> settled t (core m)"
  by (simp add: holds_def)

text \<open>A step that changes no value and only adds safe expiries keeps the abstraction.\<close>

lemma holds_same:
  assumes "holds st h t m" "settled t s'" "values_of s' = values_of (core m)"
    and "\<And>k x. key_expiry s' k = Some x \<Longrightarrow> key_expiry (core m) k = Some x \<or> is_safe_integer (x - t)"
  shows "holds st h t (m\<lparr>core := s'\<rparr>)" "holds st h t (m\<lparr>core := s', changes := n\<rparr>)"
  using assms by (auto simp: holds_def)

lemma holds_live: "holds st h t m \<Longrightarrow> holds st h t (m\<lparr>core := snd (live k (core m))\<rparr>)"
  by (rule holds_same(1)) (auto intro: settled.live[OF holds_settled])

lemma get_holds:
  assumes "holds st h t m"
  shows "\<exists>m1. awaited alone Got (reading (redis_get (yachtKey room))) m
      = (Inr (map_option serializeState (map_of st room)), m1) \<and> holds st h t m1"
proof -
  have v: "values_of (core m) (yachtKey room) = map_option (\<lambda>s. StringV (serializeState s)) (map_of st room)"
    using assms by (simp add: holds_def)
  then have "redis_get (yachtKey room) (core m) = (Inr (map_option serializeState (map_of st room)), snd (live (yachtKey room) (core m)))"
    using get_effect[OF holds_settled[OF assms], of "yachtKey room" "serializeState (the (map_of st room))"]
    by (cases "map_of st room") auto
  then show ?thesis using holds_live[OF assms] by (simp add: awaited_def reading_app alone_def)
qed

lemma set_holds:
  assumes "holds st h t m" "map_of st room = Some s" "round_ok s'"
  shows "\<exists>m1. awaited alone Written (writing (redis_set (yachtKey room) (FStr (serializeState s')) [])) m = (Inr True, m1)
    \<and> holds (AList.update room s' st) h t m1"
proof -
  have "values_of (core m) (yachtKey room) \<noteq> None" using assms(1,2) by (simp add: holds_def)
  then obtain s1 where s1: "redis_set (yachtKey room) (FStr (serializeState s')) [] (core m) = (Inr True, s1)" "settled t s1"
    "values_of s1 = (values_of (core m))(yachtKey room \<mapsto> StringV (serializeState s'))"
    "key_expiry s1 = (key_expiry (core m))(yachtKey room := None)"
    using overwrite_effect[OF holds_settled[OF assms(1)]] by blast
  then have "holds (AList.update room s' st) h t (m\<lparr>core := s1, changes := changes m + 1\<rparr>)"
    using assms(1,3) by (auto simp: holds_def split: if_splits)
  then show ?thesis using s1(1) by (simp add: awaited_def writing_app alone_def)
qed

lemma copy_holds:
  assumes "holds st h t m"
  shows "\<exists>m1. copyRoomTtl alone (yachtKey room) room m = (Inr (), m1) \<and> holds st h t m1"
proof -
  let ?k = "roomKey room" let ?s = "snd (live (roomKey room) (core m))"
  define ttl where "ttl = (if values_of (core m) ?k = None then - 2 else case key_expiry (core m) ?k of None \<Rightarrow> - 1 | Some x \<Rightarrow> x - t)"
  have p: "pttl ?k (core m) = (Inr ttl, ?s)" using pttl_effect[OF holds_settled[OF assms]] by (simp add: ttl_def)
  have h: "holds st h t (m\<lparr>core := ?s\<rparr>)" by (rule holds_live[OF assms])
  have safe: "0 < ttl \<Longrightarrow> is_safe_integer ttl"
    using assms by (auto simp: ttl_def holds_def split: if_splits option.splits)
  show ?thesis
  proof (cases "0 < ttl")
    case False
    then show ?thesis using p h by (simp add: copyRoomTtl_def awaited_def reading_app alone_def andThen_app)
  next
    case True
    obtain r s1 where s1: "pexpire (yachtKey room) (FNum ttl) ?s = (Inr r, s1)" "settled t s1" "values_of s1 = values_of ?s"
      "key_expiry s1 = (if values_of ?s (yachtKey room) = None then key_expiry ?s else (key_expiry ?s)(yachtKey room \<mapsto> t + ttl))"
      using pexpire_effect[OF settled.live[OF holds_settled[OF assms]] True safe[OF True]] by blast
    have "holds st h t (m\<lparr>core := s1, changes := changes m + 1\<rparr>)"
      by (rule holds_same(2)[OF assms]) (use s1 safe[OF True] in \<open>auto split: if_splits\<close>)
    then show ?thesis using p s1(1) True by (simp add: copyRoomTtl_def awaited_def reading_app writing_app alone_def andThen_app)
  qed
qed

lemma unlock_holds: "holds st (Some (room, token)) t m \<Longrightarrow> holds st None t (unlock (lockKey (yachtKey room)) token m)"
  using unlock_effect[of t m "lockKey (yachtKey room)" token] by (auto simp: holds_def split: if_splits)

lemma unlock_holds_free: "holds st None t m \<Longrightarrow> holds st None t (unlock (lockKey (yachtKey room)) token m)"
  using unlock_effect[of t m "lockKey (yachtKey room)" token] by (auto simp: holds_def split: if_splits)

definition lock_ok :: "lock_options \<Rightarrow> bool" where
  "lock_ok opts = (is_safe_integer (lockTtlMs opts) \<and> 0 < lockTtlMs opts)"

lemma spin_holds:
  assumes "holds st None t m" "lock_ok opts"
  shows "\<exists>m1. (spin alone opts (lockKey (yachtKey room)) token d 0 m = (Inl (RedisFault OOM_MESSAGE), m1) \<and> holds st None t m1)
    \<or> (spin alone opts (lockKey (yachtKey room)) token d 0 m = (Inr (), m1) \<and> holds st (Some (room, token)) t m1)"
proof -
  let ?lock = "lockKey (yachtKey room)"
  have free: "values_of (core m) ?lock = None" using assms(1) by (simp add: holds_def)
  obtain s' where s': "settled t s'"
    "acquire_lock ?lock token (lockTtlMs opts) (core m) = (Inl OOM_MESSAGE, s') \<and> values_of s' = values_of (core m) \<and> key_expiry s' = key_expiry (core m)
     \<or> acquire_lock ?lock token (lockTtlMs opts) (core m) = (Inr True, s') \<and> values_of s' = (values_of (core m))(?lock \<mapsto> StringV token)
       \<and> key_expiry s' = (key_expiry (core m))(?lock \<mapsto> t + lockTtlMs opts)"
    using acquire_effect[OF holds_settled[OF assms(1)], of "lockTtlMs opts" ?lock token] assms(2) free by (auto simp: lock_ok_def)
  let ?m = "m\<lparr>core := s', changes := changes m + 1\<rparr>"
  from s'(2) show ?thesis
  proof
    assume a: "acquire_lock ?lock token (lockTtlMs opts) (core m) = (Inl OOM_MESSAGE, s') \<and> values_of s' = values_of (core m) \<and> key_expiry s' = key_expiry (core m)"
    then have "holds st None t ?m" using assms(1) s'(1) by (intro holds_same(2)) auto
    then show ?thesis using a by (subst spin.simps, subst spin.simps) (simp add: writing_app)
  next
    assume a: "acquire_lock ?lock token (lockTtlMs opts) (core m) = (Inr True, s') \<and> values_of s' = (values_of (core m))(?lock \<mapsto> StringV token)
       \<and> key_expiry s' = (key_expiry (core m))(?lock \<mapsto> t + lockTtlMs opts)"
    then have "holds st (Some (room, token)) t ?m" using assms s'(1) by (auto simp: holds_def lock_ok_def)
    then show ?thesis using a by (subst spin.simps, subst spin.simps) (simp add: writing_app alone_def)
  qed
qed

section \<open>Operations under the lock\<close>

text \<open>\<open>P\<close> says what the mutation of the state can answer.\<close>

definition answers :: "round_store \<Rightarrow> string \<Rightarrow> int \<Rightarrow> memory_redis \<Rightarrow>
    ('e round_error store_error + (round_state \<times> 'a) option) option \<Rightarrow> ('e round_error store_error + 'a option) \<Rightarrow> bool" where
  "answers st room t m q r = (case q of None \<Rightarrow> r = Inr None \<and> holds st None t m
     | Some (Inl e) \<Rightarrow> r = Inl e \<and> holds st None t m
     | Some (Inr None) \<Rightarrow> r = Inr None \<and> holds st None t m
     | Some (Inr (Some (s, x))) \<Rightarrow> r = Inr (Some x) \<and> holds (AList.update room s st) None t m)"

lemma mutateOptional_holds:
  fixes mutation :: "round_state \<Rightarrow> ('e, (round_state \<times> 'a) option) on_yacht"
  assumes "holds st None t m" "lock_ok opts" "\<not> blank room"
    and "\<And>current m1. map_of st room = Some current \<Longrightarrow> holds st (Some (room, token)) t m1 \<Longrightarrow>
      \<exists>q m2. mutation current m1 = (q, m2) \<and> holds st (Some (room, token)) t m2 \<and> P m1 current q \<and>
        (\<forall>s x. q = Inr (Some (s, x)) \<longrightarrow> round_ok s)"
    and "mutateOptional alone opts room token mutation m = (r, m')"
  shows "(r = Inl (RedisFault OOM_MESSAGE) \<and> holds st None t m')
    \<or> (map_of st room = None \<and> answers st room t m' None r)
    \<or> (\<exists>current q m1. map_of st room = Some current \<and> holds st (Some (room, token)) t m1 \<and> P m1 current q \<and> answers st room t m' (Some q) r)"
proof -
  let ?key = "yachtKey room" let ?h = "Some (room, token)"
  let ?spin = "spin alone opts (lockKey ?key) token (now (core m) + lockWaitMs opts) 0 :: ('e, unit) on_yacht"
  have run: "(r, m') = (case andThen ?spin (\<lambda>_. andThen (awaited alone Got (reading (redis_get ?key))) (\<lambda>stored. case stored of None \<Rightarrow> ret None
      | Some t \<Rightarrow> (case deserializeStateOrFail t of Inl e \<Rightarrow> throw (Coded e)
        | Inr current \<Rightarrow> andThen (awaited alone Mutated (mutation current)) (\<lambda>change. case change of None \<Rightarrow> ret None
          | Some (s, result) \<Rightarrow> andThen (awaited alone Written (writing (redis_set ?key (FStr (serializeState s)) []))) (\<lambda>_.
              andThen (copyRoomTtl alone ?key room) (\<lambda>_. ret (Some result))))))) m of (r, m') \<Rightarrow> (r, unlock (lockKey ?key) token m'))"
    using assms(3,5) by (simp add: mutateOptional_def validateRoomId_def room_lock_def)
  obtain m1 where "(?spin m = (Inl (RedisFault OOM_MESSAGE), m1) \<and> holds st None t m1) \<or> (?spin m = (Inr (), m1) \<and> holds st ?h t m1)"
    using spin_holds[OF assms(1,2)] by blast
  then show ?thesis
  proof
    assume a: "?spin m = (Inl (RedisFault OOM_MESSAGE), m1) \<and> holds st None t m1"
    then show ?thesis using run unlock_holds_free[of st t m1 room token] by simp
  next
    assume a: "?spin m = (Inr (), m1) \<and> holds st ?h t m1"
    then obtain m2 where g: "(awaited alone Got (reading (redis_get ?key)) :: ('e, string option) on_yacht) m1
        = (Inr (map_option serializeState (map_of st room)), m2)" "holds st ?h t m2"
      using get_holds by blast
    show ?thesis
    proof (cases "map_of st room")
      case None
      then show ?thesis using run a g unlock_holds[OF g(2)] by (simp add: answers_def)
    next
      case (Some current)
      have dec: "deserializeStateOrFail (serializeState current) = Inr current"
        using g(2) Some by (auto simp: holds_def stored_state_reads_back)
      obtain q m3 where q: "mutation current m2 = (q, m3)" "holds st ?h t m3" "P m2 current q" "\<And>s x. q = Inr (Some (s, x)) \<Longrightarrow> round_ok s"
        using assms(4)[OF Some g(2)] by blast
      have mut: "awaited alone Mutated (mutation current) m2 = (q, m3)" using q(1) by (simp add: awaited_def alone_def)
      have "answers st room t m' (Some q) r"
      proof (cases "\<exists>s x. q = Inr (Some (s, x))")
        case False
        then show ?thesis using run a g Some dec mut unlock_holds[OF q(2)]
          by (cases q) (auto simp: answers_def split: option.split)
      next
        case True
        then obtain s x where sx: "q = Inr (Some (s, x))" by blast
        obtain m4 where m4: "(awaited alone Written (writing (redis_set ?key (FStr (serializeState s)) [])) :: ('e, bool) on_yacht) m3
            = (Inr True, m4)" "holds (AList.update room s st) ?h t m4"
          using set_holds[OF q(2) Some q(4)[OF sx]] by blast
        obtain m5 where m5: "(copyRoomTtl alone ?key room :: ('e, unit) on_yacht) m4 = (Inr (), m5)" "holds (AList.update room s st) ?h t m5"
          using copy_holds[OF m4(2)] by blast
        show ?thesis using run a g Some dec mut sx m4(1) m5(1) unlock_holds[OF m5(2)] by (simp add: answers_def)
      qed
      then show ?thesis using Some g(2) q(3) by blast
    qed
  qed
qed

section \<open>The calls of both stores\<close>

datatype round_call =
    InitializeCall string round_state
  | SubmitCall string round_submission
  | RollCall string round_roll
  | HoldCall string string int "bool list"
  | AutoRollCall string int string "int list"
  | ExpireCall string int string
  | RemovePlayerCall string string
  | FindCall string
  | RemoveCall string

datatype round_answer = NoAnswer | StateAnswer round_state | MaybeState "round_state option"
  | ResultAnswer round_result | MaybeResult "round_result option" | FlagAnswer bool

definition answer :: "('a \<Rightarrow> 'b) \<Rightarrow> ('s, 'e, 'a) cmd \<Rightarrow> ('s, 'e, 'b) cmd" where
  "answer f call = (\<lambda>s. case call s of (r, s') \<Rightarrow> (map_sum id f r, s'))"

text \<open>The specification; \<open>a\<close> is what \<open>beforeStateChange\<close> answers.\<close>

fun memory_call :: "'e + unit \<Rightarrow> round_call \<Rightarrow> ('e, round_answer) on_rounds" where
  "memory_call a (InitializeCall room s) = answer (\<lambda>_. NoAnswer) (initialize_round room s)"
| "memory_call a (SubmitCall room sub) = (\<lambda>st. case submitAtomically room sub (\<lambda>w. (a, w)) (st, ()) of
     (r, (st', _)) \<Rightarrow> (map_sum id ResultAnswer r, st'))"
| "memory_call a (RollCall room roll) = answer StateAnswer (recordRollAtomically room roll)"
| "memory_call a (HoldCall room p n held) = answer StateAnswer (recordHoldAtomically room p n held)"
| "memory_call a (AutoRollCall room n p rolled) = answer MaybeState (autoRollAtomically room n p rolled)"
| "memory_call a (ExpireCall room n p) = answer MaybeResult (expireAtomically room n p)"
| "memory_call a (RemovePlayerCall room p) = answer MaybeState (removeParticipantAtomically room p)"
| "memory_call a (FindCall room) = answer MaybeState (findByRoomId room)"
| "memory_call a (RemoveCall room) = answer FlagAnswer (remove_round room)"

fun redis_call :: "lock_options \<Rightarrow> string \<Rightarrow> (memory_redis, 'e, unit) cmd \<Rightarrow> round_call \<Rightarrow> ('e, round_answer) on_yacht" where
  "redis_call opts token cb (InitializeCall room s) = answer (\<lambda>_. NoAnswer) (yacht_initialize alone room s)"
| "redis_call opts token cb (SubmitCall room sub) = answer ResultAnswer (yacht_submitAtomically alone opts room token sub cb)"
| "redis_call opts token cb (RollCall room roll) = answer StateAnswer (yacht_recordRollAtomically alone opts room token roll)"
| "redis_call opts token cb (HoldCall room p n held) = answer StateAnswer (yacht_recordHoldAtomically alone opts room token p n held)"
| "redis_call opts token cb (AutoRollCall room n p rolled) = answer MaybeState (yacht_autoRollAtomically alone opts room token n p rolled)"
| "redis_call opts token cb (ExpireCall room n p) = answer MaybeResult (yacht_expireAtomically alone opts room token n p)"
| "redis_call opts token cb (RemovePlayerCall room p) = answer MaybeState (yacht_removeParticipantAtomically alone opts room token p)"
| "redis_call opts token cb (FindCall room) = answer MaybeState (yacht_findByRoomId room)"
| "redis_call opts token cb (RemoveCall room) = answer FlagAnswer (yacht_remove room)"

text \<open>What is put into the store is a valid state, and a submission has passed its constructor.\<close>

fun call_valid :: "round_call \<Rightarrow> bool" where
  "call_valid (InitializeCall room s) = round_ok s"
| "call_valid (SubmitCall room sub) = valid_submission (rs_roundNumber sub) (rs_playerId sub, sub)"
| "call_valid _ = True"

text \<open>One call: the store is full, or both stores answer alike and stay related. \<open>m1\<close> is the store the callback saw.\<close>

definition simulated :: "round_store \<Rightarrow> int \<Rightarrow> (memory_redis, 'e, unit) cmd \<Rightarrow> ('e + unit \<Rightarrow> ('e, 'a) on_rounds) \<Rightarrow>
    'e round_error store_error + 'a \<Rightarrow> memory_redis \<Rightarrow> bool" where
  "simulated st t cb spec r m' = ((r = Inl (RedisFault OOM_MESSAGE) \<and> holds st None t m') \<or>
     (\<exists>m1 h. holds st h t m1 \<and> (case spec (fst (cb m1)) st of (r', st') \<Rightarrow> r = map_sum Mutation id r' \<and> holds st' None t m')))"

lemma simulated_answer:
  "simulated st t cb spec r m' \<Longrightarrow> simulated st t cb (\<lambda>a. answer f (spec a)) (map_sum id f r) m'"
  by (auto simp: simulated_def answer_def prod.case_eq_if sum.map_comp comp_def intro: sum.map_cong)

lemma simulated_I:
  "holds st h t m1 \<Longrightarrow> spec (fst (cb m1)) st = (r', st') \<Longrightarrow> r = map_sum Mutation id r' \<Longrightarrow> holds st' None t m' \<Longrightarrow>
     simulated st t cb spec r m'"
  by (auto simp: simulated_def)

text \<open>The specification of an operation that may find no state (\<open>mutateOptional\<close>), with a mutation \<open>f\<close> of the state.\<close>

definition optional_spec :: "string \<Rightarrow> (round_state \<Rightarrow> round_reason + (round_state \<times> 'a) option) \<Rightarrow> ('e, 'a option) on_rounds" where
  "optional_spec room f st = (if blank room then (Inl BlankRoomId, st) else case map_of st room of None \<Rightarrow> (Inr None, st)
     | Some cur \<Rightarrow> (case f cur of Inl e \<Rightarrow> (Inl (Sync e), st) | Inr None \<Rightarrow> (Inr None, st)
        | Inr (Some (s, x)) \<Rightarrow> (Inr (Some x), AList.update room s st)))"

lemma answers_simulated:
  fixes cb :: "(memory_redis, 'e, unit) cmd"
  assumes "holds st h t m" "\<not> blank room"
    and "answers st room t m' (map_option (\<lambda>cur. map_sum (\<lambda>e. Mutation (Sync e)) id (f cur)) (map_of st room)) r"
  shows "simulated st t cb (\<lambda>_. optional_spec room f) r m'"
proof -
  have "case optional_spec room f st of (r', st') \<Rightarrow> r = map_sum Mutation id r' \<and> holds st' None t m'"
    using assms(2,3) by (auto simp: optional_spec_def answers_def split: option.splits sum.splits)
  then show ?thesis using assms(1) by (auto simp: simulated_def prod.case_eq_if)
qed

lemma optional_simulated:
  fixes f :: "round_state \<Rightarrow> round_reason + (round_state \<times> 'a) option" and cb :: "(memory_redis, 'e, unit) cmd"
  assumes "holds st None t m" "lock_ok opts"
    and "\<And>cur m1. mutation cur m1 = (map_sum (\<lambda>e. Mutation (Sync e)) id (f cur), m1)"
    and "\<And>cur s x. round_ok cur \<Longrightarrow> f cur = Inr (Some (s, x)) \<Longrightarrow> round_ok s"
    and "mutateOptional alone opts room token mutation m = (r, m')"
  shows "simulated st t cb (\<lambda>_. optional_spec room f) r m'"
proof (cases "blank room")
  case True
  then have r: "r = Inl (Mutation BlankRoomId)" "m' = m" using assms(5) by (simp_all add: mutateOptional_def validateRoomId_def)
  show ?thesis by (rule simulated_I[OF assms(1)], simp add: optional_spec_def True) (simp_all add: r assms(1))
next
  case False
  have ok: "map_of st room = Some cur \<Longrightarrow> round_ok cur" for cur using assms(1) by (auto simp: holds_def)
  have step: "\<exists>q m2. mutation cur m1 = (q, m2) \<and> holds st (Some (room, token)) t m2 \<and> q = map_sum (\<lambda>e. Mutation (Sync e)) id (f cur) \<and>
      (\<forall>s x. q = Inr (Some (s, x)) \<longrightarrow> round_ok s)"
    if "map_of st room = Some cur" "holds st (Some (room, token)) t m1" for cur m1
  proof (intro exI conjI)
    show "mutation cur m1 = (map_sum (\<lambda>e. Mutation (Sync e)) id (f cur), m1)" by (rule assms(3))
    show "\<forall>s x. map_sum (\<lambda>e. Mutation (Sync e)) id (f cur) = Inr (Some (s, x)) \<longrightarrow> round_ok s"
      using assms(4)[OF ok[OF that(1)]] by (cases "f cur") auto
  qed (rule that(2), rule refl)
  let ?P = "\<lambda>_ cur q. q = map_sum (\<lambda>e. Mutation (Sync e)) id (f cur)"
  have "(r = Inl (RedisFault OOM_MESSAGE) \<and> holds st None t m') \<or> (map_of st room = None \<and> answers st room t m' None r) \<or>
    (\<exists>cur q m1. map_of st room = Some cur \<and> holds st (Some (room, token)) t m1 \<and> ?P m1 cur q \<and> answers st room t m' (Some q) r)"
    by (rule mutateOptional_holds[where P = ?P, OF assms(1,2) False _ assms(5)]) (rule step)
  then show ?thesis
  proof (elim disjE exE conjE)
    assume "r = Inl (RedisFault OOM_MESSAGE)" "holds st None t m'"
    then show ?thesis by (simp add: simulated_def)
  qed (rule answers_simulated[OF assms(1) False], simp)+
qed

definition required_spec :: "string \<Rightarrow> (round_state \<Rightarrow> round_reason + (round_state \<times> 'a)) \<Rightarrow> ('e, 'a) on_rounds" where
  "required_spec room f st = (if blank room then (Inl BlankRoomId, st) else case map_of st room of
     None \<Rightarrow> (Inl (Sync ROUND_NOT_INITIALIZED), st)
   | Some cur \<Rightarrow> (case f cur of Inl e \<Rightarrow> (Inl (Sync e), st) | Inr (s, x) \<Rightarrow> (Inr x, AList.update room s st)))"

lemma required_simulated:
  fixes f :: "round_state \<Rightarrow> round_reason + (round_state \<times> 'a)" and cb :: "(memory_redis, 'e, unit) cmd"
  assumes "holds st None t m" "lock_ok opts"
    and "\<And>cur m1. mutation cur m1 = (map_sum (\<lambda>e. Mutation (Sync e)) Some (f cur), m1)"
    and "\<And>cur s x. round_ok cur \<Longrightarrow> f cur = Inr (s, x) \<Longrightarrow> round_ok s"
    and "mutateRequired alone opts room token mutation m = (r, m')"
  shows "simulated st t cb (\<lambda>_. required_spec room f) r m'"
proof -
  obtain r1 where r1: "mutateOptional alone opts room token mutation m = (r1, m')"
    and r: "r = (case r1 of Inl e \<Rightarrow> Inl e | Inr None \<Rightarrow> Inl (Mutation (Sync ROUND_NOT_INITIALIZED)) | Inr (Some x) \<Rightarrow> Inr x)"
    using assms(5) by (auto simp: mutateRequired_def andThen_def split: prod.splits sum.splits option.splits)
  have "simulated st t cb (\<lambda>_. optional_spec room (\<lambda>cur. map_sum id Some (f cur))) r1 m'"
  proof (rule optional_simulated[OF assms(1,2) _ _ r1])
    show "mutation cur m1 = (map_sum (\<lambda>e. Mutation (Sync e)) id (map_sum id Some (f cur)), m1)" for cur m1
      by (simp add: assms(3) sum.map_comp comp_def)
    show "map_sum id Some (f cur) = Inr (Some (s, x)) \<Longrightarrow> round_ok cur \<Longrightarrow> round_ok s" for cur s x
      using assms(4)[of cur s x] by (cases "f cur") auto
  qed
  then show ?thesis
    by (auto simp: simulated_def r optional_spec_def required_spec_def split: option.splits sum.splits if_splits prod.splits)
qed

lemmas memory_defs = required_def optional_def require_room_def sync_def put_round_def andThen_app

lemma memory_specs:
  "recordRollAtomically room roll st = required_spec room (\<lambda>cur. map_sum id (\<lambda>s. (s, s)) (recordRoll cur roll)) st"
  "recordHoldAtomically room p n held st = required_spec room (\<lambda>cur. map_sum id (\<lambda>s. (s, s)) (recordHold cur p n held)) st"
  "autoRollAtomically room n p rolled st = optional_spec room (\<lambda>cur. case isStaleTurn cur n p of Inl e \<Rightarrow> Inl e
     | Inr stale \<Rightarrow> if stale \<or> \<not> hasRollsLeft cur then Inr None else map_sum id (\<lambda>s. Some (s, s)) (autoRoll cur rolled)) st"
  "expireAtomically room n p st = optional_spec room (\<lambda>cur. case isStaleTurn cur n p of Inl e \<Rightarrow> Inl e
     | Inr stale \<Rightarrow> if stale then Inr None else map_sum id (\<lambda>result. Some (fst result, result)) (expire_round cur)) st"
  "removeParticipantAtomically room p st = optional_spec room (\<lambda>cur. map_sum id (\<lambda>s. Some (s, s)) (withoutParticipant cur p)) st"
  by (auto simp: recordRollAtomically_def recordHoldAtomically_def autoRollAtomically_def expireAtomically_def
      removeParticipantAtomically_def memory_defs required_spec_def optional_spec_def split: option.split sum.split)

lemma stale_same: "yacht_isStaleTurn = isStaleTurn"
  by (intro ext) (simp add: yacht_isStaleTurn_def isStaleTurn_def)

lemma checked_app: "checked r m = (map_sum (\<lambda>e. Mutation (Sync e)) id r, m)"
  by (simp add: checked_def split: sum.split)

text \<open>The rules keep the states valid.\<close>

lemma next_states_ok:
  "round_ok cur \<Longrightarrow> recordRoll cur roll = Inr s \<Longrightarrow> round_ok s"
  "round_ok cur \<Longrightarrow> recordHold cur p n held = Inr s \<Longrightarrow> round_ok s"
  "round_ok cur \<Longrightarrow> autoRoll cur rolled = Inr s \<Longrightarrow> round_ok s"
  "round_ok cur \<Longrightarrow> expire_round cur = Inr result \<Longrightarrow> round_ok (fst result)"
  "round_ok cur \<Longrightarrow> withoutParticipant cur p = Inr s \<Longrightarrow> round_ok s"
  using round_step_ok[of cur "Roll roll" s] round_step_ok[of cur "Hold p n held" s] round_step_ok[of cur "Auto rolled" s]
    round_step_ok[of cur "Leave p" s] round_expire_ok[of cur "fst result" "snd result"] by auto

lemma set_nx_effect:
  assumes "settled t s"
  shows "(values_of s k \<noteq> None \<and> redis_set k (FStr v) [FStr ''NX''] s = (Inr False, snd (live k s)))
   \<or> (values_of s k = None \<and> (\<exists>s'. settled t s' \<and> key_expiry s' = key_expiry s \<and>
      (redis_set k (FStr v) [FStr ''NX''] s = (Inl OOM_MESSAGE, s') \<and> values_of s' = values_of s
      \<or> redis_set k (FStr v) [FStr ''NX''] s = (Inr True, s') \<and> values_of s' = (values_of s)(k \<mapsto> StringV v))))"
proof (cases "visible s k")
  case None
  let ?s1 = "snd (live k s)"
  have none: "values_of s k = None" "key_expiry s k = None" using None by (simp_all add: values_of_def key_expiry_def)
  have s1: "settled t ?s1" using assms by (rule settled.live)
  have st: "settled t (snd (redis_set k (FStr v) [FStr ''NX''] s))" using assms by (rule settled.redis_set)
  have a: "redis_set k (FStr v) [FStr ''NX''] s = andThen (create k \<lparr>e_value = StringV v, expiresAt = None\<rparr>) (\<lambda>_. ret True) ?s1"
    using None by (simp add: redis_set_def upper_char_def Let_def)
  from create_effect[OF s1, of "StringV v" k None]
  consider "create k \<lparr>e_value = StringV v, expiresAt = None\<rparr> ?s1 = (Inl OOM_MESSAGE, snd (sweepExpired ?s1))"
    | s2 where "create k \<lparr>e_value = StringV v, expiresAt = None\<rparr> ?s1 = (Inr (), put_entry k \<lparr>e_value = StringV v, expiresAt = None\<rparr> s2)"
      "visible s2 = visible ?s1" by auto
  then show ?thesis
  proof cases
    case 1
    then have "redis_set k (FStr v) [FStr ''NX''] s = (Inl OOM_MESSAGE, snd (sweepExpired ?s1))" by (simp add: a)
    then show ?thesis using none(1) s1 st by (auto simp: settled_def sweep_values)
  next
    case 2
    have v: "values_of s2 = values_of s" "key_expiry s2 = key_expiry s"
      using 2(2) by (simp_all add: values_of_def key_expiry_def fun_eq_iff)
    have "redis_set k (FStr v) [FStr ''NX''] s = (Inr True, put_entry k \<lparr>e_value = StringV v, expiresAt = None\<rparr> s2)"
      using 2(1) by (simp add: a)
    moreover have "(key_expiry s)(k := None) = key_expiry s" using none(2) by auto
    ultimately show ?thesis using none(1) st v by (auto simp: values_frame expiry_frame)
  qed
qed (auto simp: redis_set_def upper_char_def Let_def values_of_def)

section \<open>Each call\<close>

lemma answer_pair: "answer f call m = (r, m') \<Longrightarrow> \<exists>r1. call m = (r1, m') \<and> r = map_sum id f r1"
  by (auto simp: answer_def split: prod.splits)

lemma answer_simulated:
  assumes "answer f call m = (r, m')" "\<And>r1. call m = (r1, m') \<Longrightarrow> simulated st t cb spec r1 m'"
  shows "simulated st t cb (\<lambda>a. answer f (spec a)) r m'"
  using answer_pair[OF assms(1)] assms(2) simulated_answer by blast

lemma spec_cong: "(\<And>a. spec a st = spec' a st) \<Longrightarrow> simulated st t cb spec' r m' \<Longrightarrow> simulated st t cb spec r m'"
  by (simp add: simulated_def)

definition spares :: "(memory_redis, 'e, unit) cmd \<Rightarrow> bool" where
  "spares cb = (\<forall>st h t m. holds st h t m \<longrightarrow> holds st h t (snd (cb m)))"

lemma submit_simulated:
  fixes cb :: "(memory_redis, 'e, unit) cmd"
  assumes "holds st None t m" "lock_ok opts" "spares cb" "valid_submission (rs_roundNumber sub) (rs_playerId sub, sub)"
    and "yacht_submitAtomically alone opts room token sub cb m = (r, m')"
  shows "simulated st t cb (\<lambda>a st. case submitAtomically room sub (\<lambda>w. (a, w)) (st, ()) of (r, (st', _)) \<Rightarrow> (r, st')) r m'"
proof (cases "blank room")
  case True
  then have r: "r = Inl (Mutation BlankRoomId)" "m' = m"
    using assms(5) by (simp_all add: yacht_submitAtomically_def mutateRequired_def mutateOptional_def validateRoomId_def)
  show ?thesis by (rule simulated_I[OF assms(1)], simp add: submitAtomically_def True) (simp_all add: r assms(1))
next
  case False
  let ?mut = "\<lambda>current. andThen (checked (submit_round current sub)) (\<lambda>result. andThen (calling cb) (\<lambda>_. ret (Some (fst result, result))))"
  define q where "q = (\<lambda>m1 current. case submit_round current sub of Inl e \<Rightarrow> Inl (Mutation (Sync e))
    | Inr result \<Rightarrow> (case fst (cb m1) of Inl e \<Rightarrow> Inl (Mutation (Callback e)) | Inr _ \<Rightarrow> Inr (Some (fst result, result))))"
  have mut: "?mut current m1 = (q m1 current, case submit_round current sub of Inl _ \<Rightarrow> m1 | Inr _ \<Rightarrow> snd (cb m1))" for current m1
    by (cases "submit_round current sub"; cases "cb m1"; cases "fst (cb m1)")
      (auto simp: q_def checked_app calling_def andThen_def)
  obtain r1 where r1: "mutateOptional alone opts room token ?mut m = (r1, m')"
    and r: "r = (case r1 of Inl e \<Rightarrow> Inl e | Inr None \<Rightarrow> Inl (Mutation (Sync ROUND_NOT_INITIALIZED)) | Inr (Some x) \<Rightarrow> Inr x)"
    using assms(5) by (auto simp: yacht_submitAtomically_def mutateRequired_def andThen_def[of "mutateOptional _ _ _ _ _"]
        split: prod.splits sum.splits option.splits)
  have step: "\<exists>q' m2. ?mut cur m1 = (q', m2) \<and> holds st (Some (room, token)) t m2 \<and> q' = q m1 cur \<and> (\<forall>s x. q' = Inr (Some (s, x)) \<longrightarrow> round_ok s)"
    if "map_of st room = Some cur" "holds st (Some (room, token)) t m1" for cur m1
  proof (intro exI conjI)
    show "?mut cur m1 = (q m1 cur, case submit_round cur sub of Inl _ \<Rightarrow> m1 | Inr _ \<Rightarrow> snd (cb m1))" by (rule mut)
    show "holds st (Some (room, token)) t (case submit_round cur sub of Inl _ \<Rightarrow> m1 | Inr _ \<Rightarrow> snd (cb m1))"
      using that(2) assms(3) by (auto simp: spares_def split: sum.split)
    have "round_ok cur" using assms(1) that(1) by (auto simp: holds_def)
    then show "\<forall>s x. q m1 cur = Inr (Some (s, x)) \<longrightarrow> round_ok s"
      using submit_ok[of cur sub _ _] assms(4) by (auto simp: q_def split: sum.splits)
  qed (rule refl)
  have "(r1 = Inl (RedisFault OOM_MESSAGE) \<and> holds st None t m') \<or> (map_of st room = None \<and> answers st room t m' None r1) \<or>
    (\<exists>cur q' m1. map_of st room = Some cur \<and> holds st (Some (room, token)) t m1 \<and> q' = q m1 cur \<and> answers st room t m' (Some q') r1)"
    by (rule mutateOptional_holds[where P = "\<lambda>m1 cur q'. q' = q m1 cur", OF assms(1,2) False _ r1]) (rule step)
  then show ?thesis
  proof (elim disjE exE conjE)
    assume "map_of st room = None" "answers st room t m' None r1"
    then show ?thesis using assms(1) False by (auto simp: simulated_def r submitAtomically_def answers_def)
  next
    fix cur q' m1 assume "map_of st room = Some cur" "holds st (Some (room, token)) t m1" "q' = q m1 cur" "answers st room t m' (Some q') r1"
    then show ?thesis using False unfolding simulated_def
      by (intro disjI2 exI[of _ m1] exI[of _ "Some (room, token)"]) (auto simp: submitAtomically_def q_def r answers_def split: sum.splits)
  qed (auto simp: simulated_def r)
qed

lemma initialize_simulated:
  fixes cb :: "(memory_redis, 'e, unit) cmd"
  assumes "holds st None t m" "round_ok s" "yacht_initialize alone room s m = (r, m')"
  shows "simulated st t cb (\<lambda>_. initialize_round room s) r m'"
proof (cases "blank room")
  case True
  then show ?thesis using assms by (auto simp: simulated_def yacht_initialize_def validateRoomId_def initialize_round_def require_room_def)
next
  case False
  let ?set = "redis_set (yachtKey room) (FStr (serializeState s)) [FStr ''NX'']"
  have v: "values_of (core m) (yachtKey room) = map_option (\<lambda>s. StringV (serializeState s)) (map_of st room)"
    using assms(1) by (simp add: holds_def)
  have run: "(r, m') = andThen (awaited alone Written (writing ?set)) (\<lambda>created.
      if \<not> created then throw (Mutation (Sync ROUND_ALREADY_INITIALIZED)) else copyRoomTtl alone (yachtKey room) room) m"
    using assms(3) False by (simp add: yacht_initialize_def validateRoomId_def)
  from set_nx_effect[OF holds_settled[OF assms(1)], of "yachtKey room" "serializeState s"]
  consider "map_of st room \<noteq> None" "?set (core m) = (Inr False, snd (live (yachtKey room) (core m)))"
    | s' where "settled t s'" "key_expiry s' = key_expiry (core m)" "?set (core m) = (Inl OOM_MESSAGE, s')" "values_of s' = values_of (core m)"
    | s' where "settled t s'" "key_expiry s' = key_expiry (core m)" "?set (core m) = (Inr True, s')" "map_of st room = None"
       "values_of s' = (values_of (core m))(yachtKey room \<mapsto> StringV (serializeState s))"
    using v by (cases "map_of st room") auto
  then show ?thesis
  proof cases
    case 1
    have "holds st None t (m\<lparr>core := snd (live (yachtKey room) (core m)), changes := Suc (changes m)\<rparr>)"
      by (rule holds_same(2)[OF assms(1)]) (auto intro: settled.live[OF holds_settled[OF assms(1)]])
    then show ?thesis using run 1 False assms(1)
      by (auto simp: awaited_def writing_app alone_def andThen_def simulated_def initialize_round_def require_room_def has_key_def)
  next
    case 2
    have "holds st None t (m\<lparr>core := s', changes := Suc (changes m)\<rparr>)"
      by (rule holds_same(2)[OF assms(1)]) (use 2 in auto)
    then show ?thesis using run 2 by (auto simp: awaited_def writing_app alone_def andThen_def simulated_def)
  next
    case 3
    have "holds (AList.update room s st) None t (m\<lparr>core := s', changes := Suc (changes m)\<rparr>)"
      using assms(1,2) 3 by (auto simp: holds_def split: if_splits)
    then obtain m2 where "(copyRoomTtl alone (yachtKey room) room :: ('e, unit) on_yacht) (m\<lparr>core := s', changes := Suc (changes m)\<rparr>) = (Inr (), m2)"
      "holds (AList.update room s st) None t m2" using copy_holds by blast
    then show ?thesis using run 3 False assms(1)
      by (auto simp: awaited_def writing_app alone_def andThen_def simulated_def initialize_round_def require_room_def has_key_def put_round_def)
  qed
qed

lemma find_simulated:
  fixes cb :: "(memory_redis, 'e, unit) cmd"
  assumes "holds st None t m" "yacht_findByRoomId room m = (r, m')"
  shows "simulated st t cb (\<lambda>_. findByRoomId room) r m'"
proof (cases "blank room")
  case True
  then show ?thesis using assms by (auto simp: simulated_def yacht_findByRoomId_def validateRoomId_def findByRoomId_def require_room_def)
next
  case False
  obtain m1 where g: "(awaited alone Got (reading (redis_get (yachtKey room))) :: ('e, string option) on_yacht) m
      = (Inr (map_option serializeState (map_of st room)), m1)" "holds st None t m1" using get_holds[OF assms(1)] by blast
  then have rd: "(reading (redis_get (yachtKey room)) :: ('e, string option) on_yacht) m = (Inr (map_option serializeState (map_of st room)), m1)"
    by (simp add: awaited_def alone_def prod.case_eq_if prod_eq_iff)
  have dec: "map_of st room = Some s \<Longrightarrow> deserializeStateOrFail (serializeState s) = Inr s" for s
    using assms(1) by (auto simp: holds_def stored_state_reads_back)
  show ?thesis
    using assms(2) False rd g(2) assms(1) dec
    by (cases "map_of st room") (auto simp: yacht_findByRoomId_def validateRoomId_def simulated_def findByRoomId_def require_room_def)
qed

lemma remove_simulated:
  fixes cb :: "(memory_redis, 'e, unit) cmd"
  assumes "holds st None t m" "yacht_remove room m = (r, m')"
  shows "simulated st t cb (\<lambda>_. remove_round room) r m'"
proof (cases "blank room")
  case True
  then show ?thesis using assms by (auto simp: simulated_def yacht_remove_def validateRoomId_def remove_round_def require_room_def)
next
  case False
  have v: "values_of (core m) (yachtKey room) = map_option (\<lambda>s. StringV (serializeState s)) (map_of st room)"
    using assms(1) by (simp add: holds_def)
  obtain s' where s': "del_keys [yachtKey room] (core m) = (Inr (if values_of (core m) (yachtKey room) = None then 0 else 1), s')"
    "settled t s'" "values_of s' = (values_of (core m))(yachtKey room := None)" "key_expiry s' = (key_expiry (core m))(yachtKey room := None)"
    using del_effect[OF holds_settled[OF assms(1)]] by blast
  have h: "holds (AList.delete room st) None t (m\<lparr>core := s', changes := Suc (changes m)\<rparr>)"
    using assms(1) s'(2-4) by (auto simp: holds_def split: if_splits)
  have "r = Inr (has_key st room)" "m' = m\<lparr>core := s', changes := Suc (changes m)\<rparr>"
    using assms(2) False s'(1) v unfolding yacht_remove_def validateRoomId_def andThen_def writing_app
    by (cases "map_of st room"; simp add: has_key_def)+
  then show ?thesis using False h assms(1) by (auto simp: simulated_def remove_round_def require_room_def)
qed

text \<open>
  C7: The store of the dice rounds over the in-process Redis implements the in-memory store. When the stored texts stand for
  the in-memory states and no lock is taken, every call either finds the store full and leaves the states
  alone, or gives the answer of the in-memory store, blank rooms, missing and already initialised rounds, stale turns,
  rejected inputs and a failing score included, and the texts stand for its new states.
\<close>

theorem round_store_refines_memory:
  assumes "holds st None t m" "lock_ok opts" "spares cb" "call_valid call"
    and "redis_call opts token cb call m = (r, m')"
  shows "(r = Inl (RedisFault OOM_MESSAGE) \<and> holds st None t m') \<or>
    (\<exists>m1 h. holds st h t m1 \<and> (case memory_call (fst (cb m1)) call st of (r', st') \<Rightarrow>
       r = map_sum Mutation id r' \<and> holds st' None t m'))"
proof -
  have "simulated st t cb (\<lambda>a. memory_call a call) r m'"
  proof (cases call)
    case (InitializeCall room s)
    show ?thesis unfolding InitializeCall memory_call.simps
      by (rule answer_simulated[OF assms(5)[unfolded InitializeCall redis_call.simps]])
        (rule initialize_simulated[OF assms(1)], use assms(4) InitializeCall in simp_all)
  next
    case (SubmitCall room sub)
    have eq: "memory_call a call = answer ResultAnswer (\<lambda>st. case submitAtomically room sub (\<lambda>w. (a, w)) (st, ()) of (r, (st', _)) \<Rightarrow> (r, st'))" for a
      by (auto simp: SubmitCall answer_def fun_eq_iff split: prod.split)
    show ?thesis unfolding eq
      by (rule answer_simulated[OF assms(5)[unfolded SubmitCall redis_call.simps]])
        (rule submit_simulated[OF assms(1-3)], use assms(4) SubmitCall in simp_all)
  next
    case (RollCall room roll)
    show ?thesis unfolding RollCall memory_call.simps
      by (rule answer_simulated[OF assms(5)[unfolded RollCall redis_call.simps]], rule spec_cong[OF memory_specs(1)])
        (rule required_simulated[OF assms(1,2)], auto simp: yacht_recordRollAtomically_def checked_app andThen_app
          map_sum_def dest: next_states_ok split: sum.splits)
  next
    case (HoldCall room p n held)
    show ?thesis unfolding HoldCall memory_call.simps
      by (rule answer_simulated[OF assms(5)[unfolded HoldCall redis_call.simps]], rule spec_cong[OF memory_specs(2)])
        (rule required_simulated[OF assms(1,2)], auto simp: yacht_recordHoldAtomically_def checked_app andThen_app
          map_sum_def dest: next_states_ok split: sum.splits)
  next
    case (AutoRollCall room n p rolled)
    show ?thesis unfolding AutoRollCall memory_call.simps
      by (rule answer_simulated[OF assms(5)[unfolded AutoRollCall redis_call.simps]], rule spec_cong[OF memory_specs(3)])
        (rule optional_simulated[OF assms(1,2)], auto simp: yacht_autoRollAtomically_def checked_app andThen_app stale_same
          map_sum_def dest: next_states_ok split: sum.splits if_splits)
  next
    case (ExpireCall room n p)
    show ?thesis unfolding ExpireCall memory_call.simps
      by (rule answer_simulated[OF assms(5)[unfolded ExpireCall redis_call.simps]], rule spec_cong[OF memory_specs(4)])
        (rule optional_simulated[OF assms(1,2)], auto simp: yacht_expireAtomically_def checked_app andThen_app stale_same
          map_sum_def dest: next_states_ok split: sum.splits if_splits)
  next
    case (RemovePlayerCall room p)
    show ?thesis unfolding RemovePlayerCall memory_call.simps
      by (rule answer_simulated[OF assms(5)[unfolded RemovePlayerCall redis_call.simps]], rule spec_cong[OF memory_specs(5)])
        (rule optional_simulated[OF assms(1,2)], auto simp: yacht_removeParticipantAtomically_def checked_app andThen_app
          map_sum_def dest: next_states_ok split: sum.splits)
  next
    case (FindCall room)
    show ?thesis unfolding FindCall memory_call.simps
      by (rule answer_simulated[OF assms(5)[unfolded FindCall redis_call.simps]]) (rule find_simulated[OF assms(1)])
  next
    case (RemoveCall room)
    show ?thesis unfolding RemoveCall memory_call.simps
      by (rule answer_simulated[OF assms(5)[unfolded RemoveCall redis_call.simps]]) (rule remove_simulated[OF assms(1)])
  qed
  then show ?thesis by (simp add: simulated_def)
qed

definition empty_redis :: memory_redis where
  "empty_redis = \<lparr>core = new_keyspace 0 9, changes = 0\<rparr>"

definition no_score :: "(memory_redis, string, unit) cmd" where "no_score m = (Inr (), m)"

theorem round_store_refines_memory_witness:
  "fst (redis_call lock_defaults ''token'' no_score (InitializeCall ''room'' table_start) empty_redis) = Inr NoAnswer \<and>
   holds [(''room'', table_start)] None 0 (snd (redis_call lock_defaults ''token'' no_score (InitializeCall ''room'' table_start) empty_redis))"
proof -
  let ?run = "redis_call lock_defaults ''token'' no_score (InitializeCall ''room'' table_start) empty_redis"
  have start: "holds [] None 0 empty_redis"
    by (simp add: holds_def settled_def empty_redis_def new_keyspace_def wf_store_def values_of_def key_expiry_def visible_def)
  have ok: "lock_ok lock_defaults" "spares no_score" "call_valid (InitializeCall ''room'' table_start)"
    using start_ok(1)[OF table_start_eq] by (simp_all add: lock_ok_def spares_def no_score_def)
  define s where "s = put_entry (yachtKey ''room'') \<lparr>e_value = StringV (serializeState table_start), expiresAt = None\<rparr> (new_keyspace 0 9)"
  have set: "redis_set (yachtKey ''room'') (FStr (serializeState table_start)) [FStr ''NX''] (new_keyspace 0 9) = (Inr True, s)"
    by (simp add: redis_set_def upper_char_def Let_def live_def new_keyspace_def create_def has_key_def s_def visible_def)
  have ttl: "pttl (roomKey ''room'') s = (Inr (- 2), s)"
    by (simp add: pttl_def live_def s_def put_entry_def new_keyspace_def visible_def yachtKey_def gameStateKey_def roomKey_def)
  have run: "fst ?run = Inr NoAnswer"
    by (simp add: answer_def yacht_initialize_def validateRoomId_def blank_def is_blank_char_def awaited_def writing_app reading_app
        alone_def andThen_def empty_redis_def set copyRoomTtl_def ttl prod.case_eq_if)
  define r m' where rm: "r = fst ?run" "m' = snd ?run"
  have call: "redis_call lock_defaults ''token'' no_score (InitializeCall ''room'' table_start) empty_redis = (r, m')" by (simp add: rm)
  have "r = Inr NoAnswer" using run by (simp add: rm)
  with round_store_refines_memory[OF start ok call] have "holds [(''room'', table_start)] None 0 m'"
    by (auto simp: answer_def initialize_round_def require_room_def blank_def is_blank_char_def has_key_def put_round_def)
  then show ?thesis using run by (simp only: rm simp_thms)
qed

end
