(* ===== verification/DeadlineScheduler.thy ===== *)
theory DeadlineScheduler
  imports Prelude
begin

text \<open>
  The deadline scheduler of the rooms (\<open>game/round/deadlineScheduler.ts\<close>): one slot per room, a generation
  per call of \<open>schedule\<close>, and the injected executor that runs a task later, at once or never.

  The executor is an interface of the code; here it is a record of its two methods together with its own
  moves (\<open>exec_move\<close>: time passes, a timer expires). A task stands for the call of \<open>runIfCurrent\<close> the
  scheduler hands over; the actions it starts are logged in \<open>started\<close>, and what they call in turn are later
  steps. Two executors are modelled: Node's timers (the production default) and one that runs tasks whenever
  it likes, during \<open>schedule\<close>, repeatedly or after their cancellation.
\<close>

section \<open>Tasks and executors\<close>

record 'a task =
  t_room :: string
  t_round :: int
  t_generation :: nat
  t_action :: 'a

record ('x, 'h, 'm, 'a) executor =
  exec_schedule :: "'x \<Rightarrow> 'a task \<Rightarrow> int \<Rightarrow> 'h \<times> bool \<times> 'x"
  exec_cancel :: "'x \<Rightarrow> 'h \<Rightarrow> 'x"
  exec_move :: "'m \<Rightarrow> 'x \<Rightarrow> 'a task option \<times> 'x"

section \<open>The scheduler\<close>

record 'h scheduled_round =
  sr_roundNumber :: int
  sr_generation :: nat
  sr_timeout :: "'h option"

record ('x, 'h, 'a) scheduler =
  scheduledRounds :: "(string \<times> 'h scheduled_round) list"
  generations :: nat
  executor_state :: 'x
  started :: "'a task list"

definition new_scheduler :: "'x \<Rightarrow> ('x, 'h, 'a) scheduler" where
  "new_scheduler x = \<lparr>scheduledRounds = [], generations = 0, executor_state = x, started = []\<rparr>"

definition cancelQuietly :: "('x, 'h, 'm, 'a) executor \<Rightarrow> 'h scheduled_round option
    \<Rightarrow> ('x, 'h, 'a) scheduler \<Rightarrow> ('x, 'h, 'a) scheduler" where
  "cancelQuietly X scheduled s = (case scheduled of None \<Rightarrow> s
     | Some slot \<Rightarrow> (case sr_timeout slot of None \<Rightarrow> s
       | Some h \<Rightarrow> s\<lparr>executor_state := exec_cancel X (executor_state s) h\<rparr>))"

definition runIfCurrent :: "'a task \<Rightarrow> ('x, 'h, 'a) scheduler \<Rightarrow> ('x, 'h, 'a) scheduler" where
  "runIfCurrent t s = (case map_of (scheduledRounds s) (t_room t) of None \<Rightarrow> s
     | Some slot \<Rightarrow> if sr_roundNumber slot \<noteq> t_round t \<or> sr_generation slot \<noteq> t_generation t then s
       else s\<lparr>scheduledRounds := AList.delete (t_room t) (scheduledRounds s), started := started s @ [t]\<rparr>)"

text \<open>The slot is taken before the executor gets the task, and the handle is attached only when the slot is
  still this call's.\<close>

definition schedule :: "('x, 'h, 'm, 'a) executor \<Rightarrow> int \<Rightarrow> string \<Rightarrow> int \<Rightarrow> int \<Rightarrow> 'a
    \<Rightarrow> (('x, 'h, 'a) scheduler, string, unit) cmd" where
  "schedule X now room n deadline action = (\<lambda>s.
     if blank room then (Inl ''roomId must not be blank'', s)
     else if n < 1 then (Inl ''roundNumber must be at least 1'', s)
     else (let delay = max 0 (deadline - now);
         generation = generations s + 1;
         previous = map_of (scheduledRounds s) room;
         slot = \<lparr>sr_roundNumber = n, sr_generation = generation, sr_timeout = None\<rparr>;
         s1 = cancelQuietly X previous (s\<lparr>generations := generation,
           scheduledRounds := AList.update room slot (scheduledRounds s)\<rparr>);
         t = \<lparr>t_room = room, t_round = n, t_generation = generation, t_action = action\<rparr>
       in case exec_schedule X (executor_state s1) t delay of (timeout, inline, x) \<Rightarrow>
         (let s2 = s1\<lparr>executor_state := x\<rparr>;
              s3 = (if inline then runIfCurrent t s2 else s2)
          in (Inr (), case map_of (scheduledRounds s3) room of None \<Rightarrow> s3
            | Some now_slot \<Rightarrow> if sr_generation now_slot = generation
                then s3\<lparr>scheduledRounds := AList.update room (now_slot\<lparr>sr_timeout := Some timeout\<rparr>) (scheduledRounds s3)\<rparr>
                else s3))))"

definition cancel_round :: "('x, 'h, 'm, 'a) executor \<Rightarrow> string \<Rightarrow> int \<Rightarrow> ('x, 'h, 'a) scheduler \<Rightarrow> ('x, 'h, 'a) scheduler" where
  "cancel_round X room n s = (case map_of (scheduledRounds s) room of None \<Rightarrow> s
     | Some slot \<Rightarrow> if sr_roundNumber slot \<noteq> n then s
       else (cancelQuietly X (Some slot) s)\<lparr>scheduledRounds := AList.delete room (scheduledRounds s)\<rparr>)"

definition cancel_room :: "('x, 'h, 'm, 'a) executor \<Rightarrow> string \<Rightarrow> ('x, 'h, 'a) scheduler \<Rightarrow> ('x, 'h, 'a) scheduler" where
  "cancel_room X room s = (case map_of (scheduledRounds s) room of None \<Rightarrow> s
     | Some slot \<Rightarrow> cancelQuietly X (Some slot) (s\<lparr>scheduledRounds := AList.delete room (scheduledRounds s)\<rparr>))"

definition stop :: "('x, 'h, 'm, 'a) executor \<Rightarrow> ('x, 'h, 'a) scheduler \<Rightarrow> ('x, 'h, 'a) scheduler" where
  "stop X s = (fold (\<lambda>(_, slot). cancelQuietly X (Some slot)) (scheduledRounds s) s)\<lparr>scheduledRounds := []\<rparr>"

datatype ('m, 'a) sched_event =
    Schedule int string int int 'a
  | CancelRound string int
  | CancelRoom string
  | Stop
  | Moves 'm

fun sched_step :: "('x, 'h, 'm, 'a) executor \<Rightarrow> ('m, 'a) sched_event \<Rightarrow> ('x, 'h, 'a) scheduler \<Rightarrow> ('x, 'h, 'a) scheduler" where
  "sched_step X (Schedule now room n deadline action) s = snd (schedule X now room n deadline action s)"
| "sched_step X (CancelRound room n) s = cancel_round X room n s"
| "sched_step X (CancelRoom room) s = cancel_room X room s"
| "sched_step X Stop s = stop X s"
| "sched_step X (Moves m) s = (case exec_move X m (executor_state s) of
     (None, x) \<Rightarrow> s\<lparr>executor_state := x\<rparr> | (Some t, x) \<Rightarrow> runIfCurrent t (s\<lparr>executor_state := x\<rparr>))"

definition sched_run :: "('x, 'h, 'm, 'a) executor \<Rightarrow> ('m, 'a) sched_event list \<Rightarrow> ('x, 'h, 'a) scheduler \<Rightarrow> ('x, 'h, 'a) scheduler" where
  "sched_run X es s = fold (sched_step X) es s"

section \<open>Node's timers\<close>

text \<open>\<open>setTimeout\<close> turns a delay outside 1 .. 2147483647 into 1; a timer runs once, not before it is due,
  and never after \<open>clearTimeout\<close>.\<close>

record 'a node_timers =
  pending :: "(nat \<times> int \<times> 'a task) list"
  next_timer :: nat
  node_clock :: int

datatype node_move = Elapse nat | Expire_timer nat

definition node_delay :: "int \<Rightarrow> int" where
  "node_delay d = (if d < 1 \<or> d > 2147483647 then 1 else d)"

definition timerDeadlineExecutor :: "('a node_timers, nat, node_move, 'a) executor" where
  "timerDeadlineExecutor = \<lparr>
     exec_schedule = (\<lambda>x t d. (next_timer x, False,
       x\<lparr>pending := (next_timer x, node_clock x + node_delay d, t) # pending x, next_timer := next_timer x + 1\<rparr>)),
     exec_cancel = (\<lambda>x h. x\<lparr>pending := filter (\<lambda>p. fst p \<noteq> h) (pending x)\<rparr>),
     exec_move = (\<lambda>m x. case m of Elapse d \<Rightarrow> (None, x\<lparr>node_clock := node_clock x + int d\<rparr>)
       | Expire_timer h \<Rightarrow> (case map_of (pending x) h of None \<Rightarrow> (None, x)
         | Some (due, t) \<Rightarrow> if due \<le> node_clock x
             then (Some t, x\<lparr>pending := filter (\<lambda>p. fst p \<noteq> h) (pending x)\<rparr>) else (None, x)))\<rparr>"

section \<open>An executor without manners\<close>

text \<open>It runs a task during \<open>schedule\<close> when \<open>eager\<close> says so, keeps every task for ever and runs any of them at
  any time, cancelled or not.\<close>

definition unruly_executor :: "('a task \<Rightarrow> bool) \<Rightarrow> ('a task list, nat, nat, 'a) executor" where
  "unruly_executor eager = \<lparr>
     exec_schedule = (\<lambda>x t d. (length x, eager t, x @ [t])),
     exec_cancel = (\<lambda>x h. x),
     exec_move = (\<lambda>i x. (if i < length x then Some (x ! i) else None, x))\<rparr>"

section \<open>At most once, and never after a cancellation\<close>

definition sched_ok :: "('x, 'h, 'a) scheduler \<Rightarrow> bool" where
  "sched_ok s \<longleftrightarrow> wf_map (scheduledRounds s)
     \<and> (\<forall>r slot. map_of (scheduledRounds s) r = Some slot \<longrightarrow>
          sr_generation slot \<le> generations s \<and> sr_generation slot \<notin> t_generation ` set (started s)
          \<and> (\<forall>r' slot'. map_of (scheduledRounds s) r' = Some slot' \<and> sr_generation slot' = sr_generation slot \<longrightarrow> r' = r))
     \<and> (\<forall>t \<in> set (started s). t_generation t \<le> generations s)
     \<and> distinct (map t_generation (started s))"

text \<open>No slot of the room for one of the rounds \<open>ns\<close> is as old as generation \<open>g\<close>.\<close>

definition retired :: "string \<Rightarrow> int set \<Rightarrow> nat \<Rightarrow> ('x, 'h, 'a) scheduler \<Rightarrow> bool" where
  "retired room ns g s \<longleftrightarrow> (\<forall>slot. map_of (scheduledRounds s) room = Some slot \<longrightarrow> sr_roundNumber slot \<in> ns
     \<longrightarrow> g < sr_generation slot)"

lemma cancelQuietly_frame [simp]:
  "scheduledRounds (cancelQuietly X p s) = scheduledRounds s"
  "generations (cancelQuietly X p s) = generations s"
  "started (cancelQuietly X p s) = started s"
  by (simp_all add: cancelQuietly_def split: option.splits)

lemma stop_frame [simp]:
  "scheduledRounds (stop X s) = []" "generations (stop X s) = generations s" "started (stop X s) = started s"
proof -
  have "generations (fold (\<lambda>(_, slot). cancelQuietly X (Some slot)) ps s) = generations s
      \<and> started (fold (\<lambda>(_, slot). cancelQuietly X (Some slot)) ps s) = started s" for ps
    by (induction ps arbitrary: s) (auto simp: case_prod_beta)
  then show "scheduledRounds (stop X s) = []" "generations (stop X s) = generations s" "started (stop X s) = started s"
    by (auto simp: stop_def)
qed

lemma update_twice: "AList.update k v (AList.update k u m) = AList.update k v m"
  by (induction m) auto

text \<open>What a step may do to slots, generations and log, whatever the executor.\<close>

lemma runIfCurrent_cases:
  obtains "runIfCurrent t s = s"
  | slot where "map_of (scheduledRounds s) (t_room t) = Some slot" "sr_roundNumber slot = t_round t"
      "sr_generation slot = t_generation t"
      "runIfCurrent t s = s\<lparr>scheduledRounds := AList.delete (t_room t) (scheduledRounds s), started := started s @ [t]\<rparr>"
proof (cases "map_of (scheduledRounds s) (t_room t)")
  case None then show ?thesis by (intro that(1)) (simp add: runIfCurrent_def)
next
  case (Some slot)
  then show ?thesis
    by (cases "sr_roundNumber slot = t_round t \<and> sr_generation slot = t_generation t")
      (auto simp: runIfCurrent_def intro: that)
qed

lemma runIfCurrent_ok: "sched_ok s \<Longrightarrow> sched_ok (runIfCurrent t s)"
proof (rule runIfCurrent_cases[of t s])
  fix slot
  assume ok: "sched_ok s" and slot: "map_of (scheduledRounds s) (t_room t) = Some slot"
    and gen: "sr_generation slot = t_generation t"
    and eq: "runIfCurrent t s = s\<lparr>scheduledRounds := AList.delete (t_room t) (scheduledRounds s), started := started s @ [t]\<rparr>"
  have "t_generation t \<le> generations s" "t_generation t \<notin> t_generation ` set (started s)"
    using ok slot gen unfolding sched_ok_def by metis+
  moreover have "map_of (scheduledRounds s) r = Some slot' \<Longrightarrow> r \<noteq> t_room t \<Longrightarrow> sr_generation slot' \<noteq> t_generation t" for r slot'
    using ok slot gen unfolding sched_ok_def by metis
  ultimately show "sched_ok (runIfCurrent t s)"
    using ok unfolding eq by (auto simp: sched_ok_def split: if_splits)
qed simp

lemma runIfCurrent_generations [simp]: "generations (runIfCurrent t s) = generations s"
  by (rule runIfCurrent_cases[of t s]) auto

lemma runIfCurrent_retired:
  assumes "retired room ns g s"
  shows "retired room ns g (runIfCurrent t s)"
    and "u \<in> set (started (runIfCurrent t s)) \<Longrightarrow> t_room u = room \<Longrightarrow> t_round u \<in> ns \<Longrightarrow> t_generation u \<le> g
      \<Longrightarrow> u \<in> set (started s)"
  using assms by (rule_tac [!] runIfCurrent_cases[of t s]) (force simp: retired_def)+

definition booked_slot :: "int \<Rightarrow> ('x, 'h, 'a) scheduler \<Rightarrow> 'h option \<Rightarrow> 'h scheduled_round" where
  "booked_slot n s h = \<lparr>sr_roundNumber = n, sr_generation = generations s + 1, sr_timeout = h\<rparr>"

lemma schedule_cases:
  assumes "\<not> blank room" "\<not> n < 1"
  obtains x h t where "t = \<lparr>t_room = room, t_round = n, t_generation = generations s + 1, t_action = action\<rparr>"
      "exec_schedule X (executor_state (cancelQuietly X (map_of (scheduledRounds s) room) s)) t (max 0 (deadline - now)) = (h, False, x)"
      "schedule X now room n deadline action s = (Inr (), s\<lparr>generations := generations s + 1,
         scheduledRounds := AList.update room (booked_slot n s (Some h)) (scheduledRounds s), executor_state := x\<rparr>)"
  | x h t where "t = \<lparr>t_room = room, t_round = n, t_generation = generations s + 1, t_action = action\<rparr>"
      "exec_schedule X (executor_state (cancelQuietly X (map_of (scheduledRounds s) room) s)) t (max 0 (deadline - now)) = (h, True, x)"
      "schedule X now room n deadline action s = (Inr (), s\<lparr>generations := generations s + 1,
         scheduledRounds := AList.delete room (scheduledRounds s), executor_state := x, started := started s @ [t]\<rparr>)"
proof -
  define p where "p = map_of (scheduledRounds s) room"
  define s1 where "s1 = cancelQuietly X p (s\<lparr>generations := generations s + 1,
    scheduledRounds := AList.update room (booked_slot n s None) (scheduledRounds s)\<rparr>)"
  define t where "t = \<lparr>t_room = room, t_round = n, t_generation = generations s + 1, t_action = action\<rparr>"
  have s1: "s1 = s\<lparr>generations := generations s + 1, scheduledRounds := AList.update room (booked_slot n s None) (scheduledRounds s),
      executor_state := executor_state (cancelQuietly X p s)\<rparr>"
    by (simp add: s1_def cancelQuietly_def split: option.splits)
  obtain h i x where e: "exec_schedule X (executor_state (cancelQuietly X p s)) t (max 0 (deadline - now)) = (h, i, x)"
    by (metis prod_cases3)
  then have e': "exec_schedule X (executor_state s1) t (max 0 (deadline - now)) = (h, i, x)"
    by (simp add: s1)
  have run: "schedule X now room n deadline action s = (Inr (), let s3 = (if i then runIfCurrent t (s1\<lparr>executor_state := x\<rparr>) else s1\<lparr>executor_state := x\<rparr>)
      in case map_of (scheduledRounds s3) room of None \<Rightarrow> s3
        | Some slot \<Rightarrow> if sr_generation slot = generations s + 1
            then s3\<lparr>scheduledRounds := AList.update room (slot\<lparr>sr_timeout := Some h\<rparr>) (scheduledRounds s3)\<rparr> else s3)"
    using assms e' unfolding s1_def p_def t_def booked_slot_def by (simp add: schedule_def Let_def split: option.split)
  show thesis
  proof (cases i)
    case True
    then show thesis using e run
      by (intro that(2)[of t h x]) (simp_all add: t_def p_def s1 runIfCurrent_def booked_slot_def AList.delete_update_same Let_def)
  next
    case False
    then show thesis using e run
      by (intro that(1)[of t h x]) (simp_all add: t_def p_def s1 booked_slot_def update_twice Let_def)
  qed
qed

lemma schedule_refused: "blank room \<or> n < 1 \<Longrightarrow> snd (schedule X now room n deadline action s) = s"
  by (auto simp: schedule_def)

lemma sched_ok_release:
  assumes "sched_ok s"
  shows "sched_ok (s\<lparr>scheduledRounds := AList.delete room (scheduledRounds s), executor_state := x\<rparr>)"
    "sched_ok (s\<lparr>scheduledRounds := [], executor_state := x\<rparr>)" "sched_ok (s\<lparr>executor_state := x\<rparr>)"
  using assms by (simp_all add: sched_ok_def)

lemma sched_ok_book:
  assumes "sched_ok s"
  shows "sched_ok (s\<lparr>generations := generations s + 1,
    scheduledRounds := AList.update room (booked_slot n s h) (scheduledRounds s), executor_state := x\<rparr>)"
  using assms unfolding sched_ok_def booked_slot_def by (auto simp: image_iff) (metis Suc_n_not_le_n le_SucI)+

lemma sched_ok_start:
  assumes "sched_ok s" "t_generation t = generations s + 1"
  shows "sched_ok (s\<lparr>generations := generations s + 1, scheduledRounds := AList.delete room (scheduledRounds s),
    executor_state := x, started := started s @ [t]\<rparr>)"
  using assms unfolding sched_ok_def by (auto simp: image_iff) (metis Suc_n_not_le_n le_SucI)+

lemma cancelQuietly_executor: "cancelQuietly X p s = s\<lparr>executor_state := executor_state (cancelQuietly X p s)\<rparr>"
  by (simp add: cancelQuietly_def split: option.splits)

lemma cancel_round_eq: "cancel_round X room n s = (case map_of (scheduledRounds s) room of None \<Rightarrow> s
   | Some slot \<Rightarrow> if sr_roundNumber slot \<noteq> n then s else s\<lparr>scheduledRounds := AList.delete room (scheduledRounds s),
       executor_state := executor_state (cancelQuietly X (Some slot) s)\<rparr>)"
  by (simp add: cancel_round_def cancelQuietly_def split: option.split)

lemma cancel_room_eq: "cancel_room X room s = (case map_of (scheduledRounds s) room of None \<Rightarrow> s
   | Some slot \<Rightarrow> s\<lparr>scheduledRounds := AList.delete room (scheduledRounds s),
       executor_state := executor_state (cancelQuietly X (Some slot) s)\<rparr>)"
  by (simp add: cancel_room_def cancelQuietly_def split: option.split)

lemma stop_eq: "stop X s = s\<lparr>scheduledRounds := [], executor_state := executor_state (stop X s)\<rparr>"
  by simp

lemma sched_step_ok:
  assumes ok: "sched_ok s"
  shows "sched_ok (sched_step X e s)"
proof (cases e)
  case (Schedule now room n deadline action)
  show ?thesis
  proof (cases "blank room \<or> n < 1")
    case False
    then have "\<not> blank room" "\<not> n < 1" by auto
    then show ?thesis unfolding Schedule sched_step.simps
      by (cases rule: schedule_cases[of room n s action X deadline now]) (simp_all add: sched_ok_book[OF ok, simplified] sched_ok_start[OF ok, simplified])
  qed (simp add: Schedule schedule_refused ok)
next
  case (CancelRound room n)
  then show ?thesis using ok sched_ok_release[OF ok] by (simp add: cancel_round_eq split: option.split)
next
  case (CancelRoom room)
  then show ?thesis using ok sched_ok_release[OF ok] by (simp add: cancel_room_eq split: option.split)
next
  case Stop
  then show ?thesis using sched_ok_release(2)[OF ok] by (subst Stop, subst sched_step.simps, subst stop_eq) blast
next
  case (Moves m)
  obtain r x where "exec_move X m (executor_state s) = (r, x)" by (cases "exec_move X m (executor_state s)")
  then show ?thesis using Moves runIfCurrent_ok[OF sched_ok_release(3)[OF ok, of x]] sched_ok_release(3)[OF ok, of x]
    by (cases r) simp_all
qed

lemma sched_run_ok: "sched_ok s \<Longrightarrow> sched_ok (sched_run X es s)"
  by (induction es arbitrary: s) (simp_all add: sched_run_def sched_step_ok)

lemma new_scheduler_ok: "sched_ok (new_scheduler x)"
  by (simp add: sched_ok_def new_scheduler_def)

lemma retired_mono:
  assumes "retired room ns g s"
    and "\<And>slot. map_of (scheduledRounds s') room = Some slot \<Longrightarrow> map_of (scheduledRounds s) room = Some slot \<or> g < sr_generation slot"
  shows "retired room ns g s'"
  using assms unfolding retired_def by blast

lemma sched_step_frame:
  "generations s \<le> generations (sched_step X e s)
   \<and> (map_of (scheduledRounds (sched_step X e s)) room = Some slot \<longrightarrow>
        map_of (scheduledRounds s) room = Some slot \<or> generations s < sr_generation slot)
   \<and> (u \<in> set (started (sched_step X e s)) \<longrightarrow> u \<in> set (started s) \<or> generations s < t_generation u
       \<or> (\<exists>slot. map_of (scheduledRounds s) (t_room u) = Some slot \<and> sr_roundNumber slot = t_round u \<and> sr_generation slot = t_generation u))"
proof (cases e)
  case (Schedule now r n deadline action)
  show ?thesis
  proof (cases "blank r \<or> n < 1")
    case False
    then have "\<not> blank r" "\<not> n < 1" by auto
    then show ?thesis unfolding Schedule sched_step.simps
      by (cases rule: schedule_cases[of r n s action X deadline now]) (auto simp: booked_slot_def)
  qed (simp add: Schedule schedule_refused)
next
  case (CancelRound r n)
  then show ?thesis by (simp add: cancel_round_eq split: option.split)
next
  case (CancelRoom r)
  then show ?thesis by (simp add: cancel_room_eq split: option.split)
next
  case (Moves m)
  obtain o' x where m: "exec_move X m (executor_state s) = (o', x)" by (cases "exec_move X m (executor_state s)")
  show ?thesis
  proof (cases o')
    case (Some t)
    show ?thesis using Moves m Some by (cases rule: runIfCurrent_cases[of t "s\<lparr>executor_state := x\<rparr>"]) auto
  qed (simp add: Moves m)
qed simp

lemma started_step: "u \<in> set (started s) \<Longrightarrow> u \<in> set (started (sched_step X e s))"
proof (cases e)
  case (Schedule now r n deadline action)
  assume u: "u \<in> set (started s)"
  show ?thesis
  proof (cases "blank r \<or> n < 1")
    case False
    then have "\<not> blank r" "\<not> n < 1" by auto
    then show ?thesis unfolding Schedule sched_step.simps
      by (cases rule: schedule_cases[of r n s action X deadline now]) (auto simp: u)
  qed (simp add: Schedule schedule_refused u)
next
  case (Moves m)
  assume u: "u \<in> set (started s)"
  obtain o' x where m: "exec_move X m (executor_state s) = (o', x)" by (cases "exec_move X m (executor_state s)")
  show ?thesis
  proof (cases o')
    case (Some t)
    show ?thesis using u by (cases rule: runIfCurrent_cases[of t "s\<lparr>executor_state := x\<rparr>"]) (auto simp: Moves m Some)
  qed (simp add: Moves m u)
qed (simp_all add: cancel_round_eq cancel_room_eq split: option.split)

lemma sched_step_retired:
  assumes "retired room ns g s" "g \<le> generations s"
  shows "retired room ns g (sched_step X e s)" "g \<le> generations (sched_step X e s)"
    and "u \<in> set (started (sched_step X e s)) \<Longrightarrow> t_room u = room \<Longrightarrow> t_round u \<in> ns \<Longrightarrow> t_generation u \<le> g
      \<Longrightarrow> u \<in> set (started s)"
proof -
  show "retired room ns g (sched_step X e s)"
    by (rule retired_mono[OF assms(1)]) (use sched_step_frame[of s X e room] assms(2) in \<open>meson order_le_less_trans\<close>)
  show "g \<le> generations (sched_step X e s)" using sched_step_frame[of s X e] assms(2) by (meson order_trans)
  assume u: "u \<in> set (started (sched_step X e s))" "t_room u = room" "t_round u \<in> ns" "t_generation u \<le> g"
  then show "u \<in> set (started s)"
    using sched_step_frame[of s X e room undefined u] assms unfolding retired_def by (auto dest: leD order_trans)
qed

lemma sched_run_retired:
  assumes "retired room ns g s" "g \<le> generations s" "u \<in> set (started (sched_run X es s))"
    "t_room u = room" "t_round u \<in> ns" "t_generation u \<le> g"
  shows "u \<in> set (started s)"
  using assms
proof (induction es arbitrary: s)
  case (Cons e es)
  have "u \<in> set (started (sched_step X e s))"
    using Cons.IH[OF sched_step_retired(1,2)[OF Cons.prems(1,2)]] Cons.prems(3-6) by (simp add: sched_run_def)
  then show ?case using Cons.prems(4-6) by (rule sched_step_retired(3)[OF Cons.prems(1,2)])
qed (simp add: sched_run_def)

text \<open>The steps that end what was booked for a room, and for which rounds.\<close>

fun ends_deadline :: "('m, 'a) sched_event \<Rightarrow> string \<Rightarrow> int set \<Rightarrow> bool" where
  "ends_deadline (Schedule now room n deadline action) r ns = (room = r \<and> \<not> blank room \<and> 1 \<le> n)"
| "ends_deadline (CancelRound room n) r ns = (room = r \<and> ns = {n})"
| "ends_deadline (CancelRoom room) r ns = (room = r)"
| "ends_deadline Stop r ns = True"
| "ends_deadline (Moves m) r ns = False"

lemma ends_deadline_retired:
  "ends_deadline e r ns \<Longrightarrow> retired r ns (generations s) (sched_step X e s) \<and> generations s \<le> generations (sched_step X e s)"
proof (cases e)
  case (Schedule now room n deadline action)
  assume "ends_deadline e r ns"
  then have "\<not> blank room" "\<not> n < 1" "room = r" using Schedule by auto
  then show ?thesis unfolding Schedule
    by (cases rule: schedule_cases[of room n s action X deadline now]) (auto simp: retired_def booked_slot_def)
qed (auto simp: retired_def cancel_round_def cancel_room_def split: option.split)

text \<open>C22: whatever the executor does - running a task during \<open>schedule\<close>, late, twice or after its
  cancellation - every deadline starts its action at most once, and never after a step that replaced or
  cancelled it.\<close>

theorem cancelled_deadline_never_fires:
  "distinct (map t_generation (started (sched_run X es' (sched_run X es (new_scheduler x)))))
   \<and> (ends_deadline e room ns \<and> t_room u = room \<and> t_round u \<in> ns
      \<and> t_generation u \<le> generations (sched_run X es (new_scheduler x))
      \<and> u \<in> set (started (sched_run X es' (sched_step X e (sched_run X es (new_scheduler x)))))
      \<longrightarrow> u \<in> set (started (sched_step X e (sched_run X es (new_scheduler x)))))"
proof -
  define before where "before = sched_run X es (new_scheduler x)"
  have "sched_ok (sched_run X es' before)"
    by (simp add: before_def sched_run_ok new_scheduler_ok)
  then have "distinct (map t_generation (started (sched_run X es' before)))"
    by (simp add: sched_ok_def)
  moreover have "u \<in> set (started (sched_step X e before))"
    if e: "ends_deadline e room ns" and u: "u \<in> set (started (sched_run X es' (sched_step X e before)))"
      "t_room u = room" "t_round u \<in> ns" "t_generation u \<le> generations before"
  proof -
    have r: "retired room ns (generations before) (sched_step X e before)"
      "generations before \<le> generations (sched_step X e before)"
      using ends_deadline_retired[OF e, of before X] by simp_all
    show ?thesis by (rule sched_run_retired[OF r u])
  qed
  ultimately show ?thesis unfolding before_def[symmetric] by simp
qed

section \<open>No deadline is lost\<close>

text \<open>The contract of an executor with handles: a task handed over waits under a fresh handle with its due
  time, a cancellation removes exactly that handle, and only a waiting task is run, once.\<close>

locale timer_executor =
  fixes X :: "('x, 'h, 'm, 'a) executor"
    and waiting :: "'x \<Rightarrow> 'h \<Rightarrow> (int \<times> 'a task) option"
    and due_at :: "'x \<Rightarrow> int \<Rightarrow> int"
    and proper :: "'x \<Rightarrow> bool"
  assumes schedule_law: "proper x \<Longrightarrow> exec_schedule X x t d = (h, i, x') \<Longrightarrow>
      \<not> i \<and> proper x' \<and> waiting x h = None \<and> waiting x' = (waiting x)(h \<mapsto> (due_at x d, t))"
    and cancel_law: "proper x \<Longrightarrow> proper (exec_cancel X x h) \<and> waiting (exec_cancel X x h) = (waiting x)(h := None)"
    and move_law: "proper x \<Longrightarrow> exec_move X m x = (r, x') \<Longrightarrow> proper x' \<and> (case r of None \<Rightarrow> waiting x' = waiting x
      | Some t \<Rightarrow> (\<exists>h due. waiting x h = Some (due, t) \<and> waiting x' = (waiting x)(h := None)))"
begin

text \<open>The waiting tasks are those of the slots, one for one.\<close>

definition in_step :: "('x, 'h, 'a) scheduler \<Rightarrow> bool" where
  "in_step s \<longleftrightarrow> proper (executor_state s)
     \<and> (\<forall>r slot. map_of (scheduledRounds s) r = Some slot \<longrightarrow> (\<exists>h due t. sr_timeout slot = Some h
          \<and> waiting (executor_state s) h = Some (due, t) \<and> t_room t = r))
     \<and> (\<forall>h due t. waiting (executor_state s) h = Some (due, t) \<longrightarrow>
          map_of (scheduledRounds s) (t_room t) = Some \<lparr>sr_roundNumber = t_round t, sr_generation = t_generation t, sr_timeout = Some h\<rparr>)"

lemma in_step_proper: "in_step s \<Longrightarrow> proper (executor_state s)"
  by (simp add: in_step_def)

lemma in_step_waiting: "in_step s \<Longrightarrow> waiting (executor_state s) h = Some (due, t) \<Longrightarrow> map_of (scheduledRounds s) (t_room t) =
    Some \<lparr>sr_roundNumber = t_round t, sr_generation = t_generation t, sr_timeout = Some h\<rparr>"
  by (simp add: in_step_def)

lemma in_step_slot:
  assumes ok: "in_step s" and slot: "map_of (scheduledRounds s) r = Some slot"
  obtains h due t where "slot = \<lparr>sr_roundNumber = t_round t, sr_generation = t_generation t, sr_timeout = Some h\<rparr>"
    "waiting (executor_state s) h = Some (due, t)" "t_room t = r"
proof -
  obtain h due t where t: "waiting (executor_state s) h = Some (due, t)" "t_room t = r"
    using ok slot unfolding in_step_def by metis
  then show thesis using in_step_waiting[OF ok t(1)] slot by (intro that[OF _ t]) simp
qed

text \<open>The effect of dropping a slot together with its handle.\<close>

lemma cancelQuietly_waiting:
  assumes ok: "in_step s" and p: "p = map_of (scheduledRounds s) room"
  defines "x \<equiv> executor_state (cancelQuietly X p s)"
  shows "proper x" and "\<And>h due t. waiting x h = Some (due, t) \<longleftrightarrow>
      waiting (executor_state s) h = Some (due, t) \<and> t_room t \<noteq> room"
proof -
  have "proper x \<and> (\<forall>h due t. waiting x h = Some (due, t) \<longleftrightarrow>
      waiting (executor_state s) h = Some (due, t) \<and> t_room t \<noteq> room)"
  proof (cases p)
    case None
    have "t_room t \<noteq> room" if "waiting (executor_state s) h = Some (due, t)" for h due t
      using in_step_waiting[OF ok that] p None by auto
    then show ?thesis using in_step_proper[OF ok] None by (auto simp: x_def cancelQuietly_def)
  next
    case (Some slot)
    have "map_of (scheduledRounds s) room = Some slot" using p Some by simp
    then obtain h due t where slot: "slot = \<lparr>sr_roundNumber = t_round t, sr_generation = t_generation t, sr_timeout = Some h\<rparr>"
      "waiting (executor_state s) h = Some (due, t)" "t_room t = room"
      by (rule in_step_slot[OF ok])
    have only: "h' = h" if "waiting (executor_state s) h' = Some (due', t')" "t_room t' = room" for h' due' t'
      using in_step_waiting[OF ok that(1)] in_step_waiting[OF ok slot(2)] slot(3) that(2) by simp
    have x: "x = exec_cancel X (executor_state s) h" using slot(1) Some by (simp add: x_def cancelQuietly_def)
    have "proper x" "waiting x = (waiting (executor_state s))(h := None)"
      using cancel_law[OF in_step_proper[OF ok], of h] unfolding x by simp_all
    moreover have "(if h' = h then None else waiting (executor_state s) h') = Some (due', t')
        \<longleftrightarrow> waiting (executor_state s) h' = Some (due', t') \<and> t_room t' \<noteq> room" for h' due' t'
      using only[of h' due' t'] slot(2,3) by (cases "h' = h") auto
    ultimately show ?thesis by (simp add: fun_upd_apply)
  qed
  then show "proper x" "\<And>h due t. waiting x h = Some (due, t) \<longleftrightarrow>
      waiting (executor_state s) h = Some (due, t) \<and> t_room t \<noteq> room" by blast+
qed

lemma in_step_booked:
  assumes ok: "in_step s" and new: "exec_schedule X (executor_state (cancelQuietly X (map_of (scheduledRounds s) room) s)) t d = (h, i, x)"
    and t: "t = \<lparr>t_room = room, t_round = n, t_generation = generations s + 1, t_action = action\<rparr>"
  shows "\<not> i" and "in_step (s\<lparr>generations := generations s + 1,
      scheduledRounds := AList.update room (booked_slot n s (Some h)) (scheduledRounds s), executor_state := x\<rparr>)"
    and "waiting x h = Some (due_at (executor_state (cancelQuietly X (map_of (scheduledRounds s) room) s)) d, t)"
    and "waiting (executor_state s) h' = Some (due', t') \<Longrightarrow> t_room t' \<noteq> room \<Longrightarrow> waiting x h' = Some (due', t')"
proof -
  define y where "y = executor_state (cancelQuietly X (map_of (scheduledRounds s) room) s)"
  note y = cancelQuietly_waiting[OF ok refl, of room, folded y_def]
  have law: "\<not> i" "proper x" "waiting y h = None" "waiting x = (waiting y)(h \<mapsto> (due_at y d, t))"
    using schedule_law[OF y(1) new[folded y_def]] by simp_all
  show "\<not> i" by (fact law(1))
  show "waiting x h = Some (due_at (executor_state (cancelQuietly X (map_of (scheduledRounds s) room) s)) d, t)"
    by (simp add: law(4) y_def)
  have other: "waiting x h' = Some (due', t') \<longleftrightarrow> h' = h \<and> due' = due_at y d \<and> t' = t
      \<or> h' \<noteq> h \<and> waiting (executor_state s) h' = Some (due', t') \<and> t_room t' \<noteq> room" for h' due' t'
    using y(2) by (auto simp: law(4))
  have fresh: "waiting (executor_state s) h = Some (due', t') \<Longrightarrow> t_room t' = room" for due' t'
    using y(2)[of h due' t'] law(3) by auto
  show "waiting (executor_state s) h' = Some (due', t') \<Longrightarrow> t_room t' \<noteq> room \<Longrightarrow> waiting x h' = Some (due', t')"
    using other fresh by blast
  have slots: "\<exists>h' due' t'. sr_timeout slot = Some h' \<and> waiting x h' = Some (due', t') \<and> t_room t' = r"
    if "map_of ((AList.update room (booked_slot n s (Some h)) (scheduledRounds s))) r = Some slot" for r slot
  proof (cases "r = room")
    case True
    then show ?thesis using that other[of h] by (intro exI[of _ h]) (auto simp: booked_slot_def t)
  next
    case False
    then have "map_of (scheduledRounds s) r = Some slot" using that by simp
    then obtain h' due' t' where "slot = \<lparr>sr_roundNumber = t_round t', sr_generation = t_generation t', sr_timeout = Some h'\<rparr>"
      "waiting (executor_state s) h' = Some (due', t')" "t_room t' = r" by (rule in_step_slot[OF ok])
    then show ?thesis using other[of h' due' t'] fresh[of due' t'] False by (intro exI[of _ h'] exI[of _ due'] exI[of _ t']) auto
  qed
  have slot_of: "waiting x h' = Some (due', t') \<Longrightarrow> map_of (AList.update room (booked_slot n s (Some h)) (scheduledRounds s)) (t_room t') =
      Some \<lparr>sr_roundNumber = t_round t', sr_generation = t_generation t', sr_timeout = Some h'\<rparr>" for h' due' t'
    using other[of h' due' t'] in_step_waiting[OF ok, of h' due' t'] by (auto simp: booked_slot_def t)
  show "in_step (s\<lparr>generations := generations s + 1,
      scheduledRounds := AList.update room (booked_slot n s (Some h)) (scheduledRounds s), executor_state := x\<rparr>)"
    using slots slot_of law(2) by (simp add: in_step_def)
qed

lemma in_step_released:
  assumes ok: "in_step s" and x: "proper x" "\<And>h due t. waiting x h = Some (due, t) \<longleftrightarrow>
      waiting (executor_state s) h = Some (due, t) \<and> t_room t \<noteq> room"
  shows "in_step (s\<lparr>scheduledRounds := AList.delete room (scheduledRounds s), executor_state := x, started := l\<rparr>)"
proof -
  have "\<exists>h due t. sr_timeout slot = Some h \<and> waiting x h = Some (due, t) \<and> t_room t = r"
    if "map_of (AList.delete room (scheduledRounds s)) r = Some slot" for r slot
  proof -
    have r: "r \<noteq> room" "map_of (scheduledRounds s) r = Some slot" using that by (auto split: if_splits)
    obtain h due t where "slot = \<lparr>sr_roundNumber = t_round t, sr_generation = t_generation t, sr_timeout = Some h\<rparr>"
      "waiting (executor_state s) h = Some (due, t)" "t_room t = r" using r(2) by (rule in_step_slot[OF ok])
    then show ?thesis using r(1) x(2) by auto
  qed
  then show ?thesis using x in_step_waiting[OF ok] by (simp add: in_step_def)
qed

lemma in_step_delete: "in_step s \<Longrightarrow> in_step (s\<lparr>scheduledRounds := AList.delete room (scheduledRounds s),
    executor_state := executor_state (cancelQuietly X (map_of (scheduledRounds s) room) s)\<rparr>)"
  using in_step_released[OF _ cancelQuietly_waiting[OF _ refl], of s "started s"] by simp

lemma in_step_fired:
  assumes ok: "in_step s" and h: "waiting (executor_state s) h = Some (due, t)"
    and x: "proper x" "waiting x = (waiting (executor_state s))(h := None)"
  shows "runIfCurrent t (s\<lparr>executor_state := x\<rparr>) = s\<lparr>scheduledRounds := AList.delete (t_room t) (scheduledRounds s),
      executor_state := x, started := started s @ [t]\<rparr>"
    and "in_step (runIfCurrent t (s\<lparr>executor_state := x\<rparr>))"
proof -
  note slot = in_step_waiting[OF ok h]
  show eq: "runIfCurrent t (s\<lparr>executor_state := x\<rparr>) = s\<lparr>scheduledRounds := AList.delete (t_room t) (scheduledRounds s),
      executor_state := x, started := started s @ [t]\<rparr>"
    using slot by (simp add: runIfCurrent_def)
  have "waiting x h' = Some (due', t') \<longleftrightarrow> waiting (executor_state s) h' = Some (due', t') \<and> t_room t' \<noteq> t_room t" for h' due' t'
    using in_step_waiting[OF ok, of h' due' t'] slot h by (auto simp: x(2))
  then show "in_step (runIfCurrent t (s\<lparr>executor_state := x\<rparr>))"
    unfolding eq by (rule in_step_released[OF ok x(1)])
qed

lemma stop_waiting:
  assumes ok: "in_step s"
  shows "in_step (stop X s)"
proof -
  have "proper (executor_state s') \<Longrightarrow> proper (executor_state (fold (\<lambda>(_, slot). cancelQuietly X (Some slot)) ps s'))
      \<and> (\<forall>h. waiting (executor_state (fold (\<lambda>(_, slot). cancelQuietly X (Some slot)) ps s')) h
          = (if \<exists>p \<in> set ps. sr_timeout (snd p) = Some h then None else waiting (executor_state s') h))" for ps s'
  proof (induction ps arbitrary: s')
    case (Cons p ps)
    have "proper (executor_state (cancelQuietly X (Some (snd p)) s')) \<and> (\<forall>h. waiting (executor_state (cancelQuietly X (Some (snd p)) s')) h
        = (if sr_timeout (snd p) = Some h then None else waiting (executor_state s') h))"
      using Cons.prems cancel_law by (auto simp: cancelQuietly_def split: option.split)
    then show ?case using Cons.IH[of "cancelQuietly X (Some (snd p)) s'"] by (simp add: case_prod_beta)
  qed simp
  note run = this[OF in_step_proper[OF ok], of "scheduledRounds s"]
  have "waiting (executor_state (stop X s)) h = None" for h
  proof (cases "waiting (executor_state s) h")
    case (Some p)
    then obtain due t where "waiting (executor_state s) h = Some (due, t)" by (cases p) simp
    from in_step_waiting[OF ok this] have "\<exists>p \<in> set (scheduledRounds s). sr_timeout (snd p) = Some h"
      by (metis (no_types, lifting) map_of_SomeD scheduled_round.select_convs(3) snd_conv)
    then show ?thesis using run by (simp add: stop_def)
  qed (use run in \<open>simp add: stop_def\<close>)
  then show ?thesis using run by (simp add: in_step_def stop_def)
qed

lemma in_step_step:
  assumes ok: "in_step s"
  shows "in_step (sched_step X e s)"
proof (cases e)
  case (Schedule now room n deadline action)
  show ?thesis
  proof (cases "blank room \<or> n < 1")
    case False
    then have "\<not> blank room" "\<not> n < 1" by auto
    then show ?thesis
    proof (cases rule: schedule_cases[of room n s action X deadline now])
      case (1 x h t)
      show ?thesis using in_step_booked(2)[OF ok 1(2,1)] by (simp add: Schedule 1(3))
    next
      case (2 x h t)
      show ?thesis using in_step_booked(1)[OF ok 2(2,1)] by simp
    qed
  qed (simp add: Schedule schedule_refused ok)
next
  case (CancelRound room n)
  show ?thesis
  proof (cases "map_of (scheduledRounds s) room")
    case (Some slot)
    then show ?thesis using ok in_step_delete[OF ok, of room] by (simp add: CancelRound cancel_round_eq)
  qed (simp add: CancelRound cancel_round_eq ok)
next
  case (CancelRoom room)
  show ?thesis
  proof (cases "map_of (scheduledRounds s) room")
    case (Some slot)
    then show ?thesis using in_step_delete[OF ok, of room] by (simp add: CancelRoom cancel_room_eq)
  qed (simp add: CancelRoom cancel_room_eq ok)
next
  case Stop then show ?thesis using stop_waiting[OF ok] by simp
next
  case (Moves m)
  obtain r x where m: "exec_move X m (executor_state s) = (r, x)" by (cases "exec_move X m (executor_state s)")
  note law = move_law[OF in_step_proper[OF ok] m]
  show ?thesis
  proof (cases r)
    case None
    then show ?thesis using law ok Moves m by (simp add: in_step_def)
  next
    case (Some t)
    then obtain h due where "waiting (executor_state s) h = Some (due, t)" "waiting x = (waiting (executor_state s))(h := None)"
      using law by auto
    then show ?thesis using in_step_fired(2)[OF ok] law Moves m Some by simp
  qed
qed

lemma in_step_run: "in_step s \<Longrightarrow> in_step (sched_run X es s)"
  by (induction es arbitrary: s) (simp_all add: sched_run_def in_step_step)

lemma in_step_new: "proper x \<Longrightarrow> waiting x = (\<lambda>h. None) \<Longrightarrow> in_step (new_scheduler x)"
  by (simp add: in_step_def new_scheduler_def)

text \<open>A booked deadline is still waiting, or its action was started, unless a step ended it.\<close>

definition kept :: "'a task \<Rightarrow> int \<Rightarrow> ('x, 'h, 'a) scheduler \<Rightarrow> bool" where
  "kept t due s \<longleftrightarrow> in_step s \<and> (t \<in> set (started s) \<or> (\<exists>h. waiting (executor_state s) h = Some (due, t)))"

lemma kept_booked:
  assumes "in_step s" "\<not> blank room" "1 \<le> n"
  obtains x where "kept \<lparr>t_room = room, t_round = n, t_generation = generations s + 1, t_action = action\<rparr>
    (due_at x (max 0 (deadline - now))) (snd (schedule X now room n deadline action s))"
    "x = executor_state (cancelQuietly X (map_of (scheduledRounds s) room) s)"
proof -
  have "\<not> n < 1" using assms(3) by simp
  from assms(2) this show thesis
  proof (cases rule: schedule_cases[of room n s action X deadline now])
    case (1 x h t)
    note b = in_step_booked[OF assms(1) 1(2,1)]
    show thesis
      by (rule that[OF _ refl]) (use b(2,3) 1(1) in \<open>auto simp: kept_def 1(3)\<close>)
  next
    case (2 x h t)
    show thesis using in_step_booked(1)[OF assms(1) 2(2,1)] by simp
  qed
qed

lemma kept_step:
  assumes kept: "kept t due s" and quiet: "\<not> ends_deadline e (t_room t) {t_round t}"
  shows "kept t due (sched_step X e s)"
proof -
  have ok: "in_step s" and ok': "in_step (sched_step X e s)"
    using kept in_step_step by (auto simp: kept_def)
  have log: "t \<in> set (started s) \<Longrightarrow> t \<in> set (started (sched_step X e s))"
    by (rule started_step)
  have "t \<in> set (started (sched_step X e s)) \<or> (\<exists>h. waiting (executor_state (sched_step X e s)) h = Some (due, t))"
    if h: "waiting (executor_state s) h = Some (due, t)" for h
  proof (cases e)
    case (Schedule now room n deadline action)
    show ?thesis
    proof (cases "blank room \<or> n < 1")
      case False
      then have "\<not> blank room" "\<not> n < 1" by auto
      then show ?thesis
      proof (cases rule: schedule_cases[of room n s action X deadline now])
        case (1 x h' t')
        have "t_room t \<noteq> room" using quiet False by (auto simp: Schedule)
        then show ?thesis using in_step_booked(4)[OF ok 1(2,1) h] by (auto simp: Schedule 1(3))
      next
        case (2 x h t)
        show ?thesis using in_step_booked(1)[OF ok 2(2,1)] by simp
      qed
    qed (use h in \<open>auto simp: Schedule schedule_refused\<close>)
  next
    case (CancelRound room n)
    show ?thesis
    proof (cases "map_of (scheduledRounds s) room")
      case (Some slot)
      then show ?thesis using h cancelQuietly_waiting(2)[OF ok refl, of room h due t] in_step_waiting[OF ok h] quiet
        by (auto simp: CancelRound cancel_round_eq)
    qed (use h in \<open>auto simp: CancelRound cancel_round_eq\<close>)
  next
    case (CancelRoom room)
    show ?thesis
    proof (cases "map_of (scheduledRounds s) room")
      case (Some slot)
      then show ?thesis using h cancelQuietly_waiting(2)[OF ok refl, of room h due t] quiet
        by (auto simp: CancelRoom cancel_room_eq)
    qed (use h in \<open>auto simp: CancelRoom cancel_room_eq\<close>)
  next
    case Stop then show ?thesis using quiet by simp
  next
    case (Moves m)
    obtain r x where m: "exec_move X m (executor_state s) = (r, x)" by (cases "exec_move X m (executor_state s)")
    note law = move_law[OF in_step_proper[OF ok] m]
    show ?thesis
    proof (cases r)
      case None
      then show ?thesis using law h Moves m by auto
    next
      case (Some t')
      then obtain h' due' where h': "waiting (executor_state s) h' = Some (due', t')" "waiting x = (waiting (executor_state s))(h' := None)"
        using law by auto
      have "proper x" using law by simp
      from in_step_fired(1)[OF ok h'(1) this h'(2)] have "sched_step X e s = s\<lparr>scheduledRounds := AList.delete (t_room t') (scheduledRounds s),
          executor_state := x, started := started s @ [t']\<rparr>" using Moves m Some by simp
      then show ?thesis using h h' by (cases "h' = h") auto
    qed
  qed
  then show ?thesis using ok' log kept unfolding kept_def by blast
qed

lemma kept_run: "kept t due s \<Longrightarrow> list_all (\<lambda>e. \<not> ends_deadline e (t_room t) {t_round t}) es \<Longrightarrow> kept t due (sched_run X es s)"
  by (induction es arbitrary: s) (simp_all add: sched_run_def kept_step)

end

fun node_waiting :: "'a node_timers \<Rightarrow> nat \<Rightarrow> (int \<times> 'a task) option" where
  "node_waiting x h = map_of (pending x) h"

definition node_due :: "'a node_timers \<Rightarrow> int \<Rightarrow> int" where
  "node_due x d = node_clock x + node_delay d"

definition node_proper :: "'a node_timers \<Rightarrow> bool" where
  "node_proper x \<longleftrightarrow> (\<forall>h due t. (h, due, t) \<in> set (pending x) \<longrightarrow> h < next_timer x)"

lemma map_of_without: "map_of (filter (\<lambda>p. fst p \<noteq> h) ps) = (map_of ps)(h := None)"
  by (induction ps) auto

lemma node_proper_without: "node_proper x \<Longrightarrow> node_proper (x\<lparr>pending := filter P (pending x)\<rparr>)"
  by (simp add: node_proper_def) blast

lemma node_waiting_without: "node_waiting (x\<lparr>pending := filter (\<lambda>p. fst p \<noteq> h) (pending x)\<rparr>) = (node_waiting x)(h := None)"
  by (simp add: fun_eq_iff map_of_without)

interpretation node: timer_executor timerDeadlineExecutor node_waiting node_due node_proper
proof
  fix x x' :: "'a node_timers" and t :: "'a task" and d h i
  assume ok: "node_proper x" and e: "exec_schedule timerDeadlineExecutor x t d = (h, i, x')"
  have "node_waiting x (next_timer x) = None"
    using ok by (fastforce simp: node_proper_def map_of_eq_None_iff)
  then show "\<not> i \<and> node_proper x' \<and> node_waiting x h = None
      \<and> node_waiting x' = (node_waiting x)(h \<mapsto> (node_due x d, t))"
    using e ok by (auto simp: timerDeadlineExecutor_def node_proper_def node_due_def) (metis less_SucI)
next
  fix x :: "'a node_timers" and h
  assume "node_proper x"
  then show "node_proper (exec_cancel timerDeadlineExecutor x h)
      \<and> node_waiting (exec_cancel timerDeadlineExecutor x h) = (node_waiting x)(h := None)"
    using node_proper_without[of x] node_waiting_without by (simp add: timerDeadlineExecutor_def)
next
  fix x x' :: "'a node_timers" and m r
  assume ok: "node_proper x" and e: "exec_move timerDeadlineExecutor m x = (r, x')"
  show "node_proper x' \<and> (case r of None \<Rightarrow> node_waiting x' = node_waiting x
      | Some t \<Rightarrow> (\<exists>h due. node_waiting x h = Some (due, t) \<and> node_waiting x' = (node_waiting x)(h := None)))"
  proof (cases m)
    case (Elapse d) then show ?thesis using ok e by (auto simp: timerDeadlineExecutor_def node_proper_def fun_eq_iff) blast
  next
    case (Expire_timer h)
    show ?thesis
    proof (cases "case map_of (pending x) h of None \<Rightarrow> False | Some (due, t) \<Rightarrow> due \<le> node_clock x")
      case True
      then obtain due t where h: "map_of (pending x) h = Some (due, t)" "due \<le> node_clock x"
        by (auto split: option.splits)
      then have "r = Some t" "x' = x\<lparr>pending := filter (\<lambda>p. fst p \<noteq> h) (pending x)\<rparr>"
        using Expire_timer e by (simp_all add: timerDeadlineExecutor_def)
      then show ?thesis using node_proper_without[OF ok] h node_waiting_without by auto
    next
      case False
      then have "r = None" "x' = x"
        using Expire_timer e by (auto simp: timerDeadlineExecutor_def split: option.splits)
      then show ?thesis using ok by simp
    qed
  qed
qed

definition idle_scheduler :: "int \<Rightarrow> ('a node_timers, nat, 'a) scheduler" where
  "idle_scheduler c = new_scheduler \<lparr>pending = [], next_timer = 0, node_clock = c\<rparr>"

lemma node_clock_cancel: "node_clock (executor_state (cancelQuietly timerDeadlineExecutor p s)) = node_clock (executor_state s)"
  by (simp add: cancelQuietly_def timerDeadlineExecutor_def split: option.split)

lemma node_fires:
  assumes "node.in_step s" "map_of (pending (executor_state s)) h = Some (due, t)" "due \<le> node_clock (executor_state s)"
  shows "t \<in> set (started (sched_step timerDeadlineExecutor (Moves (Expire_timer h)) s))"
proof -
  define x where "x = (executor_state s)\<lparr>pending := filter (\<lambda>p. fst p \<noteq> h) (pending (executor_state s))\<rparr>"
  have m: "exec_move timerDeadlineExecutor (Expire_timer h) (executor_state s) = (Some t, x)"
    using assms(2,3) by (simp add: timerDeadlineExecutor_def x_def)
  have x: "node_proper x" "node_waiting x = (node_waiting (executor_state s))(h := None)"
    unfolding x_def using node_proper_without[OF node.in_step_proper[OF assms(1)]] node_waiting_without by simp_all
  have "node_waiting (executor_state s) h = Some (due, t)" using assms(2) by simp
  from node.in_step_fired(1)[OF assms(1) this x] show ?thesis using m by simp
qed

text \<open>C23: with Node's timers an accepted deadline is not lost: until a step replaces or cancels it, its action
  was started or its timer is waiting, due after the remaining time (at least one millisecond), and the
  timer starts the action when it is due. Nothing but the deadlines of the rooms is waiting.\<close>

theorem deadline_is_not_lost:
  assumes "\<not> blank room" "1 \<le> n" and quiet: "list_all (\<lambda>e. \<not> ends_deadline e room {n}) es'"
    and before: "before = sched_run timerDeadlineExecutor es (idle_scheduler c)"
    and after: "after = sched_run timerDeadlineExecutor es'
      (snd (schedule timerDeadlineExecutor now room n deadline action before))"
    and t: "t = \<lparr>t_room = room, t_round = n, t_generation = generations before + 1, t_action = action\<rparr>"
    and due: "due = node_clock (executor_state before) + node_delay (max 0 (deadline - now))"
  shows "(t \<in> set (started after) \<or> (\<exists>h. map_of (pending (executor_state after)) h = Some (due, t)
        \<and> (due \<le> node_clock (executor_state after) \<longrightarrow>
             t \<in> set (started (sched_step timerDeadlineExecutor (Moves (Expire_timer h)) after)))))
     \<and> (\<forall>h due' t'. map_of (pending (executor_state after)) h = Some (due', t') \<longrightarrow>
          map_of (scheduledRounds after) (t_room t') =
            Some \<lparr>sr_roundNumber = t_round t', sr_generation = t_generation t', sr_timeout = Some h\<rparr>)"
proof -
  have "node.in_step before"
    unfolding before idle_scheduler_def
    by (intro node.in_step_run node.in_step_new) (simp_all add: node_proper_def fun_eq_iff)
  from node.kept_booked[OF this assms(1,2), of action deadline now]
  have "node.kept t due (snd (schedule timerDeadlineExecutor now room n deadline action before))"
    unfolding t due node_due_def by (metis node_clock_cancel)
  then have kept: "node.kept t due after"
    unfolding after by (rule node.kept_run) (use quiet in \<open>simp add: t\<close>)
  then have ok: "node.in_step after" by (simp add: node.kept_def)
  show ?thesis
  proof (intro conjI allI impI)
    show "t \<in> set (started after) \<or> (\<exists>h. map_of (pending (executor_state after)) h = Some (due, t)
        \<and> (due \<le> node_clock (executor_state after) \<longrightarrow>
             t \<in> set (started (sched_step timerDeadlineExecutor (Moves (Expire_timer h)) after))))"
      using kept node_fires[OF ok] by (auto simp: node.kept_def)
  next
    fix h due' t' assume "map_of (pending (executor_state after)) h = Some (due', t')"
    then show "map_of (scheduledRounds after) (t_room t') =
        Some \<lparr>sr_roundNumber = t_round t', sr_generation = t_generation t', sr_timeout = Some h\<rparr>"
      using node.in_step_waiting[OF ok, of h due' t'] by simp
  qed
qed

definition sample_moves :: "(node_move, nat) sched_event list" where
  "sample_moves = [Schedule 0 ''r'' 1 100 0, Schedule 0 ''q'' 1 50 1, Moves (Elapse 40)]"

lemma deadline_is_not_lost_witness:
  "\<exists>h. map_of (pending (executor_state (sched_run timerDeadlineExecutor [Moves (Elapse 70), CancelRound ''r'' 1]
      (snd (schedule timerDeadlineExecutor 40 ''r'' 2 100 7 (sched_run timerDeadlineExecutor sample_moves (idle_scheduler 0))))))) h
    = Some (100, \<lparr>t_room = ''r'', t_round = 2, t_generation = 3, t_action = 7\<rparr>)"
proof -
  have "\<not> blank ''r''" by code_simp
  note * = deadline_is_not_lost[OF this _ _ refl refl refl refl, where n = 2 and es' = "[Moves (Elapse 70), CancelRound ''r'' 1]"
    and c = 0 and es = sample_moves and now = 40 and deadline = 100 and action = 7]
  have "generations (sched_run timerDeadlineExecutor sample_moves (idle_scheduler 0)) = 2"
    "node_clock (executor_state (sched_run timerDeadlineExecutor sample_moves (idle_scheduler 0))) + node_delay (max 0 (100 - 40)) = 100"
    "started (sched_run timerDeadlineExecutor [Moves (Elapse 70), CancelRound ''r'' 1]
      (snd (schedule timerDeadlineExecutor 40 ''r'' 2 100 7 (sched_run timerDeadlineExecutor sample_moves (idle_scheduler 0))))) = []"
    by code_simp+
  with * show ?thesis by (auto simp: eval_nat_numeral)
qed

definition unruly_past :: "(nat task list, nat, nat) scheduler" where
  "unruly_past = sched_run (unruly_executor (\<lambda>_. False)) [Schedule 0 ''r'' 1 5 0] (new_scheduler [])"

lemma cancelled_deadline_never_fires_witness:
  "\<lparr>t_room = ''r'', t_round = 1, t_generation = 1, t_action = 0\<rparr> \<notin> set (started (sched_run (unruly_executor (\<lambda>_. False))
     [Moves 0, Moves 1, Moves 0] (sched_step (unruly_executor (\<lambda>_. False)) (Schedule 0 ''r'' 1 5 1) unruly_past)))
   \<and> started (sched_run (unruly_executor (\<lambda>_. False)) [Moves 0, Moves 1, Moves 0]
        (sched_step (unruly_executor (\<lambda>_. False)) (Schedule 0 ''r'' 1 5 1) unruly_past))
      = [\<lparr>t_room = ''r'', t_round = 1, t_generation = 2, t_action = 1\<rparr>]"
proof -
  have "ends_deadline (Schedule 0 ''r'' 1 5 1) ''r'' {1}" by (simp add: blank_def is_blank_char_def)
  moreover have "generations unruly_past = 1" "started (sched_step (unruly_executor (\<lambda>_. False)) (Schedule 0 ''r'' 1 5 1) unruly_past) = []"
    by code_simp+
  moreover have "started (sched_run (unruly_executor (\<lambda>_. False)) [Moves 0, Moves 1, Moves 0]
        (sched_step (unruly_executor (\<lambda>_. False)) (Schedule 0 ''r'' 1 5 1) unruly_past))
      = [\<lparr>t_room = ''r'', t_round = 1, t_generation = 2, t_action = 1\<rparr>]" by code_simp
  ultimately show ?thesis
    using cancelled_deadline_never_fires[where es' = "[Moves 0, Moves 1, Moves 0]" and X = "unruly_executor (\<lambda>_. False)"
        and es = "[Schedule 0 ''r'' 1 5 0]" and x = "[]" and e = "Schedule 0 ''r'' 1 5 1" and room = "''r''" and ns = "{1}"
        and u = "\<lparr>t_room = ''r'', t_round = 1, t_generation = 1, t_action = 0\<rparr>"]
    unfolding unruly_past_def by auto
qed

end
