(* ===== verification/RoundTimer.thy ===== *)
theory RoundTimer
  imports DeadlineScheduler RoundsTheorems "HOL-Library.Signed_Division"
begin

text \<open>
  The turn clock of the dice game: \<open>game/round/roundTimerService.ts\<close> with \<open>roundTurnClock.ts\<close>,
  \<open>roundTiming.ts\<close>, \<open>roundOfflineTurns.ts\<close>, \<open>roundPlayerRemoval.ts\<close>, \<open>roundTimeoutResolver.ts\<close>,
  \<open>roundSynchronizationService.ts\<close>, the score submission (\<open>score/scoreRoundSubmissionService.ts\<close>) and the end
  of a game (\<open>completion/gameCompletionService.ts\<close>, \<open>gameResultCalculator.ts\<close>).

  The state is what these objects share: the store of the rounds (the in-memory store; the Redis store refines
  it), the deadline scheduler over Node's timers, the deadline store, the maps of the timer service, the
  messages broadcast so far and the rest of the process as a \<open>'w\<close>. What the code reaches through ports
  (\<open>RoundRoomService\<close>, \<open>RoundPresence\<close>, the score confirmation, the completion store, the archive) is a record
  of operations on that \<open>'w\<close>, each of which may throw. Envelopes keep what differs between them: kind, payload
  and \<open>msgId\<close>. One call runs to its end before the next begins.

  \<open>start\<close>, \<open>advanceTurn\<close>, \<open>removePlayer\<close> and the handling of absent players call each other. The recursion
  carries fuel; \<open>turns_fuel\<close> is enough (RoundTimerTheorems).
\<close>

section \<open>Rooms, messages and ports\<close>

record room_seat =
  seat_playerId :: string
  seat_kind :: string

record round_room =
  room_gameCode :: "string option"
  room_gameId :: "string option"
  room_players :: "room_seat list"

record ranking =
  rank_of :: nat
  rank_playerId :: string
  rank_total :: int

datatype 'b turn_message =
    RoundStart int "int option" string "string list"
  | RoundEnd int "string list"
  | ScoreUpdate string 'b "string option"
  | DiceBroadcast string int int "int list" "bool list" bool "string option"
  | HoldChanged string int "bool list" "string option"
  | PlayerLeft string
  | GameOver "ranking list"
  | StateSync

record ('w, 'e, 'b) turn_ports =
  getSnapshot :: "string \<Rightarrow> ('w, 'e, round_room option) cmd"
  touch :: "string \<Rightarrow> ('w, 'e, unit) cmd"
  leave :: "string \<Rightarrow> string \<Rightarrow> ('w, 'e, unit) cmd"
  find_status :: "'w \<Rightarrow> string \<Rightarrow> string \<Rightarrow> string option"
  seat_removal :: "string \<Rightarrow> string \<Rightarrow> 'w \<Rightarrow> bool \<times> 'w"
  markPhase :: "string \<Rightarrow> string \<Rightarrow> 'w \<Rightarrow> 'w"
  confirm_score :: "string \<Rightarrow> string \<Rightarrow> int \<Rightarrow> string \<Rightarrow> int list \<Rightarrow> ('w, 'e, 'b) cmd"
  open_categories :: "string \<Rightarrow> string \<Rightarrow> ('w, 'e, string list) cmd"
  completion_finish :: "string \<Rightarrow> string \<Rightarrow> bool \<Rightarrow> ('w, 'e, bool) cmd"
  readTotals :: "string \<Rightarrow> ('w, 'e, (string \<times> int) list) cmd"
  match_archive :: "round_room \<Rightarrow> ranking list \<Rightarrow> ('w, 'e, unit) cmd"
  live_snapshot :: "string \<Rightarrow> ('w, 'e, unit) cmd"
  die_roller :: "'w \<Rightarrow> int \<times> 'w"
  categoryPicker :: "nat \<Rightarrow> 'w \<Rightarrow> int \<times> 'w"

section \<open>The state\<close>

text \<open>A turn's deadline: the round it belongs to and the time shown to the players, if any.\<close>

type_synonym turn_deadline = "int \<times> int option"

record ('w, 'b) turn_state =
  ts_rounds :: round_store
  ts_scheduler :: "(string node_timers, nat, string) scheduler"
  ts_deadlines :: "(string \<times> turn_deadline) list"
  activeDeadlines :: "(string \<times> turn_deadline) list"
  misses :: "(string \<times> (string \<times> nat) list) list"
  ts_sent :: "(string \<times> 'b turn_message) list"
  ts_begun :: "(string \<times> round_state) list"
  ts_warnings :: "(string \<times> string) list"
  ts_world :: 'w

datatype 'e submission_fault = GameNotFound | ScoreFault 'e

datatype 'e turn_error =
    Rounds "'e submission_fault round_error"
  | PortFault 'e
  | SchedulerFault string
  | InvalidEventType
  | NotResumable
  | OutOfFuel

type_synonym ('w, 'e, 'b, 'a) turn_cmd = "(('w, 'b) turn_state, 'e turn_error, 'a) cmd"

definition clock_now :: "('w, 'b) turn_state \<Rightarrow> int" where
  "clock_now ts = node_clock (executor_state (ts_scheduler ts))"

definition in_world :: "('w, 'e, 'a) cmd \<Rightarrow> ('w, 'e, 'b, 'a) turn_cmd" where
  "in_world f = (\<lambda>ts. case f (ts_world ts) of (r, w) \<Rightarrow> (map_sum PortFault id r, ts\<lparr>ts_world := w\<rparr>))"

definition on_store :: "('e submission_fault, 'a) on_rounds \<Rightarrow> ('w, 'e, 'b, 'a) turn_cmd" where
  "on_store f = (\<lambda>ts. case f (ts_rounds ts) of (r, st) \<Rightarrow> (map_sum Rounds id r, ts\<lparr>ts_rounds := st\<rparr>))"

definition broadcast :: "string \<Rightarrow> 'b turn_message \<Rightarrow> ('w, 'e, 'b, unit) turn_cmd" where
  "broadcast room m = (\<lambda>ts. (Inr (), ts\<lparr>ts_sent := ts_sent ts @ [(room, m)]\<rparr>))"

definition warn :: "string \<Rightarrow> string \<Rightarrow> ('w, 'e, 'b, unit) turn_cmd" where
  "warn room reason = (\<lambda>ts. (Inr (), ts\<lparr>ts_warnings := ts_warnings ts @ [(room, reason)]\<rparr>))"

section \<open>Constants and the roster\<close>

definition ROUND_DURATION_MS :: int where "ROUND_DURATION_MS = 25000"
definition EXPIRY_GRACE_MS :: int where "EXPIRY_GRACE_MS = 1000"
definition MAX_OFFLINE_TURNS :: nat where "MAX_OFFLINE_TURNS = 2"
definition UNTIMED_HUMAN_LIMIT :: nat where "UNTIMED_HUMAN_LIMIT = 1"

definition isBot :: "round_room option \<Rightarrow> string \<Rightarrow> bool" where
  "isBot room p = (case room of None \<Rightarrow> False
     | Some r \<Rightarrow> list_ex (\<lambda>s. seat_playerId s = p \<and> seat_kind s = ''BOT'') (room_players r))"

definition isUntimedRoom :: "round_room option \<Rightarrow> bool" where
  "isUntimedRoom room = (case room of None \<Rightarrow> False
     | Some r \<Rightarrow> length (filter (\<lambda>s. seat_kind s \<noteq> ''BOT'') (room_players r)) \<le> UNTIMED_HUMAN_LIMIT)"

section \<open>The round service\<close>

fun roll_times :: "nat \<Rightarrow> ('w, 'e, 'b) turn_ports \<Rightarrow> 'w \<Rightarrow> int list \<times> 'w" where
  "roll_times 0 P w = ([], w)"
| "roll_times (Suc n) P w = (case die_roller P w of (d, w1) \<Rightarrow> case roll_times n P w1 of (ds, w2) \<Rightarrow> (d # ds, w2))"

definition rollDice :: "('w, 'e, 'b) turn_ports \<Rightarrow> ('w, 'e, 'b, int list) turn_cmd" where
  "rollDice P = (\<lambda>ts. case roll_times DICE_COUNT P (ts_world ts) of (ds, w) \<Rightarrow> (Inr ds, ts\<lparr>ts_world := w\<rparr>))"

definition rounds_initialize :: "string \<Rightarrow> int \<Rightarrow> string list \<Rightarrow> int \<Rightarrow> ('w, 'e, 'b, round_state) turn_cmd" where
  "rounds_initialize room n participants tot = (case start_round n participants tot of
     Inl e \<Rightarrow> throw (Rounds (Sync e))
   | Inr s \<Rightarrow> andThen (on_store (initialize_round room s)) (\<lambda>_. ret s))"

definition rounds_expire :: "string \<Rightarrow> int \<Rightarrow> string \<Rightarrow> ('w, 'e, 'b, round_result option) turn_cmd" where
  "rounds_expire room n p = on_store (expireAtomically room n p)"

definition rounds_autoRoll :: "('w, 'e, 'b) turn_ports \<Rightarrow> string \<Rightarrow> int \<Rightarrow> string \<Rightarrow> ('w, 'e, 'b, round_state option) turn_cmd" where
  "rounds_autoRoll P room n p = andThen (rollDice P) (\<lambda>dice. on_store (autoRollAtomically room n p dice))"

definition rounds_recordRoll :: "('w, 'e, 'b) turn_ports \<Rightarrow> string \<Rightarrow> string \<Rightarrow> int \<Rightarrow> int \<Rightarrow> bool list
    \<Rightarrow> ('w, 'e, 'b, round_state) turn_cmd" where
  "rounds_recordRoll P room p n k held = andThen (rollDice P) (\<lambda>dice. on_store (recordRollAtomically room
     \<lparr>rr_playerId = p, rr_roundNumber = n, rr_rollCount = k, rr_held = held, rr_rolledDice = dice\<rparr>))"

definition rounds_recordHold :: "string \<Rightarrow> string \<Rightarrow> int \<Rightarrow> bool list \<Rightarrow> ('w, 'e, 'b, round_state) turn_cmd" where
  "rounds_recordHold room p n held = on_store (recordHoldAtomically room p n held)"

definition rounds_removeParticipant :: "string \<Rightarrow> string \<Rightarrow> ('w, 'e, 'b, round_state option) turn_cmd" where
  "rounds_removeParticipant room p = on_store (removeParticipantAtomically room p)"

definition rounds_find :: "string \<Rightarrow> ('w, 'e, 'b, round_state option) turn_cmd" where
  "rounds_find room = on_store (findByRoomId room)"

definition rounds_remove :: "string \<Rightarrow> ('w, 'e, 'b, bool) turn_cmd" where
  "rounds_remove room = on_store (remove_round room)"

definition game_of :: "round_room option \<Rightarrow> string option" where
  "game_of room = (case room of None \<Rightarrow> None | Some r \<Rightarrow> (case room_gameId r of None \<Rightarrow> None
     | Some g \<Rightarrow> if blank g then None else Some g))"

text \<open>Submission and confirmation in one: the holder carries the score out of the callback.\<close>

definition confirm_submission :: "('w, 'e, 'b) turn_ports \<Rightarrow> string \<Rightarrow> round_submission
    \<Rightarrow> ('w \<times> 'b option, 'e submission_fault, unit) cmd" where
  "confirm_submission P room sub = (\<lambda>(w, holder). case getSnapshot P room w of
     (Inl e, w1) \<Rightarrow> (Inl (ScoreFault e), (w1, holder))
   | (Inr r, w1) \<Rightarrow> (case game_of r of None \<Rightarrow> (Inl GameNotFound, (w1, holder))
     | Some g \<Rightarrow> (case confirm_score P g (rs_playerId sub) (rs_roundNumber sub) (rs_category sub) (rs_dice sub) w1 of
         (Inl e, w2) \<Rightarrow> (Inl (ScoreFault e), (w2, holder)) | (Inr b, w2) \<Rightarrow> (Inr (), (w2, Some b)))))"

definition submission_submit :: "('w, 'e, 'b) turn_ports \<Rightarrow> string \<Rightarrow> string \<Rightarrow> int \<Rightarrow> int list \<Rightarrow> string
    \<Rightarrow> ('w, 'e, 'b, (string \<times> 'b) option \<times> round_result) turn_cmd" where
  "submission_submit P room p n dice category = (\<lambda>ts. case new_submission p n dice category of
     Inl e \<Rightarrow> (Inl (Rounds (Sync e)), ts)
   | Inr sub \<Rightarrow> (case submitAtomically room sub (confirm_submission P room sub) (ts_rounds ts, (ts_world ts, None)) of
       (r, (st, (w, holder))) \<Rightarrow> (map_sum Rounds (\<lambda>result. (map_option (Pair p) holder, result)) r,
         ts\<lparr>ts_rounds := st, ts_world := w\<rparr>)))"

section \<open>The end of a game\<close>

definition byTotalDescThenPlayerId :: "string \<times> int \<Rightarrow> string \<times> int \<Rightarrow> int" where
  "byTotalDescThenPlayerId l r = (if snd l \<noteq> snd r then snd r - snd l
     else if fst l < fst r then - 1 else if fst r < fst l then 1 else 0)"

fun rank_from :: "nat \<Rightarrow> nat \<Rightarrow> int option \<Rightarrow> (string \<times> int) list \<Rightarrow> ranking list" where
  "rank_from index rank previous [] = []"
| "rank_from index rank previous ((p, t) # rest) = (let rank' = (if previous = Some t then rank else index + 1) in
     \<lparr>rank_of = rank', rank_playerId = p, rank_total = t\<rparr> # rank_from (index + 1) rank' (Some t) rest)"

definition rankTotals :: "(string \<times> int) list \<Rightarrow> ranking list" where
  "rankTotals totals = rank_from 0 0 None (sort_by byTotalDescThenPlayerId totals)"

definition archive :: "('w, 'e, 'b) turn_ports \<Rightarrow> string \<Rightarrow> round_room \<Rightarrow> ranking list \<Rightarrow> ('w, 'e, 'b, unit) turn_cmd" where
  "archive P room r rankings = try_catch (in_world (match_archive P r rankings)) (\<lambda>_. warn room ''archive_failure'')"

text \<open>\<open>gameWsType\<close> throws when the room has no game code.\<close>

definition game_event :: "round_room \<Rightarrow> ('w, 'e, 'b, unit) turn_cmd" where
  "game_event r = (case room_gameCode r of None \<Rightarrow> throw InvalidEventType
     | Some code \<Rightarrow> if blank code then throw InvalidEventType else ret ())"

definition finishIfComplete :: "('w, 'e, 'b) turn_ports \<Rightarrow> string \<Rightarrow> bool \<Rightarrow> ('w, 'e, 'b, bool) turn_cmd" where
  "finishIfComplete P room force = andThen (in_world (getSnapshot P room)) (\<lambda>snapshot.
     case (snapshot, game_of snapshot) of
       (Some r, Some g) \<Rightarrow> andThen (in_world (completion_finish P room g force)) (\<lambda>won.
         if \<not> won then ret False
         else andThen (\<lambda>ts. (Inr (), ts\<lparr>ts_scheduler := cancel_room timerDeadlineExecutor room (ts_scheduler ts),
                ts_world := markPhase P room ''finished'' (ts_world ts)\<rparr>)) (\<lambda>_.
              andThen (in_world (readTotals P room)) (\<lambda>totals.
              andThen (archive P room r (rankTotals totals)) (\<lambda>_.
              andThen (game_event r) (\<lambda>_.
              andThen (broadcast room (GameOver (rankTotals totals))) (\<lambda>_.
              andThen (in_world (live_snapshot P room)) (\<lambda>_.
              andThen (broadcast room StateSync) (\<lambda>_. ret True))))))))
     | _ \<Rightarrow> ret False)"

section \<open>Deadlines of turns\<close>

definition cancel_turn :: "string \<Rightarrow> int \<Rightarrow> ('w, 'e, 'b, unit) turn_cmd" where
  "cancel_turn room n = (\<lambda>ts. (Inr (), ts\<lparr>ts_scheduler := cancel_round timerDeadlineExecutor room n (ts_scheduler ts),
     activeDeadlines := (case map_of (activeDeadlines ts) room of Some (m, _) \<Rightarrow>
         if m = n then AList.delete room (activeDeadlines ts) else activeDeadlines ts | None \<Rightarrow> activeDeadlines ts),
     ts_deadlines := (case map_of (ts_deadlines ts) room of Some (m, _) \<Rightarrow>
         if m = n then AList.delete room (ts_deadlines ts) else ts_deadlines ts | None \<Rightarrow> ts_deadlines ts)\<rparr>))"

definition cancelRoom :: "string \<Rightarrow> ('w, 'e, 'b, unit) turn_cmd" where
  "cancelRoom room = (\<lambda>ts. (Inr (), ts\<lparr>ts_scheduler := cancel_room timerDeadlineExecutor room (ts_scheduler ts),
     activeDeadlines := AList.delete room (activeDeadlines ts), misses := AList.delete room (misses ts),
     ts_deadlines := AList.delete room (ts_deadlines ts)\<rparr>))"

definition clearOfflineMisses :: "string \<Rightarrow> string \<Rightarrow> ('w, 'e, 'b, unit) turn_cmd" where
  "clearOfflineMisses room p = (\<lambda>ts. (Inr (), case map_of (misses ts) room of None \<Rightarrow> ts
     | Some m \<Rightarrow> (let m' = AList.delete p m in
         ts\<lparr>misses := (if m' = [] then AList.delete room (misses ts) else AList.update room m' (misses ts))\<rparr>)))"

definition currentDeadline :: "('w, 'b) turn_state \<Rightarrow> string \<Rightarrow> int option option" where
  "currentDeadline ts room = map_option snd (map_of (activeDeadlines ts) room)"

text \<open>\<open>restored\<close> is the stored deadline of a resumed turn.\<close>

definition armTurn :: "string \<Rightarrow> round_state \<Rightarrow> round_room option \<Rightarrow> int option option \<Rightarrow> ('w, 'e, 'b, int option) turn_cmd" where
  "armTurn room s rm restored = (\<lambda>ts. case activePlayerId s of Inl e \<Rightarrow> (Inl (Rounds (Sync e)), ts)
     | Inr active \<Rightarrow>
       (let n = roundNumber s;
            deadline = (case restored of Some d \<Rightarrow> d
              | None \<Rightarrow> if isUntimedRoom rm then None else Some (clock_now ts + ROUND_DURATION_MS));
            ts1 = ts\<lparr>activeDeadlines := AList.update room (n, deadline) (activeDeadlines ts)\<rparr>;
            ts2 = (if restored = None then ts1\<lparr>ts_deadlines := AList.update room (n, deadline) (ts_deadlines ts1)\<rparr> else ts1);
            expireAt = (case deadline of Some d \<Rightarrow> Some d
              | None \<Rightarrow> if isBot rm active then Some (clock_now ts + ROUND_DURATION_MS) else None);
            armed = (case expireAt of None \<Rightarrow> (Inr (), ts_scheduler ts2)
              | Some t \<Rightarrow> schedule timerDeadlineExecutor (clock_now ts2) room n (t + EXPIRY_GRACE_MS) active (ts_scheduler ts2));
            ts3 = ts2\<lparr>ts_scheduler := snd armed\<rparr>
        in case fst armed of Inl e \<Rightarrow> (Inl (SchedulerFault e), ts3)
          | Inr _ \<Rightarrow> andThen (broadcast room (RoundStart n deadline active (participantOrder s))) (\<lambda>_. ret deadline) ts3))"

definition isOffline :: "('w, 'e, 'b) turn_ports \<Rightarrow> round_room option \<Rightarrow> string \<Rightarrow> string \<Rightarrow> ('w, 'b) turn_state \<Rightarrow> bool" where
  "isOffline P rm room p ts = (if isBot rm p then False
     else (case find_status P (ts_world ts) room p of None \<Rightarrow> True | Some status \<Rightarrow> status = ''offline''))"

section \<open>Turns\<close>

type_synonym 'b turn_advance = "(string \<times> 'b) option \<times> round_result"

text \<open>The callbacks are those the service hands to \<open>OfflineTurns\<close> and \<open>removePlayerFromRound\<close>.\<close>

definition offline_handle :: "(string \<Rightarrow> string \<Rightarrow> ('w, 'e, 'b, unit) turn_cmd) \<Rightarrow> (string \<Rightarrow> 'b turn_advance \<Rightarrow> ('w, 'e, 'b, unit) turn_cmd)
    \<Rightarrow> string \<Rightarrow> round_state \<Rightarrow> ('w, 'e, 'b, unit) turn_cmd" where
  "offline_handle removePlayer advance room s = (\<lambda>ts. case activePlayerId s of Inl e \<Rightarrow> (Inl (Rounds (Sync e)), ts)
     | Inr p \<Rightarrow>
       (let m = (case map_of (misses ts) room of Some m \<Rightarrow> m | None \<Rightarrow> []);
            count = value_at m p 0 + 1;
            ts1 = ts\<lparr>misses := AList.update room (AList.update p count m) (misses ts)\<rparr>
        in if count \<ge> MAX_OFFLINE_TURNS then removePlayer room p ts1
           else andThen (rounds_expire room (roundNumber s) p) (\<lambda>expired. case expired of None \<Rightarrow> ret ()
             | Some result \<Rightarrow> advance room (None, result)) ts1))"

definition removePlayerFromRound :: "('w, 'e, 'b) turn_ports \<Rightarrow> (string \<Rightarrow> 'b turn_advance \<Rightarrow> ('w, 'e, 'b, unit) turn_cmd)
    \<Rightarrow> string \<Rightarrow> string \<Rightarrow> ('w, 'e, 'b, unit) turn_cmd" where
  "removePlayerFromRound P advance room p =
    andThen (clearOfflineMisses room p) (\<lambda>_.
    andThen (\<lambda>ts. case seat_removal P room p (ts_world ts) of (removed, w) \<Rightarrow> (Inr removed, ts\<lparr>ts_world := w\<rparr>)) (\<lambda>removed.
    andThen (in_world (leave P room p)) (\<lambda>_.
    andThen (if removed then broadcast room (PlayerLeft p) else ret ()) (\<lambda>_.
    andThen (rounds_find room) (\<lambda>found. case found of None \<Rightarrow> ret ()
      | Some s \<Rightarrow> if rd_finished s \<or> p \<notin> set (participantOrder s) then ret ()
        else if length (participantOrder s) = 1
        then andThen (cancelRoom room) (\<lambda>_. andThen (rounds_remove room) (\<lambda>_. ret ()))
        else (case activePlayerId s of Inl e \<Rightarrow> throw (Rounds (Sync e))
          | Inr active \<Rightarrow> if active = p
            then andThen (rounds_expire room (roundNumber s) p) (\<lambda>expired.
                 andThen (rounds_removeParticipant room p) (\<lambda>updated. case (expired, updated) of
                   (Some (_, completed), Some s') \<Rightarrow> advance room (None, (s', completed)) | _ \<Rightarrow> ret ()))
            else andThen (rounds_removeParticipant room p) (\<lambda>_. ret ())))))))"

definition beginTurn :: "('w, 'e, 'b) turn_ports \<Rightarrow> (string \<Rightarrow> round_state \<Rightarrow> ('w, 'e, 'b, unit) turn_cmd)
    \<Rightarrow> string \<Rightarrow> round_state \<Rightarrow> int option option \<Rightarrow> ('w, 'e, 'b, int option) turn_cmd" where
  "beginTurn P handle room s restored = andThen (in_world (getSnapshot P room)) (\<lambda>rm ts.
     case (if restored = None then map_sum id (\<lambda>p. isOffline P rm room p ts) (activePlayerId s) else Inr False) of
       Inl e \<Rightarrow> (Inl (Rounds (Sync e)), ts)
     | Inr True \<Rightarrow> andThen (handle room s) (\<lambda>_. ret None) ts
     | Inr False \<Rightarrow> andThen (in_world (touch P room)) (\<lambda>_. andThen (armTurn room s rm restored) (\<lambda>deadline ts.
         (Inr deadline, ts\<lparr>ts_begun := ts_begun ts @ [(room, s)]\<rparr>))) ts)"

definition advance_turn :: "('w, 'e, 'b) turn_ports \<Rightarrow> (string \<Rightarrow> round_state \<Rightarrow> ('w, 'e, 'b, int option) turn_cmd)
    \<Rightarrow> string option \<Rightarrow> string \<Rightarrow> 'b turn_advance \<Rightarrow> ('w, 'e, 'b, unit) turn_cmd" where
  "advance_turn P start msgId room input = (case input of (score, s, completion) \<Rightarrow>
     andThen (cancel_turn room (case completion of None \<Rightarrow> roundNumber s | Some c \<Rightarrow> rc_roundNumber c)) (\<lambda>_.
     andThen (case score of None \<Rightarrow> ret () | Some (p, board) \<Rightarrow> broadcast room (ScoreUpdate p board msgId)) (\<lambda>_.
     andThen (case completion of None \<Rightarrow> ret False
         | Some c \<Rightarrow> andThen (broadcast room (RoundEnd (rc_roundNumber c) (submittedPlayerIds c))) (\<lambda>_.
             finishIfComplete P room (gameCompleted c))) (\<lambda>over.
     if over then ret ()
     else if rd_finished s then warn room ''round_cap_reached_without_finish''
     else andThen (start room s) (\<lambda>_. ret ())))))"

fun start_turn :: "nat \<Rightarrow> ('w, 'e, 'b) turn_ports \<Rightarrow> string \<Rightarrow> round_state \<Rightarrow> ('w, 'e, 'b, int option) turn_cmd" where
  "start_turn 0 P room s = throw OutOfFuel"
| "start_turn (Suc n) P room s =
    (let advance = advance_turn P (start_turn n P) None in
     beginTurn P (offline_handle (removePlayerFromRound P advance) advance) room s None)"

text \<open>What bounds the recursion: rounds to play, places to play in the round, and whether the game is over.\<close>

definition turns_fuel :: "round_state option \<Rightarrow> nat" where
  "turns_fuel s = (case s of None \<Rightarrow> 0 | Some s \<Rightarrow> if rd_finished s then 0
     else 1 + nat (totalRounds s - roundNumber s) * length (participantOrder s)
       + nat (int (length (participantOrder s)) - activePlayerIndex s))"

definition start_fuel :: "string \<Rightarrow> ('w, 'b) turn_state \<Rightarrow> nat" where
  "start_fuel room ts = Suc (turns_fuel (map_of (ts_rounds ts) room))"

definition timer_start :: "('w, 'e, 'b) turn_ports \<Rightarrow> string \<Rightarrow> round_state \<Rightarrow> ('w, 'e, 'b, int option) turn_cmd" where
  "timer_start P room s = (\<lambda>ts. start_turn (start_fuel room ts) P room s ts)"

definition timer_advanceTurn :: "('w, 'e, 'b) turn_ports \<Rightarrow> string option \<Rightarrow> string \<Rightarrow> 'b turn_advance \<Rightarrow> ('w, 'e, 'b, unit) turn_cmd" where
  "timer_advanceTurn P msgId room input = advance_turn P (timer_start P) msgId room input"

definition timer_removePlayer :: "('w, 'e, 'b) turn_ports \<Rightarrow> string \<Rightarrow> string \<Rightarrow> ('w, 'e, 'b, unit) turn_cmd" where
  "timer_removePlayer P room p = removePlayerFromRound P (timer_advanceTurn P None) room p"

definition resumeFromStored :: "('w, 'e, 'b) turn_ports \<Rightarrow> string \<Rightarrow> round_state \<Rightarrow> ('w, 'e, 'b, bool) turn_cmd" where
  "resumeFromStored P room s = (\<lambda>ts. case map_of (ts_deadlines ts) room of None \<Rightarrow> (Inr False, ts)
     | Some (n, deadline) \<Rightarrow> if n \<noteq> roundNumber s then (Inr False, ts)
       else andThen (beginTurn P (\<lambda>_ _. ret ()) room s (Some deadline)) (\<lambda>_. ret True) ts)"

section \<open>Turns that ran out of time\<close>

datatype timeout_resolution = Stale | AutoRolled round_state | Advanced round_result

definition advanceWithoutScore :: "string \<Rightarrow> int \<Rightarrow> string \<Rightarrow> ('w, 'e, 'b, timeout_resolution) turn_cmd" where
  "advanceWithoutScore room n p = andThen (rounds_expire room n p) (\<lambda>expired.
     ret (case expired of None \<Rightarrow> Stale | Some result \<Rightarrow> Advanced result))"

definition pickOpenCategory :: "('w, 'e, 'b) turn_ports \<Rightarrow> string \<Rightarrow> string \<Rightarrow> ('w, 'e, 'b, string option) turn_cmd" where
  "pickOpenCategory P room p = andThen (in_world (getSnapshot P room)) (\<lambda>rm. case game_of rm of
       None \<Rightarrow> andThen (warn room ''game_not_found'') (\<lambda>_. ret None)
     | Some g \<Rightarrow> andThen (in_world (open_categories P g p)) (\<lambda>open.
         if open = [] then andThen (warn room ''no_open_category'') (\<lambda>_. ret None)
         else (\<lambda>ts. case categoryPicker P (length open) (ts_world ts) of (pick, w) \<Rightarrow>
           (let k = int (length open); i = (pick smod k + k) smod k in
            (Inr (if 0 \<le> i \<and> nat i < length open then Some (open ! nat i) else None), ts\<lparr>ts_world := w\<rparr>)))))"

definition recordAndAdvance :: "('w, 'e, 'b) turn_ports \<Rightarrow> string \<Rightarrow> int \<Rightarrow> string \<Rightarrow> int list option
    \<Rightarrow> ('w, 'e, 'b, timeout_resolution) turn_cmd" where
  "recordAndAdvance P room n p dice = (case dice of
     None \<Rightarrow> andThen (warn room ''no_dice_on_expired_turn'') (\<lambda>_. advanceWithoutScore room n p)
   | Some d \<Rightarrow> (\<lambda>ts. case pickOpenCategory P room p ts of
       (Inl e, ts1) \<Rightarrow> andThen (warn room ''open_categories_unavailable'') (\<lambda>_. advanceWithoutScore room n p) ts1
     | (Inr None, ts1) \<Rightarrow> advanceWithoutScore room n p ts1
     | (Inr (Some category), ts1) \<Rightarrow> (case submission_submit P room p n d category ts1 of
         (Inl e, ts2) \<Rightarrow> andThen (warn room ''auto_score_failed'') (\<lambda>_. advanceWithoutScore room n p) ts2
       | (Inr (score, result), ts2) \<Rightarrow> andThen (case score of None \<Rightarrow> ret ()
             | Some (q, board) \<Rightarrow> broadcast room (ScoreUpdate q board None)) (\<lambda>_. ret (Advanced result)) ts2)))"

definition resolve :: "('w, 'e, 'b) turn_ports \<Rightarrow> string \<Rightarrow> int \<Rightarrow> string \<Rightarrow> ('w, 'e, 'b, timeout_resolution) turn_cmd" where
  "resolve P room n p = andThen (rounds_autoRoll P room n p) (\<lambda>rolled. case rolled of
     Some s \<Rightarrow> andThen (broadcast room (DiceBroadcast p (roundNumber s) (activeRollCount s)
         (case activeDice s of Some d \<Rightarrow> d | None \<Rightarrow> []) (case activeHeld s of Some h \<Rightarrow> h | None \<Rightarrow> []) True None))
         (\<lambda>_. ret (AutoRolled s))
   | None \<Rightarrow> andThen (rounds_find room) (\<lambda>current. case current of None \<Rightarrow> ret Stale
     | Some s \<Rightarrow> if rd_finished s \<or> roundNumber s \<noteq> n then ret Stale
       else (case activePlayerId s of Inl e \<Rightarrow> throw (Rounds (Sync e))
         | Inr active \<Rightarrow> if active \<noteq> p then ret Stale else recordAndAdvance P room n p (activeDice s))))"

definition expireTurn :: "('w, 'e, 'b) turn_ports \<Rightarrow> string \<Rightarrow> int \<Rightarrow> string \<Rightarrow> ('w, 'e, 'b, unit) turn_cmd" where
  "expireTurn P room n p = andThen (resolve P room n p) (\<lambda>resolution. case resolution of
     AutoRolled s \<Rightarrow> andThen (timer_start P room s) (\<lambda>_. ret ())
   | Advanced result \<Rightarrow> timer_advanceTurn P None room (None, result)
   | Stale \<Rightarrow> ret ())"

text \<open>A timer of Node expires: the task it holds runs unless it is out of date, and an error of its action ends
  with the scheduler's \<open>onError\<close>.\<close>

definition timer_expires :: "('w, 'e, 'b) turn_ports \<Rightarrow> nat \<Rightarrow> ('w, 'b) turn_state \<Rightarrow> ('w, 'b) turn_state" where
  "timer_expires P h ts = (let s = ts_scheduler ts; s' = sched_step timerDeadlineExecutor (Moves (Expire_timer h)) s;
       ts' = ts\<lparr>ts_scheduler := s'\<rparr>
     in case drop (length (started s)) (started s') of [] \<Rightarrow> ts'
       | t # _ \<Rightarrow> snd (expireTurn P (t_room t) (t_round t) (t_action t) ts'))"

end
