(* ===== verification/RoundTimerTheorems.thy ===== *)
theory RoundTimerTheorems
  imports RoundTimer
begin

text \<open>
  What the turn clock guarantees: the calls that start one turn after another end; a turn that ran out of time
  is always moved on, whatever the score services do; the ranking is the competition ranking of the totals.
\<close>

section \<open>Ending a turn uses up fuel\<close>

lemma sync_app [simp]: "sync (Inl e) st = (Inl (Sync e), st)" "sync (Inr x) st = (Inr x, st)"
  by (simp_all add: sync_def)

lemma put_round_app [simp]: "put_round room s st = (Inr (), AList.update room s st)"
  by (simp add: put_round_def)

lemma expire_decreases:
  assumes "expire_round s = Inr (s', c)" "activePlayerId s = Inr p"
  shows "turns_fuel (Some s') < turns_fuel (Some s)"
proof -
  have i: "0 \<le> activePlayerIndex s" "activePlayerIndex s < int (length (participantOrder s))"
    using assms(2) by (auto simp: activePlayerId_def split: if_splits)
  have live: "\<not> rd_finished s" using assms(1) by (auto simp: expire_round_def)
  show ?thesis
  proof (cases "activePlayerIndex s < int (length (participantOrder s)) - 1")
    case True
    then have "s' = s\<lparr>submissions := submissions s, activePlayerIndex := activePlayerIndex s + 1, activeRollCount := 0,
        activeDice := None, activeHeld := None, rd_finished := False\<rparr>"
      using assms(1) live by (auto simp: expire_round_def advanceTurn_def dest!: restore_Inr split: sum.splits)
    then show ?thesis using live True by (simp add: turns_fuel_def)
  next
    case False
    show ?thesis
    proof (cases "roundNumber s \<ge> totalRounds s")
      case True
      then have "rd_finished s'"
        using assms(1) live False by (auto simp: expire_round_def advanceTurn_def completeRound_def Let_def dest!: restore_Inr split: sum.splits)
      then show ?thesis using live by (simp add: turns_fuel_def)
    next
      case more: False
      then have s': "s' = s\<lparr>roundNumber := roundNumber s + 1, submissions := [], activePlayerIndex := 0, activeRollCount := 0,
          activeDice := None, activeHeld := None, rd_finished := False\<rparr>"
        using assms(1) live False by (auto simp: expire_round_def advanceTurn_def completeRound_def Let_def dest!: restore_Inr split: sum.splits)
      obtain d where d: "totalRounds s - roundNumber s = int (Suc d)"
        using more by (metis Suc_pred' diff_gt_0_iff_gt not_le of_nat_0_less_iff zero_less_imp_eq_int)
      have "nat (totalRounds s - (roundNumber s + 1)) = d" using d by simp
      moreover have "nat (totalRounds s - roundNumber s) = Suc d" using d by simp
      ultimately show ?thesis using live i by (simp add: turns_fuel_def s')
    qed
  qed
qed

lemma without_le:
  assumes "withoutParticipant s p = Inr s'"
  shows "turns_fuel (Some s') \<le> turns_fuel (Some s)"
proof (cases "rd_finished s \<or> p \<notin> set (participantOrder s)")
  case True then show ?thesis using assms by (simp add: withoutParticipant_def)
next
  case False
  define k where "k = nat (index_of p (participantOrder s))"
  have k: "k < length (participantOrder s)" "index_of p (participantOrder s) = int k"
    using False index_of_nth[of p "participantOrder s"] by (auto simp: k_def)
  have s': "participantOrder s' = take k (participantOrder s) @ drop (k + 1) (participantOrder s)"
    "activePlayerIndex s' = (if int k < activePlayerIndex s then activePlayerIndex s - 1 else activePlayerIndex s)"
    "roundNumber s' = roundNumber s" "totalRounds s' = totalRounds s" "\<not> rd_finished s'"
    using assms False k(2) by (auto simp: withoutParticipant_def Let_def split: sum.splits if_splits dest!: restore_Inr)
  have len: "length (participantOrder s') = length (participantOrder s) - 1" using k(1) s'(1) by simp
  have "nat (totalRounds s - roundNumber s) * (length (participantOrder s) - 1) \<le> nat (totalRounds s - roundNumber s) * length (participantOrder s)"
    by simp
  moreover have "nat (int (length (participantOrder s')) - activePlayerIndex s') \<le> nat (int (length (participantOrder s)) - activePlayerIndex s)"
    using len s'(2) k(1) by (auto intro!: nat_mono)
  ultimately show ?thesis unfolding turns_fuel_def using False s'(3,4,5) len by (simp add: add_mono)
qed

lemma expireAtomically_cases:
  obtains e where "expireAtomically room n p st = (Inl e, st)"
  | "expireAtomically room n p st = (Inr None, st)"
  | s s' c where "map_of st room = Some s" "expire_round s = Inr (s', c)" "activePlayerId s = Inr p" "roundNumber s = n"
      "\<not> blank room" "expireAtomically room n p st = (Inr (Some (s', c)), AList.update room s' st)"
proof (cases "blank room")
  case True then show thesis by (intro that(1)) (simp add: expireAtomically_def optional_def require_room_def)
next
  case False
  show thesis
  proof (cases "map_of st room")
    case None then show thesis using False by (intro that(2)) (simp add: expireAtomically_def optional_def require_room_def)
  next
    case (Some s)
    show thesis
    proof (cases "isStaleTurn s n p")
      case (Inl e) then show thesis using False Some
        by (intro that(1)) (simp add: expireAtomically_def optional_def require_room_def)
    next
      case stale: (Inr b)
      show thesis
      proof (cases b)
        case True then show thesis using False Some stale
          by (intro that(2)) (simp add: expireAtomically_def optional_def require_room_def)
      next
        case now: False
        then have p: "activePlayerId s = Inr p" "roundNumber s = n"
          using stale by (auto simp: isStaleTurn_def split: if_splits sum.splits)
        show thesis
        proof (cases "expire_round s")
          case (Inl e) then show thesis using False Some stale now
            by (intro that(1)) (simp add: expireAtomically_def optional_def require_room_def)
        next
          case (Inr r)
          then show thesis using False Some stale now p
            by (intro that(3)[of s "fst r" "snd r"]) (simp_all add: expireAtomically_def optional_def require_room_def)
        qed
      qed
    qed
  qed
qed

lemma removeParticipantAtomically_cases:
  obtains e where "removeParticipantAtomically room p st = (Inl e, st)"
  | "removeParticipantAtomically room p st = (Inr None, st)"
  | s s' where "map_of st room = Some s" "withoutParticipant s p = Inr s'"
      "removeParticipantAtomically room p st = (Inr (Some s'), AList.update room s' st)"
proof (cases "blank room")
  case True then show thesis by (intro that(1)) (simp add: removeParticipantAtomically_def optional_def require_room_def)
next
  case False
  show thesis
  proof (cases "map_of st room")
    case None then show thesis using False by (intro that(2)) (simp add: removeParticipantAtomically_def optional_def require_room_def)
  next
    case (Some s)
    show thesis
    proof (cases "withoutParticipant s p")
      case (Inl e) then show thesis using False Some
        by (intro that(1)) (simp add: removeParticipantAtomically_def optional_def require_room_def)
    next
      case (Inr s') then show thesis using False Some
        by (intro that(3)[of s s']) (simp_all add: removeParticipantAtomically_def optional_def require_room_def)
    qed
  qed
qed

lemma on_store_app: "on_store f ts = (map_sum Rounds id (fst (f (ts_rounds ts))), ts\<lparr>ts_rounds := snd (f (ts_rounds ts))\<rparr>)"
  by (simp add: on_store_def split: prod.split)

lemma rounds_expire_cases:
  fixes ts :: "('w, 'b) turn_state"
  obtains e where "(rounds_expire room n p :: ('w, 'e, 'b, round_result option) turn_cmd) ts = (Inl (Rounds e), ts)"
  | "(rounds_expire room n p :: ('w, 'e, 'b, round_result option) turn_cmd) ts = (Inr None, ts)"
  | s s' c where "map_of (ts_rounds ts) room = Some s" "expire_round s = Inr (s', c)" "activePlayerId s = Inr p" "roundNumber s = n"
      "\<not> blank room" "(rounds_expire room n p :: ('w, 'e, 'b, round_result option) turn_cmd) ts
        = (Inr (Some (s', c)), ts\<lparr>ts_rounds := AList.update room s' (ts_rounds ts)\<rparr>)"
proof -
  let ?st = "ts_rounds ts"
  consider e where "(expireAtomically room n p :: ('e submission_fault, round_result option) on_rounds) ?st = (Inl e, ?st)"
  | "(expireAtomically room n p :: ('e submission_fault, round_result option) on_rounds) ?st = (Inr None, ?st)"
  | s s' c where "map_of ?st room = Some s" "expire_round s = Inr (s', c)" "activePlayerId s = Inr p" "roundNumber s = n"
      "\<not> blank room" "(expireAtomically room n p :: ('e submission_fault, round_result option) on_rounds) ?st
        = (Inr (Some (s', c)), AList.update room s' ?st)"
    by (rule expireAtomically_cases)
  then show thesis
    by cases (auto simp: rounds_expire_def on_store_app intro: that)
qed

lemma rounds_removeParticipant_cases:
  fixes ts :: "('w, 'b) turn_state"
  obtains e where "(rounds_removeParticipant room p :: ('w, 'e, 'b, round_state option) turn_cmd) ts = (Inl (Rounds e), ts)"
  | "(rounds_removeParticipant room p :: ('w, 'e, 'b, round_state option) turn_cmd) ts = (Inr None, ts)"
  | s s' where "map_of (ts_rounds ts) room = Some s" "withoutParticipant s p = Inr s'"
      "(rounds_removeParticipant room p :: ('w, 'e, 'b, round_state option) turn_cmd) ts
        = (Inr (Some s'), ts\<lparr>ts_rounds := AList.update room s' (ts_rounds ts)\<rparr>)"
proof -
  let ?st = "ts_rounds ts"
  consider e where "(removeParticipantAtomically room p :: ('e submission_fault, round_state option) on_rounds) ?st = (Inl e, ?st)"
  | "(removeParticipantAtomically room p :: ('e submission_fault, round_state option) on_rounds) ?st = (Inr None, ?st)"
  | s s' where "map_of ?st room = Some s" "withoutParticipant s p = Inr s'"
      "(removeParticipantAtomically room p :: ('e submission_fault, round_state option) on_rounds) ?st
        = (Inr (Some s'), AList.update room s' ?st)"
    by (rule removeParticipantAtomically_cases)
  then show thesis
    by cases (auto simp: rounds_removeParticipant_def on_store_app intro: that)
qed

lemma rounds_find_app:
  "(rounds_find room :: ('w, 'e, 'b, round_state option) turn_cmd) ts
   = (if blank room then Inl (Rounds BlankRoomId) else Inr (map_of (ts_rounds ts) room), ts)"
  by (simp add: rounds_find_def findByRoomId_def require_room_def on_store_app)

section \<open>Calls that leave the rounds alone\<close>

definition quiet :: "('w, 'e, 'b, 'a) turn_cmd \<Rightarrow> bool" where
  "quiet f \<longleftrightarrow> (\<forall>ts. ts_rounds (snd (f ts)) = ts_rounds ts \<and> fst (f ts) \<noteq> Inl OutOfFuel)"

named_theorems quiet_intros \<open>calls that leave the rounds alone and need no fuel\<close>

lemma quietD: "quiet f \<Longrightarrow> f ts = (r, ts') \<Longrightarrow> ts_rounds ts' = ts_rounds ts \<and> r \<noteq> Inl OutOfFuel"
  unfolding quiet_def by (metis fst_conv snd_conv)

lemma quiet_ret [quiet_intros]: "quiet (ret x)" and quiet_throw [quiet_intros]: "e \<noteq> OutOfFuel \<Longrightarrow> quiet (throw e)"
  by (simp_all add: quiet_def)

lemma quiet_andThen [quiet_intros]: "quiet f \<Longrightarrow> (\<And>x. quiet (g x)) \<Longrightarrow> quiet (andThen f g)"
  by (auto simp: quiet_def andThen_app split: sum.split)

lemma quiet_try_catch [quiet_intros]: "quiet f \<Longrightarrow> (\<And>e. quiet (h e)) \<Longrightarrow> quiet (try_catch f h)"
  by (auto simp: quiet_def try_catch_def split: sum.split prod.split) (metis fst_conv snd_conv)+

lemma quiet_in_world [quiet_intros]: "quiet (in_world f)"
  by (auto simp: quiet_def in_world_def split: prod.split sum.split) (case_tac x1; simp)+

lemma quiet_messages [quiet_intros]: "quiet (broadcast room m)" "quiet (warn room reason)"
  by (simp_all add: quiet_def broadcast_def warn_def)

lemma quiet_cancel [quiet_intros]: "quiet (cancel_turn room n)" "quiet (cancelRoom room)"
  by (simp_all add: quiet_def cancel_turn_def cancelRoom_def)

lemma quiet_clear [quiet_intros]: "quiet (clearOfflineMisses room p)"
  by (simp add: quiet_def clearOfflineMisses_def Let_def split: option.split)

lemma quiet_game_event [quiet_intros]: "quiet (game_event r)"
  by (simp add: quiet_def game_event_def split: option.split)

lemma quiet_archive [quiet_intros]: "quiet (archive P room r rankings)"
  unfolding archive_def by (intro quiet_intros)

lemma quiet_finish [quiet_intros]: "quiet (finishIfComplete P room force)"
proof -
  have "quiet (\<lambda>ts. (Inr (), ts\<lparr>ts_scheduler := f (ts_scheduler ts), ts_world := g (ts_world ts)\<rparr>))" for f g
    by (simp add: quiet_def)
  note * = quiet_intros this
  show ?thesis unfolding finishIfComplete_def
    by (rule quiet_andThen[OF quiet_in_world]) (auto split: option.split intro!: *)
qed

lemma quiet_armTurn [quiet_intros]: "quiet (armTurn room s rm restored)"
  by (simp add: quiet_def armTurn_def Let_def andThen_app broadcast_def split: sum.split option.split)

section \<open>Agreement up to a measure\<close>

definition agree :: "nat \<Rightarrow> string \<Rightarrow> ('w, 'e, 'b, 'a) turn_cmd \<Rightarrow> ('w, 'e, 'b, 'a) turn_cmd \<Rightarrow> bool" where
  "agree k room f g \<longleftrightarrow> (\<forall>ts. turns_fuel (map_of (ts_rounds ts) room) < k \<longrightarrow> fst (g ts) \<noteq> Inl OutOfFuel \<and> f ts = g ts)"

lemma agree_refl: "quiet f \<Longrightarrow> agree k room f f"
  by (simp add: agree_def quiet_def)

lemma agree_andThen:
  fixes f :: "('w, 'e, 'b, 'a) turn_cmd"
  assumes "quiet f" "\<And>x. agree k room (g x) (g' x)"
  shows "agree k room (andThen f g) (andThen f g')"
  unfolding agree_def
proof (intro allI impI)
  fix ts :: "('w, 'b) turn_state"
  assume "turns_fuel (map_of (ts_rounds ts) room) < k"
  then have "turns_fuel (map_of (ts_rounds (snd (f ts))) room) < k" and "fst (f ts) \<noteq> Inl OutOfFuel"
    using assms(1) by (simp_all add: quiet_def)
  then show "fst (andThen f g' ts) \<noteq> Inl OutOfFuel \<and> andThen f g ts = andThen f g' ts"
    using assms(2) by (auto simp: agree_def andThen_app split: sum.split)
qed

lemma agree_then_quiet: "agree k room f g \<Longrightarrow> (\<And>x. quiet (h x)) \<Longrightarrow> agree k room (andThen f h) (andThen g h)"
  by (auto simp: agree_def quiet_def andThen_app split: sum.split)

lemma agree_app: "agree k room f g \<Longrightarrow> turns_fuel (map_of (ts_rounds ts) room) < k \<Longrightarrow> fst (g ts) \<noteq> Inl OutOfFuel \<and> f ts = g ts"
  by (simp add: agree_def)

lemma agree_mono: "agree k room f g \<Longrightarrow> j \<le> k \<Longrightarrow> agree j room f g"
  by (simp add: agree_def)

lemma agree_expire:
  fixes h h' :: "round_result \<Rightarrow> ('w, 'e, 'b, unit) turn_cmd"
  assumes "\<And>s c. agree k room (h (s, c)) (h' (s, c))"
  shows "agree (Suc k) room (andThen (rounds_expire room n p) (\<lambda>r. case r of None \<Rightarrow> ret () | Some x \<Rightarrow> h x))
    (andThen (rounds_expire room n p) (\<lambda>r. case r of None \<Rightarrow> ret () | Some x \<Rightarrow> h' x))"
  unfolding agree_def
proof (intro allI impI)
  fix ts :: "('w, 'b) turn_state"
  assume k: "turns_fuel (map_of (ts_rounds ts) room) < Suc k"
  let ?f = "andThen (rounds_expire room n p) (\<lambda>r. case r of None \<Rightarrow> ret () | Some x \<Rightarrow> h x)"
  let ?g = "andThen (rounds_expire room n p) (\<lambda>r. case r of None \<Rightarrow> ret () | Some x \<Rightarrow> h' x)"
  show "fst (?g ts) \<noteq> Inl OutOfFuel \<and> ?f ts = ?g ts"
  proof (cases rule: rounds_expire_cases[of room n p ts, where 'e = 'e])
    case (3 s s' c)
    have "turns_fuel (Some s') < k" using expire_decreases[OF 3(2,3)] k 3(1) by simp
    then have "fst (h' (s', c) (ts\<lparr>ts_rounds := AList.update room s' (ts_rounds ts)\<rparr>)) \<noteq> Inl OutOfFuel
        \<and> h (s', c) (ts\<lparr>ts_rounds := AList.update room s' (ts_rounds ts)\<rparr>) = h' (s', c) (ts\<lparr>ts_rounds := AList.update room s' (ts_rounds ts)\<rparr>)"
      by (intro agree_app[OF assms]) simp
    then show ?thesis using 3(6) by simp
  qed simp_all
qed

lemma quiet_find [quiet_intros]: "quiet (rounds_find room)"
  by (simp add: quiet_def rounds_find_app)

lemma removeParticipant_fuel:
  fixes ts :: "('w, 'b) turn_state"
  assumes "(rounds_removeParticipant room p :: ('w, 'e, 'b, round_state option) turn_cmd) ts = (r, ts')"
  shows "r \<noteq> Inl OutOfFuel \<and> turns_fuel (map_of (ts_rounds ts') room) \<le> turns_fuel (map_of (ts_rounds ts) room)"
  using assms without_le
  by (cases rule: rounds_removeParticipant_cases[of room p ts, where 'e = 'e]) (auto simp del: map_of_update simp: map_of_update)

lemma agree_leave_turn:
  fixes h h' :: "round_state \<times> round_completion option \<Rightarrow> ('w, 'e, 'b, unit) turn_cmd" and room p :: string and n :: int
  assumes "\<And>s c. agree k room (h (s, c)) (h' (s, c))"
  defines "leaving \<equiv> \<lambda>h. andThen (rounds_expire room n p) (\<lambda>expired. andThen (rounds_removeParticipant room p) (\<lambda>updated.
      case (expired, updated) of (Some (_, completed), Some s') \<Rightarrow> h (s', completed) | _ \<Rightarrow> ret ()))"
  shows "agree (Suc k) room (leaving h) (leaving h')"
  unfolding agree_def
proof (intro allI impI)
  fix ts :: "('w, 'b) turn_state"
  assume k: "turns_fuel (map_of (ts_rounds ts) room) < Suc k"
  show "fst (leaving h' ts) \<noteq> Inl OutOfFuel \<and> leaving h ts = leaving h' ts"
  proof (cases rule: rounds_expire_cases[of room n p ts, where 'e = 'e])
    case (1 e)
    then show ?thesis by (simp add: leaving_def)
  next
    case 2
    obtain r ts' where r: "(rounds_removeParticipant room p :: ('w, 'e, 'b, round_state option) turn_cmd) ts = (r, ts')"
      by (cases "(rounds_removeParticipant room p :: ('w, 'e, 'b, round_state option) turn_cmd) ts")
    then show ?thesis using 2 removeParticipant_fuel[OF r] by (cases r) (simp_all add: leaving_def)
  next
    case (3 s s' c)
    define ts1 where "ts1 = ts\<lparr>ts_rounds := AList.update room s' (ts_rounds ts)\<rparr>"
    have k1: "turns_fuel (map_of (ts_rounds ts1) room) < k" using expire_decreases[OF 3(2,3)] k 3(1) by (simp add: ts1_def)
    obtain r ts' where r: "(rounds_removeParticipant room p :: ('w, 'e, 'b, round_state option) turn_cmd) ts1 = (r, ts')"
      by (cases "(rounds_removeParticipant room p :: ('w, 'e, 'b, round_state option) turn_cmd) ts1")
    note fuel = removeParticipant_fuel[OF r]
    show ?thesis
    proof (cases "\<exists>s2. r = Inr (Some s2)")
      case True
      then obtain s2 where s2: "r = Inr (Some s2)" by blast
      have "fst (h' (s2, c) ts') \<noteq> Inl OutOfFuel \<and> h (s2, c) ts' = h' (s2, c) ts'"
        by (rule agree_app[OF assms(1)]) (use fuel k1 in simp)
      then show ?thesis using 3(6) r s2 by (simp add: leaving_def ts1_def)
    next
      case False
      then have "(\<exists>e. r = Inl e) \<or> r = Inr None" by (cases r) auto
      then show ?thesis using 3(6) r fuel by (auto simp: leaving_def ts1_def)
    qed
  qed
qed

lemma agree_if: "(b \<Longrightarrow> agree k room f f') \<Longrightarrow> (\<not> b \<Longrightarrow> agree k room g g') \<Longrightarrow> agree k room (if b then f else g) (if b then f' else g')"
  by simp

lemma agree_remove:
  assumes "\<And>i. agree k room (adv room i) (adv' room i)"
  shows "agree (Suc k) room (removePlayerFromRound P adv room p) (removePlayerFromRound P adv' room p)"
proof -
  have q: "quiet (\<lambda>ts. case seat_removal P room p (ts_world ts) of (removed, w) \<Rightarrow> (Inr removed, ts\<lparr>ts_world := w\<rparr>))"
    by (simp add: quiet_def split: prod.split)
  have remaining: "agree (Suc k) room (andThen (cancelRoom room) (\<lambda>_. andThen (rounds_remove room) (\<lambda>_. ret ())))
      (andThen (cancelRoom room) (\<lambda>_. andThen (rounds_remove room) (\<lambda>_. ret ())))"
    by (auto simp: agree_def andThen_app cancelRoom_def rounds_remove_def on_store_app remove_round_def require_room_def split: sum.split)
  have other: "agree (Suc k) room (andThen (rounds_removeParticipant room p) (\<lambda>_. ret ()))
      (andThen (rounds_removeParticipant room p) (\<lambda>_. ret ()))" for p
    unfolding agree_def andThen_app using removeParticipant_fuel[OF prod.collapse[symmetric]] by (auto split: sum.split)
  show ?thesis
    unfolding removePlayerFromRound_def
    apply (rule agree_andThen, rule quiet_clear)
    apply (rule agree_andThen, rule q)
    apply (rule agree_andThen, rule quiet_in_world)
    apply (rule agree_andThen, simp add: quiet_intros)
    apply (rule agree_andThen, rule quiet_find)
    subgoal for _ _ _ _ found
      using assms agree_leave_turn[of k room "\<lambda>x. adv room (None, x)" "\<lambda>x. adv' room (None, x)"]
      by (auto intro!: agree_refl[OF quiet_ret] agree_refl[OF quiet_throw] remaining other split: option.split sum.split)
    done
qed

lemma agree_advance:
  assumes "\<And>s. agree k room (start room s) (start' room s)"
  shows "agree k room (advance_turn P start m room i) (advance_turn P start' m room i)"
proof -
  obtain score s c where i: "i = (score, s, c)" by (cases i)
  have "quiet (case score of None \<Rightarrow> ret () | Some (p, board) \<Rightarrow> broadcast room (ScoreUpdate p board m))"
    by (cases score) (auto simp: quiet_intros split: prod.split)
  moreover have "quiet (case c of None \<Rightarrow> ret False | Some c' \<Rightarrow> andThen (broadcast room (RoundEnd (rc_roundNumber c') (submittedPlayerIds c')))
      (\<lambda>_. finishIfComplete P room (gameCompleted c')))"
    by (cases c) (auto intro!: quiet_intros)
  ultimately show ?thesis unfolding advance_turn_def i
    by (auto intro!: agree_andThen quiet_intros agree_refl agree_then_quiet[OF assms])
qed

lemma agree_handle:
  fixes rem rem' :: "string \<Rightarrow> string \<Rightarrow> ('w, 'e, 'b, unit) turn_cmd"
  assumes "\<And>p. agree k room (rem room p) (rem' room p)"
    and "\<And>s c. agree k' room (adv room (None, s, c)) (adv' room (None, s, c))" and k: "k = Suc k'"
  shows "agree k room (offline_handle rem adv room s) (offline_handle rem' adv' room s)"
  unfolding agree_def
proof (intro allI impI)
  fix ts :: "('w, 'b) turn_state"
  assume m: "turns_fuel (map_of (ts_rounds ts) room) < k"
  show "fst (offline_handle rem' adv' room s ts) \<noteq> Inl OutOfFuel
      \<and> offline_handle rem adv room s ts = offline_handle rem' adv' room s ts"
  proof (cases "activePlayerId s")
    case (Inr p)
    define l where "l = (case map_of (misses ts) room of None \<Rightarrow> [] | Some l \<Rightarrow> l)"
    define ts1 where "ts1 = ts\<lparr>misses := AList.update room (AList.update p (value_at l p 0 + 1) l) (misses ts)\<rparr>"
    have m1: "turns_fuel (map_of (ts_rounds ts1) room) < k" using m by (simp add: ts1_def)
    note e = agree_expire[of k' room "\<lambda>x. adv room (None, x)" "\<lambda>x. adv' room (None, x)" "roundNumber s" p]
    show ?thesis
      using agree_app[OF assms(1) m1, of p] agree_app[OF e, of ts1] m1 assms(2) k Inr
      by (simp add: offline_handle_def Let_def l_def ts1_def)
  qed (simp add: offline_handle_def)
qed

lemma agree_begin:
  fixes handle handle' :: "string \<Rightarrow> round_state \<Rightarrow> ('w, 'e, 'b, unit) turn_cmd"
  assumes "agree k room (handle room s) (handle' room s)"
  shows "agree k room (beginTurn P handle room s restored) (beginTurn P handle' room s restored)"
  unfolding agree_def
proof (intro allI impI)
  fix ts :: "('w, 'b) turn_state"
  assume m: "turns_fuel (map_of (ts_rounds ts) room) < k"
  obtain r ts1 where r: "(in_world (getSnapshot P room) :: ('w, 'e, 'b, round_room option) turn_cmd) ts = (r, ts1)"
    by (cases "(in_world (getSnapshot P room) :: ('w, 'e, 'b, round_room option) turn_cmd) ts")
  note q = quietD[OF quiet_in_world r]
  have m1: "turns_fuel (map_of (ts_rounds ts1) room) < k" using m q by simp
  show "fst (beginTurn P handle' room s restored ts) \<noteq> Inl OutOfFuel
      \<and> beginTurn P handle room s restored ts = beginTurn P handle' room s restored ts"
  proof (cases r)
    case (Inl e) then show ?thesis using r q by (simp add: beginTurn_def)
  next
    case (Inr rm)
    define late :: "('w, 'e, 'b, int option) turn_cmd" where "late = andThen (in_world (touch P room)) (\<lambda>_. andThen (armTurn room s rm restored) (\<lambda>deadline ts.
        (Inr deadline, ts\<lparr>ts_begun := ts_begun ts @ [(room, s)]\<rparr>)))"
    have "quiet (\<lambda>ts :: ('w, 'b) turn_state. (Inr deadline, ts\<lparr>ts_begun := ts_begun ts @ [(room, s)]\<rparr>))" for deadline :: "int option"
      by (simp add: quiet_def)
    then have "quiet late" unfolding late_def by (intro quiet_intros)
    then have late: "fst (late ts1) \<noteq> Inl OutOfFuel" by (simp add: quiet_def)
    obtain c where c: "(if restored = None then map_sum id (\<lambda>p. isOffline P rm room p ts1) (activePlayerId s) else Inr False) = c" by blast
    have run: "beginTurn P h room s restored ts = (case c of Inl e \<Rightarrow> (Inl (Rounds (Sync e)), ts1)
        | Inr True \<Rightarrow> andThen (h room s) (\<lambda>_. ret None) ts1 | Inr False \<Rightarrow> late ts1)" for h
      by (subst beginTurn_def, subst andThen_pair_ok, rule r[unfolded Inr]) (simp only: c late_def)
    have "agree k room (andThen (handle room s) (\<lambda>_. ret (None :: int option))) (andThen (handle' room s) (\<lambda>_. ret None))"
      by (rule agree_then_quiet[OF assms quiet_ret])
    note then_quiet = agree_app[OF this m1]
    show ?thesis unfolding run using late then_quiet by (auto split: sum.split bool.split)
  qed
qed

lemma agree_start: "n \<le> m \<Longrightarrow> agree n room (start_turn n P room s) (start_turn m P room s)"
proof (induction n arbitrary: m s)
  case (Suc n)
  then obtain m' where m: "m = Suc m'" "n \<le> m'" by (cases m) auto
  have adv: "agree n room (advance_turn P (start_turn n P) None room i) (advance_turn P (start_turn m' P) None room i)" for i
    by (rule agree_advance) (rule Suc.IH[OF m(2)])
  show ?case unfolding m(1) start_turn.simps Let_def
    by (rule agree_begin, rule agree_handle, rule agree_remove, rule adv, rule adv, rule refl)
qed (simp add: agree_def)

lemma timer_start_eq: "start_fuel room ts \<le> n \<Longrightarrow> start_turn n P room s ts = timer_start P room s ts"
  using agree_app[OF agree_start[of "start_fuel room ts" n room P s], of ts] by (simp add: timer_start_def start_fuel_def)

lemma agree_timer_start: "agree n room (start_turn n P room s) (timer_start P room s)"
  unfolding agree_def
proof (intro allI impI)
  fix ts :: "('a, 'b) turn_state"
  assume "turns_fuel (map_of (ts_rounds ts) room) < n"
  then have n: "start_fuel room ts \<le> n" by (simp add: start_fuel_def)
  have "fst (start_turn (start_fuel room ts) P room s ts) \<noteq> Inl OutOfFuel"
    using agree_app[OF agree_start[of "start_fuel room ts" "start_fuel room ts" room P s], of ts] by (simp add: start_fuel_def)
  then show "fst (timer_start P room s ts) \<noteq> Inl OutOfFuel \<and> start_turn n P room s ts = timer_start P room s ts"
    using timer_start_eq[OF n] by (simp add: timer_start_def)
qed

lemma agree_timer_advance:
  "agree n room (advance_turn P (start_turn n P) m room i) (timer_advanceTurn P m room i)"
  unfolding timer_advanceTurn_def by (rule agree_advance) (rule agree_timer_start)

definition fuel_free :: "('w, 'e, 'b, 'a) turn_cmd \<Rightarrow> bool" where
  "fuel_free f \<longleftrightarrow> (\<forall>ts. fst (f ts) \<noteq> Inl OutOfFuel)"

lemma fuel_free_quiet: "quiet f \<Longrightarrow> fuel_free f"
  by (simp add: fuel_free_def quiet_def)

lemma fuel_free_andThen: "fuel_free f \<Longrightarrow> (\<And>x. fuel_free (g x)) \<Longrightarrow> fuel_free (andThen f g)"
  by (auto simp: fuel_free_def andThen_app split: sum.split)

lemma fuel_free_on_store: "fuel_free (on_store f)"
  by (auto simp: fuel_free_def on_store_app) (case_tac "fst (f (ts_rounds ts))"; simp)

lemma quiet_roll [quiet_intros]: "quiet (rollDice P)"
  by (simp add: quiet_def rollDice_def split: prod.split)

lemma quiet_pick [quiet_intros]: "quiet (pickOpenCategory P room p)"
proof -
  have "quiet (\<lambda>ts. case categoryPicker P k (ts_world ts) of (pick, w) \<Rightarrow> (let j = int k; i = (pick smod j + j) smod j in
      (Inr (f i), ts\<lparr>ts_world := w\<rparr>)))" for k and f :: "int \<Rightarrow> string option"
    by (simp add: quiet_def Let_def split: prod.split)
  note * = quiet_intros this
  show ?thesis unfolding pickOpenCategory_def
    by (rule quiet_andThen[OF quiet_in_world]) (auto split: option.split intro!: *)
qed

lemma fuel_free_expire: "fuel_free (rounds_expire room n p)"
  unfolding rounds_expire_def by (rule fuel_free_on_store)

lemma fuel_free_without_score: "fuel_free (advanceWithoutScore room n p)"
  unfolding advanceWithoutScore_def by (intro fuel_free_andThen fuel_free_expire fuel_free_quiet quiet_intros)

lemma fuel_free_submit: "fuel_free (submission_submit P room p n d category)"
proof -
  have "map_sum Rounds f r \<noteq> Inl OutOfFuel" for f :: "'x \<Rightarrow> 'y" and r :: "'e submission_fault round_error + 'x"
    by (cases r) auto
  then show ?thesis by (auto simp: fuel_free_def submission_submit_def split: sum.split prod.split)
qed

lemma fuel_free_record: "fuel_free (recordAndAdvance P room n p dice)"
proof (cases dice)
  case None
  then show ?thesis unfolding recordAndAdvance_def
    by (auto intro!: fuel_free_andThen fuel_free_quiet[OF quiet_messages(2)] fuel_free_without_score)
next
  case (Some d)
  have degraded: "fuel_free (andThen (warn room reason) (\<lambda>_. advanceWithoutScore room n p))" for reason
    by (intro fuel_free_andThen fuel_free_quiet quiet_intros fuel_free_without_score)
  show ?thesis unfolding recordAndAdvance_def Some
    using degraded fuel_free_without_score[of room n p]
    by (auto simp: fuel_free_def broadcast_def andThen_app[of "\<lambda>ts. (Inr (), ts\<lparr>ts_sent := x ts\<rparr>)" for x] split: prod.split sum.split option.split)
qed

lemma fuel_free_resolve: "fuel_free (resolve P room n p)"
proof -
  have rolled: "fuel_free (rounds_autoRoll P room n p)"
    unfolding rounds_autoRoll_def by (intro fuel_free_andThen fuel_free_quiet[OF quiet_roll] fuel_free_on_store)
  show ?thesis unfolding resolve_def
    by (rule fuel_free_andThen[OF rolled])
      (auto split: option.split sum.split simp: fuel_free_record fuel_free_quiet[OF quiet_ret] fuel_free_quiet[OF quiet_throw]
        intro!: fuel_free_andThen[OF fuel_free_quiet] quiet_intros)
qed

text \<open>C24: starting a turn ends, also when every player of the room is gone and turn after turn is skipped or its
  player removed: \<open>start\<close> satisfies the recursion of the code, with no fuel in it, whatever the ports answer, and
  no call of the clock ever runs out of fuel.\<close>

theorem turn_chain_ends:
  "timer_start P room s ts = beginTurn P (offline_handle (timer_removePlayer P) (timer_advanceTurn P None)) room s None ts
   \<and> fst (timer_start P room s ts) \<noteq> Inl OutOfFuel
   \<and> fst (timer_advanceTurn P m room i ts) \<noteq> Inl OutOfFuel
   \<and> fst (timer_removePlayer P room p ts) \<noteq> Inl OutOfFuel
   \<and> fst (expireTurn P room k p ts) \<noteq> Inl OutOfFuel"
proof (intro conjI)
  define n where "n = turns_fuel (map_of (ts_rounds ts) room)"
  have fuel: "start_fuel room ts = Suc n" "turns_fuel (map_of (ts_rounds ts) room) < Suc n"
    by (simp_all add: start_fuel_def n_def)
  have rem: "agree (Suc n) room (removePlayerFromRound P (advance_turn P (start_turn n P) None) room p) (timer_removePlayer P room p)" for n p
    unfolding timer_removePlayer_def by (rule agree_remove) (rule agree_timer_advance)
  have "agree (Suc n) room (start_turn (Suc n) P room s)
      (beginTurn P (offline_handle (timer_removePlayer P) (timer_advanceTurn P None)) room s None)"
    unfolding start_turn.simps Let_def
    by (rule agree_begin, rule agree_handle, rule rem, rule agree_timer_advance, rule refl)
  from agree_app[OF this fuel(2)]
  show "timer_start P room s ts = beginTurn P (offline_handle (timer_removePlayer P) (timer_advanceTurn P None)) room s None ts"
    by (simp add: timer_start_def fuel(1))
  show start: "fst (timer_start P room s ts) \<noteq> Inl OutOfFuel" for s ts
    using agree_app[OF agree_timer_start lessI] by blast
  show adv: "fst (timer_advanceTurn P m room i ts) \<noteq> Inl OutOfFuel" for m i ts
    using agree_app[OF agree_timer_advance lessI] by blast
  show "fst (timer_removePlayer P room p ts) \<noteq> Inl OutOfFuel"
    using agree_app[OF rem fuel(2)] by blast
  show "fst (expireTurn P room k p ts) \<noteq> Inl OutOfFuel"
    using fuel_free_resolve[of P room k p] start adv
    by (auto simp: expireTurn_def andThen_app fuel_free_def split: sum.split timeout_resolution.split)
qed

section \<open>Turns that ran out of time\<close>

lemma live_turn:
  assumes "round_ok s" "activePlayerId s = Inr p" "\<not> rd_finished s"
  shows "isStaleTurn s (roundNumber s) p = Inr False" "validateCurrentPlayer s p (roundNumber s) = Inr ()"
    "p = participantOrder s ! nat (activePlayerIndex s)" "seats_ok s" "turn_ok s"
proof -
  show s: "seats_ok s" "turn_ok s" using assms(1) by (simp_all add: round_ok_def)
  show p: "p = participantOrder s ! nat (activePlayerIndex s)" using active_ok[OF s(1)] assms(2) by simp
  have "p \<in> set (participantOrder s)" using s(1) p by (simp add: seats_ok_def)
  then show "isStaleTurn s (roundNumber s) p = Inr False" "validateCurrentPlayer s p (roundNumber s) = Inr ()"
    using assms(2,3) by (simp_all add: isStaleTurn_def validateCurrentPlayer_def)
qed

lemma autoRoll_succeeds:
  assumes "round_ok s" "activePlayerId s = Inr p" "\<not> rd_finished s" "hasRollsLeft s" "valid_dice dice"
  obtains s' where "autoRoll s dice = Inr s'" "round_ok s'" "same_seats s s'" "activeRollCount s' = activeRollCount s + 1"
    "activePlayerId s' = Inr p"
proof -
  note live = live_turn[OF assms(1-3)]
  define held where "held = (case activeHeld s of Some held \<Rightarrow> held | None \<Rightarrow> NO_HELD)"
  define s' where "s' = s\<lparr>activeRollCount := activeRollCount s + 1,
    activeDice := Some (mergeRolledDice (activeDice s) dice held), activeHeld := Some held, rd_finished := False\<rparr>"
  have held: "length held = DICE_COUNT" "activeDice s = None \<Longrightarrow> True \<notin> set held"
    using live(5) by (auto simp: turn_ok_def held_def NO_HELD_def DICE_COUNT_def split: option.splits)
  have count: "0 \<le> activeRollCount s" "activeRollCount s + 1 \<le> MAX_ROLL_COUNT"
    using live(5) assms(4) by (auto simp: turn_ok_def hasRollsLeft_def)
  have range: "1 \<le> roundNumber s" "roundNumber s \<le> totalRounds s" using live(4) by (simp_all add: seats_ok_def)
  have roll: "recordRoll s \<lparr>rr_playerId = p, rr_roundNumber = roundNumber s, rr_rollCount = activeRollCount s + 1,
      rr_held = held, rr_rolledDice = dice\<rparr> = Inr s'"
    using live(2) held count assms(5) range by (auto simp: recordRoll_def validateHeld_def validateRoundDice_def valid_dice_def s'_def)
  then have auto: "autoRoll s dice = Inr s'" using assms(2,4) by (simp add: autoRoll_def held_def)
  have "same_seats s s'" "turn_ok s'" using recordRoll_ok[OF assms(1) roll] by simp_all
  moreover from this have "round_ok s'" using same_seats_ok[OF _ assms(1)] by blast
  moreover have "activePlayerId s' = Inr p" using assms(2) by (auto simp: s'_def activePlayerId_def split: if_splits)
  ultimately show thesis using that[OF auto] by (simp add: s'_def)
qed

lemma expire_succeeds:
  assumes "round_ok s" "\<not> rd_finished s"
  obtains s' c where "expire_round s = Inr (s', c)" "round_ok s'" "turn_over s (submissions s) s'"
proof -
  have "seats_ok s" using assms(1) by (simp add: round_ok_def)
  then obtain s' c where "advanceTurn s (submissions s) = Inr (s', c)" "turn_over s (submissions s) s'"
    using advanceTurn_over by blast
  then have "expire_round s = Inr (s', c)" using assms(2) by (simp add: expire_round_def)
  then show thesis using that round_expire_ok[OF assms(1)] \<open>turn_over s (submissions s) s'\<close> by blast
qed

lemma roll_times_dice:
  "(\<And>w. 1 \<le> fst (die_roller P w) \<and> fst (die_roller P w) \<le> 6) \<Longrightarrow>
    length (fst (roll_times n P w)) = n \<and> \<not> list_ex isInvalidDie (fst (roll_times n P w))"
proof (induction n arbitrary: w)
  case (Suc n)
  have "\<not> isInvalidDie (fst (die_roller P w))" using Suc.prems by (simp add: isInvalidDie_def not_less)
  then show ?case using Suc.IH[OF Suc.prems, of "snd (die_roller P w)"] by (simp add: case_prod_beta)
qed simp

lemma submission_submit_cases:
  assumes "submission_submit P room p n d category ts = (r, ts')"
  obtains e where "r = Inl e" "ts_rounds ts' = ts_rounds ts"
  | score s sub s' c where "r = Inr (score, (s', c))" "map_of (ts_rounds ts) room = Some s" "submit_round s sub = Inr (s', c)"
      "new_submission p n d category = Inr sub" "ts_rounds ts' = AList.update room s' (ts_rounds ts)"
proof (cases "new_submission p n d category")
  case (Inl e)
  then have "r = Inl (Rounds (Sync e))" "ts' = ts" using assms by (simp_all add: submission_submit_def)
  then show thesis by (intro that(1)) simp_all
next
  case (Inr sub)
  obtain r1 st w h where run: "submitAtomically room sub (confirm_submission P room sub) (ts_rounds ts, (ts_world ts, None)) = (r1, (st, (w, h)))"
    by (rule prod_cases4)
  then have out: "r = map_sum Rounds (\<lambda>result. (map_option (Pair p) h, result)) r1" "ts_rounds ts' = st"
    using assms Inr by (auto simp: submission_submit_def)
  show thesis
  proof (cases "blank room \<or> map_of (ts_rounds ts) room = None")
    case True
    then have "st = ts_rounds ts" "isl r1" using run by (auto simp: submitAtomically_def split: if_splits option.splits)
    then show thesis using out that(1) by (cases r1) simp_all
  next
    case False
    then obtain s where s: "map_of (ts_rounds ts) room = Some s" "\<not> blank room" by auto
    show thesis
    proof (cases "submit_round s sub")
      case (Inl e)
      then have "st = ts_rounds ts" "r1 = Inl (Sync e)" using run s by (simp_all add: submitAtomically_def)
      then show thesis using out that(1) by simp
    next
      case ok: (Inr result)
      obtain b w1 where b: "confirm_submission P room sub (ts_world ts, None) = (b, w1)" by (cases "confirm_submission P room sub (ts_world ts, None)")
      show thesis
      proof (cases b)
        case (Inl e)
        then have "st = ts_rounds ts" "r1 = Inl (Callback e)" using run s ok b by (simp_all add: submitAtomically_def)
        then show thesis using out that(1) by simp
      next
        case (Inr u)
        then have "st = AList.update room (fst result) (ts_rounds ts)" "r1 = Inr result" using run s ok b by (simp_all add: submitAtomically_def)
        then show thesis using out that(2)[of "map_option (Pair p) h" "fst result" "snd result" s sub] s ok \<open>new_submission p n d category = Inr sub\<close> by simp
      qed
    qed
  qed
qed

lemma advance_without_score:
  fixes ts :: "('w, 'b) turn_state"
  assumes stored: "map_of (ts_rounds ts) room = Some s" and ok: "round_ok s" "activePlayerId s = Inr p" "\<not> rd_finished s" "\<not> blank room"
  obtains s' c where "(advanceWithoutScore room (roundNumber s) p :: ('w, 'e, 'b, timeout_resolution) turn_cmd) ts
      = (Inr (Advanced (s', c)), ts\<lparr>ts_rounds := AList.update room s' (ts_rounds ts)\<rparr>)"
    "round_ok s'" "turn_over s (submissions s) s'" "expire_round s = Inr (s', c)"
proof -
  obtain s' c where s': "expire_round s = Inr (s', c)" "round_ok s'" "turn_over s (submissions s) s'"
    by (rule expire_succeeds[OF ok(1,3)])
  have "(advanceWithoutScore room (roundNumber s) p :: ('w, 'e, 'b, timeout_resolution) turn_cmd) ts
      = (Inr (Advanced (s', c)), ts\<lparr>ts_rounds := AList.update room s' (ts_rounds ts)\<rparr>)"
    using stored ok(4) s'(1) live_turn(1)[OF ok(1-3)]
    by (simp add: advanceWithoutScore_def rounds_expire_def on_store_app expireAtomically_def optional_def require_room_def andThen_app)
  then show thesis using that s' by blast
qed

definition moved_on :: "string \<Rightarrow> round_state \<Rightarrow> round_result \<Rightarrow> ('w, 'b) turn_state \<Rightarrow> bool" where
  "moved_on room s result ts' \<longleftrightarrow> map_of (ts_rounds ts') room = Some (fst result) \<and> round_ok (fst result)
     \<and> (\<exists>subs. turn_over s subs (fst result))"

lemma record_moves_on:
  fixes ts :: "('w, 'b) turn_state" and P :: "('w, 'e, 'b) turn_ports"
  assumes stored: "map_of (ts_rounds ts) room = Some s" and ok: "round_ok s" "activePlayerId s = Inr p" "\<not> rd_finished s" "\<not> blank room"
  shows "\<exists>result ts'. recordAndAdvance P room (roundNumber s) p dice ts = (Inr (Advanced result), ts') \<and> moved_on room s result ts'"
proof -
  have without: "\<exists>result ts'. (advanceWithoutScore room (roundNumber s) p :: ('w, 'e, 'b, timeout_resolution) turn_cmd) ts1
      = (Inr (Advanced result), ts') \<and> moved_on room s result ts'" if "ts_rounds ts1 = ts_rounds ts" for ts1 :: "('w, 'b) turn_state"
  proof -
    have "map_of (ts_rounds ts1) room = Some s" using stored that by simp
    from advance_without_score[OF this ok, where 'e = 'e] show ?thesis by (fastforce simp: moved_on_def)
  qed
  have degraded: "\<exists>result ts'. andThen (warn room reason) (\<lambda>_. advanceWithoutScore room (roundNumber s) p :: ('w, 'e, 'b, timeout_resolution) turn_cmd) ts1
      = (Inr (Advanced result), ts') \<and> moved_on room s result ts'" if "ts_rounds ts1 = ts_rounds ts" for ts1 :: "('w, 'b) turn_state" and reason
    using without[of "ts1\<lparr>ts_warnings := ts_warnings ts1 @ [(room, reason)]\<rparr>"] that by (simp add: warn_def)
  show ?thesis
  proof (cases dice)
    case None
    then show ?thesis using degraded[OF refl] by (simp add: recordAndAdvance_def)
  next
    case (Some d)
    obtain r ts1 where pick: "pickOpenCategory P room p ts = (r, ts1)" by (cases "pickOpenCategory P room p ts")
    note q = quietD[OF quiet_pick pick]
    show ?thesis
    proof (cases "\<exists>category. r = Inr (Some category)")
      case True
      then obtain category where r: "r = Inr (Some category)" by blast
      obtain r2 ts2 where submit: "submission_submit P room p (roundNumber s) d category ts1 = (r2, ts2)"
        by (cases "submission_submit P room p (roundNumber s) d category ts1")
      from submit show ?thesis
      proof (cases rule: submission_submit_cases)
        case (1 e)
        then show ?thesis using degraded[of ts2] q pick r submit by (simp add: recordAndAdvance_def Some)
      next
        case (2 score s0 sub s' c)
        have s0: "s0 = s" using 2(2) q stored by simp
        have "round_ok s'" using submit_ok[OF ok(1) 2(3)[unfolded s0]] new_submission_Inr[OF 2(4)] by auto
        moreover have "\<exists>subs. turn_over s subs s'" using submit_Inr(4)[OF 2(3)] ok(1) unfolding s0 by (auto simp: round_ok_def)
        ultimately have "moved_on room s (s', c) ts'" if "ts_rounds ts' = ts_rounds ts2" for ts' :: "('w, 'b) turn_state"
          using that 2(5) q by (simp add: moved_on_def)
        then show ?thesis using pick r submit 2(1)
          by (cases score) (auto simp: recordAndAdvance_def Some broadcast_def andThen_app)
      qed
    next
      case False
      then have "(\<exists>e. r = Inl e) \<or> r = Inr None" by (cases r) auto
      then show ?thesis using degraded[of ts1] without[of ts1] q pick by (auto simp: recordAndAdvance_def Some)
    qed
  qed
qed

text \<open>The dice the player kept stay on the table when the server rolls.\<close>

definition kept_dice :: "round_state \<Rightarrow> round_state \<Rightarrow> bool" where
  "kept_dice s s' \<longleftrightarrow> (\<exists>dice'. activeDice s' = Some dice' \<and> length dice' = DICE_COUNT
     \<and> activeHeld s' = Some (case activeHeld s of Some held \<Rightarrow> held | None \<Rightarrow> NO_HELD)
     \<and> (case (activeDice s, activeHeld s) of (Some dice, Some held) \<Rightarrow>
          list_all (\<lambda>i. \<not> held ! i \<or> dice' ! i = dice ! i) [0..<DICE_COUNT] | _ \<Rightarrow> True))"

lemma autoRoll_keeps:
  assumes "round_ok s" "activePlayerId s = Inr p" "\<not> rd_finished s" "autoRoll s dice = Inr s'"
  shows "kept_dice s s'"
proof -
  note live = live_turn[OF assms(1-3)]
  define held where "held = (case activeHeld s of Some held \<Rightarrow> held | None \<Rightarrow> NO_HELD)"
  have s': "activeDice s' = Some (mergeRolledDice (activeDice s) dice held)" "activeHeld s' = Some held"
    and len: "length dice = DICE_COUNT"
    using assms(4) by (auto simp: autoRoll_def recordRoll_def validateRoundDice_def held_def[symmetric] dest!: restore_Inr split: sum.splits if_splits)
  have old: "activeDice s = Some d \<Longrightarrow> length d = DICE_COUNT" "length held = DICE_COUNT" for d
    using live(5) by (auto simp: turn_ok_def valid_dice_def held_def NO_HELD_def DICE_COUNT_def split: option.splits)
  have "length (mergeRolledDice (activeDice s) dice held) = DICE_COUNT"
    using len by (simp add: mergeRolledDice_def merge_kept_length split: option.split)
  moreover have "mergeRolledDice (activeDice s) dice held ! i = d ! i"
    if "activeDice s = Some d" "held ! i" "i < DICE_COUNT" for d i
    using that old len by (simp add: mergeRolledDice_def merge_kept_nth)
  ultimately show ?thesis
    using s' by (auto simp: kept_dice_def list_all_iff held_def split: option.splits)
qed

lemma resolve_moves_the_turn:
  fixes ts :: "('w, 'b) turn_state" and P :: "('w, 'e, 'b) turn_ports"
  assumes stored: "map_of (ts_rounds ts) room = Some s" and ok: "round_ok s" "activePlayerId s = Inr p" "\<not> rd_finished s" "\<not> blank room"
    and die: "\<And>w. 1 \<le> fst (die_roller P w) \<and> fst (die_roller P w) \<le> 6"
  shows "\<exists>r ts'. resolve P room (roundNumber s) p ts = (Inr r, ts') \<and> (case r of
       AutoRolled s' \<Rightarrow> hasRollsLeft s \<and> kept_dice s s' \<and> map_of (ts_rounds ts') room = Some s' \<and> round_ok s' \<and> same_seats s s'
         \<and> activeRollCount s' = activeRollCount s + 1 \<and> activePlayerId s' = Inr p
     | Advanced (s', c) \<Rightarrow> \<not> hasRollsLeft s \<and> map_of (ts_rounds ts') room = Some s' \<and> round_ok s'
         \<and> (\<exists>subs. turn_over s subs s')
     | Stale \<Rightarrow> False)"
proof -
  obtain dice w where roll: "roll_times DICE_COUNT P (ts_world ts) = (dice, w)" by (cases "roll_times DICE_COUNT P (ts_world ts)")
  have dice: "valid_dice dice"
    using roll_times_dice[OF die, of DICE_COUNT "ts_world ts"] roll by (simp add: valid_dice_def)
  note live = live_turn[OF ok(1-3)]
  show ?thesis
  proof (cases "hasRollsLeft s")
    case True
    obtain s' where s': "kept_dice s s'" "autoRoll s dice = Inr s'" "round_ok s'" "same_seats s s'" "activeRollCount s' = activeRollCount s + 1"
      "activePlayerId s' = Inr p" by (rule autoRoll_succeeds[OF ok(1-3) True dice]) (rule that[OF autoRoll_keeps[OF ok(1-3)]]; assumption)
    have "\<exists>ts'. resolve P room (roundNumber s) p ts = (Inr (AutoRolled s'), ts') \<and> map_of (ts_rounds ts') room = Some s'"
      using stored ok(4) True s'(2) live(1) roll
      by (simp add: resolve_def rounds_autoRoll_def rollDice_def on_store_app autoRollAtomically_def optional_def require_room_def
          andThen_app broadcast_def)
    then show ?thesis using s' True by fastforce
  next
    case False
    have "\<exists>ts1. resolve P room (roundNumber s) p ts = recordAndAdvance P room (roundNumber s) p (activeDice s) ts1
        \<and> ts_rounds ts1 = ts_rounds ts"
      using stored ok False live(1) roll
      by (auto simp: resolve_def rounds_autoRoll_def rollDice_def on_store_app autoRollAtomically_def optional_def require_room_def
          andThen_app rounds_find_app)
    then obtain ts1 where ts1: "resolve P room (roundNumber s) p ts = recordAndAdvance P room (roundNumber s) p (activeDice s) ts1"
      "ts_rounds ts1 = ts_rounds ts" by blast
    have "map_of (ts_rounds ts1) room = Some s" using stored ts1(2) by simp
    from record_moves_on[OF this ok, of P "activeDice s"] show ?thesis using ts1(1) False by (fastforce simp: moved_on_def)
  qed
qed

section \<open>The clock after a timeout\<close>

text \<open>The clock of a turn runs: the deadline is shown, stored and announced last, and a deadline is booked.\<close>

definition turn_runs :: "string \<Rightarrow> round_state \<Rightarrow> ('w, 'b) turn_state \<Rightarrow> bool" where
  "turn_runs room s ts \<longleftrightarrow> (\<exists>d p xs. map_of (activeDeadlines ts) room = Some (roundNumber s, d)
     \<and> map_of (ts_deadlines ts) room = Some (roundNumber s, d) \<and> activePlayerId s = Inr p
     \<and> ts_sent ts = xs @ [(room, RoundStart (roundNumber s) d p (participantOrder s))]
     \<and> (d = None \<or> (\<exists>slot. map_of (scheduledRounds (ts_scheduler ts)) room = Some slot
          \<and> sr_roundNumber slot = roundNumber s \<and> sr_timeout slot \<noteq> None)))"

text \<open>The game goes on: nobody is left, or the rounds are over, or the clock of the stored turn runs, or the end of
  the game was announced.\<close>

definition goes_on :: "string \<Rightarrow> ('w, 'b) turn_state \<Rightarrow> bool" where
  "goes_on room ts \<longleftrightarrow> (case map_of (ts_rounds ts) room of None \<Rightarrow> True
     | Some s \<Rightarrow> rd_finished s \<or> turn_runs room s ts
       \<or> (\<exists>xs rankings. ts_sent ts = xs @ [(room, GameOver rankings), (room, StateSync)]))"

text \<open>The stored round is the given one or has fewer places left to play.\<close>

definition further :: "string \<Rightarrow> round_state option \<Rightarrow> ('w, 'b) turn_state \<Rightarrow> bool" where
  "further room v ts \<longleftrightarrow> map_of (ts_rounds ts) room = v \<or> turns_fuel (map_of (ts_rounds ts) room) < turns_fuel v"

definition carries :: "string \<Rightarrow> round_state \<Rightarrow> ('w, 'e, 'b, 'a) turn_cmd \<Rightarrow> bool" where
  "carries room s f \<longleftrightarrow> (\<forall>ts. map_of (ts_rounds ts) room = Some s \<longrightarrow>
     further room (Some s) (snd (f ts)) \<and> ((\<exists>x. fst (f ts) = Inr x) \<longrightarrow> goes_on room (snd (f ts))))"

lemma further_refl [simp]: "map_of (ts_rounds ts) room = v \<Longrightarrow> further room v ts"
  by (simp add: further_def)

lemma further_trans: "further room v ts \<Longrightarrow> turns_fuel v < turns_fuel u \<Longrightarrow> further room u ts"
  by (auto simp: further_def)

lemma carries_quiet_then:
  assumes "quiet f" and "\<And>x. carries room s (g x)"
  shows "carries room s (andThen f g)"
  using assms by (auto simp: carries_def quiet_def andThen_app split: sum.split)

lemma carries_then_ret: "carries room s f \<Longrightarrow> carries room s (andThen f (\<lambda>_. ret y))"
  by (auto simp: carries_def andThen_app split: sum.split)

lemma carries_throw: "carries room s (throw e)"
  by (simp add: carries_def)

lemma carries_finished: "quiet f \<Longrightarrow> rd_finished s \<Longrightarrow> carries room s f"
  by (auto simp: carries_def quiet_def goes_on_def)

lemma expire_stored:
  fixes ts :: "('w, 'b) turn_state"
  assumes "map_of (ts_rounds ts) room = Some s" and "activePlayerId s = Inr p"
  obtains e where "(rounds_expire room (roundNumber s) p :: ('w, 'e, 'b, round_result option) turn_cmd) ts = (Inl e, ts)"
  | "rd_finished s" "(rounds_expire room (roundNumber s) p :: ('w, 'e, 'b, round_result option) turn_cmd) ts = (Inr None, ts)"
  | s' c where "turns_fuel (Some s') < turns_fuel (Some s)"
      "(rounds_expire room (roundNumber s) p :: ('w, 'e, 'b, round_result option) turn_cmd) ts
        = (Inr (Some (s', c)), ts\<lparr>ts_rounds := AList.update room s' (ts_rounds ts)\<rparr>)"
proof (cases rule: rounds_expire_cases[of room "roundNumber s" p ts, where 'e = 'e])
  case (1 e) then show thesis by (rule that(1))
next
  case 2
  have "rd_finished s"
  proof (rule ccontr)
    assume "\<not> rd_finished s"
    then have "isStaleTurn s (roundNumber s) p = Inr False" using assms(2) by (simp add: isStaleTurn_def)
    then show False using 2 assms(1)
      by (auto simp: rounds_expire_def on_store_app expireAtomically_def optional_def require_room_def andThen_app
          split: if_splits sum.splits)
  qed
  then show thesis using 2 by (rule that(2))
next
  case (3 s0 s' c)
  then show thesis using that(3)[of s' c] assms expire_decreases[of s s' c p] by simp
qed

lemma carries_expire:
  fixes h :: "round_result \<Rightarrow> ('w, 'e, 'b, unit) turn_cmd"
  assumes "activePlayerId s = Inr p" and "\<And>s' c. carries room s' (h (s', c))"
  shows "carries room s (andThen (rounds_expire room (roundNumber s) p) (\<lambda>r. case r of None \<Rightarrow> ret () | Some x \<Rightarrow> h x))"
  unfolding carries_def
proof (intro allI impI)
  fix ts :: "('w, 'b) turn_state"
  let ?f = "andThen (rounds_expire room (roundNumber s) p) (\<lambda>r. case r of None \<Rightarrow> ret () | Some x \<Rightarrow> h x)"
  assume st: "map_of (ts_rounds ts) room = Some s"
  show "further room (Some s) (snd (?f ts)) \<and> ((\<exists>x. fst (?f ts) = Inr x) \<longrightarrow> goes_on room (snd (?f ts)))"
  proof (cases rule: expire_stored[OF st assms(1), where 'e = 'e])
    case (3 s' c)
    define ts1 where "ts1 = ts\<lparr>ts_rounds := AList.update room s' (ts_rounds ts)\<rparr>"
    have "map_of (ts_rounds ts1) room = Some s'" by (simp add: ts1_def)
    then have "further room (Some s') (snd (h (s', c) ts1))"
      and "(\<exists>x. fst (h (s', c) ts1) = Inr x) \<longrightarrow> goes_on room (snd (h (s', c) ts1))"
      using assms(2)[of s' c] unfolding carries_def by blast+
    then show ?thesis using 3 further_trans[OF _ 3(1)] by (simp add: ts1_def)
  qed (use st in \<open>simp_all add: goes_on_def\<close>)
qed

lemma finish_announces:
  assumes "finishIfComplete P room force ts = (Inr True, ts')"
  shows "\<exists>xs rankings. ts_sent ts' = xs @ [(room, GameOver rankings), (room, StateSync)]"
  using assms
  by (auto simp: finishIfComplete_def andThen_app broadcast_def in_world_def split: sum.splits option.splits if_splits prod.splits)

lemma carries_advance:
  fixes P :: "('w, 'e, 'b) turn_ports"
  assumes "\<And>s. carries room s (start room s)"
  shows "carries room s (advance_turn P start m room (score, s, c))"
proof -
  have q: "quiet (case score of None \<Rightarrow> ret () | Some (p, board) \<Rightarrow> broadcast room (ScoreUpdate p board m))"
    by (cases score) (auto simp: quiet_intros split: prod.split)
  define last_step :: "bool \<Rightarrow> ('w, 'e, 'b, unit) turn_cmd" where "last_step over = (if over then ret ()
     else if rd_finished s then warn room ''round_cap_reached_without_finish''
     else andThen (start room s) (\<lambda>_. ret ()))" for over
  have going: "carries room s (last_step False)"
    unfolding last_step_def by (cases "rd_finished s") (auto intro: carries_then_ret[OF assms] carries_finished[OF quiet_messages(2)])
  have "carries room s (andThen (case c of None \<Rightarrow> ret False
         | Some c \<Rightarrow> andThen (broadcast room (RoundEnd (rc_roundNumber c) (submittedPlayerIds c))) (\<lambda>_.
             finishIfComplete P room (gameCompleted c))) last_step)"
  proof (cases c)
    case None
    then show ?thesis using going by (simp add: carries_def andThen_app ret_def)
  next
    case (Some k)
    let ?f = "finishIfComplete P room (gameCompleted k)"
    have "carries room s (andThen ?f last_step)"
      unfolding carries_def
    proof (intro allI impI)
      fix ts :: "('w, 'b) turn_state"
      assume st: "map_of (ts_rounds ts) room = Some s"
      obtain r ts1 where r: "?f ts = (r, ts1)" by (cases "?f ts")
      have st1: "map_of (ts_rounds ts1) room = Some s" using quietD[OF quiet_finish r] st by simp
      show "further room (Some s) (snd (andThen ?f last_step ts))
          \<and> ((\<exists>x. fst (andThen ?f last_step ts) = Inr x) \<longrightarrow> goes_on room (snd (andThen ?f last_step ts)))"
      proof (cases r)
        case (Inl e) then show ?thesis using r st1 by simp
      next
        case (Inr over)
        show ?thesis
        proof (cases over)
          case True
          have "goes_on room ts1" unfolding goes_on_def st1 using finish_announces[of P room "gameCompleted k" ts ts1] r Inr True by simp
          then show ?thesis using r Inr True st1 by (simp add: last_step_def)
        next
          case False
          then show ?thesis using r Inr going st1 by (auto simp: carries_def)
        qed
      qed
    qed
    then have "carries room s (andThen (broadcast room (RoundEnd (rc_roundNumber k) (submittedPlayerIds k))) (\<lambda>_. andThen ?f last_step))"
      by (rule carries_quiet_then[OF quiet_messages(1)])
    moreover have "andThen (andThen f g) h = andThen f (\<lambda>x. andThen (g x) h)" for f :: "('w, 'e, 'b, unit) turn_cmd"
      and g :: "unit \<Rightarrow> ('w, 'e, 'b, bool) turn_cmd" and h :: "bool \<Rightarrow> ('w, 'e, 'b, unit) turn_cmd"
      by (rule ext) (simp add: andThen_app split: sum.split)
    ultimately show ?thesis by (simp only: Some option.case)
  qed
  note over = this
  show ?thesis unfolding advance_turn_def prod.case
    by (rule carries_quiet_then[OF quiet_cancel(1)], rule carries_quiet_then[OF q], rule over[unfolded last_step_def])
qed

lemma carries_leave_turn:
  fixes h :: "round_state \<times> round_completion option \<Rightarrow> ('w, 'e, 'b, unit) turn_cmd"
  assumes "activePlayerId s = Inr p" "\<not> rd_finished s" and "\<And>s' c. carries room s' (h (s', c))"
  shows "carries room s (andThen (rounds_expire room (roundNumber s) p) (\<lambda>expired. andThen (rounds_removeParticipant room p)
    (\<lambda>updated. case (expired, updated) of (Some (_, completed), Some s') \<Rightarrow> h (s', completed) | _ \<Rightarrow> ret ())))"
    (is "carries room s ?f")
  unfolding carries_def
proof (intro allI impI)
  fix ts :: "('w, 'b) turn_state"
  assume st: "map_of (ts_rounds ts) room = Some s"
  show "further room (Some s) (snd (?f ts)) \<and> ((\<exists>x. fst (?f ts) = Inr x) \<longrightarrow> goes_on room (snd (?f ts)))"
  proof (cases rule: expire_stored[OF st assms(1), where 'e = 'e])
    case (1 e) then show ?thesis using st by simp
  next
    case 2 then show ?thesis using assms(2) by simp
  next
    case (3 s1 c)
    define ts1 where "ts1 = ts\<lparr>ts_rounds := AList.update room s1 (ts_rounds ts)\<rparr>"
    have st1: "map_of (ts_rounds ts1) room = Some s1" by (simp add: ts1_def)
    have f: "?f ts = andThen (rounds_removeParticipant room p) (\<lambda>updated. case updated of
        Some s' \<Rightarrow> h (s', c) | None \<Rightarrow> ret ()) ts1"
      using 3(2) by (simp add: ts1_def andThen_app split: sum.split option.split)
    show ?thesis
    proof (cases rule: rounds_removeParticipant_cases[of room p ts1, where 'e = 'e])
      case (1 e)
      then show ?thesis unfolding f using 3(1) st1 by (simp add: further_def)
    next
      case 2
      have False using 2 st1
        by (auto simp: rounds_removeParticipant_def on_store_app removeParticipantAtomically_def optional_def require_room_def
            andThen_app split: if_splits sum.splits)
      then show ?thesis ..
    next
      case (3 s0 s2)
      define ts2 where "ts2 = ts1\<lparr>ts_rounds := AList.update room s2 (ts_rounds ts1)\<rparr>"
      have st2: "map_of (ts_rounds ts2) room = Some s2" by (simp add: ts2_def)
      have less: "turns_fuel (Some s2) < turns_fuel (Some s)"
        using without_le[OF 3(2)] 3(1) st1 \<open>turns_fuel (Some s1) < turns_fuel (Some s)\<close> by simp
      have "further room (Some s2) (snd (h (s2, c) ts2))"
        and "(\<exists>x. fst (h (s2, c) ts2) = Inr x) \<longrightarrow> goes_on room (snd (h (s2, c) ts2))"
        using assms(3)[of s2 c] st2 unfolding carries_def by blast+
      then show ?thesis unfolding f using 3(3) further_trans[OF _ less] by (simp add: ts2_def)
    qed
  qed
qed

lemma carries_remove:
  fixes P :: "('w, 'e, 'b) turn_ports"
  assumes "activePlayerId s = Inr p" and "\<And>s' c. carries room s' (adv room (None, s', c))"
  shows "carries room s (removePlayerFromRound P adv room p)"
proof -
  have q: "quiet (\<lambda>ts. case seat_removal P room p (ts_world ts) of (removed, w) \<Rightarrow> (Inr removed, ts\<lparr>ts_world := w\<rparr>))"
    by (simp add: quiet_def split: prod.split)
  have q2: "quiet (if removed then broadcast room (PlayerLeft p) else ret ())" for removed
    by (simp add: quiet_intros)
  have mem: "rd_finished s \<or> p \<in> set (participantOrder s)"
    using assms(1) by (auto simp: activePlayerId_def split: if_splits)
  define rest :: "round_state option \<Rightarrow> ('w, 'e, 'b, unit) turn_cmd" where "rest found = (case found of None \<Rightarrow> ret ()
      | Some s \<Rightarrow> if rd_finished s \<or> p \<notin> set (participantOrder s) then ret ()
        else if length (participantOrder s) = 1
        then andThen (cancelRoom room) (\<lambda>_. andThen (rounds_remove room) (\<lambda>_. ret ()))
        else (case activePlayerId s of Inl e \<Rightarrow> throw (Rounds (Sync e))
          | Inr active \<Rightarrow> if active = p
            then andThen (rounds_expire room (roundNumber s) p) (\<lambda>expired.
                 andThen (rounds_removeParticipant room p) (\<lambda>updated. case (expired, updated) of
                   (Some (_, completed), Some s') \<Rightarrow> adv room (None, (s', completed)) | _ \<Rightarrow> ret ()))
            else andThen (rounds_removeParticipant room p) (\<lambda>_. ret ())))" for found
  have alone: "carries room s (andThen (cancelRoom room) (\<lambda>_. andThen (rounds_remove room) (\<lambda>_. ret ())))"
    if "\<not> rd_finished s"
    using that by (auto simp: carries_def goes_on_def further_def andThen_app cancelRoom_def rounds_remove_def on_store_app
        remove_round_def require_room_def turns_fuel_def split: sum.split)
  have "carries room s (rest (Some s))"
    using mem assms(1) alone carries_finished[OF quiet_ret] carries_leave_turn[OF assms(1) _ assms(2)]
    unfolding rest_def by (cases "rd_finished s") auto
  then have found: "carries room s (andThen (rounds_find room) rest)"
    by (auto simp: carries_def andThen_app rounds_find_app)
  show ?thesis unfolding removePlayerFromRound_def
    by (rule carries_quiet_then[OF quiet_clear], rule carries_quiet_then[OF q], rule carries_quiet_then[OF quiet_in_world],
        rule carries_quiet_then[OF q2], rule found[unfolded rest_def])
qed

lemma carries_handle:
  fixes adv :: "string \<Rightarrow> 'b turn_advance \<Rightarrow> ('w, 'e, 'b, unit) turn_cmd"
  assumes "\<And>p. activePlayerId s = Inr p \<Longrightarrow> carries room s (rem room p)"
    and "\<And>s' c. carries room s' (adv room (None, s', c))"
  shows "carries room s (offline_handle rem adv room s)"
proof (cases "activePlayerId s")
  case (Inl e) then show ?thesis by (simp add: carries_def offline_handle_def)
next
  case (Inr p)
  have e: "carries room s (andThen (rounds_expire room (roundNumber s) p) (\<lambda>expired. case expired of None \<Rightarrow> ret ()
      | Some result \<Rightarrow> adv room (None, result)))"
    by (rule carries_expire[OF Inr assms(2)])
  show ?thesis
    using e assms(1)[OF Inr] by (simp add: carries_def offline_handle_def Inr Let_def)
qed

lemma arm_books:
  fixes ts :: "('w, 'b) turn_state"
  assumes "(armTurn room s rm None :: ('w, 'e, 'b, int option) turn_cmd) ts = (Inr d, ts')"
  shows "turn_runs room s ts'"
proof -
  obtain p where p: "activePlayerId s = Inr p" using assms by (auto simp: armTurn_def split: sum.splits)
  define t where "t = (case d of Some t \<Rightarrow> Some t | None \<Rightarrow> if isBot rm p then Some (clock_now ts + ROUND_DURATION_MS) else None)"
  have runs: "map_of (activeDeadlines ts') room = Some (roundNumber s, d)" "map_of (ts_deadlines ts') room = Some (roundNumber s, d)"
    "ts_sent ts' = ts_sent ts @ [(room, RoundStart (roundNumber s) d p (participantOrder s))]"
    using assms p by (auto simp: armTurn_def Let_def andThen_app broadcast_def split: sum.splits option.splits if_splits)
  have "\<exists>slot. map_of (scheduledRounds (ts_scheduler ts')) room = Some slot \<and> sr_roundNumber slot = roundNumber s
      \<and> sr_timeout slot \<noteq> None" if d: "d = Some e" for e
  proof -
    have "\<exists>now dl. fst (schedule timerDeadlineExecutor now room (roundNumber s) dl p (ts_scheduler ts)) = Inr ()
        \<and> ts_scheduler ts' = snd (schedule timerDeadlineExecutor now room (roundNumber s) dl p (ts_scheduler ts))"
      using assms p d by (auto simp: armTurn_def Let_def andThen_app broadcast_def split: sum.splits option.splits if_splits)
        (rule exI, rule exI, rule conjI, assumption, rule refl)
    then obtain now dl where sch: "schedule timerDeadlineExecutor now room (roundNumber s) dl p (ts_scheduler ts) = (Inr (), ts_scheduler ts')"
      by (metis prod.collapse)
    then have ok: "\<not> blank room" "\<not> roundNumber s < 1" by (auto simp: schedule_def split: if_splits)
    from sch show ?thesis
      by (cases rule: schedule_cases[OF ok, of "ts_scheduler ts" p timerDeadlineExecutor dl now])
        (auto simp: booked_slot_def timerDeadlineExecutor_def)
  qed
  then show ?thesis unfolding turn_runs_def using runs p by (cases d) auto
qed

lemma carries_begin:
  fixes P :: "('w, 'e, 'b) turn_ports"
  assumes "carries room s (handle room s)"
  shows "carries room s (beginTurn P handle room s None)"
  unfolding beginTurn_def
proof (rule carries_quiet_then[OF quiet_in_world])
  fix rm
  define late :: "('w, 'e, 'b, int option) turn_cmd" where "late = andThen (in_world (touch P room)) (\<lambda>_. andThen (armTurn room s rm None) (\<lambda>deadline ts.
      (Inr deadline, ts\<lparr>ts_begun := ts_begun ts @ [(room, s)]\<rparr>)))"
  have arm: "carries room s (andThen (armTurn room s rm None) (\<lambda>deadline ts.
      (Inr deadline, ts\<lparr>ts_begun := ts_begun ts @ [(room, s)]\<rparr>)) :: ('w, 'e, 'b, int option) turn_cmd)"
    unfolding carries_def
  proof (intro allI impI)
    fix ts :: "('w, 'b) turn_state"
    assume st: "map_of (ts_rounds ts) room = Some s"
    let ?f = "andThen (armTurn room s rm None) (\<lambda>deadline ts. (Inr deadline, ts\<lparr>ts_begun := ts_begun ts @ [(room, s)]\<rparr>))
      :: ('w, 'e, 'b, int option) turn_cmd"
    obtain r ts1 where r: "(armTurn room s rm None :: ('w, 'e, 'b, int option) turn_cmd) ts = (r, ts1)"
      by (cases "(armTurn room s rm None :: ('w, 'e, 'b, int option) turn_cmd) ts")
    have st1: "map_of (ts_rounds ts1) room = Some s" using quietD[OF quiet_armTurn r] st by simp
    show "further room (Some s) (snd (?f ts)) \<and> ((\<exists>x. fst (?f ts) = Inr x) \<longrightarrow> goes_on room (snd (?f ts)))"
    proof (cases r)
      case (Inl e) then show ?thesis using r st1 by simp
    next
      case (Inr d)
      have "turn_runs room s ts1" using arm_books r Inr by blast
      then show ?thesis using r Inr st1 by (simp add: goes_on_def turn_runs_def)
    qed
  qed
  have late: "carries room s late"
    unfolding late_def by (rule carries_quiet_then[OF quiet_in_world arm])
  have away: "carries room s (andThen (handle room s) (\<lambda>_. ret (None :: int option)))" by (rule carries_then_ret[OF assms])
  show "carries room s (\<lambda>ts. case (if (None :: int option option) = None then map_sum id (\<lambda>p. isOffline P rm room p ts) (activePlayerId s) else Inr False) of
       Inl e \<Rightarrow> (Inl (Rounds (Sync e)), ts)
     | Inr True \<Rightarrow> andThen (handle room s) (\<lambda>_. ret None) ts
     | Inr False \<Rightarrow> andThen (in_world (touch P room)) (\<lambda>_. andThen (armTurn room s rm None) (\<lambda>deadline ts.
         (Inr deadline, ts\<lparr>ts_begun := ts_begun ts @ [(room, s)]\<rparr>))) ts)"
    using late away unfolding carries_def late_def[symmetric] by (auto split: sum.split bool.split)
qed

lemma carries_start: "carries room s (start_turn n P room s)"
proof (induction n arbitrary: s)
  case (Suc n)
  have adv: "carries room s' (advance_turn P (start_turn n P) None room (None, s', c))" for s' c
    by (rule carries_advance) (rule Suc.IH)
  show ?case unfolding start_turn.simps Let_def
    by (rule carries_begin, rule carries_handle, rule carries_remove, assumption, rule adv, rule adv)
qed (simp add: carries_throw)

lemma carries_timer_start: "carries room s (timer_start P room s)"
  using carries_start[of room s _ P] by (simp add: carries_def timer_start_def)

lemma carries_timer_advance: "carries room s (timer_advanceTurn P m room (score, s, c))"
  unfolding timer_advanceTurn_def by (rule carries_advance) (rule carries_timer_start)

text \<open>C25: a turn that ran out of time is moved on whatever the room and score services do, thrown errors
  included: while rolls are left the server rolls once more for the same player, who keeps the kept dice,
  otherwise the turn ends, with a score or without. The new state is valid and stored, or play is further on already
  (players who are away are passed over). When no port fails while the next clock is started, the game goes on:
  the deadline of the stored turn is shown, stored, announced as the last message and booked, or the rounds are over,
  the end of the game was announced, or nobody is left.\<close>

theorem timeout_always_moves_the_turn:
  fixes ts :: "('w, 'b) turn_state" and P :: "('w, 'e, 'b) turn_ports"
  assumes stored: "map_of (ts_rounds ts) room = Some s" and ok: "round_ok s" "activePlayerId s = Inr p" "\<not> rd_finished s" "\<not> blank room"
    and die: "\<And>w. 1 \<le> fst (die_roller P w) \<and> fst (die_roller P w) \<le> 6"
  shows "\<exists>s1 r ts'. expireTurn P room (roundNumber s) p ts = (r, ts') \<and> round_ok s1
    \<and> (if hasRollsLeft s
       then same_seats s s1 \<and> activePlayerId s1 = Inr p \<and> activeRollCount s1 = activeRollCount s + 1 \<and> kept_dice s s1
       else \<exists>subs. turn_over s subs s1)
    \<and> (map_of (ts_rounds ts') room = Some s1 \<or> turns_fuel (map_of (ts_rounds ts') room) < turns_fuel (Some s1))
    \<and> (r = Inr () \<longrightarrow> goes_on room ts')"
proof -
  obtain r ts1 where run: "resolve P room (roundNumber s) p ts = (Inr r, ts1)" and r: "case r of
       AutoRolled s' \<Rightarrow> hasRollsLeft s \<and> kept_dice s s' \<and> map_of (ts_rounds ts1) room = Some s' \<and> round_ok s' \<and> same_seats s s'
         \<and> activeRollCount s' = activeRollCount s + 1 \<and> activePlayerId s' = Inr p
     | Advanced (s', c) \<Rightarrow> \<not> hasRollsLeft s \<and> map_of (ts_rounds ts1) room = Some s' \<and> round_ok s'
         \<and> (\<exists>subs. turn_over s subs s')
     | Stale \<Rightarrow> False"
    using resolve_moves_the_turn[OF stored ok die] by blast
  have go: "\<exists>res ts'. expireTurn P room (roundNumber s) p ts = (res, ts') \<and> further room (Some s1) ts'
      \<and> (res = Inr () \<longrightarrow> goes_on room ts')"
    if "map_of (ts_rounds ts1) room = Some s1" "carries room s1 f" "expireTurn P room (roundNumber s) p ts = f ts1"
    for s1 and f :: "('w, 'e, 'b, unit) turn_cmd"
    using that unfolding carries_def by (metis prod.collapse)
  show ?thesis
  proof (cases r)
    case (AutoRolled s')
    have "carries room s' (andThen (timer_start P room s') (\<lambda>_. ret ()))" by (rule carries_then_ret[OF carries_timer_start])
    from go[OF _ this] show ?thesis using r run AutoRolled by (auto simp: expireTurn_def further_def)
  next
    case (Advanced result)
    obtain s' c where res: "result = (s', c)" by (cases result)
    from go[OF _ carries_timer_advance[where s = s' and c = c and P = P and m = None and score = None]]
    show ?thesis using r run Advanced res by (auto simp: expireTurn_def further_def)
  qed (use r in simp)
qed

section \<open>The ranking\<close>

lemma byTotal_le: "byTotalDescThenPlayerId l r \<le> 0 \<longleftrightarrow> snd r < snd l \<or> snd r = snd l \<and> fst l \<le> fst r"
  by (auto simp: byTotalDescThenPlayerId_def)

interpretation standing: comparator byTotalDescThenPlayerId
  by unfold_locales (auto simp: byTotal_le)

lemma rank_from_pairs: "map (\<lambda>r. (rank_playerId r, rank_total r)) (rank_from i rk prev xs) = xs"
  by (induction i rk prev xs rule: rank_from.induct) (auto simp: Let_def)

lemma rank_from_counts:
  assumes "sorted_wrt (\<lambda>l r. snd r \<le> snd l) (ds @ xs)"
    and "prev = (if ds = [] then None else Some (snd (last ds)))"
    and "rk = (if ds = [] then 0 else 1 + length (filter (\<lambda>e. snd (last ds) < snd e) ds))"
  shows "\<forall>r \<in> set (rank_from (length ds) rk prev xs). rank_of r = 1 + length (filter (\<lambda>e. rank_total r < snd e) (ds @ xs))"
  using assms
proof (induction xs arbitrary: ds rk prev)
  case (Cons x xs)
  obtain p t where x: "x = (p, t)" by (cases x)
  have rest: "filter (\<lambda>e. t < snd e) (x # xs) = []" using Cons.prems(1) by (auto simp: x sorted_wrt_append filter_empty_conv)
  define rk' where "rk' = (if prev = Some t then rk else length ds + 1)"
  have rk': "rk' = 1 + length (filter (\<lambda>e. t < snd e) ds)"
  proof (cases "prev = Some t")
    case True
    then show ?thesis using Cons.prems(2,3) by (auto simp: rk'_def split: if_splits)
  next
    case False
    have "t < snd e" if "e \<in> set ds" for e
    proof -
      have "ds \<noteq> []" using that by auto
      note ds = this append_butlast_last_id[OF this]
      have "sorted_wrt (\<lambda>l r. snd r \<le> snd l) (butlast ds @ [last ds])"
        using Cons.prems(1) unfolding ds(2) by (simp add: sorted_wrt_append)
      moreover have "e \<in> set (butlast ds @ [last ds])" using that ds(2) by simp
      ultimately have "snd (last ds) \<le> snd e" by (auto simp: sorted_wrt_append)
      moreover have "t \<le> snd (last ds)" using Cons.prems(1) ds(1) by (auto simp: x sorted_wrt_append)
      moreover have "snd (last ds) \<noteq> t" using False Cons.prems(2) ds(1) by auto
      ultimately show ?thesis by simp
    qed
    then have "filter (\<lambda>e. t < snd e) ds = ds" by (simp add: filter_id_conv)
    then show ?thesis using False by (simp add: rk'_def)
  qed
  have "\<forall>r \<in> set (rank_from (length (ds @ [x])) rk' (Some t) xs). rank_of r = 1 + length (filter (\<lambda>e. rank_total r < snd e) ((ds @ [x]) @ xs))"
    by (rule Cons.IH) (use Cons.prems(1) rk' in \<open>simp_all add: x\<close>)
  then show ?case using rk' rest by (auto simp: x Let_def rk'_def[symmetric])
qed simp

text \<open>players are listed by total, then by identifier; a player's rank is one more than the number of players
  with a higher total, so equal totals share a rank and the ranks after them are skipped.\<close>

theorem ranking_counts_the_better:
  assumes "wf_map totals"
  shows "mset (map (\<lambda>r. (rank_playerId r, rank_total r)) (rankTotals totals)) = mset totals
   \<and> sorted_wrt (\<lambda>r r'. rank_total r' < rank_total r \<or> rank_total r' = rank_total r \<and> rank_playerId r < rank_playerId r') (rankTotals totals)
   \<and> (\<forall>r \<in> set (rankTotals totals). rank_of r = 1 + length (filter (\<lambda>e. rank_total r < snd e) totals))"
proof -
  define xs where "xs = sort_by byTotalDescThenPlayerId totals"
  have sorted: "sorted_wrt (\<lambda>l r. byTotalDescThenPlayerId l r \<le> 0) xs"
    unfolding xs_def by (rule standing.sorted_sort_by)
  have m: "mset xs = mset totals" by (simp add: xs_def)
  have "distinct (map fst xs)" using assms m by (metis distinct_map mset_eq_imp_distinct_iff mset_eq_setD)
  then have strict: "sorted_wrt (\<lambda>l r. snd r < snd l \<or> snd r = snd l \<and> fst l < fst r) xs"
    using sorted by (induction xs) (auto simp: byTotal_le image_iff less_le)
  have pairs: "map (\<lambda>r. (rank_playerId r, rank_total r)) (rankTotals totals) = xs"
    by (simp add: rankTotals_def rank_from_pairs xs_def)
  have "sorted_wrt (\<lambda>l r. snd r < snd l \<or> snd r = snd l \<and> fst l < fst r) (map (\<lambda>r. (rank_playerId r, rank_total r)) (rankTotals totals))"
    using strict unfolding pairs .
  then have "sorted_wrt (\<lambda>r r'. rank_total r' < rank_total r \<or> rank_total r' = rank_total r \<and> rank_playerId r < rank_playerId r') (rankTotals totals)"
    by (simp add: sorted_wrt_map)
  moreover have "\<forall>r \<in> set (rankTotals totals). rank_of r = 1 + length (filter (\<lambda>e. rank_total r < snd e) totals)"
  proof -
    have "sorted_wrt (\<lambda>l r. snd r \<le> snd l) ([] @ xs)"
      using strict by (auto elim: sorted_wrt_mono_rel[rotated])
    from rank_from_counts[OF this] have "\<forall>r \<in> set (rankTotals totals). rank_of r = 1 + length (filter (\<lambda>e. rank_total r < snd e) xs)"
      by (simp add: rankTotals_def xs_def)
    moreover have "length (filter Q xs) = length (filter Q totals)" for Q
      using m by (metis mset_filter size_mset)
    ultimately show ?thesis by simp
  qed
  ultimately show ?thesis using pairs m by simp
qed

lemma ranking_counts_the_better_witness:
  "list_all (\<lambda>r. rank_of r = 1 + length (filter (\<lambda>e. rank_total r < snd e) [(''cat'', 120), (''ann'', 210), (''bob'', 120), (''dan'', 90 :: int)]))
     (rankTotals [(''cat'', 120), (''ann'', 210), (''bob'', 120), (''dan'', 90)])"
  unfolding list_all_iff
  using ranking_counts_the_better[of "[(''cat'', 120), (''ann'', 210), (''bob'', 120), (''dan'', 90)]"] by simp

text \<open>A table of two whose services all fail, and one whose room service answers and where everybody is present.\<close>

definition failing_ports :: "(nat, string, unit) turn_ports" where
  "failing_ports = \<lparr>getSnapshot = (\<lambda>_. throw ''down''), touch = (\<lambda>_. throw ''down''), leave = (\<lambda>_ _. throw ''down''),
     find_status = (\<lambda>_ _ _. None), seat_removal = (\<lambda>_ _ w. (False, w)), markPhase = (\<lambda>_ _ w. w),
     confirm_score = (\<lambda>_ _ _ _ _. throw ''down''), open_categories = (\<lambda>_ _. throw ''down''),
     completion_finish = (\<lambda>_ _ _. throw ''down''), readTotals = (\<lambda>_. throw ''down''),
     match_archive = (\<lambda>_ _. throw ''down''), live_snapshot = (\<lambda>_. throw ''down''),
     die_roller = (\<lambda>w. (int (w mod 6) + 1, w + 1)), categoryPicker = (\<lambda>n w. (0, w))\<rparr>"

definition quiet_table :: "round_state \<Rightarrow> (nat, unit) turn_state" where
  "quiet_table s = \<lparr>ts_rounds = [(''R'', s)], ts_scheduler = idle_scheduler 0, ts_deadlines = [], activeDeadlines = [],
     misses = [], ts_sent = [], ts_begun = [], ts_warnings = [], ts_world = 0\<rparr>"

definition steady_ports :: "(nat, string, unit) turn_ports" where
  "steady_ports = failing_ports\<lparr>getSnapshot := (\<lambda>room w. (Inr (Some \<lparr>room_gameCode = Some ''yacht'', room_gameId = Some ''g1'',
       room_players = [\<lparr>seat_playerId = ''ann'', seat_kind = ''HUMAN''\<rparr>, \<lparr>seat_playerId = ''bob'', seat_kind = ''HUMAN''\<rparr>]\<rparr>), w)),
     touch := (\<lambda>room w. (Inr (), w)), find_status := (\<lambda>w room p. Some ''online'')\<rparr>"

lemma quiet_table_facts:
  "round_ok table_start" "activePlayerId table_start = Inr ''ann''" "\<not> rd_finished table_start" "\<not> blank ''R''"
  "roundNumber table_start = 1" "map_of (ts_rounds (quiet_table table_start)) ''R'' = Some table_start"
  by (rule start_ok(1)[OF table_start_eq], code_simp+)

lemma fair_die: "1 \<le> fst (die_roller steady_ports w) \<and> fst (die_roller steady_ports w) \<le> 6"
  using mod_less_divisor[of 6 w] by (simp add: steady_ports_def failing_ports_def)

theorem timeout_always_moves_the_turn_witness:
  "\<exists>ts'. expireTurn steady_ports ''R'' 1 ''ann'' (quiet_table table_start) = (Inr (), ts') \<and> goes_on ''R'' ts'
    \<and> map_option activeRollCount (map_of (ts_rounds ts') ''R'') = Some 1"
proof -
  note f = quiet_table_facts
  obtain r ts' where run: "expireTurn steady_ports ''R'' 1 ''ann'' (quiet_table table_start) = (r, ts')"
    and on: "r = Inr () \<longrightarrow> goes_on ''R'' ts'"
    using timeout_always_moves_the_turn[OF f(6,1-4), of steady_ports, OF fair_die] unfolding f(5) by blast
  have "(case expireTurn steady_ports ''R'' 1 ''ann'' (quiet_table table_start) of
      (r, ts') \<Rightarrow> r = Inr () \<and> map_option activeRollCount (map_of (ts_rounds ts') ''R'') = Some 1)" by code_simp
  then show ?thesis using run on by auto
qed

text \<open>When the room cannot be read while the next clock is started, the error reaches the scheduler and no clock runs:
  the turn has moved, but nothing will move it again by itself.\<close>

lemma unreadable_room_stops_the_clock:
  "case expireTurn failing_ports ''R'' 1 ''ann'' (quiet_table table_start) of (r, ts') \<Rightarrow>
    r = Inl (PortFault ''down'') \<and> scheduledRounds (ts_scheduler ts') = [] \<and> activeDeadlines ts' = []
    \<and> map_option activeRollCount (map_of (ts_rounds ts') ''R'') = Some 1"
  by code_simp

end
