(* ===== verification/YachtModule.thy ===== *)
theory YachtModule
  imports RoundTimer
begin

text \<open>
  The game module of the dice game over the turn clock: the actions of a turn
  (\<open>yacht/yachtTurnActionService.ts\<close>) and the hooks of its life (\<open>yacht/yachtLifecycle.ts\<close>): start, reset,
  reconnect, pause, resume, rehydration after a restart of the process, removal of a player, close. The
  snapshots sent with \<open>state.sync\<close> are opaque. The steps of the module are the events a room can see.
\<close>

section \<open>The actions of a turn\<close>

definition yacht_roll :: "('w, 'e, 'b) turn_ports \<Rightarrow> string \<Rightarrow> string \<Rightarrow> int \<Rightarrow> int \<Rightarrow> bool list \<Rightarrow> string option
    \<Rightarrow> ('w, 'e, 'b, round_state) turn_cmd" where
  "yacht_roll P room p n k held msgId = andThen (rounds_recordRoll P room p n k held) (\<lambda>s.
     andThen (broadcast room (DiceBroadcast p (roundNumber s) (activeRollCount s)
       (case activeDice s of Some d \<Rightarrow> d | None \<Rightarrow> []) held False msgId)) (\<lambda>_.
     andThen (timer_start P room s) (\<lambda>_. ret s)))"

definition yacht_hold :: "string \<Rightarrow> string \<Rightarrow> int \<Rightarrow> bool list \<Rightarrow> string option \<Rightarrow> ('w, 'e, 'b, round_state) turn_cmd" where
  "yacht_hold room p n held msgId = andThen (rounds_recordHold room p n held) (\<lambda>s.
     andThen (broadcast room (HoldChanged p (roundNumber s) (case activeHeld s of Some h \<Rightarrow> h | None \<Rightarrow> []) msgId)) (\<lambda>_. ret s))"

definition yacht_submitScore :: "('w, 'e, 'b) turn_ports \<Rightarrow> string \<Rightarrow> string \<Rightarrow> int \<Rightarrow> int list \<Rightarrow> string \<Rightarrow> string option
    \<Rightarrow> ('w, 'e, 'b, 'b turn_advance) turn_cmd" where
  "yacht_submitScore P room p n dice category msgId = andThen (submission_submit P room p n dice category) (\<lambda>result.
     andThen (timer_advanceTurn P msgId room result) (\<lambda>_. ret result))"

section \<open>The life of a game\<close>

definition hostRank :: "string \<Rightarrow> string option \<Rightarrow> int" where
  "hostRank p host = (if Some p = host then 0 else 1)"

definition turnOrderOf :: "string list \<Rightarrow> string option \<Rightarrow> string list" where
  "turnOrderOf players host = sort_by (\<lambda>l r. hostRank l host - hostRank r host) players"

definition broadcastState :: "('w, 'e, 'b) turn_ports \<Rightarrow> string \<Rightarrow> ('w, 'e, 'b, unit) turn_cmd" where
  "broadcastState P room = andThen (in_world (live_snapshot P room)) (\<lambda>_. broadcast room StateSync)"

definition mark_phase :: "('w, 'e, 'b) turn_ports \<Rightarrow> string \<Rightarrow> string \<Rightarrow> ('w, 'e, 'b, unit) turn_cmd" where
  "mark_phase P room phase = (\<lambda>ts. (Inr (), ts\<lparr>ts_world := markPhase P room phase (ts_world ts)\<rparr>))"

definition yacht_reset :: "('w, 'e, 'b) turn_ports \<Rightarrow> string \<Rightarrow> ('w, 'e, 'b, unit) turn_cmd" where
  "yacht_reset P room = andThen (cancelRoom room) (\<lambda>_. andThen (rounds_remove room) (\<lambda>_.
     andThen (mark_phase P room ''waiting'') (\<lambda>_. broadcastState P room)))"

definition yacht_start :: "('w, 'e, 'b) turn_ports \<Rightarrow> string \<Rightarrow> string list \<Rightarrow> string option \<Rightarrow> ('w, 'e, 'b, unit) turn_cmd" where
  "yacht_start P room players host = andThen (rounds_remove room) (\<lambda>_.
     try_catch
       (andThen (rounds_initialize room 1 (turnOrderOf players host) DEFAULT_TOTAL_ROUNDS) (\<lambda>firstTurn.
        andThen (mark_phase P room ''playing'') (\<lambda>_.
        andThen (broadcastState P room) (\<lambda>_.
        andThen (timer_start P room firstTurn) (\<lambda>_. ret ())))))
       (\<lambda>e. andThen (yacht_reset P room) (\<lambda>_. throw e)))"

definition yacht_reconnect :: "('w, 'e, 'b) turn_ports \<Rightarrow> string \<Rightarrow> string \<Rightarrow> ('w, 'e, 'b, unit) turn_cmd" where
  "yacht_reconnect P room p = andThen (in_world (live_snapshot P room)) (\<lambda>_. clearOfflineMisses room p)"

definition yacht_pause :: "string \<Rightarrow> ('w, 'e, 'b, unit) turn_cmd" where
  "yacht_pause room = cancelRoom room"

definition yacht_resume :: "('w, 'e, 'b) turn_ports \<Rightarrow> string \<Rightarrow> ('w, 'e, 'b, unit) turn_cmd" where
  "yacht_resume P room = andThen (rounds_find room) (\<lambda>found. case found of None \<Rightarrow> ret ()
     | Some s \<Rightarrow> if rd_finished s then ret () else andThen (timer_start P room s) (\<lambda>_. ret ()))"

definition yacht_rehydrate :: "('w, 'e, 'b) turn_ports \<Rightarrow> string \<Rightarrow> ('w, 'e, 'b, unit) turn_cmd" where
  "yacht_rehydrate P room = andThen (rounds_find room) (\<lambda>found. case found of None \<Rightarrow> throw NotResumable
     | Some s \<Rightarrow> if rd_finished s then throw NotResumable
       else andThen (resumeFromStored P room s) (\<lambda>resumed. if resumed then ret () else throw NotResumable))"

definition yacht_removePlayer :: "('w, 'e, 'b) turn_ports \<Rightarrow> string \<Rightarrow> string \<Rightarrow> ('w, 'e, 'b, unit) turn_cmd" where
  "yacht_removePlayer P room p = timer_removePlayer P room p"

definition yacht_close :: "string \<Rightarrow> ('w, 'e, 'b, unit) turn_cmd" where
  "yacht_close room = andThen (cancelRoom room) (\<lambda>_. andThen (rounds_remove room) (\<lambda>_. ret ()))"

definition yacht_hasState :: "string \<Rightarrow> ('w, 'e, 'b, bool) turn_cmd" where
  "yacht_hasState room = andThen (rounds_find room) (\<lambda>found. ret (found \<noteq> None))"

section \<open>Events\<close>

text \<open>\<open>Outside\<close> is anything else that happens in the process (sockets come and go), \<open>Elapsed\<close> the passing of
  time, \<open>Restarted\<close> the death of the process: its timers and maps are gone, the stores stay.\<close>

datatype 'w yacht_event =
    Begin string "string list" "string option"
  | Rolls string string int int "bool list" "string option"
  | Holds string string int "bool list" "string option"
  | Submits string string int "int list" string "string option"
  | Expires nat
  | Leaves string string
  | Reconnects string string
  | Pauses string
  | Resumes string
  | Rehydrates string
  | Resets string
  | Closes string
  | Elapsed nat
  | Outside "'w \<Rightarrow> 'w"
  | Restarted

definition restart :: "('w, 'b) turn_state \<Rightarrow> ('w, 'b) turn_state" where
  "restart ts = ts\<lparr>ts_scheduler := idle_scheduler (clock_now ts), activeDeadlines := [], misses := []\<rparr>"

fun yacht_step :: "('w, 'e, 'b) turn_ports \<Rightarrow> 'w yacht_event \<Rightarrow> ('w, 'b) turn_state \<Rightarrow> ('w, 'b) turn_state" where
  "yacht_step P (Begin room players host) ts = snd (yacht_start P room players host ts)"
| "yacht_step P (Rolls room p n k held m) ts = snd (yacht_roll P room p n k held m ts)"
| "yacht_step P (Holds room p n held m) ts = snd ((yacht_hold room p n held m :: ('w, 'e, 'b, round_state) turn_cmd) ts)"
| "yacht_step P (Submits room p n dice category m) ts = snd (yacht_submitScore P room p n dice category m ts)"
| "yacht_step P (Expires h) ts = timer_expires P h ts"
| "yacht_step P (Leaves room p) ts = snd (yacht_removePlayer P room p ts)"
| "yacht_step P (Reconnects room p) ts = snd (yacht_reconnect P room p ts)"
| "yacht_step P (Pauses room) ts = snd ((yacht_pause room :: ('w, 'e, 'b, unit) turn_cmd) ts)"
| "yacht_step P (Resumes room) ts = snd (yacht_resume P room ts)"
| "yacht_step P (Rehydrates room) ts = snd (yacht_rehydrate P room ts)"
| "yacht_step P (Resets room) ts = snd (yacht_reset P room ts)"
| "yacht_step P (Closes room) ts = snd ((yacht_close room :: ('w, 'e, 'b, unit) turn_cmd) ts)"
| "yacht_step P (Elapsed d) ts = ts\<lparr>ts_scheduler := sched_step timerDeadlineExecutor (Moves (Elapse d)) (ts_scheduler ts)\<rparr>"
| "yacht_step P (Outside f) ts = ts\<lparr>ts_world := f (ts_world ts)\<rparr>"
| "yacht_step P Restarted ts = restart ts"

definition yacht_run :: "('w, 'e, 'b) turn_ports \<Rightarrow> 'w yacht_event list \<Rightarrow> ('w, 'b) turn_state \<Rightarrow> ('w, 'b) turn_state" where
  "yacht_run P es ts = fold (yacht_step P) es ts"

end
