(* ===== verification/YachtInvariant.thy ===== *)
theory YachtInvariant
  imports RoundTimerTheorems YachtModule
begin

text \<open>
  The clocks of a room belong to the turn being played: the waiting timer, the deadline shown to the players and
  the stored deadline. Every event of the module keeps this, also when a port throws in the middle of it.
\<close>

section \<open>The waiting timer of a room\<close>

definition clock_entry :: "('a node_timers, nat, 'a) scheduler \<Rightarrow> string \<Rightarrow> (int \<times> 'a task) option" where
  "clock_entry sch room = (case map_of (scheduledRounds sch) room of None \<Rightarrow> None
     | Some slot \<Rightarrow> (case sr_timeout slot of None \<Rightarrow> None | Some h \<Rightarrow> map_of (pending (executor_state sch)) h))"

lemma clock_entry_iff:
  assumes "node.in_step sch"
  shows "clock_entry sch room = Some (due, t) \<longleftrightarrow> (\<exists>h. map_of (pending (executor_state sch)) h = Some (due, t)) \<and> t_room t = room"
proof
  assume entry: "clock_entry sch room = Some (due, t)"
  then obtain slot where slot: "map_of (scheduledRounds sch) room = Some slot" by (auto simp: clock_entry_def split: option.splits)
  obtain h d u where u: "slot = \<lparr>sr_roundNumber = t_round u, sr_generation = t_generation u, sr_timeout = Some h\<rparr>"
    "node_waiting (executor_state sch) h = Some (d, u)" "t_room u = room" by (rule node.in_step_slot[OF assms slot])
  then have "(d, u) = (due, t)" using entry slot by (simp add: clock_entry_def)
  then show "(\<exists>h. map_of (pending (executor_state sch)) h = Some (due, t)) \<and> t_room t = room" using u by auto
next
  assume "(\<exists>h. map_of (pending (executor_state sch)) h = Some (due, t)) \<and> t_room t = room"
  then obtain h where h: "node_waiting (executor_state sch) h = Some (due, t)" and room: "t_room t = room" by auto
  show "clock_entry sch room = Some (due, t)"
    using node.in_step_waiting[OF assms h] h room by (simp add: clock_entry_def)
qed

lemma clock_entryI:
  assumes "node.in_step sch" "\<And>due t. (\<exists>h. map_of (pending (executor_state sch)) h = Some (due, t)) \<and> t_room t = room \<longleftrightarrow> e = Some (due, t)"
  shows "clock_entry sch room = e"
proof (cases e)
  case None
  then show ?thesis using clock_entry_iff[OF assms(1)] assms(2) by (cases "clock_entry sch room") (auto, blast)
next
  case (Some p)
  then show ?thesis using clock_entry_iff[OF assms(1), of room "fst p" "snd p"] assms(2)[of "fst p" "snd p"] by simp
qed

lemma clock_entry_schedule:
  assumes ok: "node.in_step sch" and args: "\<not> blank room" "1 \<le> n"
  assumes out_def: "out = schedule timerDeadlineExecutor now room n deadline action sch"
  shows "fst out = Inr ()" "node.in_step (snd out)"
    "clock_entry (snd out) r = (if r = room then Some (node_clock (executor_state sch) + node_delay (max 0 (deadline - now)),
       \<lparr>t_room = room, t_round = n, t_generation = generations sch + 1, t_action = action\<rparr>) else clock_entry sch r)"
proof -
  have n: "\<not> n < 1" using args(2) by simp
  show ok': "node.in_step (snd out)"
    using node.in_step_step[OF ok, of "Schedule now room n deadline action"] by (simp add: out_def)
  show "fst out = Inr ()" using args(1) n by (cases rule: schedule_cases[of room n sch action timerDeadlineExecutor deadline now]) (simp_all add: out_def)
  from args(1) n
  show "clock_entry (snd out) r = (if r = room then Some (node_clock (executor_state sch) + node_delay (max 0 (deadline - now)),
       \<lparr>t_room = room, t_round = n, t_generation = generations sch + 1, t_action = action\<rparr>) else clock_entry sch r)"
  proof (cases rule: schedule_cases[of room n sch action timerDeadlineExecutor deadline now])
    case (1 x h t)
    note b = node.in_step_booked[OF ok 1(2,1)]
    show ?thesis
    proof (cases "r = room")
      case True
      have "clock_entry (snd out) room = Some (node_clock (executor_state sch) + node_delay (max 0 (deadline - now)), t)"
        using b(3) by (simp add: out_def 1(3) clock_entry_def booked_slot_def node_due_def node_clock_cancel)
      then show ?thesis using True 1(1) by simp
    next
      case False
      have "clock_entry (snd out) r = clock_entry sch r"
      proof (cases "map_of (scheduledRounds sch) r")
        case None then show ?thesis using False by (simp add: clock_entry_def out_def 1(3))
      next
        case (Some slot)
        obtain h' d u where u: "slot = \<lparr>sr_roundNumber = t_round u, sr_generation = t_generation u, sr_timeout = Some h'\<rparr>"
          "node_waiting (executor_state sch) h' = Some (d, u)" "t_room u = r" by (rule node.in_step_slot[OF ok Some])
        show ?thesis using b(4)[OF u(2)] u False Some by (simp add: clock_entry_def out_def 1(3))
      qed
      then show ?thesis using False by simp
    qed
  next
    case (2 x h t)
    show ?thesis using node.in_step_booked(1)[OF ok 2(2,1)] by simp
  qed
qed

lemma clock_entry_release:
  assumes ok: "node.in_step sch"
  assumes out_def: "out = sch\<lparr>scheduledRounds := AList.delete room (scheduledRounds sch),
    executor_state := executor_state (cancelQuietly timerDeadlineExecutor (map_of (scheduledRounds sch) room) sch)\<rparr>"
  shows "clock_entry out r = (if r = room then None else clock_entry sch r)"
proof (cases "r = room \<or> map_of (scheduledRounds sch) r = None")
  case True then show ?thesis by (auto simp: clock_entry_def out_def)
next
  case False
  then obtain slot where slot: "map_of (scheduledRounds sch) r = Some slot" by auto
  obtain h d u where u: "slot = \<lparr>sr_roundNumber = t_round u, sr_generation = t_generation u, sr_timeout = Some h\<rparr>"
    "node_waiting (executor_state sch) h = Some (d, u)" "t_room u = r" by (rule node.in_step_slot[OF ok slot])
  have "node_waiting (executor_state (cancelQuietly timerDeadlineExecutor (map_of (scheduledRounds sch) room) sch)) h = Some (d, u)"
    using node.cancelQuietly_waiting(2)[OF ok refl, of room h d u] u False by simp
  then show ?thesis using u slot False by (simp add: clock_entry_def out_def)
qed

lemma clock_entry_cancel_round:
  assumes ok: "node.in_step sch"
  shows "node.in_step (cancel_round timerDeadlineExecutor room n sch)"
    "clock_entry (cancel_round timerDeadlineExecutor room n sch) r = (if r = room \<and> (\<exists>due t. clock_entry sch r = Some (due, t) \<and> t_round t = n)
       then None else clock_entry sch r)"
proof -
  show "node.in_step (cancel_round timerDeadlineExecutor room n sch)"
    using node.in_step_step[OF ok, of "CancelRound room n"] by simp
  show "clock_entry (cancel_round timerDeadlineExecutor room n sch) r = (if r = room \<and> (\<exists>due t. clock_entry sch r = Some (due, t) \<and> t_round t = n)
       then None else clock_entry sch r)"
  proof (cases "map_of (scheduledRounds sch) room")
    case None
    then show ?thesis by (auto simp: cancel_round_eq clock_entry_def)
  next
    case (Some slot)
    obtain h d u where u: "slot = \<lparr>sr_roundNumber = t_round u, sr_generation = t_generation u, sr_timeout = Some h\<rparr>"
      "node_waiting (executor_state sch) h = Some (d, u)" "t_room u = room" by (rule node.in_step_slot[OF ok Some])
    then have entry: "clock_entry sch room = Some (d, u)" using Some by (simp add: clock_entry_def)
    show ?thesis
      using clock_entry_release[OF ok refl, of room r] Some u entry by (auto simp: cancel_round_eq)
  qed
qed

lemma clock_entry_cancel_room:
  assumes ok: "node.in_step sch"
  shows "node.in_step (cancel_room timerDeadlineExecutor room sch)"
    "clock_entry (cancel_room timerDeadlineExecutor room sch) r = (if r = room then None else clock_entry sch r)"
proof -
  show "node.in_step (cancel_room timerDeadlineExecutor room sch)"
    using node.in_step_step[OF ok, of "CancelRoom room"] by simp
  show "clock_entry (cancel_room timerDeadlineExecutor room sch) r = (if r = room then None else clock_entry sch r)"
    using clock_entry_release[OF ok refl, of room r]
    by (cases "map_of (scheduledRounds sch) room") (auto simp: cancel_room_eq clock_entry_def)
qed

lemma clock_entry_expire:
  assumes ok: "node.in_step sch"
  assumes out_def: "out = sched_step timerDeadlineExecutor (Moves (Expire_timer h)) sch"
  shows "node.in_step out"
    and "(started out = started sch \<and> (\<forall>r. clock_entry out r = clock_entry sch r))
      \<or> (\<exists>due t. map_of (pending (executor_state sch)) h = Some (due, t) \<and> started out = started sch @ [t]
          \<and> clock_entry sch (t_room t) = Some (due, t) \<and> (\<forall>r. clock_entry out r = (if r = t_room t then None else clock_entry sch r)))"
proof -
  show "node.in_step out" unfolding out_def by (rule node.in_step_step[OF ok])
  show "(started out = started sch \<and> (\<forall>r. clock_entry out r = clock_entry sch r))
      \<or> (\<exists>due t. map_of (pending (executor_state sch)) h = Some (due, t) \<and> started out = started sch @ [t]
          \<and> clock_entry sch (t_room t) = Some (due, t) \<and> (\<forall>r. clock_entry out r = (if r = t_room t then None else clock_entry sch r)))"
  proof (cases "case map_of (pending (executor_state sch)) h of None \<Rightarrow> False | Some (due, t) \<Rightarrow> due \<le> node_clock (executor_state sch)")
    case False
    then have "out = sch" by (auto simp: out_def timerDeadlineExecutor_def split: option.splits)
    then show ?thesis by simp
  next
    case True
    then obtain due t where h: "map_of (pending (executor_state sch)) h = Some (due, t)" "due \<le> node_clock (executor_state sch)"
      by (auto split: option.splits)
    define x where "x = (executor_state sch)\<lparr>pending := filter (\<lambda>p. fst p \<noteq> h) (pending (executor_state sch))\<rparr>"
    have w: "node_waiting (executor_state sch) h = Some (due, t)" using h by simp
    have x: "node_proper x" "node_waiting x = (node_waiting (executor_state sch))(h := None)"
      unfolding x_def using node_proper_without[OF node.in_step_proper[OF ok]] node_waiting_without by simp_all
    have out: "out = runIfCurrent t (sch\<lparr>executor_state := x\<rparr>)"
      using h by (simp add: out_def timerDeadlineExecutor_def x_def)
    note fired = node.in_step_fired[OF ok w x]
    have "clock_entry out r = (if r = t_room t then None else clock_entry sch r)" for r
    proof (cases "r = t_room t \<or> map_of (scheduledRounds sch) r = None")
      case True then show ?thesis unfolding out fired(1) by (auto simp: clock_entry_def)
    next
      case False
      then obtain slot where slot: "map_of (scheduledRounds sch) r = Some slot" by auto
      obtain h' d u where u: "slot = \<lparr>sr_roundNumber = t_round u, sr_generation = t_generation u, sr_timeout = Some h'\<rparr>"
        "node_waiting (executor_state sch) h' = Some (d, u)" "t_room u = r" by (rule node.in_step_slot[OF ok slot])
      have "h' \<noteq> h" using u w False by auto
      then have "node_waiting x h' = node_waiting (executor_state sch) h'" by (simp add: x(2))
      then show ?thesis unfolding out fired(1) using slot u False by (simp add: clock_entry_def)
    qed
    moreover have "clock_entry sch (t_room t) = Some (due, t)" using clock_entry_iff[OF ok] h by blast
    ultimately show ?thesis using h out fired(1) by auto
  qed
qed

lemma clock_entry_elapse:
  assumes ok: "node.in_step sch"
  assumes out_def: "out = sched_step timerDeadlineExecutor (Moves (Elapse d)) sch"
  shows "node.in_step out" "clock_entry out r = clock_entry sch r"
  using node.in_step_step[OF ok, of "Moves (Elapse d)"] by (simp_all add: out_def timerDeadlineExecutor_def clock_entry_def split: option.split)

section \<open>The invariant\<close>

definition turn_of :: "round_state option \<Rightarrow> (int \<times> string) option" where
  "turn_of s = (case s of None \<Rightarrow> None | Some s \<Rightarrow> if rd_finished s then None
     else (case activePlayerId s of Inl _ \<Rightarrow> None | Inr p \<Rightarrow> Some (roundNumber s, p)))"

text \<open>The clocks of a room belong to the turn \<open>turn\<close> (its round and player).\<close>

definition clocks_on :: "('w, 'b) turn_state \<Rightarrow> string \<Rightarrow> (int \<times> string) option \<Rightarrow> bool" where
  "clocks_on ts room turn \<longleftrightarrow>
     (\<forall>due t. clock_entry (ts_scheduler ts) room = Some (due, t) \<longrightarrow> turn = Some (t_round t, t_action t))
     \<and> (\<forall>n d. map_of (activeDeadlines ts) room = Some (n, d) \<longrightarrow> map_option fst turn = Some n)
     \<and> (\<forall>n d. map_of (ts_deadlines ts) room = Some (n, d) \<longrightarrow> map_option fst turn = Some n)"

definition rounds_ok :: "round_store \<Rightarrow> bool" where
  "rounds_ok st \<longleftrightarrow> (\<forall>room s. map_of st room = Some s \<longrightarrow> round_ok s \<and> \<not> blank room)"

definition base_ok :: "('w, 'b) turn_state \<Rightarrow> string \<Rightarrow> bool" where
  "base_ok ts room \<longleftrightarrow> node.in_step (ts_scheduler ts) \<and> rounds_ok (ts_rounds ts)
     \<and> (\<forall>r. r \<noteq> room \<longrightarrow> clocks_on ts r (turn_of (map_of (ts_rounds ts) r)))"

definition clock_ok :: "('w, 'b) turn_state \<Rightarrow> bool" where
  "clock_ok ts \<longleftrightarrow> node.in_step (ts_scheduler ts) \<and> rounds_ok (ts_rounds ts)
     \<and> (\<forall>r. clocks_on ts r (turn_of (map_of (ts_rounds ts) r)))"

lemma clock_ok_iff: "clock_ok ts \<longleftrightarrow> base_ok ts room \<and> clocks_on ts room (turn_of (map_of (ts_rounds ts) room))"
  unfolding clock_ok_def base_ok_def by metis

text \<open>A state just after a turn of round \<open>n\<close> ended: the clocks of the room are still those of that round.\<close>

definition turn_ended :: "('w, 'b) turn_state \<Rightarrow> string \<Rightarrow> int \<Rightarrow> round_state \<Rightarrow> bool" where
  "turn_ended ts room n s \<longleftrightarrow> base_ok ts room \<and> map_of (ts_rounds ts) room = Some s \<and> (\<exists>p. clocks_on ts room (Some (n, p)))"

text \<open>Everything the invariant looks at.\<close>

definition same_clocks :: "('w, 'b) turn_state \<Rightarrow> ('w, 'b) turn_state \<Rightarrow> bool" where
  "same_clocks ts ts' \<longleftrightarrow> ts_rounds ts' = ts_rounds ts \<and> ts_scheduler ts' = ts_scheduler ts
     \<and> activeDeadlines ts' = activeDeadlines ts \<and> ts_deadlines ts' = ts_deadlines ts"

lemma same_clocks_ok: "same_clocks ts ts' \<Longrightarrow> clock_ok ts' = clock_ok ts \<and> base_ok ts' room = base_ok ts room
    \<and> clocks_on ts' room turn = clocks_on ts room turn \<and> turn_ended ts' room n s = turn_ended ts room n s"
  by (simp add: same_clocks_def clock_ok_def base_ok_def clocks_on_def turn_ended_def)

definition aloof :: "('w, 'e, 'b, 'a) turn_cmd \<Rightarrow> bool" where
  "aloof f \<longleftrightarrow> (\<forall>ts. same_clocks ts (snd (f ts)))"

named_theorems aloof_intros \<open>calls that touch neither rounds nor clocks\<close>

lemma aloofD: "aloof f \<Longrightarrow> f ts = (r, ts') \<Longrightarrow> same_clocks ts ts'"
  unfolding aloof_def by (metis snd_conv)

lemma same_clocks_trans: "same_clocks ts ts' \<Longrightarrow> same_clocks ts' ts'' \<Longrightarrow> same_clocks ts ts''"
  by (simp add: same_clocks_def)

lemma aloof_simple [aloof_intros]: "aloof (ret x)" "aloof (throw e)" "aloof (broadcast room m)" "aloof (warn room reason)"
  "aloof (game_event r)" "aloof (rounds_find room)"
  by (auto simp: aloof_def same_clocks_def broadcast_def warn_def game_event_def rounds_find_app split: option.split)

lemma aloof_andThen [aloof_intros]: "aloof f \<Longrightarrow> (\<And>x. aloof (g x)) \<Longrightarrow> aloof (andThen f g)"
  by (auto simp: aloof_def andThen_app split: sum.split intro: same_clocks_trans)

lemma aloof_in_world [aloof_intros]: "aloof (in_world f)"
  by (simp add: aloof_def in_world_def same_clocks_def split: prod.split)

lemma aloof_try_catch [aloof_intros]: "aloof f \<Longrightarrow> (\<And>e. aloof (h e)) \<Longrightarrow> aloof (try_catch f h)"
  unfolding aloof_def try_catch_def by (auto split: sum.split prod.split) (metis same_clocks_trans snd_conv)+

lemma aloof_clear [aloof_intros]: "aloof (clearOfflineMisses room p)"
  by (simp add: aloof_def clearOfflineMisses_def same_clocks_def Let_def split: option.split)

lemma aloof_archive [aloof_intros]: "aloof (archive P room r rankings)"
  unfolding archive_def by (intro aloof_intros)

lemma aloof_roll [aloof_intros]: "aloof (rollDice P)"
  by (simp add: aloof_def rollDice_def same_clocks_def split: prod.split)

lemma aloof_pick [aloof_intros]: "aloof (pickOpenCategory P room p)"
proof -
  have "aloof (\<lambda>ts. case categoryPicker P k (ts_world ts) of (pick, w) \<Rightarrow> (let j = int k; i = (pick smod j + j) smod j in
      (Inr (f i), ts\<lparr>ts_world := w\<rparr>)))" for k and f :: "int \<Rightarrow> string option"
    by (simp add: aloof_def same_clocks_def Let_def split: prod.split)
  note * = aloof_intros this
  show ?thesis unfolding pickOpenCategory_def
    by (rule aloof_andThen[OF aloof_in_world]) (auto split: option.split intro!: *)
qed

text \<open>Triples: if \<open>pre\<close> holds, so does \<open>post\<close> of the result and the state left.\<close>

definition triple :: "(('w, 'b) turn_state \<Rightarrow> bool) \<Rightarrow> ('w, 'e, 'b, 'a) turn_cmd
    \<Rightarrow> ('e turn_error + 'a \<Rightarrow> ('w, 'b) turn_state \<Rightarrow> bool) \<Rightarrow> bool" where
  "triple pre f post \<longleftrightarrow> (\<forall>ts. pre ts \<longrightarrow> post (fst (f ts)) (snd (f ts)))"

lemma tripleD: "triple pre f post \<Longrightarrow> pre ts \<Longrightarrow> f ts = (r, ts') \<Longrightarrow> post r ts'"
  unfolding triple_def by (metis fst_conv snd_conv)

lemma triple_andThen:
  assumes "triple pre f (\<lambda>r ts. case r of Inl e \<Rightarrow> post (Inl e) ts | Inr x \<Rightarrow> mid x ts)" "\<And>x. triple (mid x) (g x) post"
  shows "triple pre (andThen f g) post"
  unfolding triple_def
proof (intro allI impI)
  fix ts assume "pre ts"
  then have "case fst (f ts) of Inl e \<Rightarrow> post (Inl e) (snd (f ts)) | Inr x \<Rightarrow> mid x (snd (f ts))"
    using assms(1) by (simp add: triple_def)
  then show "post (fst (andThen f g ts)) (snd (andThen f g ts))"
    using assms(2) by (auto simp: andThen_app triple_def split: sum.splits)
qed

lemma triple_aloof:
  assumes "aloof f" "\<And>ts ts' r. pre ts \<Longrightarrow> same_clocks ts ts' \<Longrightarrow> post r ts'"
  shows "triple pre f post"
  using assms unfolding triple_def aloof_def by blast

lemma triple_weaken: "triple pre f post \<Longrightarrow> (\<And>ts. pre' ts \<Longrightarrow> pre ts) \<Longrightarrow> (\<And>r ts. post r ts \<Longrightarrow> post' r ts) \<Longrightarrow> triple pre' f post'"
  unfolding triple_def by blast

section \<open>Rounds and turns\<close>

definition ended_round :: "round_state \<Rightarrow> round_completion option \<Rightarrow> int" where
  "ended_round s c = (case c of None \<Rightarrow> roundNumber s | Some c \<Rightarrow> rc_roundNumber c)"

lemma advanceTurn_round: "advanceTurn s subs = Inr (s', c) \<Longrightarrow> ended_round s' c = roundNumber s"
  by (auto simp: advanceTurn_def completeRound_def ended_round_def Let_def split: if_splits sum.splits dest!: restore_Inr)

lemma expire_round_ended: "expire_round s = Inr (s', c) \<Longrightarrow> ended_round s' c = roundNumber s"
  by (auto simp: expire_round_def split: if_splits intro: advanceTurn_round)

lemma submit_round_ended: "submit_round s sub = Inr (s', c) \<Longrightarrow> ended_round s' c = roundNumber s"
  by (auto simp: submit_round_def split: if_splits sum.splits option.splits intro: advanceTurn_round)

lemma turn_of_same_seats: "same_seats s s' \<Longrightarrow> turn_of (Some s') = turn_of (Some s)"
  by (simp add: same_seats_def turn_of_def activePlayerId_def)

lemma turn_of_live:
  assumes "round_ok s" "\<not> rd_finished s"
  obtains p where "activePlayerId s = Inr p" "turn_of (Some s) = Some (roundNumber s, p)"
proof -
  have "seats_ok s" using assms(1) by (simp add: round_ok_def)
  from active_ok[OF this] show thesis using that assms(2) by (simp add: turn_of_def)
qed

lemma remove_at_nth: "k < length xs \<Longrightarrow> i < length xs - 1 \<Longrightarrow> remove_at k xs ! i = (if i < k then xs ! i else xs ! Suc i)"
  by (auto simp: remove_at_def nth_append min_def)

lemma turn_of_without:
  assumes "round_ok s" "withoutParticipant s p = Inr s'"
  shows "turn_of (Some s') = turn_of (Some s)"
proof (cases "s' = s")
  case False
  have s: "seats_ok s" using assms(1) by (simp add: round_ok_def)
  obtain k where k: "k < length (participantOrder s)" "k \<noteq> nat (activePlayerIndex s)" "\<not> rd_finished s"
    and s': "s' = s\<lparr>participantOrder := remove_at k (participantOrder s),
       activePlayerIndex := (if int k < activePlayerIndex s then activePlayerIndex s - 1 else activePlayerIndex s)\<rparr>"
    by (rule withoutParticipant_Inr[OF assms(2) False s])
  define i where "i = nat (activePlayerIndex s)"
  have i: "activePlayerIndex s = int i" "i < length (participantOrder s)" using s by (auto simp: i_def seats_ok_def)
  have len: "length (participantOrder s') = length (participantOrder s) - 1" using k(1) s' by (simp add: length_remove_at)
  define j where "j = (if k < i then i - 1 else i)"
  have j: "activePlayerIndex s' = int j" using i s' by (auto simp: j_def)
  have "j < length (participantOrder s) - 1" using i k(1,2) by (auto simp: j_def i_def)
  moreover have "remove_at k (participantOrder s) ! j = participantOrder s ! i"
    using calculation k(1,2) by (auto simp: remove_at_nth j_def i_def[symmetric])
  ultimately have "activePlayerId s' = activePlayerId s" using i j len s' by (simp add: activePlayerId_def)
  moreover have "roundNumber s' = roundNumber s" "rd_finished s' = rd_finished s" using s' by simp_all
  ultimately show ?thesis by (simp add: turn_of_def split: sum.split)
qed simp

lemma turn_of_clocks: "clocks_on ts room (turn_of (Some s)) \<Longrightarrow> round_ok s \<Longrightarrow> \<not> rd_finished s
    \<Longrightarrow> \<exists>p. clocks_on ts room (Some (roundNumber s, p))"
  using turn_of_live by metis

text \<open>Replacing the round of one room.\<close>

definition with_round :: "string \<Rightarrow> round_state \<Rightarrow> ('w, 'b) turn_state \<Rightarrow> ('w, 'b) turn_state" where
  "with_round room s ts = ts\<lparr>ts_rounds := AList.update room s (ts_rounds ts)\<rparr>"

lemma clocks_on_with_round [simp]: "clocks_on (with_round room s ts) r turn = clocks_on ts r turn"
  by (simp add: clocks_on_def with_round_def)

lemma base_ok_with_round: "base_ok ts room \<Longrightarrow> round_ok s \<Longrightarrow> \<not> blank room \<Longrightarrow> base_ok (with_round room s ts) room"
  by (auto simp: base_ok_def rounds_ok_def with_round_def clocks_on_def)

lemma stored_with_round [simp]: "map_of (ts_rounds (with_round room s ts)) room = Some s"
  by (simp add: with_round_def)

lemma clock_ok_stored: "clock_ok ts \<Longrightarrow> map_of (ts_rounds ts) room = Some s \<Longrightarrow> round_ok s \<and> \<not> blank room"
  by (auto simp: clock_ok_def rounds_ok_def)

lemma with_round_same_turn:
  assumes "clock_ok ts" "map_of (ts_rounds ts) room = Some s" "round_ok s'" "turn_of (Some s') = turn_of (Some s)"
  shows "clock_ok (with_round room s' ts)"
  using assms base_ok_with_round[of ts room s'] clock_ok_stored[OF assms(1,2)] by (simp add: clock_ok_iff[of _ room])

lemma with_round_ended:
  assumes "clock_ok ts" "map_of (ts_rounds ts) room = Some s" "\<not> rd_finished s" "round_ok s'"
  shows "turn_ended (with_round room s' ts) room (roundNumber s) s'"
  using assms base_ok_with_round[of ts room s'] clock_ok_stored[OF assms(1,2)] turn_of_clocks[of ts room s]
  by (simp add: clock_ok_iff[of _ room] turn_ended_def)

section \<open>The calls of the clock\<close>

lemma cancel_turn_ok:
  fixes ts :: "('w, 'b) turn_state"
  assumes "turn_ended ts room n s"
  shows "clock_ok (snd ((cancel_turn room n :: ('w, 'e, 'b, unit) turn_cmd) ts))" "ts_rounds (snd ((cancel_turn room n :: ('w, 'e, 'b, unit) turn_cmd) ts)) = ts_rounds ts"
proof -
  define ts' where "ts' = snd ((cancel_turn room n :: ('w, 'e, 'b, unit) turn_cmd) ts)"
  obtain p where on: "clocks_on ts room (Some (n, p))" and b: "base_ok ts room" using assms by (auto simp: turn_ended_def)
  have ok: "node.in_step (ts_scheduler ts)" using b by (simp add: base_ok_def)
  note entry = clock_entry_cancel_round[OF ok, of room n]
  have sch: "ts_scheduler ts' = cancel_round timerDeadlineExecutor room n (ts_scheduler ts)" "ts_rounds ts' = ts_rounds ts"
    by (simp_all add: ts'_def cancel_turn_def)
  have active: "map_of (activeDeadlines ts') r = (if r = room then None else map_of (activeDeadlines ts) r)" for r
    using on by (auto simp: ts'_def cancel_turn_def clocks_on_def split: option.split)
  have deadlines: "map_of (ts_deadlines ts') r = (if r = room then None else map_of (ts_deadlines ts) r)" for r
    using on by (auto simp: ts'_def cancel_turn_def clocks_on_def split: option.split)
  have entries: "clock_entry (ts_scheduler ts') r = (if r = room then None else clock_entry (ts_scheduler ts) r)" for r
    using on entry(2)[of r] unfolding sch(1) by (cases "clock_entry (ts_scheduler ts) r") (auto simp: clocks_on_def)
  have "clock_ok ts'" using b entry(1) sch active deadlines entries
    by (auto simp: clock_ok_def base_ok_def clocks_on_def)
  then show "clock_ok (snd ((cancel_turn room n :: ('w, 'e, 'b, unit) turn_cmd) ts))"
    "ts_rounds (snd ((cancel_turn room n :: ('w, 'e, 'b, unit) turn_cmd) ts)) = ts_rounds ts" using sch(2) by (simp_all add: ts'_def)
qed

definition unclocked :: "('w, 'b) turn_state \<Rightarrow> string \<Rightarrow> bool" where
  "unclocked ts room \<longleftrightarrow> base_ok ts room \<and> (\<forall>turn. clocks_on ts room turn)"

lemma cancelRoom_ok:
  fixes ts :: "('w, 'b) turn_state"
  assumes "base_ok ts room"
  shows "unclocked (snd ((cancelRoom room :: ('w, 'e, 'b, unit) turn_cmd) ts)) room" "ts_rounds (snd ((cancelRoom room :: ('w, 'e, 'b, unit) turn_cmd) ts)) = ts_rounds ts"
proof -
  define ts' where "ts' = snd ((cancelRoom room :: ('w, 'e, 'b, unit) turn_cmd) ts)"
  have ok: "node.in_step (ts_scheduler ts)" using assms by (simp add: base_ok_def)
  note entry = clock_entry_cancel_room[OF ok, of room]
  have ts': "ts_scheduler ts' = cancel_room timerDeadlineExecutor room (ts_scheduler ts)" "ts_rounds ts' = ts_rounds ts"
    "activeDeadlines ts' = AList.delete room (activeDeadlines ts)" "ts_deadlines ts' = AList.delete room (ts_deadlines ts)"
    by (simp_all add: ts'_def cancelRoom_def)
  have "unclocked ts' room" using assms entry by (auto simp: unclocked_def base_ok_def clocks_on_def ts')
  then show "unclocked (snd ((cancelRoom room :: ('w, 'e, 'b, unit) turn_cmd) ts)) room"
    "ts_rounds (snd ((cancelRoom room :: ('w, 'e, 'b, unit) turn_cmd) ts)) = ts_rounds ts" using ts'(2) by (simp_all add: ts'_def)
qed

lemma unclocked_ok: "unclocked ts room \<Longrightarrow> clock_ok ts"
  by (auto simp: unclocked_def base_ok_def clock_ok_def)

lemma cancel_entry_ok:
  assumes "clock_ok ts"
  shows "clock_ok (ts\<lparr>ts_scheduler := cancel_room timerDeadlineExecutor room (ts_scheduler ts), ts_world := w\<rparr>)"
proof -
  have ok: "node.in_step (ts_scheduler ts)" using assms by (simp add: clock_ok_def)
  show ?thesis using assms clock_entry_cancel_room[OF ok] by (simp add: clock_ok_def clocks_on_def)
qed

lemma clocks_on_turn:
  assumes "clocks_on ts room turn" "turn = Some (n, p)"
    and "activeDeadlines ts' = activeDeadlines ts \<or> (\<exists>d. activeDeadlines ts' = AList.update room (n, d) (activeDeadlines ts))"
    and "ts_deadlines ts' = ts_deadlines ts \<or> (\<exists>d. ts_deadlines ts' = AList.update room (n, d) (ts_deadlines ts))"
    and "clock_entry (ts_scheduler ts') room = clock_entry (ts_scheduler ts) room
      \<or> (\<exists>due t. clock_entry (ts_scheduler ts') room = Some (due, t) \<and> t_round t = n \<and> t_action t = p)"
  shows "clocks_on ts' room turn"
  unfolding clocks_on_def
proof (intro conjI allI impI)
  fix due t assume e: "clock_entry (ts_scheduler ts') room = Some (due, t)"
  from assms(5) show "turn = Some (t_round t, t_action t)"
  proof (elim disjE exE conjE)
    assume "clock_entry (ts_scheduler ts') room = clock_entry (ts_scheduler ts) room"
    with e have "clock_entry (ts_scheduler ts) room = Some (due, t)" by simp
    with assms(1) show ?thesis unfolding clocks_on_def by blast
  qed (simp add: e assms(2))
next
  fix m d assume e: "map_of (activeDeadlines ts') room = Some (m, d)"
  show "map_option fst turn = Some m"
  proof (cases "activeDeadlines ts' = activeDeadlines ts")
    case True with e assms(1) show ?thesis unfolding clocks_on_def by simp
  next
    case False with e assms(2,3) show ?thesis by auto
  qed
next
  fix m d assume e: "map_of (ts_deadlines ts') room = Some (m, d)"
  show "map_option fst turn = Some m"
  proof (cases "ts_deadlines ts' = ts_deadlines ts")
    case True with e assms(1) show ?thesis unfolding clocks_on_def by simp
  next
    case False with e assms(2,4) show ?thesis by auto
  qed
qed

lemma clocks_on_other:
  assumes "clocks_on ts r turn" "map_of (activeDeadlines ts') r = map_of (activeDeadlines ts) r"
    "map_of (ts_deadlines ts') r = map_of (ts_deadlines ts) r" "clock_entry (ts_scheduler ts') r = clock_entry (ts_scheduler ts) r"
  shows "clocks_on ts' r turn"
  using assms unfolding clocks_on_def by simp

text \<open>What \<open>armTurn\<close> does to the clocks of a live turn.\<close>

definition shown_deadline :: "round_room option \<Rightarrow> int option option \<Rightarrow> int \<Rightarrow> int option" where
  "shown_deadline rm restored now = (case restored of Some d \<Rightarrow> d
     | None \<Rightarrow> if isUntimedRoom rm then None else Some (now + ROUND_DURATION_MS))"

definition forced_at :: "round_room option \<Rightarrow> string \<Rightarrow> int option option \<Rightarrow> int \<Rightarrow> int option" where
  "forced_at rm p restored now = (case shown_deadline rm restored now of Some d \<Rightarrow> Some (d + EXPIRY_GRACE_MS)
     | None \<Rightarrow> if isBot rm p then Some (now + ROUND_DURATION_MS + EXPIRY_GRACE_MS) else None)"

lemma armTurn_effect:
  fixes ts :: "('w, 'b) turn_state"
  assumes ok: "node.in_step (ts_scheduler ts)" and s: "round_ok s" "\<not> blank room" "activePlayerId s = Inr p"
    and deadline_def: "deadline = shown_deadline rm restored (clock_now ts)"
  obtains ts' where "(armTurn room s rm restored :: ('w, 'e, 'b, int option) turn_cmd) ts = (Inr deadline, ts')"
    "node.in_step (ts_scheduler ts')" "ts_rounds ts' = ts_rounds ts" "ts_world ts' = ts_world ts"
    "activeDeadlines ts' = AList.update room (roundNumber s, deadline) (activeDeadlines ts)"
    "ts_deadlines ts' = (if restored = None then AList.update room (roundNumber s, deadline) (ts_deadlines ts) else ts_deadlines ts)"
    "ts_sent ts' = ts_sent ts @ [(room, RoundStart (roundNumber s) deadline p (participantOrder s))]"
    "\<And>r. r \<noteq> room \<Longrightarrow> clock_entry (ts_scheduler ts') r = clock_entry (ts_scheduler ts) r"
    "clock_entry (ts_scheduler ts') room = (case forced_at rm p restored (clock_now ts) of None \<Rightarrow> clock_entry (ts_scheduler ts) room
      | Some t \<Rightarrow> Some (clock_now ts + node_delay (max 0 (t - clock_now ts)),
          \<lparr>t_room = room, t_round = roundNumber s, t_generation = generations (ts_scheduler ts) + 1, t_action = p\<rparr>))"
proof (cases "forced_at rm p restored (clock_now ts)")
  case None
  define ts' where "ts' = snd ((armTurn room s rm restored :: ('w, 'e, 'b, int option) turn_cmd) ts)"
  show thesis
    by (rule that[of ts'])
      (use None s(3) ok deadline_def in \<open>simp_all add: ts'_def armTurn_def Let_def shown_deadline_def forced_at_def andThen_app broadcast_def
         split: option.splits if_splits\<close>)
next
  case (Some t)
  define ts' where "ts' = snd ((armTurn room s rm restored :: ('w, 'e, 'b, int option) turn_cmd) ts)"
  define out where "out = schedule timerDeadlineExecutor (clock_now ts) room (roundNumber s) t p (ts_scheduler ts)"
  have n: "1 \<le> roundNumber s" using s(1) by (simp add: round_ok_def seats_ok_def)
  note e = clock_entry_schedule[OF ok s(2) n out_def]
  have run: "(armTurn room s rm restored :: ('w, 'e, 'b, int option) turn_cmd) ts = (Inr deadline, ts')"
    "ts_scheduler ts' = snd out" "ts_rounds ts' = ts_rounds ts" "ts_world ts' = ts_world ts"
    "activeDeadlines ts' = AList.update room (roundNumber s, deadline) (activeDeadlines ts)"
    "ts_deadlines ts' = (if restored = None then AList.update room (roundNumber s, deadline) (ts_deadlines ts) else ts_deadlines ts)"
    "ts_sent ts' = ts_sent ts @ [(room, RoundStart (roundNumber s) deadline p (participantOrder s))]"
    using Some s(3) e(1) deadline_def
    by (auto simp: ts'_def out_def armTurn_def Let_def shown_deadline_def forced_at_def andThen_app broadcast_def clock_now_def
         split: option.splits if_splits)
  show thesis
    by (rule that[of ts']) (use run e(2,3) Some in \<open>simp_all add: clock_now_def\<close>)
qed

section \<open>Triples of the calls\<close>

definition on_turn :: "string \<Rightarrow> round_state \<Rightarrow> ('w, 'b) turn_state \<Rightarrow> bool" where
  "on_turn room s ts \<longleftrightarrow> clock_ok ts \<and> map_of (ts_rounds ts) room = Some s \<and> \<not> rd_finished s"

definition ended :: "string \<Rightarrow> round_result \<Rightarrow> ('w, 'b) turn_state \<Rightarrow> bool" where
  "ended room result ts \<longleftrightarrow> turn_ended ts room (ended_round (fst result) (snd result)) (fst result)"

definition holding :: "round_store \<Rightarrow> ('w, 'b) turn_state \<Rightarrow> bool" where
  "holding st ts \<longleftrightarrow> clock_ok ts \<and> ts_rounds ts = st"

abbreviation keeps_clocks :: "('w, 'e, 'b, 'a) turn_cmd \<Rightarrow> bool" where
  "keeps_clocks f \<equiv> triple clock_ok f (\<lambda>_. clock_ok)"

lemma same_clocks_kept: "same_clocks ts ts' \<Longrightarrow> on_turn room s ts' = on_turn room s ts"
  "same_clocks ts ts' \<Longrightarrow> ended room result ts' = ended room result ts" "same_clocks ts ts' \<Longrightarrow> holding st ts' = holding st ts"
  using same_clocks_ok[of ts ts'] by (simp_all add: on_turn_def ended_def holding_def same_clocks_def)

lemma triple_skip:
  assumes "aloof f" "\<And>x. triple I (g x) (\<lambda>_. post)" "\<And>ts ts'. same_clocks ts ts' \<Longrightarrow> I ts' = I ts" "\<And>ts. I ts \<Longrightarrow> post ts"
  shows "triple I (andThen f g) (\<lambda>_. post)"
  by (rule triple_andThen[where mid = "\<lambda>_. I"], rule triple_aloof[OF assms(1)]) (use assms(2-4) in \<open>auto split: sum.split\<close>)

lemma keeps_aloof: "aloof f \<Longrightarrow> keeps_clocks f"
  by (rule triple_aloof) (simp_all add: same_clocks_ok)

lemma keeps_andThen: "keeps_clocks f \<Longrightarrow> (\<And>x. keeps_clocks (g x)) \<Longrightarrow> keeps_clocks (andThen f g)"
  by (rule triple_andThen[where mid = "\<lambda>_. clock_ok"]) (auto elim!: triple_weaken split: sum.split)

lemma keeps_try_catch: "keeps_clocks f \<Longrightarrow> (\<And>e. keeps_clocks (h e)) \<Longrightarrow> keeps_clocks (try_catch f h)"
  unfolding triple_def try_catch_def by (auto split: sum.split prod.split)

lemma keepsD: "keeps_clocks f \<Longrightarrow> clock_ok ts \<Longrightarrow> clock_ok (snd (f ts))"
  by (simp add: triple_def)

lemma armTurn_ok: "triple (on_turn room s) (armTurn room s rm restored) (\<lambda>_. clock_ok)"
  unfolding triple_def
proof (intro allI impI)
  fix ts :: "('w, 'b) turn_state"
  assume turn: "on_turn room s ts"
  then have ok: "clock_ok ts" and s: "round_ok s" "\<not> blank room" "\<not> rd_finished s" "map_of (ts_rounds ts) room = Some s"
    using clock_ok_stored by (auto simp: on_turn_def)
  obtain p where p: "activePlayerId s = Inr p" "turn_of (Some s) = Some (roundNumber s, p)" by (rule turn_of_live[OF s(1,3)])
  have step: "node.in_step (ts_scheduler ts)" using ok by (simp add: clock_ok_def)
  obtain ts' where e: "(armTurn room s rm restored :: ('w, 'e, 'b, int option) turn_cmd) ts = (Inr (shown_deadline rm restored (clock_now ts)), ts')"
    "node.in_step (ts_scheduler ts')" "ts_rounds ts' = ts_rounds ts"
    "activeDeadlines ts' = AList.update room (roundNumber s, shown_deadline rm restored (clock_now ts)) (activeDeadlines ts)"
    "ts_deadlines ts' = (if restored = None then AList.update room (roundNumber s, shown_deadline rm restored (clock_now ts)) (ts_deadlines ts)
      else ts_deadlines ts)"
    "\<And>r. r \<noteq> room \<Longrightarrow> clock_entry (ts_scheduler ts') r = clock_entry (ts_scheduler ts) r"
    "clock_entry (ts_scheduler ts') room = (case forced_at rm p restored (clock_now ts) of None \<Rightarrow> clock_entry (ts_scheduler ts) room
      | Some t \<Rightarrow> Some (clock_now ts + node_delay (max 0 (t - clock_now ts)),
          \<lparr>t_room = room, t_round = roundNumber s, t_generation = generations (ts_scheduler ts) + 1, t_action = p\<rparr>))"
    by (rule armTurn_effect[where 'e = 'e and rm = rm and restored = restored, OF step s(1,2) p(1) refl]) (rule that; assumption)
  have "clocks_on ts' room (Some (roundNumber s, p))"
  proof (rule clocks_on_turn[of ts room _ "roundNumber s" p])
    show "clocks_on ts room (Some (roundNumber s, p))" using ok s(4) p(2) by (metis clock_ok_def)
    show "clock_entry (ts_scheduler ts') room = clock_entry (ts_scheduler ts) room
      \<or> (\<exists>due t. clock_entry (ts_scheduler ts') room = Some (due, t) \<and> t_round t = roundNumber s \<and> t_action t = p)"
      unfolding e(7) by (cases "forced_at rm p restored (clock_now ts)") simp_all
  qed (use e(4,5) in auto)
  moreover have "clocks_on ts' r (turn_of (map_of (ts_rounds ts) r))" if "r \<noteq> room" for r
    by (rule clocks_on_other[of ts]) (use ok e(4-6) that in \<open>auto simp: clock_ok_def\<close>)
  ultimately have "clocks_on ts' r (turn_of (map_of (ts_rounds ts) r))" for r
    by (cases "r = room") (simp_all add: s(4) p(2))
  then have "clock_ok ts'" using e(2,3) ok by (simp add: clock_ok_def)
  then show "clock_ok (snd ((armTurn room s rm restored :: ('w, 'e, 'b, int option) turn_cmd) ts))" using e(1) by simp
qed

abbreviation holds_on :: "round_store \<Rightarrow> ('w, 'e, 'b, 'a) turn_cmd \<Rightarrow> bool" where
  "holds_on st f \<equiv> triple (holding st) f (\<lambda>_. holding st)"

lemma holds_aloof: "aloof f \<Longrightarrow> holds_on st f"
  by (rule triple_aloof) (simp_all add: same_clocks_kept)

lemma holds_andThen: "holds_on st f \<Longrightarrow> (\<And>x. holds_on st (g x)) \<Longrightarrow> holds_on st (andThen f g)"
  by (rule triple_andThen[where mid = "\<lambda>_. holding st"]) (auto elim!: triple_weaken split: sum.split)

lemma finish_holding: "holds_on st (finishIfComplete P room force)"
proof -
  have "holds_on st (\<lambda>ts. (Inr (), ts\<lparr>ts_scheduler := cancel_room timerDeadlineExecutor room (ts_scheduler ts),
     ts_world := f (ts_world ts)\<rparr>))" for f
    by (auto simp: triple_def holding_def intro: cancel_entry_ok)
  note * = holds_andThen this holds_aloof[OF aloof_in_world] holds_aloof[OF aloof_archive] aloof_simple[THEN holds_aloof]
  show ?thesis unfolding finishIfComplete_def
    by (rule holds_andThen[OF holds_aloof[OF aloof_in_world]]) (auto split: option.split intro!: *)
qed

lemma advance_ok:
  fixes start :: "string \<Rightarrow> round_state \<Rightarrow> ('w, 'e, 'b, int option) turn_cmd"
  assumes start: "\<And>s. triple (on_turn room s) (start room s) (\<lambda>_. clock_ok)"
  shows "triple (ended room result) (advance_turn P start m room (score, result)) (\<lambda>_. clock_ok)"
  unfolding triple_def
proof (intro allI impI)
  fix ts :: "('w, 'b) turn_state"
  assume before: "ended room result ts"
  obtain s c where result: "result = (s, c)" by (cases result)
  have n: "(case c of None \<Rightarrow> roundNumber s | Some c \<Rightarrow> rc_roundNumber c) = ended_round s c" by (simp add: ended_round_def)
  have over: "turn_ended ts room (ended_round s c) s" using before by (simp add: ended_def result)
  have cancel: "triple (\<lambda>ts'. ts' = ts) (cancel_turn room (ended_round s c) :: ('w, 'e, 'b, unit) turn_cmd) (\<lambda>_. holding (ts_rounds ts))"
    using cancel_turn_ok[where 'e = 'e, OF over] by (simp add: triple_def holding_def)
  have s: "map_of (ts_rounds ts) room = Some s" using over by (simp add: turn_ended_def)
  have score: "aloof ((case score of None \<Rightarrow> ret () | Some (p, board) \<Rightarrow> broadcast room (ScoreUpdate p board m)) :: ('w, 'e, 'b, unit) turn_cmd)"
    by (auto split: option.split prod.split intro: aloof_simple)
  have finish: "holds_on (ts_rounds ts) ((case c of None \<Rightarrow> ret False
      | Some c \<Rightarrow> andThen (broadcast room (RoundEnd (rc_roundNumber c) (submittedPlayerIds c))) (\<lambda>_.
          finishIfComplete P room (gameCompleted c))) :: ('w, 'e, 'b, bool) turn_cmd)"
    by (cases c) (simp_all add: holds_aloof[OF aloof_simple(1)] holds_andThen[OF holds_aloof[OF aloof_simple(3)] finish_holding])
  have weak: "holds_on (ts_rounds ts) f \<Longrightarrow> triple (holding (ts_rounds ts)) f (\<lambda>_. clock_ok)" for f :: "('w, 'e, 'b, unit) turn_cmd"
    by (erule triple_weaken) (simp_all add: holding_def)
  have go: "triple (holding (ts_rounds ts)) (if over then ret () else if rd_finished s then warn room ''round_cap_reached_without_finish''
      else andThen (start room s) (\<lambda>_. ret ())) (\<lambda>_. clock_ok)" for over
  proof (cases "over \<or> rd_finished s")
    case True then show ?thesis by (auto intro!: weak holds_aloof aloof_simple)
  next
    case False
    have "triple (on_turn room s) (andThen (start room s) (\<lambda>_. ret ())) (\<lambda>_. clock_ok)"
      by (rule triple_andThen[where mid = "\<lambda>_. clock_ok"])
        (auto intro: triple_weaken[OF start] keeps_aloof[OF aloof_simple(1)] split: sum.split)
    then have "triple (holding (ts_rounds ts)) (andThen (start room s) (\<lambda>_. ret ())) (\<lambda>_. clock_ok)"
      by (rule triple_weaken) (use False s in \<open>auto simp: holding_def on_turn_def\<close>)
    then show ?thesis using False by simp
  qed
  have mid: "triple pre f (\<lambda>r ts'. case r of Inl e \<Rightarrow> clock_ok ts' | Inr x \<Rightarrow> holding (ts_rounds ts) ts')"
    if "triple pre f (\<lambda>_. holding (ts_rounds ts))" for pre and f :: "('w, 'e, 'b, 'c) turn_cmd"
    by (rule triple_weaken[OF that]) (auto simp: holding_def split: sum.split)
  have "triple (\<lambda>ts'. ts' = ts) (advance_turn P start m room (score, result)) (\<lambda>_. clock_ok)"
    unfolding advance_turn_def result prod.case n
    by (rule triple_andThen[OF mid[OF cancel]], rule triple_andThen[OF mid[OF holds_aloof[OF score]]],
      rule triple_andThen[OF mid[OF finish]], rule go)
  then show "clock_ok (snd (advance_turn P start m room (score, result) ts))" by (simp add: triple_def)
qed

section \<open>Turns that end\<close>

lemma with_round_eq: "ts\<lparr>ts_rounds := AList.update room s (ts_rounds ts)\<rparr> = with_round room s ts"
  by (simp add: with_round_def)

lemma rounds_expire_kept:
  "triple clock_ok (rounds_expire room n p :: ('w, 'e, 'b, round_result option) turn_cmd) (\<lambda>r ts. case r of Inl e \<Rightarrow> clock_ok ts
     | Inr x \<Rightarrow> (case x of None \<Rightarrow> clock_ok ts | Some result \<Rightarrow> ended room result ts))"
  unfolding triple_def
proof (intro allI impI)
  fix ts :: "('w, 'b) turn_state"
  assume ok: "clock_ok ts"
  let ?f = "rounds_expire room n p :: ('w, 'e, 'b, round_result option) turn_cmd"
  show "case fst (?f ts) of Inl e \<Rightarrow> clock_ok (snd (?f ts))
     | Inr x \<Rightarrow> (case x of None \<Rightarrow> clock_ok (snd (?f ts)) | Some result \<Rightarrow> ended room result (snd (?f ts)))"
  proof (cases rule: rounds_expire_cases[of room n p ts, where 'e = 'e])
    case (3 s s' c)
    have s: "round_ok s" "\<not> rd_finished s" using clock_ok_stored[OF ok 3(1)] 3(2) by (auto simp: expire_round_def)
    have "round_ok s'" by (rule round_expire_ok[OF s(1) 3(2)])
    then show ?thesis
      using with_round_ended[OF ok 3(1) s(2)] expire_round_ended[OF 3(2)] 3(6) by (simp add: ended_def with_round_eq)
  qed (use ok in simp_all)
qed

text \<open>After a timeout of the last-but-one player and more the player of the turn is another, and may be removed.\<close>

lemma without_succeeds:
  assumes "round_ok s" "rd_finished s \<or> activePlayerId s \<noteq> Inr p"
  obtains s' where "withoutParticipant s p = Inr s'"
proof (cases "rd_finished s \<or> p \<notin> set (participantOrder s)")
  case True then show thesis by (intro that[of s]) (simp add: withoutParticipant_def)
next
  case False
  have s: "seats_ok s" using assms(1) by (simp add: round_ok_def)
  have "restore (s\<lparr>participantOrder := order, activePlayerIndex := i, rd_finished := False\<rparr>)
    = Inr (s\<lparr>participantOrder := order, activePlayerIndex := i, rd_finished := False\<rparr>)" for order i
    using s by (intro restore_ok) (simp_all add: seats_ok_def)
  then show thesis using that False assms(2) active_ok[OF s] by (auto simp: withoutParticipant_def Let_def)
qed

lemma turn_over_other:
  assumes "round_ok s" "activePlayerId s = Inr p" "length (participantOrder s) \<noteq> 1" "turn_over s subs s'" "round_ok s'"
  shows "rd_finished s' \<or> activePlayerId s' \<noteq> Inr p"
proof (cases "rd_finished s'")
  case False
  have s: "seats_ok s" "seats_ok s'" using assms(1,5) by (simp_all add: round_ok_def)
  have "nat (activePlayerIndex s') \<noteq> nat (activePlayerIndex s)"
    using assms(3,4) False s(1) by (auto simp: turn_over_def seats_ok_def split: if_splits)
  then show ?thesis using active_ok[OF s(1)] active_ok[OF s(2)] assms(2,4) s
    by (auto simp: turn_over_def seats_ok_def nth_eq_iff_index_eq)
qed simp

lemma ended_without:
  assumes "ended room (s', c) ts" "withoutParticipant s' p = Inr s''"
  shows "ended room (s'', c) (with_round room s'' ts)"
proof -
  have "rounds_ok (ts_rounds ts)" "map_of (ts_rounds ts) room = Some s'" and b: "base_ok ts room"
    and on: "\<exists>p. clocks_on ts room (Some (ended_round s' c, p))" using assms(1) by (auto simp: ended_def turn_ended_def base_ok_def)
  then have s': "round_ok s'" "\<not> blank room" by (auto simp: rounds_ok_def)
  have e: "round_ok s''" "roundNumber s'' = roundNumber s'" using leave_effect[OF s'(1) assms(2)] by auto
  then have "ended_round s'' c = ended_round s' c" by (simp add: ended_round_def split: option.split)
  then show ?thesis using base_ok_with_round[OF b e(1) s'(2)] on by (simp add: ended_def turn_ended_def)
qed

lemma leave_turn_ok:
  fixes adv :: "'b turn_advance \<Rightarrow> ('w, 'e, 'b, unit) turn_cmd"
  assumes adv: "\<And>result. triple (ended room result) (adv (None, result)) (\<lambda>_. clock_ok)"
  shows "triple (\<lambda>ts. on_turn room s ts \<and> activePlayerId s = Inr p \<and> length (participantOrder s) \<noteq> 1)
    (andThen (rounds_expire room (roundNumber s) p) (\<lambda>expired. andThen (rounds_removeParticipant room p) (\<lambda>updated.
       case (expired, updated) of (Some (_, completed), Some s') \<Rightarrow> adv (None, s', completed) | _ \<Rightarrow> ret ())))
    (\<lambda>_. clock_ok)"
  unfolding triple_def
proof (intro allI impI)
  fix ts :: "('w, 'b) turn_state"
  let ?expire = "rounds_expire room (roundNumber s) p :: ('w, 'e, 'b, round_result option) turn_cmd"
  let ?remove = "rounds_removeParticipant room p :: ('w, 'e, 'b, round_state option) turn_cmd"
  assume "on_turn room s ts \<and> activePlayerId s = Inr p \<and> length (participantOrder s) \<noteq> 1"
  then have turn: "clock_ok ts" "map_of (ts_rounds ts) room = Some s" "\<not> rd_finished s" and p: "activePlayerId s = Inr p"
    "length (participantOrder s) \<noteq> 1" by (auto simp: on_turn_def)
  have s: "round_ok s" "\<not> blank room" using clock_ok_stored[OF turn(1,2)] by auto
  obtain s' c where s': "expire_round s = Inr (s', c)" "round_ok s'" "turn_over s (submissions s) s'" by (rule expire_succeeds[OF s(1) turn(3)])
  have expire: "?expire ts = (Inr (Some (s', c)), with_round room s' ts)"
    using s'(1) turn s p by (simp add: rounds_expire_def expireAtomically_def optional_def require_room_def on_store_app andThen_app
        isStaleTurn_def with_round_def)
  have e: "ended room (s', c) (with_round room s' ts)"
    using tripleD[OF rounds_expire_kept turn(1) expire] by simp
  obtain s'' where s'': "withoutParticipant s' p = Inr s''"
    by (rule without_succeeds[OF s'(2) turn_over_other[OF s(1) p s'(3,2)]])
  have remove: "?remove (with_round room s' ts) = (Inr (Some s''), with_round room s'' (with_round room s' ts))"
    using s'' s by (simp add: rounds_removeParticipant_def removeParticipantAtomically_def optional_def require_room_def on_store_app
        andThen_app) (simp add: with_round_def)
  have "clock_ok (snd (adv (None, s'', c) (with_round room s'' (with_round room s' ts))))"
    using adv[of "(s'', c)", unfolded triple_def] ended_without[OF e s''] by simp
  then show "clock_ok (snd (andThen ?expire (\<lambda>expired. andThen ?remove (\<lambda>updated.
       case (expired, updated) of (Some (_, completed), Some s') \<Rightarrow> adv (None, s', completed) | _ \<Rightarrow> ret ())) ts))"
    by (simp add: andThen_app expire remove)
qed

section \<open>The calls that lead to the next turn\<close>

lemma find_ok: "triple clock_ok (rounds_find room) (\<lambda>r ts. case r of Inl e \<Rightarrow> clock_ok ts
    | Inr found \<Rightarrow> clock_ok ts \<and> map_of (ts_rounds ts) room = found)"
  by (simp add: triple_def rounds_find_app)

lemma cancel_room_ok: "triple (\<lambda>ts. base_ok ts room) (cancelRoom room) (\<lambda>_ ts. unclocked ts room)"
  unfolding triple_def by (intro allI impI) (rule cancelRoom_ok(1))

lemma unclocked_without:
  assumes "unclocked ts room" shows "unclocked (ts\<lparr>ts_rounds := AList.delete room (ts_rounds ts)\<rparr>) room"
proof -
  have "rounds_ok (AList.delete room (ts_rounds ts))"
    using assms by (auto simp: unclocked_def base_ok_def rounds_ok_def delete_conv')
  then show ?thesis using assms by (auto simp: unclocked_def base_ok_def clocks_on_def delete_conv')
qed

lemma rounds_remove_ok: "triple (\<lambda>ts. unclocked ts room) (rounds_remove room) (\<lambda>_ ts. unclocked ts room)"
  by (auto simp: triple_def rounds_remove_def remove_round_def require_room_def on_store_app intro: unclocked_without)

lemma drop_room_ok:
  assumes "keeps_clocks g"
  shows "triple (\<lambda>ts. base_ok ts room) (andThen (cancelRoom room) (\<lambda>_. andThen (rounds_remove room) (\<lambda>_. g))) (\<lambda>_. clock_ok)"
proof (rule triple_andThen[where mid = "\<lambda>_ ts. unclocked ts room"])
  show "triple (\<lambda>ts. base_ok ts room) (cancelRoom room) (\<lambda>r ts. case r of Inl e \<Rightarrow> clock_ok ts | Inr x \<Rightarrow> unclocked ts room)"
    by (rule triple_weaken[OF cancel_room_ok]) (auto intro: unclocked_ok split: sum.split)
  show "triple (\<lambda>ts. unclocked ts room) (andThen (rounds_remove room) (\<lambda>_. g)) (\<lambda>_. clock_ok)"
  proof (rule triple_andThen[where mid = "\<lambda>_ ts. unclocked ts room"])
    show "triple (\<lambda>ts. unclocked ts room) (rounds_remove room) (\<lambda>r ts. case r of Inl e \<Rightarrow> clock_ok ts | Inr x \<Rightarrow> unclocked ts room)"
      by (rule triple_weaken[OF rounds_remove_ok]) (auto intro: unclocked_ok split: sum.split)
    show "triple (\<lambda>ts. unclocked ts room) g (\<lambda>_. clock_ok)" by (rule triple_weaken[OF assms]) (auto intro: unclocked_ok)
  qed
qed

lemma removeParticipant_ok: "keeps_clocks (rounds_removeParticipant room p :: ('w, 'e, 'b, round_state option) turn_cmd)"
  unfolding triple_def
proof (intro allI impI)
  fix ts :: "('w, 'b) turn_state"
  assume ok: "clock_ok ts"
  show "clock_ok (snd ((rounds_removeParticipant room p :: ('w, 'e, 'b, round_state option) turn_cmd) ts))"
  proof (cases rule: rounds_removeParticipant_cases[of room p ts, where 'e = 'e])
    case (3 s s')
    have s: "round_ok s" using clock_ok_stored[OF ok 3(1)] by simp
    show ?thesis using with_round_same_turn[OF ok 3(1) _ turn_of_without[OF s 3(2)]] leave_effect[OF s 3(2)] 3(3)
      by (simp add: with_round_eq)
  qed (use ok in simp_all)
qed

lemma remove_ok:
  assumes adv: "\<And>result. triple (ended room result) (adv room (None, result)) (\<lambda>_. clock_ok)"
  shows "keeps_clocks (removePlayerFromRound P adv room p)"
proof -
  have seat: "aloof (\<lambda>ts. case seat_removal P room p (ts_world ts) of (removed, w) \<Rightarrow> (Inr removed, ts\<lparr>ts_world := w\<rparr>))"
    by (simp add: aloof_def same_clocks_def split: prod.split)
  have left: "aloof (if removed then broadcast room (PlayerLeft p) else ret ())" for removed
    by (simp add: aloof_simple)
  have keep: "triple (\<lambda>ts. clock_ok ts \<and> Q ts) f (\<lambda>_. clock_ok)" if "keeps_clocks f" for Q f
    by (rule triple_weaken[OF that]) simp_all
  have rest: "triple (\<lambda>ts. clock_ok ts \<and> map_of (ts_rounds ts) room = found) (case found of None \<Rightarrow> ret ()
      | Some s \<Rightarrow> if rd_finished s \<or> p \<notin> set (participantOrder s) then ret ()
        else if length (participantOrder s) = 1
        then andThen (cancelRoom room) (\<lambda>_. andThen (rounds_remove room) (\<lambda>_. ret ()))
        else (case activePlayerId s of Inl e \<Rightarrow> throw (Rounds (Sync e))
          | Inr active \<Rightarrow> if active = p
            then andThen (rounds_expire room (roundNumber s) p) (\<lambda>expired.
                 andThen (rounds_removeParticipant room p) (\<lambda>updated. case (expired, updated) of
                   (Some (_, completed), Some s') \<Rightarrow> adv room (None, (s', completed)) | _ \<Rightarrow> ret ()))
            else andThen (rounds_removeParticipant room p) (\<lambda>_. ret ()))) (\<lambda>_. clock_ok)" for found
  proof (cases found)
    case None then show ?thesis by (simp add: keep keeps_aloof aloof_simple)
  next
    case (Some s)
    have leave: "triple (\<lambda>ts. clock_ok ts \<and> map_of (ts_rounds ts) room = found)
       (andThen (rounds_expire room (roundNumber s) p) (\<lambda>expired.
                 andThen (rounds_removeParticipant room p) (\<lambda>updated. case (expired, updated) of
                   (Some (_, completed), Some s') \<Rightarrow> adv room (None, (s', completed)) | _ \<Rightarrow> ret ()))) (\<lambda>_. clock_ok)"
      if "\<not> rd_finished s" "length (participantOrder s) \<noteq> 1" "activePlayerId s = Inr p"
      by (rule triple_weaken[OF leave_turn_ok[where s = s and adv = "adv room", OF adv]]) (use that Some in \<open>auto simp: on_turn_def\<close>)
    have drop: "keeps_clocks (andThen (cancelRoom room) (\<lambda>_. andThen (rounds_remove room) (\<lambda>_. ret ())))"
      by (rule triple_weaken[OF drop_room_ok[OF keeps_aloof[OF aloof_simple(1)]]]) (auto simp: clock_ok_iff[of _ room])
    have other: "keeps_clocks (andThen (rounds_removeParticipant room p) (\<lambda>_. ret ()))"
      by (rule keeps_andThen[OF removeParticipant_ok keeps_aloof[OF aloof_simple(1)]])
    show ?thesis using leave Some
      by (auto simp: keep[OF drop] keep[OF other] keep keeps_aloof aloof_simple split: sum.split)
  qed
  show ?thesis
    unfolding removePlayerFromRound_def
    apply (rule keeps_andThen[OF keeps_aloof[OF aloof_clear]], rule keeps_andThen[OF keeps_aloof[OF seat]],
      rule keeps_andThen[OF keeps_aloof[OF aloof_in_world]], rule keeps_andThen[OF keeps_aloof[OF left]])
    by (rule triple_andThen[OF find_ok rest])
qed

lemma handle_ok:
  assumes rem: "\<And>p. keeps_clocks (rem room p)" and adv: "\<And>result. triple (ended room result) (adv room (None, result)) (\<lambda>_. clock_ok)"
  shows "keeps_clocks (offline_handle rem adv room s)"
proof -
  have expire: "keeps_clocks (andThen (rounds_expire room (roundNumber s) p) (\<lambda>expired. case expired of None \<Rightarrow> ret ()
      | Some result \<Rightarrow> adv room (None, result)))" for p
    by (rule triple_andThen[OF rounds_expire_kept]) (auto intro: adv keeps_aloof[OF aloof_simple(1)] split: option.split)
  have "clock_ok (ts\<lparr>misses := m\<rparr>) = clock_ok ts" for ts :: "('a, 'b) turn_state" and m
    using same_clocks_ok[of ts "ts\<lparr>misses := m\<rparr>"] by (simp add: same_clocks_def)
  then show ?thesis using rem[unfolded triple_def] expire[unfolded triple_def]
    by (auto simp: triple_def offline_handle_def Let_def split: sum.split option.split)
qed

lemma begin_ok:
  assumes handle: "keeps_clocks (handle room s)"
  shows "triple (on_turn room s) (beginTurn P handle room s restored) (\<lambda>_. clock_ok)"
proof -
  have absent: "keeps_clocks (andThen (handle room s) (\<lambda>_. ret None))"
    by (rule keeps_andThen[OF handle keeps_aloof[OF aloof_simple(1)]])
  have begun: "aloof (\<lambda>ts. (Inr d, ts\<lparr>ts_begun := ts_begun ts @ [(room, s)]\<rparr>))" for d
    by (simp add: aloof_def same_clocks_def)
  have armed: "triple (on_turn room s) (andThen (in_world (touch P room)) (\<lambda>_. andThen (armTurn room s rm restored) (\<lambda>deadline ts.
         (Inr deadline, ts\<lparr>ts_begun := ts_begun ts @ [(room, s)]\<rparr>)))) (\<lambda>_. clock_ok)" for rm
    by (rule triple_skip[OF aloof_in_world _ same_clocks_kept(1)], rule triple_andThen[where mid = "\<lambda>_. clock_ok"])
      (auto intro: triple_weaken[OF armTurn_ok] keeps_aloof[OF begun] simp: on_turn_def split: sum.split)
  show ?thesis unfolding beginTurn_def
  proof (rule triple_skip[OF aloof_in_world _ same_clocks_kept(1)])
    fix rm
    show "triple (on_turn room s) (\<lambda>ts. case (if restored = None then map_sum id (\<lambda>p. isOffline P rm room p ts) (activePlayerId s) else Inr False) of
       Inl e \<Rightarrow> (Inl (Rounds (Sync e)), ts)
     | Inr True \<Rightarrow> andThen (handle room s) (\<lambda>_. ret None) ts
     | Inr False \<Rightarrow> andThen (in_world (touch P room)) (\<lambda>_. andThen (armTurn room s rm restored) (\<lambda>deadline ts.
         (Inr deadline, ts\<lparr>ts_begun := ts_begun ts @ [(room, s)]\<rparr>))) ts) (\<lambda>_. clock_ok)"
      using absent[unfolded triple_def] armed[unfolded triple_def]
      by (auto simp: triple_def on_turn_def split: sum.split bool.split)
  qed (auto simp: on_turn_def)
qed

lemma start_turn_ok: "triple (on_turn room s) (start_turn n P room s) (\<lambda>_. clock_ok)"
proof (induction n arbitrary: s)
  case 0
  then show ?case by (simp add: triple_def on_turn_def)
next
  case (Suc n)
  have adv: "triple (ended room result) (advance_turn P (start_turn n P) None room (None, result)) (\<lambda>_. clock_ok)" for result
    by (rule advance_ok) (rule Suc.IH)
  show ?case unfolding start_turn.simps Let_def by (rule begin_ok, rule handle_ok, rule remove_ok, rule adv, rule adv)
qed

lemma timer_start_ok: "triple (on_turn room s) (timer_start P room s) (\<lambda>_. clock_ok)"
  by (simp add: triple_def timer_start_def start_turn_ok[unfolded triple_def, rule_format])

lemma timer_advance_ok: "triple (ended room result) (timer_advanceTurn P m room (score, result)) (\<lambda>_. clock_ok)"
  unfolding timer_advanceTurn_def by (rule advance_ok) (rule timer_start_ok)

lemma timer_remove_ok: "keeps_clocks (timer_removePlayer P room p)"
  unfolding timer_removePlayer_def by (rule remove_ok) (rule timer_advance_ok)

section \<open>The actions of a turn\<close>

lemma same_seats_on_turn:
  assumes "clock_ok ts" "map_of (ts_rounds ts) room = Some s" "same_seats s s'" "turn_ok s'" "\<not> rd_finished s"
  shows "on_turn room s' (with_round room s' ts)"
proof -
  have "round_ok s'" using same_seats_ok[OF assms(3) _ assms(4)] clock_ok_stored[OF assms(1,2)] by simp
  then show ?thesis using with_round_same_turn[OF assms(1,2) _ turn_of_same_seats[OF assms(3)]] assms(3,5)
    by (simp add: on_turn_def same_seats_def)
qed

lemma recordRoll_live: "round_ok s \<Longrightarrow> recordRoll s roll = Inr s' \<Longrightarrow> \<not> rd_finished s"
  using recordRoll_Inr current_ok(1) by (metis round_ok_def)

lemma recordHold_live: "round_ok s \<Longrightarrow> recordHold s p n held = Inr s' \<Longrightarrow> \<not> rd_finished s"
  using recordHold_Inr current_ok(1) by (metis round_ok_def)

text \<open>What the calls on the store give when they go through.\<close>

definition on_turn_after :: "string \<Rightarrow> 'e turn_error + round_state \<Rightarrow> ('w, 'b) turn_state \<Rightarrow> bool" where
  "on_turn_after room r ts \<longleftrightarrow> (case r of Inl e \<Rightarrow> clock_ok ts | Inr s \<Rightarrow> on_turn room s ts)"

lemma required_ok:
  assumes "\<And>s s'. round_ok s \<Longrightarrow> f s = Inr s' \<Longrightarrow> same_seats s s' \<and> turn_ok s' \<and> \<not> rd_finished s"
  shows "triple clock_ok (on_store (required room (\<lambda>s. andThen (sync (f s)) (\<lambda>s'. andThen (put_round room s') (\<lambda>_. ret s'))))) (on_turn_after room)"
  unfolding triple_def
proof (intro allI impI)
  fix ts :: "('a, 'b) turn_state"
  assume ok: "clock_ok ts"
  let ?f = "on_store (required room (\<lambda>s. andThen (sync (f s)) (\<lambda>s'. andThen (put_round room s') (\<lambda>_. ret s'))))"
  show "on_turn_after room (fst (?f ts)) (snd (?f ts))"
  proof (cases "map_of (ts_rounds ts) room")
    case None
    then show ?thesis using ok by (simp add: on_store_app required_def require_room_def on_turn_after_def)
  next
    case (Some s)
    note s = clock_ok_stored[OF ok Some]
    show ?thesis
    proof (cases "f s")
      case (Inl e)
      then show ?thesis using ok Some s by (simp add: on_store_app required_def require_room_def on_turn_after_def andThen_app)
    next
      case (Inr s')
      have "on_turn room s' (with_round room s' ts)" by (rule same_seats_on_turn[OF ok Some]) (use assms[of s s'] Inr s in auto)
      then show ?thesis using Inr Some s
        by (simp add: on_store_app required_def require_room_def on_turn_after_def andThen_app with_round_def)
    qed
  qed
qed

lemma recordRoll_store_ok: "triple clock_ok (on_store (recordRollAtomically room roll)) (on_turn_after room)"
  unfolding recordRollAtomically_def by (rule required_ok) (auto dest: recordRoll_live recordRoll_ok)

lemma recordHold_store_ok: "triple clock_ok (on_store (recordHoldAtomically room p n held)) (on_turn_after room)"
  unfolding recordHoldAtomically_def by (rule required_ok) (auto dest: recordHold_live recordHold_ok)

lemma autoRoll_store_ok:
  "triple clock_ok (on_store (autoRollAtomically room n p dice)) (\<lambda>r ts. case r of Inl e \<Rightarrow> clock_ok ts
     | Inr None \<Rightarrow> clock_ok ts | Inr (Some s) \<Rightarrow> on_turn room s ts)"
  unfolding triple_def
proof (intro allI impI)
  fix ts :: "('a, 'b) turn_state"
  assume ok: "clock_ok ts"
  let ?f = "on_store (autoRollAtomically room n p dice) :: ('a, 'c, 'b, round_state option) turn_cmd"
  show "case fst (?f ts) of Inl e \<Rightarrow> clock_ok (snd (?f ts)) | Inr None \<Rightarrow> clock_ok (snd (?f ts)) | Inr (Some s) \<Rightarrow> on_turn room s (snd (?f ts))"
  proof (cases "map_of (ts_rounds ts) room")
    case None
    then show ?thesis using ok by (simp add: on_store_app autoRollAtomically_def optional_def require_room_def)
  next
    case (Some s)
    note s = clock_ok_stored[OF ok Some]
    show ?thesis
    proof (cases "\<exists>s'. isStaleTurn s n p = Inr False \<and> hasRollsLeft s \<and> autoRoll s dice = Inr s'")
      case True
      then obtain s' where s': "isStaleTurn s n p = Inr False" "hasRollsLeft s" "autoRoll s dice = Inr s'" by blast
      obtain roll where "recordRoll s roll = Inr s'" using autoRoll_Inr[OF s'(3)] by blast
      then have "on_turn room s' (with_round room s' ts)"
        using s recordRoll_ok recordRoll_live by (intro same_seats_on_turn[OF ok Some]) blast+
      then show ?thesis using s' Some s
        by (simp add: on_store_app autoRollAtomically_def optional_def require_room_def andThen_app with_round_def)
    next
      case False
      then show ?thesis using ok Some s
        by (cases "isStaleTurn s n p"; cases "autoRoll s dice")
          (auto simp: on_store_app autoRollAtomically_def optional_def require_room_def andThen_app)
    qed
  qed
qed

section \<open>Submissions and timeouts\<close>

lemma submit_live: "round_ok s \<Longrightarrow> submit_round s sub = Inr (s', c) \<Longrightarrow> \<not> rd_finished s"
  using submit_Inr(1) current_ok(1) by (metis round_ok_def)

lemma ended_sent [simp]: "ended room result (ts\<lparr>ts_sent := m\<rparr>) = ended room result ts"
  using same_clocks_kept(2)[of ts "ts\<lparr>ts_sent := m\<rparr>"] by (simp add: same_clocks_def)

lemma on_turn_sent [simp]: "on_turn room s (ts\<lparr>ts_sent := m\<rparr>) = on_turn room s ts"
  using same_clocks_kept(1)[of ts "ts\<lparr>ts_sent := m\<rparr>"] by (simp add: same_clocks_def)

lemma submission_ok:
  "triple clock_ok (submission_submit P room p n dice category) (\<lambda>r ts. case r of Inl e \<Rightarrow> clock_ok ts
     | Inr (score, result) \<Rightarrow> ended room result ts)"
  unfolding triple_def
proof (intro allI impI)
  fix ts :: "('a, 'b) turn_state"
  assume ok: "clock_ok ts"
  obtain r ts' where run: "submission_submit P room p n dice category ts = (r, ts')" by fastforce
  have same: "ts_scheduler ts' = ts_scheduler ts" "activeDeadlines ts' = activeDeadlines ts" "ts_deadlines ts' = ts_deadlines ts"
    using run by (auto simp: submission_submit_def split: sum.splits prod.splits)
  have "case r of Inl e \<Rightarrow> clock_ok ts' | Inr (score, result) \<Rightarrow> ended room result ts'"
  proof (cases rule: submission_submit_cases[OF run])
    case (1 e)
    then show ?thesis using ok same_clocks_ok[of ts ts'] same by (simp add: same_clocks_def)
  next
    case (2 score s sub s' c)
    have s: "round_ok s" "\<not> rd_finished s" using clock_ok_stored[OF ok 2(2)] submit_live[OF _ 2(3)] by auto
    have sub: "valid_submission (rs_roundNumber sub) (rs_playerId sub, sub)" using new_submission_Inr[OF 2(4)] by auto
    have "same_clocks (with_round room s' ts) ts'" using same 2(5) by (simp add: same_clocks_def with_round_def)
    moreover have "ended room (s', c) (with_round room s' ts)"
      using with_round_ended[OF ok 2(2) s(2) submit_ok[OF s(1) 2(3) sub]] submit_round_ended[OF 2(3)] by (simp add: ended_def)
    ultimately show ?thesis using 2(1) by (simp add: same_clocks_kept(2)[of "with_round room s' ts" ts'])
  qed
  then show "case fst (submission_submit P room p n dice category ts) of Inl e \<Rightarrow> clock_ok (snd (submission_submit P room p n dice category ts))
     | Inr (score, result) \<Rightarrow> ended room result (snd (submission_submit P room p n dice category ts))" unfolding run fst_conv snd_conv .
qed

definition resolved :: "string \<Rightarrow> 'e turn_error + timeout_resolution \<Rightarrow> ('w, 'b) turn_state \<Rightarrow> bool" where
  "resolved room r ts \<longleftrightarrow> (case r of Inl e \<Rightarrow> clock_ok ts | Inr Stale \<Rightarrow> clock_ok ts
     | Inr (AutoRolled s) \<Rightarrow> on_turn room s ts | Inr (Advanced result) \<Rightarrow> ended room result ts)"

lemma without_score_ok: "triple clock_ok (advanceWithoutScore room n p) (resolved room)"
  unfolding advanceWithoutScore_def
  by (rule triple_andThen[where mid = "\<lambda>x ts. case x of None \<Rightarrow> clock_ok ts | Some result \<Rightarrow> ended room result ts"],
      rule triple_weaken[OF rounds_expire_kept])
    (auto simp: triple_def resolved_def split: sum.split option.splits)

lemma degraded_ok: "triple clock_ok (andThen (warn room reason) (\<lambda>_. advanceWithoutScore room n p)) (resolved room)"
  by (rule triple_andThen[where mid = "\<lambda>_. clock_ok"], rule triple_weaken[OF keeps_aloof[OF aloof_simple(4)]])
    (auto simp: resolved_def without_score_ok split: sum.split)

lemma record_ok: "triple clock_ok (recordAndAdvance P room n p dice) (resolved room)"
proof (cases dice)
  case None then show ?thesis by (simp add: recordAndAdvance_def degraded_ok)
next
  case (Some d)
  show ?thesis unfolding triple_def
  proof (intro allI impI)
    fix ts :: "('a, 'b) turn_state"
    assume ok: "clock_ok ts"
    obtain r ts1 where pick: "pickOpenCategory P room p ts = (r, ts1)" by fastforce
    have ok1: "clock_ok ts1" using tripleD[OF keeps_aloof[OF aloof_pick] ok pick] .
    note deg = degraded_ok[unfolded triple_def, rule_format] without_score_ok[unfolded triple_def, rule_format]
    show "resolved room (fst (recordAndAdvance P room n p dice ts)) (snd (recordAndAdvance P room n p dice ts))"
    proof (cases "\<exists>category. r = Inr (Some category)")
      case False
      then show ?thesis using deg[OF ok1] by (auto simp: recordAndAdvance_def Some pick split: sum.split option.split)
    next
      case True
      then obtain category where r: "r = Inr (Some category)" by blast
      obtain r2 ts2 where submit: "submission_submit P room p n d category ts1 = (r2, ts2)" by fastforce
      have after: "case r2 of Inl e \<Rightarrow> clock_ok ts2 | Inr (score, result) \<Rightarrow> ended room result ts2"
        using tripleD[OF submission_ok ok1 submit] .
      show ?thesis
      proof (cases r2)
        case (Inl e)
        then show ?thesis using deg after by (simp add: recordAndAdvance_def Some pick r submit)
      next
        case (Inr x)
        obtain score result where x: "x = (score, result)" by (cases x)
        show ?thesis using after
          by (cases score) (auto simp: recordAndAdvance_def Some pick r submit Inr x resolved_def andThen_app broadcast_def)
      qed
    qed
  qed
qed

lemma resolve_ok: "triple clock_ok (resolve P room n p) (resolved room)"
proof -
  have roll: "triple clock_ok (rounds_autoRoll P room n p) (\<lambda>r ts. case r of Inl e \<Rightarrow> clock_ok ts
     | Inr None \<Rightarrow> clock_ok ts | Inr (Some s) \<Rightarrow> on_turn room s ts)"
    unfolding rounds_autoRoll_def
    by (rule triple_andThen[where mid = "\<lambda>_. clock_ok"], rule triple_weaken[OF keeps_aloof[OF aloof_roll]], simp,
      simp split: sum.split, rule autoRoll_store_ok)
  have rolled: "triple (on_turn room s) (andThen (broadcast room m) (\<lambda>_. ret (AutoRolled s))) (resolved room)" for s m
    by (auto simp: triple_def andThen_app broadcast_def resolved_def)
  have stale: "triple clock_ok (ret Stale) (resolved room)" "triple clock_ok (throw e) (resolved room)" for e
    by (simp_all add: triple_def resolved_def)
  have found: "triple clock_ok (andThen (rounds_find room) (\<lambda>current. case current of None \<Rightarrow> ret Stale
     | Some s \<Rightarrow> if rd_finished s \<or> roundNumber s \<noteq> n then ret Stale
       else (case activePlayerId s of Inl e \<Rightarrow> throw (Rounds (Sync e))
         | Inr active \<Rightarrow> if active \<noteq> p then ret Stale else recordAndAdvance P room n p (activeDice s)))) (resolved room)"
    by (rule triple_andThen[where mid = "\<lambda>_. clock_ok"], rule triple_weaken[OF find_ok])
      (auto simp: resolved_def stale record_ok split: sum.splits option.split)
  show ?thesis unfolding resolve_def
    by (rule triple_andThen[where mid = "\<lambda>x ts. case x of None \<Rightarrow> clock_ok ts | Some s \<Rightarrow> on_turn room s ts"], rule triple_weaken[OF roll])
      (auto simp: resolved_def found rolled split: sum.splits option.splits)
qed

lemma expireTurn_ok: "keeps_clocks (expireTurn P room n p)"
proof -
  have start: "triple (on_turn room s) (andThen (timer_start P room s) (\<lambda>_. ret ())) (\<lambda>_. clock_ok)" for s
    by (rule triple_andThen[where mid = "\<lambda>_. clock_ok"], rule triple_weaken[OF timer_start_ok])
      (auto intro: keeps_aloof aloof_simple split: sum.split)
  show ?thesis unfolding expireTurn_def
    by (rule triple_andThen[where mid = "\<lambda>x. resolved room (Inr x)"], rule triple_weaken[OF resolve_ok], simp, simp add: resolved_def split: sum.splits)
      (auto intro: triple_weaken[OF start] triple_weaken[OF timer_advance_ok] triple_weaken[OF keeps_aloof[OF aloof_simple(1)]]
        simp: resolved_def split: timeout_resolution.split)
qed

text \<open>A timer that expires frees the room's entry before its action runs.\<close>

lemma timer_expires_ok:
  assumes "clock_ok ts" shows "clock_ok (timer_expires P h ts)"
proof -
  define sch where "sch = sched_step timerDeadlineExecutor (Moves (Expire_timer h)) (ts_scheduler ts)"
  have ok: "node.in_step (ts_scheduler ts)" using assms by (simp add: clock_ok_def)
  note e = clock_entry_expire[OF ok sch_def]
  have freed: "clock_entry sch r = clock_entry (ts_scheduler ts) r \<or> clock_entry sch r = None" for r
    using e(2) by (metis (full_types))
  have "clocks_on (ts\<lparr>ts_scheduler := sch\<rparr>) r turn" if "clocks_on ts r turn" for r turn
    using that freed[of r] by (auto simp: clocks_on_def)
  then have "clock_ok (ts\<lparr>ts_scheduler := sch\<rparr>)" using assms e(1) by (simp add: clock_ok_def)
  then show ?thesis unfolding timer_expires_def Let_def sch_def[symmetric]
    by (auto intro: keepsD[OF expireTurn_ok] split: list.split)
qed

section \<open>The events of the module\<close>

lemma fresh_round_ok:
  assumes "clock_ok ts" "turn_of (map_of (ts_rounds ts) room) = None" "round_ok s" "\<not> blank room"
  shows "clock_ok (with_round room s ts)"
proof -
  have none: "clocks_on ts room None" "base_ok ts room" using assms(1,2) by (simp_all add: clock_ok_iff[of _ room])
  have "clocks_on ts room turn" for turn
  proof -
    have "clock_entry (ts_scheduler ts) room = None" using none(1) by (cases "clock_entry (ts_scheduler ts) room") (auto simp: clocks_on_def)
    then show ?thesis using none(1) by (auto simp: clocks_on_def)
  qed
  then show ?thesis using base_ok_with_round[OF none(2) assms(3,4)] by (simp add: clock_ok_iff[of _ room])
qed

lemma reset_ok: "triple (\<lambda>ts. base_ok ts room) (yacht_reset P room) (\<lambda>_. clock_ok)"
proof -
  have "aloof (broadcastState P room)" unfolding broadcastState_def by (intro aloof_intros)
  moreover have "aloof (mark_phase P room phase)" for phase by (simp add: aloof_def mark_phase_def same_clocks_def)
  ultimately show ?thesis unfolding yacht_reset_def
    by (intro drop_room_ok keeps_andThen keeps_aloof)
qed

lemma close_ok: "triple (\<lambda>ts. base_ok ts room) (yacht_close room) (\<lambda>_. clock_ok)"
  unfolding yacht_close_def by (intro drop_room_ok keeps_aloof aloof_simple)

lemma clock_ok_base: "clock_ok ts \<Longrightarrow> base_ok ts room"
  by (simp add: clock_ok_def base_ok_def)

definition vacant :: "string \<Rightarrow> ('w, 'b) turn_state \<Rightarrow> bool" where
  "vacant room ts \<longleftrightarrow> clock_ok ts \<and> turn_of (map_of (ts_rounds ts) room) = None"

lemma vacant_clocks: "vacant room ts \<Longrightarrow> clocks_on ts room None \<and> base_ok ts room"
  unfolding vacant_def by (metis clock_ok_iff)

lemma vacate_ok: "triple (vacant room) (rounds_remove room) (\<lambda>r ts. case r of Inl e \<Rightarrow> clock_ok ts | Inr _ \<Rightarrow> vacant room ts)"
proof -
  have "vacant room (ts\<lparr>ts_rounds := AList.delete room (ts_rounds ts)\<rparr>)" if "vacant room ts" for ts :: "('a, 'b) turn_state"
  proof -
    have st: "rounds_ok (AList.delete room (ts_rounds ts))" "node.in_step (ts_scheduler ts)"
      using that by (auto simp: vacant_def clock_ok_def rounds_ok_def delete_conv')
    have "clocks_on ts r (turn_of (map_of (AList.delete room (ts_rounds ts)) r))" for r
      using that vacant_clocks[OF that] by (cases "r = room") (auto simp: vacant_def clock_ok_def delete_conv' turn_of_def)
    then show ?thesis using st by (simp add: vacant_def clock_ok_def clocks_on_def turn_of_def delete_conv')
  qed
  then show ?thesis
    by (auto simp: triple_def rounds_remove_def remove_round_def require_room_def on_store_app vacant_def)
qed

lemma initialize_ok: "triple (vacant room) (rounds_initialize room n players tot) (on_turn_after room)"
proof (cases "start_round n players tot")
  case (Inl e)
  then show ?thesis by (simp add: triple_def rounds_initialize_def on_turn_after_def vacant_def)
next
  case (Inr s)
  have s: "round_ok s" "\<not> rd_finished s"
    using start_ok(1)[OF Inr] Inr by (auto simp: start_round_def split: sum.splits dest!: restore_Inr)
  have fresh: "on_turn room s (with_round room s ts)" if "vacant room ts" "\<not> blank room" for ts :: "('a, 'b) turn_state"
    using fresh_round_ok[of ts room s] that s by (simp add: vacant_def on_turn_def)
  show ?thesis unfolding triple_def
  proof (intro allI impI)
    fix ts :: "('a, 'b) turn_state"
    assume v: "vacant room ts"
    then have ok: "clock_ok ts" by (simp add: vacant_def)
    show "on_turn_after room (fst (rounds_initialize room n players tot ts)) (snd (rounds_initialize room n players tot ts))"
      using fresh[OF v] ok Inr
      by (simp add: rounds_initialize_def initialize_round_def require_room_def on_store_app andThen_app on_turn_after_def with_round_def)
  qed
qed

lemma yacht_start_ok: "triple (vacant room) (yacht_start P room players host) (\<lambda>_. clock_ok)"
proof -
  have state: "aloof (broadcastState P room)" unfolding broadcastState_def by (intro aloof_intros)
  have phase: "aloof (mark_phase P room ph)" for ph by (simp add: aloof_def mark_phase_def same_clocks_def)
  have go: "triple (on_turn room s) (andThen (mark_phase P room ''playing'') (\<lambda>_. andThen (broadcastState P room) (\<lambda>_.
        andThen (timer_start P room s) (\<lambda>_. ret ())))) (\<lambda>_. clock_ok)" for s
  proof (rule triple_skip[OF phase _ same_clocks_kept(1)], rule triple_skip[OF state _ same_clocks_kept(1)])
    show "triple (on_turn room s) (andThen (timer_start P room s) (\<lambda>_. ret ())) (\<lambda>_. clock_ok)"
      by (rule triple_andThen[where mid = "\<lambda>_. clock_ok"], rule triple_weaken[OF timer_start_ok])
        (auto intro: keeps_aloof aloof_simple split: sum.split)
  qed (auto simp: on_turn_def)
  have body: "triple (vacant room) (andThen (rounds_initialize room 1 (turnOrderOf players host) DEFAULT_TOTAL_ROUNDS) (\<lambda>s.
      andThen (mark_phase P room ''playing'') (\<lambda>_. andThen (broadcastState P room) (\<lambda>_.
        andThen (timer_start P room s) (\<lambda>_. ret ()))))) (\<lambda>_. clock_ok)"
    by (rule triple_andThen[OF _ go], rule triple_weaken[OF initialize_ok]) (auto simp: on_turn_after_def split: sum.splits)
  have undo: "keeps_clocks (andThen (yacht_reset P room) (\<lambda>_. throw e))" for e
    by (rule keeps_andThen, rule triple_weaken[OF reset_ok]) (auto intro: clock_ok_base keeps_aloof aloof_simple)
  have catch: "triple (vacant room) (try_catch f h) (\<lambda>_. clock_ok)"
    if "triple (vacant room) f (\<lambda>_. clock_ok)" "\<And>e. keeps_clocks (h e)"
    for f :: "('w, 'e, 'b, unit) turn_cmd" and h
    using that unfolding triple_def try_catch_def by (auto split: sum.split prod.split)
  show ?thesis unfolding yacht_start_def
    by (rule triple_andThen[OF vacate_ok]) (auto intro!: catch body undo)
qed

lemma roll_ok: "keeps_clocks (yacht_roll P room p n k held m)"
proof -
  have cont: "triple (on_turn room s) (andThen (broadcast room msg) (\<lambda>_. andThen (timer_start P room s) (\<lambda>_. ret s))) (\<lambda>_. clock_ok)" for s msg
  proof (rule triple_skip[OF aloof_simple(3) _ same_clocks_kept(1)])
    show "triple (on_turn room s) (andThen (timer_start P room s) (\<lambda>_. ret s)) (\<lambda>_. clock_ok)"
      by (rule triple_andThen[where mid = "\<lambda>_. clock_ok"], rule triple_weaken[OF timer_start_ok])
        (auto intro: keeps_aloof aloof_simple split: sum.split)
  qed (auto simp: on_turn_def)
  have recorded: "triple clock_ok (rounds_recordRoll P room p n k held) (on_turn_after room)"
    unfolding rounds_recordRoll_def
    by (rule triple_andThen[where mid = "\<lambda>_. clock_ok"], rule triple_weaken[OF keeps_aloof[OF aloof_roll]])
      (auto simp: on_turn_after_def recordRoll_store_ok split: sum.split)
  show ?thesis unfolding yacht_roll_def
    by (rule triple_andThen[OF _ cont], rule triple_weaken[OF recorded]) (auto simp: on_turn_after_def split: sum.splits)
qed

lemma hold_ok: "keeps_clocks (yacht_hold room p n held m)"
  unfolding yacht_hold_def rounds_recordHold_def
  by (rule triple_andThen[where mid = "\<lambda>_. clock_ok"], rule triple_weaken[OF recordHold_store_ok])
    (auto simp: on_turn_after_def on_turn_def intro: keeps_aloof aloof_andThen aloof_simple split: sum.splits)

lemma submitScore_ok: "keeps_clocks (yacht_submitScore P room p n dice category m)"
proof -
  have cont: "triple (ended room (snd result)) (andThen (timer_advanceTurn P m room result) (\<lambda>_. ret result)) (\<lambda>_. clock_ok)" for result
    by (rule triple_andThen[where mid = "\<lambda>_. clock_ok"], cases result, simp only: prod.sel, rule triple_weaken[OF timer_advance_ok])
      (auto intro: keeps_aloof aloof_simple split: sum.split)
  show ?thesis unfolding yacht_submitScore_def
    by (rule triple_andThen[OF _ cont], rule triple_weaken[OF submission_ok]) (auto split: sum.splits)
qed

lemma resume_ok: "keeps_clocks (yacht_resume P room)"
proof -
  have start: "triple (\<lambda>ts. clock_ok ts \<and> map_of (ts_rounds ts) room = found) (case found of None \<Rightarrow> ret ()
     | Some s \<Rightarrow> if rd_finished s then ret () else andThen (timer_start P room s) (\<lambda>_. ret ())) (\<lambda>_. clock_ok)" for found
  proof (cases "\<exists>s. found = Some s \<and> \<not> rd_finished s")
    case True
    then obtain s where s: "found = Some s" "\<not> rd_finished s" by blast
    have "triple (on_turn room s) (andThen (timer_start P room s) (\<lambda>_. ret ())) (\<lambda>_. clock_ok)"
      by (rule triple_andThen[where mid = "\<lambda>_. clock_ok"], rule triple_weaken[OF timer_start_ok])
        (auto intro: keeps_aloof aloof_simple split: sum.split)
    from triple_weaken[OF this, of "\<lambda>ts. clock_ok ts \<and> map_of (ts_rounds ts) room = found" "\<lambda>_. clock_ok"]
    show ?thesis using s by (simp add: on_turn_def)
  next
    case False
    have "triple (\<lambda>ts. clock_ok ts \<and> map_of (ts_rounds ts) room = found) (ret ()) (\<lambda>_. clock_ok)" by (simp add: triple_def)
    then show ?thesis using False by (auto split: option.split)
  qed
  show ?thesis unfolding yacht_resume_def by (rule triple_andThen[OF find_ok start])
qed

lemma rehydrate_ok: "keeps_clocks (yacht_rehydrate P room)"
proof -
  have begun: "triple (on_turn room s) (andThen (beginTurn P (\<lambda>_ _. ret ()) room s restored) (\<lambda>_. ret True)) (\<lambda>_. clock_ok)" for s restored
    by (rule triple_andThen[where mid = "\<lambda>_. clock_ok"], rule triple_weaken[OF begin_ok])
      (auto intro: keeps_aloof aloof_simple split: sum.split)
  have resume: "triple (on_turn room s) (resumeFromStored P room s) (\<lambda>_. clock_ok)" for s
    using begun by (auto simp: triple_def resumeFromStored_def on_turn_def split: option.split prod.split)
  have cont: "triple (on_turn room s) (andThen (resumeFromStored P room s) (\<lambda>resumed. if resumed then ret () else throw NotResumable)) (\<lambda>_. clock_ok)" for s
    by (rule triple_andThen[where mid = "\<lambda>_. clock_ok"], rule triple_weaken[OF resume])
      (auto intro: keeps_aloof aloof_simple split: sum.split)
  have "triple (\<lambda>ts. clock_ok ts \<and> map_of (ts_rounds ts) room = found) (case found of None \<Rightarrow> throw NotResumable
     | Some s \<Rightarrow> if rd_finished s then throw NotResumable
       else andThen (resumeFromStored P room s) (\<lambda>resumed. if resumed then ret () else throw NotResumable)) (\<lambda>_. clock_ok)" for found
    using cont by (auto simp: triple_def on_turn_def split: option.split)
  then show ?thesis unfolding yacht_rehydrate_def by (rule triple_andThen[OF find_ok])
qed

lemma reconnect_ok: "keeps_clocks (yacht_reconnect P room p)"
  unfolding yacht_reconnect_def by (intro keeps_aloof aloof_andThen aloof_in_world aloof_clear)

text \<open>The states the module can get into. A game is started only in a room without a live one, which the room's
  START script ensures.\<close>

definition yacht_boot :: "int \<Rightarrow> 'w \<Rightarrow> ('w, 'b) turn_state" where
  "yacht_boot now w = \<lparr>ts_rounds = [], ts_scheduler = idle_scheduler now, ts_deadlines = [], activeDeadlines = [],
     misses = [], ts_sent = [], ts_begun = [], ts_warnings = [], ts_world = w\<rparr>"

inductive yacht_reachable :: "('w, 'e, 'b) turn_ports \<Rightarrow> ('w, 'b) turn_state \<Rightarrow> bool" for P where
  boot: "yacht_reachable P (yacht_boot now w)"
| event: "yacht_reachable P ts \<Longrightarrow> \<forall>room players host. e = Begin room players host \<longrightarrow> turn_of (map_of (ts_rounds ts) room) = None
    \<Longrightarrow> yacht_reachable P (yacht_step P e ts)"

lemma idle_entry: "node.in_step (idle_scheduler now)" "clock_entry (idle_scheduler now) room = None"
  using node.in_step_new[of "\<lparr>pending = [], next_timer = 0, node_clock = now\<rparr>"]
  by (simp_all add: idle_scheduler_def new_scheduler_def clock_entry_def node_proper_def fun_eq_iff)

lemma yacht_event_ok:
  fixes P :: "('w, 'e, 'b) turn_ports"
  assumes ok: "clock_ok ts" and start: "\<forall>room players host. e = Begin room players host \<longrightarrow> turn_of (map_of (ts_rounds ts) room) = None"
  shows "clock_ok (yacht_step P e ts)"
proof (cases e)
  case (Begin room players host)
  then show ?thesis using yacht_start_ok[of room P players host, unfolded triple_def, rule_format, of ts] ok start
    by (simp add: vacant_def)
next
  case (Pauses room)
  then show ?thesis using cancelRoom_ok(1)[OF clock_ok_base[OF ok], of room, where 'e = 'e] by (simp add: yacht_pause_def unclocked_ok)
next
  case (Resets room)
  then show ?thesis using reset_ok[unfolded triple_def, rule_format, OF clock_ok_base[OF ok]] by simp
next
  case (Closes room)
  then show ?thesis using close_ok[unfolded triple_def, rule_format, OF clock_ok_base[OF ok]] by simp
next
  case (Elapsed d)
  have "node.in_step (ts_scheduler ts)" using ok by (simp add: clock_ok_def)
  from clock_entry_elapse[OF this refl, of d] show ?thesis using ok Elapsed by (simp add: clock_ok_def clocks_on_def)
next
  case (Outside f)
  then show ?thesis using ok same_clocks_ok[of ts "ts\<lparr>ts_world := f (ts_world ts)\<rparr>"] by (simp add: same_clocks_def)
next
  case Restarted
  then show ?thesis using ok by (simp add: restart_def clock_ok_def clocks_on_def idle_entry)
qed (use ok keepsD[OF roll_ok] keepsD[OF hold_ok] keepsD[OF submitScore_ok] keepsD[OF timer_remove_ok] keepsD[OF reconnect_ok]
  keepsD[OF resume_ok] keepsD[OF rehydrate_ok] timer_expires_ok in \<open>simp_all add: yacht_removePlayer_def\<close>)

lemma reachable_clock_ok: "yacht_reachable P ts \<Longrightarrow> clock_ok ts"
proof (induction rule: yacht_reachable.induct)
  case (boot now w)
  then show ?case by (simp add: yacht_boot_def clock_ok_def rounds_ok_def clocks_on_def idle_entry)
next
  case (event ts e)
  then show ?case by (intro yacht_event_ok)
qed

lemma turn_of_Some: "turn_of s = Some (n, p) \<longleftrightarrow> (\<exists>r. s = Some r \<and> \<not> rd_finished r \<and> roundNumber r = n \<and> activePlayerId r = Inr p)"
  by (auto simp: turn_of_def split: option.splits sum.splits if_splits)

end
