(* ===== verification/YachtTheorems.thy ===== *)
theory YachtTheorems
  imports YachtInvariant
begin

text \<open>
  What the turn clock guarantees over whole runs of the module: the clocks of a room belong to the turn being
  played, a turn starts with its clock, and a restart resumes a turn with the deadline it had.
\<close>

section \<open>A calm table\<close>

definition calm_room :: round_room where
  "calm_room = \<lparr>room_gameCode = Some ''YACHT'', room_gameId = Some ''g1'', room_players =
     [\<lparr>seat_playerId = ''ann'', seat_kind = ''HUMAN''\<rparr>, \<lparr>seat_playerId = ''bob'', seat_kind = ''HUMAN''\<rparr>]\<rparr>"

text \<open>Everyone is online and nothing fails.\<close>

definition calm_ports :: "(nat, string, unit) turn_ports" where
  "calm_ports = \<lparr>getSnapshot = (\<lambda>_. ret (Some calm_room)), touch = (\<lambda>_. ret ()), leave = (\<lambda>_ _. ret ()),
     find_status = (\<lambda>_ _ _. Some ''online''), seat_removal = (\<lambda>_ _ w. (True, w)), markPhase = (\<lambda>_ _ w. w),
     confirm_score = (\<lambda>_ _ _ _ _. ret ()), open_categories = (\<lambda>_ _. ret [''choice'']),
     completion_finish = (\<lambda>_ _ _. ret False), readTotals = (\<lambda>_. ret []),
     match_archive = (\<lambda>_ _. ret ()), live_snapshot = (\<lambda>_. ret ()),
     die_roller = (\<lambda>w. (int (w mod 6) + 1, w + 1)), categoryPicker = (\<lambda>n w. (0, w))\<rparr>"

definition calm_table :: "(nat, unit) turn_state" where
  "calm_table = yacht_step calm_ports (Begin ''R'' [''bob'', ''ann''] (Some ''ann'')) (yacht_boot 1000 0)"

lemma calm_table_reachable: "yacht_reachable calm_ports calm_table"
  unfolding calm_table_def
  by (rule yacht_reachable.event[OF yacht_reachable.boot]) (simp add: yacht_boot_def turn_of_def)

lemma calm_start: "start_round 1 (turnOrderOf [''bob'', ''ann''] (Some ''ann'')) DEFAULT_TOTAL_ROUNDS
  = Inr \<lparr>roundNumber = 1, totalRounds = 12, participantOrder = [''ann'', ''bob''], submissions = [], activePlayerIndex = 0,
      activeRollCount = 0, activeDice = None, activeHeld = None, rd_finished = False\<rparr>"
  by code_simp

lemma not_blank_R: "\<not> blank ''R''" by code_simp

lemma calm_timer: "map_of (pending (executor_state (ts_scheduler calm_table))) 0
  = Some (27000, \<lparr>t_room = ''R'', t_round = 1, t_generation = 1, t_action = ''ann''\<rparr>)"
  by (simp add: calm_table_def yacht_boot_def yacht_start_def andThen_app try_catch_def rounds_remove_def on_store_app remove_round_def
      require_room_def rounds_initialize_def calm_start initialize_round_def mark_phase_def broadcastState_def in_world_def
      broadcast_def timer_start_def start_fuel_def Let_def beginTurn_def calm_ports_def activePlayerId_def isOffline_def isBot_def
      calm_room_def armTurn_def isUntimedRoom_def UNTIMED_HUMAN_LIMIT_def clock_now_def schedule_def idle_scheduler_def
      new_scheduler_def timerDeadlineExecutor_def node_delay_def cancelQuietly_def ROUND_DURATION_MS_def EXPIRY_GRACE_MS_def has_key_def not_blank_R)

section \<open>The clocks belong to the turn\<close>

text \<open>C26: whatever happens - players rolling, submitting and leaving, timers going off, restarts, ports that throw
  in the middle of a call - a timer that waits is for the player and round a live game is at, a room has at most
  one, and the deadlines shown and stored for a room are those of the round its live game is at.\<close>

theorem clocks_belong_to_the_turn:
  assumes "yacht_reachable P ts"
  shows "(\<forall>h due t. map_of (pending (executor_state (ts_scheduler ts))) h = Some (due, t) \<longrightarrow>
        (\<exists>s. map_of (ts_rounds ts) (t_room t) = Some s \<and> \<not> rd_finished s \<and> roundNumber s = t_round t \<and> activePlayerId s = Inr (t_action t))
        \<and> (\<forall>h' due' t'. map_of (pending (executor_state (ts_scheduler ts))) h' = Some (due', t') \<and> t_room t' = t_room t \<longrightarrow> h' = h))
    \<and> (\<forall>room n d. map_of (activeDeadlines ts) room = Some (n, d) \<or> map_of (ts_deadlines ts) room = Some (n, d) \<longrightarrow>
        (\<exists>s. map_of (ts_rounds ts) room = Some s \<and> \<not> rd_finished s \<and> roundNumber s = n))"
proof (intro conjI allI impI)
  have ok: "clock_ok ts" by (rule reachable_clock_ok[OF assms])
  have step: "node.in_step (ts_scheduler ts)" and on: "clocks_on ts r (turn_of (map_of (ts_rounds ts) r))" for r
    using ok by (simp_all add: clock_ok_def)
  fix h due t assume w: "map_of (pending (executor_state (ts_scheduler ts))) h = Some (due, t)"
  then have "clock_entry (ts_scheduler ts) (t_room t) = Some (due, t)" using clock_entry_iff[OF step] by blast
  then have "turn_of (map_of (ts_rounds ts) (t_room t)) = Some (t_round t, t_action t)" using on by (simp add: clocks_on_def)
  then show "\<exists>s. map_of (ts_rounds ts) (t_room t) = Some s \<and> \<not> rd_finished s \<and> roundNumber s = t_round t \<and> activePlayerId s = Inr (t_action t)"
    by (simp add: turn_of_Some)
  fix h' due' t' assume w': "map_of (pending (executor_state (ts_scheduler ts))) h' = Some (due', t') \<and> t_room t' = t_room t"
  have "node_waiting (executor_state (ts_scheduler ts)) h' = Some (due', t')" "node_waiting (executor_state (ts_scheduler ts)) h = Some (due, t)"
    using w w' by simp_all
  from this[THEN node.in_step_waiting[OF step]] w' show "h' = h" by (simp del: node_waiting.simps)
next
  fix room n d
  assume d: "map_of (activeDeadlines ts) room = Some (n, d) \<or> map_of (ts_deadlines ts) room = Some (n, d)"
  have "clocks_on ts room (turn_of (map_of (ts_rounds ts) room))" using reachable_clock_ok[OF assms] by (simp add: clock_ok_def)
  then have "map_option fst (turn_of (map_of (ts_rounds ts) room)) = Some n" using d unfolding clocks_on_def by blast
  then obtain p where "turn_of (map_of (ts_rounds ts) room) = Some (n, p)" by auto
  then show "\<exists>s. map_of (ts_rounds ts) room = Some s \<and> \<not> rd_finished s \<and> roundNumber s = n" by (auto simp: turn_of_Some)
qed


lemma clocks_belong_to_the_turn_witness:
  "\<exists>s. map_of (ts_rounds calm_table) ''R'' = Some s \<and> \<not> rd_finished s \<and> roundNumber s = 1 \<and> activePlayerId s = Inr ''ann''"
  using clocks_belong_to_the_turn[OF calm_table_reachable] calm_timer by fastforce

section \<open>A turn starts with its clock\<close>

lemma fresh_start_fuel: "start_fuel room ts = Suc (turns_fuel (map_of (ts_rounds ts) room))"
  by (simp add: start_fuel_def)

lemma online_turn:
  fixes ts :: "('w, 'b) turn_state" and P :: "('w, 'e, 'b) turn_ports"
  assumes "activePlayerId s = Inr p" "getSnapshot P room (ts_world ts) = (Inr rm, w1)" "touch P room w1 = (Inr (), w2)"
    and "restored \<noteq> None \<or> isBot rm p \<or> (\<exists>status. find_status P w1 room p = Some status \<and> status \<noteq> ''offline'')"
  shows "beginTurn P handle room s restored ts
    = andThen (armTurn room s rm restored) (\<lambda>deadline ts. (Inr deadline, ts\<lparr>ts_begun := ts_begun ts @ [(room, s)]\<rparr>)) (ts\<lparr>ts_world := w2\<rparr>)"
  using assms by (auto simp: beginTurn_def andThen_app in_world_def isOffline_def split: option.splits)

text \<open>C27: when a player who is here, or a bot, begins a turn, the round's deadline is shown, stored and announced with
  the seating order: 25 seconds from now, or none when the room has one human at most. The server moves the turn
  on a second later; so it does, after the same time, for a bot without a deadline. A human without a deadline
  gets no new timer - a timer that was set for this turn before stays.\<close>

theorem turn_starts_with_its_clock:
  fixes ts :: "('w, 'b) turn_state" and P :: "('w, 'e, 'b) turn_ports"
  assumes "yacht_reachable P ts" "map_of (ts_rounds ts) room = Some s" "\<not> rd_finished s" "activePlayerId s = Inr p"
    and "getSnapshot P room (ts_world ts) = (Inr rm, w1)" "touch P room w1 = (Inr (), w2)"
    and "isBot rm p \<or> (\<exists>status. find_status P w1 room p = Some status \<and> status \<noteq> ''offline'')"
  defines "deadline \<equiv> (if isUntimedRoom rm then None else Some (clock_now ts + 25000))"
  shows "\<exists>ts'. timer_start P room s ts = (Inr deadline, ts')
    \<and> currentDeadline ts' room = Some deadline \<and> map_of (ts_deadlines ts') room = Some (roundNumber s, deadline)
    \<and> ts_sent ts' = ts_sent ts @ [(room, RoundStart (roundNumber s) deadline p (participantOrder s))]
    \<and> ts_rounds ts' = ts_rounds ts
    \<and> clock_entry (ts_scheduler ts') room = (if deadline = None \<and> \<not> isBot rm p then clock_entry (ts_scheduler ts) room
        else Some (clock_now ts + 26000, \<lparr>t_room = room, t_round = roundNumber s, t_generation = generations (ts_scheduler ts) + 1, t_action = p\<rparr>))"
proof -
  have ok: "clock_ok ts" by (rule reachable_clock_ok[OF assms(1)])
  have s: "round_ok s" "\<not> blank room" using clock_ok_stored[OF ok assms(2)] by simp_all
  define ts0 where "ts0 = ts\<lparr>ts_world := w2\<rparr>"
  have step: "node.in_step (ts_scheduler ts0)" using ok by (simp add: clock_ok_def ts0_def)
  have now: "clock_now ts0 = clock_now ts" by (simp add: ts0_def clock_now_def)
  have shown: "shown_deadline rm None (clock_now ts0) = deadline" by (simp add: shown_deadline_def deadline_def now ROUND_DURATION_MS_def)
  have forced: "forced_at rm p None (clock_now ts0) = (if deadline = None \<and> \<not> isBot rm p then None else Some (clock_now ts + 26000))"
    unfolding forced_at_def shown by (auto simp: deadline_def now ROUND_DURATION_MS_def EXPIRY_GRACE_MS_def)
  obtain ts' where e: "(armTurn room s rm None :: ('w, 'e, 'b, int option) turn_cmd) ts0 = (Inr deadline, ts')"
    "ts_rounds ts' = ts_rounds ts0"
    "activeDeadlines ts' = AList.update room (roundNumber s, deadline) (activeDeadlines ts0)"
    "ts_deadlines ts' = (if None = (None :: int option option) then AList.update room (roundNumber s, deadline) (ts_deadlines ts0) else ts_deadlines ts0)"
    "ts_sent ts' = ts_sent ts0 @ [(room, RoundStart (roundNumber s) deadline p (participantOrder s))]"
    "clock_entry (ts_scheduler ts') room = (case forced_at rm p None (clock_now ts0) of None \<Rightarrow> clock_entry (ts_scheduler ts0) room
      | Some t \<Rightarrow> Some (clock_now ts0 + node_delay (max 0 (t - clock_now ts0)),
          \<lparr>t_room = room, t_round = roundNumber s, t_generation = generations (ts_scheduler ts0) + 1, t_action = p\<rparr>))"
    by (rule armTurn_effect[where 'e = 'e and rm = rm and restored = None, OF step s assms(4) shown[symmetric]]) (rule that; assumption)
  have "timer_start P room s ts = (Inr deadline, ts'\<lparr>ts_begun := ts_begun ts' @ [(room, s)]\<rparr>)"
    using online_turn[OF assms(4-6), of None] assms(7) e(1)
    by (simp add: timer_start_def start_fuel_def Let_def andThen_app ts0_def)
  moreover have "clock_entry (ts_scheduler ts') room = (if deadline = None \<and> \<not> isBot rm p then clock_entry (ts_scheduler ts) room
        else Some (clock_now ts + 26000, \<lparr>t_room = room, t_round = roundNumber s, t_generation = generations (ts_scheduler ts) + 1, t_action = p\<rparr>))"
    unfolding e(6) forced unfolding now by (simp add: ts0_def node_delay_def)
  ultimately show ?thesis using e by (simp add: currentDeadline_def ts0_def)
qed

lemma calm_state: "map_of (ts_rounds calm_table) ''R'' = Some \<lparr>roundNumber = 1, totalRounds = 12, participantOrder = [''ann'', ''bob''],
    submissions = [], activePlayerIndex = 0, activeRollCount = 0, activeDice = None, activeHeld = None, rd_finished = False\<rparr>"
    "clock_now calm_table = 1000" "generations (ts_scheduler calm_table) = 1" "map_of (ts_deadlines calm_table) ''R'' = Some (1, Some 26000)"
  by (simp_all add: calm_table_def yacht_boot_def yacht_start_def andThen_app try_catch_def rounds_remove_def on_store_app remove_round_def
      require_room_def rounds_initialize_def calm_start initialize_round_def mark_phase_def broadcastState_def in_world_def
      broadcast_def timer_start_def start_fuel_def Let_def beginTurn_def calm_ports_def activePlayerId_def isOffline_def isBot_def
      calm_room_def armTurn_def isUntimedRoom_def UNTIMED_HUMAN_LIMIT_def clock_now_def schedule_def idle_scheduler_def
      new_scheduler_def timerDeadlineExecutor_def node_delay_def cancelQuietly_def ROUND_DURATION_MS_def EXPIRY_GRACE_MS_def has_key_def not_blank_R)

lemma calm_calls: "getSnapshot calm_ports room w = (Inr (Some calm_room), w)" "touch calm_ports room w = (Inr (), w)"
    "find_status calm_ports w room p = Some ''online''" "isUntimedRoom (Some calm_room) = False" "isBot (Some calm_room) p = False"
  by (simp_all add: calm_ports_def calm_room_def isUntimedRoom_def UNTIMED_HUMAN_LIMIT_def isBot_def)

lemma turn_starts_with_its_clock_witness:
  "\<exists>ts'. timer_start calm_ports ''R'' (the (map_of (ts_rounds calm_table) ''R'')) calm_table = (Inr (Some 26000), ts')
    \<and> clock_entry (ts_scheduler ts') ''R'' = Some (27000, \<lparr>t_room = ''R'', t_round = 1, t_generation = 2, t_action = ''ann''\<rparr>)"
  using turn_starts_with_its_clock[OF calm_table_reachable calm_state(1), of "''ann''" "Some calm_room"]
  by (auto simp: calm_state calm_calls activePlayerId_def numeral_2_eq_2)

section \<open>A restart\<close>

text \<open>C28: after a restart of the process the turn of a room goes on with the deadline stored for it: the same deadline
  is shown and announced again, the server moves the turn on a second after it (at once when that has passed), and
  a player who is not back yet is not counted as absent.\<close>

theorem restart_resumes_the_turn:
  fixes ts :: "('w, 'b) turn_state" and P :: "('w, 'e, 'b) turn_ports"
  assumes "yacht_reachable P ts" "map_of (ts_rounds ts) room = Some s" "\<not> rd_finished s" "activePlayerId s = Inr p"
    and "map_of (ts_deadlines ts) room = Some (n, d)"
    and "getSnapshot P room (ts_world ts) = (Inr rm, w1)" "touch P room w1 = (Inr (), w2)"
  shows "\<exists>ts'. yacht_rehydrate P room (restart ts) = (Inr (), ts') \<and> n = roundNumber s
    \<and> currentDeadline ts' room = Some d \<and> ts_rounds ts' = ts_rounds ts \<and> ts_deadlines ts' = ts_deadlines ts
    \<and> misses ts' = [] \<and> ts_sent ts' = ts_sent ts @ [(room, RoundStart n d p (participantOrder s))]
    \<and> map_option fst (clock_entry (ts_scheduler ts') room) = (case d of Some t \<Rightarrow> Some (clock_now ts + node_delay (max 0 (t + 1000 - clock_now ts)))
        | None \<Rightarrow> if isBot rm p then Some (clock_now ts + 26000) else None)"
proof -
  have ok: "clock_ok ts" by (rule reachable_clock_ok[OF assms(1)])
  have s: "round_ok s" "\<not> blank room" using clock_ok_stored[OF ok assms(2)] by simp_all
  have "clocks_on ts room (turn_of (Some s))" using ok assms(2) by (metis clock_ok_def)
  then have n: "n = roundNumber s" using assms(3-5) by (auto simp: clocks_on_def turn_of_def)
  define ts0 where "ts0 = (restart ts)\<lparr>ts_world := w2\<rparr>"
  have now: "clock_now ts0 = clock_now ts" by (simp add: ts0_def restart_def clock_now_def idle_scheduler_def new_scheduler_def)
  have step: "node.in_step (ts_scheduler ts0)" by (simp add: ts0_def restart_def idle_entry)
  have shown: "shown_deadline rm (Some d) (clock_now ts0) = d" by (simp add: shown_deadline_def)
  have forced: "forced_at rm p (Some d) (clock_now ts0) = (case d of Some t \<Rightarrow> Some (t + 1000) | None \<Rightarrow> if isBot rm p then Some (clock_now ts + 26000) else None)"
    unfolding forced_at_def shown by (simp add: now ROUND_DURATION_MS_def EXPIRY_GRACE_MS_def split: option.split)
  obtain ts' where e: "(armTurn room s rm (Some d) :: ('w, 'e, 'b, int option) turn_cmd) ts0 = (Inr d, ts')"
    "ts_rounds ts' = ts_rounds ts0" "activeDeadlines ts' = AList.update room (roundNumber s, d) (activeDeadlines ts0)"
    "ts_deadlines ts' = (if Some d = None then AList.update room (roundNumber s, d) (ts_deadlines ts0) else ts_deadlines ts0)"
    "ts_sent ts' = ts_sent ts0 @ [(room, RoundStart (roundNumber s) d p (participantOrder s))]"
    "clock_entry (ts_scheduler ts') room = (case forced_at rm p (Some d) (clock_now ts0) of None \<Rightarrow> clock_entry (ts_scheduler ts0) room
      | Some t \<Rightarrow> Some (clock_now ts0 + node_delay (max 0 (t - clock_now ts0)),
          \<lparr>t_room = room, t_round = roundNumber s, t_generation = generations (ts_scheduler ts0) + 1, t_action = p\<rparr>))"
    by (rule armTurn_effect[where 'e = 'e and rm = rm and restored = "Some d", OF step s assms(4) shown[symmetric]]) (rule that; assumption)
  have misses: "misses ts' = misses ts0"
    using e(1) assms(4) by (auto simp: armTurn_def Let_def andThen_app broadcast_def split: sum.splits option.splits if_splits)
  have run: "yacht_rehydrate P room (restart ts) = (Inr (), ts'\<lparr>ts_begun := ts_begun ts' @ [(room, s)]\<rparr>)"
    using online_turn[of s p P room "restart ts" rm w1 w2 "Some d" "\<lambda>_ _. ret ()"] assms(2-7) s(2) e(1) n
    by (simp add: yacht_rehydrate_def rounds_find_app resumeFromStored_def andThen_app restart_def ts0_def)
  have "map_option fst (clock_entry (ts_scheduler ts') room) = (case d of Some t \<Rightarrow> Some (clock_now ts + node_delay (max 0 (t + 1000 - clock_now ts)))
        | None \<Rightarrow> if isBot rm p then Some (clock_now ts + 26000) else None)"
    unfolding e(6) forced unfolding now by (simp add: ts0_def restart_def idle_entry node_delay_def split: option.split)
  then show ?thesis using run e misses n by (simp add: currentDeadline_def ts0_def restart_def)
qed

lemma restart_resumes_the_turn_witness:
  "\<exists>ts'. yacht_rehydrate calm_ports ''R'' (restart calm_table) = (Inr (), ts') \<and> currentDeadline ts' ''R'' = Some (Some 26000)
    \<and> map_option fst (clock_entry (ts_scheduler ts') ''R'') = Some 27000"
  using restart_resumes_the_turn[OF calm_table_reachable calm_state(1), of "''ann''" 1 "Some 26000" "Some calm_room"]
  by (auto simp: calm_state calm_calls activePlayerId_def node_delay_def)

end
