(* ===== verification/Platform.thy ===== *)
theory Platform
  imports RoomTheorems
begin

text \<open>
  The services over the store: their errors (\<open>errors.ts\<close>, \<open>user/errors.ts\<close>, \<open>room/botService.ts\<close>), the reading and
  writing methods of \<open>MemoryRedis\<close> (\<open>memoryRedis.ts\<close>; writing ones are counted), and what the commands do to
  the entries that can be seen, outside atomic scripts. An awaited call runs to its end.
\<close>

section \<open>Errors and store access\<close>

text \<open>\<open>SessionAuthenticationError\<close> and \<open>InvalidNicknameError\<close> are classes below \<open>DomainError\<close>. \<open>OtherError\<close> is an error
  without a code, with its message.\<close>

datatype platform_error =
    Coded coded_error
  | ForbiddenError string
  | SessionAuthenticationError
  | InvalidNicknameError
  | StoreFailed redis_error
  | OtherError string

fun is_domain_error :: "platform_error \<Rightarrow> string option" where
  "is_domain_error (Coded (DomainError code)) = Some code"
| "is_domain_error SessionAuthenticationError = Some ''invalid_guest_session''"
| "is_domain_error InvalidNicknameError = Some ''invalid_nickname''"
| "is_domain_error _ = None"

fun is_conflict_error :: "platform_error \<Rightarrow> string option" where
  "is_conflict_error (Coded (ConflictError code)) = Some code"
| "is_conflict_error _ = None"

abbreviation domain_error :: "string \<Rightarrow> platform_error" where
  "domain_error code \<equiv> Coded (DomainError code)"

abbreviation conflict_error :: "string \<Rightarrow> platform_error" where
  "conflict_error code \<equiv> Coded (ConflictError code)"

type_synonym 'a platform = "(memory_redis, platform_error, 'a) cmd"

definition read_store :: "'a redis \<Rightarrow> 'a platform" where
  "read_store f m = (case f (core m) of (r, s) \<Rightarrow> (map_sum StoreFailed id r, m\<lparr>core := s\<rparr>))"

definition write_store :: "'a redis \<Rightarrow> 'a platform" where
  "write_store f m = (case f (core m) of (r, s) \<Rightarrow> (map_sum StoreFailed id r, m\<lparr>core := s, changes := changes m + 1\<rparr>))"

definition run_script :: "'a atomic_script \<Rightarrow> string list \<Rightarrow> redis_field list \<Rightarrow> 'a platform" where
  "run_script script keys args m = (case runAtomic script keys args m of (r, m') \<Rightarrow> (map_sum StoreFailed id r, m'))"

definition call_room :: "string \<Rightarrow> room_call \<Rightarrow> int platform" where
  "call_room c call m = (case perform c call m of (r, m') \<Rightarrow> (map_sum StoreFailed id r, m'))"

section \<open>The commands outside scripts\<close>

text \<open>Between scripts: a well-formed store with no script running.\<close>

definition calm :: "keyspace \<Rightarrow> bool" where
  "calm s = (wf_store s \<and> scriptCreates s = None)"

text \<open>The same entries can be seen at the same time.\<close>

definition same_sight :: "keyspace \<Rightarrow> keyspace \<Rightarrow> bool" where
  "same_sight s t = (calm t \<and> visible t = visible s \<and> now t = now s)"

named_theorems calm_intros \<open>commands on calm stores\<close>

lemma wf_store_live: "wf_store s \<Longrightarrow> wf_store (snd (live k s))"
  by (auto simp: live_def wf_store_drop split: option.split)

lemma calm_live [simp]: "calm s \<Longrightarrow> calm (snd (live k s))"
  by (simp add: calm_def wf_store_live)

lemma sight_live: "calm s \<Longrightarrow> same_sight s (snd (live k s))"
  by (simp add: same_sight_def)

lemma same_sight_refl [simp]: "same_sight s s \<longleftrightarrow> calm s" by (auto simp: same_sight_def)

lemma same_sight_trans: "same_sight s t \<Longrightarrow> same_sight t u \<Longrightarrow> same_sight s u"
  by (simp add: same_sight_def)

lemma same_sightD:
  assumes "same_sight s t"
  shows "calm t" "visible t = visible s" "now t = now s" "hash_fields t = hash_fields s" "hash_typed t = hash_typed s"
    "key_expiry t = key_expiry s" "present t = present s"
  using assms by (auto simp: same_sight_def hash_fields_def hash_typed_def key_expiry_def present_def fun_eq_iff)

text \<open>The entry behind a key is replaced or removed.\<close>

definition sees_put :: "keyspace \<Rightarrow> string \<Rightarrow> redis_entry option \<Rightarrow> keyspace \<Rightarrow> bool" where
  "sees_put s k e t = (calm t \<and> visible t = (visible s)(k := e) \<and> now t = now s)"

lemma hash_read_calm:
  assumes "calm s" "hash_typed s k"
  shows "\<exists>t. hget k f s = (Inr (map_of (hash_fields s k) (field_string f)), t) \<and> same_sight s t"
    "\<exists>t. hgetall k s = (Inr (hash_fields s k), t) \<and> same_sight s t"
    "\<exists>t. hexists k f s = (Inr (if has_key (hash_fields s k) (field_string f) then 1 else 0), t) \<and> same_sight s t"
  using assms by (simp_all add: hget_app hgetall_app hexists_app sight_live)

lemma exists_calm:
  assumes "calm s" shows "\<exists>t. exists_keys [k] s = (Inr (if present s k then 1 else 0), t) \<and> same_sight s t"
  using sight_live[OF assms, of k] by (simp add: exists_one_app present_def)

lemma create_calm:
  assumes c: "calm s" and v: "visible s k = None" and e: "wf_value (e_value e)" "\<not> expired (now s) e"
  shows "(\<exists>t. create k e (snd (live k s)) = (Inl OOM_MESSAGE, t) \<and> same_sight s t)
    \<or> (\<exists>t. create k e (snd (live k s)) = (Inr (), t) \<and> sees_put s k (Some e) t \<and> map_of (data t) k = Some e)"
proof -
  let ?s = "snd (live k s)"
  have s: "calm ?s" "visible ?s = visible s" "now ?s = now s" "scriptCreates ?s = None" "wf_store ?s"
    using c by (simp_all add: calm_def wf_store_live)
  have ok: "sees_put s k (Some e) (put_entry k e u) \<and> map_of (data (put_entry k e u)) k = Some e"
    if "calm u" "visible u = visible s" "now u = now s" for u
    using that e by (simp add: sees_put_def calm_def wf_store_put visible_put)
  have sw: "calm (snd (sweepExpired ?s))" "visible (snd (sweepExpired ?s)) = visible s" "now (snd (sweepExpired ?s)) = now s"
    using s by (simp_all add: calm_def wf_store_sweep)
  show ?thesis using s sw ok[OF s(1-3)] ok[OF sw] has_key_live[of k s] v
    by (simp add: create_def Let_def same_sight_def)
qed

lemma put_value_calm:
  assumes c: "calm t" and m: "map_of (data t) k = Some e" and v: "wf_value v" and ne: "\<not> expired (now t) e"
  shows "fst (store_value k v t) = Inr ()" "sees_put t k (Some (e\<lparr>e_value := v\<rparr>)) (snd (store_value k v t))"
proof -
  have "\<not> expired (now t) (e\<lparr>e_value := v\<rparr>)" using ne by (simp add: expired_def)
  then show "fst (store_value k v t) = Inr ()" "sees_put t k (Some (e\<lparr>e_value := v\<rparr>)) (snd (store_value k v t))"
    using c m v by (simp_all add: store_value_def sees_put_def calm_def wf_store_put visible_put)
qed

text \<open>\<open>HSET\<close> refuses a new key when the store is full; otherwise the fields are set and the expiry stays.\<close>

lemma hset_calm:
  assumes c: "calm s" and ty: "hash_typed s k" and ps: "toPairs args = Inr ps"
  shows "(\<exists>t. hset k args s = (Inl OOM_MESSAGE, t) \<and> same_sight s t)
    \<or> (\<exists>n t. hset k args s = (Inr n, t) \<and> sees_put s k (Some \<lparr>e_value = HashV (set_fields ps (hash_fields s k)), expiresAt = key_expiry s k\<rparr>) t)"
proof -
  let ?h = "set_fields ps (hash_fields s k)"
  have wfh: "wf_value (HashV ?h)"
    using wf_hash_fields[of s k] c by (simp add: calm_def set_fields_def wf_map_fold_update)
  show ?thesis
  proof (cases "visible s k")
    case None
    let ?e = "\<lparr>e_value = HashV [], expiresAt = None\<rparr>"
    have h0: "hash_fields s k = []" "key_expiry s k = None" using None by (simp_all add: hash_fields_def key_expiry_def)
    have e: "wf_value (e_value ?e)" "\<not> expired (now s) ?e" by (simp_all add: expired_def)
    from create_calm[OF c None e] show ?thesis
    proof (elim disjE exE conjE)
      fix t assume "create k ?e (snd (live k s)) = (Inl OOM_MESSAGE, t)" "same_sight s t"
      then show ?thesis using None ty ps by (auto simp: hset_def hashForWrite_def hash_at_pair)
    next
      fix t assume t: "create k ?e (snd (live k s)) = (Inr (), t)" "sees_put s k (Some ?e) t" "map_of (data t) k = Some ?e"
      have t': "calm t" "now t = now s" "visible t = (visible s)(k \<mapsto> ?e)" using t(2) by (simp_all add: sees_put_def)
      note pv = put_value_calm[OF t'(1) t(3) wfh]
      have "hset k args s = (Inr (count_added ps []), snd (store_value k (HashV ?h) t))"
        using None ty ps t(1) pv(1) h0 by (simp add: hset_def hashForWrite_def hash_at_pair expired_def)
      moreover have "sees_put s k (Some \<lparr>e_value = HashV ?h, expiresAt = None\<rparr>) (snd (store_value k (HashV ?h) t))"
        using pv(2) t' by (simp add: sees_put_def expired_def)
      ultimately show ?thesis using h0 by auto
    qed
  next
    case (Some e)
    let ?t = "snd (live k s)"
    have m: "map_of (data ?t) k = Some e" using Some map_of_live[of k s] by simp
    have ne: "\<not> expired (now ?t) e" using Some expired_visible by simp
    note pv = put_value_calm[OF calm_live[OF c] m wfh ne]
    have ee: "e\<lparr>e_value := HashV ?h\<rparr> = \<lparr>e_value = HashV ?h, expiresAt = key_expiry s k\<rparr>"
      using Some by (cases e) (simp add: key_expiry_def)
    have "hset k args s = (Inr (count_added ps (hash_fields s k)), snd (store_value k (HashV ?h) ?t))"
      using Some ty ps pv(1) by (simp add: hset_def hashForWrite_def hash_at_pair)
    moreover have "sees_put s k (Some (e\<lparr>e_value := HashV ?h\<rparr>)) (snd (store_value k (HashV ?h) ?t))"
      using pv(2) by (simp add: sees_put_def)
    ultimately show ?thesis using ee by auto
  qed
qed

lemma hdel_calm:
  fixes fs :: "redis_field list"
  assumes c: "calm s" and ty: "hash_typed s k"
  defines "h' \<equiv> remove_fields (map field_string fs) (hash_fields s k)"
  shows "\<exists>n t. hdel k fs s = (Inr n, t) \<and> (if present s k
      then sees_put s k (if h' = [] then None else Some \<lparr>e_value = HashV h', expiresAt = key_expiry s k\<rparr>) t else same_sight s t)"
proof -
  note e = hdel_effect[OF ty, of fs, folded h'_def]
  have wf: "wf_store (snd (hdel k fs s))" using c by (auto simp: calm_def intro: wf.hdel)
  have "hdel k fs s = (Inr (count_removed (map field_string fs) (hash_fields s k)), snd (hdel k fs s))"
    using e(1) by (metis prod.collapse)
  moreover have "if present s k
      then sees_put s k (if h' = [] then None else Some \<lparr>e_value = HashV h', expiresAt = key_expiry s k\<rparr>) (snd (hdel k fs s))
      else same_sight s (snd (hdel k fs s))"
    using e wf c by (simp add: sees_put_def same_sight_def calm_def present_def view_put_hash_def)
  ultimately show ?thesis by blast
qed

lemma expire_calm:
  assumes c: "calm s" and n: "is_safe_integer n" "is_safe_integer (n * 1000)" "0 < n"
  shows "\<exists>r t. expire_key k (FNum n) s = (Inr r, t) \<and> (case visible s k of None \<Rightarrow> same_sight s t
    | Some e \<Rightarrow> sees_put s k (Some (e\<lparr>expiresAt := Some (now s + n * 1000)\<rparr>)) t)"
proof (cases "visible s k")
  case None
  then show ?thesis using n sight_live[OF c, of k] by (simp add: expire_key_def pexpire_def andThen_app)
next
  case (Some e)
  let ?e = "e\<lparr>expiresAt := Some (now s + n * 1000)\<rparr>" and ?t = "snd (live k s)"
  have m: "map_of (data ?t) k = Some e" using Some map_of_live[of k s] by simp
  have "wf_store ?t" using calm_live[OF c] by (simp add: calm_def)
  then have w: "wf_value (e_value ?e)" using wf_storeD[OF _ m] by simp
  have "expire_key k (FNum n) s = (Inr 1, put_entry k ?e ?t)" using Some n by (simp add: expire_key_def pexpire_def andThen_app)
  moreover have "sees_put s k (Some ?e) (put_entry k ?e ?t)"
    using calm_live[OF c, of k] w n(3) by (simp add: sees_put_def calm_def wf_store_put visible_put expired_def)
  ultimately show ?thesis using Some by simp
qed

lemma del_calm:
  assumes c: "calm s"
  shows "\<exists>n t. del_keys [k] s = (Inr n, t) \<and> sees_put s k None t"
proof (cases "visible s k")
  case None
  then have "visible s = (visible s)(k := None)" by auto
  then show ?thesis using None sight_live[OF c, of k] by (auto simp: andThen_app same_sight_def sees_put_def)
next
  case (Some e)
  then show ?thesis using calm_live[OF c, of k] by (simp add: andThen_app sees_put_def calm_def wf_store_drop visible_drop)
qed

text \<open>The text behind a key.\<close>

definition text_at :: "keyspace \<Rightarrow> string \<Rightarrow> string option" where
  "text_at s k = (case visible s k of None \<Rightarrow> None | Some e \<Rightarrow> (case e_value e of StringV v \<Rightarrow> Some v | _ \<Rightarrow> None))"

definition text_typed :: "keyspace \<Rightarrow> string \<Rightarrow> bool" where
  "text_typed s k = (case visible s k of None \<Rightarrow> True | Some e \<Rightarrow> (case e_value e of StringV v \<Rightarrow> True | _ \<Rightarrow> False))"

lemma get_calm:
  assumes "calm s" "text_typed s k"
  shows "\<exists>t. redis_get k s = (Inr (text_at s k), t) \<and> same_sight s t"
  using assms sight_live[of s k]
  by (auto simp: redis_get_def string_at_def text_typed_def text_at_def andThen_app split: option.splits redis_value.splits)

lemma set_ex_calm:
  assumes c: "calm s" and n: "is_safe_integer n" "0 < n"
  shows "(\<exists>t. redis_set k (FStr v) [FStr ''EX'', FNum n] s = (Inl OOM_MESSAGE, t) \<and> same_sight s t)
    \<or> (\<exists>t. redis_set k (FStr v) [FStr ''EX'', FNum n] s = (Inr True, t)
        \<and> sees_put s k (Some \<lparr>e_value = StringV v, expiresAt = Some (now s + n * 1000)\<rparr>) t)"
proof -
  let ?e = "\<lparr>e_value = StringV v, expiresAt = Some (now s + n * 1000)\<rparr>"
  have e: "wf_value (e_value ?e)" "\<not> expired (now s) ?e" using n(2) by (simp_all add: expired_def)
  have run: "redis_set k (FStr v) [FStr ''EX'', FNum n] s = (case visible s k of None \<Rightarrow> andThen (create k ?e) (\<lambda>_. ret True) (snd (live k s))
      | Some _ \<Rightarrow> (Inr True, put_entry k ?e (snd (live k s))))"
    using n by (simp add: redis_set_def upper_char_def Let_def andThen_app split: option.split)
  show ?thesis
  proof (cases "visible s k")
    case None
    from create_calm[OF c None e] show ?thesis
    proof (elim disjE exE conjE)
      fix t assume "create k ?e (snd (live k s)) = (Inl OOM_MESSAGE, t)" "same_sight s t"
      then show ?thesis using None by (simp add: run)
    next
      fix t assume "create k ?e (snd (live k s)) = (Inr (), t)" "sees_put s k (Some ?e) t"
      then show ?thesis using None by (simp add: run)
    qed
  next
    case (Some x)
    have "sees_put s k (Some ?e) (put_entry k ?e (snd (live k s)))"
      using calm_live[OF c, of k] e by (simp add: sees_put_def calm_def wf_store_put visible_put)
    then show ?thesis using Some by (simp add: run)
  qed
qed

text \<open>What is seen after a key was replaced.\<close>

lemma sees_putD:
  assumes "sees_put s k e t"
  shows "calm t" "now t = now s" "visible t = (visible s)(k := e)" "k' \<noteq> k \<Longrightarrow> hash_fields t k' = hash_fields s k'"
    "k' \<noteq> k \<Longrightarrow> hash_typed t k' = hash_typed s k'" "k' \<noteq> k \<Longrightarrow> text_at t k' = text_at s k'" "k' \<noteq> k \<Longrightarrow> text_typed t k' = text_typed s k'"
    "hash_fields t k = (case e of None \<Rightarrow> [] | Some x \<Rightarrow> (case e_value x of HashV h \<Rightarrow> h | _ \<Rightarrow> []))"
    "hash_typed t k = (case e of None \<Rightarrow> True | Some x \<Rightarrow> (case e_value x of HashV h \<Rightarrow> True | _ \<Rightarrow> False))"
    "text_at t k = (case e of None \<Rightarrow> None | Some x \<Rightarrow> (case e_value x of StringV v \<Rightarrow> Some v | _ \<Rightarrow> None))"
    "text_typed t k = (case e of None \<Rightarrow> True | Some x \<Rightarrow> (case e_value x of StringV v \<Rightarrow> True | _ \<Rightarrow> False))"
  using assms by (auto simp: sees_put_def hash_fields_def hash_typed_def text_at_def text_typed_def split: option.split redis_value.split)

lemma same_sight_text: "same_sight s t \<Longrightarrow> text_at t = text_at s" "same_sight s t \<Longrightarrow> text_typed t = text_typed s"
  by (auto simp: same_sight_def text_at_def text_typed_def fun_eq_iff)

end
