(* ===== verification/RoomService.thy ===== *)
theory RoomService
  imports Platform
begin

text \<open>
  The room services over the atomic scripts: \<open>RoomService\<close> (\<open>room/roomService.ts\<close>), the snapshots it returns
  (\<open>room/snapshot.ts\<close>) and the bots of a waiting room (\<open>room/botService.ts\<close>). Random codes and identifiers are
  arguments: \<open>createRoom\<close> gets the codes it will draw, in order.
\<close>

section \<open>Snapshots\<close>

datatype room_phase = LOBBY | PLAYING | FINISHED

datatype participant_kind = HUMAN | BOT

record player_snapshot =
  ps_playerId :: string
  ps_nickname :: string
  ps_score :: "int option"
  ps_kind :: participant_kind

text \<open>Numbers are what \<open>Number.parseInt\<close> makes of the stored text; \<open>None\<close> is NaN.\<close>

record room_snapshot =
  rs_roomCode :: "string option"
  rs_gameCode :: "string option"
  rs_gameId :: "string option"
  rs_hostId :: "string option"
  rs_phase :: "room_phase option"
  rs_capacity :: "int option"
  rs_players :: "player_snapshot list"

definition roomNotFound :: "string option \<Rightarrow> room_snapshot" where
  "roomNotFound roomCode = \<lparr>rs_roomCode = roomCode, rs_gameCode = None, rs_gameId = None, rs_hostId = None,
     rs_phase = None, rs_capacity = Some 0, rs_players = []\<rparr>"

text \<open>\<open>Number.parseInt(text, 10)\<close>: leading blanks, a sign, then the digits up to the first other character.\<close>

definition parseInt :: "string \<Rightarrow> int option" where
  "parseInt text = (let t = dropWhile is_blank_char text;
       (negative, rest) = (case t of [] \<Rightarrow> (False, []) | c # cs \<Rightarrow> if c = CHR ''-'' then (True, cs) else if c = CHR ''+'' then (False, cs) else (False, t));
       digits = takeWhile (\<lambda>c. digit_value c \<noteq> None) rest
     in if digits = [] then None
        else map_option (\<lambda>n. if negative then - int n else int n) (nat_of_digits 0 digits))"

definition parsePhase :: "string option \<Rightarrow> platform_error + room_phase" where
  "parsePhase value = (if value = Some ''LOBBY'' then Inr LOBBY
     else if value = Some ''PLAYING'' then Inr PLAYING
     else if value = Some ''FINISHED'' then Inr FINISHED
     else Inl (OtherError ''unknown_phase''))"

definition byPlayerId :: "player_snapshot \<Rightarrow> player_snapshot \<Rightarrow> int" where
  "byPlayerId left right = (if ps_playerId left < ps_playerId right then -1 else 1)"

definition player_of :: "(string \<times> string) list \<Rightarrow> (string \<times> string) list \<Rightarrow> string \<times> string \<Rightarrow> player_snapshot" where
  "player_of scores bots entry = (case entry of (playerId, nickname) \<Rightarrow>
     \<lparr>ps_playerId = playerId, ps_nickname = nickname, ps_score = parseInt (value_at scores playerId ''0''),
      ps_kind = (if has_key bots playerId then BOT else HUMAN)\<rparr>)"

definition getSnapshot :: "string \<Rightarrow> room_snapshot platform" where
  "getSnapshot roomCode = andThen (read_store (hgetall (roomKey roomCode))) (\<lambda>room.
     if room = [] then ret (roomNotFound (Some roomCode))
     else andThen (read_store (hgetall (playersKey roomCode))) (\<lambda>players.
          andThen (read_store (hgetall (scoresKey roomCode))) (\<lambda>scores.
          andThen (read_store (hgetall (botsKey roomCode))) (\<lambda>bots.
          case parsePhase (map_of room ''phase'') of Inl e \<Rightarrow> throw e
          | Inr phase \<Rightarrow> ret \<lparr>rs_roomCode = Some roomCode, rs_gameCode = map_of room ''gameCode'',
              rs_gameId = map_of room ''gameId'', rs_hostId = map_of room ''hostId'', rs_phase = Some phase,
              rs_capacity = parseInt (value_at room ''capacity'' ''0''),
              rs_players = sort_by byPlayerId (map (player_of scores bots) players)\<rparr>))))"

definition getGameSnapshot :: "string \<Rightarrow> room_snapshot platform" where
  "getGameSnapshot gameId = andThen (read_store (hget (gameKey gameId) (FStr ''roomCode''))) (\<lambda>roomCode.
     case roomCode of None \<Rightarrow> ret (roomNotFound None) | Some c \<Rightarrow> getSnapshot c)"

section \<open>Operations\<close>

record user_identity =
  ui_userId :: string
  ui_nickname :: string
  ui_member :: bool

text \<open>The loop draws until a code is free; \<open>None\<close>: the draws given are used up.\<close>

fun create_loop :: "int \<Rightarrow> string \<Rightarrow> string \<Rightarrow> string \<Rightarrow> string list \<Rightarrow> string option platform" where
  "create_loop capacity hostId gameCode mode [] = ret None"
| "create_loop capacity hostId gameCode mode (roomCode # draws) =
     andThen (call_room roomCode (CallCreate capacity hostId gameCode mode)) (\<lambda>created.
       if created = 1 then ret (Some roomCode) else create_loop capacity hostId gameCode mode draws)"

definition createRoom :: "int \<Rightarrow> string \<Rightarrow> string \<Rightarrow> string \<Rightarrow> string list \<Rightarrow> string option platform" where
  "createRoom capacity hostId gameCode mode draws = (
     if capacity < 1 then throw (domain_error ''invalid_capacity'')
     else if blank gameCode then throw (domain_error ''invalid_game_code'')
     else create_loop capacity hostId gameCode mode draws)"

definition room_join :: "string \<Rightarrow> user_identity \<Rightarrow> room_snapshot platform" where
  "room_join roomCode user = andThen (call_room roomCode (CallJoin (ui_userId user) (ui_nickname user))) (\<lambda>result.
     if result = 0 then throw (domain_error ''room_not_found'')
     else if result = 2 then throw (conflict_error ''game_started'')
     else if result = 3 then throw (conflict_error ''room_full'')
     else getSnapshot roomCode)"

definition room_leave :: "string \<Rightarrow> string \<Rightarrow> bool platform" where
  "room_leave roomCode playerId = andThen (call_room roomCode (CallLeave playerId)) (\<lambda>result. ret (0 \<le> result))"

definition room_close :: "string \<Rightarrow> unit platform" where
  "room_close roomCode = andThen (call_room roomCode CallClose) (\<lambda>_. ret ())"

definition room_touch :: "string \<Rightarrow> unit platform" where
  "room_touch roomCode = andThen (call_room roomCode CallTouch) (\<lambda>_. ret ())"

definition startGame :: "string \<Rightarrow> string \<Rightarrow> int \<Rightarrow> (string \<times> room_snapshot) platform" where
  "startGame gameId roomCode minPlayers = (if minPlayers < 1 then throw (domain_error ''invalid_min_players'')
     else andThen (call_room roomCode (CallStart gameId minPlayers)) (\<lambda>result.
       if result \<noteq> 1 then throw (conflict_error ''game_not_ready'')
       else andThen (getSnapshot roomCode) (\<lambda>snapshot. ret (gameId, snapshot))))"

definition rollbackStart :: "string \<Rightarrow> string \<Rightarrow> bool platform" where
  "rollbackStart roomCode gameId = andThen (call_room roomCode (CallRollback gameId)) (\<lambda>result. ret (result = 1))"

definition cancelActiveGame :: "string \<Rightarrow> bool platform" where
  "cancelActiveGame roomCode = andThen (call_room roomCode CallCancel) (\<lambda>result. ret (result = 1))"

definition returnToLobby :: "string \<Rightarrow> bool platform" where
  "returnToLobby roomCode = andThen (call_room roomCode CallToLobby) (\<lambda>result. ret (result = 1))"

definition isPartyRoom :: "string \<Rightarrow> bool platform" where
  "isPartyRoom roomCode = andThen (read_store (hget (roomKey roomCode) (FStr ''mode''))) (\<lambda>mode. ret (mode = Some ''PARTY''))"

section \<open>Bots\<close>

definition newBotId :: "string \<Rightarrow> string" where
  "newBotId uuid = ''bot-'' @ uuid"

text \<open>The name is a fixed (Korean) label and the last four characters of the identifier.\<close>

definition botNickname :: "string \<Rightarrow> string \<Rightarrow> string" where
  "botNickname label botId = label @ '' '' @ to_upper (drop (length botId - 4) botId)"

definition requireSuccess :: "int \<Rightarrow> bool \<Rightarrow> platform_error + unit" where
  "requireSuccess result botMustExist = (
     if result = 1 then Inr ()
     else if result = 0 then Inl (domain_error ''room_not_found'')
     else if result = 2 then Inl (conflict_error ''lobby_only'')
     else if result = 3 then Inl (ForbiddenError ''host_only'')
     else if result = 4 then Inl (conflict_error (if botMustExist then ''bot_not_found'' else ''room_full''))
     else Inl (conflict_error ''bot_operation_failed''))"

definition bot_add :: "string \<Rightarrow> string \<Rightarrow> string \<Rightarrow> string \<Rightarrow> room_snapshot platform" where
  "bot_add label uuid roomCode requesterId = (let botId = newBotId uuid in
     andThen (call_room roomCode (CallBotAdd requesterId botId (botNickname label botId))) (\<lambda>result.
       case requireSuccess result False of Inl e \<Rightarrow> throw e | Inr _ \<Rightarrow> getSnapshot roomCode))"

definition bot_remove :: "string \<Rightarrow> string \<Rightarrow> string \<Rightarrow> room_snapshot platform" where
  "bot_remove roomCode requesterId botId =
     andThen (call_room roomCode (CallBotRemove requesterId botId)) (\<lambda>result.
       case requireSuccess result True of Inl e \<Rightarrow> throw e | Inr _ \<Rightarrow> getSnapshot roomCode)"

end
