(* ===== verification/Sessions.thy ===== *)
theory Sessions
  imports RoomService
begin

text \<open>
  Sessions of guests and members (\<open>user/session.ts\<close>). A session is a hash \<open>user:id\<close> and the index entry
  \<open>user:token:hash\<close>. The SHA-256 of a token is the parameter \<open>H\<close>; fresh identifiers and tokens are arguments.
\<close>

section \<open>Keys and values\<close>

datatype user_type = GUEST | MEMBER

definition GUEST_TTL_SECONDS :: int where "GUEST_TTL_SECONDS = 24 * 60 * 60"
definition MEMBER_TTL_SECONDS :: int where "MEMBER_TTL_SECONDS = 30 * 24 * 60 * 60"
definition NICKNAME_MAX_LENGTH :: nat where "NICKNAME_MAX_LENGTH = 20"

definition userKey :: "string \<Rightarrow> string" where
  "userKey userId = ''user:'' @ userId"

definition tokenKey :: "(string \<Rightarrow> string) \<Rightarrow> string \<Rightarrow> string" where
  "tokenKey H token = ''user:token:'' @ H token"

definition type_text :: "user_type \<Rightarrow> string" where
  "type_text t = (case t of GUEST \<Rightarrow> ''GUEST'' | MEMBER \<Rightarrow> ''MEMBER'')"

definition parseUserType :: "string option \<Rightarrow> user_type option" where
  "parseUserType value = (if value = Some ''GUEST'' then Some GUEST else if value = Some ''MEMBER'' then Some MEMBER else None)"

definition ttlOfType :: "user_type \<Rightarrow> int" where
  "ttlOfType t = (case t of MEMBER \<Rightarrow> MEMBER_TTL_SECONDS | GUEST \<Rightarrow> GUEST_TTL_SECONDS)"

definition normalizeNickname :: "string option \<Rightarrow> platform_error + string" where
  "normalizeNickname nickname = (let value = trim_text (case nickname of None \<Rightarrow> '''' | Some n \<Rightarrow> n) in
     if value = [] \<or> NICKNAME_MAX_LENGTH < length value then Inl InvalidNicknameError else Inr value)"

definition bearerToken :: "string option \<Rightarrow> platform_error + string" where
  "bearerToken authorization = (case authorization of None \<Rightarrow> Inl SessionAuthenticationError
     | Some a \<Rightarrow> if take 7 a \<noteq> ''Bearer '' \<or> length a = 7 then Inl SessionAuthenticationError else Inr (drop 7 a))"

definition identity_of :: "string \<Rightarrow> string \<Rightarrow> user_type \<Rightarrow> user_identity" where
  "identity_of userId nickname t = \<lparr>ui_userId = userId, ui_nickname = nickname, ui_member = (t = MEMBER)\<rparr>"

section \<open>Opening a session\<close>

definition write_session :: "(string \<Rightarrow> string) \<Rightarrow> user_type \<Rightarrow> string \<Rightarrow> string \<Rightarrow> string \<Rightarrow> unit platform" where
  "write_session H t userId nickname token =
     andThen (write_store (hset (userKey userId) (HRecord [(''type'', FStr (type_text t)), (''nickname'', FStr nickname), (''tokenHash'', FStr (H token))]))) (\<lambda>_.
     andThen (write_store (expire_key (userKey userId) (FNum (ttlOfType t)))) (\<lambda>_.
     andThen (write_store (redis_set (tokenKey H token) (FStr userId) [FStr ''EX'', FNum (ttlOfType t)])) (\<lambda>_. ret ())))"

definition createGuest :: "(string \<Rightarrow> string) \<Rightarrow> string option \<Rightarrow> string \<Rightarrow> string \<Rightarrow> (string \<times> string \<times> string) platform" where
  "createGuest H nickname userId token = (case normalizeNickname nickname of Inl e \<Rightarrow> throw e
     | Inr displayName \<Rightarrow> andThen (write_session H GUEST userId displayName token) (\<lambda>_. ret (userId, displayName, token)))"

definition openMemberSession :: "(string \<Rightarrow> string) \<Rightarrow> string \<Rightarrow> string \<Rightarrow> string \<Rightarrow> string platform" where
  "openMemberSession H userId nickname token = andThen (write_session H MEMBER userId nickname token) (\<lambda>_. ret token)"

section \<open>The room of a session\<close>

definition ttlOf :: "string \<Rightarrow> int platform" where
  "ttlOf userId = andThen (read_store (hget (userKey userId) (FStr ''type''))) (\<lambda>value.
     ret (case parseUserType value of None \<Rightarrow> GUEST_TTL_SECONDS | Some t \<Rightarrow> ttlOfType t))"

definition assignRoom :: "string \<Rightarrow> string \<Rightarrow> string \<Rightarrow> string \<Rightarrow> unit platform" where
  "assignRoom userId roomId roomCode hostId =
     andThen (write_store (hset (userKey userId) (HRecord [(''roomId'', FStr roomId), (''roomCode'', FStr roomCode), (''host'', FStr hostId)]))) (\<lambda>_.
     andThen (ttlOf userId) (\<lambda>ttl.
     andThen (write_store (expire_key (userKey userId) (FNum ttl))) (\<lambda>_. ret ())))"

definition clearRoom :: "string \<Rightarrow> unit platform" where
  "clearRoom userId =
     andThen (write_store (hdel (userKey userId) [FStr ''roomId'', FStr ''roomCode'', FStr ''host''])) (\<lambda>_.
     andThen (write_store (del_keys [''quick-match:user:'' @ userId])) (\<lambda>_. ret ()))"

section \<open>Authentication\<close>

definition authenticateCredentials :: "(string \<Rightarrow> string) \<Rightarrow> string option \<Rightarrow> string \<Rightarrow> user_identity platform" where
  "authenticateCredentials H userId token = (case userId of None \<Rightarrow> throw SessionAuthenticationError
     | Some u \<Rightarrow> if blank u then throw SessionAuthenticationError
       else andThen (read_store (hgetall (userKey u))) (\<lambda>user.
         case (map_of user ''tokenHash'', map_of user ''nickname'', parseUserType (map_of user ''type'')) of
           (Some storedHash, Some nickname, Some t) \<Rightarrow>
             if H token \<noteq> storedHash then throw SessionAuthenticationError
             else andThen (write_store (expire_key (userKey u) (FNum (ttlOfType t)))) (\<lambda>_.
                  andThen (write_store (expire_key (tokenKey H token) (FNum (ttlOfType t)))) (\<lambda>_.
                  ret (identity_of u nickname t)))
         | _ \<Rightarrow> throw SessionAuthenticationError))"

definition authenticate :: "(string \<Rightarrow> string) \<Rightarrow> string option \<Rightarrow> string option \<Rightarrow> user_identity platform" where
  "authenticate H userId authorization = (case bearerToken authorization of Inl e \<Rightarrow> throw e
     | Inr token \<Rightarrow> authenticateCredentials H userId token)"

definition no_token :: "string option \<Rightarrow> bool" where
  "no_token sessionToken = (case sessionToken of None \<Rightarrow> True | Some token \<Rightarrow> blank token)"

definition authenticateSession :: "(string \<Rightarrow> string) \<Rightarrow> string option \<Rightarrow> user_identity platform" where
  "authenticateSession H sessionToken = (if no_token sessionToken then throw SessionAuthenticationError
     else andThen (read_store (redis_get (tokenKey H (the sessionToken)))) (\<lambda>userId.
       case userId of None \<Rightarrow> throw SessionAuthenticationError
       | Some u \<Rightarrow> authenticateCredentials H (Some u) (the sessionToken)))"

section \<open>Closing and renaming\<close>

definition closeSession :: "(string \<Rightarrow> string) \<Rightarrow> string option \<Rightarrow> unit platform" where
  "closeSession H sessionToken = (if no_token sessionToken then ret ()
     else andThen (read_store (redis_get (tokenKey H (the sessionToken)))) (\<lambda>userId.
          andThen (write_store (del_keys [tokenKey H (the sessionToken)])) (\<lambda>_.
          case userId of None \<Rightarrow> ret ()
          | Some u \<Rightarrow> andThen (write_store (hdel (userKey u) [FStr ''tokenHash''])) (\<lambda>_. ret ()))))"

definition renameSession :: "string \<Rightarrow> string \<Rightarrow> unit platform" where
  "renameSession userId nickname = andThen (read_store (exists_keys [userKey userId])) (\<lambda>n.
     if n = 0 then ret ()
     else andThen (write_store (hset (userKey userId) (HRecord [(''nickname'', FStr nickname)]))) (\<lambda>_. ret ()))"

end
