(* ===== verification/RoomSeats.thy ===== *)
theory RoomSeats
  imports Prelude
begin

text \<open>
  Who is in which room: the seats and the index of sockets (\<open>ws/roomMembers.ts\<close>), what the process knows of a
  room besides (\<open>ws/registry.ts\<close>) and the sockets a broadcast reaches (\<open>ws/broadcaster.ts\<close>).

  A socket is its identity, a number. Members are objects compared by identity (\<open>===\<close>): a member carries a
  reference that no other member object has. A \<open>Map\<close> is an association list in the order of insertion.
\<close>

section \<open>Seats\<close>

type_synonym socket = nat

datatype player_status = Online | Away | Offline

datatype ws_phase = Waiting | Playing | Finished

record room_member =
  mb_ref :: nat
  mb_playerId :: string
  mb_roomId :: string
  mb_nickname :: string
  mb_host :: bool
  mb_status :: player_status
  mb_socket :: "socket option"

record room_members =
  seats :: "(string \<times> (string \<times> room_member) list) list"
  bySocket :: "(socket \<times> room_member) list"
  next_ref :: nat

definition no_members :: room_members where
  "no_members = \<lparr>seats = [], bySocket = [], next_ref = 0\<rparr>"

definition seats_of :: "room_members \<Rightarrow> string \<Rightarrow> (string \<times> room_member) list" where
  "seats_of M room = (case map_of (seats M) room of None \<Rightarrow> [] | Some s \<Rightarrow> s)"

definition find_member :: "room_members \<Rightarrow> string \<Rightarrow> string \<Rightarrow> room_member option" where
  "find_member M room p = map_of (seats_of M room) p"

definition ofRoom :: "room_members \<Rightarrow> string \<Rightarrow> room_member list" where
  "ofRoom M room = map snd (seats_of M room)"

definition ofSocket :: "room_members \<Rightarrow> socket \<Rightarrow> room_member option" where
  "ofSocket M s = map_of (bySocket M) s"

definition unlink :: "room_member \<Rightarrow> room_members \<Rightarrow> room_members" where
  "unlink m M = (case mb_socket m of None \<Rightarrow> M
     | Some s \<Rightarrow> (case map_of (bySocket M) s of None \<Rightarrow> M
         | Some m' \<Rightarrow> if mb_ref m' = mb_ref m then M\<lparr>bySocket := AList.delete s (bySocket M)\<rparr> else M))"

definition detach :: "room_member \<Rightarrow> room_members \<Rightarrow> room_members" where
  "detach m M = (case map_of (seats M) (mb_roomId m) of None \<Rightarrow> M
     | Some members \<Rightarrow> (let members' = AList.delete (mb_playerId m) members in
         M\<lparr>seats := (if members' = [] then AList.delete (mb_roomId m) (seats M)
                     else AList.update (mb_roomId m) members' (seats M))\<rparr>))"

definition join_member :: "string \<Rightarrow> socket \<Rightarrow> string \<Rightarrow> string \<Rightarrow> room_members \<Rightarrow> room_member \<times> room_members" where
  "join_member room s p nickname M =
     (let existing = find_member M room p;
          member = \<lparr>mb_ref = next_ref M, mb_playerId = p, mb_roomId = room, mb_nickname = nickname,
            mb_host = (case existing of Some e \<Rightarrow> mb_host e | None \<Rightarrow> seats_of M room = []), mb_status = Online, mb_socket = Some s\<rparr>;
          M1 = M\<lparr>seats := AList.update room (AList.update p member (seats_of M room)) (seats M), next_ref := next_ref M + 1\<rparr>;
          M2 = (case existing of Some e \<Rightarrow> unlink e M1 | None \<Rightarrow> M1)
      in (member, M2\<lparr>bySocket := AList.update s member (bySocket M2)\<rparr>))"

definition removeBySocket :: "socket \<Rightarrow> room_members \<Rightarrow> room_member option \<times> room_members" where
  "removeBySocket s M = (case ofSocket M s of None \<Rightarrow> (None, M)
     | Some m \<Rightarrow> (Some m, detach m (M\<lparr>bySocket := AList.delete s (bySocket M)\<rparr>)))"

definition markOffline :: "socket \<Rightarrow> room_members \<Rightarrow> room_member option \<times> room_members" where
  "markOffline s M = (case ofSocket M s of None \<Rightarrow> (None, M)
     | Some m \<Rightarrow> (let M1 = M\<lparr>bySocket := AList.delete s (bySocket M)\<rparr> in
         case map_of (seats M1) (mb_roomId m) of None \<Rightarrow> (None, M1)
         | Some members \<Rightarrow> (case map_of members (mb_playerId m) of None \<Rightarrow> (None, M1)
             | Some seated \<Rightarrow> if mb_ref seated \<noteq> mb_ref m then (None, M1)
                 else (let offline = m\<lparr>mb_ref := next_ref M1, mb_status := Offline, mb_socket := None\<rparr> in
                   (Some offline, M1\<lparr>seats := AList.update (mb_roomId m) (AList.update (mb_playerId m) offline members) (seats M1),
                      next_ref := next_ref M1 + 1\<rparr>)))))"

definition remove_seat :: "string \<Rightarrow> string \<Rightarrow> room_members \<Rightarrow> room_member option \<times> room_members" where
  "remove_seat room p M = (case find_member M room p of None \<Rightarrow> (None, M)
     | Some m \<Rightarrow> (Some m, detach m (if mb_socket m \<noteq> None then unlink m M else M)))"

definition is_empty_room :: "room_members \<Rightarrow> string \<Rightarrow> bool" where
  "is_empty_room M room = (seats_of M room = [])"

section \<open>What the process knows of a room\<close>

record registry =
  members :: room_members
  phases :: "(string \<times> ws_phase) list"
  gameCodes :: "(string \<times> string) list"

datatype registry_error = Invalid_game_code | Room_game_mismatch

definition new_registry :: registry where
  "new_registry = \<lparr>members = no_members, phases = [], gameCodes = []\<rparr>"

definition registerGame :: "string \<Rightarrow> string option \<Rightarrow> (registry, registry_error, unit) cmd" where
  "registerGame room gameCode = (case gameCode of None \<Rightarrow> throw Invalid_game_code
     | Some code \<Rightarrow> if blank code then throw Invalid_game_code
       else (\<lambda>R. if (case map_of (gameCodes R) room of None \<Rightarrow> False | Some current \<Rightarrow> current \<noteq> code)
         then (Inl Room_game_mismatch, R)
         else (Inr (), R\<lparr>gameCodes := AList.update room code (gameCodes R)\<rparr>)))"

definition registry_join :: "string \<Rightarrow> socket \<Rightarrow> string \<Rightarrow> string \<Rightarrow> registry \<Rightarrow> room_member \<times> registry" where
  "registry_join room s p nickname R = (case join_member room s p nickname (members R) of (m, M) \<Rightarrow> (m, R\<lparr>members := M\<rparr>))"

definition registry_find :: "registry \<Rightarrow> string \<Rightarrow> string \<Rightarrow> room_member option" where
  "registry_find R room p = find_member (members R) room p"

definition membersOf :: "registry \<Rightarrow> string \<Rightarrow> room_member list" where
  "membersOf R room = ofRoom (members R) room"

definition registry_of :: "registry \<Rightarrow> socket \<Rightarrow> room_member option" where
  "registry_of R s = ofSocket (members R) s"

definition forgetRoom :: "string \<Rightarrow> registry \<Rightarrow> registry" where
  "forgetRoom room R = R\<lparr>gameCodes := AList.delete room (gameCodes R), phases := AList.delete room (phases R)\<rparr>"

definition registry_remove :: "socket \<Rightarrow> registry \<Rightarrow> room_member option \<times> registry" where
  "registry_remove s R = (case removeBySocket s (members R) of (gone, M) \<Rightarrow>
     (gone, case gone of None \<Rightarrow> R\<lparr>members := M\<rparr>
       | Some m \<Rightarrow> if is_empty_room M (mb_roomId m) then forgetRoom (mb_roomId m) (R\<lparr>members := M\<rparr>) else R\<lparr>members := M\<rparr>))"

definition registry_markOffline :: "socket \<Rightarrow> registry \<Rightarrow> room_member option \<times> registry" where
  "registry_markOffline s R = (case markOffline s (members R) of (m, M) \<Rightarrow> (m, R\<lparr>members := M\<rparr>))"

definition registry_removePlayer :: "string \<Rightarrow> string \<Rightarrow> registry \<Rightarrow> room_member option \<times> registry" where
  "registry_removePlayer room p R = (case remove_seat room p (members R) of (gone, M) \<Rightarrow>
     (gone, if gone \<noteq> None \<and> is_empty_room M room then forgetRoom room (R\<lparr>members := M\<rparr>) else R\<lparr>members := M\<rparr>))"

definition registry_markPhase :: "string \<Rightarrow> ws_phase \<Rightarrow> registry \<Rightarrow> registry" where
  "registry_markPhase room phase R = R\<lparr>phases := AList.update room phase (phases R)\<rparr>"

definition phaseOf :: "registry \<Rightarrow> string \<Rightarrow> ws_phase" where
  "phaseOf R room = (case map_of (phases R) room of None \<Rightarrow> Waiting | Some ph \<Rightarrow> ph)"

definition gameCodeOf :: "registry \<Rightarrow> string \<Rightarrow> string option" where
  "gameCodeOf R room = map_of (gameCodes R) room"

definition activeRoomCount :: "registry \<Rightarrow> nat" where
  "activeRoomCount R = length (filter (\<lambda>e. snd e = Playing) (phases R))"

definition activeParticipantCount :: "registry \<Rightarrow> string option \<Rightarrow> nat" where
  "activeParticipantCount R gameCode = (case gameCode of None \<Rightarrow> 0
     | Some code \<Rightarrow> if blank code then 0
       else length (remdups (map mb_playerId (filter (\<lambda>m. phaseOf R (mb_roomId m) = Playing
         \<and> map_option to_upper (gameCodeOf R (mb_roomId m)) = Some (to_upper code)) (map snd (bySocket (members R)))))))"

record ws_player =
  wp_playerId :: string
  wp_nickname :: string
  wp_status :: player_status
  wp_isHost :: bool
  wp_kind :: string

definition toWsPlayer :: "room_member \<Rightarrow> ws_player" where
  "toWsPlayer m = \<lparr>wp_playerId = mb_playerId m, wp_nickname = mb_nickname m, wp_status = mb_status m, wp_isHost = mb_host m, wp_kind = ''HUMAN''\<rparr>"

record 's ws_snapshot =
  ws_roomId :: string
  ws_gameCode :: "string option"
  ws_phase_of :: ws_phase
  ws_hostId :: "string option"
  ws_players :: "ws_player list"
  ws_game :: "'s option"
  ws_capacity :: "int option"

definition registry_snapshot :: "registry \<Rightarrow> string \<Rightarrow> 's ws_snapshot" where
  "registry_snapshot R room = (let ms = membersOf R room in
     \<lparr>ws_roomId = room, ws_gameCode = gameCodeOf R room, ws_phase_of = phaseOf R room,
      ws_hostId = fold (\<lambda>m host. if mb_host m then Some (mb_playerId m) else host) ms None,
      ws_players = map toWsPlayer ms, ws_game = None, ws_capacity = None\<rparr>)"

section \<open>The sockets of a broadcast\<close>

record broadcaster =
  bc_rooms :: "(string \<times> socket list) list"
  roomOf :: "(socket \<times> string) list"

definition new_broadcaster :: broadcaster where
  "new_broadcaster = \<lparr>bc_rooms = [], roomOf = []\<rparr>"

definition audience :: "broadcaster \<Rightarrow> string \<Rightarrow> socket list" where
  "audience B room = (case map_of (bc_rooms B) room of None \<Rightarrow> [] | Some ss \<Rightarrow> ss)"

definition bc_unregister :: "socket \<Rightarrow> broadcaster \<Rightarrow> broadcaster" where
  "bc_unregister s B = (case map_of (roomOf B) s of None \<Rightarrow> B
     | Some room \<Rightarrow> (let B1 = B\<lparr>roomOf := AList.delete s (roomOf B)\<rparr> in
         case map_of (bc_rooms B1) room of None \<Rightarrow> B1
         | Some ss \<Rightarrow> (let ss' = filter (\<lambda>t. t \<noteq> s) ss in
             B1\<lparr>bc_rooms := (if ss' = [] then AList.delete room (bc_rooms B1) else AList.update room ss' (bc_rooms B1))\<rparr>)))"

definition bc_register :: "string \<Rightarrow> socket \<Rightarrow> broadcaster \<Rightarrow> broadcaster" where
  "bc_register room s B = (let B1 = bc_unregister s B; ss = audience B1 room in
     B1\<lparr>bc_rooms := AList.update room (if s \<in> set ss then ss else ss @ [s]) (bc_rooms B1), roomOf := AList.update s room (roomOf B1)\<rparr>)"

definition bc_size :: "broadcaster \<Rightarrow> string \<Rightarrow> nat" where
  "bc_size B room = length (audience B room)"

section \<open>What holds of the seats\<close>

text \<open>The seats as a function \<open>f\<close> of room and player, the index as a map \<open>g\<close>, references below \<open>n\<close>.\<close>

definition index_ok :: "(string \<Rightarrow> string \<Rightarrow> room_member option) \<Rightarrow> (socket \<Rightarrow> room_member option) \<Rightarrow> nat \<Rightarrow> bool" where
  "index_ok f g n \<longleftrightarrow>
     (\<forall>room p m. f room p = Some m \<longrightarrow> mb_roomId m = room \<and> mb_playerId m = p \<and> mb_ref m < n \<and> (mb_socket m = None \<longleftrightarrow> mb_status m = Offline))
     \<and> (\<forall>room p m room' p' m'. f room p = Some m \<and> f room' p' = Some m' \<and> mb_ref m = mb_ref m' \<longrightarrow> m = m')
     \<and> (\<forall>s m. g s = Some m \<longrightarrow> mb_socket m = Some s \<and> f (mb_roomId m) (mb_playerId m) = Some m)
     \<and> (\<forall>room p m p' m'. f room p = Some m \<and> f room p' = Some m' \<and> mb_host m \<and> mb_host m' \<longrightarrow> p = p')"

definition seats_wf :: "room_members \<Rightarrow> bool" where
  "seats_wf M \<longleftrightarrow> wf_map (seats M) \<and> wf_map (bySocket M) \<and> (\<forall>room s. map_of (seats M) room = Some s \<longrightarrow> s \<noteq> [] \<and> wf_map s)"

definition members_ok :: "room_members \<Rightarrow> bool" where
  "members_ok M \<longleftrightarrow> seats_wf M \<and> index_ok (find_member M) (map_of (bySocket M)) (next_ref M)"

declare map_of_eq_Some_iff [simp del] Some_eq_map_of_iff [simp del]

lemma no_members_ok: "members_ok no_members"
  by (simp add: members_ok_def seats_wf_def index_ok_def no_members_def find_member_def seats_of_def)

lemma find_none_in_empty: "seats_of M room = [] \<Longrightarrow> find_member M room p = None"
  by (simp add: find_member_def)

lemma index_ok_seat:
  assumes "index_ok f g n" "f room p = Some m"
  shows "mb_roomId m = room" "mb_playerId m = p" "mb_ref m < n" "mb_socket m = None \<longleftrightarrow> mb_status m = Offline"
  using assms unfolding index_ok_def by blast+

lemma index_ok_linked:
  assumes "index_ok f g n" "g s = Some m" shows "mb_socket m = Some s" "f (mb_roomId m) (mb_playerId m) = Some m"
  using assms unfolding index_ok_def by blast+

lemma index_ok_remove:
  assumes "index_ok f g n" "\<And>s m. g' s = Some m \<Longrightarrow> g s = Some m \<and> \<not> (mb_roomId m = room \<and> mb_playerId m = p)"
    "\<And>r q. f' r q = (if r = room \<and> q = p then None else f r q)"
  shows "index_ok f' g' n"
proof -
  have f': "f' r q = Some m \<Longrightarrow> f r q = Some m" for r q m using assms(3) by (simp split: if_splits)
  have "mb_socket m = Some s \<and> f' (mb_roomId m) (mb_playerId m) = Some m" if "g' s = Some m" for s m
    using assms(1) assms(2)[OF that] assms(3) unfolding index_ok_def by auto
  moreover have "mb_roomId m = r \<and> mb_playerId m = q \<and> mb_ref m < n \<and> (mb_socket m = None \<longleftrightarrow> mb_status m = Offline)" if "f' r q = Some m" for r q m
    using index_ok_seat[OF assms(1) f'[OF that]] by simp
  moreover have "m = m'" if "f' r q = Some m" "f' r' q' = Some m'" "mb_ref m = mb_ref m'" for r q m r' q' m'
    using assms(1) f'[OF that(1)] f'[OF that(2)] that(3) unfolding index_ok_def by blast
  moreover have "q = q'" if "f' r q = Some m" "f' r q' = Some m'" "mb_host m" "mb_host m'" for r q m q' m'
    using assms(1) f'[OF that(1)] f'[OF that(2)] that(3,4) unfolding index_ok_def by blast
  ultimately show ?thesis unfolding index_ok_def by blast
qed

text \<open>A seat is filled by a fresh member: it keeps the host's place of the one it replaces, or is the first.\<close>

lemma index_ok_fill:
  assumes ok: "index_ok f g n" and m: "mb_roomId m = room" "mb_playerId m = p" "mb_ref m = n" "mb_socket m = None \<longleftrightarrow> mb_status m = Offline"
    and host: "mb_host m \<Longrightarrow> (\<exists>e. f room p = Some e \<and> mb_host e) \<or> (\<forall>q. f room q = None)"
    and f': "\<And>r q. f' r q = (if r = room \<and> q = p then Some m else f r q)"
    and g': "\<And>s k. g' s = Some k \<Longrightarrow> k = m \<and> mb_socket m = Some s \<or> g s = Some k \<and> \<not> (mb_roomId k = room \<and> mb_playerId k = p)"
  shows "index_ok f' g' (n + 1)"
proof -
  have 1: "mb_roomId k = r \<and> mb_playerId k = q \<and> mb_ref k < n + 1 \<and> (mb_socket k = None \<longleftrightarrow> mb_status k = Offline)" if "f' r q = Some k" for r q k
    using that m f' index_ok_seat[OF ok, of r q k] by (auto split: if_splits)
  have old: "k = m \<and> mb_ref k = n \<or> f r q = Some k \<and> mb_ref k < n" if "f' r q = Some k" for r q k
    using that m(3) index_ok_seat(3)[OF ok, of r q k] unfolding f' by (simp split: if_splits)
  have 2: "k = k'" if h: "f' r q = Some k" "f' r' q' = Some k'" "mb_ref k = mb_ref k'" for r q k r' q' k'
  proof -
    have "f r q = Some k \<Longrightarrow> f r' q' = Some k' \<Longrightarrow> k = k'" using ok h(3) unfolding index_ok_def by blast
    then show ?thesis using old[OF h(1)] old[OF h(2)] h(3) by auto
  qed
  have 3: "mb_socket k = Some s \<and> f' (mb_roomId k) (mb_playerId k) = Some k" if "g' s = Some k" for s k
    using g'[OF that] f' m index_ok_linked[OF ok, of s k] by auto
  have 4: "q = q'" if h: "f' r q = Some k" "f' r q' = Some k'" "mb_host k" "mb_host k'" for r q k q' k'
  proof (cases "r = room")
    case False
    then have "f r q = Some k" "f r q' = Some k'" using h(1,2) unfolding f' by simp_all
    then show ?thesis using ok h(3,4) unfolding index_ok_def by blast
  next
    case True
    have old: "x = y" if "f room x = Some a" "f room y = Some b" "mb_host a" "mb_host b" for x y a b
      using ok that unfolding index_ok_def by blast
    show ?thesis
    proof (cases "q = p"; cases "q' = p")
      assume "q = p" "q' \<noteq> p"
      then have "mb_host m" "f room q' = Some k'" using h f' True by auto
      with host old h(4) show ?thesis using \<open>q = p\<close> by fastforce
    next
      assume "q \<noteq> p" "q' = p"
      then have "mb_host m" "f room q = Some k" using h f' True by auto
      with host old h(3) show ?thesis using \<open>q' = p\<close> by fastforce
    next
      assume "q \<noteq> p" "q' \<noteq> p"
      then show ?thesis using h f' True old by auto
    qed simp
  qed
  show ?thesis unfolding index_ok_def using 1 2 3 4 by blast
qed

section \<open>What the operations do\<close>

lemma find_detach: "find_member (detach m M) r q = (if r = mb_roomId m \<and> q = mb_playerId m then None else find_member M r q)"
proof (cases "map_of (seats M) (mb_roomId m)")
  case None then show ?thesis by (auto simp: detach_def find_member_def seats_of_def)
next
  case (Some ms)
  show ?thesis
  proof (cases "AList.delete (mb_playerId m) ms = []")
    case True
    then have "map_of ms q = None" if "q \<noteq> mb_playerId m" using map_of_delete[of "mb_playerId m" ms] that by (metis fun_upd_other map_of.simps(1))
    then show ?thesis using Some True by (auto simp: detach_def find_member_def seats_of_def Let_def)
  next
    case False
    then show ?thesis using Some by (auto simp: detach_def find_member_def seats_of_def Let_def)
  qed
qed

lemma detach_frame [simp]: "bySocket (detach m M) = bySocket M" "next_ref (detach m M) = next_ref M"
  by (simp_all add: detach_def Let_def split: option.split)

lemma seats_wf_detach: "seats_wf M \<Longrightarrow> seats_wf (detach m M)"
  by (auto simp: seats_wf_def detach_def Let_def split: option.split if_splits)

lemma unlink_frame [simp]: "seats (unlink m M) = seats M" "next_ref (unlink m M) = next_ref M"
  "find_member (unlink m M) = find_member M" "seats_of (unlink m M) = seats_of M"
  by (simp_all add: unlink_def find_member_def seats_of_def fun_eq_iff split: option.split)

lemma seats_wf_unlink: "seats_wf M \<Longrightarrow> seats_wf (unlink m M)"
  by (auto simp: seats_wf_def unlink_def split: option.split)

text \<open>Taking the member of a seat out of the index leaves nothing that points to the seat.\<close>

lemma unlink_seat:
  assumes "index_ok f (map_of (bySocket M)) n" "f room p = Some e"
    "map_of (bySocket (unlink e M)) s = Some k"
  shows "map_of (bySocket M) s = Some k \<and> \<not> (mb_roomId k = room \<and> mb_playerId k = p)"
proof -
  have k: "map_of (bySocket M) s = Some k" using assms(3) by (auto simp: unlink_def split: option.splits if_splits)
  note l = index_ok_linked[OF assms(1) k]
  have "k \<noteq> e" using assms(3) k l(1) by (auto simp: unlink_def split: option.splits if_splits)
  then show ?thesis using l(2) assms(2) k by auto
qed

lemma find_update_seat:
  "find_member (M\<lparr>seats := AList.update room (AList.update p m (seats_of M room)) (seats M), next_ref := n\<rparr>) r q
    = (if r = room \<and> q = p then Some m else find_member M r q)"
  by (auto simp: find_member_def seats_of_def)

lemma seats_wf_update_seat:
  "seats_wf M \<Longrightarrow> seats_wf (M\<lparr>seats := AList.update room (AList.update p m (seats_of M room)) (seats M), next_ref := n\<rparr>)"
  by (auto simp: seats_wf_def seats_of_def split: option.splits if_splits)

lemma seats_wf_link: "seats_wf M \<Longrightarrow> seats_wf (M\<lparr>bySocket := AList.update s m (bySocket M)\<rparr>)" "seats_wf M \<Longrightarrow> seats_wf (M\<lparr>bySocket := AList.delete s (bySocket M)\<rparr>)"
  by (auto simp: seats_wf_def)

lemma find_bySocket [simp]: "find_member (M\<lparr>bySocket := b\<rparr>) = find_member M" "seats_of (M\<lparr>bySocket := b\<rparr>) = seats_of M"
  by (simp_all add: find_member_def seats_of_def fun_eq_iff)

lemma map_of_unlink:
  assumes ok: "members_ok M" and e: "find_member M room p = Some e"
  shows "map_of (bySocket (unlink e M)) t =
    (if \<exists>k. map_of (bySocket M) t = Some k \<and> mb_roomId k = room \<and> mb_playerId k = p then None else map_of (bySocket M) t)"
proof -
  have ix: "index_ok (find_member M) (map_of (bySocket M)) (next_ref M)" using ok by (simp add: members_ok_def)
  have l: "mb_socket k = Some u \<and> k = e" if "map_of (bySocket M) u = Some k" "mb_roomId k = room" "mb_playerId k = p" for k u
    using index_ok_linked[OF ix that(1)] that(2,3) e by simp
  show ?thesis
  proof (cases "\<exists>k. map_of (bySocket M) t = Some k \<and> mb_roomId k = room \<and> mb_playerId k = p")
    case True
    then obtain k where k: "map_of (bySocket M) t = Some k" "mb_roomId k = room" "mb_playerId k = p" by blast
    then have "mb_socket e = Some t" "k = e" using l by auto
    then show ?thesis using k by (simp add: unlink_def)
  next
    case False
    have "map_of (bySocket (unlink e M)) t = map_of (bySocket M) t"
    proof (cases "map_of (bySocket (unlink e M)) t")
      case None
      have "map_of (bySocket M) t = None"
      proof (rule ccontr)
        assume "map_of (bySocket M) t \<noteq> None"
        then obtain k where k: "map_of (bySocket M) t = Some k" by blast
        with None obtain m' where m': "mb_socket e = Some t" "map_of (bySocket M) t = Some m'" "mb_ref m' = mb_ref e"
          by (auto simp: unlink_def split: option.splits if_splits)
        have "m' = e" using index_ok_linked(2)[OF ix m'(2)] e m'(3) ix unfolding index_ok_def by blast
        then have "mb_roomId m' = room" "mb_playerId m' = p" using index_ok_seat[OF ix e] by simp_all
        then show False using False m'(2) by blast
      qed
      then show ?thesis using None by simp
    next
      case (Some k) then show ?thesis by (auto simp: unlink_def split: option.splits if_splits)
    qed
    then show ?thesis using False by auto
  qed
qed

text \<open>No linked socket points to a seat that is not taken.\<close>

lemma no_link_to_free_seat:
  "members_ok M \<Longrightarrow> find_member M room p = None \<Longrightarrow> map_of (bySocket M) t = Some k \<Longrightarrow> \<not> (mb_roomId k = room \<and> mb_playerId k = p)"
  using index_ok_linked(2)[of "find_member M" "map_of (bySocket M)" "next_ref M" t k] by (auto simp: members_ok_def)

lemma members_ok_parts: "members_ok M \<Longrightarrow> seats_wf M" "members_ok M \<Longrightarrow> index_ok (find_member M) (map_of (bySocket M)) (next_ref M)"
  by (simp_all add: members_ok_def)

lemma next_ref_link [simp]: "next_ref (M\<lparr>bySocket := b\<rparr>) = next_ref M" by simp

lemma join_member_parts:
  assumes ok: "members_ok M" and run: "join_member room s p nickname M = (m, M')"
  shows "mb_roomId m = room" "mb_playerId m = p" "mb_nickname m = nickname" "mb_status m = Online" "mb_socket m = Some s" "mb_ref m = next_ref M"
    "mb_host m = (case find_member M room p of Some e \<Rightarrow> mb_host e | None \<Rightarrow> seats_of M room = [])"
    "find_member M' r q = (if r = room \<and> q = p then Some m else find_member M r q)"
    "map_of (bySocket M') t = (if t = s then Some m
       else if \<exists>k. map_of (bySocket M) t = Some k \<and> mb_roomId k = room \<and> mb_playerId k = p then None else map_of (bySocket M) t)"
    "seats_wf M'" "next_ref M' = next_ref M + 1"
proof -
  let ?M1 = "M\<lparr>seats := AList.update room (AList.update p m (seats_of M room)) (seats M), next_ref := next_ref M + 1\<rparr>"
  let ?M2 = "case find_member M room p of Some e \<Rightarrow> unlink e ?M1 | None \<Rightarrow> ?M1"
  have M': "M' = ?M2\<lparr>bySocket := AList.update s m (bySocket ?M2)\<rparr>" using run by (auto simp: join_member_def Let_def split: option.splits)
  show "mb_roomId m = room" "mb_playerId m = p" "mb_nickname m = nickname" "mb_status m = Online" "mb_socket m = Some s" "mb_ref m = next_ref M"
    "mb_host m = (case find_member M room p of Some e \<Rightarrow> mb_host e | None \<Rightarrow> seats_of M room = [])"
    using run by (auto simp: join_member_def Let_def)
  show "find_member M' r q = (if r = room \<and> q = p then Some m else find_member M r q)"
    unfolding M' by (simp add: find_update_seat split: option.split)
  have b: "bySocket (unlink e ?M1) = bySocket (unlink e M)" for e by (simp add: unlink_def split: option.split)
  show "map_of (bySocket M') t = (if t = s then Some m
       else if \<exists>k. map_of (bySocket M) t = Some k \<and> mb_roomId k = room \<and> mb_playerId k = p then None else map_of (bySocket M) t)"
  proof (cases "find_member M room p")
    case None
    then show ?thesis using no_link_to_free_seat[OF ok None] unfolding M' by auto
  next
    case (Some e)
    then show ?thesis unfolding M' using map_of_unlink[OF ok Some, of t] by (simp add: b[simplified])
  qed
  have "seats_wf ?M1" using members_ok_parts(1)[OF ok] by (rule seats_wf_update_seat)
  then have "seats_wf ?M2" by (simp add: seats_wf_unlink split: option.split)
  then show "seats_wf M'" unfolding M' by (rule seats_wf_link)
  show "next_ref M' = next_ref M + 1" unfolding M' by (simp split: option.split)
qed

lemma seats_of_empty_iff:
  assumes "seats_wf M" shows "seats_of M room = [] \<longleftrightarrow> (\<forall>p. find_member M room p = None)"
  by (cases "seats_of M room") (auto simp: find_member_def)

lemma join_member_ok:
  assumes ok: "members_ok M" and run: "join_member room s p nickname M = (m, M')"
  shows "members_ok M'"
proof -
  note j = join_member_parts[OF assms]
  have "index_ok (find_member M') (map_of (bySocket M')) (next_ref M + 1)"
  proof (rule index_ok_fill[OF members_ok_parts(2)[OF ok] j(1,2,6) _ _ j(8)])
    show "(mb_socket m = None) = (mb_status m = Offline)" using j by simp
    show "(\<exists>e. find_member M room p = Some e \<and> mb_host e) \<or> (\<forall>q. find_member M room q = None)" if "mb_host m"
      using that j(7) seats_of_empty_iff[OF members_ok_parts(1)[OF ok]] by (auto split: option.splits)
    show "k = m \<and> mb_socket m = Some t \<or> map_of (bySocket M) t = Some k \<and> \<not> (mb_roomId k = room \<and> mb_playerId k = p)"
      if "map_of (bySocket M') t = Some k" for t k using that j(5,9) by (auto split: if_splits)
  qed
  then show ?thesis using j(10,11) by (simp add: members_ok_def)
qed

lemma removeBySocket_parts:
  assumes ok: "members_ok M" and run: "removeBySocket s M = (gone, M')"
  shows "gone = map_of (bySocket M) s"
    "find_member M' r q = (case gone of None \<Rightarrow> find_member M r q | Some m \<Rightarrow> if r = mb_roomId m \<and> q = mb_playerId m then None else find_member M r q)"
    "map_of (bySocket M') = (map_of (bySocket M))(s := None)" "members_ok M'"
proof -
  note ix = members_ok_parts(2)[OF ok]
  show g: "gone = map_of (bySocket M) s" using run by (auto simp: removeBySocket_def ofSocket_def split: option.splits)
  show f: "find_member M' r q = (case gone of None \<Rightarrow> find_member M r q | Some m \<Rightarrow> if r = mb_roomId m \<and> q = mb_playerId m then None else find_member M r q)" for r q
    using run by (auto simp: removeBySocket_def ofSocket_def find_detach split: option.splits)
  show b: "map_of (bySocket M') = (map_of (bySocket M))(s := None)"
  proof (cases "map_of (bySocket M) s")
    case None
    then have "M' = M" using run by (simp add: removeBySocket_def ofSocket_def)
    then show ?thesis using None by (metis fun_upd_triv)
  next
    case (Some m)
    then have "M' = detach m (M\<lparr>bySocket := AList.delete s (bySocket M)\<rparr>)" using run by (simp add: removeBySocket_def ofSocket_def)
    then show ?thesis by simp
  qed
  have n: "next_ref M' = next_ref M" and wf: "seats_wf M'"
    using run members_ok_parts(1)[OF ok] by (auto simp: removeBySocket_def seats_wf_detach seats_wf_link split: option.splits)
  show "members_ok M'"
  proof (cases gone)
    case None then show ?thesis using run ok by (auto simp: removeBySocket_def split: option.splits)
  next
    case (Some m)
    have "index_ok (find_member M') (map_of (bySocket M')) (next_ref M)"
    proof (rule index_ok_remove[OF ix])
      show "map_of (bySocket M) t = Some k \<and> \<not> (mb_roomId k = mb_roomId m \<and> mb_playerId k = mb_playerId m)" if "map_of (bySocket M') t = Some k" for t k
      proof -
        have k: "t \<noteq> s" "map_of (bySocket M) t = Some k" using that unfolding b by (simp_all split: if_splits)
        have sm: "map_of (bySocket M) s = Some m" using g Some by simp
        have "\<not> (mb_roomId k = mb_roomId m \<and> mb_playerId k = mb_playerId m)"
        proof
          assume "mb_roomId k = mb_roomId m \<and> mb_playerId k = mb_playerId m"
          then have "find_member M (mb_roomId k) (mb_playerId k) = Some m" using index_ok_linked(2)[OF ix sm] by (elim conjE) (simp only:)
          then have "k = m" unfolding index_ok_linked(2)[OF ix k(2)] by (rule option.inject[THEN iffD1])
          then show False using index_ok_linked(1)[OF ix k(2)] index_ok_linked(1)[OF ix sm] k(1) by simp
        qed
        then show ?thesis using k(2) by simp
      qed
      show "find_member M' r q = (if r = mb_roomId m \<and> q = mb_playerId m then None else find_member M r q)" for r q using f[of r q] Some by simp
    qed
    then show ?thesis using n wf by (simp add: members_ok_def)
  qed
qed

lemma removeBySocket_ok: "members_ok M \<Longrightarrow> members_ok (snd (removeBySocket s M))"
  by (cases "removeBySocket s M") (simp add: removeBySocket_parts)

lemma remove_seat_parts:
  assumes ok: "members_ok M" and run: "remove_seat room p M = (gone, M')"
  shows "gone = find_member M room p" "find_member M' r q = (if r = room \<and> q = p then None else find_member M r q)" "members_ok M'"
    "map_of (bySocket M') t = (if \<exists>k. map_of (bySocket M) t = Some k \<and> mb_roomId k = room \<and> mb_playerId k = p then None else map_of (bySocket M) t)"
proof -
  note ix = members_ok_parts(2)[OF ok]
  show g: "gone = find_member M room p" using run by (auto simp: remove_seat_def split: option.splits)
  have seat: "mb_roomId m = room" "mb_playerId m = p" if "find_member M room p = Some m" for m using index_ok_seat[OF ix that] by simp_all
  show f: "find_member M' r q = (if r = room \<and> q = p then None else find_member M r q)" for r q
    using run seat by (auto simp: remove_seat_def find_detach split: option.splits if_splits)
  have un: "mb_socket m = None \<Longrightarrow> unlink m M = M" for m by (simp add: unlink_def)
  have M': "M' = detach m (unlink m M)" if "find_member M room p = Some m" for m
    using run that un[of m] by (auto simp: remove_seat_def split: if_splits)
  show b: "map_of (bySocket M') t = (if \<exists>k. map_of (bySocket M) t = Some k \<and> mb_roomId k = room \<and> mb_playerId k = p then None else map_of (bySocket M) t)" for t
  proof (cases "find_member M room p")
    case None
    then show ?thesis using run no_link_to_free_seat[OF ok None] by (auto simp: remove_seat_def)
  next
    case (Some m) show ?thesis unfolding M'[OF Some] using map_of_unlink[OF ok Some] by simp
  qed
  show "members_ok M'"
  proof (cases "find_member M room p")
    case None then show ?thesis using run ok by (auto simp: remove_seat_def)
  next
    case (Some m)
    have "seats_wf M'" "next_ref M' = next_ref M" unfolding M'[OF Some]
      using members_ok_parts(1)[OF ok] by (simp_all add: seats_wf_detach seats_wf_unlink)
    moreover have "index_ok (find_member M') (map_of (bySocket M')) (next_ref M)"
      by (rule index_ok_remove[OF ix _ f]) (simp add: b split: if_splits)
    ultimately show ?thesis by (simp add: members_ok_def)
  qed
qed

lemma remove_seat_ok: "members_ok M \<Longrightarrow> members_ok (snd (remove_seat room p M))"
  by (cases "remove_seat room p M") (simp add: remove_seat_parts)

text \<open>Going offline: the linked member keeps its seat, host and name, without a socket.\<close>

lemma markOffline_parts:
  assumes ok: "members_ok M" and run: "markOffline s M = (off, M')"
  shows "off = (case map_of (bySocket M) s of None \<Rightarrow> None
      | Some m \<Rightarrow> Some (m\<lparr>mb_ref := next_ref M, mb_status := Offline, mb_socket := None\<rparr>))"
    "find_member M' r q = (case off of None \<Rightarrow> find_member M r q | Some m \<Rightarrow> if r = mb_roomId m \<and> q = mb_playerId m then Some m else find_member M r q)"
    "map_of (bySocket M') = (map_of (bySocket M))(s := None)" "members_ok M'"
proof -
  note ix = members_ok_parts(2)[OF ok]
  have *: "off = (case map_of (bySocket M) s of None \<Rightarrow> None
      | Some m \<Rightarrow> Some (m\<lparr>mb_ref := next_ref M, mb_status := Offline, mb_socket := None\<rparr>))
    \<and> (\<forall>r q. find_member M' r q = (case off of None \<Rightarrow> find_member M r q | Some m \<Rightarrow> if r = mb_roomId m \<and> q = mb_playerId m then Some m else find_member M r q))
    \<and> map_of (bySocket M') = (map_of (bySocket M))(s := None) \<and> members_ok M'"
  proof (cases "map_of (bySocket M) s")
    case None
    then have "M' = M" "off = None" using run by (simp_all add: markOffline_def ofSocket_def)
    moreover have "map_of (bySocket M) = (map_of (bySocket M))(s := None)" using None by (metis fun_upd_triv)
    ultimately show ?thesis using None ok by simp
  next
    case (Some m)
    note l = index_ok_linked[OF ix Some]
    let ?off = "m\<lparr>mb_ref := next_ref M, mb_status := Offline, mb_socket := None\<rparr>"
    obtain ms where ms: "map_of (seats M) (mb_roomId m) = Some ms" "map_of ms (mb_playerId m) = Some m" "seats_of M (mb_roomId m) = ms"
      using l(2) by (auto simp: find_member_def seats_of_def split: option.splits)
    let ?M1 = "M\<lparr>bySocket := AList.delete s (bySocket M)\<rparr>"
    have so: "seats_of ?M1 (mb_roomId m) = ms" using ms(3) by simp
    have M': "M' = ?M1\<lparr>seats := AList.update (mb_roomId m) (AList.update (mb_playerId m) ?off (seats_of ?M1 (mb_roomId m))) (seats ?M1), next_ref := next_ref ?M1 + 1\<rparr>"
      and off: "off = Some ?off" using run Some ms unfolding so by (auto simp: markOffline_def ofSocket_def Let_def)
    have f: "find_member M' r q = (if r = mb_roomId m \<and> q = mb_playerId m then Some ?off else find_member M r q)" for r q
      unfolding M' find_update_seat by simp
    have b: "map_of (bySocket M') = (map_of (bySocket M))(s := None)" unfolding M' by simp
    have "index_ok (find_member M') (map_of (bySocket M')) (next_ref M + 1)"
    proof (rule index_ok_fill[OF ix _ _ _ _ _ f])
      show "(\<exists>e. find_member M (mb_roomId m) (mb_playerId m) = Some e \<and> mb_host e) \<or> (\<forall>q. find_member M (mb_roomId m) q = None)" if "mb_host ?off"
        using that l(2) by simp
      show "k = ?off \<and> mb_socket ?off = Some t \<or> map_of (bySocket M) t = Some k \<and> \<not> (mb_roomId k = mb_roomId m \<and> mb_playerId k = mb_playerId m)"
        if "map_of (bySocket M') t = Some k" for t k
      proof -
        have k: "t \<noteq> s" "map_of (bySocket M) t = Some k" using that unfolding b by (simp_all split: if_splits)
        have "\<not> (mb_roomId k = mb_roomId m \<and> mb_playerId k = mb_playerId m)"
        proof
          assume "mb_roomId k = mb_roomId m \<and> mb_playerId k = mb_playerId m"
          then have "find_member M (mb_roomId k) (mb_playerId k) = Some m" using l(2) by (elim conjE) (simp only:)
          then have "k = m" unfolding index_ok_linked(2)[OF ix k(2)] by (rule option.inject[THEN iffD1])
          then show False using index_ok_linked(1)[OF ix k(2)] l(1) k(1) by simp
        qed
        then show ?thesis using k(2) by simp
      qed
    qed simp_all
    moreover have "seats_wf M'" unfolding M' by (rule seats_wf_update_seat) (simp add: seats_wf_link members_ok_parts(1)[OF ok])
    moreover have "next_ref M' = next_ref M + 1" unfolding M' by simp
    ultimately have "members_ok M'" by (simp add: members_ok_def)
    then show ?thesis using f b off Some by simp
  qed
  show "off = (case map_of (bySocket M) s of None \<Rightarrow> None
      | Some m \<Rightarrow> Some (m\<lparr>mb_ref := next_ref M, mb_status := Offline, mb_socket := None\<rparr>))"
    "find_member M' r q = (case off of None \<Rightarrow> find_member M r q | Some m \<Rightarrow> if r = mb_roomId m \<and> q = mb_playerId m then Some m else find_member M r q)"
    "map_of (bySocket M') = (map_of (bySocket M))(s := None)" "members_ok M'"
    using * by blast+
qed

lemma markOffline_ok: "members_ok M \<Longrightarrow> members_ok (snd (markOffline s M))"
  by (cases "markOffline s M") (simp add: markOffline_parts)

section \<open>What holds of the fan-out\<close>

text \<open>The two maps of the fan-out agree: a socket is in the audience of the room it is registered for, once, and in no other.\<close>

definition fanout_ok :: "broadcaster \<Rightarrow> bool" where
  "fanout_ok B \<longleftrightarrow> (\<forall>s room. map_of (roomOf B) s = Some room \<longleftrightarrow> s \<in> set (audience B room)) \<and> (\<forall>room. distinct (audience B room))"

lemma new_broadcaster_ok: "fanout_ok new_broadcaster"
  by (simp add: fanout_ok_def new_broadcaster_def audience_def)

lemma fanout_room_of: "fanout_ok B \<Longrightarrow> s \<in> set (audience B room) \<longleftrightarrow> map_of (roomOf B) s = Some room"
  unfolding fanout_ok_def by blast

lemma audience_unregister:
  assumes "fanout_ok B"
  shows "audience (bc_unregister s B) room = filter (\<lambda>t. t \<noteq> s) (audience B room)"
proof (cases "map_of (roomOf B) s")
  case None
  then have "s \<notin> set (audience B room)" using fanout_room_of[OF assms] by simp
  then show ?thesis using None by (simp add: bc_unregister_def filter_id_conv) (metis (mono_tags, lifting) filter_True)
next
  case (Some r)
  have other: "s \<notin> set (audience B room)" if "room \<noteq> r" using fanout_room_of[OF assms, of s room] Some that by simp
  have id: "filter (\<lambda>t. t \<noteq> s) (audience B room) = audience B room" if "room \<noteq> r"
    using other[OF that] by (intro filter_True) auto
  show ?thesis
  proof (cases "map_of (bc_rooms B) r")
    case None
    have "s \<in> set (audience B r)" using fanout_room_of[OF assms] Some by simp
    then show ?thesis using None by (simp add: audience_def)
  next
    case ss: (Some ss)
    show ?thesis
    proof (cases "room = r")
      case True then show ?thesis using Some ss by (simp add: bc_unregister_def audience_def Let_def)
    next
      case False then show ?thesis using Some ss id[OF False] by (simp add: bc_unregister_def audience_def Let_def)
    qed
  qed
qed

lemma roomOf_unregister: "map_of (roomOf (bc_unregister s B)) = (map_of (roomOf B))(s := None)"
proof (cases "map_of (roomOf B) s")
  case None
  then have "bc_unregister s B = B" by (simp add: bc_unregister_def)
  then show ?thesis using None by (simp add: fun_upd_idem)
next
  case (Some r) then show ?thesis by (simp add: bc_unregister_def Let_def split: option.split)
qed

lemma bc_unregister_ok: assumes "fanout_ok B" shows "fanout_ok (bc_unregister s B)"
  using assms unfolding fanout_ok_def audience_unregister[OF assms] roomOf_unregister by auto

lemma audience_register:
  assumes "fanout_ok B"
  shows "audience (bc_register room s B) r = filter (\<lambda>t. t \<noteq> s) (audience B r) @ (if r = room then [s] else [])"
proof -
  have "s \<notin> set (audience (bc_unregister s B) room)" by (simp add: audience_unregister[OF assms])
  then have "bc_register room s B = (let B1 = bc_unregister s B in
      B1\<lparr>bc_rooms := AList.update room (audience B1 room @ [s]) (bc_rooms B1), roomOf := AList.update s room (roomOf B1)\<rparr>)"
    by (simp add: bc_register_def Let_def)
  then have "audience (bc_register room s B) r = (if r = room then audience (bc_unregister s B) room @ [s] else audience (bc_unregister s B) r)"
    by (simp add: audience_def Let_def)
  then show ?thesis by (simp add: audience_unregister[OF assms])
qed

lemma bc_register_ok: assumes "fanout_ok B" shows "fanout_ok (bc_register room s B)"
proof -
  have r: "map_of (roomOf (bc_register room s B)) = (map_of (roomOf B))(s := Some room)"
    by (simp add: bc_register_def Let_def roomOf_unregister)
  show ?thesis using assms unfolding fanout_ok_def audience_register[OF assms] r by auto
qed

section \<open>What the registry keeps\<close>

definition registry_ok :: "registry \<Rightarrow> bool" where
  "registry_ok R \<longleftrightarrow> members_ok (members R)"

lemma new_registry_ok: "registry_ok new_registry"
  by (simp add: registry_ok_def new_registry_def no_members_ok)

lemma members_forgetRoom [simp]: "members (forgetRoom room R) = members R" by (simp add: forgetRoom_def)
lemma members_markPhase [simp]: "members (registry_markPhase room ph R) = members R" by (simp add: registry_markPhase_def)

lemma registerGame_members: "members (snd (registerGame room code R)) = members R"
  by (simp add: registerGame_def split: option.split)

lemma members_registry_join: "registry_join room s p n R = (m, R') \<Longrightarrow> join_member room s p n (members R) = (m, members R') \<and> phases R' = phases R \<and> gameCodes R' = gameCodes R"
  by (auto simp: registry_join_def split: prod.splits)

lemma members_registry_remove: "registry_remove s R = (gone, R') \<Longrightarrow> removeBySocket s (members R) = (gone, members R')"
  by (auto simp: registry_remove_def split: prod.splits option.splits if_splits)

lemma members_registry_markOffline: "registry_markOffline s R = (off, R') \<Longrightarrow> markOffline s (members R) = (off, members R')"
  by (auto simp: registry_markOffline_def split: prod.splits)

lemma members_registry_removePlayer: "registry_removePlayer room p R = (gone, R') \<Longrightarrow> remove_seat room p (members R) = (gone, members R')"
  by (auto simp: registry_removePlayer_def split: prod.splits)

lemma registry_ops_ok:
  assumes "registry_ok R"
  shows "registry_ok (snd (registerGame room code R))" "registry_ok (registry_markPhase room ph R)" "registry_ok (forgetRoom room R)"
    "registry_ok (snd (registry_join room s p n R))" "registry_ok (snd (registry_remove s R))" "registry_ok (snd (registry_markOffline s R))"
    "registry_ok (snd (registry_removePlayer room p R))"
proof -
  have ok: "members_ok (members R)" using assms by (simp add: registry_ok_def)
  show "registry_ok (snd (registerGame room code R))" "registry_ok (registry_markPhase room ph R)" "registry_ok (forgetRoom room R)"
    using ok by (simp_all add: registry_ok_def registerGame_members)
  show "registry_ok (snd (registry_join room s p n R))"
    using join_member_ok[OF ok] members_registry_join by (metis registry_ok_def prod.collapse)
  show "registry_ok (snd (registry_remove s R))"
    using removeBySocket_ok[OF ok] members_registry_remove by (metis registry_ok_def prod.collapse snd_conv)
  show "registry_ok (snd (registry_markOffline s R))"
    using markOffline_ok[OF ok] members_registry_markOffline by (metis registry_ok_def prod.collapse snd_conv)
  show "registry_ok (snd (registry_removePlayer room p R))"
    using remove_seat_ok[OF ok] members_registry_removePlayer by (metis registry_ok_def prod.collapse snd_conv)
qed

end
