(* ===== verification/Server.thy ===== *)
theory Server
  imports Sessions RoomSeats
begin

text \<open>
  The state of the running process and what its parts share: the store, who is where (\<open>RoomSeats\<close>), the open sockets
  and what was sent to them, the limits of the chat, the pulse of the sockets, the rooms waiting to be closed. Besides:
  the frames of the wire (\<open>ws/protocol.ts\<close>, \<open>ws/envelope.ts\<close>), sending and broadcasting (\<open>ws/handler.ts\<close>,
  \<open>ws/broadcaster.ts\<close>, \<open>ws/socket.ts\<close>), and the games as seen from here (\<open>game/module.ts\<close>, \<open>game/catalog.ts\<close>).

  A game module is a record of hooks. A hook sees the registry, the store and the games' own state, may change the last
  two at will and may throw; on what it shares with the rest it acts only through the ports the modules get: taking a
  seat away, marking the phase of a room, and sending. The clock is the clock of the store.
\<close>

section \<open>Frames\<close>

datatype ws_error_code =
    AUTH_REQUIRED | AUTH_FAILED | SESSION_EXPIRED | ROOM_NOT_FOUND | ROOM_FULL | NOT_IN_ROOM | ALREADY_IN_ROOM
  | GAME_ALREADY_STARTED | NOT_YOUR_TURN | INVALID_MESSAGE | RATE_LIMITED | INTERNAL

text \<open>The payload of a frame with its type; \<open>GameMessage\<close> is what game modules send. Texts for people are left out.\<close>

datatype ws_payload =
    SysConnected int
  | SysPong int
  | SysDisconnect string
  | SysReconnected "json ws_snapshot"
  | ErrorReply ws_error_code "string option"
  | RoomJoined string string "json ws_snapshot"
  | PlayerJoined ws_player
  | PlayerLeft string
  | PresenceUpdate string player_status
  | ReadyChanged string bool
  | ReactionBroadcast string string
  | ChatMessage string string string string int
  | CtrlSignaled string json
  | StateSync string "json ws_snapshot"
  | GameMessage string json

record frame =
  fr_payload :: ws_payload
  fr_ts :: int
  fr_roomId :: "string option"
  fr_msgId :: "string option"

record inbound =
  in_type :: string
  in_ts :: json
  in_payload :: "json option"
  in_roomId :: "string option"
  in_msgId :: "string option"

text \<open>\<open>z.string().optional()\<close>: absent or a string.\<close>

fun optional_string :: "json option \<Rightarrow> string option option" where
  "optional_string None = Some None"
| "optional_string (Some (JStr s)) = Some (Some s)"
| "optional_string _ = None"

text \<open>\<open>z.string().nullish()\<close>: absent, \<open>null\<close> or a string.\<close>

fun nullish_string :: "json option \<Rightarrow> string option option" where
  "nullish_string (Some JNull) = Some None"
| "nullish_string v = optional_string v"

definition is_number :: "json \<Rightarrow> bool" where
  "is_number v = (case v of JNum _ \<Rightarrow> True | JFraction \<Rightarrow> True | _ \<Rightarrow> False)"

text \<open>\<open>parseInbound\<close> on what \<open>JSON.parse\<close> made of the text; \<open>None\<close>: not a text, or not JSON.\<close>

definition parseInbound :: "json option \<Rightarrow> inbound option" where
  "parseInbound raw = (case raw of Some (JObj obj) \<Rightarrow>
       (case (map_of obj ''type'', map_of obj ''ts'', optional_string (map_of obj ''roomId''), optional_string (map_of obj ''msgId'')) of
          (Some (JStr t), Some ts, Some room, Some msg) \<Rightarrow>
            if t = [] \<or> \<not> is_number ts then None
            else Some \<lparr>in_type = t, in_ts = ts, in_payload = map_of obj ''payload'', in_roomId = room, in_msgId = msg\<rparr>
        | _ \<Rightarrow> None)
     | _ \<Rightarrow> None)"

definition HEARTBEAT_INTERVAL_MS :: int where "HEARTBEAT_INTERVAL_MS = 30000"
definition HEARTBEAT_TIMEOUT_MULTIPLIER :: int where "HEARTBEAT_TIMEOUT_MULTIPLIER = 3"
definition HEARTBEAT_TIMEOUT_MS :: int where "HEARTBEAT_TIMEOUT_MS = HEARTBEAT_INTERVAL_MS * HEARTBEAT_TIMEOUT_MULTIPLIER"
definition CHAT_TEXT_MAX_LENGTH :: nat where "CHAT_TEXT_MAX_LENGTH = 200"
definition REACTION_TYPES :: "string list" where "REACTION_TYPES = [''like'', ''laugh'', ''shock'', ''clap'', ''gg'']"

definition toWsPhase :: "room_phase \<Rightarrow> ws_phase" where
  "toWsPhase phase = (case phase of LOBBY \<Rightarrow> Waiting | PLAYING \<Rightarrow> Playing | FINISHED \<Rightarrow> Finished)"

section \<open>The process\<close>

text \<open>A close that is due carries the code of the game whose hooks its task calls.\<close>

record 'w server =
  sv_redis :: memory_redis
  sv_registry :: registry
  sv_fanout :: broadcaster
  sv_recent :: "(string \<times> int list) list"
  sv_beats :: "(socket \<times> int) list"
  sv_closes :: "(string \<times> int \<times> string option) list"
  sv_open :: "socket list"
  sv_sent :: "(socket \<times> frame) list"
  sv_games :: 'w

type_synonym ('w, 'a) serving = "('w server, platform_error, 'a) cmd"

definition sv_now :: "'w server \<Rightarrow> int" where
  "sv_now S = now (core (sv_redis S))"

definition on_redis :: "'a platform \<Rightarrow> ('w, 'a) serving" where
  "on_redis f S = (case f (sv_redis S) of (r, m) \<Rightarrow> (r, S\<lparr>sv_redis := m\<rparr>))"

definition on_registry :: "(registry \<Rightarrow> 'a \<times> registry) \<Rightarrow> ('w, 'a) serving" where
  "on_registry f S = (case f (sv_registry S) of (x, R) \<Rightarrow> (Inr x, S\<lparr>sv_registry := R\<rparr>))"

text \<open>Continue with what the state shows, or change it.\<close>

definition looking :: "('w server \<Rightarrow> 'b) \<Rightarrow> ('b \<Rightarrow> ('w, 'a) serving) \<Rightarrow> ('w, 'a) serving" where
  "looking g f S = f (g S) S"

definition seat_of :: "socket \<Rightarrow> 'w server \<Rightarrow> room_member option" where
  "seat_of s S = registry_of (sv_registry S) s"

definition change :: "('w server \<Rightarrow> 'w server) \<Rightarrow> ('w, unit) serving" where
  "change f S = (Inr (), f S)"

section \<open>Sending\<close>

definition isOpen :: "'w server \<Rightarrow> socket \<Rightarrow> bool" where
  "isOpen S s = (s \<in> set (sv_open S))"

definition envelope :: "'w server \<Rightarrow> ws_payload \<Rightarrow> string option \<Rightarrow> string option \<Rightarrow> frame" where
  "envelope S payload room msgId = \<lparr>fr_payload = payload, fr_ts = sv_now S, fr_roomId = room, fr_msgId = msgId\<rparr>"

definition send_frame :: "socket \<Rightarrow> frame \<Rightarrow> 'w server \<Rightarrow> 'w server" where
  "send_frame s f S = (if isOpen S s then S\<lparr>sv_sent := sv_sent S @ [(s, f)]\<rparr> else S)"

definition ws_send :: "socket \<Rightarrow> ws_payload \<Rightarrow> string option \<Rightarrow> string option \<Rightarrow> ('w, unit) serving" where
  "ws_send s payload room msgId = change (\<lambda>S. send_frame s (envelope S payload room msgId) S)"

definition sendError :: "socket \<Rightarrow> ws_error_code \<Rightarrow> inbound option \<Rightarrow> ('w, unit) serving" where
  "sendError s code request = ws_send s (ErrorReply code (case request of None \<Rightarrow> None | Some message \<Rightarrow> in_msgId message)) None None"

text \<open>One frame for every socket of the room that is open.\<close>

definition bc_broadcast :: "string \<Rightarrow> ws_payload \<Rightarrow> 'w server \<Rightarrow> 'w server" where
  "bc_broadcast room payload S = (let f = envelope S payload (Some room) None in
     S\<lparr>sv_sent := sv_sent S @ map (\<lambda>s. (s, f)) (filter (isOpen S) (audience (sv_fanout S) room))\<rparr>)"

definition ws_broadcast :: "string \<Rightarrow> ws_payload \<Rightarrow> ('w, unit) serving" where
  "ws_broadcast room payload = change (bc_broadcast room payload)"

definition broadcastPresence :: "string \<Rightarrow> string \<Rightarrow> player_status \<Rightarrow> ('w, unit) serving" where
  "broadcastPresence room p status = ws_broadcast room (PresenceUpdate p status)"

definition fanout_register :: "string \<Rightarrow> socket \<Rightarrow> ('w, unit) serving" where
  "fanout_register room s = change (\<lambda>S. S\<lparr>sv_fanout := bc_register room s (sv_fanout S)\<rparr>)"

definition fanout_unregister :: "socket \<Rightarrow> ('w, unit) serving" where
  "fanout_unregister s = change (\<lambda>S. S\<lparr>sv_fanout := bc_unregister s (sv_fanout S)\<rparr>)"

text \<open>\<open>socket.close(1008)\<close>: the socket is closing from here on; its \<open>close\<close> event comes later.\<close>

definition close_socket :: "socket \<Rightarrow> ('w, unit) serving" where
  "close_socket s = change (\<lambda>S. S\<lparr>sv_open := filter (\<lambda>t. t \<noteq> s) (sv_open S)\<rparr>)"

section \<open>Games\<close>

datatype act =
    SeatRemoved string string
  | PhaseMarked string ws_phase
  | PlayerLeftAnnounced string string
  | Announced string string json
  | Replied socket string json
  | Refused socket ws_error_code "string option"

fun act_on :: "act \<Rightarrow> 'w server \<Rightarrow> 'w server" where
  "act_on (SeatRemoved room p) S = S\<lparr>sv_registry := snd (registry_removePlayer room p (sv_registry S))\<rparr>"
| "act_on (PhaseMarked room phase) S = S\<lparr>sv_registry := registry_markPhase room phase (sv_registry S)\<rparr>"
| "act_on (PlayerLeftAnnounced room p) S = bc_broadcast room (PlayerLeft p) S"
| "act_on (Announced room type payload) S = bc_broadcast room (GameMessage type payload) S"
| "act_on (Replied s type payload) S = send_frame s (envelope S (GameMessage type payload) None None) S"
| "act_on (Refused s code ref) S = send_frame s (envelope S (ErrorReply code ref) None None) S"

type_synonym ('w, 'a) hook = "registry \<Rightarrow> memory_redis \<Rightarrow> 'w \<Rightarrow> (platform_error + 'a) \<times> memory_redis \<times> 'w \<times> act list"

definition run_hook :: "('w, 'a) hook \<Rightarrow> ('w, 'a) serving" where
  "run_hook h S = (case h (sv_registry S) (sv_redis S) (sv_games S) of (r, m, w, acts) \<Rightarrow>
     (r, fold act_on acts (S\<lparr>sv_redis := m, sv_games := w\<rparr>)))"

record 'w game_module =
  md_code :: string
  md_start :: "string \<Rightarrow> string \<times> room_snapshot \<Rightarrow> ('w, unit) hook"
  md_reset :: "string \<Rightarrow> ('w, unit) hook"
  md_reconnect :: "string \<Rightarrow> string \<Rightarrow> ('w, json ws_snapshot) hook"
  md_pause :: "string \<Rightarrow> ('w, unit) hook"
  md_resume :: "string \<Rightarrow> ('w, unit) hook"
  md_rehydrate :: "string \<Rightarrow> ('w, unit) hook"
  md_removePlayer :: "string \<Rightarrow> string \<Rightarrow> ('w, unit) hook"
  md_close :: "string \<Rightarrow> ('w, unit) hook"
  md_hasState :: "string \<Rightarrow> ('w, bool) hook"
  md_handles :: "string \<Rightarrow> bool"
  md_handle :: "socket \<Rightarrow> inbound \<Rightarrow> ('w, unit) hook"

section \<open>The catalog and the registered modules\<close>

record game_metadata =
  gm_code :: string
  gm_minPlayers :: int
  gm_maxPlayers :: int
  gm_supportsBots :: bool

definition GAME_CATALOG :: "game_metadata list" where
  "GAME_CATALOG = [
     \<lparr>gm_code = ''YACHT_DICE'', gm_minPlayers = 1, gm_maxPlayers = 6, gm_supportsBots = True\<rparr>,
     \<lparr>gm_code = ''DUEL'', gm_minPlayers = 2, gm_maxPlayers = 2, gm_supportsBots = False\<rparr>,
     \<lparr>gm_code = ''PING_PONG'', gm_minPlayers = 2, gm_maxPlayers = 2, gm_supportsBots = False\<rparr>,
     \<lparr>gm_code = ''DAVINCI_CODE'', gm_minPlayers = 2, gm_maxPlayers = 4, gm_supportsBots = False\<rparr>]"

definition normalizeGameCode :: "string option \<Rightarrow> string" where
  "normalizeGameCode code = to_upper (trim_text (case code of None \<Rightarrow> '''' | Some c \<Rightarrow> c))"

type_synonym game_catalog = "(string \<times> game_metadata) list"

fun catalog_add :: "game_metadata list \<Rightarrow> game_catalog \<Rightarrow> platform_error + game_catalog" where
  "catalog_add [] byCode = Inr byCode"
| "catalog_add (game # games) byCode = (let code = normalizeGameCode (Some (gm_code game)) in
     if has_key byCode code then Inl (OtherError ''duplicate_game_code'')
     else catalog_add games (AList.update code game byCode))"

definition new_catalog :: "game_metadata list \<Rightarrow> platform_error + game_catalog" where
  "new_catalog games = catalog_add games []"

definition require_game :: "game_catalog \<Rightarrow> string option \<Rightarrow> platform_error + game_metadata" where
  "require_game C code = (case map_of C (normalizeGameCode code) of
     None \<Rightarrow> Inl (domain_error ''invalid_game_code'') | Some game \<Rightarrow> Inr game)"

definition canonicalCode :: "game_catalog \<Rightarrow> string option \<Rightarrow> platform_error + string" where
  "canonicalCode C code = map_sum id gm_code (require_game C code)"

definition supportedCodes :: "game_catalog \<Rightarrow> string list" where
  "supportedCodes C = map fst C"

definition register_module :: "game_catalog \<Rightarrow> 'w game_module \<Rightarrow> (string \<times> 'w game_module) list
    \<Rightarrow> platform_error + (string \<times> 'w game_module) list" where
  "register_module C module modules = (case canonicalCode C (Some (md_code module)) of Inl e \<Rightarrow> Inl e
     | Inr code \<Rightarrow> if has_key modules code then Inl (OtherError ''duplicate_game_code'')
       else Inr (AList.update code module modules))"

definition module_byCode :: "(string \<times> 'w game_module) list \<Rightarrow> string option \<Rightarrow> 'w game_module option" where
  "module_byCode modules code = map_of modules (normalizeGameCode code)"

definition lower_text :: "string \<Rightarrow> string" where
  "lower_text text = map (\<lambda>c. case map_of (zip ''ABCDEFGHIJKLMNOPQRSTUVWXYZ'' ''abcdefghijklmnopqrstuvwxyz'') c of None \<Rightarrow> c | Some l \<Rightarrow> l) text"

definition gameWsType :: "string option \<Rightarrow> string option \<Rightarrow> platform_error + string" where
  "gameWsType gameCode eventType = (case (gameCode, eventType) of
     (Some g, Some e) \<Rightarrow> if blank g \<or> blank e then Inl (domain_error ''invalid_game_event_type'')
       else Inr (''game.'' @ lower_text g @ ''.'' @ e)
   | _ \<Rightarrow> Inl (domain_error ''invalid_game_event_type''))"

definition dispatch :: "(string \<times> 'w game_module) list \<Rightarrow> string option \<Rightarrow> socket \<Rightarrow> inbound \<Rightarrow> ('w, bool) serving" where
  "dispatch modules gameCode s message = (case module_byCode modules gameCode of None \<Rightarrow> ret False
     | Some module \<Rightarrow> (let prefix = ''game.'' @ lower_text (md_code module) @ ''.'' in
         if take (length prefix) (in_type message) \<noteq> prefix then ret False
         else (let eventType = drop (length prefix) (in_type message) in
           if \<not> md_handles module eventType then ret False
           else andThen (run_hook (md_handle module s (message\<lparr>in_type := eventType\<rparr>))) (\<lambda>_. ret True))))"

text \<open>What the process was assembled with: the hash of tokens, the fresh texts its random sources give (identifiers,
  tokens, room codes), the catalog and the modules.\<close>

record 'w assembly =
  as_hash :: "string \<Rightarrow> string"
  as_fresh :: "'w \<Rightarrow> string \<times> 'w"
  as_codes :: "'w \<Rightarrow> string list \<times> 'w"
  as_catalog :: game_catalog
  as_modules :: "(string \<times> 'w game_module) list"

definition fresh :: "'w assembly \<Rightarrow> ('w, string) serving" where
  "fresh A S = (case as_fresh A (sv_games S) of (x, w) \<Rightarrow> (Inr x, S\<lparr>sv_games := w\<rparr>))"

definition fresh_codes :: "'w assembly \<Rightarrow> ('w, string list) serving" where
  "fresh_codes A S = (case as_codes A (sv_games S) of (xs, w) \<Rightarrow> (Inr xs, S\<lparr>sv_games := w\<rparr>))"

end
