(* ===== verification/Gateway.thy ===== *)
theory Gateway
  imports Server
begin

text \<open>
  The WebSocket gateway: the snapshot of a room for its clients (\<open>ws/snapshot.ts\<close>), chat (\<open>ws/chat.ts\<close>), the pulse
  (\<open>ws/heartbeat.ts\<close>), the delayed closing of empty rooms (\<open>room/closeScheduler.ts\<close>), leaving (\<open>ws/roomLifecycle.ts\<close>),
  joining (\<open>ws/roomJoin.ts\<close>), the messages of a room (\<open>ws/roomMessages.ts\<close>, \<open>ws/controllerSignal.ts\<close>) and the handler
  that routes them (\<open>ws/handler.ts\<close>, \<open>ws/gateway.ts\<close>). Every event runs to its end before the next one.
\<close>

section \<open>The snapshot of a room\<close>

definition kind_text :: "participant_kind \<Rightarrow> string" where
  "kind_text k = (case k of HUMAN \<Rightarrow> ''HUMAN'' | BOT \<Rightarrow> ''BOT'')"

definition statusOf :: "registry \<Rightarrow> string \<Rightarrow> string \<Rightarrow> bool \<Rightarrow> player_status" where
  "statusOf R room p isBot = (if isBot then Online
     else (case registry_find R room p of None \<Rightarrow> Offline | Some m \<Rightarrow> mb_status m))"

definition ws_byPlayerId :: "ws_player \<Rightarrow> ws_player \<Rightarrow> int" where
  "ws_byPlayerId left right = (if wp_playerId left < wp_playerId right then -1 else 1)"

definition merged_player :: "registry \<Rightarrow> string \<Rightarrow> string option \<Rightarrow> player_snapshot \<Rightarrow> ws_player" where
  "merged_player R room hostId p = \<lparr>wp_playerId = ps_playerId p, wp_nickname = ps_nickname p,
     wp_status = statusOf R room (ps_playerId p) (ps_kind p = BOT), wp_isHost = (Some (ps_playerId p) = hostId),
     wp_kind = kind_text (ps_kind p)\<rparr>"

definition live_snapshot :: "string \<Rightarrow> ('w, json ws_snapshot) serving" where
  "live_snapshot room = andThen (on_redis (getSnapshot room)) (\<lambda>persistent. looking sv_registry (\<lambda>R. ret (case rs_phase persistent of
       None \<Rightarrow> registry_snapshot R room
     | Some phase \<Rightarrow> \<lparr>ws_roomId = room, ws_gameCode = rs_gameCode persistent, ws_phase_of = toWsPhase phase,
         ws_hostId = rs_hostId persistent,
         ws_players = sort_by ws_byPlayerId (map (merged_player R room (rs_hostId persistent)) (rs_players persistent)),
         ws_game = None, ws_capacity = rs_capacity persistent\<rparr>)))"

section \<open>Chat\<close>

definition CHAT_RATE_LIMIT :: nat where "CHAT_RATE_LIMIT = 10"
definition CHAT_RATE_WINDOW_MS :: int where "CHAT_RATE_WINDOW_MS = 10000"

datatype chat_rejection = Empty | Too_long | Rate_limited

definition exceedsRate :: "string \<Rightarrow> ('w, bool) serving" where
  "exceedsRate p S = (let t = sv_now S; kept = filter (\<lambda>at. t - at < CHAT_RATE_WINDOW_MS) (value_at (sv_recent S) p []) in
     if CHAT_RATE_LIMIT \<le> length kept then (Inr True, S\<lparr>sv_recent := AList.update p kept (sv_recent S)\<rparr>)
     else (Inr False, S\<lparr>sv_recent := AList.update p (kept @ [t]) (sv_recent S)\<rparr>))"

definition chat_send :: "'w assembly \<Rightarrow> room_member \<Rightarrow> string option \<Rightarrow> ('w, chat_rejection option) serving" where
  "chat_send A me rawText = (let text = trim_text (case rawText of None \<Rightarrow> '''' | Some t \<Rightarrow> t) in
     if text = [] then ret (Some Empty)
     else if CHAT_TEXT_MAX_LENGTH < length text then ret (Some Too_long)
     else andThen (exceedsRate (mb_playerId me)) (\<lambda>limited. if limited then ret (Some Rate_limited)
       else andThen (fresh A) (\<lambda>messageId. andThen (looking sv_now (\<lambda>at. ws_broadcast (mb_roomId me)
              (ChatMessage messageId (mb_playerId me) (mb_nickname me) text at))) (\<lambda>_. ret None))))"

definition chat_forget :: "string \<Rightarrow> ('w, unit) serving" where
  "chat_forget p = change (\<lambda>S. S\<lparr>sv_recent := AList.delete p (sv_recent S)\<rparr>)"

section \<open>Pulse\<close>

definition track :: "socket \<Rightarrow> ('w, unit) serving" where
  "track s = change (\<lambda>S. S\<lparr>sv_beats := AList.update s (sv_now S) (sv_beats S)\<rparr>)"

definition recordPing :: "socket \<Rightarrow> ('w, unit) serving" where
  "recordPing s = change (\<lambda>S. if has_key (sv_beats S) s then S\<lparr>sv_beats := AList.update s (sv_now S) (sv_beats S)\<rparr> else S)"

definition untrack :: "socket \<Rightarrow> ('w, unit) serving" where
  "untrack s = change (\<lambda>S. S\<lparr>sv_beats := AList.delete s (sv_beats S)\<rparr>)"

definition disconnectIdle :: "socket \<Rightarrow> ('w, unit) serving" where
  "disconnectIdle s = andThen (ws_send s (SysDisconnect ''idle_timeout'') None None) (\<lambda>_. close_socket s)"

text \<open>The entries as they were when the sweep began; one that changed meanwhile is left alone.\<close>

definition sweep_one :: "int \<Rightarrow> socket \<times> int \<Rightarrow> ('w, unit) serving" where
  "sweep_one t entry = (case entry of (s, lastPingAt) \<Rightarrow>
     if t - lastPingAt < HEARTBEAT_TIMEOUT_MS then ret ()
     else looking (\<lambda>S. map_of (sv_beats S) s) (\<lambda>current. if current \<noteq> Some lastPingAt then ret ()
            else andThen (untrack s) (\<lambda>_. disconnectIdle s)))"

definition sweep :: "('w, unit) serving" where
  "sweep = looking sv_now (\<lambda>t. looking sv_beats (\<lambda>entries. run_all (map (sweep_one t) entries)))"

section \<open>Closing empty rooms later\<close>

definition EMPTY_LOBBY_GRACE_MS :: int where "EMPTY_LOBBY_GRACE_MS = 30000"
definition ACTIVE_GAME_GRACE_MS :: int where "ACTIVE_GAME_GRACE_MS = 10 * 60 * 1000"

definition schedule_close :: "string \<Rightarrow> int \<Rightarrow> string option \<Rightarrow> ('w, unit) serving" where
  "schedule_close room delayMs gameCode = (if blank room then throw (OtherError ''roomId must not be blank'')
     else change (\<lambda>S. S\<lparr>sv_closes := AList.delete room (sv_closes S) @ [(room, sv_now S + max 0 delayMs, gameCode)]\<rparr>))"

definition cancel_close :: "string \<Rightarrow> ('w, bool) serving" where
  "cancel_close room S = (Inr (has_key (sv_closes S) room), S\<lparr>sv_closes := AList.delete room (sv_closes S)\<rparr>)"

section \<open>The hooks of a room's game\<close>

text \<open>Without a module there is nothing to pause or close, and a reconnecting player gets the snapshot of the room.\<close>

definition module_call :: "('w game_module \<Rightarrow> ('w, 'a) hook) \<Rightarrow> ('w, 'a) serving \<Rightarrow> 'w game_module option \<Rightarrow> ('w, 'a) serving" where
  "module_call h without module = (case module of None \<Rightarrow> without | Some md \<Rightarrow> run_hook (h md))"

definition game_of_room :: "'w assembly \<Rightarrow> string \<Rightarrow> 'w server \<Rightarrow> 'w game_module option" where
  "game_of_room A room S = module_byCode (as_modules A) (gameCodeOf (sv_registry S) room)"

section \<open>Leaving\<close>

definition forgetChat :: "socket \<Rightarrow> ('w, unit) serving" where
  "forgetChat s = looking (seat_of s) (\<lambda>member. case member of None \<Rightarrow> ret () | Some m \<Rightarrow> chat_forget (mb_playerId m))"

definition seats_in :: "string \<Rightarrow> 'w server \<Rightarrow> room_member list" where
  "seats_in room S = membersOf (sv_registry S) room"

definition closeRoomIfStillEmpty :: "'w assembly \<Rightarrow> string \<Rightarrow> string option \<Rightarrow> ('w, unit) serving" where
  "closeRoomIfStillEmpty A room gameCode = looking (seats_in room) (\<lambda>seated. if seated \<noteq> [] then ret ()
     else andThen (module_call (\<lambda>md. md_close md room) (ret ()) (module_byCode (as_modules A) gameCode)) (\<lambda>_.
          on_redis (room_close room)))"

text \<open>The game is looked up before the seat is taken away: an empty room forgets its game.\<close>

definition leaveRoom :: "'w assembly \<Rightarrow> socket \<Rightarrow> ('w, unit) serving" where
  "leaveRoom A s = looking (\<lambda>S. case seat_of s S of None \<Rightarrow> None | Some m \<Rightarrow> gameCodeOf (sv_registry S) (mb_roomId m)) (\<lambda>gameCode.
     let game = module_byCode (as_modules A) gameCode
     in andThen (on_registry (registry_remove s)) (\<lambda>gone. andThen (fanout_unregister s) (\<lambda>_.
        case gone of None \<Rightarrow> ret ()
        | Some m \<Rightarrow>
            andThen (on_redis (clearRoom (mb_playerId m))) (\<lambda>_.
            andThen (ws_broadcast (mb_roomId m) (PlayerLeft (mb_playerId m))) (\<lambda>_.
            looking (seats_in (mb_roomId m)) (\<lambda>seated. if seated \<noteq> [] then ret ()
            else andThen (module_call (\<lambda>md. md_pause md (mb_roomId m)) (ret ()) game) (\<lambda>_.
                 andThen (module_call (\<lambda>md. md_hasState md (mb_roomId m)) (ret False) game) (\<lambda>playing.
                 schedule_close (mb_roomId m) (if playing then ACTIVE_GAME_GRACE_MS else EMPTY_LOBBY_GRACE_MS) gameCode))))))))"

text \<open>The room of a seat is being played in.\<close>

definition in_play :: "room_member option \<Rightarrow> 'w server \<Rightarrow> bool" where
  "in_play member S = (case member of None \<Rightarrow> False | Some m \<Rightarrow> phaseOf (sv_registry S) (mb_roomId m) = Playing)"

definition lifecycle_closed :: "'w assembly \<Rightarrow> socket \<Rightarrow> ('w, unit) serving" where
  "lifecycle_closed A s = andThen (forgetChat s) (\<lambda>_. looking (seat_of s) (\<lambda>member. case member of
       None \<Rightarrow> fanout_unregister s
     | Some m \<Rightarrow> looking (in_play (Some m)) (\<lambda>playing.
         if playing
         then andThen (fanout_unregister s) (\<lambda>_. andThen (on_registry (registry_markOffline s)) (\<lambda>offline.
                case offline of None \<Rightarrow> ret () | Some m' \<Rightarrow> broadcastPresence (mb_roomId m') (mb_playerId m') Offline))
         else leaveRoom A s)))"

definition lifecycle_leave :: "'w assembly \<Rightarrow> socket \<Rightarrow> ('w, unit) serving" where
  "lifecycle_leave A s = andThen (forgetChat s) (\<lambda>_. looking (seat_of s) (\<lambda>member. case member of
       None \<Rightarrow> leaveRoom A s
     | Some m \<Rightarrow> looking (in_play (Some m)) (\<lambda>playing.
         if playing
         then andThen (fanout_unregister s) (\<lambda>_.
              andThen (looking (game_of_room A (mb_roomId m)) (module_call (\<lambda>md. md_removePlayer md (mb_roomId m) (mb_playerId m)) (ret ()))) (\<lambda>_.
              on_redis (clearRoom (mb_playerId m))))
         else leaveRoom A s)))"

section \<open>Joining\<close>

record identity =
  id_playerId :: string
  id_sessionToken :: string
  id_nickname :: string

definition hasSeat :: "room_snapshot \<Rightarrow> string \<Rightarrow> bool" where
  "hasSeat room p = list_ex (\<lambda>player. ps_playerId player = p) (rs_players room)"

definition resolveIdentity :: "'w assembly \<Rightarrow> string option \<Rightarrow> string option \<Rightarrow> ('w, identity) serving" where
  "resolveIdentity A nickname sessionToken = (if \<not> no_token sessionToken
     then andThen (on_redis (authenticateSession (as_hash A) sessionToken)) (\<lambda>user.
            ret \<lparr>id_playerId = ui_userId user, id_sessionToken = the sessionToken, id_nickname = ui_nickname user\<rparr>)
     else andThen (fresh A) (\<lambda>userId. andThen (fresh A) (\<lambda>token.
            andThen (on_redis (createGuest (as_hash A) nickname userId token)) (\<lambda>(u, n, t).
            ret \<lparr>id_playerId = u, id_sessionToken = t, id_nickname = n\<rparr>))))"

definition resolveJoinIdentity :: "'w assembly \<Rightarrow> socket \<Rightarrow> inbound \<Rightarrow> string option \<Rightarrow> string option \<Rightarrow> ('w, identity option) serving" where
  "resolveJoinIdentity A s message nickname sessionToken =
     try_catch (andThen (resolveIdentity A nickname sessionToken) (\<lambda>who. ret (Some who)))
       (\<lambda>e. andThen (sendError s (if e = SessionAuthenticationError then SESSION_EXPIRED else INVALID_MESSAGE) (Some message)) (\<lambda>_. ret None))"

text \<open>\<open>roomJoinPayloadSchema\<close>: room, nickname and token, each optional.\<close>

definition parse_join :: "json option \<Rightarrow> (string option \<times> string option \<times> string option) option" where
  "parse_join payload = (case payload of Some (JObj obj) \<Rightarrow>
       (case (nullish_string (map_of obj ''roomId''), nullish_string (map_of obj ''nickname''), nullish_string (map_of obj ''sessionToken'')) of
          (Some room, Some nickname, Some token) \<Rightarrow> Some (room, nickname, token)
        | _ \<Rightarrow> None)
     | _ \<Rightarrow> None)"

text \<open>\<open>registerGame\<close> with its errors, which are errors without a code.\<close>

definition register_game :: "string \<Rightarrow> string option \<Rightarrow> ('w, unit) serving" where
  "register_game room gameCode S = (case registerGame room gameCode (sv_registry S) of (r, R) \<Rightarrow>
     (map_sum (\<lambda>e. OtherError (case e of Invalid_game_code \<Rightarrow> ''invalid_game_code'' | Room_game_mismatch \<Rightarrow> ''room_game_mismatch'')) id r,
      S\<lparr>sv_registry := R\<rparr>))"

definition admitJoinRequest :: "'w assembly \<Rightarrow> socket \<Rightarrow> inbound \<Rightarrow> ('w, (string \<times> room_snapshot \<times> identity) option) serving" where
  "admitJoinRequest A s message = (case parse_join (in_payload message) of
       None \<Rightarrow> andThen (sendError s INVALID_MESSAGE (Some message)) (\<lambda>_. ret None)
     | Some (roomId, nickname, token) \<Rightarrow> (let roomId = (case roomId of None \<Rightarrow> '''' | Some r \<Rightarrow> r) in
         if blank roomId then andThen (sendError s INVALID_MESSAGE (Some message)) (\<lambda>_. ret None)
         else andThen (on_redis (getSnapshot roomId)) (\<lambda>room. case rs_phase room of
             None \<Rightarrow> andThen (sendError s ROOM_NOT_FOUND (Some message)) (\<lambda>_. ret None)
           | Some phase \<Rightarrow>
               andThen (register_game roomId (rs_gameCode room)) (\<lambda>_.
               andThen (on_registry (\<lambda>R. ((), registry_markPhase roomId (toWsPhase phase) R))) (\<lambda>_.
               andThen (resolveJoinIdentity A s message nickname token) (\<lambda>who.
               ret (case who of None \<Rightarrow> None | Some w \<Rightarrow> Some (roomId, room, w))))))))"

definition disconnectPreviousSocket :: "room_member option \<Rightarrow> socket \<Rightarrow> ('w, unit) serving" where
  "disconnectPreviousSocket previous replacement = (case previous of None \<Rightarrow> ret ()
     | Some m \<Rightarrow> (case mb_socket m of None \<Rightarrow> ret ()
         | Some old \<Rightarrow> if old = replacement then ret ()
             else andThen (fanout_unregister old) (\<lambda>_. looking (\<lambda>S. isOpen S old) (\<lambda>opened. if \<not> opened then ret ()
               else andThen (ws_send old (SysDisconnect ''replaced_by_new_session'') None None) (\<lambda>_. close_socket old)))))"

definition completeReconnect :: "'w assembly \<Rightarrow> socket \<Rightarrow> inbound \<Rightarrow> string \<Rightarrow> identity \<Rightarrow> ('w, unit) serving" where
  "completeReconnect A s message room who = andThen (fanout_register room s) (\<lambda>_.
     andThen (try_catch
        (andThen (looking (game_of_room A room) (module_call (\<lambda>md. md_reconnect md room (id_playerId who)) (live_snapshot room)))
           (\<lambda>snapshot. ret (Some snapshot)))
        (\<lambda>_. andThen (fanout_unregister s) (\<lambda>_. andThen (sendError s INTERNAL (Some message)) (\<lambda>_. ret None)))) (\<lambda>outcome.
     case outcome of None \<Rightarrow> ret ()
     | Some snapshot \<Rightarrow> andThen (ws_send s (SysReconnected snapshot) (Some room) (in_msgId message)) (\<lambda>_.
         broadcastPresence room (id_playerId who) Online)))"

definition completeFirstJoin :: "'w assembly \<Rightarrow> socket \<Rightarrow> string \<Rightarrow> identity \<Rightarrow> room_member \<Rightarrow> ('w, unit) serving" where
  "completeFirstJoin A s room who self = andThen (live_snapshot room) (\<lambda>snapshot.
     andThen (ws_send s (RoomJoined (id_playerId who) (id_sessionToken who) snapshot) (Some room) None) (\<lambda>_.
     andThen (ws_broadcast room (PlayerJoined (toWsPlayer self))) (\<lambda>_.
     andThen (fanout_register room s) (\<lambda>_.
     andThen (cancel_close room) (\<lambda>pending.
       if pending then looking (game_of_room A room) (module_call (\<lambda>md. md_resume md room) (ret ())) else ret ())))))"

text \<open>The seat the registry knows, and whether the room is being played in.\<close>

definition join_view :: "string \<Rightarrow> string \<Rightarrow> 'w server \<Rightarrow> room_member option \<times> bool" where
  "join_view room p S = (registry_find (sv_registry S) room p, phaseOf (sv_registry S) room = Playing)"

definition handleRoomJoin :: "'w assembly \<Rightarrow> socket \<Rightarrow> inbound \<Rightarrow> ('w, unit) serving" where
  "handleRoomJoin A s message = andThen (admitJoinRequest A s message) (\<lambda>request. case request of None \<Rightarrow> ret ()
     | Some (room, persistent, who) \<Rightarrow> looking (join_view room (id_playerId who)) (\<lambda>(previous, playing).
         let reseating = (previous = None \<and> playing \<and> hasSeat persistent (id_playerId who))
         in if playing \<and> previous = None \<and> \<not> reseating then sendError s GAME_ALREADY_STARTED (Some message)
            else andThen (on_registry (registry_join room s (id_playerId who) (id_nickname who))) (\<lambda>self.
                 andThen (disconnectPreviousSocket previous s) (\<lambda>_.
                 if previous \<noteq> None \<or> reseating then completeReconnect A s message room who
                 else completeFirstJoin A s room who self))))"

section \<open>Messages of a room\<close>

definition parse_ready :: "json option \<Rightarrow> bool option" where
  "parse_ready payload = (case payload of Some (JObj obj) \<Rightarrow>
       (case map_of obj ''ready'' of None \<Rightarrow> Some False | Some JNull \<Rightarrow> Some False | Some (JBool b) \<Rightarrow> Some b | _ \<Rightarrow> None)
     | _ \<Rightarrow> None)"

definition handleRoomReady :: "socket \<Rightarrow> inbound \<Rightarrow> ('w, unit) serving" where
  "handleRoomReady s message = (case parse_ready (in_payload message) of
       None \<Rightarrow> sendError s INVALID_MESSAGE (Some message)
     | Some ready \<Rightarrow> looking (seat_of s) (\<lambda>member. case member of
           None \<Rightarrow> sendError s NOT_IN_ROOM (Some message)
         | Some me \<Rightarrow> ws_broadcast (mb_roomId me) (ReadyChanged (mb_playerId me) ready)))"

text \<open>\<open>isReaction\<close>\<close>

definition parse_reaction :: "json option \<Rightarrow> string option" where
  "parse_reaction payload = (case payload of Some (JObj obj) \<Rightarrow>
       (case map_of obj ''reaction'' of Some (JStr r) \<Rightarrow> if r \<in> set REACTION_TYPES then Some r else None | _ \<Rightarrow> None)
     | _ \<Rightarrow> None)"

definition handleReactionSend :: "socket \<Rightarrow> inbound \<Rightarrow> ('w, unit) serving" where
  "handleReactionSend s message = (case parse_reaction (in_payload message) of
       None \<Rightarrow> sendError s INVALID_MESSAGE (Some message)
     | Some reaction \<Rightarrow> looking (seat_of s) (\<lambda>member. case member of
           None \<Rightarrow> sendError s NOT_IN_ROOM (Some message)
         | Some me \<Rightarrow> ws_broadcast (mb_roomId me) (ReactionBroadcast (mb_playerId me) reaction)))"

definition parse_chat :: "json option \<Rightarrow> string option option" where
  "parse_chat payload = (case payload of Some (JObj obj) \<Rightarrow> nullish_string (map_of obj ''text'') | _ \<Rightarrow> None)"

definition handleChatSend :: "'w assembly \<Rightarrow> socket \<Rightarrow> inbound \<Rightarrow> ('w, unit) serving" where
  "handleChatSend A s message = (case parse_chat (in_payload message) of
       None \<Rightarrow> sendError s INVALID_MESSAGE (Some message)
     | Some text \<Rightarrow> looking (seat_of s) (\<lambda>member. case member of
           None \<Rightarrow> sendError s NOT_IN_ROOM (Some message)
         | Some me \<Rightarrow> andThen (chat_send A me text) (\<lambda>rejection. case rejection of None \<Rightarrow> ret ()
             | Some Rate_limited \<Rightarrow> sendError s RATE_LIMITED (Some message)
             | Some _ \<Rightarrow> sendError s INVALID_MESSAGE (Some message))))"

text \<open>\<open>ctrl.signal\<close>: whom to and what, which is not looked into.\<close>

definition parse_signal :: "json option \<Rightarrow> (string option \<times> json option) option" where
  "parse_signal payload = (case payload of Some (JObj obj) \<Rightarrow>
       map_option (\<lambda>to. (to, map_of obj ''data'')) (nullish_string (map_of obj ''to''))
     | _ \<Rightarrow> None)"

definition signal_to :: "room_member \<Rightarrow> string \<Rightarrow> json \<Rightarrow> ('w, unit) serving" where
  "signal_to me to payload = looking (\<lambda>S. registry_find (sv_registry S) (mb_roomId me) to) (\<lambda>target. case target of None \<Rightarrow> ret ()
     | Some m \<Rightarrow> (case mb_socket m of None \<Rightarrow> ret ()
         | Some t \<Rightarrow> looking (\<lambda>S. isOpen S t) (\<lambda>opened. if \<not> opened then ret ()
             else ws_send t (CtrlSignaled (mb_playerId me) payload) (Some (mb_roomId me)) None)))"

definition handleControllerSignal :: "socket \<Rightarrow> inbound \<Rightarrow> ('w, unit) serving" where
  "handleControllerSignal s message = (case parse_signal (in_payload message) of
       None \<Rightarrow> sendError s INVALID_MESSAGE (Some message)
     | Some (to, payload) \<Rightarrow>
         if no_token to \<or> payload = None \<or> payload = Some JNull then sendError s INVALID_MESSAGE (Some message)
         else looking (seat_of s) (\<lambda>member. case member of
             None \<Rightarrow> sendError s NOT_IN_ROOM (Some message)
           | Some me \<Rightarrow> signal_to me (the to) (the payload)))"

section \<open>The handler\<close>

definition ws_connected :: "socket \<Rightarrow> ('w, unit) serving" where
  "ws_connected s = andThen (looking sv_now (\<lambda>t. ws_send s (SysConnected t) None None)) (\<lambda>_. track s)"

definition handleSysPing :: "socket \<Rightarrow> ('w, unit) serving" where
  "handleSysPing s = andThen (recordPing s) (\<lambda>_. looking sv_now (\<lambda>t. ws_send s (SysPong t) None None))"

definition handleGameMessage :: "'w assembly \<Rightarrow> socket \<Rightarrow> inbound \<Rightarrow> ('w, unit) serving" where
  "handleGameMessage A s message = looking (seat_of s) (\<lambda>member. case member of
       None \<Rightarrow> sendError s AUTH_REQUIRED (Some message)
     | Some m \<Rightarrow> looking (\<lambda>S. gameCodeOf (sv_registry S) (mb_roomId m)) (\<lambda>gameCode.
         andThen (dispatch (as_modules A) gameCode s message) (\<lambda>handled.
         if handled then ret () else sendError s INVALID_MESSAGE (Some message))))"

definition ws_message :: "'w assembly \<Rightarrow> socket \<Rightarrow> json option \<Rightarrow> ('w, unit) serving" where
  "ws_message A s raw = (case parseInbound raw of None \<Rightarrow> sendError s INVALID_MESSAGE None
     | Some message \<Rightarrow>
         if in_type message = ''sys.ping'' then handleSysPing s
         else if in_type message = ''room.join'' then handleRoomJoin A s message
         else if in_type message = ''room.leave'' then lifecycle_leave A s
         else if in_type message = ''room.ready'' then handleRoomReady s message
         else if in_type message = ''reaction.send'' then handleReactionSend s message
         else if in_type message = ''chat.send'' then handleChatSend A s message
         else if in_type message = ''ctrl.signal'' then handleControllerSignal s message
         else handleGameMessage A s message)"

definition ws_closed :: "'w assembly \<Rightarrow> socket \<Rightarrow> ('w, unit) serving" where
  "ws_closed A s = andThen (untrack s) (\<lambda>_. lifecycle_closed A s)"

text \<open>\<open>originAllowed\<close>, and \<open>runGuarded\<close>: an error ends the task and nothing else.\<close>

definition originAllowed :: "string option \<Rightarrow> string list \<Rightarrow> bool" where
  "originAllowed origin allowed = (allowed = [] \<or> origin = None \<or> ''*'' \<in> set allowed \<or> the origin \<in> set allowed)"

definition runGuarded :: "('w, unit) serving \<Rightarrow> 'w server \<Rightarrow> 'w server" where
  "runGuarded task S = snd (task S)"

text \<open>A close that is due: the entry is gone before its task runs, and the task's error is only reported.\<close>

definition close_due :: "'w assembly \<Rightarrow> string \<Rightarrow> 'w server \<Rightarrow> 'w server" where
  "close_due A room S = (case map_of (sv_closes S) room of None \<Rightarrow> S
     | Some (due, gameCode) \<Rightarrow> if sv_now S < due then S
         else runGuarded (closeRoomIfStillEmpty A room gameCode) (S\<lparr>sv_closes := AList.delete room (sv_closes S)\<rparr>))"

text \<open>What happens to the process: a socket connects, sends, is closed; a sweep; a close that is due; the games act by
  themselves (their timers, the routes); time passes.\<close>

datatype 'w happening =
    Connected socket
  | Received socket "json option"
  | Closed socket
  | Swept
  | CloseDue string
  | GamesRun "('w, unit) hook"
  | Waited int

definition ws_event :: "'w assembly \<Rightarrow> 'w happening \<Rightarrow> 'w server \<Rightarrow> 'w server" where
  "ws_event A event S = (case event of
     Connected s \<Rightarrow> runGuarded (ws_connected s) (S\<lparr>sv_open := s # sv_open S\<rparr>)
   | Received s raw \<Rightarrow> runGuarded (ws_message A s raw) S
   | Closed s \<Rightarrow> runGuarded (ws_closed A s) (S\<lparr>sv_open := filter (\<lambda>t. t \<noteq> s) (sv_open S)\<rparr>)
   | Swept \<Rightarrow> runGuarded sweep S
   | CloseDue room \<Rightarrow> close_due A room S
   | GamesRun h \<Rightarrow> runGuarded (run_hook h) S
   | Waited d \<Rightarrow> S\<lparr>sv_redis := (sv_redis S)\<lparr>core := (core (sv_redis S))\<lparr>now := sv_now S + max 0 d\<rparr>\<rparr>\<rparr>)"

definition boot :: "memory_redis \<Rightarrow> 'w \<Rightarrow> 'w server" where
  "boot m w = \<lparr>sv_redis = m, sv_registry = new_registry, sv_fanout = new_broadcaster, sv_recent = [], sv_beats = [],
     sv_closes = [], sv_open = [], sv_sent = [], sv_games = w\<rparr>"

inductive ws_reachable :: "'w assembly \<Rightarrow> 'w server \<Rightarrow> bool" for A where
  booted: "ws_reachable A (boot m w)"
| stepped: "ws_reachable A S \<Longrightarrow> ws_reachable A (ws_event A event S)"

end
