(* ===== verification/GatewayTheorems.thy ===== *)
theory GatewayTheorems
  imports Gateway
begin

text \<open>
  What the gateway guarantees: who is seated, linked and addressed agrees in every reachable state, and silent
  sockets are ended.
\<close>

section \<open>Commands that keep a condition of the state\<close>

definition preserves :: "('w server \<Rightarrow> bool) \<Rightarrow> ('w, 'a) serving \<Rightarrow> bool" where
  "preserves I f = (\<forall>S. I S \<longrightarrow> I (snd (f S)))"

named_theorems preserve_intros \<open>commands that keep a condition of the state\<close>

lemma preservesD: "preserves I f \<Longrightarrow> I S \<Longrightarrow> I (snd (f S))"
  by (simp add: preserves_def)

lemma preserves_simple [preserve_intros]: "preserves I (ret x)" "preserves I (throw e)" "preserves I (\<lambda>S. (r, S))"
  by (simp_all add: preserves_def)

lemma preserves_andThen [preserve_intros]: "preserves I f \<Longrightarrow> (\<And>x. preserves I (g x)) \<Longrightarrow> preserves I (andThen f g)"
  by (auto simp: preserves_def andThen_app split: sum.split)

lemma preserves_try_catch [preserve_intros]: "preserves I f \<Longrightarrow> (\<And>e. preserves I (h e)) \<Longrightarrow> preserves I (try_catch f h)"
  unfolding preserves_def try_catch_def by (auto split: sum.split prod.split)

lemma preserves_if [preserve_intros]: "preserves I f \<Longrightarrow> preserves I g \<Longrightarrow> preserves I (if b then f else g)"
  by simp

lemma preserves_option [preserve_intros]: "preserves I f \<Longrightarrow> (\<And>x. preserves I (g x)) \<Longrightarrow> preserves I (case v of None \<Rightarrow> f | Some x \<Rightarrow> g x)"
  by (simp split: option.split)

lemma preserves_pair [preserve_intros]: "(\<And>x y. preserves I (f x y)) \<Longrightarrow> preserves I (case v of (x, y) \<Rightarrow> f x y)"
  by (simp split: prod.split)

lemma preserves_looking [preserve_intros]: "(\<And>x. preserves I (f x)) \<Longrightarrow> preserves I (looking g f)"
  by (simp add: preserves_def looking_def)

lemma preserves_rejection [preserve_intros]: "preserves I f \<Longrightarrow> preserves I g \<Longrightarrow> preserves I h \<Longrightarrow>
    preserves I (case r of Empty \<Rightarrow> f | Too_long \<Rightarrow> g | Rate_limited \<Rightarrow> h)"
  by (simp split: chat_rejection.split)

lemma preserves_let [preserve_intros]: "(\<And>x. preserves I (f x)) \<Longrightarrow> preserves I (let x = v in f x)"
  by simp

lemma preserves_run_all [preserve_intros]: "(\<And>f. f \<in> set fs \<Longrightarrow> preserves I f) \<Longrightarrow> preserves I (run_all fs)"
  by (induction fs) (auto intro!: preserve_intros)

section \<open>Seats, links and audiences agree\<close>

definition gateway_ok :: "'w server \<Rightarrow> bool" where
  "gateway_ok S \<longleftrightarrow> registry_ok (sv_registry S) \<and> fanout_ok (sv_fanout S) \<and> wf_map (sv_beats S)"

lemma gateway_ok_cong: "sv_registry T = sv_registry S \<Longrightarrow> sv_fanout T = sv_fanout S \<Longrightarrow> sv_beats T = sv_beats S \<Longrightarrow> gateway_ok T = gateway_ok S"
  by (simp add: gateway_ok_def)

lemma same_parts_preserve: "(\<And>S. sv_registry (snd (f S)) = sv_registry S \<and> sv_fanout (snd (f S)) = sv_fanout S \<and> sv_beats (snd (f S)) = sv_beats S) \<Longrightarrow> preserves gateway_ok f"
  by (simp add: preserves_def gateway_ok_def)

lemma send_frame_parts [simp]: "sv_registry (send_frame s f S) = sv_registry S" "sv_fanout (send_frame s f S) = sv_fanout S"
  "sv_redis (send_frame s f S) = sv_redis S" "sv_open (send_frame s f S) = sv_open S" "sv_beats (send_frame s f S) = sv_beats S"
  "sv_closes (send_frame s f S) = sv_closes S" "sv_games (send_frame s f S) = sv_games S" "sv_recent (send_frame s f S) = sv_recent S"
  by (simp_all add: send_frame_def)

lemma bc_broadcast_parts [simp]: "sv_registry (bc_broadcast room p S) = sv_registry S" "sv_fanout (bc_broadcast room p S) = sv_fanout S"
  "sv_redis (bc_broadcast room p S) = sv_redis S" "sv_beats (bc_broadcast room p S) = sv_beats S" "sv_open (bc_broadcast room p S) = sv_open S"
  "sv_games (bc_broadcast room p S) = sv_games S" "sv_recent (bc_broadcast room p S) = sv_recent S"
  by (simp_all add: bc_broadcast_def Let_def)

lemma gateway_ok_simple [preserve_intros]:
  "preserves gateway_ok (ws_send s p r msg)" "preserves gateway_ok (sendError s code request)" "preserves gateway_ok (ws_broadcast room p)"
  "preserves gateway_ok (broadcastPresence room q status)" "preserves gateway_ok (close_socket s)" "preserves gateway_ok (on_redis f)"
  "preserves gateway_ok (chat_forget q)"
  "preserves gateway_ok (schedule_close room d gc)" "preserves gateway_ok (cancel_close room)" "preserves gateway_ok (fresh A)"
  by (rule same_parts_preserve; simp add: ws_send_def sendError_def ws_broadcast_def broadcastPresence_def close_socket_def on_redis_def
      chat_forget_def schedule_close_def cancel_close_def fresh_def change_def split: prod.split)+

lemma gateway_ok_beats [preserve_intros]:
  "preserves gateway_ok (track s)" "preserves gateway_ok (recordPing s)" "preserves gateway_ok (untrack s)"
  by (simp_all add: preserves_def gateway_ok_def track_def recordPing_def untrack_def change_def)

lemma gateway_ok_fanout [preserve_intros]: "preserves gateway_ok (fanout_register room s)" "preserves gateway_ok (fanout_unregister s)"
  by (auto simp: preserves_def gateway_ok_def fanout_register_def fanout_unregister_def change_def bc_register_ok bc_unregister_ok)

lemma gateway_ok_registry [preserve_intros]:
  "preserves gateway_ok (on_registry (registry_remove s))" "preserves gateway_ok (on_registry (registry_markOffline s))"
  "preserves gateway_ok (on_registry (registry_join room s p n))" "preserves gateway_ok (on_registry (\<lambda>R. ((), registry_markPhase room ph R)))"
  "preserves gateway_ok (register_game room code)"
  using registry_ops_ok by (auto simp: preserves_def gateway_ok_def on_registry_def register_game_def split: prod.split) (metis snd_conv)+

lemma gateway_ok_act: "gateway_ok S \<Longrightarrow> gateway_ok (act_on a S)"
  by (cases a) (simp_all add: gateway_ok_def registry_ops_ok)

lemma gateway_ok_acts: "gateway_ok S \<Longrightarrow> gateway_ok (fold act_on acts S)"
  by (induction acts arbitrary: S) (simp_all add: gateway_ok_act)

lemma gateway_ok_hook [preserve_intros]: "preserves gateway_ok (run_hook h)"
  by (auto simp: preserves_def run_hook_def split: prod.split intro!: gateway_ok_acts) (simp add: gateway_ok_def)

lemma gateway_ok_module [preserve_intros]: "preserves gateway_ok f \<Longrightarrow> preserves gateway_ok (module_call h f module)"
  by (simp add: module_call_def preserve_intros split: option.split)

text \<open>What is built from commands that keep the condition keeps it.\<close>

lemmas gateway_commands = live_snapshot_def disconnectIdle_def forgetChat_def chat_send_def sweep_one_def sweep_def leaveRoom_def
  lifecycle_closed_def lifecycle_leave_def closeRoomIfStillEmpty_def resolveIdentity_def resolveJoinIdentity_def admitJoinRequest_def
  disconnectPreviousSocket_def completeReconnect_def completeFirstJoin_def handleRoomJoin_def handleRoomReady_def
  handleReactionSend_def handleChatSend_def signal_to_def handleControllerSignal_def ws_connected_def handleSysPing_def
  dispatch_def handleGameMessage_def ws_closed_def

lemma gateway_ok_rate [preserve_intros]: "preserves gateway_ok (exceedsRate p)"
  by (rule same_parts_preserve) (simp add: exceedsRate_def Let_def)

lemma gateway_ok_sweep [preserve_intros]: "preserves gateway_ok sweep"
  unfolding sweep_def sweep_one_def disconnectIdle_def by (auto intro!: preserve_intros simp: case_prod_beta)

lemma gateway_ok_leave [preserve_intros]: "preserves gateway_ok (leaveRoom A s)"
  unfolding leaveRoom_def Let_def by (intro preserve_intros)

lemma gateway_ok_message: "preserves gateway_ok (ws_message A s raw)"
  unfolding ws_message_def gateway_commands Let_def
  by (intro preserve_intros)

lemma gateway_ok_closed: "preserves gateway_ok (ws_closed A s)"
  unfolding ws_closed_def lifecycle_closed_def forgetChat_def by (intro preserve_intros)


lemma gateway_ok_due: "preserves gateway_ok (closeRoomIfStillEmpty A room gc)"
  unfolding closeRoomIfStillEmpty_def by (intro preserve_intros)

lemma gateway_ok_set [simp]:
  "gateway_ok (S\<lparr>sv_open := x\<rparr>) = gateway_ok S" "gateway_ok (S\<lparr>sv_closes := y\<rparr>) = gateway_ok S" "gateway_ok (S\<lparr>sv_redis := z\<rparr>) = gateway_ok S"
  by (simp_all add: gateway_ok_def)

lemma gateway_ok_connected: "preserves gateway_ok (ws_connected s)"
  unfolding ws_connected_def by (intro preserve_intros)

lemma gateway_ok_event: "gateway_ok S \<Longrightarrow> gateway_ok (ws_event A event S)"
proof (induction event)
  case (Connected s)
  then show ?case using preservesD[OF gateway_ok_connected, of "S\<lparr>sv_open := s # sv_open S\<rparr>"] by (simp add: ws_event_def runGuarded_def)
next
  case (Received s raw)
  then show ?case using preservesD[OF gateway_ok_message] by (simp add: ws_event_def runGuarded_def)
next
  case (Closed s)
  then show ?case using preservesD[OF gateway_ok_closed, of "S\<lparr>sv_open := filter (\<lambda>t. t \<noteq> s) (sv_open S)\<rparr>"] by (simp add: ws_event_def runGuarded_def)
next
  case Swept
  then show ?case using preservesD[OF gateway_ok_sweep] by (simp add: ws_event_def runGuarded_def)
next
  case (CloseDue room)
  then show ?case using preservesD[OF gateway_ok_due, of "S\<lparr>sv_closes := AList.delete room (sv_closes S)\<rparr>"]
    by (simp add: ws_event_def close_due_def runGuarded_def split: option.split prod.split)
next
  case (GamesRun h)
  then show ?case using preservesD[OF gateway_ok_hook] by (simp add: ws_event_def runGuarded_def)
next
  case (Waited d)
  then show ?case by (simp add: ws_event_def)
qed

lemma gateway_ok_boot: "gateway_ok (boot m w)"
  by (simp add: gateway_ok_def boot_def new_registry_ok new_broadcaster_ok)

lemma reachable_gateway_ok: "ws_reachable A S \<Longrightarrow> gateway_ok S"
  by (induction rule: ws_reachable.induct) (simp_all add: gateway_ok_boot gateway_ok_event)

text \<open>
  C29: Seats, links and audiences agree. In every state the process reaches, whatever arrives in whatever order and
  whatever the games do: a socket that is linked to a seat is the socket of that seat; a seat without a socket is exactly an
  offline one; a room has at most one host; and a socket is in the audience of the room it is registered for, once,
  and in no other, so that nobody receives a broadcast twice or from another room.
\<close>
theorem seats_and_links_agree:
  assumes "ws_reachable A S"
  shows "(seat_of s S = Some m \<longrightarrow> mb_socket m = Some s \<and> registry_find (sv_registry S) (mb_roomId m) (mb_playerId m) = Some m)
    \<and> (registry_find (sv_registry S) room p = Some e \<longrightarrow> mb_roomId e = room \<and> mb_playerId e = p \<and> (mb_socket e = None \<longleftrightarrow> mb_status e = Offline))
    \<and> (registry_find (sv_registry S) room p = Some e \<and> registry_find (sv_registry S) room q = Some f \<and> mb_host e \<and> mb_host f \<longrightarrow> p = q)
    \<and> (s \<in> set (audience (sv_fanout S) room) \<longleftrightarrow> map_of (roomOf (sv_fanout S)) s = Some room) \<and> distinct (audience (sv_fanout S) room)"
proof -
  have ok: "members_ok (members (sv_registry S))" and fan: "fanout_ok (sv_fanout S)"
    using reachable_gateway_ok[OF assms] by (simp_all add: gateway_ok_def registry_ok_def)
  note ix = members_ok_parts(2)[OF ok]
  have link: "mb_socket m = Some s \<and> registry_find (sv_registry S) (mb_roomId m) (mb_playerId m) = Some m" if "seat_of s S = Some m"
    using index_ok_linked[OF ix, of s m] that by (simp add: seat_of_def registry_of_def ofSocket_def registry_find_def)
  have seat: "mb_roomId e = room \<and> mb_playerId e = p \<and> (mb_socket e = None \<longleftrightarrow> mb_status e = Offline)"
    if "registry_find (sv_registry S) room p = Some e"
    using index_ok_seat[OF ix, of room p e] that by (simp add: registry_find_def)
  have host: "p = q" if "registry_find (sv_registry S) room p = Some e \<and> registry_find (sv_registry S) room q = Some f \<and> mb_host e \<and> mb_host f"
    using ix that unfolding index_ok_def registry_find_def by blast
  have fans: "distinct (audience (sv_fanout S) room)" using fan unfolding fanout_ok_def by blast
  show ?thesis using link seat host fans fanout_room_of[OF fan, of s room] by blast
qed

theorem seats_and_links_agree_witness:
  "let S = ws_event \<lparr>as_hash = rev, as_fresh = (\<lambda>w. (''guest'', w)), as_codes = (\<lambda>w. ([], w)), as_catalog = [], as_modules = []\<rparr>
       (Received 7 (Some (JObj [(''type'', JStr ''room.join''), (''ts'', JNum 0),
          (''payload'', JObj [(''roomId'', JStr ''ABC''), (''nickname'', JStr ''Kim'')])])))
       (boot \<lparr>core = fresh_room, changes = 0\<rparr> ())
   in (7 \<in> set (audience (sv_fanout S) ''ABC'') \<longleftrightarrow> map_of (roomOf (sv_fanout S)) 7 = Some ''ABC'')
     \<and> registry_find (sv_registry S) ''ABC'' ''guest'' \<noteq> None"
proof -
  let ?A = "\<lparr>as_hash = rev, as_fresh = (\<lambda>w. (''guest'', w)), as_codes = (\<lambda>w. ([], w)), as_catalog = [], as_modules = []\<rparr>"
  let ?S = "ws_event ?A (Received 7 (Some (JObj [(''type'', JStr ''room.join''), (''ts'', JNum 0),
      (''payload'', JObj [(''roomId'', JStr ''ABC''), (''nickname'', JStr ''Kim'')])]))) (boot \<lparr>core = fresh_room, changes = 0\<rparr> ())"
  have "ws_reachable ?A ?S" by (intro stepped booted)
  note ok = seats_and_links_agree[OF this, of 7 _ "''ABC''"]
  have "registry_find (sv_registry ?S) ''ABC'' ''guest'' \<noteq> None" by code_simp
  then show ?thesis using ok unfolding Let_def by blast
qed

section \<open>Silent sockets\<close>

lemma send_frame_sent: "sv_sent (send_frame s f S) = sv_sent S @ (if isOpen S s then [(s, f)] else [])"
  by (simp add: send_frame_def)

definition idle_frame :: "'w server \<Rightarrow> frame" where
  "idle_frame S = envelope S (SysDisconnect ''idle_timeout'') None None"

definition silent_too_long :: "int \<Rightarrow> socket \<times> int \<Rightarrow> bool" where
  "silent_too_long t entry = (90000 \<le> t - snd entry)"

lemma delete_filter: "AList.delete k es = filter (\<lambda>e. fst e \<noteq> k) es"
  by (induction es) auto

lemma sweep_run:
  fixes S :: "'w server" and t :: int
  assumes "wf_map es" "\<And>s l. (s, l) \<in> set es \<Longrightarrow> map_of (sv_beats S) s = Some l"
  defines "late \<equiv> map fst (filter (silent_too_long t) es)"
  defines "T \<equiv> snd (run_all (map (sweep_one t) es) S)"
  shows "fst (run_all (map (sweep_one t) es) S) = Inr ()"
    "sv_beats T = filter (\<lambda>e. fst e \<notin> set late) (sv_beats S)"
    "sv_open T = filter (\<lambda>s. s \<notin> set late) (sv_open S)"
    "sv_sent T = sv_sent S @ map (\<lambda>s. (s, idle_frame S)) (filter (isOpen S) late)"
    "sv_redis T = sv_redis S" "sv_registry T = sv_registry S" "sv_fanout T = sv_fanout S" "sv_games T = sv_games S"
proof -
  have limit: "HEARTBEAT_TIMEOUT_MS = 90000" by (simp add: HEARTBEAT_TIMEOUT_MS_def HEARTBEAT_INTERVAL_MS_def HEARTBEAT_TIMEOUT_MULTIPLIER_def)
  have "fst (run_all (map (sweep_one t) es) S) = Inr () \<and> (let T = snd (run_all (map (sweep_one t) es) S); late = map fst (filter (silent_too_long t) es) in
      sv_beats T = filter (\<lambda>e. fst e \<notin> set late) (sv_beats S)
      \<and> sv_open T = filter (\<lambda>s. s \<notin> set late) (sv_open S)
      \<and> sv_sent T = sv_sent S @ map (\<lambda>s. (s, idle_frame S)) (filter (isOpen S) late)
      \<and> sv_redis T = sv_redis S \<and> sv_registry T = sv_registry S \<and> sv_fanout T = sv_fanout S \<and> sv_games T = sv_games S)"
    using assms(1,2)
  proof (induction es arbitrary: S)
    case (Cons e es)
    obtain s l where e: "e = (s, l)" by (cases e)
    show ?case
    proof (cases "silent_too_long t e")
      case False
      then have "sweep_one t e S = (Inr (), S)" by (simp add: sweep_one_def e silent_too_long_def limit)
      then show ?thesis using Cons.IH[of S] Cons.prems False by (simp add: Let_def)
    next
      case True
      let ?U = "send_frame s (idle_frame S) (S\<lparr>sv_beats := AList.delete s (sv_beats S)\<rparr>)"
      let ?V = "?U\<lparr>sv_open := filter (\<lambda>t. t \<noteq> s) (sv_open S)\<rparr>"
      have "map_of (sv_beats S) s = Some l" using Cons.prems(2)[of s l] e by simp
      then have one: "sweep_one t e S = (Inr (), ?V)" using True
        by (simp add: sweep_one_def e silent_too_long_def limit looking_def untrack_def change_def disconnectIdle_def ws_send_def
            close_socket_def idle_frame_def envelope_def sv_now_def)
      have s: "s \<notin> fst ` set es" using Cons.prems(1) e by simp
      have ne: "x \<noteq> s" if "(x, l') \<in> set es" for x l' using s that by force
      have v: "map_of (sv_beats ?V) x = Some l'" if "(x, l') \<in> set es" for x l'
        using Cons.prems(2)[of x l'] that ne[OF that] by simp
      have frame: "idle_frame ?V = idle_frame S" by (simp add: idle_frame_def envelope_def sv_now_def)
      have absent: "(s, l') \<notin> set es" for l' using ne by blast
      have opened: "filter (isOpen ?V) (map fst (filter (silent_too_long t) es)) = filter (isOpen S) (map fst (filter (silent_too_long t) es))"
        by (intro filter_cong) (auto simp: isOpen_def absent)
      have ih: "wf_map es" using Cons.prems(1) by simp
      show ?thesis using Cons.IH[OF ih v] one True e s
        unfolding Let_def frame opened
        by (auto simp: send_frame_sent idle_frame_def isOpen_def delete_filter conj_commute)
    qed
  qed simp
  then show "fst (run_all (map (sweep_one t) es) S) = Inr ()"
    "sv_beats T = filter (\<lambda>e. fst e \<notin> set late) (sv_beats S)"
    "sv_open T = filter (\<lambda>s. s \<notin> set late) (sv_open S)"
    "sv_sent T = sv_sent S @ map (\<lambda>s. (s, idle_frame S)) (filter (isOpen S) late)"
    "sv_redis T = sv_redis S" "sv_registry T = sv_registry S" "sv_fanout T = sv_fanout S" "sv_games T = sv_games S"
    by (simp_all add: T_def late_def Let_def)
qed

definition idle_sockets :: "'w server \<Rightarrow> socket list" where
  "idle_sockets S = map fst (filter (silent_too_long (sv_now S)) (sv_beats S))"

lemma swept:
  assumes "wf_map (sv_beats S)"
  shows "sv_beats (ws_event A Swept S) = filter (\<lambda>e. \<not> silent_too_long (sv_now S) e) (sv_beats S)"
    "sv_open (ws_event A Swept S) = filter (\<lambda>s. s \<notin> set (idle_sockets S)) (sv_open S)"
    "sv_sent (ws_event A Swept S) = sv_sent S @ map (\<lambda>s. (s, idle_frame S)) (filter (isOpen S) (idle_sockets S))"
    "sv_redis (ws_event A Swept S) = sv_redis S" "sv_registry (ws_event A Swept S) = sv_registry S"
    "sv_fanout (ws_event A Swept S) = sv_fanout S"
proof -
  have entry: "map_of (sv_beats S) s = Some l" if "(s, l) \<in> set (sv_beats S)" for s l using assms that by simp
  have one: "fst e \<in> set (idle_sockets S) \<longleftrightarrow> silent_too_long (sv_now S) e" if e: "e \<in> set (sv_beats S)" for e
  proof -
    have "l = snd e" if "(fst e, l) \<in> set (sv_beats S)" for l using entry[OF that] entry[of "fst e" "snd e"] e by simp
    then show ?thesis using e by (fastforce simp: idle_sockets_def)
  qed
  have run: "ws_event A Swept S = snd (run_all (map (sweep_one (sv_now S)) (sv_beats S)) S)"
    by (simp add: ws_event_def runGuarded_def sweep_def looking_def)
  note facts = sweep_run[OF assms entry, of "sv_now S", folded run]
  show "sv_beats (ws_event A Swept S) = filter (\<lambda>e. \<not> silent_too_long (sv_now S) e) (sv_beats S)"
    using facts(2) one by (auto simp: idle_sockets_def intro!: filter_cong)
  show "sv_open (ws_event A Swept S) = filter (\<lambda>s. s \<notin> set (idle_sockets S)) (sv_open S)"
    "sv_sent (ws_event A Swept S) = sv_sent S @ map (\<lambda>s. (s, idle_frame S)) (filter (isOpen S) (idle_sockets S))"
    "sv_redis (ws_event A Swept S) = sv_redis S" "sv_registry (ws_event A Swept S) = sv_registry S"
    "sv_fanout (ws_event A Swept S) = sv_fanout S"
    using facts(3-7) by (simp_all add: idle_sockets_def)
qed

lemma swept_idle: "wf_map (sv_beats S) \<Longrightarrow> idle_sockets S = [] \<Longrightarrow> ws_event A Swept S = S"
proof -
  assume none: "idle_sockets S = []"
  have "run_all (map (sweep_one (sv_now S)) es) S = (Inr (), S)" if "filter (silent_too_long (sv_now S)) es = []" for es
    using that by (induction es)
      (auto simp: sweep_one_def silent_too_long_def HEARTBEAT_TIMEOUT_MS_def HEARTBEAT_INTERVAL_MS_def HEARTBEAT_TIMEOUT_MULTIPLIER_def split: if_splits)
  then show ?thesis using none by (simp add: ws_event_def runGuarded_def sweep_def looking_def idle_sockets_def)
qed

lemma ping_is_fresh:
  assumes "wf_map (sv_beats S)" "parseInbound raw = Some message" "in_type message = ''sys.ping''" "d < 90000"
  shows "s \<notin> set (idle_sockets (ws_event A (Waited d) (ws_event A (Received s raw) S)))"
proof -
  let ?T = "snd (handleSysPing s S)"
  have T: "ws_event A (Received s raw) S = ?T" using assms by (simp add: ws_event_def runGuarded_def ws_message_def)
  have beats: "sv_beats ?T = (if has_key (sv_beats S) s then AList.update s (sv_now S) (sv_beats S) else sv_beats S)"
    and time: "sv_now ?T = sv_now S"
    by (simp_all add: handleSysPing_def recordPing_def change_def looking_def ws_send_def sv_now_def)
  have wf: "wf_map (sv_beats ?T)" using assms(1) by (simp add: beats)
  have "l = sv_now S" if "(s, l) \<in> set (sv_beats ?T)" for l
  proof -
    have at: "map_of (sv_beats ?T) s = Some l" using wf that by simp
    show ?thesis using at by (auto simp: beats has_key_def split: if_splits)
  qed
  moreover have "sv_beats (ws_event A (Waited d) X) = sv_beats X" "sv_now (ws_event A (Waited d) X) = sv_now X + max 0 d" for X
    by (simp_all add: ws_event_def sv_now_def)
  ultimately show ?thesis using assms(4) by (auto simp: T idle_sockets_def silent_too_long_def time)
qed

text \<open>
  C32: Silent sockets are ended, and only those. A sweep forgets and closes exactly the sockets whose last ping is ninety
  seconds old or older, tells each of them that is still open why, once, and touches nothing else: no seat, no audience, no
  stored value. A second sweep at the same time does nothing, and a socket that has just sent a ping survives every
  sweep of the next ninety seconds.
\<close>
theorem silent_sockets_are_ended:
  assumes "ws_reachable A S"
  shows "sv_beats (ws_event A Swept S) = filter (\<lambda>e. \<not> silent_too_long (sv_now S) e) (sv_beats S)
    \<and> sv_open (ws_event A Swept S) = filter (\<lambda>s. s \<notin> set (idle_sockets S)) (sv_open S)
    \<and> sv_sent (ws_event A Swept S) = sv_sent S @ map (\<lambda>s. (s, idle_frame S)) (filter (isOpen S) (idle_sockets S))
    \<and> sv_redis (ws_event A Swept S) = sv_redis S \<and> sv_registry (ws_event A Swept S) = sv_registry S \<and> sv_fanout (ws_event A Swept S) = sv_fanout S
    \<and> ws_event A Swept (ws_event A Swept S) = ws_event A Swept S
    \<and> (parseInbound raw = Some message \<and> in_type message = ''sys.ping'' \<and> d < 90000 \<longrightarrow>
        s \<notin> set (idle_sockets (ws_event A (Waited d) (ws_event A (Received s raw) S))))"
proof -
  have wf: "wf_map (sv_beats S)" using reachable_gateway_ok[OF assms] by (simp add: gateway_ok_def)
  note sw = swept[OF wf, where A = A]
  have rest: "idle_sockets (ws_event A Swept S) = []" by (simp add: idle_sockets_def sw sv_now_def filter_empty_conv)
  have again: "ws_event A Swept (ws_event A Swept S) = ws_event A Swept S"
    using wf by (intro swept_idle rest) (simp add: sw)
  show ?thesis using sw again ping_is_fresh[OF wf, of raw message d s A] by blast
qed

theorem silent_sockets_are_ended_witness:
  "let A = \<lparr>as_hash = rev, as_fresh = (\<lambda>w. (''guest'', w)), as_codes = (\<lambda>w. ([], w)), as_catalog = [], as_modules = []\<rparr>;
       S = ws_event A (Waited 90000) (ws_event A (Connected 7) (boot \<lparr>core = fresh_room, changes = 0\<rparr> ()))
   in sv_open (ws_event A Swept S) = []"
proof -
  let ?A = "\<lparr>as_hash = rev, as_fresh = (\<lambda>w. (''guest'', w)), as_codes = (\<lambda>w. ([], w)), as_catalog = [], as_modules = []\<rparr>"
  let ?S = "ws_event ?A (Waited 90000) (ws_event ?A (Connected 7) (boot \<lparr>core = fresh_room, changes = 0\<rparr> ()))"
  have "ws_reachable ?A ?S" by (intro stepped booted)
  note ok = silent_sockets_are_ended[OF this]
  have "filter (\<lambda>s. s \<notin> set (idle_sockets ?S)) (sv_open ?S) = []" by code_simp
  then show ?thesis using ok unfolding Let_def by metis
qed

end
