(* ===== verification/Speaking.thy ===== *)
theory Speaking
  imports GatewayTheorems
begin

text \<open>
  Who is heard (\<open>ws/roomMessages.ts\<close>, \<open>ws/chat.ts\<close>, \<open>ws/controllerSignal.ts\<close>): nobody speaks in the name of another, and the
  chat is limited.
\<close>

section \<open>Who speaks\<close>

definition sends :: "(socket \<times> frame \<Rightarrow> bool) \<Rightarrow> ('w, 'a) serving \<Rightarrow> bool" where
  "sends P f = (\<forall>S. \<exists>new. sv_sent (snd (f S)) = sv_sent S @ new \<and> list_all P new)"

named_theorems send_intros \<open>what a command sends\<close>

lemma sendsI: "(\<And>S. \<exists>new. sv_sent (snd (f S)) = sv_sent S @ new \<and> list_all P new) \<Longrightarrow> sends P f"
  by (simp add: sends_def)

lemma sendsE: assumes "sends P f" obtains new where "sv_sent (snd (f S)) = sv_sent S @ new" "list_all P new"
  using assms unfolding sends_def by blast

lemma sends_silent: "(\<And>S. sv_sent (snd (f S)) = sv_sent S) \<Longrightarrow> sends P f"
  by (simp add: sends_def)

lemma sends_simple [send_intros]: "sends P (ret x)" "sends P (throw e)"
  by (simp_all add: sends_def)

lemma sends_andThen [send_intros]: assumes f: "sends P f" and g: "\<And>x. sends P (g x)" shows "sends P (andThen f g)"
proof (rule sendsI)
  fix S
  obtain n1 where n1: "sv_sent (snd (f S)) = sv_sent S @ n1" "list_all P n1" by (rule sendsE[OF f])
  show "\<exists>new. sv_sent (snd (andThen f g S)) = sv_sent S @ new \<and> list_all P new"
  proof (cases "fst (f S)")
    case (Inl e) then show ?thesis using n1 by simp
  next
    case (Inr x)
    obtain n2 where n2: "sv_sent (snd (g x (snd (f S)))) = sv_sent (snd (f S)) @ n2" "list_all P n2" by (rule sendsE[OF g])
    show ?thesis using n1 n2 Inr by (intro exI[of _ "n1 @ n2"]) simp
  qed
qed

lemma sends_try_catch [send_intros]: assumes f: "sends P f" and h: "\<And>e. sends P (h e)" shows "sends P (try_catch f h)"
proof (rule sendsI)
  fix S
  obtain n1 where n1: "sv_sent (snd (f S)) = sv_sent S @ n1" "list_all P n1" by (rule sendsE[OF f])
  show "\<exists>new. sv_sent (snd (try_catch f h S)) = sv_sent S @ new \<and> list_all P new"
  proof (cases "f S")
    case (Pair r T)
    show ?thesis
    proof (cases r)
      case (Inl e)
      obtain n2 where n2: "sv_sent (snd (h e T)) = sv_sent T @ n2" "list_all P n2" by (rule sendsE[OF h])
      show ?thesis using n1 n2 Inl Pair by (intro exI[of _ "n1 @ n2"]) (simp add: try_catch_def)
    next
      case (Inr x) then show ?thesis using n1 Pair by (simp add: try_catch_def)
    qed
  qed
qed

lemma sends_if [send_intros]: "sends P f \<Longrightarrow> sends P g \<Longrightarrow> sends P (if b then f else g)"
  and sends_option [send_intros]: "sends P f \<Longrightarrow> (\<And>x. sends P (h x)) \<Longrightarrow> sends P (case v of None \<Rightarrow> f | Some x \<Rightarrow> h x)"
  and sends_pair [send_intros]: "(\<And>x y. sends P (k x y)) \<Longrightarrow> sends P (case u of (x, y) \<Rightarrow> k x y)"
  and sends_let [send_intros]: "(\<And>x. sends P (l x)) \<Longrightarrow> sends P (let x = w in l x)"
  by (simp_all split: option.split prod.split)

lemma sends_looking [send_intros]: "(\<And>x. sends P (f x)) \<Longrightarrow> sends P (looking g f)"
  by (simp add: sends_def looking_def)

lemma sends_rejection [send_intros]: "sends P f \<Longrightarrow> sends P g \<Longrightarrow> sends P h \<Longrightarrow>
    sends P (case r of Empty \<Rightarrow> f | Too_long \<Rightarrow> g | Rate_limited \<Rightarrow> h)"
  by (simp split: chat_rejection.split)

lemma sends_run_all [send_intros]: "(\<And>f. f \<in> set fs \<Longrightarrow> sends P f) \<Longrightarrow> sends P (run_all fs)"
  by (induction fs) (auto intro!: send_intros)

lemma sends_nothing [send_intros]:
  "sends P (on_redis f)" "sends P (on_registry r)" "sends P (chat_forget q)" "sends P (track s)" "sends P (recordPing s)"
  "sends P (untrack s)" "sends P (schedule_close room d gc)" "sends P (cancel_close room)" "sends P (fresh A)" "sends P (close_socket s)"
  "sends P (fanout_register room s)" "sends P (fanout_unregister s)" "sends P (register_game room gc)" "sends P (exceedsRate q)"
  by (rule sends_silent; simp add: on_redis_def on_registry_def chat_forget_def track_def recordPing_def untrack_def schedule_close_def
      cancel_close_def fresh_def close_socket_def fanout_register_def fanout_unregister_def register_game_def exceedsRate_def Let_def
      change_def split: prod.split)+

text \<open>The frames in which a player speaks: the player named, and the name shown.\<close>

fun speaker :: "ws_payload \<Rightarrow> (string \<times> string option) option" where
  "speaker (ChatMessage i p n text at) = Some (p, Some n)"
| "speaker (ReadyChanged p ready) = Some (p, None)"
| "speaker (ReactionBroadcast p reaction) = Some (p, None)"
| "speaker (CtrlSignaled p payload) = Some (p, None)"
| "speaker _ = None"

definition nobody :: "socket \<times> frame \<Rightarrow> bool" where
  "nobody sent = (speaker (fr_payload (snd sent)) = None)"

lemma broadcast_sent: "sv_sent (bc_broadcast room payload S) = sv_sent S @ map (\<lambda>s. (s, envelope S payload (Some room) None)) (filter (isOpen S) (audience (sv_fanout S) room))"
  by (simp add: bc_broadcast_def Let_def)

lemma nobody_envelope [simp]: "nobody (s, envelope S payload r msg) = (speaker payload = None)"
  by (simp add: nobody_def envelope_def)

lemma nobody_send [send_intros]: "speaker payload = None \<Longrightarrow> sends nobody (ws_send s payload r msg)"
  and nobody_error [send_intros]: "sends nobody (sendError s code request)"
  and nobody_broadcast [send_intros]: "speaker payload = None \<Longrightarrow> sends nobody (ws_broadcast room payload)"
  and nobody_presence [send_intros]: "sends nobody (broadcastPresence room q status)"
  by (rule sendsI; simp add: ws_send_def sendError_def ws_broadcast_def broadcastPresence_def change_def send_frame_sent broadcast_sent list_all_iff)+

lemma nobody_act: "\<exists>new. sv_sent (act_on a S) = sv_sent S @ new \<and> list_all nobody new"
  by (cases a) (simp_all add: send_frame_sent broadcast_sent list_all_iff)

lemma nobody_acts: "\<exists>new. sv_sent (fold act_on acts S) = sv_sent S @ new \<and> list_all nobody new"
proof (induction acts arbitrary: S)
  case (Cons a acts)
  obtain n1 where n1: "sv_sent (act_on a S) = sv_sent S @ n1" "list_all nobody n1" using nobody_act by blast
  obtain n2 where n2: "sv_sent (fold act_on acts (act_on a S)) = sv_sent (act_on a S) @ n2" "list_all nobody n2" using Cons by blast
  show ?case using n1 n2 by (intro exI[of _ "n1 @ n2"]) simp
qed simp

lemma nobody_hook [send_intros]: "sends nobody (run_hook h)"
proof (rule sendsI)
  fix S :: "'a server"
  obtain r m w acts where h: "h (sv_registry S) (sv_redis S) (sv_games S) = (r, m, w, acts)" by (metis surj_pair)
  show "\<exists>new. sv_sent (snd (run_hook h S)) = sv_sent S @ new \<and> list_all nobody new"
    using nobody_acts[of acts "S\<lparr>sv_redis := m, sv_games := w\<rparr>"] by (simp add: run_hook_def h)
qed

lemma nobody_module [send_intros]: "sends nobody f \<Longrightarrow> sends nobody (module_call h f module)"
  by (simp add: module_call_def send_intros split: option.split)

lemma nobody_leave [send_intros]: "sends nobody (leaveRoom A s)"
  unfolding leaveRoom_def Let_def by (intro send_intros) simp_all

lemma nobody_closed: "sends nobody (ws_closed A s)"
  unfolding ws_closed_def lifecycle_closed_def forgetChat_def by (intro send_intros)

lemma nobody_left: "sends nobody (lifecycle_leave A s)"
  unfolding lifecycle_leave_def forgetChat_def by (intro send_intros)

lemma nobody_snapshot [send_intros]: "sends nobody (live_snapshot room)"
  unfolding live_snapshot_def by (intro send_intros)

lemma nobody_joined: "sends nobody (handleRoomJoin A s message)"
  unfolding handleRoomJoin_def admitJoinRequest_def resolveJoinIdentity_def resolveIdentity_def disconnectPreviousSocket_def
    completeReconnect_def completeFirstJoin_def Let_def
  by (intro send_intros) simp_all

lemma nobody_others:
  "sends nobody sweep" "sends nobody (closeRoomIfStillEmpty A room gc)" "sends nobody (ws_connected s)" "sends nobody (handleSysPing s)"
  "sends nobody (handleGameMessage A s message)"
  unfolding sweep_def sweep_one_def disconnectIdle_def closeRoomIfStillEmpty_def ws_connected_def handleSysPing_def handleGameMessage_def
    dispatch_def Let_def
  by (auto intro!: send_intros simp: case_prod_beta)


definition spoken_by :: "'w happening \<Rightarrow> 'w server \<Rightarrow> socket \<times> frame \<Rightarrow> bool" where
  "spoken_by event S sent = (case speaker (fr_payload (snd sent)) of None \<Rightarrow> True
     | Some (p, n) \<Rightarrow> (case event of
         Received s raw \<Rightarrow> (case seat_of s S of None \<Rightarrow> False
           | Some me \<Rightarrow> mb_playerId me = p \<and> (n = None \<or> n = Some (mb_nickname me)) \<and> fr_roomId (snd sent) = Some (mb_roomId me)
               \<and> (fst sent \<in> set (audience (sv_fanout S) (mb_roomId me))
                  \<or> list_ex (\<lambda>m. mb_socket m = Some (fst sent)) (seats_in (mb_roomId me) S)))
       | _ \<Rightarrow> False))"

lemma nobody_spoken: "list_all nobody new \<Longrightarrow> list_all (spoken_by event S) new"
  by (auto simp: list_all_iff nobody_def spoken_by_def)

lemma silent_spoken: "sends nobody f \<Longrightarrow> \<exists>new. sv_sent (snd (f S)) = sv_sent S @ new \<and> list_all (spoken_by event T) new"
  using nobody_spoken unfolding sends_def by blast

lemma broadcast_spoken:
  assumes "seat_of s S = Some me" "speaker payload = Some (mb_playerId me, n)" "n = None \<or> n = Some (mb_nickname me)"
    "sv_fanout T = sv_fanout S"
  shows "\<exists>new. sv_sent (snd (ws_broadcast (mb_roomId me) payload T)) = sv_sent T @ new \<and> list_all (spoken_by (Received s raw) S) new"
  using assms by (auto simp: ws_broadcast_def change_def broadcast_sent list_all_iff spoken_by_def envelope_def)

lemma find_in_seats: "registry_find R room p = Some m \<Longrightarrow> m \<in> set (membersOf R room)"
  by (force simp: registry_find_def find_member_def membersOf_def ofRoom_def dest!: map_of_SomeD)

lemma ready_spoken: "\<exists>new. sv_sent (snd (handleRoomReady s message S)) = sv_sent S @ new \<and> list_all (spoken_by (Received s raw) S) new"
proof (cases "parse_ready (in_payload message)")
  case None then show ?thesis using silent_spoken[OF nobody_error] by (simp add: handleRoomReady_def)
next
  case (Some ready)
  show ?thesis
  proof (cases "seat_of s S")
    case None then show ?thesis using Some silent_spoken[OF nobody_error] by (simp add: handleRoomReady_def looking_def)
  next
    case me: (Some me)
    show ?thesis using broadcast_spoken[OF me, of "ReadyChanged (mb_playerId me) ready" None S] Some me
      by (simp add: handleRoomReady_def looking_def)
  qed
qed

lemma reaction_spoken: "\<exists>new. sv_sent (snd (handleReactionSend s message S)) = sv_sent S @ new \<and> list_all (spoken_by (Received s raw) S) new"
proof (cases "parse_reaction (in_payload message)")
  case None then show ?thesis using silent_spoken[OF nobody_error] by (simp add: handleReactionSend_def)
next
  case (Some reaction)
  show ?thesis
  proof (cases "seat_of s S")
    case None then show ?thesis using Some silent_spoken[OF nobody_error] by (simp add: handleReactionSend_def looking_def)
  next
    case me: (Some me)
    show ?thesis using broadcast_spoken[OF me, of "ReactionBroadcast (mb_playerId me) reaction" None S] Some me
      by (simp add: handleReactionSend_def looking_def)
  qed
qed

lemma signal_spoken: "\<exists>new. sv_sent (snd (handleControllerSignal s message S)) = sv_sent S @ new \<and> list_all (spoken_by (Received s raw) S) new"
proof -
  have err: "\<exists>new. sv_sent (snd (sendError s code (Some message) S)) = sv_sent S @ new \<and> list_all (spoken_by (Received s raw) S) new" for code
    using silent_spoken[OF nobody_error] .
  have sig: "\<exists>new. sv_sent (snd (signal_to me to payload S)) = sv_sent S @ new \<and> list_all (spoken_by (Received s raw) S) new"
    if me: "seat_of s S = Some me" for me to payload
  proof (cases "\<exists>m t. registry_find (sv_registry S) (mb_roomId me) to = Some m \<and> mb_socket m = Some t \<and> isOpen S t")
    case True
    then obtain m t where t: "registry_find (sv_registry S) (mb_roomId me) to = Some m" "mb_socket m = Some t" "isOpen S t" by blast
    have "list_ex (\<lambda>m. mb_socket m = Some t) (seats_in (mb_roomId me) S)"
      using find_in_seats[OF t(1)] t(2) by (auto simp: list_ex_iff seats_in_def)
    then show ?thesis using t me
      by (simp add: signal_to_def looking_def ws_send_def change_def send_frame_sent spoken_by_def envelope_def)
  next
    case False
    then have "snd (signal_to me to payload S) = S" by (auto simp: signal_to_def looking_def split: option.split)
    then show ?thesis by simp
  qed
  show ?thesis
  proof (cases "parse_signal (in_payload message)")
    case None then show ?thesis using err by (simp add: handleControllerSignal_def)
  next
    case (Some sg)
    then show ?thesis using err sig by (cases sg; cases "seat_of s S") (auto simp: handleControllerSignal_def looking_def)
  qed
qed

lemma rate_run: "\<exists>b es. exceedsRate p S = (Inr b, S\<lparr>sv_recent := es\<rparr>)"
  unfolding exceedsRate_def Let_def by (cases "CHAT_RATE_LIMIT \<le> length (filter (\<lambda>at. sv_now S - at < CHAT_RATE_WINDOW_MS) (value_at (sv_recent S) p []))") auto

lemma fresh_parts: "\<exists>x. fst (fresh A S) = Inr x" "sv_fanout (snd (fresh A S)) = sv_fanout S" "sv_sent (snd (fresh A S)) = sv_sent S"
  by (simp_all add: fresh_def split: prod.split)

lemma chat_spoken: "\<exists>new. sv_sent (snd (handleChatSend A s message S)) = sv_sent S @ new \<and> list_all (spoken_by (Received s raw) S) new"
proof (cases "parse_chat (in_payload message)")
  case None then show ?thesis using silent_spoken[OF nobody_error] by (simp add: handleChatSend_def)
next
  case (Some body)
  show ?thesis
  proof (cases "seat_of s S")
    case None then show ?thesis using Some silent_spoken[OF nobody_error] by (simp add: handleChatSend_def looking_def)
  next
    case me: (Some me)
    let ?said = "trim_text (case body of None \<Rightarrow> '''' | Some t \<Rightarrow> t)"
    consider (refused) "?said = [] \<or> CHAT_TEXT_MAX_LENGTH < length ?said" | (checked) "?said \<noteq> []" "\<not> CHAT_TEXT_MAX_LENGTH < length ?said" by blast
    then show ?thesis
    proof cases
      case refused
      then have "\<exists>r. chat_send A me body S = (Inr (Some r), S) \<and> (r = Empty \<or> r = Too_long)" by (auto simp: chat_send_def Let_def)
      then show ?thesis using me Some silent_spoken[OF nobody_error, of s INVALID_MESSAGE "Some message" S]
        by (auto simp: handleChatSend_def looking_def)
    next
      case checked
      obtain b es where rate: "exceedsRate (mb_playerId me) S = (Inr b, S\<lparr>sv_recent := es\<rparr>)" using rate_run by blast
      let ?R = "S\<lparr>sv_recent := es\<rparr>"
      show ?thesis
      proof (cases b)
        case True
        then have "chat_send A me body S = (Inr (Some Rate_limited), ?R)" using checked rate by (simp add: chat_send_def Let_def)
        then have "handleChatSend A s message S = sendError s RATE_LIMITED (Some message) ?R"
          using me Some by (simp add: handleChatSend_def looking_def)
        then show ?thesis using silent_spoken[OF nobody_error, of s RATE_LIMITED "Some message" ?R] by simp
      next
        case False
        obtain x w where x: "fresh A ?R = (Inr x, ?R\<lparr>sv_games := w\<rparr>)" by (cases "as_fresh A (sv_games S)") (simp add: fresh_def)
        let ?F = "?R\<lparr>sv_games := w\<rparr>"
        let ?line = "ChatMessage x (mb_playerId me) (mb_nickname me) ?said (sv_now ?F)"
        have "handleChatSend A s message S = (Inr (), snd (ws_broadcast (mb_roomId me) ?line ?F))"
          using checked rate x False me Some by (simp add: handleChatSend_def chat_send_def Let_def looking_def ws_broadcast_def change_def)
        then show ?thesis using broadcast_spoken[OF me, of ?line "Some (mb_nickname me)" ?F raw] by simp
      qed
    qed
  qed
qed

text \<open>
  C30: Nobody speaks for another. A frame in which a player chats, reacts, gets ready or signals another screen is only
  ever sent in answer to a message of a socket that has a seat; it names the player of that seat, in a chat line with the
  name of that seat, belongs to the room of that seat, and goes to sockets of that room only. Whatever the message
  claims about its sender does not matter, and no other event produces such a frame.
\<close>
theorem nobody_speaks_for_another:
  "\<exists>new. sv_sent (ws_event A event S) = sv_sent S @ new \<and> list_all (spoken_by event S) new"
proof (cases event)
  case (Connected s)
  then show ?thesis using silent_spoken[OF nobody_others(3), of s "S\<lparr>sv_open := s # sv_open S\<rparr>"] by (simp add: ws_event_def runGuarded_def)
next
  case (Received s raw)
  show ?thesis
  proof (cases "parseInbound raw")
    case None then show ?thesis using Received silent_spoken[OF nobody_error] by (simp add: ws_event_def runGuarded_def ws_message_def)
  next
    case (Some message)
    then show ?thesis using Received
      by (simp add: ws_event_def runGuarded_def ws_message_def silent_spoken[OF nobody_others(4)] silent_spoken[OF nobody_others(5)]
          silent_spoken[OF nobody_joined] silent_spoken[OF nobody_left] ready_spoken reaction_spoken chat_spoken signal_spoken)
  qed
next
  case (Closed s)
  then show ?thesis using silent_spoken[OF nobody_closed, where S = "S\<lparr>sv_open := filter (\<lambda>t. t \<noteq> s) (sv_open S)\<rparr>"]
    by (simp add: ws_event_def runGuarded_def)
next
  case Swept then show ?thesis using silent_spoken[OF nobody_others(1)] by (simp add: ws_event_def runGuarded_def)
next
  case (CloseDue room)
  then show ?thesis using silent_spoken[OF nobody_others(2), where S = "S\<lparr>sv_closes := AList.delete room (sv_closes S)\<rparr>"]
    by (auto simp: ws_event_def close_due_def runGuarded_def split: option.split)
next
  case (GamesRun h) then show ?thesis using silent_spoken[OF nobody_hook] by (simp add: ws_event_def runGuarded_def)
next
  case (Waited d) then show ?thesis by (simp add: ws_event_def)
qed

section \<open>The limit of the chat\<close>

text \<open>Commands that leave the times alone at which a player was last heard.\<close>

definition recalls :: "string \<Rightarrow> ('w, 'a) serving \<Rightarrow> bool" where
  "recalls p f = (\<forall>S. value_at (sv_recent (snd (f S))) p [] = value_at (sv_recent S) p [])"

named_theorems recall_intros \<open>commands that leave the chat times of a player alone\<close>

lemma recallsI: "(\<And>S. sv_recent (snd (f S)) = sv_recent S) \<Longrightarrow> recalls p f"
  by (simp add: recalls_def)

lemma recallsD: "recalls p f \<Longrightarrow> value_at (sv_recent (snd (f S))) p [] = value_at (sv_recent S) p []"
  by (simp add: recalls_def)

lemma recalls_simple [recall_intros]: "recalls p (ret x)" "recalls p (throw e)"
  by (simp_all add: recalls_def)

lemma recalls_andThen [recall_intros]: "recalls p f \<Longrightarrow> (\<And>x. recalls p (g x)) \<Longrightarrow> recalls p (andThen f g)"
  by (auto simp: recalls_def andThen_app split: sum.split)

lemma recalls_try_catch [recall_intros]: "recalls p f \<Longrightarrow> (\<And>e. recalls p (h e)) \<Longrightarrow> recalls p (try_catch f h)"
  unfolding recalls_def try_catch_def by (auto split: sum.split prod.split) (metis snd_conv)+

lemma recalls_if [recall_intros]: "recalls p f \<Longrightarrow> recalls p g \<Longrightarrow> recalls p (if b then f else g)"
  and recalls_option [recall_intros]: "recalls p f \<Longrightarrow> (\<And>x. recalls p (h x)) \<Longrightarrow> recalls p (case v of None \<Rightarrow> f | Some x \<Rightarrow> h x)"
  and recalls_pair [recall_intros]: "(\<And>x y. recalls p (k x y)) \<Longrightarrow> recalls p (case u of (x, y) \<Rightarrow> k x y)"
  and recalls_let [recall_intros]: "(\<And>x. recalls p (l x)) \<Longrightarrow> recalls p (let x = w in l x)"
  by (simp_all split: option.split prod.split)

lemma recalls_looking [recall_intros]: "(\<And>x. recalls p (f x)) \<Longrightarrow> recalls p (looking g f)"
  by (simp add: recalls_def looking_def)

lemma recalls_run_all [recall_intros]: "(\<And>f. f \<in> set fs \<Longrightarrow> recalls p f) \<Longrightarrow> recalls p (run_all fs)"
  by (induction fs) (auto intro!: recall_intros)

lemma recalls_parts [recall_intros]:
  "recalls p (on_redis f)" "recalls p (on_registry r)" "recalls p (track s)" "recalls p (recordPing s)"
  "recalls p (untrack s)" "recalls p (schedule_close room d gc)" "recalls p (cancel_close room)" "recalls p (fresh A)" "recalls p (close_socket s)"
  "recalls p (fanout_register room s)" "recalls p (fanout_unregister s)" "recalls p (register_game room gc)"
  by (rule recallsI; simp add: on_redis_def on_registry_def track_def recordPing_def untrack_def schedule_close_def
      cancel_close_def fresh_def close_socket_def fanout_register_def fanout_unregister_def register_game_def change_def Let_def split: prod.split)+

lemma recalls_send [recall_intros]: "recalls p (ws_send s payload to msg)"
  and recalls_error [recall_intros]: "recalls p (sendError s code request)"
  and recalls_broadcast [recall_intros]: "recalls p (ws_broadcast room payload)"
  and recalls_presence [recall_intros]: "recalls p (broadcastPresence room q status)"
  by (rule recallsI; simp add: ws_send_def sendError_def ws_broadcast_def broadcastPresence_def change_def send_frame_def bc_broadcast_def Let_def)+

lemma recent_acts: "sv_recent (fold act_on acts S) = sv_recent S"
proof (induction acts arbitrary: S)
  case (Cons a acts)
  have "sv_recent (act_on a S) = sv_recent S" by (cases a) (simp_all add: send_frame_def bc_broadcast_def Let_def)
  then show ?case using Cons by simp
qed simp

lemma recalls_hook [recall_intros]: "recalls p (run_hook h)"
  by (rule recallsI) (simp add: run_hook_def recent_acts split: prod.split)

lemma recalls_module [recall_intros]: "recalls p f \<Longrightarrow> recalls p (module_call h f module)"
  by (simp add: module_call_def recall_intros split: option.split)

lemma recalls_leave [recall_intros]: "recalls p (leaveRoom A s)"
  unfolding leaveRoom_def Let_def by (intro recall_intros)

lemma recalls_snapshot [recall_intros]: "recalls p (live_snapshot room)"
  unfolding live_snapshot_def by (intro recall_intros)

lemma recalls_joined: "recalls p (handleRoomJoin A s message)"
  unfolding handleRoomJoin_def admitJoinRequest_def resolveJoinIdentity_def resolveIdentity_def disconnectPreviousSocket_def
    completeReconnect_def completeFirstJoin_def Let_def
  by (intro recall_intros)

lemma recalls_others:
  "recalls p sweep" "recalls p (closeRoomIfStillEmpty A room gc)" "recalls p (ws_connected s)" "recalls p (handleSysPing s)"
  "recalls p (handleGameMessage A s message)" "recalls p (handleRoomReady s message)" "recalls p (handleReactionSend s message)"
  "recalls p (handleControllerSignal s message)"
  unfolding sweep_def sweep_one_def disconnectIdle_def closeRoomIfStillEmpty_def ws_connected_def handleSysPing_def handleGameMessage_def
    dispatch_def handleRoomReady_def handleReactionSend_def handleControllerSignal_def signal_to_def Let_def
  by (auto intro!: recall_intros simp: case_prod_beta)

text \<open>Closing a socket and leaving forget the player of its seat, nobody else.\<close>

lemma forget_other:
  assumes "\<And>me. seat_of s S = Some me \<Longrightarrow> mb_playerId me \<noteq> p"
  shows "\<exists>T. forgetChat s S = (Inr (), T) \<and> value_at (sv_recent T) p [] = value_at (sv_recent S) p []"
  using assms by (auto simp: forgetChat_def looking_def chat_forget_def change_def value_at_def split: option.split)

lemma forget_own:
  assumes "map_option mb_playerId (seat_of s S) = Some p"
  shows "\<exists>T. forgetChat s S = (Inr (), T) \<and> value_at (sv_recent T) p [] = []"
  using assms by (auto simp: forgetChat_def looking_def chat_forget_def change_def value_at_def split: option.split)

lemma after_forgetting:
  assumes T: "forgetChat s S = (Inr (), T)"
  shows "value_at (sv_recent (snd (lifecycle_leave A s S))) p [] = value_at (sv_recent T) p []"
    "value_at (sv_recent (snd (lifecycle_closed A s S))) p [] = value_at (sv_recent T) p []"
proof -
  define l where "l = looking (seat_of s) (\<lambda>member. case member of
       None \<Rightarrow> leaveRoom A s
     | Some m \<Rightarrow> looking (in_play (Some m)) (\<lambda>playing.
         if playing
         then andThen (fanout_unregister s) (\<lambda>_.
              andThen (looking (game_of_room A (mb_roomId m)) (module_call (\<lambda>md. md_removePlayer md (mb_roomId m) (mb_playerId m)) (ret ()))) (\<lambda>_.
              on_redis (clearRoom (mb_playerId m))))
         else leaveRoom A s))"
  define c where "c = looking (seat_of s) (\<lambda>member. case member of
       None \<Rightarrow> fanout_unregister s
     | Some m \<Rightarrow> looking (in_play (Some m)) (\<lambda>playing.
         if playing
         then andThen (fanout_unregister s) (\<lambda>_. andThen (on_registry (registry_markOffline s)) (\<lambda>offline.
                case offline of None \<Rightarrow> ret () | Some m' \<Rightarrow> broadcastPresence (mb_roomId m') (mb_playerId m') Offline))
         else leaveRoom A s))"
  have "recalls p l" "recalls p c" unfolding l_def c_def by (intro recall_intros)+
  moreover have "lifecycle_leave A s S = l T" "lifecycle_closed A s S = c T"
    using T by (simp_all add: lifecycle_leave_def lifecycle_closed_def l_def c_def)
  ultimately show "value_at (sv_recent (snd (lifecycle_leave A s S))) p [] = value_at (sv_recent T) p []"
    "value_at (sv_recent (snd (lifecycle_closed A s S))) p [] = value_at (sv_recent T) p []"
    by (simp_all add: recallsD)
qed

lemma left_recalls:
  assumes "\<And>me. seat_of s S = Some me \<Longrightarrow> mb_playerId me \<noteq> p"
  shows "value_at (sv_recent (snd (lifecycle_leave A s S))) p [] = value_at (sv_recent S) p []"
    "value_at (sv_recent (snd (lifecycle_closed A s S))) p [] = value_at (sv_recent S) p []"
  using forget_other[where s = s and S = S and p = p] assms after_forgetting by fastforce+

lemma left_forgets:
  assumes "map_option mb_playerId (seat_of s S) = Some p"
  shows "value_at (sv_recent (snd (lifecycle_leave A s S))) p [] = []" "value_at (sv_recent (snd (lifecycle_closed A s S))) p [] = []"
  using forget_own[OF assms] after_forgetting by fastforce+

text \<open>What a chat line of an event is answered, and to whom it belongs; the lines of a player that are sent; and the events
  that forget the player.\<close>

definition chat_answer :: "'w assembly \<Rightarrow> 'w happening \<Rightarrow> 'w server \<Rightarrow> (string \<times> chat_rejection option) option" where
  "chat_answer A event S = (case event of
     Received s raw \<Rightarrow> (case parseInbound raw of None \<Rightarrow> None
       | Some message \<Rightarrow> if in_type message \<noteq> ''chat.send'' then None
           else (case (parse_chat (in_payload message), seat_of s S) of
               (Some text, Some me) \<Rightarrow> (case fst (chat_send A me text S) of Inl _ \<Rightarrow> None | Inr answer \<Rightarrow> Some (mb_playerId me, answer))
             | _ \<Rightarrow> None))
   | _ \<Rightarrow> None)"

fun line_of :: "string \<Rightarrow> socket \<times> frame \<Rightarrow> bool" where
  "line_of p (s, f) = (case fr_payload f of ChatMessage i q n text at \<Rightarrow> q = p | _ \<Rightarrow> False)"

definition lines_sent :: "string \<Rightarrow> 'w server \<Rightarrow> 'w server \<Rightarrow> nat" where
  "lines_sent p S S' = card (snd ` set (filter (line_of p) (drop (length (sv_sent S)) (sv_sent S'))))"

definition forgets :: "string \<Rightarrow> 'w happening \<Rightarrow> 'w server \<Rightarrow> bool" where
  "forgets p event S = (case event of
     Closed s \<Rightarrow> map_option mb_playerId (seat_of s S) = Some p
   | Received s raw \<Rightarrow> map_option in_type (parseInbound raw) = Some ''room.leave'' \<and> map_option mb_playerId (seat_of s S) = Some p
   | _ \<Rightarrow> False)"

definition spoken_lately :: "string \<Rightarrow> 'w server \<Rightarrow> int list" where
  "spoken_lately p S = filter (\<lambda>at. sv_now S - at < CHAT_RATE_WINDOW_MS) (value_at (sv_recent S) p [])"

lemma rate_spoken: "exceedsRate p S = (Inr (\<not> length (spoken_lately p S) < CHAT_RATE_LIMIT),
    S\<lparr>sv_recent := AList.update p (if length (spoken_lately p S) < CHAT_RATE_LIMIT then spoken_lately p S @ [sv_now S]
      else spoken_lately p S) (sv_recent S)\<rparr>)"
  by (simp add: exceedsRate_def Let_def spoken_lately_def not_less)

text \<open>The chat of one member: what is answered, what is remembered and what is sent.\<close>

lemma chat_send_run:
  assumes "fst (chat_send A me text S) = Inr answer"
  shows "answer = None \<Longrightarrow> length (spoken_lately (mb_playerId me) S) < CHAT_RATE_LIMIT"
    "answer = Some Rate_limited \<Longrightarrow> \<not> length (spoken_lately (mb_playerId me) S) < CHAT_RATE_LIMIT"
    "value_at (sv_recent (snd (chat_send A me text S))) q [] = (if q \<noteq> mb_playerId me then value_at (sv_recent S) q []
      else if answer = None then spoken_lately q S @ [sv_now S] else if answer = Some Rate_limited then spoken_lately q S
      else value_at (sv_recent S) q [])"
  using assms by (auto simp: chat_send_def Let_def rate_spoken fresh_def looking_def ws_broadcast_def change_def bc_broadcast_def
      andThen_app value_at_def split: prod.splits if_splits)

lemma chat_send_total: "\<exists>answer. fst (chat_send A me text S) = Inr answer"
  by (auto simp: chat_send_def Let_def rate_spoken fresh_def looking_def ws_broadcast_def change_def andThen_app split: prod.split)

lemma handled_recent: "value_at (sv_recent (snd (handleChatSend A s message S))) q [] =
    (case (parse_chat (in_payload message), seat_of s S) of (Some text, Some me) \<Rightarrow> value_at (sv_recent (snd (chat_send A me text S))) q []
     | _ \<Rightarrow> value_at (sv_recent S) q [])"
proof (cases "parse_chat (in_payload message)")
  case None then show ?thesis by (simp add: handleChatSend_def recallsD[OF recalls_error])
next
  case (Some body)
  show ?thesis
  proof (cases "seat_of s S")
    case None then show ?thesis using Some by (simp add: handleChatSend_def looking_def recallsD[OF recalls_error])
  next
    case me: (Some me)
    obtain answer where a: "fst (chat_send A me body S) = Inr answer" using chat_send_total by blast
    show ?thesis using Some me a
      by (auto simp: handleChatSend_def looking_def recallsD[OF recalls_error] split: option.split chat_rejection.split)
  qed
qed

lemma closed_after_untrack: "ws_event A (Closed s) S = snd (lifecycle_closed A s (snd (untrack s (S\<lparr>sv_open := filter (\<lambda>t. t \<noteq> s) (sv_open S)\<rparr>))))"
  by (simp add: ws_event_def runGuarded_def ws_closed_def untrack_def change_def)

lemma seat_after_untrack [simp]: "seat_of s (snd (untrack s (S\<lparr>sv_open := os\<rparr>))) = seat_of s S"
  "sv_recent (snd (untrack s (S\<lparr>sv_open := os\<rparr>))) = sv_recent S"
  by (simp_all add: untrack_def change_def seat_of_def)

lemma forgotten_anew: assumes "forgets p event S" shows "value_at (sv_recent (ws_event A event S)) p [] = []"
  using assms by (auto simp: forgets_def closed_after_untrack ws_event_def [of _ "Received _ _"] runGuarded_def ws_message_def
      intro!: left_forgets split: happening.splits)

lemma event_recalls:
  assumes "\<not> forgets p event S"
  shows "value_at (sv_recent (ws_event A event S)) p [] = (case chat_answer A event S of
      Some (q, None) \<Rightarrow> if q = p then spoken_lately p S @ [sv_now S] else value_at (sv_recent S) p []
    | Some (q, Some Rate_limited) \<Rightarrow> if q = p then spoken_lately p S else value_at (sv_recent S) p []
    | _ \<Rightarrow> value_at (sv_recent S) p [])"
proof (cases event)
  case (Connected s)
  then show ?thesis using recallsD[OF recalls_others(3), where S = "S\<lparr>sv_open := s # sv_open S\<rparr>"]
    by (simp add: ws_event_def runGuarded_def chat_answer_def)
next
  case (Received s raw)
  show ?thesis
  proof (cases "parseInbound raw")
    case None
    then show ?thesis using Received by (simp add: ws_event_def runGuarded_def ws_message_def chat_answer_def recallsD[OF recalls_error])
  next
    case (Some message)
    have left: "value_at (sv_recent (snd (lifecycle_leave A s S))) p [] = value_at (sv_recent S) p []" if "in_type message = ''room.leave''"
      by (rule left_recalls) (use assms that Received Some in \<open>auto simp: forgets_def\<close>)
    have chat: "value_at (sv_recent (snd (handleChatSend A s message S))) p [] = (case chat_answer A event S of
        Some (q, None) \<Rightarrow> if q = p then spoken_lately p S @ [sv_now S] else value_at (sv_recent S) p []
      | Some (q, Some Rate_limited) \<Rightarrow> if q = p then spoken_lately p S else value_at (sv_recent S) p []
      | _ \<Rightarrow> value_at (sv_recent S) p [])" if "in_type message = ''chat.send''"
    proof (cases "parse_chat (in_payload message)")
      case None then show ?thesis using Received Some that by (simp add: handled_recent chat_answer_def)
    next
      case body: (Some body)
      show ?thesis
      proof (cases "seat_of s S")
        case None then show ?thesis using Received Some that body by (simp add: handled_recent chat_answer_def)
      next
        case me: (Some me)
        obtain answer where a: "fst (chat_send A me body S) = Inr answer" using chat_send_total by blast
        show ?thesis using Received Some that body me a chat_send_run(3)[OF a, of p]
          by (auto simp: handled_recent chat_answer_def split: option.split chat_rejection.split)
      qed
    qed
    show ?thesis
    proof (cases "in_type message = ''chat.send''")
      case True
      then have "ws_event A event S = snd (handleChatSend A s message S)" using Received Some
        by (simp add: ws_event_def runGuarded_def ws_message_def)
      then show ?thesis using chat[OF True] by simp
    next
      case False
      then have "chat_answer A event S = None" using Received Some by (simp add: chat_answer_def)
      then show ?thesis using Received Some left False
        by (simp add: ws_event_def runGuarded_def ws_message_def recallsD[OF recalls_others(4)] recallsD[OF recalls_others(5)]
            recallsD[OF recalls_others(6)] recallsD[OF recalls_others(7)] recallsD[OF recalls_others(8)] recallsD[OF recalls_joined])
    qed
  qed
next
  case (Closed s)
  show ?thesis unfolding Closed closed_after_untrack
    by (subst left_recalls(2)) (use assms Closed in \<open>auto simp: forgets_def chat_answer_def\<close>)
next
  case Swept then show ?thesis using recallsD[OF recalls_others(1)] by (simp add: ws_event_def runGuarded_def chat_answer_def)
next
  case (CloseDue room)
  then show ?thesis using recallsD[OF recalls_others(2), where S = "S\<lparr>sv_closes := AList.delete room (sv_closes S)\<rparr>"]
    by (auto simp: ws_event_def close_due_def runGuarded_def chat_answer_def split: option.split)
next
  case (GamesRun h) then show ?thesis using recallsD[OF recalls_hook] by (simp add: ws_event_def runGuarded_def chat_answer_def)
next
  case (Waited d) then show ?thesis by (simp add: ws_event_def chat_answer_def)
qed

lemma answer_spoken:
  "chat_answer A event S = Some (p, None) \<Longrightarrow> length (spoken_lately p S) < CHAT_RATE_LIMIT"
  "chat_answer A event S = Some (p, Some Rate_limited) \<Longrightarrow> \<not> length (spoken_lately p S) < CHAT_RATE_LIMIT"
  using chat_send_run(1,2) by (fastforce simp: chat_answer_def split: happening.splits option.splits if_splits sum.splits)+

text \<open>A line of a player is sent only when a chat line of this player was accepted.\<close>

definition lineless :: "socket \<times> frame \<Rightarrow> bool" where
  "lineless sent \<longleftrightarrow> (\<forall>p. \<not> line_of p sent)"

fun is_line :: "ws_payload \<Rightarrow> bool" where
  "is_line (ChatMessage i q n said at) = True"
| "is_line _ = False"

lemma lineless_line: "lineless (s, f) = (\<not> is_line (fr_payload f))"
  by (cases "fr_payload f") (auto simp: lineless_def)

lemma nobody_lineless: "nobody sent \<Longrightarrow> lineless sent"
  by (cases sent) (auto simp: nobody_def lineless_def split: ws_payload.splits)

lemma sends_mono: "sends P f \<Longrightarrow> (\<And>x. P x \<Longrightarrow> Q x) \<Longrightarrow> sends Q f"
  unfolding sends_def by (metis (mono_tags, lifting) list.pred_mono_strong)

lemmas lineless_if_nobody = sends_mono[OF _ nobody_lineless]

lemma lineless_broadcast: "\<not> is_line payload \<Longrightarrow> sends lineless (ws_broadcast room payload)"
  by (rule sendsI) (auto simp: ws_broadcast_def change_def broadcast_sent list_all_iff lineless_line envelope_def)

lemma lineless_send: "\<not> is_line payload \<Longrightarrow> sends lineless (ws_send s payload to msg)"
  by (rule sendsI) (auto simp: ws_send_def change_def send_frame_sent list_all_iff lineless_line envelope_def)

lemmas lineless_error = lineless_if_nobody[OF nobody_error]

lemma lineless_said:
  "sends lineless (handleRoomReady s message)" "sends lineless (handleReactionSend s message)" "sends lineless (handleControllerSignal s message)"
  unfolding handleRoomReady_def handleReactionSend_def handleControllerSignal_def signal_to_def
  by (auto intro!: send_intros lineless_broadcast lineless_send lineless_error)

lemma lineless_silent: "sends lineless f \<Longrightarrow> sv_sent S = sv_sent T \<Longrightarrow> lines_sent p T (snd (f S)) = 0"
  by (erule sendsE[where S = S]) (auto simp: lines_sent_def lineless_def list_all_iff filter_empty_conv)

lemma lines_nothing [simp]: "lines_sent p S S = 0"
  by (simp add: lines_sent_def)

lemma lineless_none: "sends lineless f \<Longrightarrow> lines_sent p S (snd (f S)) = 0"
  by (simp add: lineless_silent)

lemma one_line:
  assumes "fr_payload f = ChatMessage i q n said tm"
  shows "sv_sent S' = sv_sent S @ map (\<lambda>s. (s, f)) ss \<Longrightarrow> lines_sent p S S' \<le> (if p = q then 1 else 0)"
proof -
  assume sent: "sv_sent S' = sv_sent S @ map (\<lambda>s. (s, f)) ss"
  have "snd ` set (filter (line_of p) (map (\<lambda>s. (s, f)) ss)) \<subseteq> (if p = q then {f} else {})" using assms by auto
  then show "lines_sent p S S' \<le> (if p = q then 1 else 0)"
    using card_mono[of "if p = q then {f} else {}" "snd ` set (filter (line_of p) (map (\<lambda>s. (s, f)) ss))"]
    by (simp add: lines_sent_def sent split: if_splits)
qed

lemma chat_lines: assumes "parseInbound raw = Some message" "in_type message = ''chat.send''"
  shows "lines_sent p S (snd (handleChatSend A s message S)) \<le> (if chat_answer A (Received s raw) S = Some (p, None) then 1 else 0)"
proof (cases "parse_chat (in_payload message)")
  case None then show ?thesis by (simp add: handleChatSend_def lineless_none[OF lineless_error])
next
  case (Some body)
  show ?thesis
  proof (cases "seat_of s S")
    case None then show ?thesis using Some by (simp add: handleChatSend_def looking_def lineless_none[OF lineless_error])
  next
    case me: (Some me)
    let ?said = "trim_text (case body of None \<Rightarrow> '''' | Some t \<Rightarrow> t)"
    obtain b es where rate: "exceedsRate (mb_playerId me) S = (Inr b, S\<lparr>sv_recent := es\<rparr>)" using rate_run by blast
    let ?R = "S\<lparr>sv_recent := es\<rparr>"
    consider (refused) "?said = [] \<or> CHAT_TEXT_MAX_LENGTH < length ?said" | (often) "?said \<noteq> []" "\<not> CHAT_TEXT_MAX_LENGTH < length ?said" b
      | (heard) "?said \<noteq> []" "\<not> CHAT_TEXT_MAX_LENGTH < length ?said" "\<not> b" by blast
    then show ?thesis
    proof cases
      case refused
      then have "\<exists>r. chat_send A me body S = (Inr (Some r), S) \<and> (r = Empty \<or> r = Too_long)" by (auto simp: chat_send_def Let_def)
      then show ?thesis using me Some lineless_silent[OF lineless_error, of S S] by (auto simp: handleChatSend_def looking_def)
    next
      case often
      then have "chat_send A me body S = (Inr (Some Rate_limited), ?R)" using rate by (simp add: chat_send_def Let_def)
      then show ?thesis using me Some lineless_silent[OF lineless_error, of ?R S] by (simp add: handleChatSend_def looking_def)
    next
      case heard
      obtain x w where x: "fresh A ?R = (Inr x, ?R\<lparr>sv_games := w\<rparr>)" by (cases "as_fresh A (sv_games S)") (simp add: fresh_def)
      let ?F = "?R\<lparr>sv_games := w\<rparr>"
      let ?line = "ChatMessage x (mb_playerId me) (mb_nickname me) ?said (sv_now ?F)"
      have "chat_send A me body S = (Inr None, snd (ws_broadcast (mb_roomId me) ?line ?F))"
        using heard rate x by (simp add: chat_send_def Let_def looking_def ws_broadcast_def change_def)
      then have run: "handleChatSend A s message S = (Inr (), snd (ws_broadcast (mb_roomId me) ?line ?F))"
        "chat_answer A (Received s raw) S = Some (mb_playerId me, None)"
        using me Some assms by (simp_all add: handleChatSend_def looking_def chat_answer_def)
      have "sv_sent (snd (ws_broadcast (mb_roomId me) ?line ?F)) = sv_sent S @ map (\<lambda>s. (s, envelope ?F ?line (Some (mb_roomId me)) None))
          (filter (isOpen ?F) (audience (sv_fanout ?F) (mb_roomId me)))"
        by (simp add: ws_broadcast_def change_def broadcast_sent)
      note sent = one_line[OF _ this, where p = p]
      show ?thesis using sent by (auto simp: run envelope_def)
    qed
  qed
qed

lemma event_lines: "lines_sent p S (ws_event A event S) \<le> (if chat_answer A event S = Some (p, None) then 1 else 0)"
proof (cases event)
  case (Received s raw)
  show ?thesis
  proof (cases "parseInbound raw")
    case None
    then show ?thesis using Received by (simp add: ws_event_def runGuarded_def ws_message_def lineless_none[OF lineless_error])
  next
    case (Some message)
    note others = lineless_if_nobody[OF nobody_others(4), THEN lineless_none] lineless_if_nobody[OF nobody_others(5), THEN lineless_none]
      lineless_if_nobody[OF nobody_joined, THEN lineless_none] lineless_if_nobody[OF nobody_left, THEN lineless_none]
      lineless_said(1)[THEN lineless_none] lineless_said(2)[THEN lineless_none] lineless_said(3)[THEN lineless_none]
    show ?thesis
    proof (cases "in_type message = ''chat.send''")
      case True then show ?thesis using Received Some chat_lines[OF Some True, of p S A s] by (simp add: ws_event_def runGuarded_def ws_message_def)
    next
      case False then show ?thesis using Received Some by (simp add: ws_event_def runGuarded_def ws_message_def others)
    qed
  qed
next
  case (Connected s)
  then show ?thesis using lineless_silent[OF lineless_if_nobody[OF nobody_others(3)], of "S\<lparr>sv_open := s # sv_open S\<rparr>" S] by (simp add: ws_event_def runGuarded_def)
next
  case (Closed s)
  then show ?thesis using lineless_silent[OF lineless_if_nobody[OF nobody_closed], of "S\<lparr>sv_open := filter (\<lambda>t. t \<noteq> s) (sv_open S)\<rparr>" S]
    by (simp add: ws_event_def runGuarded_def)
next
  case Swept then show ?thesis by (simp add: ws_event_def runGuarded_def lineless_none[OF lineless_if_nobody[OF nobody_others(1)]])
next
  case (CloseDue room)
  then show ?thesis using lineless_silent[OF lineless_if_nobody[OF nobody_others(2)], of "S\<lparr>sv_closes := AList.delete room (sv_closes S)\<rparr>" S]
    by (auto simp: ws_event_def close_due_def runGuarded_def split: option.split)
next
  case (GamesRun h) then show ?thesis by (simp add: ws_event_def runGuarded_def lineless_none[OF lineless_if_nobody[OF nobody_hook]])
next
  case (Waited d) then show ?thesis by (simp add: ws_event_def lines_sent_def)
qed

text \<open>The chat of a player over a sequence of events: at which time, what was answered, how many lines of the player went
  out. A sequence is undisturbed when nothing in it forgets the player and the clock does not go back.\<close>

fun chat_log :: "'w assembly \<Rightarrow> string \<Rightarrow> 'w happening list \<Rightarrow> 'w server \<Rightarrow> (int \<times> (string \<times> chat_rejection option) option \<times> nat) list" where
  "chat_log A p [] S = []"
| "chat_log A p (e # es) S = (sv_now S, chat_answer A e S, lines_sent p S (ws_event A e S)) # chat_log A p es (ws_event A e S)"

fun undisturbed :: "'w assembly \<Rightarrow> string \<Rightarrow> 'w happening list \<Rightarrow> 'w server \<Rightarrow> bool" where
  "undisturbed A p [] S = True"
| "undisturbed A p (e # es) S = (\<not> forgets p e S \<and> sv_now S \<le> sv_now (ws_event A e S) \<and> undisturbed A p es (ws_event A e S))"

text \<open>The entries of the ten seconds before a time, and the times at which the player was heard.\<close>

definition through :: "int \<Rightarrow> (int \<times> 'x) list \<Rightarrow> (int \<times> 'x) list" where
  "through t log = filter (\<lambda>(at, x). t - CHAT_RATE_WINDOW_MS < at \<and> at \<le> t) log"

definition heard :: "string \<Rightarrow> (int \<times> (string \<times> chat_rejection option) option \<times> nat) list \<Rightarrow> (int \<times> (string \<times> chat_rejection option) option \<times> nat) list" where
  "heard p log = filter (\<lambda>(at, answer, n). answer = Some (p, None)) log"

lemma windows_bounded:
  fixes latest :: int
  assumes "\<And>t. length (filter (\<lambda>at. t - CHAT_RATE_WINDOW_MS < at \<and> at \<le> t) acc) \<le> n" "length (filter (\<lambda>at. latest - at < CHAT_RATE_WINDOW_MS) acc) < n"
    "\<And>at. at \<in> set acc \<Longrightarrow> at \<le> latest"
  shows "length (filter (\<lambda>at. t - CHAT_RATE_WINDOW_MS < at \<and> at \<le> t) (acc @ [latest])) \<le> n"
proof (cases "t - CHAT_RATE_WINDOW_MS < latest \<and> latest \<le> t")
  case True
  have "length (filter (\<lambda>at. t - CHAT_RATE_WINDOW_MS < at \<and> at \<le> t) acc) \<le> length (filter (\<lambda>at. latest - at < CHAT_RATE_WINDOW_MS) acc)"
    using True by (induction acc) auto
  then show ?thesis using True assms(2) by simp
next
  case False then show ?thesis using assms(1)[of t] by auto
qed

lemma lately_later:
  assumes "sv_now S \<le> sv_now S'" "value_at (sv_recent S') p [] = spoken_lately p S @ heres" "\<And>at. at \<in> set heres \<Longrightarrow> at = sv_now S"
    "spoken_lately p S = filter (\<lambda>at. sv_now S - at < CHAT_RATE_WINDOW_MS) acc"
  shows "spoken_lately p S' = filter (\<lambda>at. sv_now S' - at < CHAT_RATE_WINDOW_MS) (acc @ heres)"
proof -
  have "filter (\<lambda>at. sv_now S' - at < CHAT_RATE_WINDOW_MS) (filter (\<lambda>at. sv_now S - at < CHAT_RATE_WINDOW_MS) acc)
      = filter (\<lambda>at. sv_now S' - at < CHAT_RATE_WINDOW_MS) acc"
    using assms(1) by (auto simp: conj_commute intro: filter_cong)
  then show ?thesis using assms(2,4) by (simp add: spoken_lately_def)
qed

lemma lately_kept:
  assumes "sv_now S \<le> sv_now S'" "value_at (sv_recent S') p [] = value_at (sv_recent S) p []"
    "spoken_lately p S = filter (\<lambda>at. sv_now S - at < CHAT_RATE_WINDOW_MS) acc"
  shows "spoken_lately p S' = filter (\<lambda>at. sv_now S' - at < CHAT_RATE_WINDOW_MS) acc"
proof -
  have shrink: "filter (\<lambda>at. sv_now S' - at < CHAT_RATE_WINDOW_MS) xs
      = filter (\<lambda>at. sv_now S' - at < CHAT_RATE_WINDOW_MS) (filter (\<lambda>at. sv_now S - at < CHAT_RATE_WINDOW_MS) xs)" for xs
    using assms(1) by (induction xs) auto
  have "spoken_lately p S' = filter (\<lambda>at. sv_now S' - at < CHAT_RATE_WINDOW_MS) (spoken_lately p S)"
    using shrink[of "value_at (sv_recent S) p []"] assms(2) by (simp add: spoken_lately_def)
  then show ?thesis using shrink[of acc] assms(3) by simp
qed

lemma event_lately:
  assumes "\<not> forgets p e S" "sv_now S \<le> sv_now (ws_event A e S)"
    "spoken_lately p S = filter (\<lambda>at. sv_now S - at < CHAT_RATE_WINDOW_MS) acc"
  shows "spoken_lately p (ws_event A e S) = filter (\<lambda>at. sv_now (ws_event A e S) - at < CHAT_RATE_WINDOW_MS)
      (if chat_answer A e S = Some (p, None) then acc @ [sv_now S] else acc)"
proof (cases "chat_answer A e S = Some (p, None)")
  case True
  then have "value_at (sv_recent (ws_event A e S)) p [] = spoken_lately p S @ [sv_now S]" using event_recalls[OF assms(1), of A] by simp
  from lately_later[OF assms(2) this _ assms(3)] show ?thesis using True by simp
next
  case False
  show ?thesis
  proof (cases "chat_answer A e S = Some (p, Some Rate_limited)")
    case True
    then have "value_at (sv_recent (ws_event A e S)) p [] = spoken_lately p S @ []" using event_recalls[OF assms(1), of A] by simp
    from lately_later[OF assms(2) this _ assms(3)] show ?thesis using True by simp
  next
    case other: False
    have "value_at (sv_recent (ws_event A e S)) p [] = value_at (sv_recent S) p []"
      using event_recalls[OF assms(1), of A] False other by (auto split: option.splits chat_rejection.splits)
    from lately_kept[OF assms(2) this assms(3)] show ?thesis using False by simp
  qed
qed

lemma log_limited:
  assumes "undisturbed A p es S" "spoken_lately p S = filter (\<lambda>at. sv_now S - at < CHAT_RATE_WINDOW_MS) acc"
    "\<And>at. at \<in> set acc \<Longrightarrow> at \<le> sv_now S" "\<And>t. length (filter (\<lambda>at. t - CHAT_RATE_WINDOW_MS < at \<and> at \<le> t) acc) \<le> CHAT_RATE_LIMIT"
  shows "length (filter (\<lambda>at. t - CHAT_RATE_WINDOW_MS < at \<and> at \<le> t) (acc @ map fst (heard p (chat_log A p es S)))) \<le> CHAT_RATE_LIMIT
    \<and> (\<forall>(tm, answer, n) \<in> set (chat_log A p es S). n \<le> (if answer = Some (p, None) then 1 else 0)
        \<and> (answer = Some (p, Some Rate_limited) \<longrightarrow> CHAT_RATE_LIMIT \<le> length (filter (\<lambda>at. tm - CHAT_RATE_WINDOW_MS < at \<and> at \<le> tm)
            (acc @ map fst (heard p (chat_log A p es S))))))"
  using assms
proof (induction es arbitrary: S acc)
  case Nil then show ?case by (simp add: heard_def)
next
  case (Cons e es)
  let ?S = "ws_event A e S"
  let ?acc = "if chat_answer A e S = Some (p, None) then acc @ [sv_now S] else acc"
  have und: "\<not> forgets p e S" "sv_now S \<le> sv_now ?S" "undisturbed A p es ?S" using Cons.prems(1) by simp_all
  have late: "spoken_lately p ?S = filter (\<lambda>at. sv_now ?S - at < CHAT_RATE_WINDOW_MS) ?acc"
    by (rule event_lately[OF und(1,2) Cons.prems(2)])
  have before: "at \<le> sv_now ?S" if "at \<in> set ?acc" for at
    using Cons.prems(3)[of at] that und(2) by (auto split: if_splits)
  have few: "length (filter (\<lambda>at. t - CHAT_RATE_WINDOW_MS < at \<and> at \<le> t) ?acc) \<le> CHAT_RATE_LIMIT" for t
    using windows_bounded[OF Cons.prems(4) _ Cons.prems(3), of t] answer_spoken(1)[of A e S p] Cons.prems(2,4) by simp
  have rest: "acc @ map fst (heard p (chat_log A p (e # es) S)) = ?acc @ map fst (heard p (chat_log A p es ?S))"
    by (simp add: heard_def)
  note ih = Cons.IH[OF und(3) late before few]
  have first: "lines_sent p S ?S \<le> (if chat_answer A e S = Some (p, None) then 1 else 0)" by (rule event_lines)
  have full: "CHAT_RATE_LIMIT \<le> length (filter (\<lambda>at. sv_now S - CHAT_RATE_WINDOW_MS < at \<and> at \<le> sv_now S) (?acc @ xs))"
    if "chat_answer A e S = Some (p, Some Rate_limited)" for xs
  proof -
    have "filter (\<lambda>at. sv_now S - at < CHAT_RATE_WINDOW_MS) acc = filter (\<lambda>at. sv_now S - CHAT_RATE_WINDOW_MS < at \<and> at \<le> sv_now S) acc"
      by (rule filter_cong) (use Cons.prems(3) in auto)
    then show ?thesis using answer_spoken(2)[OF that] that Cons.prems(2) by simp
  qed
  note full = full[of "map fst (heard p (chat_log A p es ?S))"]
  show ?case unfolding rest using ih first full by auto
qed

lemma through_heard: "length (heard p (through t log)) = length (filter (\<lambda>at. t - CHAT_RATE_WINDOW_MS < at \<and> at \<le> t) (map fst (heard p log)))"
  by (induction log) (auto simp: heard_def through_def)

lemma log_from_start:
  assumes "undisturbed A p es S" "value_at (sv_recent S) p [] = []"
  shows "length (heard p (through t (chat_log A p es S))) \<le> 10"
    "(tm, answer, n) \<in> set (chat_log A p es S) \<Longrightarrow> n \<le> (if answer = Some (p, None) then 1 else 0)"
    "(tm, answer, n) \<in> set (chat_log A p es S) \<Longrightarrow> answer = Some (p, Some Rate_limited) \<Longrightarrow>
      10 \<le> length (heard p (through tm (chat_log A p es S)))"
proof -
  have start: "spoken_lately p S = filter (\<lambda>at. sv_now S - at < CHAT_RATE_WINDOW_MS) []" using assms(2) by (simp add: spoken_lately_def)
  have none: "\<And>at. at \<in> set ([] :: int list) \<Longrightarrow> at \<le> sv_now S" "\<And>t. length (filter (\<lambda>at. t - CHAT_RATE_WINDOW_MS < at \<and> at \<le> t) []) \<le> CHAT_RATE_LIMIT"
    by simp_all
  note limited = log_limited[OF assms(1) start none, unfolded append_Nil through_heard[symmetric] CHAT_RATE_LIMIT_def]
  show "length (heard p (through t (chat_log A p es S))) \<le> 10" using limited by blast
  show "(tm, answer, n) \<in> set (chat_log A p es S) \<Longrightarrow> n \<le> (if answer = Some (p, None) then 1 else 0)" using limited by blast
  show "(tm, answer, n) \<in> set (chat_log A p es S) \<Longrightarrow> answer = Some (p, Some Rate_limited) \<Longrightarrow>
      10 \<le> length (heard p (through tm (chat_log A p es S)))" using limited by blast
qed

lemma lines_counted:
  assumes "\<And>tm answer n. (tm, answer, n) \<in> set xs \<Longrightarrow> n \<le> (if answer = Some (p, None) then 1 else 0)"
  shows "sum_list (map (\<lambda>(tm, answer, n). n) xs) \<le> length (heard p xs)"
  using assms
proof (induction xs)
  case (Cons x xs)
  obtain tm answer n where x: "x = (tm, answer, n)" by (cases x)
  have "n \<le> (if answer = Some (p, None) then 1 else 0)" by (rule Cons.prems[of tm]) (simp add: x)
  moreover have "sum_list (map (\<lambda>(tm, answer, n). n) xs) \<le> length (heard p xs)"
  proof (rule Cons.IH)
    fix tm answer n assume "(tm, answer, n) \<in> set xs"
    then show "n \<le> (if answer = Some (p, None) then 1 else 0)" using Cons.prems[of tm answer n] by simp
  qed
  ultimately show ?case by (auto simp: x heard_def)
qed (simp add: heard_def)

text \<open>
  C33: The limit of the chat. As long as a player is not forgotten, that is, over any sequence of things that happen to the
  server, of this player and of others, in which no socket of the player's seat closes or leaves the room and the clock
  does not go back, lines of the player go out at most ten times in any ten seconds, each in answer to an accepted chat
  message of the player, one line for each; and whoever is refused for speaking too often has really been heard ten times
  in the ten seconds before: the limit hits nobody who keeps it. Leaving and closing forget the player, and the count
  starts anew.
\<close>
theorem chat_is_limited:
  assumes "undisturbed A p es S" "value_at (sv_recent S) p [] = []"
  shows "sum_list (map (\<lambda>(tm, answer, n). n) (through t (chat_log A p es S))) \<le> 10
    \<and> (\<forall>(tm, answer, n) \<in> set (chat_log A p es S). n \<le> (if answer = Some (p, None) then 1 else 0)
        \<and> (answer = Some (p, Some Rate_limited) \<longrightarrow> length (heard p (through tm (chat_log A p es S))) = 10))
    \<and> (forgets p e S' \<longrightarrow> value_at (sv_recent (ws_event A e S')) p [] = [])"
proof -
  let ?log = "chat_log A p es S"
  note log = log_from_start[OF assms]
  have "sum_list (map (\<lambda>(tm, answer, n). n) (through t ?log)) \<le> length (heard p (through t ?log))"
    by (rule lines_counted, rule log(2)) (auto simp: through_def)
  then have "sum_list (map (\<lambda>(tm, answer, n). n) (through t ?log)) \<le> 10" using log(1)[of t] by simp
  moreover have "\<forall>(tm, answer, n) \<in> set ?log. n \<le> (if answer = Some (p, None) then 1 else 0)
      \<and> (answer = Some (p, Some Rate_limited) \<longrightarrow> length (heard p (through tm ?log)) = 10)"
    using log by (auto intro: antisym)
  ultimately show ?thesis using forgotten_anew by blast
qed

text \<open>A guest who has just sat down in the room ABC says the same thing eleven times, and once more ten seconds later.\<close>

definition said_by_seven :: "string \<Rightarrow> json \<Rightarrow> 'w happening" where
  "said_by_seven kind payload = Received 7 (Some (JObj [(''type'', JStr kind), (''ts'', JNum 0), (''payload'', payload)]))"

definition chatting :: "'w happening list" where
  "chatting = replicate 11 (said_by_seven ''chat.send'' (JObj [(''text'', JStr ''hi'')])) @
     [Waited 10000, said_by_seven ''chat.send'' (JObj [(''text'', JStr ''hi'')])]"

definition guest_server :: "unit server" where
  "guest_server = fold (ws_event \<lparr>as_hash = rev, as_fresh = (\<lambda>w. (''guest'', w)), as_codes = (\<lambda>w. ([], w)), as_catalog = [], as_modules = []\<rparr>)
     [Connected 7, said_by_seven ''room.join'' (JObj [(''roomId'', JStr ''ABC''), (''nickname'', JStr ''Kim'')])]
     (boot \<lparr>core = fresh_room, changes = 0\<rparr> ())"

theorem chat_is_limited_witness:
  "let log = chat_log \<lparr>as_hash = rev, as_fresh = (\<lambda>w. (''guest'', w)), as_codes = (\<lambda>w. ([], w)), as_catalog = [], as_modules = []\<rparr>
       ''guest'' chatting guest_server
   in sum_list (map (\<lambda>(tm, answer, n). n) (through 10000 log)) \<le> 10
     \<and> map (\<lambda>(tm, answer, n). (map_option snd answer, n)) log
       = replicate 10 (Some None, 1) @ [(Some (Some Rate_limited), 0), (None, 0), (Some None, 1)]"
proof -
  let ?A = "\<lparr>as_hash = rev, as_fresh = (\<lambda>w. (''guest'', w)), as_codes = (\<lambda>w. ([], w)), as_catalog = [], as_modules = []\<rparr>"
  have und: "undisturbed ?A ''guest'' chatting guest_server" by code_simp
  have none: "value_at (sv_recent guest_server) ''guest'' [] = []" by code_simp
  have "map (\<lambda>(tm, answer, n). (map_option snd answer, n)) (chat_log ?A ''guest'' chatting guest_server)
      = replicate 10 (Some None, 1) @ [(Some (Some Rate_limited), 0), (None, 0), (Some None, 1)]" by code_simp
  then show ?thesis using chat_is_limited[OF und none, of 10000] unfolding Let_def by blast
qed

end
