(* ===== verification/JoinTheorems.thy ===== *)
theory JoinTheorems
  imports Speaking
begin

text \<open>
  Joining (\<open>ws/roomJoin.ts\<close>): who gets a seat, what happens to the seat and the socket a returning player had, and what
  a failed join leaves behind.
\<close>

section \<open>Taking a seat\<close>

text \<open>The state after the seat was taken and the previous socket was sent away.\<close>

definition seat_taken :: "string \<Rightarrow> socket \<Rightarrow> identity \<Rightarrow> 'w server \<Rightarrow> room_member \<times> 'w server" where
  "seat_taken room s who S = (case registry_join room s (id_playerId who) (id_nickname who) (sv_registry S) of (self, R) \<Rightarrow>
     (self, snd (disconnectPreviousSocket (registry_find (sv_registry S) room (id_playerId who)) s (S\<lparr>sv_registry := R\<rparr>))))"

definition sits_at :: "string \<Rightarrow> string \<Rightarrow> room_member option \<Rightarrow> bool" where
  "sits_at room p seat = (case seat of None \<Rightarrow> False | Some m \<Rightarrow> mb_roomId m = room \<and> mb_playerId m = p)"

lemma disconnect_parts:
  "fst (disconnectPreviousSocket previous s S) = Inr ()"
  "sv_registry (snd (disconnectPreviousSocket previous s S)) = sv_registry S"
  "sv_fanout (snd (disconnectPreviousSocket previous s S)) = (case previous of None \<Rightarrow> sv_fanout S
     | Some m \<Rightarrow> (case mb_socket m of None \<Rightarrow> sv_fanout S | Some old \<Rightarrow> if old = s then sv_fanout S else bc_unregister old (sv_fanout S)))"
  "sv_open (snd (disconnectPreviousSocket previous s S)) = (case previous of None \<Rightarrow> sv_open S
     | Some m \<Rightarrow> (case mb_socket m of None \<Rightarrow> sv_open S | Some old \<Rightarrow> if old = s then sv_open S else filter (\<lambda>t. t \<noteq> old) (sv_open S)))"
  by (auto simp: disconnectPreviousSocket_def fanout_unregister_def change_def looking_def ws_send_def close_socket_def isOpen_def
      
      split: option.split) (metis (mono_tags, lifting) filter_True)?

lemma join_continues:
  assumes "admitJoinRequest A s message S = (Inr (Some (room, persistent, who)), S1)"
  shows "handleRoomJoin A s message S =
    (let previous = registry_find (sv_registry S1) room (id_playerId who); playing = (phaseOf (sv_registry S1) room = Playing);
         reseating = (previous = None \<and> playing \<and> hasSeat persistent (id_playerId who))
     in if playing \<and> previous = None \<and> \<not> reseating then sendError s GAME_ALREADY_STARTED (Some message) S1
        else (case seat_taken room s who S1 of (self, S2) \<Rightarrow>
          if previous \<noteq> None \<or> reseating then completeReconnect A s message room who S2 else completeFirstJoin A s room who self S2))"
proof -
  obtain self R where j: "registry_join room s (id_playerId who) (id_nickname who) (sv_registry S1) = (self, R)" by fastforce
  show ?thesis by (cases "registry_find (sv_registry S1) room (id_playerId who)") (simp_all add: handleRoomJoin_def assms looking_def join_view_def Let_def on_registry_def j seat_taken_def andThen_app disconnect_parts(1))
qed

lemma seat_taken_facts:
  assumes ok: "gateway_ok S" and run: "seat_taken room s who S = (self, T)"
  shows "registry_find (sv_registry T) room (id_playerId who) = Some self" "seat_of s T = Some self"
    "mb_roomId self = room" "mb_playerId self = id_playerId who" "mb_nickname self = id_nickname who" "mb_status self = Online" "mb_socket self = Some s"
    "mb_host self = (case registry_find (sv_registry S) room (id_playerId who) of Some e \<Rightarrow> mb_host e | None \<Rightarrow> seats_in room S = [])"
    "(r, q) \<noteq> (room, id_playerId who) \<Longrightarrow> registry_find (sv_registry T) r q = registry_find (sv_registry S) r q"
    "registry_find (sv_registry S) room (id_playerId who) = Some e \<Longrightarrow> mb_socket e = Some old \<Longrightarrow> old \<noteq> s \<Longrightarrow>
       \<not> sits_at room (id_playerId who) (seat_of old T) \<and> \<not> isOpen T old \<and> old \<notin> set (audience (sv_fanout T) r)"
    "phases (sv_registry T) = phases (sv_registry S)"
proof -
  obtain R where j: "registry_join room s (id_playerId who) (id_nickname who) (sv_registry S) = (self, R)"
    and T: "T = snd (disconnectPreviousSocket (registry_find (sv_registry S) room (id_playerId who)) s (S\<lparr>sv_registry := R\<rparr>))"
    using run by (auto simp: seat_taken_def split: prod.splits)
  have R: "sv_registry T = R" by (simp add: T disconnect_parts)
  have ms: "members_ok (members (sv_registry S))" and fan: "fanout_ok (sv_fanout S)" using ok by (simp_all add: gateway_ok_def registry_ok_def)
  from members_registry_join[OF j] have jm: "join_member room s (id_playerId who) (id_nickname who) (members (sv_registry S)) = (self, members R)"
    and ph: "phases R = phases (sv_registry S)" by simp_all
  note p = join_member_parts[OF ms jm]
  show "registry_find (sv_registry T) room (id_playerId who) = Some self" "seat_of s T = Some self"
    by (simp_all add: R registry_find_def p(8) seat_of_def registry_of_def ofSocket_def p(9))
  show "mb_roomId self = room" "mb_playerId self = id_playerId who" "mb_nickname self = id_nickname who" "mb_status self = Online" "mb_socket self = Some s"
    by (fact p)+
  show "mb_host self = (case registry_find (sv_registry S) room (id_playerId who) of Some e \<Rightarrow> mb_host e | None \<Rightarrow> seats_in room S = [])"
    by (simp add: p(7) registry_find_def seats_in_def membersOf_def ofRoom_def split: option.split)
  show "registry_find (sv_registry T) r q = registry_find (sv_registry S) r q" if "(r, q) \<noteq> (room, id_playerId who)"
    using that by (auto simp: R registry_find_def p(8))
  show "phases (sv_registry T) = phases (sv_registry S)" by (simp add: R ph)
  assume e: "registry_find (sv_registry S) room (id_playerId who) = Some e" "mb_socket e = Some old" "old \<noteq> s"
  have "\<not> (mb_roomId k = room \<and> mb_playerId k = id_playerId who)" if "seat_of old T = Some k" for k
    using that e(3) by (auto simp: seat_of_def R registry_of_def ofSocket_def p(9) split: if_splits)
  then show "\<not> sits_at room (id_playerId who) (seat_of old T) \<and> \<not> isOpen T old
      \<and> old \<notin> set (audience (sv_fanout T) r)"
    using e by (auto simp: sits_at_def T disconnect_parts isOpen_def audience_unregister[OF fan] split: option.split)
qed

text \<open>
  C31: Who may sit down, and where. Once a join is admitted, it is refused exactly when the room is being played in and
  the player has neither a seat here nor a place in the stored room; the answer is the only effect. Otherwise the player has
  the seat, online, at this socket and under the admitted name: who returns keeps the host's place, a first guest
  gets it, nobody else's seat changes. A socket the player had before is closed, hears nothing more of any room and no longer
  speaks for the seat. Who had a seat, or is reseated after a restart, is sent on the way of reconnecting, which does
  not resume the game; everybody else on the way of a first join.
\<close>
theorem who_may_sit_down:
  assumes "ws_reachable A S" "admitJoinRequest A s message S = (Inr (Some (room, persistent, who)), S1)"
    "seat_taken room s who S1 = (self, S2)"
  defines "p \<equiv> id_playerId who" and "known \<equiv> registry_find (sv_registry S1) room (id_playerId who)"
    and "playing \<equiv> phaseOf (sv_registry S1) room = Playing"
  shows "handleRoomJoin A s message S = (if playing \<and> known = None \<and> \<not> hasSeat persistent p then sendError s GAME_ALREADY_STARTED (Some message) S1
      else if known \<noteq> None \<or> playing then completeReconnect A s message room who S2 else completeFirstJoin A s room who self S2)
    \<and> registry_find (sv_registry S2) room p = Some self \<and> seat_of s S2 = Some self
    \<and> mb_status self = Online \<and> mb_socket self = Some s \<and> mb_nickname self = id_nickname who
    \<and> mb_host self = (case known of Some e \<Rightarrow> mb_host e | None \<Rightarrow> seats_in room S1 = [])
    \<and> ((r, q) \<noteq> (room, p) \<longrightarrow> registry_find (sv_registry S2) r q = registry_find (sv_registry S1) r q)
    \<and> (known = Some e \<and> mb_socket e = Some old \<and> old \<noteq> s \<longrightarrow>
        \<not> sits_at room p (seat_of old S2) \<and> \<not> isOpen S2 old \<and> old \<notin> set (audience (sv_fanout S2) r))"
proof -
  have pres: "preserves gateway_ok (admitJoinRequest A s message)"
    unfolding admitJoinRequest_def resolveJoinIdentity_def resolveIdentity_def Let_def by (intro preserve_intros)
  have ok: "gateway_ok S1" using preservesD[OF pres reachable_gateway_ok[OF assms(1)]] assms(2) by simp
  note f = seat_taken_facts[OF ok assms(3)]
  have run: "handleRoomJoin A s message S = (if playing \<and> known = None \<and> \<not> hasSeat persistent p then sendError s GAME_ALREADY_STARTED (Some message) S1
      else if known \<noteq> None \<or> playing then completeReconnect A s message room who S2 else completeFirstJoin A s room who self S2)"
    unfolding join_continues[OF assms(2)] Let_def p_def known_def playing_def using assms(3) by auto
  show ?thesis using run f(1,2,5-9) f(10)[of e old] unfolding p_def known_def by blast
qed

text \<open>A process with one game going on in the room ABC of the store, and somebody who asks to join it.\<close>

definition example_assembly :: "unit assembly" where
  "example_assembly = \<lparr>as_hash = rev, as_fresh = (\<lambda>w. (''guest'', w)), as_codes = (\<lambda>w. ([], w)), as_catalog = [], as_modules = []\<rparr>"

definition example_join :: inbound where
  "example_join = \<lparr>in_type = ''room.join'', in_ts = JNum 0,
     in_payload = Some (JObj [(''roomId'', JStr ''ABC''), (''nickname'', JStr ''Kim'')]), in_roomId = None, in_msgId = None\<rparr>"

abbreviation example_server :: "unit server" where
  "example_server \<equiv> boot \<lparr>core = busy_room, changes = 0\<rparr> ()"

definition newcomer :: "platform_error + (string \<times> room_snapshot \<times> identity) option \<Rightarrow> registry \<Rightarrow> bool" where
  "newcomer r R = (case r of Inr (Some (room, persistent, who)) \<Rightarrow> phaseOf R room = Playing \<and> registry_find R room (id_playerId who) = None
     \<and> \<not> hasSeat persistent (id_playerId who) | _ \<Rightarrow> False)"

theorem who_may_sit_down_witness:
  "handleRoomJoin example_assembly 7 example_join example_server =
    sendError 7 GAME_ALREADY_STARTED (Some example_join) (snd (admitJoinRequest example_assembly 7 example_join example_server))"
proof -
  let ?run = "admitJoinRequest example_assembly 7 example_join example_server"
  have n: "newcomer (fst ?run) (sv_registry (snd ?run))" by code_simp
  obtain x T where run: "?run = (x, T)" by fastforce
  with n obtain room persistent who where x: "x = Inr (Some (room, persistent, who))" and
    f: "phaseOf (sv_registry T) room = Playing" "registry_find (sv_registry T) room (id_playerId who) = None" "\<not> hasSeat persistent (id_playerId who)"
    by (auto simp: newcomer_def split: sum.splits option.splits)
  obtain self S2 where t: "seat_taken room 7 who T = (self, S2)" by fastforce
  show ?thesis using who_may_sit_down[OF booted run[unfolded x] t] f by (simp add: run)
qed

end
