(* ===== verification/SessionTheorems.thy ===== *)
theory SessionTheorems
  imports Sessions
begin

text \<open>
  What a session guarantees: the token that was opened last is the only one that authenticates, whichever way it is
  presented; a closed session authenticates nobody.
\<close>

section \<open>Reading and writing through the services\<close>

lemma read_store_run: "f (core m) = (Inr x, t) \<Longrightarrow> read_store f m = (Inr x, m\<lparr>core := t\<rparr>)"
  by (simp add: read_store_def)

lemma write_store_run: "f (core m) = (Inr x, t) \<Longrightarrow> write_store f m = (Inr x, m\<lparr>core := t, changes := changes m + 1\<rparr>)"
  by (simp add: write_store_def)

lemma write_store_fails: "f (core m) = (Inl e, t) \<Longrightarrow> write_store f m = (Inl (StoreFailed e), m\<lparr>core := t, changes := changes m + 1\<rparr>)"
  by (simp add: write_store_def)

lemma ttl_safe: "is_safe_integer (ttlOfType t)" "is_safe_integer (ttlOfType t * 1000)" "0 < ttlOfType t"
  by (cases t; simp add: ttlOfType_def GUEST_TTL_SECONDS_def MEMBER_TTL_SECONDS_def is_safe_integer_def)+

text \<open>The keys of a session are of the right type, and the two of them are different keys.\<close>

definition session_keys_ok :: "(string \<Rightarrow> string) \<Rightarrow> string \<Rightarrow> string \<Rightarrow> keyspace \<Rightarrow> bool" where
  "session_keys_ok H u token s \<longleftrightarrow> calm s \<and> hash_typed s (userKey u) \<and> text_typed s (tokenKey H token) \<and> userKey u \<noteq> tokenKey H token"

section \<open>Opening\<close>

definition session_fields :: "(string \<Rightarrow> string) \<Rightarrow> user_type \<Rightarrow> string \<Rightarrow> string \<Rightarrow> (string \<times> string) list" where
  "session_fields H t nickname token = [(''type'', type_text t), (''nickname'', nickname), (''tokenHash'', H token)]"

lemma write_session_calm:
  assumes ok: "session_keys_ok H u token (core m)" and run: "fst (write_session H t u nickname token m) = Inr ()"
  defines "s' \<equiv> core (snd (write_session H t u nickname token m))"
  shows "calm s'" "now s' = now (core m)" "hash_typed s' (userKey u)"
    "hash_fields s' (userKey u) = set_fields (session_fields H t nickname token) (hash_fields (core m) (userKey u))"
    "text_at s' (tokenKey H token) = Some u" "text_typed s' (tokenKey H token)"
    "k \<noteq> userKey u \<Longrightarrow> k \<noteq> tokenKey H token \<Longrightarrow> visible s' k = visible (core m) k"
proof -
  let ?u = "userKey u" and ?tk = "tokenKey H token"
  let ?args = "HRecord [(''type'', FStr (type_text t)), (''nickname'', FStr nickname), (''tokenHash'', FStr (H token))]"
  have c: "calm (core m)" "hash_typed (core m) ?u" and ne: "?u \<noteq> ?tk" using ok by (simp_all add: session_keys_ok_def)
  have ps: "toPairs ?args = Inr (session_fields H t nickname token)" by (simp add: session_fields_def)
  let ?h = "set_fields (session_fields H t nickname token) (hash_fields (core m) ?u)"
  let ?e1 = "\<lparr>e_value = HashV ?h, expiresAt = key_expiry (core m) ?u\<rparr>"
  let ?e2 = "?e1\<lparr>expiresAt := Some (now (core m) + ttlOfType t * 1000)\<rparr>"
  let ?e3 = "\<lparr>e_value = StringV u, expiresAt = Some (now (core m) + ttlOfType t * 1000)\<rparr>"
  obtain n s1 where 1: "hset ?u ?args (core m) = (Inr n, s1)" "sees_put (core m) ?u (Some ?e1) s1"
  proof -
    have "\<not> hset ?u ?args (core m) = (Inl OOM_MESSAGE, t')" for t' using run by (auto simp: write_session_def andThen_app write_store_fails)
    then show thesis using hset_calm[OF c ps] that by blast
  qed
  have s1: "calm s1" "visible s1 ?u = Some ?e1" "now s1 = now (core m)" using 1(2) by (simp_all add: sees_put_def)
  obtain r s2 where 2: "expire_key ?u (FNum (ttlOfType t)) s1 = (Inr r, s2)" "sees_put s1 ?u (Some ?e2) s2"
    using expire_calm[OF s1(1) ttl_safe[of t], of ?u] s1(2,3) by auto
  have s2: "calm s2" "now s2 = now (core m)" using 2(2) s1(3) by (simp_all add: sees_put_def)
  obtain s3 where 3: "redis_set ?tk (FStr u) [FStr ''EX'', FNum (ttlOfType t)] s2 = (Inr True, s3)" "sees_put s2 ?tk (Some ?e3) s3"
  proof -
    have "\<not> redis_set ?tk (FStr u) [FStr ''EX'', FNum (ttlOfType t)] s2 = (Inl OOM_MESSAGE, t')" for t'
      using run 1(1) 2(1) by (auto simp: write_session_def andThen_app write_store_run write_store_fails)
    then show thesis using set_ex_calm[OF s2(1) ttl_safe(1,3), of ?tk u t] s2(2) that by auto
  qed
  have s': "s' = s3" using 1(1) 2(1) 3(1) by (simp add: s'_def write_session_def andThen_app write_store_run)
  have v: "visible s3 = (visible (core m))(?u := Some ?e2, ?tk := Some ?e3)"
    using 1(2) 2(2) 3(2) by (simp add: sees_put_def)
  show "calm s'" "now s' = now (core m)" using 3(2) s2(2) by (simp_all add: s' sees_put_def)
  show "hash_typed s' ?u" "hash_fields s' ?u = ?h" "text_at s' ?tk = Some u" "text_typed s' ?tk"
    using ne by (simp_all add: s' v hash_typed_def hash_fields_def text_at_def text_typed_def)
  show "visible s' k = visible (core m) k" if "k \<noteq> ?u" "k \<noteq> ?tk" using that by (simp add: s' v)
qed

section \<open>Authenticating\<close>

text \<open>Who the fields of a session say presents the token.\<close>

definition session_of :: "(string \<Rightarrow> string) \<Rightarrow> (string \<times> string) list \<Rightarrow> string \<Rightarrow> string \<Rightarrow> platform_error + user_identity" where
  "session_of H stored u token = (case (map_of stored ''tokenHash'', map_of stored ''nickname'', parseUserType (map_of stored ''type'')) of
     (Some h, Some nickname, Some t) \<Rightarrow> if H token \<noteq> h then Inl SessionAuthenticationError else Inr (identity_of u nickname t)
   | _ \<Rightarrow> Inl SessionAuthenticationError)"

lemma credentials_run:
  assumes c: "calm (core m)" "hash_typed (core m) (userKey u)" and u: "\<not> blank u"
  shows "fst (authenticateCredentials H (Some u) token m) = session_of H (hash_fields (core m) (userKey u)) u token"
proof -
  let ?F = "hash_fields (core m) (userKey u)"
  obtain t where t: "hgetall (userKey u) (core m) = (Inr ?F, t)" "same_sight (core m) t" using hash_read_calm(2)[OF c] by blast
  note get = read_store_run[where f = "hgetall (userKey u)", OF t(1)]
  have refresh: "\<exists>r m'. write_store (expire_key k (FNum (ttlOfType ty))) m0 = (Inr r, m') \<and> calm (core m')" if m0: "calm (core m0)" for k ty m0
  proof -
    obtain r t where "expire_key k (FNum (ttlOfType ty)) (core m0) = (Inr r, t)" "calm t"
      using expire_calm[OF m0 ttl_safe[of ty], of k] by (cases "visible (core m0) k") (auto simp: sees_put_def same_sight_def)
    then show ?thesis by (auto simp: write_store_run)
  qed
  show ?thesis
  proof (cases "map_of ?F ''tokenHash''"; cases "map_of ?F ''nickname''"; cases "parseUserType (map_of ?F ''type'')")
    fix h n ty assume f: "map_of ?F ''tokenHash'' = Some h" "map_of ?F ''nickname'' = Some n" "parseUserType (map_of ?F ''type'') = Some ty"
    let ?m0 = "m\<lparr>core := t\<rparr>"
    have "calm (core ?m0)" using t(2) by (simp add: same_sight_def)
    then obtain r m1 where 1: "write_store (expire_key (userKey u) (FNum (ttlOfType ty))) ?m0 = (Inr r, m1)" "calm (core m1)" using refresh by blast
    obtain r2 m2 where 2: "write_store (expire_key (tokenKey H token) (FNum (ttlOfType ty))) m1 = (Inr r2, m2)" using refresh[OF 1(2)] by blast
    show ?thesis using u f get 1(1) 2 by (simp add: authenticateCredentials_def andThen_app session_of_def)
  qed (use u get in \<open>simp_all add: authenticateCredentials_def andThen_app session_of_def\<close>)
qed

lemma session_run:
  assumes c: "calm (core m)" "text_typed (core m) (tokenKey H token)" and tk: "\<not> blank token"
    and u: "text_at (core m) (tokenKey H token) = Some u" "hash_typed (core m) (userKey u)" "\<not> blank u"
  shows "fst (authenticateSession H (Some token) m) = session_of H (hash_fields (core m) (userKey u)) u token"
proof -
  obtain t where t: "redis_get (tokenKey H token) (core m) = (Inr (Some u), t)" "same_sight (core m) t" using get_calm[OF c] u(1) by auto
  note get = read_store_run[where f = "redis_get (tokenKey H token)", OF t(1)]
  have "calm t" "hash_typed t (userKey u)" "hash_fields t (userKey u) = hash_fields (core m) (userKey u)"
    using same_sightD[OF t(2)] u(2) by simp_all
  then show ?thesis using credentials_run[of "m\<lparr>core := t\<rparr>" u H token] u(3) tk get
    by (simp add: authenticateSession_def no_token_def andThen_app)
qed

lemma session_unknown:
  assumes c: "calm (core m)" "text_typed (core m) (tokenKey H token)" "text_at (core m) (tokenKey H token) = None"
  shows "fst (authenticateSession H (Some token) m) = Inl SessionAuthenticationError"
proof (cases "blank token")
  case True then show ?thesis by (simp add: authenticateSession_def no_token_def)
next
  case False
  obtain t where "redis_get (tokenKey H token) (core m) = (Inr None, t)" using get_calm[OF c(1,2)] c(3) by auto
  then show ?thesis using False by (simp add: authenticateSession_def no_token_def andThen_app read_store_run)
qed

lemma session_fields_read:
  "map_of (set_fields (session_fields H t nickname token) F) ''tokenHash'' = Some (H token)"
  "map_of (set_fields (session_fields H t nickname token) F) ''nickname'' = Some nickname"
  "map_of (set_fields (session_fields H t nickname token) F) ''type'' = Some (type_text t)"
  by (simp_all add: set_fields_def session_fields_def)

lemma parse_type_text [simp]: "parseUserType (Some (type_text t)) = Some t"
  by (cases t) (simp_all add: parseUserType_def type_text_def)

section \<open>Closing\<close>

lemma map_of_remove_fields: "map_of (remove_fields fs h) f = (if f \<in> set fs then None else map_of h f)"
proof (induction fs arbitrary: h)
  case (Cons g fs)
  have "map_of (AList.delete g h) f = (if f = g then None else map_of h f)" by simp
  then show ?case using Cons.IH[of "AList.delete g h"] by (simp add: remove_fields_def)
qed (simp add: remove_fields_def)

lemma close_calm:
  assumes ok: "session_keys_ok H u token (core m)" and at: "text_at (core m) (tokenKey H token) = Some u" and tk: "\<not> blank token"
  defines "s' \<equiv> core (snd (closeSession H (Some token) m))"
  shows "fst (closeSession H (Some token) m) = Inr ()" "calm s'" "hash_typed s' (userKey u)" "text_typed s' (tokenKey H token)"
    "text_at s' (tokenKey H token) = None" "map_of (hash_fields s' (userKey u)) ''tokenHash'' = None"
    "\<And>k. k \<noteq> userKey u \<Longrightarrow> k \<noteq> tokenKey H token \<Longrightarrow> visible s' k = visible (core m) k"
proof -
  let ?u = "userKey u" and ?tk = "tokenKey H token"
  have c: "calm (core m)" "text_typed (core m) ?tk" and hu: "hash_typed (core m) ?u" and ne: "?u \<noteq> ?tk" using ok by (simp_all add: session_keys_ok_def)
  obtain s1 where 1: "redis_get ?tk (core m) = (Inr (Some u), s1)" "same_sight (core m) s1" using get_calm[OF c] at by auto
  have c1: "calm s1" "hash_typed s1 ?u" using same_sightD[OF 1(2)] hu by simp_all
  obtain n s2 where 2: "del_keys [?tk] s1 = (Inr n, s2)" "sees_put s1 ?tk None s2" using del_calm[OF c1(1)] by blast
  note d = sees_putD[OF 2(2)]
  have u2: "hash_typed s2 ?u" using d(5)[OF ne] c1(2) by simp
  let ?h = "remove_fields [''tokenHash''] (hash_fields s2 ?u)"
  obtain k s3 where 3: "hdel ?u [FStr ''tokenHash''] s2 = (Inr k, s3)"
    and p3: "if present s2 ?u then sees_put s2 ?u (if ?h = [] then None else Some \<lparr>e_value = HashV ?h, expiresAt = key_expiry s2 ?u\<rparr>) s3 else same_sight s2 s3"
  proof -
    have one: "map field_string [FStr ''tokenHash''] = [''tokenHash'']" by simp
    show thesis using hdel_calm[OF d(1) u2, of "[FStr ''tokenHash'']"] that unfolding one by blast
  qed
  have run: "closeSession H (Some token) m = (Inr (), snd (closeSession H (Some token) m))" and s': "s' = s3"
    using tk 1(1) 2(1) 3 by (simp_all add: s'_def closeSession_def no_token_def andThen_app read_store_run write_store_run)
  show "fst (closeSession H (Some token) m) = Inr ()" using run by (metis fst_conv)
  have "calm s3 \<and> hash_typed s3 ?u \<and> text_typed s3 ?tk \<and> text_at s3 ?tk = None \<and> map_of (hash_fields s3 ?u) ''tokenHash'' = None"
  proof (cases "present s2 ?u")
    case True
    then have p: "sees_put s2 ?u (if ?h = [] then None else Some \<lparr>e_value = HashV ?h, expiresAt = key_expiry s2 ?u\<rparr>) s3" using p3 by simp
    note e = sees_putD[OF p]
    show ?thesis using e(1) e(6)[of ?tk] e(7)[of ?tk] e(8,9) d(10,11) ne map_of_remove_fields[of "[''tokenHash'']" "hash_fields s2 ?u" "''tokenHash''"]
      by (auto split: if_splits)
  next
    case False
    then have p: "same_sight s2 s3" using p3 by simp
    have "hash_fields s2 ?u = []" using False by (simp add: present_def hash_fields_def split: option.split)
    then show ?thesis using same_sightD[OF p] same_sight_text[OF p] d(10,11) u2 by simp
  qed
  then show "calm s'" "hash_typed s' ?u" "text_typed s' ?tk" "text_at s' ?tk = None" "map_of (hash_fields s' ?u) ''tokenHash'' = None"
    by (simp_all add: s')
  show "visible s' k = visible (core m) k" if "k \<noteq> ?u" "k \<noteq> ?tk" for k
    using 1(2) 2(2) p3 that by (auto simp: s' sees_put_def same_sight_def split: if_splits)
qed

text \<open>
  C34: One session per user. After a session was opened, its token authenticates, through the index and together with the user's
  identifier, as the user it was opened for; presented with the identifier every token with another hash is refused, and a
  token the user held before, which the index still knows, is refused as well.
\<close>
theorem only_the_last_token_authenticates:
  assumes "session_keys_ok H u token (core m)" "\<not> blank u" "\<not> blank token"
    and "write_session H t u nickname token m = (Inr (), m')"
  shows "fst (authenticateSession H (Some token) m') = Inr (identity_of u nickname t)
    \<and> fst (authenticateCredentials H (Some u) presented m') =
        (if H presented = H token then Inr (identity_of u nickname t) else Inl SessionAuthenticationError)
    \<and> (text_at (core m) (tokenKey H old) = Some u \<and> H old \<noteq> H token \<and> userKey u \<noteq> tokenKey H old \<longrightarrow>
        fst (authenticateSession H (Some old) m') = Inl SessionAuthenticationError)"
proof -
  have run: "fst (write_session H t u nickname token m) = Inr ()" "m' = snd (write_session H t u nickname token m)" using assms(4) by simp_all
  note w = write_session_calm[OF assms(1) run(1), folded run(2)]
  have who: "session_of H (hash_fields (core m') (userKey u)) u x
      = (if H x = H token then Inr (identity_of u nickname t) else Inl SessionAuthenticationError)" for x
    by (simp add: session_of_def w(4) session_fields_read)
  have before: "fst (authenticateSession H (Some old) m') = Inl SessionAuthenticationError"
    if old: "text_at (core m) (tokenKey H old) = Some u" "H old \<noteq> H token" "userKey u \<noteq> tokenKey H old"
  proof (cases "blank old")
    case True then show ?thesis by (simp add: authenticateSession_def no_token_def)
  next
    case False
    have "tokenKey H old \<noteq> tokenKey H token" using old(2) by (simp add: tokenKey_def)
    then have "visible (core m') (tokenKey H old) = visible (core m) (tokenKey H old)" using w(7) old(3) by metis
    then have "text_at (core m') (tokenKey H old) = Some u" "text_typed (core m') (tokenKey H old)"
      using old(1) by (auto simp: text_at_def text_typed_def split: option.splits redis_value.splits)
    then show ?thesis using session_run[OF w(1) _ False _ w(3) assms(2)] who old(2) by simp
  qed
  show ?thesis using session_run[OF w(1,6) assms(3) w(5,3) assms(2)] credentials_run[OF w(1,3) assms(2), of H presented] who before by auto
qed

theorem only_the_last_token_authenticates_witness:
  "let m' = snd (write_session rev MEMBER ''u'' ''Kim'' ''t1'' \<lparr>core = busy_room, changes = 0\<rparr>)
   in fst (authenticateSession rev (Some ''t1'') m') = Inr (identity_of ''u'' ''Kim'' MEMBER)
     \<and> fst (authenticateCredentials rev (Some ''u'') ''t0'' m') = Inl SessionAuthenticationError"
proof -
  let ?m = "\<lparr>core = busy_room, changes = 0\<rparr>"
  let ?run = "write_session rev MEMBER ''u'' ''Kim'' ''t1'' ?m"
  have "scriptCreates busy_room = None" "hash_typed busy_room (userKey ''u'')" "text_typed busy_room (tokenKey rev ''t1'')" by code_simp+
  then have ok: "session_keys_ok rev ''u'' ''t1'' (core ?m)"
    using busy_room_inv by (simp add: session_keys_ok_def calm_def userKey_def tokenKey_def)
  have "fst ?run = Inr ()" by code_simp
  then have run: "?run = (Inr (), snd ?run)" by (metis prod.collapse)
  have "\<not> blank ''u''" "\<not> blank ''t1''" by code_simp+
  from only_the_last_token_authenticates[OF ok this run, of "''t0''"] show ?thesis by simp
qed

text \<open>
  C35: A closed session is closed for good. Closing with a token the index knows ends both ways of authenticating: the index
  forgets the token, every other token the index still knows for the user is refused as well, and together with the
  identifier no token whatsoever is accepted until a new session is opened. So the
  close also ends, on both ways, a session that was opened after the token it is given.
\<close>
theorem a_closed_session_authenticates_nobody:
  fixes m :: memory_redis
  assumes "session_keys_ok H u token (core m)" "\<not> blank u" "\<not> blank token" "text_at (core m) (tokenKey H token) = Some u"
  defines "closed \<equiv> snd (closeSession H (Some token) m)"
  shows "fst (closeSession H (Some token) m) = Inr ()
    \<and> fst (authenticateSession H (Some token) closed) = Inl SessionAuthenticationError
    \<and> fst (authenticateCredentials H (Some u) presented closed) = Inl SessionAuthenticationError
    \<and> (text_at (core m) (tokenKey H other) = Some u \<and> userKey u \<noteq> tokenKey H other \<longrightarrow>
        fst (authenticateSession H (Some other) closed) = Inl SessionAuthenticationError)"
proof -
  note c = close_calm[OF assms(1,4,3), folded closed_def]
  have "fst (authenticateSession H (Some other) closed) = Inl SessionAuthenticationError"
    if other: "text_at (core m) (tokenKey H other) = Some u" "userKey u \<noteq> tokenKey H other"
  proof (cases "blank other \<or> tokenKey H other = tokenKey H token")
    case True
    then show ?thesis using session_unknown[where m = closed and H = H and token = other] c(2,4,5)
      by (auto simp: authenticateSession_def no_token_def)
  next
    case False
    then have "visible (core closed) (tokenKey H other) = visible (core m) (tokenKey H other)" using c(7) other(2) by metis
    then have "text_at (core closed) (tokenKey H other) = Some u" "text_typed (core closed) (tokenKey H other)"
      using other(1) by (auto simp: text_at_def text_typed_def split: option.splits redis_value.splits)
    then show ?thesis using session_run[OF c(2) _ _ _ c(3) assms(2), where token = other] False c(6) by (simp add: session_of_def)
  qed
  then show ?thesis using c(1) session_unknown[OF c(2,4,5)] credentials_run[OF c(2,3) assms(2), of H presented] c(6)
    by (simp add: session_of_def closed_def)
qed

theorem a_closed_session_authenticates_nobody_witness:
  "let m1 = snd (write_session rev MEMBER ''u'' ''Kim'' ''t1'' \<lparr>core = busy_room, changes = 0\<rparr>);
       m2 = snd (write_session rev MEMBER ''u'' ''Kim'' ''t2'' m1)
   in fst (authenticateSession rev (Some ''t2'') m2) = Inr (identity_of ''u'' ''Kim'' MEMBER)
     \<and> fst (authenticateCredentials rev (Some ''u'') ''t2'' (snd (closeSession rev (Some ''t1'') m2))) = Inl SessionAuthenticationError
     \<and> fst (authenticateSession rev (Some ''t2'') (snd (closeSession rev (Some ''t1'') m2))) = Inl SessionAuthenticationError"
proof -
  let ?m = "\<lparr>core = busy_room, changes = 0\<rparr>"
  let ?m1 = "snd (write_session rev MEMBER ''u'' ''Kim'' ''t1'' ?m)"
  let ?m2 = "snd (write_session rev MEMBER ''u'' ''Kim'' ''t2'' ?m1)"
  have "scriptCreates busy_room = None" "hash_typed busy_room (userKey ''u'')" "text_typed busy_room (tokenKey rev ''t1'')" by code_simp+
  then have ok: "session_keys_ok rev ''u'' ''t1'' (core ?m)"
    using busy_room_inv by (simp add: session_keys_ok_def calm_def userKey_def tokenKey_def)
  have r1: "fst (write_session rev MEMBER ''u'' ''Kim'' ''t1'' ?m) = Inr ()" by code_simp
  note w1 = write_session_calm[OF ok r1]
  have ok1: "session_keys_ok rev ''u'' ''t2'' (core ?m1)"
    using w1(1,3) w1(7)[of "tokenKey rev ''t2''"] by (simp add: session_keys_ok_def userKey_def tokenKey_def text_typed_def) code_simp
  have r2: "fst (write_session rev MEMBER ''u'' ''Kim'' ''t2'' ?m1) = Inr ()" by code_simp
  note w2 = write_session_calm[OF ok1 r2]
  have ok2: "session_keys_ok rev ''u'' ''t1'' (core ?m2)" and at: "text_at (core ?m2) (tokenKey rev ''t1'') = Some ''u''"
    using w2(1,3) w2(7)[of "tokenKey rev ''t1''"] w1(5,6)
    by (simp_all add: session_keys_ok_def userKey_def tokenKey_def text_typed_def text_at_def)
  have b: "\<not> blank ''u''" "\<not> blank ''t1''" by code_simp+
  have "fst (authenticateSession rev (Some ''t2'') ?m2) = Inr (identity_of ''u'' ''Kim'' MEMBER)" by code_simp
  moreover have "text_at (core ?m2) (tokenKey rev ''t2'') = Some ''u''" "userKey ''u'' \<noteq> tokenKey rev ''t2''"
    using w2(5) by (simp_all add: userKey_def tokenKey_def)
  ultimately show ?thesis using a_closed_session_authenticates_nobody[OF ok2 b at, of "''t2''" "''t2''"] by simp
qed

end
