(* ===== verification/RoomServiceTheorems.thy ===== *)
theory RoomServiceTheorems
  imports SessionTheorems
begin

text \<open>
  What the room services guarantee on top of the scripts: a snapshot shows exactly the stored room, and joining through
  the service answers what the room is like.
\<close>

section \<open>Numbers and order in a snapshot\<close>

lemma plain_digits: "list_all (\<lambda>c. digit_value c \<noteq> None \<and> \<not> is_blank_char c \<and> c \<noteq> CHR ''-'' \<and> c \<noteq> CHR ''+'') (digits_of_nat n)"
proof (induction n rule: digits_of_nat.induct)
  case (1 n)
  have d: "digit_value (decimal_digits ! d) \<noteq> None \<and> \<not> is_blank_char (decimal_digits ! d) \<and> decimal_digits ! d \<noteq> CHR ''-''
      \<and> decimal_digits ! d \<noteq> CHR ''+''" if "d < 10" for d
    using less_10_cases[OF that] by (auto simp: digit_value_def decimal_digits_def upt_rec is_blank_char_def)
  show ?case using 1 d[of n] d[of "n mod 10"] by (cases "n < 10") (simp_all add: digits_of_nat.simps[of n])
qed

lemma parseInt_string_of_int: "parseInt (string_of_int i) = Some i"
proof -
  have take: "takeWhile (\<lambda>c. \<exists>y. digit_value c = Some y) (digits_of_nat n) = digits_of_nat n" for n
    unfolding takeWhile_eq_all_conv using plain_digits[of n] by (auto simp: list_all_iff)
  show ?thesis
  proof (cases "i < 0")
    case True
    have "\<not> is_blank_char (CHR ''-'')" by (simp add: is_blank_char_def)
    then show ?thesis using True by (simp add: parseInt_def string_of_int_def Let_def take)
  next
    case False
    obtain c cs where d: "digits_of_nat (nat i) = c # cs" by (cases "digits_of_nat (nat i)") auto
    then have c: "\<not> is_blank_char c" "c \<noteq> CHR ''-''" "c \<noteq> CHR ''+''" using plain_digits[of "nat i"] by simp_all
    show ?thesis using False c take[of "nat i"] nat_of_digits_of_nat[of "nat i"] unfolding string_of_int_def parseInt_def Let_def d by simp
  qed
qed

lemma insert_by_playerId: "sorted (map ps_playerId xs) \<Longrightarrow> sorted (map ps_playerId (insert_by byPlayerId x xs))"
  by (induction xs) (auto simp: byPlayerId_def split: if_splits)

lemma sorted_by_playerId: "sorted (map ps_playerId (sort_by byPlayerId xs))"
  by (induction xs) (simp_all add: sort_by_def insert_by_playerId)

section \<open>Reading a room\<close>

definition snapshot_data :: "string \<Rightarrow> (string \<times> string) list \<Rightarrow> (string \<times> string) list \<Rightarrow> (string \<times> string) list \<Rightarrow> (string \<times> string) list
    \<Rightarrow> platform_error + room_snapshot" where
  "snapshot_data c R P S B = (if R = [] then Inr (roomNotFound (Some c)) else (case parsePhase (map_of R ''phase'') of Inl e \<Rightarrow> Inl e
     | Inr phase \<Rightarrow> Inr \<lparr>rs_roomCode = Some c, rs_gameCode = map_of R ''gameCode'', rs_gameId = map_of R ''gameId'',
         rs_hostId = map_of R ''hostId'', rs_phase = Some phase, rs_capacity = parseInt (value_at R ''capacity'' ''0''),
         rs_players = sort_by byPlayerId (map (player_of S B) P)\<rparr>))"

lemma getSnapshot_run:
  assumes c: "calm (core m)" and ty: "family_typed c (core m)"
  shows "\<exists>m'. getSnapshot c m = (snapshot_data c (hash_fields (core m) (roomKey c)) (hash_fields (core m) (playersKey c))
      (hash_fields (core m) (scoresKey c)) (hash_fields (core m) (botsKey c)), m') \<and> same_sight (core m) (core m') \<and> changes m' = changes m"
proof -
  have read: "\<exists>t. read_store (hgetall k) m1 = (Inr (hash_fields (core m) k), m1\<lparr>core := t\<rparr>) \<and> same_sight (core m) t"
    if seen: "same_sight (core m) (core m1)" and typed: "hash_typed (core m) k" for k m1
  proof -
    note s = same_sightD[OF seen]
    obtain t where "hgetall k (core m1) = (Inr (hash_fields (core m1) k), t)" "same_sight (core m1) t"
      using hash_read_calm(2)[of "core m1" k] s typed by auto
    then show ?thesis using s(4) same_sight_trans[OF seen] by (auto simp: read_store_run)
  qed
  note t = ty[unfolded family_typed_def]
  obtain t1 where 1: "read_store (hgetall (roomKey c)) m = (Inr (hash_fields (core m) (roomKey c)), m\<lparr>core := t1\<rparr>)" "same_sight (core m) t1"
    using read[of m "roomKey c"] c t by auto
  let ?m1 = "m\<lparr>core := t1\<rparr>"
  obtain t2 where 2: "read_store (hgetall (playersKey c)) ?m1 = (Inr (hash_fields (core m) (playersKey c)), ?m1\<lparr>core := t2\<rparr>)" "same_sight (core m) t2"
    using read[of ?m1 "playersKey c"] 1(2) t by auto
  let ?m2 = "?m1\<lparr>core := t2\<rparr>"
  obtain t3 where 3: "read_store (hgetall (scoresKey c)) ?m2 = (Inr (hash_fields (core m) (scoresKey c)), ?m2\<lparr>core := t3\<rparr>)" "same_sight (core m) t3"
    using read[of ?m2 "scoresKey c"] 2(2) t by auto
  let ?m3 = "?m2\<lparr>core := t3\<rparr>"
  obtain t4 where 4: "read_store (hgetall (botsKey c)) ?m3 = (Inr (hash_fields (core m) (botsKey c)), ?m3\<lparr>core := t4\<rparr>)" "same_sight (core m) t4"
    using read[of ?m3 "botsKey c"] 3(2) t by auto
  show ?thesis
  proof (cases "hash_fields (core m) (roomKey c) = []")
    case True then show ?thesis using 1 by (simp add: getSnapshot_def andThen_app snapshot_data_def)
  next
    case False
    then show ?thesis using 1 2 3 4
      by (cases "parsePhase (map_of (hash_fields (core m) (roomKey c)) ''phase'')") (simp_all add: getSnapshot_def andThen_app snapshot_data_def)
  qed
qed

text \<open>A snapshot shows these hashes: the phase by its name, the numbers as stored.\<close>

fun phase_name :: "room_phase \<Rightarrow> string" where
  "phase_name LOBBY = ''LOBBY''"
| "phase_name PLAYING = ''PLAYING''"
| "phase_name FINISHED = ''FINISHED''"

definition shows_player :: "(string \<times> string) list \<Rightarrow> (string \<times> string) list \<Rightarrow> (string \<times> string) list \<Rightarrow> player_snapshot \<Rightarrow> bool" where
  "shows_player P S B p \<longleftrightarrow> map_of P (ps_playerId p) = Some (ps_nickname p)
     \<and> (if ps_playerId p \<in> keys_of B then ps_kind p = BOT else ps_kind p = HUMAN)
     \<and> (\<forall>n. map_of S (ps_playerId p) = Some (string_of_int n) \<longrightarrow> ps_score p = Some n)"

definition shows_room :: "string \<Rightarrow> (string \<times> string) list \<Rightarrow> (string \<times> string) list \<Rightarrow> (string \<times> string) list \<Rightarrow> (string \<times> string) list
    \<Rightarrow> room_snapshot \<Rightarrow> bool" where
  "shows_room c R P S B snapshot \<longleftrightarrow> rs_roomCode snapshot = Some c \<and> rs_hostId snapshot = map_of R ''hostId'' \<and> rs_gameCode snapshot = map_of R ''gameCode''
     \<and> (\<exists>phase. rs_phase snapshot = Some phase \<and> map_of R ''phase'' = Some (phase_name phase))
     \<and> (rs_phase snapshot = Some LOBBY \<longleftrightarrow> rs_gameId snapshot = None) \<and> rs_gameId snapshot = map_of R ''gameId''
     \<and> (\<exists>cap. rs_capacity snapshot = Some cap \<and> map_of R ''capacity'' = Some (string_of_int cap) \<and> int (length (rs_players snapshot)) \<le> cap)
     \<and> sorted (map ps_playerId (rs_players snapshot)) \<and> distinct (map ps_playerId (rs_players snapshot))
     \<and> set (map ps_playerId (rs_players snapshot)) = keys_of P \<and> list_all (shows_player P S B) (rs_players snapshot)"

lemma player_of_shows: "wf_map P \<Longrightarrow> e \<in> set P \<Longrightarrow> shows_player P S B (player_of S B e)"
  by (cases e) (auto simp: shows_player_def player_of_def has_key_iff value_at_def parseInt_string_of_int)

lemma snapshot_of_room:
  assumes data: "room_data_ok R P S B" and wf: "wf_map P"
  shows "\<exists>snapshot. snapshot_data c R P S B = Inr snapshot \<and> shows_room c R P S B snapshot"
proof -
  obtain cap ph h where f: "room_facts R (length P) (keys_of P) (keys_of S) (keys_of B) cap ph h"
    using data room_data_ok_facts by blast
  have cap: "map_of R ''capacity'' = Some (string_of_int cap)" "int (length P) \<le> cap"
    and ph: "map_of R ''phase'' = Some ph" "ph = ''LOBBY'' \<or> ph = ''PLAYING'' \<or> ph = ''FINISHED''" "ph = ''LOBBY'' \<longleftrightarrow> map_of R ''gameId'' = None"
    using f unfolding room_facts_def by blast+
  obtain phase where p: "parsePhase (map_of R ''phase'') = Inr phase" "phase = LOBBY \<longleftrightarrow> ph = ''LOBBY''" "ph = phase_name phase"
  proof -
    consider "ph = ''LOBBY''" | "ph = ''PLAYING''" | "ph = ''FINISHED''" using ph(2) by blast
    then show thesis using that ph(1) by cases (simp_all add: parsePhase_def)
  qed
  have ne: "R \<noteq> []" using cap(1) by auto
  have ids: "map ps_playerId (map (player_of S B) P) = map fst P" by (auto simp: player_of_def)
  have d: "distinct (map ps_playerId (sort_by byPlayerId (map (player_of S B) P)))"
  proof -
    have "mset (map ps_playerId (sort_by byPlayerId (map (player_of S B) P))) = mset (map fst P)"
      unfolding mset_map mset_sort_by unfolding mset_map[symmetric] ids ..
    from mset_eq_imp_distinct_iff[OF this] wf show ?thesis by simp
  qed
  let ?players = "sort_by byPlayerId (map (player_of S B) P)"
  let ?snapshot = "\<lparr>rs_roomCode = Some c, rs_gameCode = map_of R ''gameCode'', rs_gameId = map_of R ''gameId'',
         rs_hostId = map_of R ''hostId'', rs_phase = Some phase, rs_capacity = parseInt (value_at R ''capacity'' ''0''), rs_players = ?players\<rparr>"
  have "snapshot_data c R P S B = Inr ?snapshot" using ne p(1) by (simp add: snapshot_data_def)
  moreover have "shows_room c R P S B ?snapshot"
  proof -
    have "parseInt (value_at R ''capacity'' ''0'') = Some cap" using cap(1) by (simp add: value_at_def parseInt_string_of_int)
    moreover have "phase = LOBBY \<longleftrightarrow> map_of R ''gameId'' = None" using p(2) ph(3) by blast
    moreover have "set ?players = player_of S B ` set P"
      using arg_cong[OF mset_sort_by[of byPlayerId "map (player_of S B) P"], of set_mset] by simp
    moreover from this have "list_all (shows_player P S B) ?players" using player_of_shows[OF wf] by (auto simp: list_all_iff)
    moreover have "ps_playerId ` player_of S B ` set P = keys_of P" by (force simp: player_of_def)
    ultimately show ?thesis using cap d ph(1) p(3) sorted_by_playerId[of "map (player_of S B) P"] unfolding shows_room_def by simp
  qed
  ultimately show ?thesis by blast
qed

text \<open>
  C36: A snapshot shows the stored room. Reading a room that keeps the invariant never fails on its phase and changes
  nothing: a room that is not there gives the snapshot of a missing room; otherwise capacity, phase (each of the three by its
  stored name), host and game are the stored ones, a game is attached exactly outside the lobby, and the players are exactly
  the stored players, each once, in the order of their identifiers, with their stored nicknames and integer scores, a bot exactly
  when the table of bots has them, never more than the capacity.
\<close>
theorem snapshot_shows_the_room:
  assumes "calm (core m)" "room_inv c (core m)"
  shows "case getSnapshot c m of (result, m') \<Rightarrow> visible (core m') = visible (core m) \<and> changes m' = changes m
    \<and> (if present (core m) (roomKey c)
       then \<exists>snapshot. result = Inr snapshot \<and> shows_room c (hash_fields (core m) (roomKey c)) (hash_fields (core m) (playersKey c))
              (hash_fields (core m) (scoresKey c)) (hash_fields (core m) (botsKey c)) snapshot
       else result = Inr (roomNotFound (Some c)))"
proof -
  let ?R = "hash_fields (core m) (roomKey c)" and ?P = "hash_fields (core m) (playersKey c)" and ?S = "hash_fields (core m) (scoresKey c)"
    and ?B = "hash_fields (core m) (botsKey c)"
  obtain m' where run: "getSnapshot c m = (snapshot_data c ?R ?P ?S ?B, m')" "same_sight (core m) (core m')" "changes m' = changes m"
    using getSnapshot_run[OF assms(1) room_inv_family[OF assms(2)]] by blast
  have wf: "wf_map ?P" using assms(1) wf_hash_fields[of "core m" "playersKey c"] by (simp add: calm_def)
  have "if present (core m) (roomKey c) then \<exists>snapshot. snapshot_data c ?R ?P ?S ?B = Inr snapshot \<and> shows_room c ?R ?P ?S ?B snapshot
      else snapshot_data c ?R ?P ?S ?B = Inr (roomNotFound (Some c))"
  proof (cases "present (core m) (roomKey c)")
    case True
    then have "room_data_ok ?R ?P ?S ?B" using assms(2) by (auto simp: room_inv_def)
    then show ?thesis using True snapshot_of_room[OF _ wf] by simp
  next
    case False
    then have "?R = []" by (simp add: present_def hash_fields_def split: option.split)
    then show ?thesis using False by (simp add: snapshot_data_def)
  qed
  then show ?thesis using run same_sightD(2)[OF run(2)] by simp
qed

theorem snapshot_shows_the_room_witness:
  "\<exists>snapshot. fst (getSnapshot ''ABC'' \<lparr>core = busy_room, changes = 0\<rparr>) = Inr snapshot \<and> rs_phase snapshot = Some PLAYING"
proof -
  have calm: "calm busy_room" using busy_room_inv(2) by (simp add: calm_def) code_simp
  have "map_of (hash_fields busy_room (roomKey ''ABC'')) ''phase'' = Some (phase_name PLAYING)" by code_simp
  moreover have "phase_name p = ''PLAYING'' \<Longrightarrow> p = PLAYING" for p by (cases p) simp_all
  ultimately show ?thesis
    using snapshot_shows_the_room[of "\<lparr>core = busy_room, changes = 0\<rparr>" "''ABC''"] busy_room_inv(1,3) calm
    by (cases "getSnapshot ''ABC'' \<lparr>core = busy_room, changes = 0\<rparr>") (auto simp: shows_room_def)
qed

section \<open>Joining\<close>

lemma perform_calm:
  assumes "calm (core m)" shows "calm (core (snd (perform c call m)))"
proof -
  have wf: "wf_store (core m)" and sc: "scriptCreates (core m) = None" using assms by (simp_all add: calm_def)
  from wf show ?thesis by (cases rule: perform_on_clean[where c = c and call = call]) (use sc in \<open>simp_all add: calm_def\<close>)
qed

text \<open>What a join through the service must answer, by what is stored before it.\<close>

definition join_refusal :: "keyspace \<Rightarrow> string \<Rightarrow> string \<Rightarrow> platform_error option" where
  "join_refusal s c u = (
     if \<not> present s (roomKey c) then Some (domain_error ''room_not_found'')
     else if map_of (hash_fields s (roomKey c)) ''phase'' \<noteq> Some ''LOBBY'' then Some (conflict_error ''game_started'')
     else if has_key (hash_fields s (playersKey c)) u then None
     else if at_least (int (length (hash_fields s (playersKey c)))) (number_of_field (map_of (hash_fields s (roomKey c)) ''capacity''))
       then Some (conflict_error ''room_full'')
     else None)"

lemma join_script:
  assumes calm: "calm (core m)" and inv: "room_inv c (core m)" and ok: "fst (perform c (CallJoin u nick) m) \<noteq> Inl OOM_MESSAGE"
  defines "s' \<equiv> core (snd (perform c (CallJoin u nick) m))"
  shows "fst (perform c (CallJoin u nick) m) = Inr (case join_refusal (core m) c u of
        Some e \<Rightarrow> if e = domain_error ''room_not_found'' then 0 else if e = conflict_error ''game_started'' then 2 else 3
      | None \<Rightarrow> if has_key (hash_fields (core m) (playersKey c)) u then 4 else 1)"
    "hash_fields s' (playersKey c) = (if join_refusal (core m) c u = None \<and> \<not> has_key (hash_fields (core m) (playersKey c)) u
        then AList.update u nick (hash_fields (core m) (playersKey c)) else hash_fields (core m) (playersKey c))"
    "present s' (roomKey c) = present (core m) (roomKey c)"
proof -
  have wf: "wf_store (core m)" using calm by (simp add: calm_def)
  have "fst (perform c (CallJoin u nick) m) = Inr (case join_refusal (core m) c u of
        Some e \<Rightarrow> if e = domain_error ''room_not_found'' then 0 else if e = conflict_error ''game_started'' then 2 else 3
      | None \<Rightarrow> if has_key (hash_fields (core m) (playersKey c)) u then 4 else 1)
    \<and> hash_fields s' (playersKey c) = (if join_refusal (core m) c u = None \<and> \<not> has_key (hash_fields (core m) (playersKey c)) u
        then AList.update u nick (hash_fields (core m) (playersKey c)) else hash_fields (core m) (playersKey c))
    \<and> present s' (roomKey c) = present (core m) (roomKey c)"
    using wf
  proof (cases rule: perform_on_clean[where c = c and call = "CallJoin u nick"])
    case refused then show ?thesis using ok by simp
  next
    case (admitted t)
    note eq = same_visible[OF admitted(3,4)]
    let ?body = "body_of c (CallJoin u nick)"
    have obs: "hash_fields s' = hash_fields (snd (?body t))" "present s' = present (snd (?body t))"
      using admitted(7) by (auto simp: s'_def hash_fields_def present_def fun_eq_iff)
    have body: "?body t = script_run JOIN (roomKeyFamily c) [u, nick] t" by (simp add: body_of_def)
    show ?thesis
    proof (cases "present (core m) (roomKey c)")
      case False
      then have "\<not> present t (roomKey c)" using eq by simp
      then have "?body t = (Inr 0, t)" using admitted(1) by (simp add: body JOIN_def Let_def roomKeyFamily_def run_simps del: run_del)
      then show ?thesis using False obs eq admitted(6) by (simp add: join_refusal_def)
    next
      case True
      obtain x R P S B where st: "room_state c t x R P S B" "is_safe_integer (x - now t)" "room_data_ok R P S B"
        "hash_fields (core m) (roomKey c) = R" "hash_fields (core m) (playersKey c) = P"
        using run_on_room[OF inv True admitted(3,4)] by metis
      obtain cap ph h where f: "room_facts R (length P) (keys_of P) (keys_of S) (keys_of B) cap ph h"
        using st(3) room_data_ok_facts by blast
      have R: "map_of R ''members'' = Some (string_of_int (int (length P)))" "map_of R ''capacity'' = Some (string_of_int cap)"
        "map_of R ''hostId'' = Some h" using f unfolding room_facts_def by simp_all
      have d: "declares t (playersKey c)" "declares t (scoresKey c)"
        using admitted(5) by (simp_all add: creatable_of_def JOIN_def roomKeyFamily_def)
      note run = JOIN_run[OF admitted(1) st(1,2) d R(2,1,3), of u nick]
      note st' = room_stateD[OF st(1)]
      show ?thesis
      proof (cases "map_of R ''phase'' = Some ''LOBBY'' \<and> \<not> has_key P u \<and> \<not> cap \<le> int (length P)")
        case False
        then show ?thesis using run True st(4,5) st'(5,8) obs admitted(6) R(2)
          by (auto simp: body join_refusal_def split: prod.splits if_splits)
      next
        case go: True
        then obtain s2 R2 where s2: "?body t = (Inr 1, s2)" "room_state c s2 x R2 (AList.update u nick P) (AList.update u ''0'' S) B"
          using run by (auto simp: body split: prod.splits if_splits)
        show ?thesis using go True st(4,5) obs admitted(6) R(2) s2(1) room_stateD(5,8)[OF s2(2)] by (simp add: join_refusal_def)
      qed
    qed
  qed
  then show "fst (perform c (CallJoin u nick) m) = Inr (case join_refusal (core m) c u of
        Some e \<Rightarrow> if e = domain_error ''room_not_found'' then 0 else if e = conflict_error ''game_started'' then 2 else 3
      | None \<Rightarrow> if has_key (hash_fields (core m) (playersKey c)) u then 4 else 1)"
    "hash_fields s' (playersKey c) = (if join_refusal (core m) c u = None \<and> \<not> has_key (hash_fields (core m) (playersKey c)) u
        then AList.update u nick (hash_fields (core m) (playersKey c)) else hash_fields (core m) (playersKey c))"
    "present s' (roomKey c) = present (core m) (roomKey c)" by blast+
qed

lemma room_join_run:
  assumes "fst (perform c (CallJoin (ui_userId user) (ui_nickname user)) m) = Inr k"
  shows "room_join c user m = (let m1 = snd (perform c (CallJoin (ui_userId user) (ui_nickname user)) m) in
    if k = 0 then (Inl (domain_error ''room_not_found''), m1) else if k = 2 then (Inl (conflict_error ''game_started''), m1)
    else if k = 3 then (Inl (conflict_error ''room_full''), m1) else getSnapshot c m1)"
  using assms by (cases "perform c (CallJoin (ui_userId user) (ui_nickname user)) m") (simp add: room_join_def call_room_def andThen_app Let_def)

text \<open>Who is shown, with the names.\<close>

definition shown_names :: "room_snapshot \<Rightarrow> string \<rightharpoonup> string" where
  "shown_names snapshot = map_of (map (\<lambda>p. (ps_playerId p, ps_nickname p)) (rs_players snapshot))"

lemma shows_names:
  assumes "shows_room c R P S B snapshot" "wf_map P"
  shows "shown_names snapshot = map_of P"
proof
  fix u
  let ?pairs = "map (\<lambda>p. (ps_playerId p, ps_nickname p)) (rs_players snapshot)"
  have ids: "ps_playerId ` set (rs_players snapshot) = keys_of P" using assms(1) by (simp add: shows_room_def)
  have d: "distinct (map fst ?pairs)" using assms(1) by (simp add: shows_room_def o_def)
  show "shown_names snapshot u = map_of P u"
  proof (cases "u \<in> keys_of P")
    case True
    then obtain p where p: "p \<in> set (rs_players snapshot)" "ps_playerId p = u" unfolding ids[symmetric] by blast
    have "map_of P u = Some (ps_nickname p)" using assms(1) p by (auto simp: shows_room_def shows_player_def list_all_iff)
    moreover have "map_of ?pairs u = Some (ps_nickname p)" using p map_of_is_SomeI[OF d, of u "ps_nickname p"] by (simp add: image_iff) blast
    ultimately show ?thesis by (simp add: shown_names_def)
  next
    case False
    then have "map_of ?pairs u = None" "map_of P u = None" by (simp_all add: map_of_eq_None_iff image_image ids)
    then show ?thesis by (simp add: shown_names_def)
  qed
qed

lemma room_join_answers:
  assumes "calm (core m)" "room_inv c (core m)" "fst (room_join c user m) \<noteq> Inl (StoreFailed OOM_MESSAGE)"
  defines "u \<equiv> ui_userId user" and "P \<equiv> hash_fields (core m) (playersKey c)"
  shows "case join_refusal (core m) c u of Some e \<Rightarrow> fst (room_join c user m) = Inl e
    | None \<Rightarrow> \<exists>snapshot. fst (room_join c user m) = Inr snapshot
        \<and> shown_names snapshot = (if has_key P u then map_of P else (map_of P)(u \<mapsto> ui_nickname user))
        \<and> calm (core (snd (room_join c user m))) \<and> map_of (hash_fields (core (snd (room_join c user m))) (playersKey c)) = shown_names snapshot"
proof -
  let ?call = "CallJoin u (ui_nickname user)"
  let ?m1 = "snd (perform c ?call m)"
  have ok: "fst (perform c ?call m) \<noteq> Inl OOM_MESSAGE"
    using assms(3) by (cases "perform c ?call m") (auto simp: room_join_def call_room_def andThen_app u_def)
  note js = join_script[OF assms(1,2) ok, folded P_def]
  note run = room_join_run[OF js(1)[unfolded u_def], folded u_def]
  show ?thesis
  proof (cases "join_refusal (core m) c u")
    case (Some e)
    then have "e = domain_error ''room_not_found'' \<or> e = conflict_error ''game_started'' \<or> e = conflict_error ''room_full''"
      by (auto simp: join_refusal_def split: if_splits)
    then show ?thesis using run Some by (auto simp: Let_def)
  next
    case None
    have calm1: "calm (core ?m1)" by (rule perform_calm[OF assms(1)])
    have inv1: "room_inv c (core ?m1)" using assms(1,2) by (intro perform_keeps_room) (simp_all add: calm_def)
    have there: "present (core ?m1) (roomKey c)" using js(3) None by (auto simp: join_refusal_def split: if_splits)
    let ?P1 = "hash_fields (core ?m1) (playersKey c)"
    have wf: "wf_map ?P1" using calm1 wf_hash_fields[of "core ?m1" "playersKey c"] by (simp add: calm_def)
    have data: "room_data_ok (hash_fields (core ?m1) (roomKey c)) ?P1 (hash_fields (core ?m1) (scoresKey c)) (hash_fields (core ?m1) (botsKey c))"
      using inv1 there by (auto simp: room_inv_def)
    obtain snapshot where s: "snapshot_data c (hash_fields (core ?m1) (roomKey c)) ?P1 (hash_fields (core ?m1) (scoresKey c))
        (hash_fields (core ?m1) (botsKey c)) = Inr snapshot" "shown_names snapshot = map_of ?P1"
      using snapshot_of_room[OF data wf] shows_names[OF _ wf] by blast
    obtain m2 where get: "getSnapshot c ?m1 = (Inr snapshot, m2)" "same_sight (core ?m1) (core m2)"
      using getSnapshot_run[OF calm1 room_inv_family[OF inv1]] s(1) by auto
    have joined: "room_join c user m = (Inr snapshot, m2)" using run None get(1) by (simp add: Let_def)
    note seen = same_sightD[OF get(2)]
    moreover have "map_of ?P1 = (if has_key P u then map_of P else (map_of P)(u \<mapsto> ui_nickname user))" using js(2) None by simp
    ultimately show ?thesis using s(2) None joined by simp
  qed
qed

text \<open>
  Joining through the service. As long as the store has room for the join, a missing room, a room that is not
  in its lobby and a full room are refused with their own errors, in this order, and a player who already sits in the lobby is never
  refused; otherwise the answer is a snapshot in which exactly those sit who sat there before, under the same names, and the
  player, under the given name when new.
\<close>
theorem joining_answers_the_room:
  assumes "calm (core m)" "room_inv c (core m)" "fst (room_join c user m) \<noteq> Inl (StoreFailed OOM_MESSAGE)"
  defines "u \<equiv> ui_userId user" and "P \<equiv> hash_fields (core m) (playersKey c)"
  shows "case join_refusal (core m) c u of Some e \<Rightarrow> fst (room_join c user m) = Inl e
    | None \<Rightarrow> \<exists>snapshot. fst (room_join c user m) = Inr snapshot
        \<and> shown_names snapshot = (if has_key P u then map_of P else (map_of P)(u \<mapsto> ui_nickname user))"
proof (cases "join_refusal (core m) c u")
  case None
  then show ?thesis using room_join_answers[OF assms(1-3)] by (auto simp: u_def P_def)
next
  case (Some e)
  then show ?thesis using room_join_answers[OF assms(1-3)] by (simp add: u_def)
qed

theorem joining_answers_the_room_witness:
  "fst (room_join ''ABC'' \<lparr>ui_userId = ''u9'', ui_nickname = ''Kim'', ui_member = False\<rparr> \<lparr>core = busy_room, changes = 0\<rparr>)
    = Inl (conflict_error ''game_started'')"
proof -
  let ?m = "\<lparr>core = busy_room, changes = 0\<rparr>" and ?u = "\<lparr>ui_userId = ''u9'', ui_nickname = ''Kim'', ui_member = False\<rparr>"
  have calm: "calm (core ?m)" using busy_room_inv(2) by (simp add: calm_def) code_simp
  have inv: "room_inv ''ABC'' (core ?m)" using busy_room_inv by simp
  have ok: "fst (room_join ''ABC'' ?u ?m) \<noteq> Inl (StoreFailed OOM_MESSAGE)" by code_simp
  have "join_refusal (core ?m) ''ABC'' (ui_userId ?u) = Some (conflict_error ''game_started'')" by code_simp
  then show ?thesis using joining_answers_the_room[OF calm inv ok] by simp
qed

end
