(* ===== verification/Lifecycle.thy ===== *)
theory Lifecycle
  imports Gateway
begin

text \<open>
  The life of a game in a room (\<open>game/lifecycle.ts\<close>), resuming after a restart (\<open>game/startupResume.ts\<close>) and quick
  matches (\<open>room/quickMatchRunner.ts\<close>, \<open>quickMatchService.ts\<close>, \<open>quickMatchKeys.ts\<close>) over the state of the process. The
  codes a new room draws and fresh identifiers come from the process's sources.
\<close>

section \<open>Starting, going back to the lobby, leaving\<close>

definition liftEither :: "platform_error + 'a \<Rightarrow> ('w, 'a) serving" where
  "liftEither r S = (r, S)"

definition game_start :: "'w assembly \<Rightarrow> string \<Rightarrow> ('w, string \<times> room_snapshot) serving" where
  "game_start A roomCode = andThen (on_redis (getSnapshot roomCode)) (\<lambda>room.
     andThen (liftEither (require_game (as_catalog A) (rs_gameCode room))) (\<lambda>meta.
     andThen (fresh A) (\<lambda>gameId.
     andThen (on_redis (startGame gameId roomCode (max 1 (gm_minPlayers meta)))) (\<lambda>game.
     case module_byCode (as_modules A) (rs_gameCode room) of None \<Rightarrow> ret game
     | Some module \<Rightarrow> try_catch (andThen (run_hook (md_start module roomCode game)) (\<lambda>_. ret game))
         (\<lambda>e. andThen (on_redis (rollbackStart roomCode (fst game))) (\<lambda>_. throw e))))))"

definition lifecycle_returnToLobby :: "'w assembly \<Rightarrow> string \<Rightarrow> room_snapshot \<Rightarrow> ('w, bool) serving" where
  "lifecycle_returnToLobby A roomCode room = andThen (on_redis (returnToLobby roomCode)) (\<lambda>moved.
     if \<not> moved then ret False
     else andThen (liftEither (require_game (as_catalog A) (rs_gameCode room))) (\<lambda>_.
          andThen (module_call (\<lambda>md. md_reset md roomCode) (ret ()) (module_byCode (as_modules A) (rs_gameCode room))) (\<lambda>_. ret True)))"

definition lifecycle_removePlayer :: "'w assembly \<Rightarrow> string \<Rightarrow> string option \<Rightarrow> string \<Rightarrow> ('w, unit) serving" where
  "lifecycle_removePlayer A roomCode gameCode playerId = andThen (liftEither (require_game (as_catalog A) gameCode)) (\<lambda>_.
     module_call (\<lambda>md. md_removePlayer md roomCode playerId) (ret ()) (module_byCode (as_modules A) gameCode))"

section \<open>After a restart\<close>

text \<open>\<open>closeRoom\<close>: a close that fails is only reported.\<close>

definition resume_close :: "string \<Rightarrow> ('w, unit) serving" where
  "resume_close roomCode = try_catch (on_redis (room_close roomCode)) (\<lambda>_. ret ())"

text \<open>The room codes are what \<open>getAllRoomCodes\<close> returned; the counters are the resumed and the closed rooms.\<close>

fun resume_rooms :: "'w assembly \<Rightarrow> string list \<Rightarrow> nat \<times> nat \<Rightarrow> ('w, nat \<times> nat) serving" where
  "resume_rooms A [] report = ret report"
| "resume_rooms A (roomCode # codes) (resumed, closed) = andThen (on_redis (getSnapshot roomCode)) (\<lambda>room.
     if rs_phase room \<noteq> Some PLAYING then resume_rooms A codes (resumed, closed)
     else (case module_byCode (as_modules A) (rs_gameCode room) of
         None \<Rightarrow> andThen (resume_close roomCode) (\<lambda>_. resume_rooms A codes (resumed, closed + 1))
       | Some module \<Rightarrow> andThen (try_catch (andThen (run_hook (md_rehydrate module roomCode)) (\<lambda>_. ret True))
             (\<lambda>_. andThen (resume_close roomCode) (\<lambda>_. ret False)))
           (\<lambda>back. resume_rooms A codes (if back then (resumed + 1, closed) else (resumed, closed + 1)))))"

definition resumeGamesOnStartup :: "'w assembly \<Rightarrow> string list \<Rightarrow> ('w, nat \<times> nat) serving" where
  "resumeGamesOnStartup A codes = resume_rooms A codes (0, 0)"

section \<open>Quick matches: keys and answers\<close>

definition QUICK_MATCH_WAIT_TTL_SECONDS :: int where "QUICK_MATCH_WAIT_TTL_SECONDS = 5 * 60"
definition QUICK_MATCH_LOCK_TTL_SECONDS :: int where "QUICK_MATCH_LOCK_TTL_SECONDS = 5"

definition quickMatchQueueKey :: "string \<Rightarrow> string" where
  "quickMatchQueueKey gameCode = ''quick-match:queue:'' @ gameCode"

definition quickMatchTicketKey :: "string \<Rightarrow> string" where
  "quickMatchTicketKey userId = ''quick-match:user:'' @ userId"

definition quickMatchLockKey :: "string \<Rightarrow> string" where
  "quickMatchLockKey gameCode = ''quick-match:lock:'' @ gameCode"

definition quickMatchMarkerKey :: "string \<Rightarrow> string" where
  "quickMatchMarkerKey roomCode = roomKey roomCode @ '':quick-match''"

datatype quick_match_status = NOT_QUEUED | WAITING | MATCHED | IN_GAME

record quick_match_response =
  qm_status :: quick_match_status
  qm_roomId :: "string option"
  qm_gameCode :: "string option"

definition notQueued :: "string option \<Rightarrow> quick_match_response" where
  "notQueued gameCode = \<lparr>qm_status = NOT_QUEUED, qm_roomId = None, qm_gameCode = gameCode\<rparr>"

section \<open>Matching\<close>

text \<open>\<open>try ... finally\<close>: an error of the clean-up takes the place of the outcome.\<close>

definition finally_do :: "('s, 'e, 'a) cmd \<Rightarrow> ('s, 'e, 'b) cmd \<Rightarrow> ('s, 'e, 'a) cmd" where
  "finally_do f g s = (case f s of (r, s1) \<Rightarrow> (case g s1 of (Inl e, s2) \<Rightarrow> (Inl e, s2) | (Inr _, s2) \<Rightarrow> (r, s2)))"

text \<open>\<open>identity\<close>: who a session hash says the user is.\<close>

definition qm_identity :: "string \<Rightarrow> user_identity option platform" where
  "qm_identity userId = andThen (read_store (hgetall (userKey userId))) (\<lambda>stored.
     ret (case (map_of stored ''nickname'', parseUserType (map_of stored ''type'')) of
       (Some nickname, Some t) \<Rightarrow> Some (identity_of userId nickname t) | _ \<Rightarrow> None))"

definition removeWaiting :: "string \<Rightarrow> string \<Rightarrow> unit platform" where
  "removeWaiting gameCode userId = andThen (write_store (zrem (quickMatchQueueKey gameCode) [FStr userId])) (\<lambda>_.
     andThen (write_store (del_keys [quickMatchTicketKey userId])) (\<lambda>_. ret ()))"

fun identities :: "string list \<Rightarrow> user_identity option list platform" where
  "identities [] = ret []"
| "identities (u # us) = andThen (qm_identity u) (\<lambda>i. andThen (identities us) (\<lambda>is. ret (i # is)))"

definition identitiesOf :: "string \<Rightarrow> string list \<Rightarrow> user_identity list option platform" where
  "identitiesOf gameCode candidates = andThen (identities candidates) (\<lambda>found.
     if None \<notin> set found then ret (Some (map the found))
     else andThen (run_all (map (\<lambda>(u, i). if i = None then removeWaiting gameCode u else ret ()) (zip candidates found))) (\<lambda>_. ret None))"

definition seat_players :: "string \<Rightarrow> string \<Rightarrow> user_identity list \<Rightarrow> unit platform" where
  "seat_players roomId hostId players = run_all (map (\<lambda>player. andThen (room_join roomId player) (\<lambda>_.
     assignRoom (ui_userId player) roomId roomId hostId)) players)"

text \<open>\<open>None\<close>: the codes drawn are used up (the code draws on).\<close>

definition createRoomWithPlayers :: "int \<Rightarrow> string \<Rightarrow> user_identity list \<Rightarrow> string list \<Rightarrow> string option platform" where
  "createRoomWithPlayers playerCount gameCode players draws = (let hostId = ui_userId (hd players) in
     andThen (createRoom playerCount hostId gameCode ''NORMAL'' draws) (\<lambda>created. case created of None \<Rightarrow> ret None
     | Some roomId \<Rightarrow> try_catch (andThen (seat_players roomId hostId players) (\<lambda>_. ret (Some roomId)))
         (\<lambda>e. andThen (room_close roomId) (\<lambda>_. throw e))))"

definition markMatched :: "string \<Rightarrow> string \<Rightarrow> string \<Rightarrow> unit platform" where
  "markMatched userId roomId gameCode = (let ticket = quickMatchTicketKey userId in
     andThen (write_store (hset ticket (HRecord [(''status'', FStr ''MATCHED''), (''roomId'', FStr roomId), (''gameCode'', FStr gameCode)]))) (\<lambda>_.
     andThen (write_store (expire_key ticket (FNum ROOM_TTL_SECONDS))) (\<lambda>_. ret ())))"

definition match_body :: "string \<Rightarrow> int \<Rightarrow> string list \<Rightarrow> unit platform" where
  "match_body gameCode playerCount draws = (\<lambda>m. (let queue = quickMatchQueueKey gameCode in
     andThen (write_store (zremrangebyscore queue (FNum 0) (FNum (now (core m) - QUICK_MATCH_WAIT_TTL_SECONDS * 1000)))) (\<lambda>_.
     andThen (read_store (zrange queue (FNum 0) (FNum (playerCount - 1)))) (\<lambda>candidates.
     if int (length candidates) < playerCount then ret ()
     else andThen (identitiesOf gameCode candidates) (\<lambda>players. case players of None \<Rightarrow> ret ()
       | Some ps \<Rightarrow> andThen (createRoomWithPlayers playerCount gameCode ps draws) (\<lambda>created. case created of None \<Rightarrow> ret ()
           | Some roomId \<Rightarrow>
               andThen (write_store (zrem queue (map FStr candidates))) (\<lambda>_.
               andThen (run_all (map (\<lambda>p. markMatched (ui_userId p) roomId gameCode) ps)) (\<lambda>_.
               andThen (write_store (redis_set (quickMatchMarkerKey roomId) (FStr ''1'') [FStr ''EX'', FNum ROOM_TTL_SECONDS])) (\<lambda>_.
               ret ()))))))) m))"

definition match_run :: "string \<Rightarrow> int \<Rightarrow> string \<Rightarrow> string list \<Rightarrow> unit platform" where
  "match_run gameCode playerCount token draws = (let lockKey = quickMatchLockKey gameCode in
     andThen (write_store (redis_set lockKey (FStr token) [FStr ''EX'', FNum QUICK_MATCH_LOCK_TTL_SECONDS, FStr ''NX''])) (\<lambda>acquired.
     if \<not> acquired then ret ()
     else finally_do (match_body gameCode playerCount draws) (run_script UNLOCK_IF_OWNER [lockKey] [FStr token])))"

definition isSocketLive :: "'w server \<Rightarrow> string \<Rightarrow> string \<Rightarrow> bool" where
  "isSocketLive S roomId playerId = (case registry_find (sv_registry S) roomId playerId of None \<Rightarrow> False
     | Some member \<Rightarrow> (case mb_socket member of None \<Rightarrow> False | Some s \<Rightarrow> isOpen S s))"

text \<open>The argument \<open>start\<close> is \<open>GameLifecycleService.start\<close>.\<close>

definition startIfReady :: "(string \<Rightarrow> ('w, 'g) serving) \<Rightarrow> string \<Rightarrow> ('w, unit) serving" where
  "startIfReady start roomId = (let marker = quickMatchMarkerKey roomId;
       unmark = andThen (on_redis (write_store (del_keys [marker]))) (\<lambda>_. ret ())
     in andThen (on_redis (read_store (exists_keys [marker]))) (\<lambda>marked. if marked = 0 then ret ()
        else andThen (on_redis (getSnapshot roomId)) (\<lambda>room.
          if rs_phase room = Some PLAYING then unmark
          else if rs_phase room \<noteq> Some LOBBY \<or> Some (int (length (rs_players room))) \<noteq> rs_capacity room then ret ()
          else looking (\<lambda>S. list_all (\<lambda>p. isSocketLive S roomId (ps_playerId p)) (rs_players room)) (\<lambda>live. if \<not> live then ret ()
          else try_catch (andThen (start roomId) (\<lambda>_. unmark))
            (\<lambda>e. if is_conflict_error e = None then throw e
               else andThen (on_redis (getSnapshot roomId)) (\<lambda>again. if rs_phase again \<noteq> Some PLAYING then throw e else ret ()))))))"

definition qm_playerCount :: "game_catalog \<Rightarrow> string \<Rightarrow> platform_error + int" where
  "qm_playerCount C gameCode = (case require_game C (Some gameCode) of Inl e \<Rightarrow> Inl e
     | Inr game \<Rightarrow> (let playerCount = max 2 (gm_minPlayers game) in
         if gm_maxPlayers game < playerCount then Inl (domain_error ''quick_match_not_supported'') else Inr playerCount))"

section \<open>The three calls\<close>

definition qm_statusOf :: "string \<Rightarrow> quick_match_response platform" where
  "qm_statusOf userId = andThen (read_store (hgetall (quickMatchTicketKey userId))) (\<lambda>ticket.
     if ticket = [] then ret (notQueued None)
     else (let gameCode = map_of ticket ''gameCode'' in (case map_of ticket ''roomId'' of
         None \<Rightarrow> ret \<lparr>qm_status = WAITING, qm_roomId = None, qm_gameCode = gameCode\<rparr>
       | Some roomId \<Rightarrow> andThen (getSnapshot roomId) (\<lambda>room.
           if rs_phase room = None \<or> rs_phase room = Some FINISHED
           then andThen (if rs_phase room = Some FINISHED then andThen (room_leave roomId userId) (\<lambda>_. ret ()) else ret ()) (\<lambda>_.
                andThen (clearRoom userId) (\<lambda>_. ret (notQueued gameCode)))
           else ret \<lparr>qm_status = (if rs_phase room = Some PLAYING then IN_GAME else MATCHED), qm_roomId = Some roomId, qm_gameCode = gameCode\<rparr>))))"

definition qm_poll :: "'w assembly \<Rightarrow> string \<Rightarrow> ('w, quick_match_response) serving" where
  "qm_poll A userId = andThen (on_redis (qm_statusOf userId)) (\<lambda>response.
     andThen (case qm_roomId response of None \<Rightarrow> ret () | Some roomId \<Rightarrow> startIfReady (game_start A) roomId) (\<lambda>_.
     andThen (on_redis (qm_statusOf userId)) (\<lambda>current.
     if qm_status current = IN_GAME then andThen (on_redis (write_store (del_keys [quickMatchTicketKey userId]))) (\<lambda>_. ret current)
     else ret current)))"

definition qm_enter :: "'w assembly \<Rightarrow> user_identity \<Rightarrow> string \<Rightarrow> ('w, quick_match_response) serving" where
  "qm_enter A user gameCode = (let u = ui_userId user; ticket = quickMatchTicketKey u in
     andThen (on_redis (qm_statusOf u)) (\<lambda>current. if qm_status current \<noteq> NOT_QUEUED then ret current
     else andThen (on_redis (read_store (hexists (userKey u) (FStr ''roomId'')))) (\<lambda>inRoom. if inRoom = 1 then throw (conflict_error ''already_in_room'')
     else andThen (liftEither (qm_playerCount (as_catalog A) gameCode)) (\<lambda>playerCount.
     andThen (on_redis (write_store (hset ticket (HRecord [(''status'', FStr ''WAITING''), (''gameCode'', FStr gameCode)])))) (\<lambda>_.
     andThen (on_redis (write_store (expire_key ticket (FNum QUICK_MATCH_WAIT_TTL_SECONDS)))) (\<lambda>_.
     andThen (looking sv_now (\<lambda>t. on_redis (write_store (zadd (quickMatchQueueKey gameCode) [FNum t, FStr u])))) (\<lambda>_.
     andThen (fresh A) (\<lambda>token. andThen (fresh_codes A) (\<lambda>draws.
     andThen (on_redis (match_run gameCode playerCount token draws)) (\<lambda>_.
     qm_poll A u))))))))))"

definition qm_cancel :: "string \<Rightarrow> quick_match_response platform" where
  "qm_cancel userId = andThen (qm_statusOf userId) (\<lambda>current. if qm_status current \<noteq> WAITING then ret current
     else andThen (case qm_gameCode current of None \<Rightarrow> ret () | Some gameCode \<Rightarrow>
            andThen (write_store (zrem (quickMatchQueueKey gameCode) [FStr userId])) (\<lambda>_. ret ())) (\<lambda>_.
          andThen (write_store (del_keys [quickMatchTicketKey userId])) (\<lambda>_. ret (notQueued (qm_gameCode current)))))"

end
