(* ===== verification/Routes.thy ===== *)
theory Routes
  imports Lifecycle
begin

text \<open>
  The HTTP routes of rooms, bots, quick matches and games (\<open>http/routes/rooms.ts\<close>, \<open>roomEntry.ts\<close>, \<open>roomBotRoutes.ts\<close>,
  \<open>roomRouteErrors.ts\<close>, \<open>quickMatch.ts\<close>, \<open>games.ts\<close>, \<open>http/headers.ts\<close>, \<open>http/errorResponse.ts\<close>) over the state of the
  process. A route is given what the framework parsed: headers, path parameters, query and the fields of the body; it
  returns the reply or rejects, which the framework answers with the status 500 (\<open>served\<close>).
\<close>

section \<open>Requests and replies\<close>

datatype header_value = OneValue string | ManyValues "string list"

type_synonym headers = "(string \<times> header_value) list"

definition request_header :: "headers \<Rightarrow> string \<Rightarrow> string option" where
  "request_header hs name = (case map_of hs name of None \<Rightarrow> None
     | Some (OneValue v) \<Rightarrow> Some v
     | Some (ManyValues []) \<Rightarrow> None
     | Some (ManyValues (v # _)) \<Rightarrow> Some v)"

record enter_response =
  er_id :: string
  er_nickname :: string
  er_token :: string
  er_room_id :: string
  er_game_code :: "string option"

datatype http_body =
    NoBody
  | CodeText string
  | RoomBody room_snapshot
  | GameStarted "string \<times> room_snapshot"
  | Entered enter_response
  | MatchBody quick_match_response
  | FailureBody

record http_reply =
  hr_status :: int
  hr_body :: http_body

definition reply_with :: "int \<Rightarrow> http_body \<Rightarrow> http_reply" where
  "reply_with status body = \<lparr>hr_status = status, hr_body = body\<rparr>"

definition sendCode :: "int \<Rightarrow> string \<Rightarrow> ('w, http_reply) serving" where
  "sendCode status code = ret (reply_with status (CodeText code))"

definition sendDomainError :: "platform_error \<Rightarrow> ('w, http_reply) serving" where
  "sendDomainError e = (case is_conflict_error e of Some code \<Rightarrow> sendCode 409 code
     | None \<Rightarrow> (case is_domain_error e of
         Some code \<Rightarrow> sendCode (if code = ''invalid_nickname'' \<or> code = ''invalid_game_code'' then 400 else 404) code
       | None \<Rightarrow> throw e))"

definition sendConflictOnly :: "platform_error \<Rightarrow> ('w, http_reply) serving" where
  "sendConflictOnly e = (case is_conflict_error e of Some code \<Rightarrow> sendCode 409 code | None \<Rightarrow> throw e)"

definition sendBotError :: "platform_error \<Rightarrow> ('w, http_reply) serving" where
  "sendBotError e = (case e of ForbiddenError code \<Rightarrow> sendCode 403 code
     | _ \<Rightarrow> (case is_domain_error e of Some code \<Rightarrow> sendCode (if code = ''room_not_found'' then 404 else 400) code
       | None \<Rightarrow> (case is_conflict_error e of Some code \<Rightarrow> sendCode (if code = ''bot_not_found'' then 404 else 409) code
         | None \<Rightarrow> throw e)))"

definition sendUnauthorizedOnly :: "platform_error \<Rightarrow> ('w, http_reply) serving" where
  "sendUnauthorizedOnly e = (if e = SessionAuthenticationError then sendCode 401 ''unauthorized'' else throw e)"

definition sendQuickMatchError :: "platform_error \<Rightarrow> ('w, http_reply) serving" where
  "sendQuickMatchError e = (if e = SessionAuthenticationError then sendCode 401 ''unauthorized''
     else case is_conflict_error e of Some code \<Rightarrow> sendCode 409 code
     | None \<Rightarrow> (case is_domain_error e of Some code \<Rightarrow> sendCode 400 code | None \<Rightarrow> throw e))"

text \<open>A rejected route is answered with 500.\<close>

definition served :: "('w, http_reply) serving \<Rightarrow> 'w server \<Rightarrow> http_reply \<times> 'w server" where
  "served route S = (case route S of (Inr r, S') \<Rightarrow> (r, S') | (Inl _, S') \<Rightarrow> (reply_with 500 FailureBody, S'))"

section \<open>Who asks\<close>

definition authenticated_user :: "'w assembly \<Rightarrow> headers \<Rightarrow> ('w, user_identity) serving" where
  "authenticated_user A hs = on_redis (authenticate (as_hash A) (request_header hs ''x-user-id'') (request_header hs ''authorization''))"

text \<open>\<open>authenticateGuest\<close>: the user, or the reply that was sent instead.\<close>

definition authenticateGuest :: "'w assembly \<Rightarrow> headers \<Rightarrow> ('w, http_reply + user_identity) serving" where
  "authenticateGuest A hs = try_catch (andThen (authenticated_user A hs) (\<lambda>user. ret (Inr user)))
     (\<lambda>e. if e = SessionAuthenticationError then ret (Inl (reply_with 401 (CodeText ''invalid_guest_session''))) else throw e)"

definition isHost :: "room_snapshot \<Rightarrow> string \<Rightarrow> bool" where
  "isHost snapshot userId = (rs_hostId snapshot = Some userId \<and> list_ex (\<lambda>player. ps_playerId player = userId) (rs_players snapshot))"

section \<open>Entering a room\<close>

record enter_body =
  eb_nickname :: "string option"
  eb_room_id :: "string option"
  eb_session_token :: "string option"

type_synonym entrant = "user_identity \<times> string"

definition enter_response_of :: "entrant \<Rightarrow> string \<Rightarrow> string option \<Rightarrow> enter_response" where
  "enter_response_of entrant roomId gameCode = \<lparr>er_id = ui_userId (fst entrant), er_nickname = ui_nickname (fst entrant),
     er_token = snd entrant, er_room_id = roomId, er_game_code = gameCode\<rparr>"

definition sessionEntrant :: "'w assembly \<Rightarrow> enter_body \<Rightarrow> string \<Rightarrow> ('w, entrant option) serving" where
  "sessionEntrant A body token = try_catch
     (andThen (on_redis (authenticateSession (as_hash A) (Some token))) (\<lambda>member.
      andThen (if no_token (eb_nickname body) then ret (ui_nickname member) else liftEither (normalizeNickname (eb_nickname body))) (\<lambda>nickname.
      ret (Some (member\<lparr>ui_nickname := nickname\<rparr>, token)))))
     (\<lambda>e. if e = SessionAuthenticationError then ret None else throw e)"

definition resolveEntrant :: "'w assembly \<Rightarrow> enter_body \<Rightarrow> ('w, entrant) serving" where
  "resolveEntrant A body = andThen (case eb_session_token body of None \<Rightarrow> ret None
       | Some token \<Rightarrow> if no_token (Some token) then ret None else sessionEntrant A body token) (\<lambda>member.
     case member of Some m \<Rightarrow> ret m
     | None \<Rightarrow> andThen (fresh A) (\<lambda>userId. andThen (fresh A) (\<lambda>token.
         andThen (on_redis (createGuest (as_hash A) (eb_nickname body) userId token)) (\<lambda>(u, n, t). ret (identity_of u n GUEST, t)))))"

definition joinExisting :: "entrant \<Rightarrow> string \<Rightarrow> ('w, enter_response) serving" where
  "joinExisting entrant roomId = andThen (on_redis (room_join roomId (fst entrant))) (\<lambda>snapshot.
     andThen (on_redis (assignRoom (ui_userId (fst entrant)) roomId roomId (case rs_hostId snapshot of None \<Rightarrow> '''' | Some h \<Rightarrow> h))) (\<lambda>_.
     ret (enter_response_of entrant roomId (rs_gameCode snapshot))))"

text \<open>\<open>dashboard\<close> is the name a dashboard is given; \<open>None\<close>: the codes drawn are used up (the code draws on).\<close>

definition enterRoom :: "'w assembly \<Rightarrow> string \<Rightarrow> enter_body \<Rightarrow> string \<Rightarrow> bool \<Rightarrow> ('w, enter_response option) serving" where
  "enterRoom A dashboard body requestedGameCode party =
     andThen (if no_token (eb_room_id body) then andThen (liftEither (require_game (as_catalog A) (Some requestedGameCode))) (\<lambda>g. ret (Some g))
              else ret None) (\<lambda>game.
     andThen (resolveEntrant A (if game \<noteq> None \<and> party \<and> no_token (eb_nickname body) then body\<lparr>eb_nickname := Some dashboard\<rparr> else body)) (\<lambda>entrant.
     case game of None \<Rightarrow> andThen (joinExisting entrant (the (eb_room_id body))) (\<lambda>r. ret (Some r))
     | Some g \<Rightarrow> andThen (fresh_codes A) (\<lambda>draws.
         andThen (on_redis (createRoom (gm_maxPlayers g) (ui_userId (fst entrant)) (gm_code g) (if party then ''PARTY'' else ''NORMAL'') draws)) (\<lambda>created.
         case created of None \<Rightarrow> ret None
         | Some roomId \<Rightarrow> if \<not> party then andThen (joinExisting entrant roomId) (\<lambda>r. ret (Some r))
             else andThen (on_redis (assignRoom (ui_userId (fst entrant)) roomId roomId '''')) (\<lambda>_.
                  ret (Some (enter_response_of entrant roomId (Some (gm_code g)))))))))"

text \<open>\<open>POST /rooms\<close>; \<open>None\<close> as in \<open>enterRoom\<close>.\<close>

definition enter_route :: "'w assembly \<Rightarrow> string \<Rightarrow> enter_body \<Rightarrow> string option \<Rightarrow> string option \<Rightarrow> ('w, http_reply option) serving" where
  "enter_route A dashboard body game_code party =
     try_catch (andThen (enterRoom A dashboard body (case game_code of None \<Rightarrow> ''YACHT_DICE'' | Some c \<Rightarrow> c) (party = Some ''true'')) (\<lambda>entered.
         ret (map_option (\<lambda>e. reply_with 200 (Entered e)) entered)))
       (\<lambda>e. andThen (sendDomainError e) (\<lambda>r. ret (Some r)))"

section \<open>Moving and leaving a room\<close>

text \<open>An action that returns nothing is answered with 204.\<close>

definition hostTransition :: "'w assembly \<Rightarrow> (string \<Rightarrow> room_snapshot \<Rightarrow> ('w, http_body option) serving)
    \<Rightarrow> (platform_error \<Rightarrow> ('w, http_reply) serving) \<Rightarrow> headers \<Rightarrow> string \<Rightarrow> ('w, http_reply) serving" where
  "hostTransition A action onError hs roomCode = andThen (authenticateGuest A hs) (\<lambda>user. case user of Inl reply \<Rightarrow> ret reply
     | Inr u \<Rightarrow> andThen (on_redis (getSnapshot roomCode)) (\<lambda>snapshot.
         if rs_phase snapshot = None then sendCode 404 ''room_not_found''
         else if \<not> isHost snapshot (ui_userId u) then sendCode 403 ''host_only''
         else try_catch (andThen (action roomCode snapshot) (\<lambda>result.
                ret (case result of None \<Rightarrow> reply_with 204 NoBody | Some body \<Rightarrow> reply_with 200 body))) onError))"

definition start_route :: "'w assembly \<Rightarrow> headers \<Rightarrow> string \<Rightarrow> ('w, http_reply) serving" where
  "start_route A = hostTransition A (\<lambda>roomCode _. andThen (game_start A roomCode) (\<lambda>g. ret (Some (GameStarted g)))) sendConflictOnly"

definition lobby_route :: "'w assembly \<Rightarrow> headers \<Rightarrow> string \<Rightarrow> ('w, http_reply) serving" where
  "lobby_route A = hostTransition A (\<lambda>roomCode snapshot. andThen (lifecycle_returnToLobby A roomCode snapshot) (\<lambda>moved.
       if moved then ret None else throw (conflict_error ''not_finished''))) sendConflictOnly"

definition leave_room :: "'w assembly \<Rightarrow> string \<Rightarrow> string \<Rightarrow> ('w, http_reply) serving" where
  "leave_room A roomCode userId = andThen (on_redis (getSnapshot roomCode)) (\<lambda>snapshot.
     andThen (on_redis (room_leave roomCode userId)) (\<lambda>left. if \<not> left then sendCode 404 ''room_not_found''
     else andThen (on_redis (clearRoom userId)) (\<lambda>_.
          andThen (if rs_phase snapshot = Some PLAYING then lifecycle_removePlayer A roomCode (rs_gameCode snapshot) userId else ret ()) (\<lambda>_.
          ret (reply_with 204 NoBody)))))"

definition leave_route :: "'w assembly \<Rightarrow> headers \<Rightarrow> string \<Rightarrow> ('w, http_reply) serving" where
  "leave_route A hs roomCode = andThen (authenticateGuest A hs) (\<lambda>user. case user of Inl reply \<Rightarrow> ret reply
     | Inr u \<Rightarrow> leave_room A roomCode (ui_userId u))"

section \<open>Bots\<close>

definition mutate_bots :: "'w assembly \<Rightarrow> (user_identity \<Rightarrow> ('w, room_snapshot) serving) \<Rightarrow> headers \<Rightarrow> string \<Rightarrow> ('w, http_reply) serving" where
  "mutate_bots A operation hs roomCode = andThen (authenticateGuest A hs) (\<lambda>user. case user of Inl reply \<Rightarrow> ret reply
     | Inr requester \<Rightarrow> try_catch
         (andThen (live_snapshot roomCode) (\<lambda>live.
          andThen (liftEither (require_game (as_catalog A) (ws_gameCode live))) (\<lambda>game.
          if \<not> gm_supportsBots game then sendCode 409 ''bots_not_supported''
          else andThen (operation requester) (\<lambda>snapshot.
               andThen (live_snapshot roomCode) (\<lambda>current.
               andThen (ws_broadcast roomCode (StateSync ''state.sync'' current)) (\<lambda>_.
               ret (reply_with 200 (RoomBody snapshot))))))))
         sendBotError)"

definition add_bot_route :: "'w assembly \<Rightarrow> string \<Rightarrow> headers \<Rightarrow> string \<Rightarrow> ('w, http_reply) serving" where
  "add_bot_route A label hs roomCode = mutate_bots A (\<lambda>requester. andThen (fresh A) (\<lambda>uuid.
     on_redis (bot_add label uuid roomCode (ui_userId requester)))) hs roomCode"

definition remove_bot_route :: "'w assembly \<Rightarrow> headers \<Rightarrow> string \<Rightarrow> string \<Rightarrow> ('w, http_reply) serving" where
  "remove_bot_route A hs roomCode botId = mutate_bots A (\<lambda>requester. on_redis (bot_remove roomCode (ui_userId requester) botId)) hs roomCode"

section \<open>Quick matches and games\<close>

definition enter_match_route :: "'w assembly \<Rightarrow> headers \<Rightarrow> string option \<Rightarrow> ('w, http_reply) serving" where
  "enter_match_route A hs game_code = try_catch (andThen (authenticated_user A hs) (\<lambda>user.
     andThen (liftEither (canonicalCode (as_catalog A) (Some (case game_code of None \<Rightarrow> ''YACHT_DICE'' | Some c \<Rightarrow> c)))) (\<lambda>gameCode.
     andThen (qm_enter A user gameCode) (\<lambda>r. ret (reply_with 200 (MatchBody r)))))) sendQuickMatchError"

definition match_status_route :: "'w assembly \<Rightarrow> headers \<Rightarrow> ('w, http_reply) serving" where
  "match_status_route A hs = try_catch (andThen (authenticated_user A hs) (\<lambda>user.
     andThen (qm_poll A (ui_userId user)) (\<lambda>r. ret (reply_with 200 (MatchBody r))))) sendUnauthorizedOnly"

definition cancel_match_route :: "'w assembly \<Rightarrow> headers \<Rightarrow> ('w, http_reply) serving" where
  "cancel_match_route A hs = try_catch (andThen (authenticated_user A hs) (\<lambda>user.
     andThen (on_redis (qm_cancel (ui_userId user))) (\<lambda>r. ret (reply_with 200 (MatchBody r))))) sendUnauthorizedOnly"

definition game_route :: "string \<Rightarrow> ('w, http_reply) serving" where
  "game_route gameId = andThen (on_redis (getGameSnapshot gameId)) (\<lambda>snapshot. ret (reply_with 200 (RoomBody snapshot)))"

end
