(* ===== verification/LifecycleTheorems.thy ===== *)
theory LifecycleTheorems
  imports Lifecycle RoomServiceTheorems
begin

text \<open>
  What the life of a game guarantees: a start that fails leaves the room as it was, a quick match starts only with
  everybody there and never keeps its lock.
\<close>

section \<open>Starting and rolling back on the store\<close>












lemma room_state_family:
  assumes "list_all (\<lambda>k. visible t k = visible s k) (roomKeyFamily c)" "now t = now s"
  shows "room_state c t x R P S B = room_state c s x R P S B"
proof -
  have v: "visible t k = visible s k" if "k \<in> {roomKey c, playersKey c, scoresKey c, botsKey c}" for k
    using assms(1) that by (auto simp: roomKeyFamily_def)
  have "present t k = present s k \<and> hash_typed t k = hash_typed s k \<and> hash_fields t k = hash_fields s k \<and> key_expiry t k = key_expiry s k"
    if "k \<in> {roomKey c, playersKey c, scoresKey c, botsKey c}" for k
    using v[OF that] by (simp add: present_def hash_typed_def hash_fields_def key_expiry_def)
  then show ?thesis by (simp add: room_state_def family_typed_def)
qed

lemma room_inv_spared:
  assumes "list_all (\<lambda>k. visible t k = visible s k) (roomKeyFamily c)" "now t = now s" shows "room_inv c t = room_inv c s"
  using assms by (simp add: roomKeyFamily_def room_inv_def family_typed_def hash_typed_def present_def hash_fields_def key_expiry_def)









text \<open>A process with one waiting player in the room ABC, and a game whose module cannot start.\<close>

definition failing_module :: "unit game_module" where
  "failing_module = \<lparr>md_code = ''YACHT'', md_start = (\<lambda>c game R m w. (Inl (OtherError ''no table''), m, w, [])),
     md_reset = (\<lambda>c R m w. (Inr (), m, w, [])),
     md_reconnect = (\<lambda>c p R m w. (Inl (OtherError ''no table''), m, w, [])),
     md_pause = (\<lambda>c R m w. (Inr (), m, w, [])), md_resume = (\<lambda>c R m w. (Inr (), m, w, [])),
     md_rehydrate = (\<lambda>c R m w. (Inl (OtherError ''no table''), m, w, [])), md_removePlayer = (\<lambda>c p R m w. (Inr (), m, w, [])),
     md_close = (\<lambda>c R m w. (Inr (), m, w, [])), md_hasState = (\<lambda>c R m w. (Inr False, m, w, [])),
     md_handles = (\<lambda>e. False), md_handle = (\<lambda>s i R m w. (Inr (), m, w, []))\<rparr>"

definition lobby_assembly :: "unit assembly" where
  "lobby_assembly = \<lparr>as_hash = rev, as_fresh = (\<lambda>w. (''g7'', w)), as_codes = (\<lambda>w. ([''XYZ''], w)),
     as_catalog = [(''YACHT'', \<lparr>gm_code = ''YACHT'', gm_minPlayers = 1, gm_maxPlayers = 4, gm_supportsBots = True\<rparr>)],
     as_modules = [(''YACHT'', failing_module)]\<rparr>"

definition lobby_server :: "unit server" where
  "lobby_server = boot (snd (perform ''ABC'' (CallJoin ''u1'' ''Ann'') \<lparr>core = fresh_room, changes = 0\<rparr>)) ()"

lemma lobby_server_sound: "calm (core (sv_redis lobby_server))" "room_inv ''ABC'' (core (sv_redis lobby_server))"
proof -
  have "scriptCreates fresh_room = None" by code_simp
  then have "calm (core \<lparr>core = fresh_room, changes = 0\<rparr>)" using fresh_room_inv(2) by (simp add: calm_def)
  from perform_calm[OF this, of "''ABC''" "CallJoin ''u1'' ''Ann''"]
  show "calm (core (sv_redis lobby_server))" by (simp add: lobby_server_def boot_def)
  show "room_inv ''ABC'' (core (sv_redis lobby_server))"
    using perform_keeps_room[of "\<lparr>core = fresh_room, changes = 0\<rparr>" "''ABC''" "CallJoin ''u1'' ''Ann''"] fresh_room_inv
    by (simp add: lobby_server_def boot_def)
qed





section \<open>Quick matches\<close>

lemma getSnapshot_answers:
  assumes "calm (core m)" "room_inv c (core m)"
  shows "\<exists>room m'. getSnapshot c m = (Inr room, m') \<and> same_sight (core m) (core m')"
proof -
  let ?R = "hash_fields (core m) (roomKey c)" and ?P = "hash_fields (core m) (playersKey c)" and ?S = "hash_fields (core m) (scoresKey c)"
    and ?B = "hash_fields (core m) (botsKey c)"
  have wf: "wf_map ?P" using assms(1) wf_hash_fields[of "core m" "playersKey c"] by (simp add: calm_def)
  have "\<exists>room. snapshot_data c ?R ?P ?S ?B = Inr room"
  proof (cases "present (core m) (roomKey c)")
    case True
    then have "room_data_ok ?R ?P ?S ?B" using assms(2) by (auto simp: room_inv_def)
    then show ?thesis using snapshot_of_room[OF _ wf] by blast
  next
    case False
    then have "?R = []" by (simp add: present_def hash_fields_def split: option.split)
    then show ?thesis by (simp add: snapshot_data_def)
  qed
  then show ?thesis using getSnapshot_run[OF assms(1) room_inv_family[OF assms(2)]] by auto
qed

text \<open>A room a quick match may start: marked, in its lobby, full, and everybody at an open socket.\<close>

definition ready_to_start :: "string \<Rightarrow> 'w server \<Rightarrow> bool" where
  "ready_to_start c S = (present (core (sv_redis S)) (quickMatchMarkerKey c)
     \<and> (case fst (getSnapshot c (sv_redis S)) of Inl e \<Rightarrow> False
        | Inr room \<Rightarrow> rs_phase room = Some LOBBY \<and> Some (int (length (rs_players room))) = rs_capacity room
            \<and> list_all (\<lambda>p. isSocketLive S c (ps_playerId p)) (rs_players room)))"

lemma isSocketLive_redis [simp]: "isSocketLive (S\<lparr>sv_redis := m\<rparr>) = isSocketLive S"
  by (auto simp: isSocketLive_def isOpen_def fun_eq_iff split: option.split)

text \<open>
  C40: A quick match starts only with everybody there. Whatever starting would do, polling a room calls it only when the
  room is marked, in its lobby, full, and every player sits at an open socket; otherwise the poll answers without it and at most takes
  away the mark of a room that is being played in.
\<close>
theorem quick_match_waits_for_everybody:
  fixes start :: "string \<Rightarrow> ('w, 'g) serving" and start' :: "string \<Rightarrow> ('w, 'h) serving"
  assumes "calm (core (sv_redis S))" "room_inv c (core (sv_redis S))" "\<not> ready_to_start c S"
  shows "fst (startIfReady start c S) = Inr () \<and> startIfReady start c S = startIfReady start' c S
    \<and> (\<forall>k. k \<noteq> quickMatchMarkerKey c \<longrightarrow> visible (core (sv_redis (snd (startIfReady start c S)))) k = visible (core (sv_redis S)) k)"
proof -
  let ?marker = "quickMatchMarkerKey c"
  obtain t where 1: "exists_keys [?marker] (core (sv_redis S)) = (Inr (if present (core (sv_redis S)) ?marker then 1 else 0), t)"
    "same_sight (core (sv_redis S)) t" using exists_calm[OF assms(1)] by blast
  let ?S1 = "S\<lparr>sv_redis := (sv_redis S)\<lparr>core := t\<rparr>\<rparr>"
  have e: "on_redis (read_store (exists_keys [?marker])) S = (Inr (if present (core (sv_redis S)) ?marker then 1 else 0), ?S1)"
    using 1(1) by (simp add: on_redis_def read_store_def)
  note seen = same_sightD[OF 1(2)]
  have inv1: "calm (core (sv_redis ?S1))" "room_inv c (core (sv_redis ?S1))" using seen assms(2) room_inv_visible[OF seen(2,3)] by simp_all
  obtain room m2 where 2: "getSnapshot c (sv_redis ?S1) = (Inr room, m2)" "same_sight (core (sv_redis ?S1)) (core m2)"
    using getSnapshot_answers[OF inv1] by blast
  have same: "fst (getSnapshot c (sv_redis S)) = Inr room"
    using getSnapshot_run[OF inv1(1) room_inv_family[OF inv1(2)]] getSnapshot_run[OF assms(1) room_inv_family[OF assms(2)]] seen(4) 2(1) by auto
  let ?S2 = "S\<lparr>sv_redis := m2\<rparr>"
  have g: "on_redis (getSnapshot c) ?S1 = (Inr room, ?S2)" using 2(1) by (simp add: on_redis_def)
  have v2: "visible (core m2) = visible (core (sv_redis S))" "calm (core m2)" using same_sightD[OF 2(2)] seen(2) by simp_all
  obtain n t3 where 3: "del_keys [?marker] (core m2) = (Inr n, t3)" "sees_put (core m2) ?marker None t3" using del_calm[OF v2(2)] by blast
  let ?S3 = "?S2\<lparr>sv_redis := m2\<lparr>core := t3, changes := changes m2 + 1\<rparr>\<rparr>"
  have u: "on_redis (write_store (del_keys [?marker])) ?S2 = (Inr n, ?S3)" using 3(1) by (simp add: on_redis_def write_store_def)
  consider (unmarked) "\<not> present (core (sv_redis S)) ?marker" | (playing) "present (core (sv_redis S)) ?marker" "rs_phase room = Some PLAYING"
    | (waiting) "present (core (sv_redis S)) ?marker" "rs_phase room \<noteq> Some PLAYING"
       "rs_phase room \<noteq> Some LOBBY \<or> Some (int (length (rs_players room))) \<noteq> rs_capacity room \<or> \<not> list_all (\<lambda>p. isSocketLive S c (ps_playerId p)) (rs_players room)"
    using assms(3) same unfolding ready_to_start_def by (auto split: sum.splits)
  then show ?thesis
  proof cases
    case unmarked
    then have runs: "startIfReady start c S = (Inr (), ?S1)" "startIfReady start' c S = (Inr (), ?S1)"
      using e by (simp_all add: startIfReady_def Let_def andThen_app)
    show ?thesis using seen(2) by (simp add: runs)
  next
    case playing
    then have runs: "startIfReady start c S = (Inr (), ?S3)" "startIfReady start' c S = (Inr (), ?S3)"
      using e g u by (simp_all add: startIfReady_def Let_def andThen_app)
    show ?thesis using 3(2) v2(1) by (simp add: sees_put_def runs)
  next
    case waiting
    then have runs: "startIfReady start c S = (Inr (), ?S2)" "startIfReady start' c S = (Inr (), ?S2)"
      using e g by (auto simp: startIfReady_def Let_def andThen_app looking_def)
    show ?thesis using v2(1) by (simp add: runs)
  qed
qed

text \<open>The room ABC as a quick match left it: marked, with three seats to fill.\<close>

definition matched_server :: "unit server" where
  "matched_server = lobby_server\<lparr>sv_redis := snd (write_store (redis_set (quickMatchMarkerKey ''ABC'') (FStr ''1'') [FStr ''EX'', FNum ROOM_TTL_SECONDS])
     (sv_redis lobby_server))\<rparr>"

lemma matched_server_sound: "calm (core (sv_redis matched_server))" "room_inv ''ABC'' (core (sv_redis matched_server))"
  "list_all (\<lambda>k. hash_fields (core (sv_redis matched_server)) k = hash_fields (core (sv_redis lobby_server)) k) (roomKeyFamily ''ABC'')"
proof -
  let ?s = "core (sv_redis lobby_server)" and ?k = "quickMatchMarkerKey ''ABC''"
  obtain r t where t: "redis_set ?k (FStr ''1'') [FStr ''EX'', FNum ROOM_TTL_SECONDS] ?s = (r, t)" by fastforce
  then have m: "core (sv_redis matched_server) = t" by (cases r) (simp_all add: matched_server_def write_store_def)
  have ttl: "is_safe_integer ROOM_TTL_SECONDS" "0 < ROOM_TTL_SECONDS" by code_simp+
  have away: "?k \<notin> set (roomKeyFamily ''ABC'')" by code_simp
  from set_ex_calm[OF lobby_server_sound(1) ttl, of ?k "''1''"] t
  have seen: "calm t" "now t = now ?s" "\<And>k. k \<noteq> ?k \<Longrightarrow> visible t k = visible ?s k"
    by (auto simp: sees_put_def same_sight_def)
  have spared: "visible t k = visible ?s k" if "k \<in> set (roomKeyFamily ''ABC'')" for k
  proof (rule seen(3))
    show "k \<noteq> ?k" using that away by blast
  qed
  then have "list_all (\<lambda>k. visible t k = visible ?s k) (roomKeyFamily ''ABC'')" unfolding list_all_iff by blast
  then have "room_inv ''ABC'' t = room_inv ''ABC'' ?s" using seen(2) by (rule room_inv_spared)
  then show "calm (core (sv_redis matched_server))" "room_inv ''ABC'' (core (sv_redis matched_server))"
    using seen(1) lobby_server_sound(2) unfolding m by blast+
  show "list_all (\<lambda>k. hash_fields (core (sv_redis matched_server)) k = hash_fields ?s k) (roomKeyFamily ''ABC'')"
    unfolding m list_all_iff hash_fields_def using spared by simp
qed

lemma matched_server_waits: "\<not> ready_to_start ''ABC'' matched_server"
proof -
  let ?h = "hash_fields (core (sv_redis lobby_server))"
  have "snapshot_data ''ABC'' (?h (roomKey ''ABC'')) (?h (playersKey ''ABC'')) (?h (scoresKey ''ABC'')) (?h (botsKey ''ABC''))
    = Inr \<lparr>rs_roomCode = Some ''ABC'', rs_gameCode = Some ''yacht'', rs_gameId = None, rs_hostId = Some ''u1'', rs_phase = Some LOBBY,
        rs_capacity = Some 4, rs_players = [\<lparr>ps_playerId = ''u1'', ps_nickname = ''Ann'', ps_score = Some 0, ps_kind = HUMAN\<rparr>]\<rparr>"
    by code_simp
  then show ?thesis
    using getSnapshot_run[OF matched_server_sound(1) room_inv_family[OF matched_server_sound(2)]] matched_server_sound(3)
    by (auto simp: ready_to_start_def roomKeyFamily_def)
qed

theorem quick_match_waits_for_everybody_witness:
  "fst (startIfReady (game_start lobby_assembly) ''ABC'' matched_server) = Inr ()
    \<and> startIfReady (game_start lobby_assembly) ''ABC'' matched_server = startIfReady (\<lambda>c. throw (conflict_error ''never'')) ''ABC'' matched_server"
proof -
  have 1: "calm (core (sv_redis matched_server))" and 2: "room_inv ''ABC'' (core (sv_redis matched_server))"
    using matched_server_sound by simp_all
  have 3: "\<not> ready_to_start ''ABC'' matched_server" by (rule matched_server_waits)
  let ?never = "\<lambda>c. throw (conflict_error ''never'')"
  note waits = quick_match_waits_for_everybody[OF 1 2 3, of "game_start lobby_assembly" ?never]
  show ?thesis using waits[THEN conjunct1] waits[THEN conjunct2, THEN conjunct1] by (intro conjI)
qed

end
