(* ===== verification/RouteTheorems.thy ===== *)
theory RouteTheorems
  imports Routes LifecycleTheorems SessionTheorems
begin

text \<open>
  What the routes promise: who may move a room, and what the answers are.
\<close>

section \<open>Calls that spare some keys\<close>

text \<open>A call that leaves the store calm and changes nothing that can be seen, except behind keys with \<open>Q\<close>.\<close>

definition sees_outside :: "(string \<Rightarrow> bool) \<Rightarrow> keyspace \<Rightarrow> keyspace \<Rightarrow> bool" where
  "sees_outside Q s t = (calm t \<and> now t = now s \<and> (\<forall>k. \<not> Q k \<longrightarrow> visible t k = visible s k))"

definition touches_only :: "(string \<Rightarrow> bool) \<Rightarrow> 'a platform \<Rightarrow> bool" where
  "touches_only Q f = (\<forall>m. calm (core m) \<longrightarrow> sees_outside Q (core m) (core (snd (f m))))"

named_theorems touches \<open>calls that touch only some keys\<close>

lemma touches_onlyD: "touches_only Q f \<Longrightarrow> calm (core m) \<Longrightarrow> sees_outside Q (core m) (core (snd (f m)))"
  by (simp add: touches_only_def)

lemma touches_ret [touches]: "touches_only Q (ret x)" by (simp add: touches_only_def sees_outside_def)

lemma touches_throw [touches]: "touches_only Q (throw e)" by (simp add: touches_only_def sees_outside_def)

lemma sees_outside_trans: "sees_outside Q s t \<Longrightarrow> sees_outside Q t u \<Longrightarrow> sees_outside Q s u"
  by (simp add: sees_outside_def)

lemma touches_andThen [touches]:
  assumes "touches_only Q f" "\<And>x. touches_only Q (g x)" shows "touches_only Q (andThen f g)"
  unfolding touches_only_def
proof (intro allI impI)
  fix m :: memory_redis assume "calm (core m)"
  then have 1: "sees_outside Q (core m) (core (snd (f m)))" using assms(1) by (simp add: touches_only_def)
  then have c: "calm (core (snd (f m)))" by (simp add: sees_outside_def)
  obtain r m1 where m1: "f m = (r, m1)" by fastforce
  show "sees_outside Q (core m) (core (snd (andThen f g m)))"
  proof (cases r)
    case (Inr x)
    have "sees_outside Q (core m1) (core (snd (g x m1)))" using assms(2)[of x] c m1 by (simp add: touches_only_def)
    then show ?thesis using sees_outside_trans[of Q "core m" "core m1"] 1 m1 Inr by (simp add: andThen_app)
  qed (use 1 m1 in \<open>simp add: andThen_app\<close>)
qed

lemma touches_read:
  assumes "\<And>s. calm s \<Longrightarrow> same_sight s (snd (f s))" shows "touches_only Q (read_store f)"
  unfolding touches_only_def
proof (intro allI impI)
  fix m :: memory_redis assume "calm (core m)"
  then have "same_sight (core m) (snd (f (core m)))" by (rule assms)
  then show "sees_outside Q (core m) (core (snd (read_store f m)))"
    by (cases "f (core m)") (simp add: sees_outside_def same_sight_def read_store_def)
qed

lemma touches_hgetall [touches]: "touches_only Q (read_store (hgetall k))"
proof (rule touches_read)
  fix s assume c: "calm s"
  have "snd (hgetall k s) = snd (live k s)"
    by (cases "hash_at k s"; cases "fst (hash_at k s)") (auto simp: hgetall_def andThen_app snd_hash_at[symmetric] split: sum.splits)
  then show "same_sight s (snd (hgetall k s))" using sight_live[OF c] by simp
qed

lemma touches_hget [touches]: "touches_only Q (read_store (hget k f))"
proof (rule touches_read)
  fix s assume c: "calm s"
  have "snd (hget k f s) = snd (live k s)"
    by (cases "hash_at k s"; cases "fst (hash_at k s)") (auto simp: hget_def andThen_app snd_hash_at[symmetric] split: sum.splits)
  then show "same_sight s (snd (hget k f s))" using sight_live[OF c] by simp
qed

lemma touches_hset [touches]:
  assumes "Q k" shows "touches_only Q (write_store (hset k args))"
  unfolding touches_only_def
proof (intro allI impI)
  fix m :: memory_redis assume c: "calm (core m)"
  have "sees_outside Q (core m) (snd (hset k args (core m)))"
  proof (cases "toPairs args")
    case (Inl e) then show ?thesis using c by (simp add: hset_def sees_outside_def)
  next
    case (Inr ps)
    show ?thesis
    proof (cases "hash_typed (core m) k")
      case True
      from hset_calm[OF c True Inr] show ?thesis using assms by (auto simp: sees_outside_def same_sight_def sees_put_def)
    next
      case False
      have "\<exists>e. hash_at k (core m) = (Inl e, snd (live k (core m)))"
        using False by (auto simp: hash_at_def hash_typed_def andThen_app split: option.splits redis_value.splits)
      then have "snd (hset k args (core m)) = snd (live k (core m))"
        using Inr by (auto simp: hset_def hashForWrite_def andThen_app)
      then show ?thesis using c by (simp add: sees_outside_def)
    qed
  qed
  then show "sees_outside Q (core m) (core (snd (write_store (hset k args) m)))"
    by (cases "hset k args (core m)") (simp add: write_store_def)
qed

lemma touches_expire [touches]:
  assumes "Q k" shows "touches_only Q (write_store (expire_key k (FNum (ttlOfType t))))"
  unfolding touches_only_def
proof (intro allI impI)
  fix m :: memory_redis assume "calm (core m)"
  from expire_calm[OF this ttl_safe[of t], of k]
  show "sees_outside Q (core m) (core (snd (write_store (expire_key k (FNum (ttlOfType t))) m)))"
    using assms by (auto simp: write_store_def sees_outside_def same_sight_def sees_put_def split: option.splits)
qed

definition session_key :: "string \<Rightarrow> bool" where
  "session_key k = (take 5 k = ''user:'')"

lemma session_keys [simp]: "session_key (userKey u)" "session_key (tokenKey H token)"
  by (simp_all add: session_key_def userKey_def tokenKey_def)

lemma room_keys_no_session: "k \<in> set (roomKeyFamily c) \<Longrightarrow> \<not> session_key k"
  by (auto simp: roomKeyFamily_def session_key_def ROOM_KEY_PREFIX_def roomKey_def playersKey_def scoresKey_def botsKey_def)

lemma touches_credentials [touches]: "touches_only session_key (authenticateCredentials H u token)"
  unfolding authenticateCredentials_def by (auto intro!: touches split: option.split)

lemma touches_authenticate [touches]: "touches_only session_key (authenticate H u authorization)"
  unfolding authenticate_def by (auto intro!: touches split: sum.split)

section \<open>Only the host moves the room\<close>

text \<open>Who the headers authenticate is the host of the room and sits in it.\<close>

definition may_move :: "'w assembly \<Rightarrow> headers \<Rightarrow> string \<Rightarrow> 'w server \<Rightarrow> bool" where
  "may_move A hs c S = (case fst (authenticated_user A hs S) of Inl e \<Rightarrow> False
     | Inr u \<Rightarrow> present (core (sv_redis S)) (roomKey c)
         \<and> map_of (hash_fields (core (sv_redis S)) (roomKey c)) ''hostId'' = Some (ui_userId u)
         \<and> has_key (hash_fields (core (sv_redis S)) (playersKey c)) (ui_userId u))"

lemma authenticated_user_run:
  assumes "calm (core (sv_redis S))"
  obtains r m where "authenticated_user A hs S = (r, S\<lparr>sv_redis := m\<rparr>)" "sees_outside session_key (core (sv_redis S)) (core m)"
proof -
  let ?f = "authenticate (as_hash A) (request_header hs ''x-user-id'') (request_header hs ''authorization'')"
  obtain r m where f: "?f (sv_redis S) = (r, m)" by fastforce
  have "sees_outside session_key (core (sv_redis S)) (core m)"
    using touches_onlyD[OF touches_authenticate assms, of "as_hash A" "request_header hs ''x-user-id''" "request_header hs ''authorization''"] f by simp
  moreover have "authenticated_user A hs S = (r, S\<lparr>sv_redis := m\<rparr>)" using f by (simp add: authenticated_user_def on_redis_def)
  ultimately show thesis using that by blast
qed

lemma host_seen:
  assumes "shows_room c R P SC B snapshot"
  shows "isHost snapshot u \<longleftrightarrow> map_of R ''hostId'' = Some u \<and> has_key P u"
proof -
  have "ps_playerId ` set (rs_players snapshot) = keys_of P" using assms by (simp add: shows_room_def)
  then have seat: "has_key P u \<longleftrightarrow> list_ex (\<lambda>q. ps_playerId q = u) (rs_players snapshot)"
    unfolding has_key_iff list_ex_iff by (metis image_iff)
  have "rs_hostId snapshot = map_of R ''hostId''" using assms by (simp add: shows_room_def)
  then show ?thesis using seat by (simp add: isHost_def)
qed

lemma snapshot_of_store:
  assumes "calm (core m)" "room_inv c (core m)"
  obtains snapshot m' where "getSnapshot c m = (Inr snapshot, m')" "same_sight (core m) (core m')"
    "present (core m) (roomKey c) \<Longrightarrow> shows_room c (hash_fields (core m) (roomKey c)) (hash_fields (core m) (playersKey c))
       (hash_fields (core m) (scoresKey c)) (hash_fields (core m) (botsKey c)) snapshot"
    "\<not> present (core m) (roomKey c) \<Longrightarrow> snapshot = roomNotFound (Some c)"
proof -
  let ?R = "hash_fields (core m) (roomKey c)" and ?P = "hash_fields (core m) (playersKey c)" and ?S = "hash_fields (core m) (scoresKey c)"
    and ?B = "hash_fields (core m) (botsKey c)"
  obtain m' where run: "getSnapshot c m = (snapshot_data c ?R ?P ?S ?B, m')" "same_sight (core m) (core m')"
    using getSnapshot_run[OF assms(1) room_inv_family[OF assms(2)]] by blast
  have wf: "wf_map ?P" using assms(1) wf_hash_fields[of "core m" "playersKey c"] by (simp add: calm_def)
  show thesis
  proof (cases "present (core m) (roomKey c)")
    case True
    then have "room_data_ok ?R ?P ?S ?B" using assms(2) by (auto simp: room_inv_def)
    then show ?thesis using True snapshot_of_room[OF _ wf] run that by force
  next
    case False
    then have "?R = []" by (simp add: present_def hash_fields_def split: option.split)
    then show ?thesis using False run that by (simp add: snapshot_data_def)
  qed
qed

lemma stranger_moves_nothing:
  assumes "calm (core (sv_redis S))" "room_inv c (core (sv_redis S))" "\<not> may_move A hs c S"
  shows "case served (hostTransition A action onError hs c) S of (reply, S') \<Rightarrow> hr_status reply \<in> {401, 403, 404, 500}
    \<and> S' = S\<lparr>sv_redis := sv_redis S'\<rparr> \<and> (\<forall>k. \<not> session_key k \<longrightarrow> visible (core (sv_redis S')) k = visible (core (sv_redis S)) k)"
proof -
  let ?run = "hostTransition A action onError hs c S"
  obtain r m where auth: "authenticated_user A hs S = (r, S\<lparr>sv_redis := m\<rparr>)" "sees_outside session_key (core (sv_redis S)) (core m)"
    using authenticated_user_run[OF assms(1)] by metis
  show ?thesis
  proof (cases r)
    case (Inl e)
    then show ?thesis using auth
      by (cases "e = SessionAuthenticationError")
        (simp_all add: served_def hostTransition_def authenticateGuest_def andThen_app try_catch_def sees_outside_def reply_with_def)
  next
    case (Inr u)
    have guest: "authenticateGuest A hs S = (Inr (Inr u), S\<lparr>sv_redis := m\<rparr>)" using auth(1) Inr by (simp add: authenticateGuest_def andThen_app try_catch_def)
    have m: "calm (core m)" "now (core m) = now (core (sv_redis S))" "\<And>k. \<not> session_key k \<Longrightarrow> visible (core m) k = visible (core (sv_redis S)) k"
      using auth(2) by (simp_all add: sees_outside_def)
    have "list_all (\<lambda>k. visible (core m) k = visible (core (sv_redis S)) k) (roomKeyFamily c)" using m(3) room_keys_no_session by (auto simp: list_all_iff)
    then have inv: "room_inv c (core m)" using room_inv_spared m(2) assms(2) by blast
    have v: "visible (core m) (roomKey c) = visible (core (sv_redis S)) (roomKey c)" "visible (core m) (playersKey c) = visible (core (sv_redis S)) (playersKey c)"
      using m(3) room_keys_no_session[of _ c] by (simp_all add: roomKeyFamily_def)
    then have same: "present (core m) (roomKey c) = present (core (sv_redis S)) (roomKey c)"
      "hash_fields (core m) (roomKey c) = hash_fields (core (sv_redis S)) (roomKey c)" "hash_fields (core m) (playersKey c) = hash_fields (core (sv_redis S)) (playersKey c)"
      by (simp_all add: present_def hash_fields_def)
    obtain snapshot m2 where get: "getSnapshot c m = (Inr snapshot, m2)" "same_sight (core m) (core m2)"
      and displays: "present (core m) (roomKey c) \<Longrightarrow> shows_room c (hash_fields (core m) (roomKey c)) (hash_fields (core m) (playersKey c))
         (hash_fields (core m) (scoresKey c)) (hash_fields (core m) (botsKey c)) snapshot"
      and missing: "\<not> present (core m) (roomKey c) \<Longrightarrow> snapshot = roomNotFound (Some c)"
      using snapshot_of_store[OF m(1) inv] by metis
    have stopped: "rs_phase snapshot = None \<or> \<not> isHost snapshot (ui_userId u)"
    proof (cases "present (core m) (roomKey c)")
      case True
      then show ?thesis using host_seen[OF displays[OF True], of "ui_userId u"] assms(3) auth(1) Inr same by (simp add: may_move_def)
    qed (simp add: missing roomNotFound_def)
    have run: "?run = (Inr (reply_with (if rs_phase snapshot = None then 404 else 403)
        (CodeText (if rs_phase snapshot = None then ''room_not_found'' else ''host_only''))), S\<lparr>sv_redis := m2\<rparr>)"
      using guest get(1) stopped by (auto simp: hostTransition_def andThen_app on_redis_def sendCode_def)
    show ?thesis using m(3) same_sightD(2)[OF get(2)] by (simp add: served_def run reply_with_def)
  qed
qed

text \<open>
  C37: Only the host moves the room. Unless the headers authenticate the stored host of the room, who sits in it, the
  requests to start its game and to bring it back to the lobby are answered with 401, 403, 404 or 500, and nothing that can be
  seen of the store, apart from the keys of sessions, nothing of the seats, of the games and of what was sent changes.
\<close>
theorem only_the_host_moves_the_room:
  assumes "calm (core (sv_redis S))" "room_inv c (core (sv_redis S))" "\<not> may_move A hs c S"
    and "route = start_route A \<or> route = lobby_route A"
  shows "case served (route hs c) S of (reply, S') \<Rightarrow> hr_status reply \<in> {401, 403, 404, 500}
    \<and> S' = S\<lparr>sv_redis := sv_redis S'\<rparr> \<and> (\<forall>k. \<not> session_key k \<longrightarrow> visible (core (sv_redis S')) k = visible (core (sv_redis S)) k)"
  using assms(4)
proof
  assume "route = start_route A"
  then show ?thesis using stranger_moves_nothing[OF assms(1-3)] by (simp add: start_route_def)
next
  assume "route = lobby_route A"
  then show ?thesis using stranger_moves_nothing[OF assms(1-3)] by (simp add: lobby_route_def)
qed

text \<open>The room ABC with its player Ann; Bob, who has a session, is not in it.\<close>

definition bobs_server :: "unit server" where
  "bobs_server = lobby_server\<lparr>sv_redis := snd (createGuest rev (Some ''Bob'') ''u2'' ''tok'' (sv_redis lobby_server))\<rparr>"

definition bobs_headers :: headers where
  "bobs_headers = [(''x-user-id'', OneValue ''u2''), (''authorization'', OneValue ''Bearer tok'')]"

lemma bobs_server_sound: "calm (core (sv_redis bobs_server))" "room_inv ''ABC'' (core (sv_redis bobs_server))"
proof -
  let ?m = "sv_redis lobby_server"
  let ?opening = "write_session rev GUEST ''u2'' ''Bob'' ''tok''"
  have ok: "session_keys_ok rev ''u2'' ''tok'' (core ?m)"
  proof -
    have "hash_typed (core ?m) (userKey ''u2'')" "text_typed (core ?m) (tokenKey rev ''tok'')" "userKey ''u2'' \<noteq> tokenKey rev ''tok''" by code_simp+
    then show ?thesis using lobby_server_sound(1) by (simp add: session_keys_ok_def)
  qed
  have run: "fst (?opening ?m) = Inr ()" by code_simp
  have n: "normalizeNickname (Some ''Bob'') = Inr ''Bob''" by code_simp
  have m: "sv_redis bobs_server = snd (?opening ?m)"
    by (cases "?opening ?m"; cases "fst (?opening ?m)") (auto simp: bobs_server_def createGuest_def n andThen_app)
  note w = write_session_calm[OF ok run, folded m]
  show "calm (core (sv_redis bobs_server))" by (rule w(1))
  have "visible (core (sv_redis bobs_server)) k = visible (core ?m) k" if "k \<in> set (roomKeyFamily ''ABC'')" for k
  proof (rule w(7))
    show "k \<noteq> userKey ''u2''" "k \<noteq> tokenKey rev ''tok''" using room_keys_no_session[OF that] session_keys by metis+
  qed
  then show "room_inv ''ABC'' (core (sv_redis bobs_server))"
    using room_inv_spared[of "core (sv_redis bobs_server)" "core ?m" "''ABC''"] w(2) lobby_server_sound(2) by (simp add: list_all_iff)
qed

theorem only_the_host_moves_the_room_witness:
  "hr_status (fst (served (start_route lobby_assembly bobs_headers ''ABC'') bobs_server)) \<in> {401, 403, 404, 500}
    \<and> visible (core (sv_redis (snd (served (start_route lobby_assembly bobs_headers ''ABC'') bobs_server)))) (roomKey ''ABC'')
      = visible (core (sv_redis bobs_server)) (roomKey ''ABC'')"
proof -
  have stranger: "\<not> may_move lobby_assembly bobs_headers ''ABC'' bobs_server" by code_simp
  have "\<not> session_key (roomKey ''ABC'')" by (rule room_keys_no_session[of _ "''ABC''"]) (simp add: roomKeyFamily_def)
  then show ?thesis using only_the_host_moves_the_room[OF bobs_server_sound stranger, of "start_route lobby_assembly"] by (auto split: prod.splits)
qed

section \<open>Entering a room\<close>

text \<open>Calls that fail only because the store does.\<close>

definition store_fails_only :: "('s, platform_error, 'a) cmd \<Rightarrow> bool" where
  "store_fails_only f = (\<forall>s e. fst (f s) = Inl e \<longrightarrow> (\<exists>x. e = StoreFailed x))"

lemma store_fails_only_intros:
  "store_fails_only (ret x)"
  "store_fails_only (read_store g)"
  "store_fails_only (write_store g)"
  "store_fails_only f \<Longrightarrow> (\<And>x. store_fails_only (h x)) \<Longrightarrow> store_fails_only (andThen f h)"
proof -
  show "store_fails_only (ret x)" by (simp add: store_fails_only_def)
  show "store_fails_only (read_store g)" "store_fails_only (write_store g)"
    unfolding store_fails_only_def read_store_def write_store_def by (auto split: prod.splits) (metis map_sum.simps obj_sumE sum.inject(1) sum.distinct(1))+
  assume f: "store_fails_only f" and h: "\<And>x. store_fails_only (h x)"
  show "store_fails_only (andThen f h)"
    unfolding store_fails_only_def
  proof (intro allI impI)
    fix s e assume e: "fst (andThen f h s) = Inl e"
    show "\<exists>x. e = StoreFailed x"
    proof (cases "f s")
      case (Pair r t)
      then show ?thesis using e f h by (cases r) (auto simp: andThen_app store_fails_only_def dest: arg_cong[where f = fst])
    qed
  qed
qed

lemma write_session_fails: "store_fails_only (write_session H t u n tok)"
  unfolding write_session_def by (intro store_fails_only_intros)

lemma assignRoom_fails: "store_fails_only (assignRoom u room c h)"
  unfolding assignRoom_def ttlOf_def by (intro store_fails_only_intros)

lemma touches_assignRoom: "touches_only session_key (assignRoom u room c h)"
proof -
  have guest: "(case parseUserType v of None \<Rightarrow> GUEST_TTL_SECONDS | Some t \<Rightarrow> ttlOfType t)
    = ttlOfType (case parseUserType v of None \<Rightarrow> GUEST | Some t \<Rightarrow> t)" for v
    by (simp add: ttlOfType_def split: option.split)
  have flat: "andThen (andThen f (\<lambda>v. ret (x v))) g = andThen f (\<lambda>v. g (x v))" for f :: "'b platform" and x g
    by (auto simp: andThen_app fun_eq_iff split: prod.split sum.split)
  show ?thesis unfolding assignRoom_def ttlOf_def guest flat by (auto intro!: touches)
qed

text \<open>The identifier and the token a new guest gets.\<close>

definition drawn_guest :: "'w assembly \<Rightarrow> 'w server \<Rightarrow> string \<times> string" where
  "drawn_guest A S = (case as_fresh A (sv_games S) of (u, w) \<Rightarrow> (u, fst (as_fresh A w)))"

lemma guest_enters:
  assumes "calm (core (sv_redis S))" "room_inv c (core (sv_redis S))" "\<not> blank c"
    and draw: "drawn_guest A S = (u, tok)" and ok: "session_keys_ok (as_hash A) u tok (core (sv_redis S))"
    and n: "normalizeNickname nick = Inr n"
  defines "body \<equiv> \<lparr>eb_nickname = nick, eb_room_id = Some c, eb_session_token = None\<rparr>"
  obtains (store) x S' where "enterRoom A dashboard body code party S = (Inl (StoreFailed x), S')"
  | (refused) e S' where "join_refusal (core (sv_redis S)) c u = Some e" "enterRoom A dashboard body code party S = (Inl e, S')"
  | (entered) game S' where "join_refusal (core (sv_redis S)) c u = None"
      "enterRoom A dashboard body code party S = (Inr (Some \<lparr>er_id = u, er_nickname = n, er_token = tok, er_room_id = c, er_game_code = game\<rparr>), S')"
      "map_of (hash_fields (core (sv_redis S')) (playersKey c)) u
        = Some (case map_of (hash_fields (core (sv_redis S)) (playersKey c)) u of None \<Rightarrow> n | Some old \<Rightarrow> old)"
proof -
  let ?m = "sv_redis S" and ?id = "identity_of u n GUEST"
  obtain w w2 where w: "as_fresh A (sv_games S) = (u, w)" "as_fresh A w = (tok, w2)"
    using draw by (cases "as_fresh A (sv_games S)"; cases "as_fresh A (snd (as_fresh A (sv_games S)))") (auto simp: drawn_guest_def)
  obtain q m1 where opened: "write_session (as_hash A) GUEST u n tok ?m = (q, m1)" by fastforce
  have run: "enterRoom A dashboard body code party S = (case q of Inl e \<Rightarrow> (Inl e, S\<lparr>sv_games := w2, sv_redis := m1\<rparr>)
      | Inr _ \<Rightarrow> andThen (joinExisting (?id, tok) c) (\<lambda>r. ret (Some r)) (S\<lparr>sv_games := w2, sv_redis := m1\<rparr>))"
    using assms(3) w opened n
    by (simp add: enterRoom_def body_def no_token_def resolveEntrant_def andThen_app fresh_def on_redis_def createGuest_def split: sum.split)
  show thesis
  proof (cases q)
    case (Inl e)
    then obtain x where "e = StoreFailed x" using write_session_fails opened unfolding store_fails_only_def by (metis fst_conv)
    then show thesis using store run Inl by simp
  next
    case (Inr v)
    have done1: "fst (write_session (as_hash A) GUEST u n tok ?m) = Inr ()" using opened Inr by simp
    note ws = write_session_calm[OF ok done1, unfolded opened snd_conv]
    have far: "visible (core m1) k = visible (core ?m) k" if "k \<in> set (roomKeyFamily c)" for k
    proof (rule ws(7))
      show "k \<noteq> userKey u" "k \<noteq> tokenKey (as_hash A) tok" using room_keys_no_session[OF that] session_keys by metis+
    qed
    then have inv1: "room_inv c (core m1)" using room_inv_spared[of "core m1" "core ?m" c] ws(2) assms(2) by (simp add: list_all_iff)
    have v: "visible (core m1) (roomKey c) = visible (core ?m) (roomKey c)" "visible (core m1) (playersKey c) = visible (core ?m) (playersKey c)"
      using far by (simp_all add: roomKeyFamily_def)
    have same: "join_refusal (core m1) c u = join_refusal (core ?m) c u" "hash_fields (core m1) (playersKey c) = hash_fields (core ?m) (playersKey c)"
      using v by (simp_all add: join_refusal_def present_def hash_fields_def)
    obtain j m2 where join: "room_join c ?id m1 = (j, m2)" by fastforce
    let ?S2 = "S\<lparr>sv_games := w2, sv_redis := m2\<rparr>"
    have run2: "enterRoom A dashboard body code party S = (case j of Inl e \<Rightarrow> (Inl e, ?S2) | Inr snapshot \<Rightarrow>
        (case assignRoom u c c (case rs_hostId snapshot of None \<Rightarrow> '''' | Some h \<Rightarrow> h) m2 of (Inl e, m3) \<Rightarrow> (Inl e, ?S2\<lparr>sv_redis := m3\<rparr>)
         | (Inr _, m3) \<Rightarrow> (Inr (Some \<lparr>er_id = u, er_nickname = n, er_token = tok, er_room_id = c, er_game_code = rs_gameCode snapshot\<rparr>), ?S2\<lparr>sv_redis := m3\<rparr>)))"
      using run Inr join by (simp add: joinExisting_def andThen_app on_redis_def identity_of_def enter_response_of_def split: sum.split prod.split)
    show thesis
    proof (cases "j = Inl (StoreFailed OOM_MESSAGE)")
      case True then show thesis using store run2 by simp
    next
      case False
      then have "fst (room_join c ?id m1) \<noteq> Inl (StoreFailed OOM_MESSAGE)" using join by simp
      note answers = room_join_answers[OF ws(1) inv1 this, unfolded join fst_conv snd_conv]
      have id: "ui_userId ?id = u" "ui_nickname ?id = n" by (simp_all add: identity_of_def)
      show thesis
      proof (cases "join_refusal (core ?m) c u")
        case (Some e)
        then show thesis using refused answers run2 by (simp add: id same)
      next
        case None
        then obtain snapshot where j: "j = Inr snapshot" "shown_names snapshot = (if has_key (hash_fields (core ?m) (playersKey c)) u
              then map_of (hash_fields (core ?m) (playersKey c)) else (map_of (hash_fields (core ?m) (playersKey c)))(u \<mapsto> n))"
            "calm (core m2)" "map_of (hash_fields (core m2) (playersKey c)) = shown_names snapshot"
          using answers by (auto simp: id same)
        obtain a m3 where assign: "assignRoom u c c (case rs_hostId snapshot of None \<Rightarrow> '''' | Some h \<Rightarrow> h) m2 = (a, m3)" by fastforce
        show thesis
        proof (cases a)
          case (Inl e)
          then obtain x where "e = StoreFailed x" using assignRoom_fails assign unfolding store_fails_only_def by (metis fst_conv)
          then show thesis using store run2 j(1) assign Inl by simp
        next
          case Inr2: (Inr z)
          have "sees_outside session_key (core m2) (core m3)" using touches_onlyD[OF touches_assignRoom j(3)] assign by (metis snd_conv)
          then have "visible (core m3) (playersKey c) = visible (core m2) (playersKey c)"
            using room_keys_no_session[of "playersKey c" c] by (simp add: sees_outside_def roomKeyFamily_def)
          then have "map_of (hash_fields (core m3) (playersKey c)) = shown_names snapshot" using j(4) by (simp add: hash_fields_def)
          then show thesis using entered[OF None] run2 j(1,2) assign Inr2 by (auto simp: has_key_def split: option.splits)
        qed
      qed
    qed
  qed
qed

text \<open>
  C38: Entering a room by its code. A guest without a session who asks for a room that keeps the invariant is answered, unless
  the store fails, by what is stored: a nickname that is empty or too long with 400, a missing room with 404, a
  room that is played in or full with 409 and its code; otherwise with 200, the drawn identifier and token and the room, in whose
  stored list the guest then sits under the given name.
\<close>
theorem entering_answers_by_the_room:
  assumes "calm (core (sv_redis S))" "room_inv c (core (sv_redis S))" "\<not> blank c"
    and "drawn_guest A S = (u, tok)" "session_keys_ok (as_hash A) u tok (core (sv_redis S))"
    and "\<not> has_key (hash_fields (core (sv_redis S)) (playersKey c)) u"
    and "enter_route A dashboard \<lparr>eb_nickname = nick, eb_room_id = Some c, eb_session_token = None\<rparr> code party S = (Inr r, S')"
  shows "case normalizeNickname nick of Inl e \<Rightarrow> r = Some (reply_with 400 (CodeText ''invalid_nickname''))
    | Inr n \<Rightarrow> (case join_refusal (core (sv_redis S)) c u of
        Some e \<Rightarrow> r = Some (case is_conflict_error e of Some why \<Rightarrow> reply_with 409 (CodeText why) | None \<Rightarrow> reply_with 404 (CodeText ''room_not_found''))
      | None \<Rightarrow> (\<exists>game. r = Some (reply_with 200 (Entered \<lparr>er_id = u, er_nickname = n, er_token = tok, er_room_id = c, er_game_code = game\<rparr>)))
          \<and> map_of (hash_fields (core (sv_redis S')) (playersKey c)) u = Some n)"
proof (cases "normalizeNickname nick")
  case (Inl e)
  then have e: "e = InvalidNicknameError" by (auto simp: normalizeNickname_def Let_def split: if_splits)
  obtain w w2 where "as_fresh A (sv_games S) = (u, w)" "as_fresh A w = (tok, w2)"
    using assms(4) by (cases "as_fresh A (sv_games S)"; cases "as_fresh A (snd (as_fresh A (sv_games S)))") (auto simp: drawn_guest_def)
  then show ?thesis using assms(3,7) Inl
    by (simp add: e enter_route_def enterRoom_def no_token_def resolveEntrant_def andThen_app fresh_def on_redis_def createGuest_def
        try_catch_def sendDomainError_def sendCode_def)
next
  case (Inr n)
  note route = assms(7)[unfolded enter_route_def]
  from assms(1-5) Inr show ?thesis
  proof (cases rule: guest_enters[where dashboard = dashboard and party = "party = Some ''true''"
        and code = "case code of None \<Rightarrow> ''YACHT_DICE'' | Some g \<Rightarrow> g"])
    case (store x T)
    then show ?thesis using route by (simp add: try_catch_def andThen_app sendDomainError_def)
  next
    case (refused e T)
    then have "e = domain_error ''room_not_found'' \<or> e = conflict_error ''game_started'' \<or> e = conflict_error ''room_full''"
      by (auto simp: join_refusal_def split: if_splits)
    then show ?thesis using refused route Inr by (auto simp: try_catch_def andThen_app sendDomainError_def sendCode_def)
  next
    case (entered game T)
    then show ?thesis using route Inr assms(6) by (auto simp: try_catch_def andThen_app has_key_def)
  qed
qed

theorem entering_answers_by_the_room_witness:
  "map_of (hash_fields (core (sv_redis (snd (enter_route lobby_assembly ''board''
      \<lparr>eb_nickname = Some ''Cho'', eb_room_id = Some ''ABC'', eb_session_token = None\<rparr> None None lobby_server)))) (playersKey ''ABC'')) ''g7'' = Some ''Cho''"
proof -
  let ?run = "enter_route lobby_assembly ''board'' \<lparr>eb_nickname = Some ''Cho'', eb_room_id = Some ''ABC'', eb_session_token = None\<rparr> None None lobby_server"
  let ?s = "core (sv_redis lobby_server)"
  have 1: "\<not> blank ''ABC''" "drawn_guest lobby_assembly lobby_server = (''g7'', ''g7'')" by code_simp+
  have 2: "session_keys_ok (as_hash lobby_assembly) ''g7'' ''g7'' ?s"
  proof -
    have "hash_typed ?s (userKey ''g7'')" "text_typed ?s (tokenKey (as_hash lobby_assembly) ''g7'')"
      "userKey ''g7'' \<noteq> tokenKey (as_hash lobby_assembly) ''g7''" by code_simp+
    then show ?thesis using lobby_server_sound(1) by (simp add: session_keys_ok_def)
  qed
  have 3: "\<not> has_key (hash_fields ?s (playersKey ''ABC'')) ''g7''" by code_simp
  have n: "normalizeNickname (Some ''Cho'') = Inr ''Cho''" by code_simp
  have free: "join_refusal ?s ''ABC'' ''g7'' = None" by code_simp
  have "\<exists>r. fst ?run = Inr r" by (rule exI) code_simp
  then obtain r where "?run = (Inr r, snd ?run)" by (metis prod.collapse)
  from entering_answers_by_the_room[OF lobby_server_sound 1 2 3 this] show ?thesis by (simp add: n free)
qed

end
