(* ===== verification/Spec2Isabelle.thy ===== *)
theory Spec2Isabelle
  imports RedisSnapshot ScoreService DavinciTheorems DuelTheorems PingPongTheorems RoundStoreRefinement YachtTheorems JoinTheorems RoomServiceTheorems RouteTheorems
begin

text \<open>
  Verification development for YORR, a platform of small multiplayer games.

  \<^bold>\<open>The program.\<close> A Node process (\<open>backend/src\<close>) is the authority: people meet in rooms, play one of four games
  (dice, duel, table tennis, Da Vinci Code) over WebSockets, and the process keeps everything that is alive in an
  in-process store with the commands of Redis (\<open>infra/\<close>). A React client (\<open>frontend/src\<close>) shows it. Rooms are changed
  only by atomic scripts over the store (\<open>room/scripts/\<close>); the game modules (\<open>game/\<close>) hold the rules as immutable
  states that are stored under a room lock, and a deadline scheduler moves a turn on when its player does not.

  \<^bold>\<open>Reading the model.\<close> A call that may throw is a function from a state to a pair of a result (\<open>Inl\<close> the error, \<open>Inr\<close>
  the value) and the state left behind (\<open>Prelude\<close>: \<open>ret\<close>, \<open>throw\<close>, \<open>andThen\<close>, \<open>try_catch\<close>). A JavaScript \<open>Map\<close> or a record
  used as a dictionary is an association list in the order of insertion. Times are integers (milliseconds), the clock is
  a field of the state, random numbers and fresh identifiers are arguments or come from a port. Code outside \<open>src/\<close> and
  services of other components appear as records of functions (ports) that may throw anywhere. An awaited call of the
  store runs to its end; where other tasks may run in between (the state stores) they are an explicit argument. In the
  gateway every event runs to its end before the next; a game acts on what is shared only through its ports.

  \<^bold>\<open>Theories and source.\<close>
  \<^item> The store. \<open>RedisTypes\<close> (\<open>redisTypes.ts\<close>, \<open>redisKeyspace.ts\<close>, \<open>redisSnapshot.ts\<close>): the record \<open>keyspace\<close>, lazy
    expiry, the key cap, admission of scripts, snapshots. \<open>RedisCommands\<close> (\<open>redisStrings.ts\<close>, \<open>redisHashes.ts\<close>,
    \<open>redisZsets.ts\<close>, \<open>redisKeyCommands.ts\<close>, \<open>memoryRedis.ts\<close>): one definition per command. \<open>RedisInvariant\<close>: what every
    command keeps, as a locale over a predicate. \<open>RedisStore\<close>: the entries that can be seen and the cap over all
    histories. \<open>RedisView\<close>: commands as functions on what can be seen. \<open>RedisSnapshot\<close>: restart and lock.
  \<^item> Rooms. \<open>Room\<close> (\<open>keys.ts\<close>, \<open>scripts/\<close>): keys and scripts. \<open>RoomInvariant\<close>: the invariant of the four hashes of a room
    and each script on a store without expired entries. \<open>GameScripts\<close> (\<open>score/scripts.ts\<close>, \<open>completion/scripts.ts\<close>).
    \<open>RoomTheorems\<close>: all calls keep the invariant, succession of the host, the end of a game, scores counted once.
  \<^item> Scores. \<open>Score\<close> (the twelve categories, \<open>game/score\<close>), \<open>ScoreBoards\<close> (running totals against a recount),
    \<open>ScoreService\<close> (the pipeline of a confirmation over the store).
  \<^item> Da Vinci Code. \<open>Davinci\<close> (\<open>game/davinci\<close>: tiles, state, moves, views), \<open>DavinciInvariant\<close>, \<open>DavinciTheorems\<close>.
  \<^item> Duel. \<open>Duel\<close> (\<open>game/duel\<close>: phases, judgement, fouls), \<open>DuelTheorems\<close>.
  \<^item> Table tennis. \<open>PingPong\<close> (\<open>game/pingpong\<close>: match, trajectory, grading, results), \<open>PingPongTheorems\<close>.
  \<^item> Dice. \<open>Rounds\<close> (\<open>game/round\<close>: the round state and its operations, the in-memory store), \<open>RoundsTheorems\<close>.
    \<open>DeadlineScheduler\<close> (\<open>deadlineScheduler.ts\<close>: slots, generations, the executor's timers), \<open>RoundTimer\<close>
    (\<open>roundTimerService.ts\<close> and its parts: starting, advancing and expiring turns, absent players),
    \<open>RoundTimerTheorems\<close>, \<open>YachtModule\<close> (\<open>game/yacht\<close>: actions and hooks, the events of a running process, a restart),
    \<open>YachtInvariant\<close> (what every event keeps, as triples per command), \<open>YachtTheorems\<close>.
  \<^item> State stores. \<open>JsonText\<close>: \<open>JSON.stringify\<close> and \<open>JSON.parse\<close>. \<open>StateStores\<close> (\<open>yacht/\<close>, \<open>duel/\<close>, \<open>davinci/\<close>, \<open>pingpong/\<close>:
    the stores of the states, the room lock), \<open>StateStoreTheorems\<close>, \<open>RoundStoreRefinement\<close>.
  \<^item> Services. \<open>Platform\<close> (\<open>errors.ts\<close>, the reading and writing methods of \<open>memoryRedis.ts\<close>): errors, and what commands
    outside scripts do to the entries that can be seen. \<open>RoomService\<close> (\<open>room/roomService.ts\<close>, \<open>snapshot.ts\<close>, \<open>botService.ts\<close>),
    \<open>RoomServiceTheorems\<close>; \<open>Sessions\<close> (\<open>user/session.ts\<close>), \<open>SessionTheorems\<close>.
  \<^item> Gateway. \<open>RoomSeats\<close> (\<open>ws/roomMembers.ts\<close>, \<open>registry.ts\<close>, \<open>broadcaster.ts\<close>: who sits where at which socket), \<open>Server\<close> (the state
    of the process, frames, sending, the catalog and the modules of games as records of hooks), \<open>Gateway\<close> (\<open>ws/handler.ts\<close>,
    \<open>roomJoin.ts\<close>, \<open>roomLifecycle.ts\<close>, \<open>roomMessages.ts\<close>, \<open>chat.ts\<close>, \<open>heartbeat.ts\<close>, \<open>controllerSignal.ts\<close>, \<open>snapshot.ts\<close>,
    \<open>room/closeScheduler.ts\<close>: every event of the process), \<open>GatewayTheorems\<close> (seats, links and audiences; silent sockets),
    \<open>Speaking\<close> (who is heard, the limit of the chat), \<open>JoinTheorems\<close> (who may sit down).
  \<^item> Games and routes. \<open>Lifecycle\<close> (\<open>game/lifecycle.ts\<close>, \<open>game/startupResume.ts\<close>, \<open>room/quickMatch*.ts\<close>: starting and
    ending a game, resuming after a restart, quick matches), \<open>LifecycleTheorems\<close>; \<open>Routes\<close> (\<open>http/routes\<close>: rooms, bots, quick
    matches, games; \<open>http/headers.ts\<close>, \<open>http/errorResponse.ts\<close>), \<open>RouteTheorems\<close>.
  \<^bold>\<open>What is shown.\<close> The store: the cap is never exceeded, a script that would exceed it changes nothing, a snapshot is
  read back, a lock has one owner. Rooms: every call keeps the room's hashes in agreement. Each game: its states stay
  valid, it ends within a bound (or runs for ever for a stated reason), its judgements follow the stated rules, what a
  player may not see is not in the view. The stores: updates of a room exclude each other and the store over Redis
  simulates the one in memory operation by operation. The turn clock: a deadline is neither lost nor fired late, a turn that
  ran out of time moves on whatever fails, and with its next clock unless starting that clock fails, the clocks of a room belong to the turn that is played whatever the ports do, and a restart resumes the turn. Sessions
  and rooms: the last token of a user is the only one that authenticates, a snapshot shows the stored room, joining answers
  what the room is like. The gateway: seats, links and audiences agree in every reachable state, nobody speaks for another,
  a returning player keeps the seat and loses the old socket, the chat is limited as long as nobody leaves, silent sockets are ended. A
  start that fails is undone, whatever the module of the game did to the room by calls, a quick match starts only with everybody connected. The routes: only the host moves a
  room, and entering a room is answered by what is stored.

  \<^bold>\<open>Bounds and fuel.\<close> The JSON parser has fuel twice the length of the text plus two, enough for every text the printer
  makes (proved). Waiting for a room lock ends by its deadline. The chain of turns that end at once has the fuel
  \<open>turns_fuel\<close>, one more than the places left to play; \<open>turn_chain_ends\<close> shows it suffices. Integers stay below the safe
  range of JavaScript where a command checks it (\<open>is_safe_integer\<close>).

  \<^bold>\<open>Not modelled.\<close> Glob patterns of \<open>KEYS\<close> and \<open>SCAN\<close>; the file of the snapshot; SQLite, Fastify, metrics and the wiring of
  the process; OAuth and mail, which are services; timers and broadcasts of duel, table tennis and Da Vinci Code (their
  rules are); the codecs of those three states, which are parameters of their stores; floating-point geometry of the
  court; the React client, its rendering, audio and input; mocks, end-to-end tests and tooling. Texts shown to people are
  left out of error frames. Blanks are those below code 256 and letters change case only in ASCII.

  \<^bold>\<open>Simplifications.\<close> Looking a name up in a record used as a dictionary sees its own entries only, not the names every
  JavaScript object inherits, and entries stay in the order of insertion also for names that look like integers. Reads that
  the code starts together (\<open>Promise.all\<close>) run one after the other. The stored deadlines of the turn clock are a map that never
  throws; over Redis, saving one may find the store full. Table tennis computes with exact rationals. The hooks of
  the game modules are arguments of the lifecycle and the gateway, held to nothing but the laws a theorem names; the dice
  game's own hooks are modelled in \<open>YachtModule\<close> over ports of their own, the two are not joined. A party room of table
  tennis takes over any score its dashboard reports, and of the chat's limit every departure starts a new count: the theorems
  say so.
\<close>

end
